(* ===== verification/Prelude.thy ===== *)
theory Prelude
  imports Main "HOL-Library.Word"
begin

text \<open>
  What every component shares.

  \<^item> Machine integers: \<open>u8\<close> to \<open>u64\<close> are words of the width the C type has, so that
    \<open>+\<close>, \<open>-\<close> and \<open>*\<close> wrap around as they do in C.
  \<^item> Pointers: an object that the code passes around by pointer carries its own address
    (\<open>addr\<close>); comparing two pointers is comparing two addresses.
  \<^item> Undefined behaviour: an operation that dereferences a null or dangling pointer, indexes
    an array out of bounds, divides by zero or reads an uninitialised variable has the
    result \<open>Inl fault\<close>. Every other outcome, error returns included, is \<open>Inr\<close>.
  \<^item> \<open>assert\<close> is compiled out in the build the repository ships, so it has no branch in the
    model; where an assertion holds it is proved as a lemma.
  \<^item> Queues of \<^verbatim>\<open>sys/queue.h\<close> (\<open>TAILQ\<close>, \<open>STAILQ\<close>) are lists in queue order.
  The interface \<open>keyed_queue\<close> is what the code relies on wherever it looks an element up in
  such a queue by a key. \<open>stepper\<close> is the interface between a component whose operations are steps
  of a state machine and the theorems about all its runs; the others extend it by a quantity that each
  step accounts for (\<open>weighted_stepper\<close>, \<open>lossy_stepper\<close>), by a condition on the events (\<open>guarded_stepper\<close>),
  or say which faults a step can end in (\<open>faulting_stepper\<close>, \<open>checked_stepper\<close>).
\<close>

type_synonym u8 = "8 word"
type_synonym u16 = "16 word"
type_synonym u32 = "32 word"
type_synonym u64 = "64 word"
type_synonym addr = nat
type_synonym uuid = "128 word"

datatype fault =
    NullDeref
  | UseAfterFree
  | OutOfBounds
  | DivByZero
  | Uninitialised
  | NoReturn

named_theorems model_defs
  \<open>definitions of the components, unfolded together by the component proofs\<close>

section \<open>Results that may fault\<close>

definition bindR :: "'e + 'a \<Rightarrow> ('a \<Rightarrow> 'e + 'b) \<Rightarrow> 'e + 'b" where
  "bindR r f = (case r of Inl e \<Rightarrow> Inl e | Inr x \<Rightarrow> f x)"

lemma bindR_simps [simp]:
  "bindR (Inl e) f = Inl e"
  "bindR (Inr x) f = f x"
  by (simp_all add: bindR_def)

lemma bindR_eq_Inr:
  "bindR r f = Inr y \<longleftrightarrow> (\<exists>x. r = Inr x \<and> f x = Inr y)"
  by (cases r) auto

lemma bindR_eq_Inl:
  "bindR r f = Inl e \<longleftrightarrow> r = Inl e \<or> (\<exists>x. r = Inr x \<and> f x = Inl e)"
  by (cases r) auto

lemma bindR_assoc [simp]: "bindR (bindR r f) g = bindR r (\<lambda>x. bindR (f x) g)"
  by (cases r) auto

text \<open>How a branching computation succeeds: the equations take a success apart without
  splitting under the quantifiers that \<open>bindR\<close> introduces.\<close>

named_theorems inr_simps \<open>inversion of a successful result\<close>

lemma option_Inl_eq_Inr [inr_simps]:
  "(case x of None \<Rightarrow> Inl e | Some y \<Rightarrow> f y) = Inr z \<longleftrightarrow> (\<exists>y. x = Some y \<and> f y = Inr z)"
  by (cases x) auto

lemma if_Inl_eq_Inr [inr_simps]:
  "(if b then Inl e else r) = Inr z \<longleftrightarrow> \<not> b \<and> r = Inr z"
  "(if b then r else Inl e) = Inr z \<longleftrightarrow> b \<and> r = Inr z"
  by auto

lemma bindR_Inr_iff [inr_simps]: "bindR r f = Inr y \<longleftrightarrow> (\<exists>x. r = Inr x \<and> f x = Inr y)"
  by (rule bindR_eq_Inr)

fun runR :: "('s \<Rightarrow> 'ev \<Rightarrow> 'e + 's) \<Rightarrow> 's \<Rightarrow> 'ev list \<Rightarrow> 'e + 's" where
  "runR step s [] = Inr s"
| "runR step s (x # xs) = bindR (step s x) (\<lambda>s'. runR step s' xs)"

lemma runR_append: "runR step s (xs @ ys) = bindR (runR step s xs) (\<lambda>s'. runR step s' ys)"
  by (induction xs arbitrary: s) auto

section \<open>Words\<close>

lemma word_of_nat_inject:
  "i < 2 ^ LENGTH('a) \<Longrightarrow> j < 2 ^ LENGTH('a) \<Longrightarrow> (of_nat i :: 'a::len word) = of_nat j \<longleftrightarrow> i = j"
  by (simp only: word_of_nat_eq_iff take_bit_nat_eq_self)

lemma less_2p64: "(i::nat) < 2 ^ 64 \<Longrightarrow> i < 2 ^ LENGTH(64)" by simp

lemma of_nat_u64_inject:
  "i < 2 ^ 64 \<Longrightarrow> j < 2 ^ 64 \<Longrightarrow> (of_nat i :: u64) = of_nat j \<longleftrightarrow> i = j"
  using word_of_nat_inject [where 'a = 64, OF less_2p64 less_2p64] by blast

lemma unat_of_nat_u64: "i < 2 ^ 64 \<Longrightarrow> unat (of_nat i :: u64) = i"
  by (simp add: unat_of_nat)

lemma unat_of_nat_u32: "i < 2 ^ 32 \<Longrightarrow> unat (of_nat i :: u32) = i"
  by (simp add: unat_of_nat)

lemma unat_u64_less: "unat (w :: u64) < 2 ^ 64"
  using unsigned_less [of w] by simp

lemma unat_u8_less: "unat (w :: u8) < 2 ^ 8"
  using unsigned_less [of w] by simp

lemma unat_u32_less: "unat (w :: u32) < 2 ^ 32"
  using unsigned_less [of w] by simp

lemma u64_through_u32:
  "unat (w :: u64) < 2 ^ 31 \<Longrightarrow> (ucast (ucast w :: u32) :: u64) = w"
  by (simp add: word_unat_eq_iff unsigned_ucast_eq unsigned_take_bit_eq take_bit_nat_eq_self)

lemma u64_through_int:
  "unat (w :: u64) < 2 ^ 31 \<Longrightarrow> (scast (ucast w :: u32) :: u64) = w"
proof -
  assume a: "unat w < 2 ^ 31"
  from a have "int (unat w) < int (2 ^ 31)" by (simp only: of_nat_less_iff)
  then have l: "uint w < 2 ^ 31" by simp
  then have u: "uint (ucast w :: u32) = uint w"
    by (simp add: unsigned_ucast_eq unsigned_take_bit_eq take_bit_int_eq_self)
  have "sint (ucast w :: u32) = uint w"
    unfolding sint_uint u
  proof (rule signed_take_bit_int_eq_self)
    show "- (2 ^ (LENGTH(32) - Suc 0)) \<le> uint w"
      by (rule order_trans [OF _ uint_ge_0]) simp
    show "uint w < 2 ^ (LENGTH(32) - Suc 0)" using l by simp
  qed
  then show ?thesis by (simp add: scast_eq)
qed

lemma word_div_mod_nat: "((a::'a::len word) div b) mod c = of_nat (unat a div unat b mod unat c)"
  by (metis unat_div unat_mod of_nat_unat ucast_id)

section \<open>Queues\<close>

definition update_by :: "('a \<Rightarrow> 'k) \<Rightarrow> 'k \<Rightarrow> ('a \<Rightarrow> 'a) \<Rightarrow> 'a list \<Rightarrow> 'a list" where
  "update_by key k f xs = map (\<lambda>x. if key x = k then f x else x) xs"

definition remove_by :: "('a \<Rightarrow> 'k) \<Rightarrow> 'k \<Rightarrow> 'a list \<Rightarrow> 'a list" where
  "remove_by key k xs = filter (\<lambda>x. key x \<noteq> k) xs"

lemma update_by_Nil [simp]: "update_by key k f [] = []"
  by (simp add: update_by_def)

lemma update_by_Cons [simp]:
  "update_by key k f (x # xs) = (if key x = k then f x else x) # update_by key k f xs"
  by (simp add: update_by_def)

lemma length_update_by [simp]: "length (update_by key k f xs) = length xs"
  by (simp add: update_by_def)

lemma update_by_map_same:
  "(\<And>x. g (f x) = g x) \<Longrightarrow> map g (update_by key k f xs) = map g xs"
  by (simp add: update_by_def)

lemma set_update_by:
  "x \<in> set (update_by key k f xs) \<longleftrightarrow>
     (\<exists>y \<in> set xs. x = (if key y = k then f y else y))"
  by (simp only: update_by_def set_map image_iff)

lemma remove_by_simps [simp]:
  "remove_by key k [] = []"
  "remove_by key k (x # xs) = (if key x = k then remove_by key k xs else x # remove_by key k xs)"
  by (simp_all add: remove_by_def)

lemma set_remove_by [simp]: "set (remove_by key k xs) = {x \<in> set xs. key x \<noteq> k}"
  by (auto simp: remove_by_def)

lemma remove_by_notin: "k \<notin> key ` set xs \<Longrightarrow> remove_by key k xs = xs"
  by (induction xs) auto

lemma distinct_map_filter_key: "distinct (map key xs) \<Longrightarrow> distinct (map key (filter P xs))"
  by (induction xs) auto

lemma distinct_remove_by: "distinct (map key xs) \<Longrightarrow> distinct (map key' (remove_by key k xs))"
  if "distinct (map key' xs)"
  using that by (simp add: remove_by_def distinct_map_filter_key)

lemma find_Some_iff_distinct:
  assumes "distinct (map key xs)"
  shows "List.find (\<lambda>x. key x = k) xs = Some x \<longleftrightarrow> x \<in> set xs \<and> key x = k"
  using assms by (induction xs) auto

lemma find_SomeD: "List.find P xs = Some x \<Longrightarrow> x \<in> set xs \<and> P x"
  by (auto simp: find_Some_iff in_set_conv_nth)

lemma find_None_iff': "List.find P xs = None \<longleftrightarrow> (\<forall>x \<in> set xs. \<not> P x)"
  by (auto simp: find_None_iff)

lemma find_key_update_by:
  assumes "\<And>x. key (f x) = key x"
  shows "List.find (\<lambda>x. key x = k) (update_by key k' f xs) =
    map_option (\<lambda>x. if k = k' then f x else x) (List.find (\<lambda>x. key x = k) xs)"
  by (induction xs) (auto simp: assms)

lemma find_key_split:
  assumes "distinct (map key xs)" and "List.find (\<lambda>x. key x = k) xs = Some x"
  obtains ys zs where "xs = ys @ x # zs" and "key x = k" and "k \<notin> key ` set ys" and "k \<notin> key ` set zs"
proof -
  from find_SomeD [OF assms(2)] obtain ys zs where "xs = ys @ x # zs" "key x = k"
    by (auto simp: in_set_conv_decomp)
  with assms(1) that show ?thesis by auto
qed

lemma update_by_append [simp]:
  "update_by key k f (xs @ ys) = update_by key k f xs @ update_by key k f ys"
  by (simp add: update_by_def)

lemma update_by_notin: "k \<notin> key ` set xs \<Longrightarrow> update_by key k f xs = xs"
  by (induction xs) auto

lemma remove_by_append [simp]:
  "remove_by key k (xs @ ys) = remove_by key k xs @ remove_by key k ys"
  by (simp add: remove_by_def)

lemma find_key_append_notin:
  "k \<notin> key ` set xs \<Longrightarrow> List.find (\<lambda>x. key x = k) (xs @ ys) = List.find (\<lambda>x. key x = k) ys"
  by (induction xs) auto

lemma find_key_remove_by:
  "List.find (\<lambda>x. key x = k) (remove_by key k' xs) =
     (if k = k' then None else List.find (\<lambda>x. key x = k) xs)"
  by (induction xs) auto

lemma find_key_middle:
  "k \<notin> key ` set xs \<Longrightarrow> key x = k \<Longrightarrow> List.find (\<lambda>x. key x = j) (xs @ x # ys) =
     (if j = k then Some x else List.find (\<lambda>x. key x = j) (xs @ ys))"
  by (induction xs) auto

lemma Bex_set_nth: "(\<exists>x \<in> set xs. P x) \<longleftrightarrow> (\<exists>i < length xs. P (xs ! i))"
  by (metis in_set_conv_nth)

text \<open>The interface of a queue searched by key: hosts by NQN, listeners by transport id,
  controllers by id, registrants by host id.\<close>

locale keyed_queue =
  fixes key :: "'a \<Rightarrow> 'k"
    and lookup :: "'a list \<Rightarrow> 'k \<Rightarrow> 'a option"
    and ins :: "'a \<Rightarrow> 'a list \<Rightarrow> 'a list"
  assumes lookup_SomeD: "lookup q k = Some x \<Longrightarrow> x \<in> set q \<and> key x = k"
    and lookup_None_iff: "lookup q k = None \<longleftrightarrow> k \<notin> key ` set q"
    and set_ins: "set (ins x q) = insert x (set q)"
    and distinct_ins: "distinct (map key (ins x q)) \<longleftrightarrow>
          key x \<notin> key ` set q \<and> distinct (map key q)"
begin

lemma lookup_eq_Some:
  assumes "distinct (map key q)"
  shows "lookup q k = Some x \<longleftrightarrow> x \<in> set q \<and> key x = k"
proof
  assume "x \<in> set q \<and> key x = k"
  then obtain y where y: "lookup q k = Some y"
    using lookup_None_iff [of q k] by (cases "lookup q k") auto
  with \<open>x \<in> set q \<and> key x = k\<close> lookup_SomeD [OF y] assms have "x = y"
    by (auto simp: distinct_map inj_on_def)
  with y show "lookup q k = Some x" by simp
qed (rule lookup_SomeD)

lemma ins_absent: "lookup q (key x) = None \<Longrightarrow> distinct (map key q) \<Longrightarrow>
    distinct (map key (ins x q))"
  by (simp add: distinct_ins lookup_None_iff)

lemma lookup_ins:
  assumes "distinct (map key q)" and "lookup q (key x) = None"
  shows "lookup (ins x q) k = (if k = key x then Some x else lookup q k)"
proof (cases "lookup (ins x q) k")
  case None
  then show ?thesis
    using lookup_None_iff [of "ins x q" k] lookup_None_iff [of q k] by (auto simp: set_ins)
next
  case (Some y)
  then have y: "y = x \<or> y \<in> set q" "key y = k"
    using lookup_SomeD [OF Some] by (auto simp: set_ins)
  have "x \<notin> set q"
    using assms(2) by (auto simp: lookup_None_iff)
  show ?thesis
  proof (cases "y = x")
    case True
    with y Some show ?thesis by simp
  next
    case False
    with y have "y \<in> set q" by simp
    with y have "lookup q k = Some y"
      using assms(1) by (simp add: lookup_eq_Some)
    moreover have "k \<noteq> key x"
      using y \<open>y \<in> set q\<close> assms(2) lookup_None_iff by (metis image_eqI)
    ultimately show ?thesis using Some by simp
  qed
qed

lemma lookup_remove:
  assumes "distinct (map key q)"
  shows "lookup (remove_by key k q) k' = (if k' = k then None else lookup q k')"
proof -
  show ?thesis
  proof (cases "lookup (remove_by key k q) k'")
    case None
    then show ?thesis
      using lookup_None_iff [of "remove_by key k q" k'] lookup_None_iff [of q k'] by auto
  next
    case (Some y)
    then have "y \<in> set q" "key y = k'" "k' \<noteq> k"
      using lookup_SomeD [OF Some] by auto
    then show ?thesis
      using Some lookup_eq_Some [OF assms, of k' y] by simp
  qed
qed

end

text \<open>Every lookup loop \<open>TAILQ_FOREACH (x) if (key x == k) return x\<close> with insertion at the
  tail or at the head satisfies the interface.\<close>

lemma keyed_queue_tail:
  "keyed_queue key (\<lambda>q k. List.find (\<lambda>x. key x = k) q) (\<lambda>x q. q @ [x])"
  by unfold_locales (auto simp: find_None_iff' dest: find_SomeD)

lemma keyed_queue_head:
  "keyed_queue key (\<lambda>q k. List.find (\<lambda>x. key x = k) q) (\<lambda>x q. x # q)"
  by unfold_locales (auto simp: find_None_iff' dest: find_SomeD)

section \<open>Lists\<close>

definition remove_nth :: "nat \<Rightarrow> 'a list \<Rightarrow> 'a list" where
  "remove_nth n xs = take n xs @ drop (Suc n) xs"

lemma set_remove_nth: "set (remove_nth n xs) \<subseteq> set xs"
  unfolding remove_nth_def using set_take_subset [of n xs] set_drop_subset [of "Suc n" xs] by auto

section \<open>State machines\<close>

text \<open>A component whose operations are steps, with an invariant that each step keeps.\<close>

locale stepper =
  fixes step :: "'s \<Rightarrow> 'ev \<Rightarrow> 'e + 's"
    and inv :: "'s \<Rightarrow> bool"
  assumes step_inv: "inv s \<Longrightarrow> step s e = Inr s' \<Longrightarrow> inv s'"
begin

lemma run_inv: "inv s \<Longrightarrow> runR step s es = Inr s' \<Longrightarrow> inv s'"
proof (induction es arbitrary: s)
  case Nil
  then show ?case by simp
next
  case (Cons e es)
  from Cons.prems(2) obtain t where t: "step s e = Inr t" and r: "runR step t es = Inr s'"
    by (auto simp: bindR_eq_Inr)
  from step_inv [OF Cons.prems(1) t] r show ?case by (rule Cons.IH)
qed

end

text \<open>A quantity that each event adds its own weight to grows, over a whole run, by the
  weights of the events of the run.\<close>

locale weighted_stepper = stepper step inv
  for step :: "'s \<Rightarrow> 'ev \<Rightarrow> 'e + 's" and inv +
  fixes quantity :: "'s \<Rightarrow> 'q::comm_monoid_add" and weight :: "'ev \<Rightarrow> 'q"
  assumes step_quantity: "inv s \<Longrightarrow> step s e = Inr s' \<Longrightarrow> quantity s' = quantity s + weight e"
begin

lemma run_quantity:
  "inv s \<Longrightarrow> runR step s es = Inr s' \<Longrightarrow> quantity s' = quantity s + sum_list (map weight es)"
proof (induction es arbitrary: s)
  case Nil
  then show ?case by simp
next
  case (Cons e es)
  from Cons.prems(2) obtain t where t: "step s e = Inr t" and r: "runR step t es = Inr s'"
    by (auto simp: bindR_eq_Inr)
  from Cons.IH [OF step_inv [OF Cons.prems(1) t] r] step_quantity [OF Cons.prems(1) t]
  show ?case by (simp add: add.assoc)
qed

end

text \<open>A component whose steps keep an invariant only under a condition on the state and the
  event, the obligations of its callers. The reachable states are those of the runs that
  meet the condition at every step.\<close>

inductive guarded_reach ::
    "('s \<Rightarrow> 'ev \<Rightarrow> 'e + 's) \<Rightarrow> ('s \<Rightarrow> 'ev \<Rightarrow> bool) \<Rightarrow> 's \<Rightarrow> 's \<Rightarrow> bool"
  for step ok s where
  start: "guarded_reach step ok s s"
| more: "guarded_reach step ok s t \<Longrightarrow> ok t e \<Longrightarrow> step t e = Inr u \<Longrightarrow> guarded_reach step ok s u"

text \<open>The same as a function on a list of events, to evaluate concrete runs.\<close>

fun run_guarded ::
    "('s \<Rightarrow> 'ev \<Rightarrow> 'e + 's) \<Rightarrow> ('s \<Rightarrow> 'ev \<Rightarrow> bool) \<Rightarrow> 's \<Rightarrow> 'ev list \<Rightarrow> 's option" where
  "run_guarded step ok s [] = Some s"
| "run_guarded step ok s (e # es) =
     (if ok s e then (case step s e of Inl _ \<Rightarrow> None | Inr s' \<Rightarrow> run_guarded step ok s' es) else None)"

lemma run_guarded_reach:
  "run_guarded step ok s es = Some t \<Longrightarrow> guarded_reach step ok r s \<Longrightarrow> guarded_reach step ok r t"
  by (induction es arbitrary: s)
    (auto split: if_splits sum.splits intro: guarded_reach.more)

lemmas run_guarded_start = run_guarded_reach [OF _ guarded_reach.start]

locale guarded_stepper =
  fixes step :: "'s \<Rightarrow> 'ev \<Rightarrow> 'e + 's"
    and ok :: "'s \<Rightarrow> 'ev \<Rightarrow> bool"
    and inv :: "'s \<Rightarrow> bool"
  assumes step_inv: "inv s \<Longrightarrow> ok s e \<Longrightarrow> step s e = Inr s' \<Longrightarrow> inv s'"
begin

lemma reach_inv: "guarded_reach step ok s t \<Longrightarrow> inv s \<Longrightarrow> inv t"
  by (induction rule: guarded_reach.induct) (blast intro: step_inv)+

end

text \<open>Steps that may end in a fault, but not in one of the \<open>excluded\<close> ones.\<close>

locale faulting_stepper =
  fixes step :: "'s \<Rightarrow> 'ev \<Rightarrow> 'e + 's"
    and excluded :: "'e \<Rightarrow> bool"
    and inv :: "'s \<Rightarrow> bool"
  assumes step_settles: "inv s \<Longrightarrow> (case step s e of Inl f \<Rightarrow> \<not> excluded f | Inr s' \<Rightarrow> inv s')"
begin

lemma run_settles: "inv s \<Longrightarrow> (case runR step s es of Inl f \<Rightarrow> \<not> excluded f | Inr s' \<Rightarrow> inv s')"
proof (induction es arbitrary: s)
  case (Cons e es)
  show ?case using step_settles [OF Cons.prems, of e] Cons.IH by (cases "step s e") simp_all
qed simp

end

text \<open>Steps that keep an account as long as they do not fault, and fault only at events of a known kind.\<close>

locale checked_stepper =
  fixes step :: "'s \<Rightarrow> 'ev \<Rightarrow> 'e + 's"
    and okE :: "'ev \<Rightarrow> bool"
    and inv :: "'s \<Rightarrow> bool"
    and quantity :: "'s \<Rightarrow> 'q::comm_monoid_add"
    and weight :: "'ev \<Rightarrow> 'q"
    and hazard :: "'ev \<Rightarrow> 'e \<Rightarrow> bool"
  assumes step_checked: "inv s \<Longrightarrow> okE e \<Longrightarrow>
    (\<exists>s'. step s e = Inr s' \<and> inv s' \<and> quantity s' = quantity s + weight e) \<or> (\<exists>f. step s e = Inl f \<and> hazard e f)"
begin

lemma run_checked:
  "inv s \<Longrightarrow> list_all okE es \<Longrightarrow>
   (\<exists>s'. runR step s es = Inr s' \<and> inv s' \<and> quantity s' = quantity s + sum_list (map weight es)) \<or>
   (\<exists>f. runR step s es = Inl f \<and> (\<exists>e \<in> set es. hazard e f))"
proof (induction es arbitrary: s)
  case (Cons e es)
  from Cons.prems step_checked [of s e]
  consider (ok) t where "step s e = Inr t" "inv t" "quantity t = quantity s + weight e"
    | (bad) f where "step s e = Inl f" "hazard e f" by auto
  then show ?case
  proof cases
    case ok
    from Cons.IH [OF ok(2)] Cons.prems(2) ok show ?thesis by (auto simp: add.assoc)
  qed auto
qed simp

end

text \<open>Steps that may lose something of what they account for, but not when they are \<open>sound\<close>.\<close>

locale lossy_stepper = stepper step inv
  for step :: "'s \<Rightarrow> 'ev \<Rightarrow> 'e + 's" and inv +
  fixes quantity :: "'s \<Rightarrow> 'q::comm_monoid_add" and weight :: "'ev \<Rightarrow> 'q" and sound :: bool
  assumes step_loss: "inv s \<Longrightarrow> step s e = Inr s' \<Longrightarrow>
    \<exists>lost. quantity s' + lost = quantity s + weight e \<and> (sound \<longrightarrow> lost = 0)"
begin

lemma run_loss:
  "inv s \<Longrightarrow> runR step s es = Inr s' \<Longrightarrow>
   \<exists>lost. quantity s' + lost = quantity s + sum_list (map weight es) \<and> (sound \<longrightarrow> lost = 0)"
proof (induction es arbitrary: s)
  case (Cons e es)
  from Cons.prems(2) obtain t where t: "step s e = Inr t" and r: "runR step t es = Inr s'"
    by (auto simp: bindR_eq_Inr)
  obtain l1 where l1: "quantity t + l1 = quantity s + weight e" "sound \<longrightarrow> l1 = 0"
    using step_loss [OF Cons.prems(1) t] by blast
  obtain l2 where l2: "quantity s' + l2 = quantity t + sum_list (map weight es)" "sound \<longrightarrow> l2 = 0"
    using Cons.IH [OF step_inv [OF Cons.prems(1) t] r] by blast
  have "quantity s' + (l2 + l1) = (quantity s' + l2) + l1" by (simp add: add.assoc)
  also have "\<dots> = (quantity t + l1) + sum_list (map weight es)" unfolding l2(1) by (simp add: ac_simps)
  also have "\<dots> = quantity s + sum_list (map weight (e # es))" unfolding l1(1) by (simp add: add.assoc)
  finally show ?case using l1(2) l2(2) by (intro exI [of _ "l2 + l1"]) simp
qed (intro exI [of _ 0], simp)

end

end
