(* ===== verification/Sump_Data.thy ===== *)
theory Sump_Data
  imports Prelude
begin

text \<open>
  The data of the multi-path library (\<^verbatim>\<open>src/sump.h\<close>) and its utilities
  (\<^verbatim>\<open>src/sump_util.c\<close>, the time queues of \<^verbatim>\<open>src/sump_ctrl.c\<close>).

  An \<open>ump_bdev_iopath\<close> and an \<open>ump_bdev_channel\<close> are allocated objects that other objects
  point to; each record carries its address (\<open>iop_addr\<close>, \<open>ch_addr\<close>, \<open>mb_addr\<close>). The code
  inserts an I/O path into its channel's queue when it allocates it and frees it right
  after removing it, so the live I/O paths are exactly the members of the queues.
  A \<open>spdk_bdev\<close> is only read by this library: it is a value, with the fields the library
  copies. The structure \<open>nvme_bdev_channel\<close> fields that pad the front of
  \<open>ump_bdev_channel\<close> are never used by this library and are left out.
\<close>

section \<open>Block devices as the library sees them\<close>

record spdk_bdev =
  bd_ctxt :: addr
  bd_name :: string
  bd_product_name :: string
  bd_write_cache :: int
  bd_blocklen :: u32
  bd_blockcnt :: u64
  bd_write_unit_size :: int
  bd_acwu :: int
  bd_required_alignment :: int
  bd_split_on_optimal_io_boundary :: bool
  bd_optimal_io_boundary :: int
  bd_uuid :: uuid
  bd_md_len :: int
  bd_md_interleave :: bool
  bd_dif_type :: int
  bd_dif_is_head_of_md :: bool
  bd_dif_check_flags :: int
  bd_zoned :: bool
  bd_zone_size :: int
  bd_max_open_zones :: int
  bd_optimal_open_zones :: int
  bd_media_events :: bool
  bd_fn_table_is_ump :: bool \<comment> \<open>is \<open>fn_table\<close> the library's own \<open>umplib_fn_table\<close>?\<close>

section \<open>The latency window of an I/O path\<close>

record time_queue =
  time_list :: "u64 list"
  tq_len :: u32
  io_time_all :: u64
  io_time_avg :: u64

definition ump_time_queue_init :: "time_queue \<Rightarrow> time_queue" where
  "ump_time_queue_init q = q\<lparr>time_list := [], tq_len := 0, io_time_all := 0, io_time_avg := 0\<rparr>"

definition tq_zero :: time_queue where
  "tq_zero = \<lparr>time_list = [], tq_len = 0, io_time_all = 0, io_time_avg = 0\<rparr>"

definition update_io_time_detail :: "u64 \<Rightarrow> time_queue \<Rightarrow> time_queue" where
  "update_io_time_detail t q =
     (let q1 = q\<lparr>time_list := time_list q @ [t], io_time_all := io_time_all q + t\<rparr>
      in if tq_len q1 < 20
         then let q2 = q1\<lparr>tq_len := tq_len q1 + 1\<rparr>
              in q2\<lparr>io_time_avg := io_time_all q2 div ucast (tq_len q2)\<rparr>
         else (case time_list q1 of
                 [] \<Rightarrow> q1
               | first # rest \<Rightarrow>
                   let q2 = q1\<lparr>time_list := rest, io_time_all := io_time_all q1 - first\<rparr>
                   in q2\<lparr>io_time_avg := io_time_all q2 div ucast (tq_len q2)\<rparr>))"

section \<open>I/O paths, channels and aggregated devices\<close>

record ump_bdev_iopath =
  iop_addr :: addr
  io_channel :: "addr option"
  iop_bdev :: spdk_bdev
  available :: bool
  reconnecting :: bool
  reconnect_poller :: "addr option"
  io_read_time :: time_queue
  io_write_time :: time_queue
  iop_id :: u64
  io_incomplete :: u64

record ump_bdev_channel =
  ch_addr :: addr
  iopath_list :: "ump_bdev_iopath list"
  max_id :: u64

record ump_bdev =
  mb_addr :: addr
  mb_bdev :: spdk_bdev
  spdk_bdev_list :: "spdk_bdev list"
  mb_freed :: bool \<comment> \<open>the memory was freed while the queue still links it\<close>

datatype io_type = IO_READ | IO_WRITE | IO_OTHER

text \<open>The completion callbacks an I/O may carry: the caller's own (\<open>UpperCb\<close>, with the
  caller's context), the library's, or the one of a failback probe.\<close>

datatype io_cb = UpperCb addr | UmpIoCompletionCb | UmpFailbackCb

record spdk_bdev_io =
  bio_type :: io_type
  offset_blocks :: u64
  num_blocks :: u64
  bio_blocklen :: u32
  bio_cb :: io_cb
  bio_caller_ctx :: addr
  submit_tsc :: u64

record ump_bdev_io_completion_ctx =
  cctx_ch :: addr
  real_caller_ctx :: addr
  real_completion_cb :: io_cb
  cctx_iopath :: "addr option"

record ump_failback_ctx =
  fb_iopath :: addr
  fb_bdev_io :: spdk_bdev_io

section \<open>Utilities\<close>

text \<open>\<open>BKDR_Hash\<close>: a string is its bytes up to the terminating zero; \<open>char\<close> is signed.\<close>

fun BKDR_loop :: "u32 \<Rightarrow> u8 list \<Rightarrow> u32" where
  "BKDR_loop h [] = h"
| "BKDR_loop h (c # cs) = (if c = 0 then h else BKDR_loop (h * 1313 + scast c) cs)"

definition BKDR_Hash :: "u8 list \<Rightarrow> u32" where
  "BKDR_Hash s = and (BKDR_loop 0 s) 0x7FFFFFFF"

fun get_ump_bdev_by_uuid :: "ump_bdev list \<Rightarrow> uuid \<Rightarrow> fault + ump_bdev option" where
  "get_ump_bdev_by_uuid [] u = Inr None"
| "get_ump_bdev_by_uuid (m # ms) u =
     (if mb_freed m then Inl UseAfterFree
      else if bd_uuid (mb_bdev m) = u then Inr (Some m)
      else get_ump_bdev_by_uuid ms u)"

section \<open>The latency window keeps the last twenty samples and their average\<close>

definition tq_wf :: "time_queue \<Rightarrow> bool" where
  "tq_wf q \<longleftrightarrow>
     length (time_list q) \<le> 20 \<and>
     tq_len q = of_nat (length (time_list q)) \<and>
     io_time_all q = sum_list (time_list q) \<and>
     io_time_avg q = io_time_all q div of_nat (length (time_list q))"

lemma tq_wf_init [simp]: "tq_wf (ump_time_queue_init q)"
  by (simp add: tq_wf_def ump_time_queue_init_def)

lemma tq_wf_zero [simp]: "tq_wf tq_zero"
  by (simp add: tq_wf_def tq_zero_def)

lemma of_nat_le_20_less:
  assumes "n \<le> 20"
  shows "(of_nat n :: u32) < 20 \<longleftrightarrow> n < 20"
  using assms by (simp add: word_less_nat_alt unat_of_nat)

lemma ucast_of_nat_small:
  assumes "n \<le> 20"
  shows "(ucast (of_nat n :: u32) :: u64) = of_nat n"
  using assms by (simp add: ucast_eq unat_of_nat unsigned_of_nat take_bit_nat_eq_self word_eq_iff_unsigned unsigned_ucast_eq)

lemma update_io_time_detail_short:
  assumes "tq_wf q" and "length (time_list q) < 20"
  shows "time_list (update_io_time_detail t q) = time_list q @ [t]"
    and "tq_wf (update_io_time_detail t q)"
proof -
  have lt: "tq_len q < 20"
    using assms by (simp add: tq_wf_def of_nat_le_20_less)
  have u: "(ucast (of_nat (length (time_list q)) + 1 :: u32) :: u64)
       = of_nat (length (time_list q)) + 1"
    using ucast_of_nat_small [of "Suc (length (time_list q))"] assms(2) by (simp add: add.commute)
  show "time_list (update_io_time_detail t q) = time_list q @ [t]"
    using lt by (simp add: update_io_time_detail_def)
  show "tq_wf (update_io_time_detail t q)"
    using lt assms u by (simp add: update_io_time_detail_def tq_wf_def add.commute)
qed

lemma update_io_time_detail_full:
  assumes "tq_wf q" and "length (time_list q) = 20"
  shows "time_list (update_io_time_detail t q) = tl (time_list q) @ [t]"
    and "tq_wf (update_io_time_detail t q)"
proof -
  have ge: "\<not> tq_len q < 20"
    using assms by (simp add: tq_wf_def)
  obtain x xs where x: "time_list q = x # xs" and l: "length xs = 19"
    using assms(2) by (cases "time_list q") auto
  show "time_list (update_io_time_detail t q) = tl (time_list q) @ [t]"
    using ge x by (simp add: update_io_time_detail_def Let_def)
  show "tq_wf (update_io_time_detail t q)"
    using ge x l assms by (simp add: update_io_time_detail_def tq_wf_def Let_def)
qed

lemma tq_wf_cases:
  assumes "tq_wf q"
  obtains "length (time_list q) < 20" | "length (time_list q) = 20"
  using assms by (force simp: tq_wf_def)

lemma tq_wf_update [simp]:
  assumes "tq_wf q"
  shows "tq_wf (update_io_time_detail t q)"
  using assms by (rule tq_wf_cases)
    (simp_all add: update_io_time_detail_short update_io_time_detail_full assms)

lemma time_list_update:
  assumes "tq_wf q"
  shows "time_list (update_io_time_detail t q)
     = drop (length (time_list q) - 19) (time_list q @ [t])"
  using assms by (rule tq_wf_cases)
    (simp_all add: update_io_time_detail_short update_io_time_detail_full assms drop_Suc)

section \<open>Concrete objects for the witnesses\<close>

definition sample_bdev :: "uuid \<Rightarrow> string \<Rightarrow> spdk_bdev" where
  "sample_bdev u nm = \<lparr>bd_ctxt = 0, bd_name = nm, bd_product_name = ''NVMe disk'', bd_write_cache = 0,
     bd_blocklen = 512, bd_blockcnt = 1024, bd_write_unit_size = 1, bd_acwu = 0,
     bd_required_alignment = 0, bd_split_on_optimal_io_boundary = False,
     bd_optimal_io_boundary = 0, bd_uuid = u, bd_md_len = 0, bd_md_interleave = False,
     bd_dif_type = 0, bd_dif_is_head_of_md = False, bd_dif_check_flags = 0, bd_zoned = False,
     bd_zone_size = 0, bd_max_open_zones = 0, bd_optimal_open_zones = 0, bd_media_events = False,
     bd_fn_table_is_ump = False\<rparr>"

definition sample_path :: "addr \<Rightarrow> u64 \<Rightarrow> bool \<Rightarrow> ump_bdev_iopath" where
  "sample_path a i av = \<lparr>iop_addr = a, io_channel = Some a, iop_bdev = sample_bdev 7 ''Nvme0n1'',
     available = av, reconnecting = False, reconnect_poller = None, io_read_time = tq_zero,
     io_write_time = tq_zero, iop_id = i, io_incomplete = 0\<rparr>"

definition sample_io :: "u64 \<Rightarrow> u64 \<Rightarrow> spdk_bdev_io" where
  "sample_io off nb = \<lparr>bio_type = IO_READ, offset_blocks = off, num_blocks = nb, bio_blocklen = 512,
     bio_cb = UpperCb 1, bio_caller_ctx = 5, submit_tsc = 0\<rparr>"

lemma sample_path_simps [simp]:
  "iop_addr (sample_path a i av) = a"
  "available (sample_path a i av) = av"
  "iop_id (sample_path a i av) = i"
  "io_incomplete (sample_path a i av) = 0"
  "reconnecting (sample_path a i av) = False"
  by (simp_all add: sample_path_def)

lemma sample_io_simps [simp]:
  "bio_type (sample_io off nb) = IO_READ"
  "offset_blocks (sample_io off nb) = off"
  "num_blocks (sample_io off nb) = nb"
  by (simp_all add: sample_io_def)

end
