(* ===== verification/Sump_Select.thy ===== *)
theory Sump_Select
  imports Sump_Data
begin

text \<open>
  The path selection algorithms of \<^verbatim>\<open>src/sump_ctrl.c\<close>: round robin, shortest service
  time, shortest queue, random and hash, and \<open>ump_bdev_find_iopath\<close>, which calls the hash
  one. Each loop over the channel's queue is a recursion over the list of paths. The static
  \<open>turn\<close> of the round robin is an argument and a result. A call of \<open>rand\<close> is a value of
  the list \<open>rs\<close>: when the list is used up the loop has not returned yet (\<open>Inr None\<close>).

  \<open>path_chooser\<close> is the contract every algorithm has (it only returns an available path of
  the channel), \<open>path_selector\<close> the stronger one (it finds one whenever there is one);
  \<open>ids_ok\<close> says that the path identifiers of a channel are its queue positions, which the
  channel operations maintain.
\<close>

section \<open>Round robin\<close>

fun rr_scan1 :: "int \<Rightarrow> int \<Rightarrow> ump_bdev_iopath list \<Rightarrow> ump_bdev_iopath option" where
  "rr_scan1 turn idx [] = None"
| "rr_scan1 turn idx (p # ps) =
     (if available p \<and> idx = turn then Some p else rr_scan1 turn (idx + 1) ps)"

fun rr_scan2 :: "int \<Rightarrow> ump_bdev_iopath list \<Rightarrow> int \<times> ump_bdev_iopath option" where
  "rr_scan2 turn [] = (turn, None)"
| "rr_scan2 turn (p # ps) = (if \<not> available p then rr_scan2 (turn + 1) ps else (turn, Some p))"

definition rr_select :: "int \<Rightarrow> ump_bdev_iopath list \<Rightarrow> int \<times> ump_bdev_iopath option" where
  "rr_select turn ps =
     (case rr_scan1 turn 0 ps of
        Some p \<Rightarrow> (turn + 1, Some p)
      | None \<Rightarrow> rr_scan2 1 ps)"

definition ump_find_iopath_round_robin ::
    "int \<Rightarrow> ump_bdev_channel \<Rightarrow> fault + int \<times> ump_bdev_iopath" where
  "ump_find_iopath_round_robin turn ch =
     (case rr_select turn (iopath_list ch) of
        (turn', Some p) \<Rightarrow> Inr (turn', p)
      | (turn', None) \<Rightarrow> Inl NoReturn)"

section \<open>Shortest service time, shortest queue\<close>

fun scan_min :: "(ump_bdev_iopath \<Rightarrow> u64) \<Rightarrow> u64 \<Rightarrow> ump_bdev_iopath option \<Rightarrow>
    ump_bdev_iopath list \<Rightarrow> ump_bdev_iopath option" where
  "scan_min f m chosen [] = chosen"
| "scan_min f m chosen (p # ps) =
     (if available p \<and> f p < m then scan_min f (f p) (Some p) ps else scan_min f m chosen ps)"

definition UINT64_MAX :: u64 where "UINT64_MAX = - 1"

lemma UINT64_MAX_pos [simp]: "0 < UINT64_MAX"
  by (simp add: UINT64_MAX_def word_neq_0_conv [symmetric] del: word_gt_0)

definition service_time_of :: "io_type \<Rightarrow> ump_bdev_iopath \<Rightarrow> u64" where
  "service_time_of t p =
     (if t = IO_READ then io_time_avg (io_read_time p) else io_time_avg (io_write_time p))"

definition ump_find_iopath_service_time ::
    "ump_bdev_channel \<Rightarrow> spdk_bdev_io \<Rightarrow> fault + ump_bdev_iopath" where
  "ump_find_iopath_service_time ch io =
     (case scan_min (service_time_of (bio_type io)) UINT64_MAX None (iopath_list ch) of
        Some p \<Rightarrow> Inr p
      | None \<Rightarrow> Inl Uninitialised)"

definition ump_find_iopath_queue_length ::
    "ump_bdev_channel \<Rightarrow> fault + ump_bdev_channel \<times> ump_bdev_iopath" where
  "ump_find_iopath_queue_length ch =
     (case scan_min io_incomplete UINT64_MAX None (iopath_list ch) of
        Some p \<Rightarrow>
          let inc = (\<lambda>q. q\<lparr>io_incomplete := io_incomplete q + 1\<rparr>)
          in Inr (ch\<lparr>iopath_list := update_by iop_addr (iop_addr p) inc (iopath_list ch)\<rparr>, inc p)
      | None \<Rightarrow> Inl Uninitialised)"

section \<open>Random\<close>

definition rand_turn :: "nat \<Rightarrow> u64 \<Rightarrow> u32" where
  "rand_turn r mx = ucast ((of_nat r :: u64) mod mx)"

fun random_scan :: "u64 \<Rightarrow> u32 \<Rightarrow> u32 \<Rightarrow> ump_bdev_iopath list \<Rightarrow> ump_bdev_iopath option option"
  where
  "random_scan mx turn cnt [] = None"
| "random_scan mx turn cnt (p # ps) =
     (let cnt' = (if \<not> available p then cnt + 1 else cnt)
      in if iop_id p = scast turn
         then (if available p then Some (Some p)
               else if scast cnt' = mx then Some None else None)
         else random_scan mx turn cnt' ps)"

fun ump_find_iopath_random ::
    "nat list \<Rightarrow> ump_bdev_channel \<Rightarrow> fault + ump_bdev_iopath option option" where
  "ump_find_iopath_random [] ch = Inr None"
| "ump_find_iopath_random (r # rs) ch =
     (if max_id ch = 0 then Inl DivByZero
      else case random_scan (max_id ch) (rand_turn r (max_id ch)) 0 (iopath_list ch) of
             Some res \<Rightarrow> Inr (Some res)
           | None \<Rightarrow> ump_find_iopath_random rs ch)"

section \<open>Hash\<close>

definition hash_chose_id :: "u64 \<Rightarrow> spdk_bdev_io \<Rightarrow> u32" where
  "hash_chose_id mx io = ucast ((offset_blocks io div num_blocks io) mod mx)"

definition hash_select :: "u32 \<Rightarrow> ump_bdev_iopath list \<Rightarrow> ump_bdev_iopath option" where
  "hash_select chose_id ps =
     (case List.find (\<lambda>p. available p \<and> ucast chose_id = iop_id p) ps of
        Some p \<Rightarrow> Some p
      | None \<Rightarrow> List.find available ps)"

definition ump_find_iopath_hash ::
    "ump_bdev_channel \<Rightarrow> spdk_bdev_io \<Rightarrow> fault + ump_bdev_iopath option" where
  "ump_find_iopath_hash ch io =
     (if num_blocks io = 0 \<or> max_id ch = 0 then Inl DivByZero
      else Inr (hash_select (hash_chose_id (max_id ch) io) (iopath_list ch)))"

definition ump_bdev_find_iopath ::
    "ump_bdev_channel \<Rightarrow> spdk_bdev_io \<Rightarrow> fault + ump_bdev_iopath option" where
  "ump_bdev_find_iopath ch io =
     (if iopath_list ch = [] then Inr None else ump_find_iopath_hash ch io)"

section \<open>The contracts of a selection\<close>

definition mark_unavailable :: "addr \<Rightarrow> ump_bdev_iopath list \<Rightarrow> ump_bdev_iopath list" where
  "mark_unavailable a ps = update_by iop_addr a (\<lambda>p. p\<lparr>available := False\<rparr>) ps"

lemma mark_unavailable_available:
  "p \<in> set (mark_unavailable a ps) \<and> available p \<longleftrightarrow>
     p \<in> set ps \<and> available p \<and> iop_addr p \<noteq> a"
  unfolding mark_unavailable_def by (induction ps) auto

locale path_chooser =
  fixes select :: "'req \<Rightarrow> ump_bdev_iopath list \<Rightarrow> ump_bdev_iopath option"
  assumes select_available: "select r ps = Some p \<Longrightarrow> p \<in> set ps \<and> available p"
begin

lemma never_a_failed_path:
  "select r (mark_unavailable a ps) = Some p \<Longrightarrow> p \<in> set ps \<and> available p \<and> iop_addr p \<noteq> a"
  by (drule select_available) (simp add: mark_unavailable_available)

end

locale path_selector = path_chooser +
  assumes select_complete: "select r ps = None \<Longrightarrow> \<forall>p \<in> set ps. \<not> available p"
begin

lemma select_iff: "(\<exists>p. select r ps = Some p) \<longleftrightarrow> (\<exists>p \<in> set ps. available p)"
  using select_available select_complete by (cases "select r ps") auto

lemma select_None_iff: "select r ps = None \<longleftrightarrow> (\<forall>p \<in> set ps. \<not> available p)"
  using select_available select_complete by (cases "select r ps") auto

lemma fails_over:
  assumes "q \<in> set ps" and "available q" and "iop_addr q \<noteq> a"
  shows "\<exists>p. select r (mark_unavailable a ps) = Some p"
  using assms mark_unavailable_available [of q a ps] select_iff [of r "mark_unavailable a ps"] by blast

end

section \<open>The minimum scan: the first of the least loaded available paths\<close>

definition first_min :: "(ump_bdev_iopath \<Rightarrow> u64) \<Rightarrow> ump_bdev_iopath list \<Rightarrow> ump_bdev_iopath \<Rightarrow> bool"
  where
  "first_min f ps p \<longleftrightarrow>
     (\<exists>us vs. ps = us @ p # vs \<and> available p \<and>
        (\<forall>q \<in> set us. available q \<longrightarrow> f p < f q) \<and> (\<forall>q \<in> set vs. available q \<longrightarrow> f p \<le> f q))"

lemma first_min_Cons_here:
  "available p \<Longrightarrow> \<forall>q \<in> set ps. available q \<longrightarrow> f p \<le> f q \<Longrightarrow> first_min f (p # ps) p"
  unfolding first_min_def by (rule exI [of _ "[]"]) auto

lemma first_min_Cons_later:
  assumes "first_min f ps p" and "available q \<Longrightarrow> f p < f q"
  shows "first_min f (q # ps) p"
proof -
  from assms(1) obtain us vs where "ps = us @ p # vs" "available p"
    "\<forall>q \<in> set us. available q \<longrightarrow> f p < f q" "\<forall>q \<in> set vs. available q \<longrightarrow> f p \<le> f q"
    by (auto simp: first_min_def)
  with assms(2) show ?thesis
    unfolding first_min_def by (intro exI [of _ "q # us"] exI [of _ vs]) auto
qed

lemma first_min_member:
  "first_min f ps p \<Longrightarrow> p \<in> set ps \<and> available p \<and> (\<forall>q \<in> set ps. available q \<longrightarrow> f p \<le> f q)"
  by (auto simp: first_min_def less_imp_le)

lemma scan_min_SomeD:
  "scan_min f m c ps = Some p \<Longrightarrow>
     (c = Some p \<and> (\<forall>q \<in> set ps. available q \<longrightarrow> m \<le> f q)) \<or> (first_min f ps p \<and> f p < m)"
proof (induction ps arbitrary: m c)
  case Nil
  then show ?case by simp
next
  case (Cons q ps)
  show ?case
  proof (cases "available q \<and> f q < m")
    case True
    with Cons.prems have "scan_min f (f q) (Some q) ps = Some p" by simp
    from Cons.IH [OF this] show ?thesis
    proof
      assume "Some q = Some p \<and> (\<forall>x \<in> set ps. available x \<longrightarrow> f q \<le> f x)"
      with True show ?thesis by (auto intro: first_min_Cons_here)
    next
      assume *: "first_min f ps p \<and> f p < f q"
      then have "first_min f (q # ps) p" by (auto intro: first_min_Cons_later)
      moreover have "f p < m" using * True by (auto intro: order.strict_trans)
      ultimately show ?thesis by simp
    qed
  next
    case False
    with Cons.prems have "scan_min f m c ps = Some p" by auto
    from Cons.IH [OF this] show ?thesis
    proof
      assume "c = Some p \<and> (\<forall>x \<in> set ps. available x \<longrightarrow> m \<le> f x)"
      with False show ?thesis by (auto simp: not_less)
    next
      assume *: "first_min f ps p \<and> f p < m"
      with False have "available q \<Longrightarrow> f p < f q"
        by (auto simp: not_less intro: order.strict_trans2)
      with * show ?thesis by (auto intro: first_min_Cons_later)
    qed
  qed
qed

lemma scan_min_NoneD:
  "scan_min f m c ps = None \<Longrightarrow> c = None \<and> (\<forall>q \<in> set ps. available q \<longrightarrow> m \<le> f q)"
proof (induction ps arbitrary: m c)
  case (Cons q ps)
  show ?case
  proof (cases "available q \<and> f q < m")
    case True
    with Cons.prems have "scan_min f (f q) (Some q) ps = None" by simp
    from Cons.IH [OF this] show ?thesis by simp
  next
    case False
    with Cons.prems have "scan_min f m c ps = None" by auto
    from Cons.IH [OF this] False show ?thesis by (auto simp: not_less)
  qed
qed simp

section \<open>The algorithms satisfy the contracts\<close>

lemma hash_select_SomeD: "hash_select i ps = Some p \<Longrightarrow> p \<in> set ps \<and> available p"
  by (auto simp: hash_select_def split: option.splits dest: find_SomeD)

lemma hash_select_NoneD: "hash_select i ps = None \<Longrightarrow> \<forall>p \<in> set ps. \<not> available p"
  by (auto simp: hash_select_def find_None_iff' split: option.splits)

interpretation hashsel: path_selector hash_select
  by unfold_locales (auto dest: hash_select_SomeD hash_select_NoneD)

lemma rr_scan1_eq:
  "rr_scan1 turn idx ps =
     (if idx \<le> turn \<and> nat (turn - idx) < length ps \<and> available (ps ! nat (turn - idx))
      then Some (ps ! nat (turn - idx)) else None)"
proof (induction ps arbitrary: idx)
  case (Cons p ps)
  show ?case
  proof (cases "turn = idx")
    case True
    then have "rr_scan1 turn (idx + 1) ps = None" using Cons.IH [of "idx + 1"] by simp
    with True show ?thesis by simp
  next
    case False
    then show ?thesis
    proof (cases "idx < turn")
      case True
      then have "nat (turn - idx) = Suc (nat (turn - (idx + 1)))" by simp
      with True show ?thesis by (simp add: Cons.IH)
    next
      case False
      with \<open>turn \<noteq> idx\<close> show ?thesis by (simp add: Cons.IH)
    qed
  qed
qed simp

lemma rr_scan2_None: "snd (rr_scan2 t ps) = None \<longleftrightarrow> (\<forall>p \<in> set ps. \<not> available p)"
  by (induction ps arbitrary: t) auto

lemma rr_scan2_Some: "snd (rr_scan2 t ps) = Some p \<Longrightarrow> p \<in> set ps \<and> available p"
  by (induction ps arbitrary: t) (auto split: if_splits)

lemma rr_scan2_first:
  assumes "k < length ps" and "available (ps ! k)" and "\<forall>j < k. \<not> available (ps ! j)"
  shows "rr_scan2 t ps = (t + int k, Some (ps ! k))"
  using assms
proof (induction ps arbitrary: k t)
  case (Cons p ps)
  show ?case
  proof (cases k)
    case 0
    with Cons.prems show ?thesis by simp
  next
    case (Suc k')
    with Cons.prems have "\<not> available p" by auto
    moreover have "\<forall>j < k'. \<not> available (ps ! j)"
      using Cons.prems(3) Suc by (metis Suc_less_eq nth_Cons_Suc)
    ultimately show ?thesis
      using Cons.IH [of k' "t + 1"] Cons.prems Suc by simp
  qed
qed simp

interpretation rrsel: path_selector "\<lambda>turn ps. snd (rr_select turn ps)"
proof
  fix turn ps p
  show "snd (rr_select turn ps) = Some p \<Longrightarrow> p \<in> set ps \<and> available p"
    by (auto simp: rr_select_def rr_scan1_eq split: if_splits option.splits dest: rr_scan2_Some)
  show "snd (rr_select turn ps) = None \<Longrightarrow> \<forall>p \<in> set ps. \<not> available p"
    by (auto simp: rr_select_def rr_scan2_None split: option.splits)
qed

interpretation minsel: path_chooser "\<lambda>f ps. scan_min f UINT64_MAX None ps"
  by unfold_locales (auto dest!: scan_min_SomeD first_min_member)

section \<open>Identifiers are queue positions\<close>

definition ids_ok :: "ump_bdev_channel \<Rightarrow> bool" where
  "ids_ok ch \<longleftrightarrow>
     map iop_id (iopath_list ch) = map of_nat [0..<length (iopath_list ch)] \<and>
     max_id ch = of_nat (length (iopath_list ch))"

lemma ids_ok_nth:
  assumes "ids_ok ch" and "i < length (iopath_list ch)"
  shows "iop_id (iopath_list ch ! i) = of_nat i"
proof -
  have "map iop_id (iopath_list ch) ! i = map of_nat [0..<length (iopath_list ch)] ! i"
    using assms(1) by (simp only: ids_ok_def)
  with assms(2) show ?thesis by simp
qed

lemma ids_ok_eq_id:
  assumes "ids_ok ch" and "length (iopath_list ch) < 2 ^ 64"
    and "i < length (iopath_list ch)" and "j < length (iopath_list ch)"
  shows "of_nat i = iop_id (iopath_list ch ! j) \<longleftrightarrow> i = j"
  using assms ids_ok_nth [of ch j] of_nat_u64_inject [of i j] by simp

lemma find_by_id:
  assumes ids: "ids_ok ch" and len: "length (iopath_list ch) < 2 ^ 64" and i: "i < length (iopath_list ch)"
  shows "List.find (\<lambda>p. P p \<and> of_nat i = iop_id p) (iopath_list ch) =
    (if P (iopath_list ch ! i) then Some (iopath_list ch ! i) else None)"
proof (cases "P (iopath_list ch ! i)")
  case True
  have "List.find (\<lambda>p. P p \<and> of_nat i = iop_id p) (iopath_list ch) = Some (iopath_list ch ! i)"
    unfolding find_Some_iff using True i ids_ok_eq_id [OF ids len i] by (intro exI [of _ i]) auto
  with True show ?thesis by simp
next
  case False
  have "\<not> (P p \<and> of_nat i = iop_id p)" if "p \<in> set (iopath_list ch)" for p
  proof -
    from that obtain j where "j < length (iopath_list ch)" "p = iopath_list ch ! j"
      by (auto simp: in_set_conv_nth)
    with False ids_ok_eq_id [OF ids len i, of j] show ?thesis by auto
  qed
  with False show ?thesis by (auto simp: find_None_iff')
qed

definition path_index :: "spdk_bdev_io \<Rightarrow> nat \<Rightarrow> nat" where
  "path_index io n = unat (offset_blocks io) div unat (num_blocks io) mod n"

lemma hash_chose_id_ucast:
  assumes "0 < n" and "n < 2 ^ 31"
  shows "(ucast (hash_chose_id (of_nat n) io) :: u64) = of_nat (path_index io n)"
proof -
  let ?v = "(offset_blocks io div num_blocks io) mod (of_nat n :: u64)"
  have n: "unat (of_nat n :: u64) = n"
    using assms(2) by (simp add: unat_of_nat_u64)
  have v: "?v = of_nat (path_index io n)"
    by (simp add: word_div_mod_nat path_index_def n)
  have "path_index io n < 2 ^ 31"
    using assms by (simp add: path_index_def order.strict_trans [OF mod_less_divisor])
  then have "unat ?v < 2 ^ 31"
    unfolding v by (simp add: unat_of_nat_u64)
  then show ?thesis
    unfolding hash_chose_id_def using u64_through_u32 [of ?v] v by simp
qed

section \<open>What each algorithm chooses\<close>

text \<open>C22. The hash selection sends the I/O that covers the extent number
  \<open>offset div num_blocks\<close> to the path whose position is that number modulo the number of
  paths, if that path is available, otherwise to the first available path, and to none
  exactly when no path is available.\<close>

theorem hash_path_choice:
  assumes "ids_ok ch" and "iopath_list ch \<noteq> []" and "length (iopath_list ch) < 2 ^ 31"
    and "num_blocks io \<noteq> 0"
  shows "ump_bdev_find_iopath ch io =
    Inr (let ps = iopath_list ch; p = ps ! path_index io (length ps)
         in if available p then Some p else List.find available ps)"
proof -
  let ?ps = "iopath_list ch" and ?n = "length (iopath_list ch)"
  have n: "max_id ch = of_nat ?n" "0 < ?n"
    using assms by (auto simp: ids_ok_def)
  have nz: "max_id ch \<noteq> 0"
    using n assms(3) of_nat_u64_inject [of ?n 0] by simp
  have i: "path_index io ?n < ?n"
    using n by (simp add: path_index_def)
  have "hash_select (hash_chose_id (max_id ch) io) ?ps =
      (let p = ?ps ! path_index io ?n in if available p then Some p else List.find available ?ps)"
    unfolding hash_select_def n(1) hash_chose_id_ucast [OF n(2) assms(3)]
    using find_by_id [OF assms(1) _ i, of available] assms(3) by (simp add: Let_def)
  then show ?thesis
    using assms(2,4) nz by (simp add: ump_bdev_find_iopath_def ump_find_iopath_hash_def Let_def)
qed

theorem hash_path_choice_witness:
  "ump_bdev_find_iopath \<lparr>ch_addr = 1, iopath_list = [sample_path 10 0 True, sample_path 11 1 False],
       max_id = 2\<rparr> (sample_io 24 8) = Inr (Some (sample_path 10 0 True))"
proof -
  let ?ch = "\<lparr>ch_addr = 1, iopath_list = [sample_path 10 0 True, sample_path 11 1 False], max_id = 2\<rparr>"
  have ids: "ids_ok ?ch" by (simp add: ids_ok_def)
  have "path_index (sample_io 24 8) (Suc (Suc 0)) = Suc 0"
    by (simp add: path_index_def mod_Suc numeral_3_eq_3)
  then show ?thesis
    using hash_path_choice [OF ids, of "sample_io 24 8"] by (simp add: Let_def)
qed

fun rr_picks :: "nat \<Rightarrow> int \<Rightarrow> ump_bdev_channel \<Rightarrow> fault + ump_bdev_iopath list" where
  "rr_picks 0 turn ch = Inr []"
| "rr_picks (Suc k) turn ch =
     bindR (ump_find_iopath_round_robin turn ch) (\<lambda>(turn', p).
       bindR (rr_picks k turn' ch) (\<lambda>ps. Inr (p # ps)))"

lemma rr_all_available:
  assumes "\<forall>p \<in> set (iopath_list ch). available p" and "iopath_list ch \<noteq> []"
    and "t \<le> length (iopath_list ch)"
  shows "ump_find_iopath_round_robin (int t) ch =
    Inr (int (t mod length (iopath_list ch)) + 1, iopath_list ch ! (t mod length (iopath_list ch)))"
proof (cases "t < length (iopath_list ch)")
  case True
  then show ?thesis
    using assms(1) by (simp add: ump_find_iopath_round_robin_def rr_select_def rr_scan1_eq)
next
  case False
  with assms(3) have t: "t = length (iopath_list ch)" by simp
  obtain p ps where "iopath_list ch = p # ps"
    using assms(2) by (cases "iopath_list ch") auto
  then show ?thesis
    using t assms(1) by (simp add: ump_find_iopath_round_robin_def rr_select_def rr_scan1_eq)
qed

text \<open>While all paths are available the round robin is fair: from any turn, \<open>k\<close>
  successive calls return the paths in cyclic queue order, each exactly once per cycle.\<close>

theorem round_robin_cycles:
  assumes "\<forall>p \<in> set (iopath_list ch). available p" and "iopath_list ch \<noteq> []"
    and "t \<le> length (iopath_list ch)"
  shows "rr_picks k (int t) ch =
    Inr (map (\<lambda>j. iopath_list ch ! ((t + j) mod length (iopath_list ch))) [0..<k])"
  using assms(3)
proof (induction k arbitrary: t)
  case 0
  then show ?case by simp
next
  case (Suc k)
  let ?n = "length (iopath_list ch)"
  have n: "0 < ?n" using assms(2) by simp
  then have le: "Suc (t mod ?n) \<le> ?n" by (simp add: Suc_le_eq)
  have "rr_picks k (int (Suc (t mod ?n))) ch =
      Inr (map (\<lambda>j. iopath_list ch ! ((Suc (t mod ?n) + j) mod ?n)) [0..<k])"
    by (rule Suc.IH [OF le])
  moreover have "(Suc (t mod ?n) + j) mod ?n = (t + Suc j) mod ?n" for j
    by (metis add_Suc_shift mod_add_left_eq add_Suc_right)
  ultimately have "rr_picks k (int (t mod ?n) + 1) ch =
      Inr (map (\<lambda>j. iopath_list ch ! ((t + Suc j) mod ?n)) [0..<k])"
    by (simp add: add.commute)
  then show ?case
    using rr_all_available [OF assms(1,2) Suc.prems]
    by (simp add: upt_conv_Cons map_Suc_upt [symmetric] del: upt_Suc)
qed

theorem round_robin_cycles_witness:
  "rr_picks 3 1 \<lparr>ch_addr = 1, iopath_list = [sample_path 10 0 True, sample_path 11 1 True], max_id = 2\<rparr>
     = Inr [sample_path 11 1 True, sample_path 10 0 True, sample_path 11 1 True]"
  using round_robin_cycles [of "\<lparr>ch_addr = 1,
      iopath_list = [sample_path 10 0 True, sample_path 11 1 True], max_id = 2\<rparr>" 1 3]
  by (simp add: numeral_3_eq_3 mod_Suc)

text \<open>The round robin starves: when the path right after the first available path
  is down, every call from that turn on returns the first available path, whatever other
  paths behind the broken one are available.\<close>

theorem round_robin_starves:
  assumes "k < length (iopath_list ch)" and "available (iopath_list ch ! k)"
    and "\<forall>j < k. \<not> available (iopath_list ch ! j)"
    and "Suc k < length (iopath_list ch)" and "\<not> available (iopath_list ch ! Suc k)"
  shows "rr_picks m (int k + 1) ch = Inr (replicate m (iopath_list ch ! k))"
proof -
  have "nat (int k + 1) = Suc k" by simp
  then have "ump_find_iopath_round_robin (int k + 1) ch = Inr (int k + 1, iopath_list ch ! k)"
    using assms(5) rr_scan2_first [OF assms(1-3), of 1]
    by (simp add: ump_find_iopath_round_robin_def rr_select_def rr_scan1_eq)
  then show ?thesis by (induction m) auto
qed

theorem round_robin_starves_witness:
  "rr_picks 5 1 \<lparr>ch_addr = 1, iopath_list = [sample_path 10 0 True, sample_path 11 1 False,
       sample_path 12 2 True], max_id = 3\<rparr> = Inr (replicate 5 (sample_path 10 0 True))"
  using round_robin_starves [of 0 "\<lparr>ch_addr = 1, iopath_list = [sample_path 10 0 True,
      sample_path 11 1 False, sample_path 12 2 True], max_id = 3\<rparr>" 5] by simp

text \<open>The service-time selection returns the first of the available paths whose average
  latency for the I/O's direction is least; it reads an uninitialised pointer exactly when
  no available path has an average below the maximal value.\<close>

theorem service_time_choice:
  "case ump_find_iopath_service_time ch io of
     Inr p \<Rightarrow> first_min (service_time_of (bio_type io)) (iopath_list ch) p
   | Inl e \<Rightarrow> e = Uninitialised \<and>
       (\<forall>q \<in> set (iopath_list ch). available q \<longrightarrow> service_time_of (bio_type io) q = UINT64_MAX)"
proof (cases "scan_min (service_time_of (bio_type io)) UINT64_MAX None (iopath_list ch)")
  case None
  then show ?thesis
    using scan_min_NoneD [OF None]
    by (auto simp: ump_find_iopath_service_time_def UINT64_MAX_def word_order.extremum_unique)
next
  case (Some p)
  then show ?thesis
    using scan_min_SomeD [OF Some] by (simp add: ump_find_iopath_service_time_def)
qed

theorem service_time_choice_witness:
  "ump_find_iopath_service_time \<lparr>ch_addr = 1, iopath_list = [sample_path 10 0 False,
     sample_path 11 1 True], max_id = 2\<rparr> (sample_io 0 8) = Inr (sample_path 11 1 True)"
  using service_time_choice [of "\<lparr>ch_addr = 1, iopath_list = [sample_path 10 0 False,
     sample_path 11 1 True], max_id = 2\<rparr>" "sample_io 0 8"]
  by (auto simp: service_time_of_def sample_path_def sample_io_def tq_zero_def
      ump_find_iopath_service_time_def)

text \<open>The queue-length selection returns the first of the available paths with the
  fewest outstanding requests and adds one to the count of that path alone.\<close>

theorem queue_length_choice:
  assumes "ump_find_iopath_queue_length ch = Inr (ch', p')"
    and "distinct (map iop_addr (iopath_list ch))"
  shows "\<exists>p. first_min io_incomplete (iopath_list ch) p \<and>
      p' = p\<lparr>io_incomplete := io_incomplete p + 1\<rparr> \<and>
      ch' = ch\<lparr>iopath_list := map (\<lambda>q. if q = p then p' else q) (iopath_list ch)\<rparr>"
proof -
  from assms(1) obtain p where s: "scan_min io_incomplete UINT64_MAX None (iopath_list ch) = Some p"
    and p': "p' = p\<lparr>io_incomplete := io_incomplete p + 1\<rparr>"
    and ch': "ch' = ch\<lparr>iopath_list := update_by iop_addr (iop_addr p)
                (\<lambda>q. q\<lparr>io_incomplete := io_incomplete q + 1\<rparr>) (iopath_list ch)\<rparr>"
    by (auto simp: ump_find_iopath_queue_length_def Let_def split: option.splits)
  have fm: "first_min io_incomplete (iopath_list ch) p"
    using scan_min_SomeD [OF s] by simp
  then have mem: "p \<in> set (iopath_list ch)"
    by (auto dest: first_min_member)
  have "iop_addr q = iop_addr p \<longleftrightarrow> q = p" if "q \<in> set (iopath_list ch)" for q
    using assms(2) mem that by (auto simp: distinct_map inj_on_def)
  then have "update_by iop_addr (iop_addr p) (\<lambda>q. q\<lparr>io_incomplete := io_incomplete q + 1\<rparr>)
      (iopath_list ch) = map (\<lambda>q. if q = p then p' else q) (iopath_list ch)"
    unfolding update_by_def p' by (intro map_cong) auto
  with fm p' ch' show ?thesis by (intro exI [of _ p]) simp
qed

theorem queue_length_choice_witness:
  "\<exists>p. first_min io_incomplete [sample_path 10 0 False, sample_path 11 1 True] p \<and>
     (sample_path 11 1 True)\<lparr>io_incomplete := 1\<rparr> = p\<lparr>io_incomplete := io_incomplete p + 1\<rparr>"
proof -
  let ?ch = "\<lparr>ch_addr = 1, iopath_list = [sample_path 10 0 False, sample_path 11 1 True], max_id = 2\<rparr>"
  let ?p = "(sample_path 11 1 True)\<lparr>io_incomplete := 1\<rparr>"
  have "ump_find_iopath_queue_length ?ch =
      Inr (?ch\<lparr>iopath_list := [sample_path 10 0 False, ?p]\<rparr>, ?p)"
    by (simp add: ump_find_iopath_queue_length_def Let_def)
  from queue_length_choice [OF this] show ?thesis by auto
qed

section \<open>The random selection\<close>

lemma random_scan_SomeD:
  "random_scan mx turn cnt ps = Some (Some p) \<Longrightarrow> p \<in> set ps \<and> available p"
  by (induction ps arbitrary: cnt) (auto simp: Let_def split: if_splits)

lemma random_loop_SomeD:
  "ump_find_iopath_random rs ch = Inr (Some (Some p)) \<Longrightarrow> p \<in> set (iopath_list ch) \<and> available p"
  by (induction rs) (auto split: if_splits option.splits dest: random_scan_SomeD)

lemma random_scan_hit:
  assumes "k < length ps" and "iop_id (ps ! k) = scast turn"
    and "\<forall>j < k. iop_id (ps ! j) \<noteq> scast turn"
  shows "random_scan mx turn cnt ps =
     (if available (ps ! k) then Some (Some (ps ! k))
      else if scast (cnt + of_nat (length (filter (\<lambda>p. \<not> available p) (take (Suc k) ps))) :: u32) = mx
           then Some None else None)"
  using assms
proof (induction ps arbitrary: k cnt)
  case Nil
  then show ?case by simp
next
  case (Cons p ps)
  show ?case
  proof (cases k)
    case 0
    with Cons.prems show ?thesis by (simp add: Let_def)
  next
    case (Suc k')
    have ne: "iop_id p \<noteq> scast turn"
      using Cons.prems(3) Suc by auto
    have later: "\<forall>j < k'. iop_id (ps ! j) \<noteq> scast turn"
      using Cons.prems(3) Suc by (metis Suc_less_eq nth_Cons_Suc)
    have k': "k' < length ps" "iop_id (ps ! k') = scast turn"
      using Cons.prems(1,2) Suc by simp_all
    let ?d = "(if \<not> available p then cnt + 1 else cnt)"
    let ?l = "length (filter (\<lambda>p. \<not> available p) (take (Suc k') ps))"
    have c: "?d + of_nat ?l = cnt + of_nat (length (filter (\<lambda>p. \<not> available p) (take (Suc k) (p # ps))))"
      unfolding Suc by (simp only: take_Suc_Cons filter.simps) simp
    have "random_scan mx turn cnt (p # ps) = random_scan mx turn ?d ps"
      using ne by (simp add: Let_def)
    also have "\<dots> = (if available (ps ! k') then Some (Some (ps ! k'))
        else if scast (?d + of_nat ?l :: u32) = mx then Some None else None)"
      by (rule Cons.IH [OF k' later])
    finally show ?thesis
      unfolding c using Suc by (simp only: nth_Cons_Suc)
  qed
qed

lemma rand_turn_scast:
  assumes "0 < n" and "n < 2 ^ 31" and "r < 2 ^ 31"
  shows "(scast (rand_turn r (of_nat n)) :: u64) = of_nat (r mod n)"
proof -
  let ?v = "(of_nat r :: u64) mod of_nat n"
  have v: "?v = of_nat (r mod n)"
    using assms word_div_mod_nat [of "of_nat r :: u64" 1 "of_nat n"] by (simp add: unat_of_nat_u64)
  have "r mod n < 2 ^ 31"
    using assms by (simp add: order.strict_trans [OF mod_less_divisor])
  then have "unat ?v < 2 ^ 31"
    unfolding v by (simp add: unat_of_nat_u64)
  then show ?thesis
    unfolding rand_turn_def using u64_through_int [of ?v] v by simp
qed

lemma random_draw:
  assumes ids: "ids_ok ch" and n: "0 < length (iopath_list ch)" "length (iopath_list ch) < 2 ^ 31"
    and r: "r < 2 ^ 31"
  shows "random_scan (max_id ch) (rand_turn r (max_id ch)) 0 (iopath_list ch) =
    (let k = r mod length (iopath_list ch) in
     if available (iopath_list ch ! k) then Some (Some (iopath_list ch ! k))
     else if k = length (iopath_list ch) - 1 \<and> (\<forall>p \<in> set (iopath_list ch). \<not> available p)
          then Some None else None)"
proof -
  let ?ps = "iopath_list ch" and ?n = "length (iopath_list ch)"
  define k where "k = r mod ?n"
  have k: "k < ?n" using n by (simp add: k_def)
  have mx: "max_id ch = of_nat ?n" using ids by (simp add: ids_ok_def)
  have t: "(scast (rand_turn r (max_id ch)) :: u64) = of_nat k"
    using rand_turn_scast [OF n r] by (simp add: mx k_def)
  have big: "?n < 2 ^ 64" using n(2) by simp
  have idk: "iop_id (?ps ! k) = scast (rand_turn r (max_id ch))"
    using ids_ok_nth [OF ids k] t by simp
  have idj: "\<forall>j < k. iop_id (?ps ! j) \<noteq> scast (rand_turn r (max_id ch))"
    using ids_ok_eq_id [OF ids big k] k t by (metis order.strict_trans less_irrefl)
  let ?c = "length (filter (\<lambda>p. \<not> available p) (take (Suc k) ?ps))"
  have c: "?c \<le> Suc k" "?c \<le> ?n"
    using length_filter_le [of "\<lambda>p. \<not> available p" "take (Suc k) ?ps"] k by simp_all
  have "(scast (ucast (of_nat ?c :: u64) :: u32) :: u64) = of_nat ?c"
    using c n(2) by (intro u64_through_int) (simp add: unat_of_nat_u64)
  moreover have "(ucast (of_nat ?c :: u64) :: u32) = of_nat ?c"
    using c big by (simp add: word_eq_iff_unsigned unsigned_ucast_eq unsigned_of_nat take_bit_nat_eq_self)
  ultimately have cnt: "(scast (of_nat ?c :: u32) :: u64) = of_nat ?c" by simp
  have "(scast (of_nat ?c :: u32) :: u64) = max_id ch \<longleftrightarrow> ?c = ?n"
    unfolding cnt mx using c big by (intro of_nat_u64_inject) simp_all
  also have "?c = ?n \<longleftrightarrow> k = ?n - 1 \<and> (\<forall>p \<in> set ?ps. \<not> available p)"
  proof
    assume eq: "?c = ?n"
    with c k have kn: "k = ?n - 1" by simp
    with k have "take (Suc k) ?ps = ?ps" by simp
    with eq have "filter (\<lambda>p. \<not> available p) ?ps = ?ps"
      by (metis length_filter_less nat_neq_iff filter_True)
    with kn show "k = ?n - 1 \<and> (\<forall>p \<in> set ?ps. \<not> available p)"
      using filter_id_conv [of "\<lambda>p. \<not> available p" ?ps] by blast
  next
    assume "k = ?n - 1 \<and> (\<forall>p \<in> set ?ps. \<not> available p)"
    then show "?c = ?n" using n by simp
  qed
  finally show ?thesis
    using random_scan_hit [OF k idk idj, of "max_id ch" 0]
    by (simp add: Let_def flip: k_def)
qed

text \<open>The random selection is decided by its draws: it skips every draw that hits a
  failed path and returns the first available path drawn; it returns NULL only when no path
  is available and the draw hits the last path of the queue, so with no path available it
  spins until then.\<close>

theorem random_selection:
  assumes "ids_ok ch" and "0 < length (iopath_list ch)" and "length (iopath_list ch) < 2 ^ 31"
    and "\<forall>r \<in> set rs. r < 2 ^ 31"
  shows "ump_find_iopath_random rs ch =
    (let ps = iopath_list ch; n = length ps; none = (\<forall>p \<in> set ps. \<not> available p) in
     Inr (map_option (\<lambda>k. if available (ps ! k) then Some (ps ! k) else None)
       (List.find (\<lambda>k. available (ps ! k) \<or> none \<and> k = n - 1) (map (\<lambda>r. r mod n) rs))))"
  using assms(4)
proof (induction rs)
  case Nil
  then show ?case by simp
next
  case (Cons r rs)
  have "max_id ch \<noteq> 0"
    using assms(1-3) of_nat_u64_inject [of "length (iopath_list ch)" 0] by (auto simp: ids_ok_def)
  then show ?case
    using Cons.IH Cons.prems random_draw [OF assms(1-3), of r] by (simp add: Let_def)
qed

theorem random_selection_witness:
  "ump_find_iopath_random [2, 5] \<lparr>ch_addr = 1, iopath_list = [sample_path 10 0 False,
     sample_path 11 1 True], max_id = 2\<rparr> = Inr (Some (Some (sample_path 11 1 True)))"
proof -
  let ?ch = "\<lparr>ch_addr = 1, iopath_list = [sample_path 10 0 False, sample_path 11 1 True], max_id = 2\<rparr>"
  have ids: "ids_ok ?ch" by (simp add: ids_ok_def)
  have n: "0 < length (iopath_list ?ch)" "length (iopath_list ?ch) < 2 ^ 31" by simp_all
  have rs: "\<forall>r \<in> set [2, 5]. r < (2 ^ 31 :: nat)" by simp
  have m: "(2::nat) mod Suc (Suc 0) = 0" "(5::nat) mod Suc (Suc 0) = Suc 0"
    by (simp_all add: eval_nat_numeral mod_Suc)
  show ?thesis
    unfolding random_selection [OF ids n rs] by (simp add: Let_def m)
qed

end
