(* ===== verification/Sump_Core.thy ===== *)
theory Sump_Core
  imports Sump_Select "HOL-Library.Multiset"
begin

text \<open>
  The state of the multi-path library and its operations: device registration
  (\<^verbatim>\<open>src/sump.c\<close>), I/O submission (\<^verbatim>\<open>src/sump_data.c\<close>), channels, completion and
  failback (\<^verbatim>\<open>src/sump_ctrl.c\<close>).

  \<open>sump_state\<close> holds the globals (\<open>ump_bdev_manage\<close>, \<open>g_ump_bdev_channels\<close>, \<open>count\<close>,
  \<open>io_count_poller\<close>, whether \<open>real_spdk_bdev_register\<close> is set), the heap objects that are
  reached by pointer (completion and failback contexts, pollers) and what the library has
  handed to the code around it: the I/Os submitted to the lower devices and not yet
  completed, the completion callbacks it has called, the channels it has released.
  What SPDK and libc answer is the parameter \<open>spdk_env\<close>: an allocation or a lower
  \<open>get_io_channel\<close> may fail, decided by the address it would have had. Lower devices
  complete an I/O after \<open>submit_request\<close> has returned, as \<open>spdk_bdev_io_complete\<close> does.
\<close>

datatype poller_fn = UmpIoCountFn | UmpFailbackIoFn addr

record spdk_poller =
  pl_addr :: addr
  pl_fn :: poller_fn
  pl_paused :: bool

record spdk_env =
  alloc_ok :: "addr \<Rightarrow> bool"
  lower_get_io_channel :: "spdk_bdev \<Rightarrow> addr \<Rightarrow> addr option"
  lower_bdev_register :: "spdk_bdev \<Rightarrow> int"
  uuid_fmt_lower :: "uuid \<Rightarrow> string"
  dlsym_finds :: bool

record sump_state =
  real_register_set :: bool
  mbdevs :: "ump_bdev list"
  io_devices :: "addr list"
  g_channels :: "ump_bdev_channel list"
  freed_channels :: "addr list" \<comment> \<open>still linked after their creation failed\<close>
  io_counts :: "u64 list"
  io_count_poller :: "addr option"
  pollers :: "spdk_poller list"
  cctxs :: "addr \<rightharpoonup> ump_bdev_io_completion_ctx"
  fctxs :: "addr \<rightharpoonup> ump_failback_ctx"
  next_addr :: addr
  in_flight :: "(addr option \<times> spdk_bdev_io) list"
  callbacks :: "(io_cb \<times> addr \<times> bool) list"
  put_channels :: "addr option list"

definition sump_initial :: sump_state where
  "sump_initial = \<lparr>real_register_set = False, mbdevs = [], io_devices = [], g_channels = [],
     freed_channels = [], io_counts = [0, 0, 0, 0], io_count_poller = None, pollers = [],
     cctxs = Map.empty, fctxs = Map.empty, next_addr = 1, in_flight = [], callbacks = [],
     put_channels = []\<rparr>"

section \<open>Memory\<close>

definition alloc :: "spdk_env \<Rightarrow> sump_state \<Rightarrow> addr option \<times> sump_state" where
  "alloc env s = (if alloc_ok env (next_addr s) then Some (next_addr s) else None,
     s\<lparr>next_addr := Suc (next_addr s)\<rparr>)"

definition find_channel :: "sump_state \<Rightarrow> addr \<Rightarrow> ump_bdev_channel option" where
  "find_channel s c = List.find (\<lambda>x. ch_addr x = c) (g_channels s)"

definition all_paths :: "sump_state \<Rightarrow> ump_bdev_iopath list" where
  "all_paths s = concat (map iopath_list (g_channels s))"

definition find_path :: "sump_state \<Rightarrow> addr \<Rightarrow> ump_bdev_iopath option" where
  "find_path s a = List.find (\<lambda>p. iop_addr p = a) (all_paths s)"

definition update_path ::
    "addr \<Rightarrow> (ump_bdev_iopath \<Rightarrow> ump_bdev_iopath) \<Rightarrow> sump_state \<Rightarrow> sump_state" where
  "update_path a f s = s\<lparr>g_channels :=
     map (\<lambda>c. c\<lparr>iopath_list := update_by iop_addr a f (iopath_list c)\<rparr>) (g_channels s)\<rparr>"

definition spdk_poller_register :: "spdk_env \<Rightarrow> poller_fn \<Rightarrow> sump_state \<Rightarrow> addr option \<times> sump_state"
  where
  "spdk_poller_register env f s =
     (case alloc env s of
        (None, s1) \<Rightarrow> (None, s1)
      | (Some a, s1) \<Rightarrow>
          (Some a, s1\<lparr>pollers := pollers s1 @ [\<lparr>pl_addr = a, pl_fn = f, pl_paused = False\<rparr>]\<rparr>))"

section \<open>Initialisation and registration\<close>

definition ump_init :: "spdk_env \<Rightarrow> sump_state \<Rightarrow> sump_state" where
  "ump_init env s = s\<lparr>real_register_set := dlsym_finds env, g_channels := []\<rparr>"

definition mbdev_of :: "spdk_env \<Rightarrow> addr \<Rightarrow> spdk_bdev \<Rightarrow> spdk_bdev" where
  "mbdev_of env a b = \<lparr>bd_ctxt = a, bd_name = ''ump-bdev-'' @ uuid_fmt_lower env (bd_uuid b),
     bd_product_name = bd_product_name b, bd_write_cache = bd_write_cache b,
     bd_blocklen = bd_blocklen b, bd_blockcnt = bd_blockcnt b,
     bd_write_unit_size = bd_write_unit_size b, bd_acwu = bd_acwu b,
     bd_required_alignment = bd_required_alignment b,
     bd_split_on_optimal_io_boundary = bd_split_on_optimal_io_boundary b,
     bd_optimal_io_boundary = bd_optimal_io_boundary b, bd_uuid = bd_uuid b, bd_md_len = bd_md_len b,
     bd_md_interleave = bd_md_interleave b, bd_dif_type = bd_dif_type b,
     bd_dif_is_head_of_md = bd_dif_is_head_of_md b, bd_dif_check_flags = bd_dif_check_flags b,
     bd_zoned = bd_zoned b, bd_zone_size = bd_zone_size b, bd_max_open_zones = bd_max_open_zones b,
     bd_optimal_open_zones = bd_optimal_open_zones b, bd_media_events = bd_media_events b,
     bd_fn_table_is_ump = True\<rparr>"

definition ump_bdev_construct :: "spdk_env \<Rightarrow> spdk_bdev \<Rightarrow> sump_state \<Rightarrow> int \<times> sump_state" where
  "ump_bdev_construct env b s =
     (case alloc env s of
        (None, s1) \<Rightarrow> (- 1, s1)
      | (Some a, s1) \<Rightarrow>
         (case alloc env s1 of
            (None, s2) \<Rightarrow> (- 1, s2)
          | (Some _, s2) \<Rightarrow>
              let m = \<lparr>mb_addr = a, mb_bdev = mbdev_of env a b, spdk_bdev_list = [b], mb_freed = False\<rparr>;
                  rc = lower_bdev_register env (mb_bdev m);
                  s3 = s2\<lparr>io_devices := io_devices s2 @ [a]\<rparr>
              in if rc \<noteq> 0 then (rc, s3\<lparr>mbdevs := mbdevs s3 @ [m\<lparr>mb_freed := True\<rparr>]\<rparr>)
                 else (0, s3\<lparr>mbdevs := mbdevs s3 @ [m]\<rparr>)))"

definition new_iopath :: "addr \<Rightarrow> addr option \<Rightarrow> spdk_bdev \<Rightarrow> u64 \<Rightarrow> ump_bdev_iopath" where
  "new_iopath a ioch b i = \<lparr>iop_addr = a, io_channel = ioch, iop_bdev = b, available = True,
     reconnecting = False, reconnect_poller = None, io_read_time = ump_time_queue_init tq_zero,
     io_write_time = ump_time_queue_init tq_zero, iop_id = i, io_incomplete = 0\<rparr>"

definition append_path :: "ump_bdev_iopath \<Rightarrow> ump_bdev_channel \<Rightarrow> ump_bdev_channel" where
  "append_path p c = c\<lparr>iopath_list := iopath_list c @ [p], max_id := max_id c + 1\<rparr>"

text \<open>The search of \<open>ump_bdev_add_bdev\<close> over the global list of channels: the first channel
  with a path to a device of this uuid gets the new path, and the search ends there.\<close>

fun add_to_first_channel :: "uuid \<Rightarrow> (u64 \<Rightarrow> ump_bdev_iopath) \<Rightarrow> addr list \<Rightarrow> ump_bdev_channel list \<Rightarrow>
    fault + ump_bdev_channel list option" where
  "add_to_first_channel u mk freed [] = Inr None"
| "add_to_first_channel u mk freed (c # cs) =
     (if ch_addr c \<in> set freed then Inl UseAfterFree
      else if \<exists>p \<in> set (iopath_list c). bd_uuid (iop_bdev p) = u
      then Inr (Some (append_path (mk (max_id c)) c # cs))
      else bindR (add_to_first_channel u mk freed cs) (\<lambda>r. Inr (map_option ((#) c) r)))"

definition ump_bdev_add_bdev ::
    "spdk_env \<Rightarrow> addr \<Rightarrow> spdk_bdev \<Rightarrow> sump_state \<Rightarrow> fault + int \<times> sump_state" where
  "ump_bdev_add_bdev env ma b s =
     (case alloc env s of
        (None, s1) \<Rightarrow> Inr (- 1, s1)
      | (Some _, s1) \<Rightarrow>
         (let s2 = s1\<lparr>mbdevs := update_by mb_addr ma
                        (\<lambda>m. m\<lparr>spdk_bdev_list := spdk_bdev_list m @ [b]\<rparr>) (mbdevs s1)\<rparr>
          in case List.find (\<lambda>m. mb_addr m = ma) (mbdevs s2) of
               None \<Rightarrow> Inl UseAfterFree
             | Some m \<Rightarrow>
                let a = next_addr s2;
                    mk = (\<lambda>i. new_iopath a (lower_get_io_channel env b a) b i)
                in bindR (add_to_first_channel (bd_uuid (mb_bdev m)) mk (freed_channels s2)
                            (g_channels s2)) (\<lambda>r.
                   case r of
                     None \<Rightarrow> Inr (0, s2)
                   | Some cs \<Rightarrow>
                      (case alloc env s2 of
                         (None, s3) \<Rightarrow> Inl NullDeref
                       | (Some _, s3) \<Rightarrow> Inr (0, s3\<lparr>g_channels := cs\<rparr>)))))"

definition spdk_bdev_register ::
    "spdk_env \<Rightarrow> spdk_bdev \<Rightarrow> sump_state \<Rightarrow> fault + int \<times> sump_state" where
  "spdk_bdev_register env b s =
     (let s1 = (if real_register_set s then s else ump_init env s)
      in if \<not> real_register_set s1 then Inr (- 1, s1)
         else bindR (get_ump_bdev_by_uuid (mbdevs s1) (bd_uuid b)) (\<lambda>r.
           case r of
             None \<Rightarrow> Inr (ump_bdev_construct env b s1)
           | Some m \<Rightarrow> ump_bdev_add_bdev env (mb_addr m) b s1))"

section \<open>Channels\<close>

definition ump_bdev_channel_clear_all_iopath ::
    "ump_bdev_channel \<Rightarrow> ump_bdev_channel \<times> addr option list" where
  "ump_bdev_channel_clear_all_iopath c = (c\<lparr>iopath_list := []\<rparr>, map io_channel (iopath_list c))"

text \<open>The loop of \<open>ump_bdev_channel_create_cb\<close> over the devices. The last component says
  whether the code goes to \<open>err\<close> (with the channel it has built so far).\<close>

fun create_iopaths :: "spdk_env \<Rightarrow> spdk_bdev list \<Rightarrow> ump_bdev_channel \<Rightarrow> sump_state \<Rightarrow>
    fault + ump_bdev_channel \<times> sump_state \<times> bool" where
  "create_iopaths env [] c s = Inr (c, s, True)"
| "create_iopaths env (b # bs) c s =
     (let ioch = lower_get_io_channel env b (next_addr s)
      in if ioch = None then create_iopaths env bs c s
         else case alloc env s of
                (None, s1) \<Rightarrow> Inr (c, s1\<lparr>put_channels := put_channels s1 @ [ioch]\<rparr>, False)
              | (Some a, s1) \<Rightarrow>
                  let p = new_iopath a ioch b (max_id c)
                  in if unat (iop_id p) < length (io_counts s1)
                     then create_iopaths env bs (append_path p c)
                            (s1\<lparr>io_counts := (io_counts s1)[unat (iop_id p) := 0]\<rparr>)
                     else Inl OutOfBounds)"

definition replace_channel :: "ump_bdev_channel \<Rightarrow> sump_state \<Rightarrow> sump_state" where
  "replace_channel c s = s\<lparr>g_channels := update_by ch_addr (ch_addr c) (\<lambda>_. c) (g_channels s)\<rparr>"

definition ump_bdev_channel_create_cb ::
    "spdk_env \<Rightarrow> ump_bdev \<Rightarrow> addr \<Rightarrow> sump_state \<Rightarrow> fault + int \<times> sump_state" where
  "ump_bdev_channel_create_cb env m ca s =
     (if g_channels s \<noteq> [] \<and> ch_addr (last (g_channels s)) \<in> set (freed_channels s)
      then Inl UseAfterFree \<comment> \<open>\<open>TAILQ_INSERT_TAIL\<close> writes to the last element\<close>
      else
      let c = \<lparr>ch_addr = ca, iopath_list = [], max_id = 0\<rparr>;
          s1 = s\<lparr>g_channels := g_channels s @ [c]\<rparr>;
          (pol, s2) = spdk_poller_register env UmpIoCountFn s1;
          s3 = s2\<lparr>io_count_poller := pol\<rparr>
      in bindR (create_iopaths env (spdk_bdev_list m) c s3) (\<lambda>(c', s4, ok).
           if ok then Inr (0, replace_channel c' s4)
           else let (c'', puts) = ump_bdev_channel_clear_all_iopath c'
                in Inr (- 1, replace_channel c'' (s4\<lparr>put_channels := put_channels s4 @ puts\<rparr>))))"

definition spdk_poller_unregister :: "addr option \<Rightarrow> sump_state \<Rightarrow> sump_state" where
  "spdk_poller_unregister pa s =
     (case pa of
        None \<Rightarrow> s
      | Some a \<Rightarrow> s\<lparr>pollers := remove_by pl_addr a (pollers s)\<rparr>)"

text \<open>\<open>TAILQ_REMOVE\<close> writes to both neighbours.\<close>

definition neighbour_freed :: "addr list \<Rightarrow> addr \<Rightarrow> addr list \<Rightarrow> bool" where
  "neighbour_freed freed c cs \<longleftrightarrow>
     (\<exists>(x, y) \<in> set (zip cs (tl cs)). x = c \<and> y \<in> set freed \<or> y = c \<and> x \<in> set freed)"

definition ump_bdev_channel_destroy_cb :: "addr \<Rightarrow> sump_state \<Rightarrow> fault + sump_state" where
  "ump_bdev_channel_destroy_cb ca s =
     (case find_channel s ca of
        None \<Rightarrow> Inl UseAfterFree
      | Some c \<Rightarrow>
          if neighbour_freed (freed_channels s) ca (map ch_addr (g_channels s)) then Inl UseAfterFree
          else
          let s1 = s\<lparr>g_channels := remove_by ch_addr ca (g_channels s)\<rparr>;
              s2 = (spdk_poller_unregister (io_count_poller s1) s1)\<lparr>io_count_poller := None\<rparr>;
              (_, puts) = ump_bdev_channel_clear_all_iopath c
          in Inr (s2\<lparr>put_channels := put_channels s2 @ puts\<rparr>))"

definition reset_times :: "ump_bdev_iopath \<Rightarrow> ump_bdev_iopath" where
  "reset_times p = p\<lparr>io_read_time := ump_time_queue_init (io_read_time p),
                      io_write_time := ump_time_queue_init (io_write_time p)\<rparr>"

definition ump_io_count_fn :: "sump_state \<Rightarrow> fault + sump_state" where
  "ump_io_count_fn s =
     (if \<exists>c \<in> set (g_channels s). ch_addr c \<in> set (freed_channels s) then Inl UseAfterFree
      else Inr (s\<lparr>g_channels := map (\<lambda>c. c\<lparr>iopath_list := map reset_times (iopath_list c)\<rparr>)
                                   (g_channels s)\<rparr>))"

section \<open>Submission\<close>

definition add_count :: "nat \<Rightarrow> spdk_bdev_io \<Rightarrow> u64 list \<Rightarrow> u64 list" where
  "add_count i io cs = cs[i := cs ! i + num_blocks io * ucast (bio_blocklen io)]"

definition ump_bdev_submit_request ::
    "spdk_env \<Rightarrow> addr \<Rightarrow> spdk_bdev_io \<Rightarrow> sump_state \<Rightarrow> fault + sump_state" where
  "ump_bdev_submit_request env ca io s =
     (case alloc env s of
        (None, s1) \<Rightarrow> Inr s1
      | (Some a, s1) \<Rightarrow>
         (let ctx = \<lparr>cctx_ch = ca, real_caller_ctx = bio_caller_ctx io,
                      real_completion_cb = bio_cb io, cctx_iopath = None\<rparr>;
              io' = io\<lparr>bio_cb := UmpIoCompletionCb, bio_caller_ctx := a\<rparr>
          in case find_channel s1 ca of
               None \<Rightarrow> Inl UseAfterFree
             | Some c \<Rightarrow>
                bindR (ump_bdev_find_iopath c io') (\<lambda>r.
                  case r of
                    None \<Rightarrow> Inl NullDeref
                  | Some p \<Rightarrow>
                     if unat (iop_id p) < length (io_counts s1)
                     then Inr (s1\<lparr>io_counts := add_count (unat (iop_id p)) io' (io_counts s1),
                                  cctxs := (cctxs s1)(a \<mapsto> ctx\<lparr>cctx_iopath := Some (iop_addr p)\<rparr>),
                                  in_flight := in_flight s1 @ [(io_channel p, io')]\<rparr>)
                     else Inl OutOfBounds)))"

section \<open>Failback\<close>

definition ump_failback :: "spdk_env \<Rightarrow> addr \<Rightarrow> spdk_bdev_io \<Rightarrow> sump_state \<Rightarrow> fault + sump_state" where
  "ump_failback env pa io s =
     (case find_path s pa of
        None \<Rightarrow> Inl UseAfterFree
      | Some p \<Rightarrow>
         if reconnecting p then Inr s
         else let s1 = update_path pa (\<lambda>q. q\<lparr>reconnecting := True\<rparr>) s
              in case alloc env s1 of
                   (None, s2) \<Rightarrow> Inl NullDeref
                 | (Some fa, s2) \<Rightarrow>
                    (case alloc env s2 of
                       (None, s3) \<Rightarrow> Inl NullDeref
                     | (Some _, s3) \<Rightarrow>
                        let s4 = s3\<lparr>fctxs := (fctxs s3)(fa \<mapsto> \<lparr>fb_iopath = pa, fb_bdev_io = io\<rparr>)\<rparr>;
                            (pol, s5) = spdk_poller_register env (UmpFailbackIoFn fa) s4
                        in Inr (update_path pa (\<lambda>q. q\<lparr>reconnect_poller := pol\<rparr>) s5)))"

definition ump_failback_io_fn :: "addr \<Rightarrow> sump_state \<Rightarrow> fault + sump_state" where
  "ump_failback_io_fn fa s =
     (case fctxs s fa of
        None \<Rightarrow> Inl UseAfterFree
      | Some ctx \<Rightarrow>
         (case find_path s (fb_iopath ctx) of
            None \<Rightarrow> Inl UseAfterFree
          | Some p \<Rightarrow>
             let io = (fb_bdev_io ctx)\<lparr>bio_cb := UmpFailbackCb, bio_caller_ctx := fa\<rparr>
             in Inr (s\<lparr>fctxs := (fctxs s)(fa \<mapsto> ctx\<lparr>fb_bdev_io := io\<rparr>),
                       in_flight := in_flight s @ [(io_channel p, io)]\<rparr>)))"

definition spdk_poller_pause :: "addr option \<Rightarrow> sump_state \<Rightarrow> fault + sump_state" where
  "spdk_poller_pause pa s =
     (case pa of
        None \<Rightarrow> Inl NullDeref
      | Some a \<Rightarrow> Inr (s\<lparr>pollers := update_by pl_addr a (\<lambda>p. p\<lparr>pl_paused := True\<rparr>) (pollers s)\<rparr>))"

definition ump_failback_io_completion_cb :: "bool \<Rightarrow> addr \<Rightarrow> sump_state \<Rightarrow> fault + sump_state" where
  "ump_failback_io_completion_cb success fa s =
     (if \<not> success then Inr s
      else case fctxs s fa of
             None \<Rightarrow> Inl UseAfterFree
           | Some ctx \<Rightarrow>
              (case find_path s (fb_iopath ctx) of
                 None \<Rightarrow> Inl UseAfterFree
               | Some p \<Rightarrow>
                  bindR (spdk_poller_pause (reconnect_poller p)
                           (update_path (fb_iopath ctx) (\<lambda>q. q\<lparr>available := True\<rparr>) s)) (\<lambda>s1.
                  Inr (s1\<lparr>fctxs := (fctxs s1)(fa := None)\<rparr>))))"

section \<open>Completion\<close>

definition record_time :: "u64 \<Rightarrow> spdk_bdev_io \<Rightarrow> ump_bdev_iopath \<Rightarrow> ump_bdev_iopath" where
  "record_time now io p =
     (let t = now - submit_tsc io
      in if bio_type io = IO_READ then p\<lparr>io_read_time := update_io_time_detail t (io_read_time p)\<rparr>
         else p\<lparr>io_write_time := update_io_time_detail t (io_write_time p)\<rparr>)"

definition update_io_time ::
    "spdk_env \<Rightarrow> u64 \<Rightarrow> addr \<Rightarrow> spdk_bdev_io \<Rightarrow> sump_state \<Rightarrow> fault + sump_state" where
  "update_io_time env now pa io s =
     (case alloc env s of
        (None, s1) \<Rightarrow> Inr s1
      | (Some _, s1) \<Rightarrow>
         (case find_path s1 pa of
            None \<Rightarrow> Inl UseAfterFree
          | Some _ \<Rightarrow> Inr (update_path pa (record_time now io) s1)))"

definition free_cctx :: "addr \<Rightarrow> sump_state \<Rightarrow> sump_state" where
  "free_cctx a s = s\<lparr>cctxs := (cctxs s)(a := None)\<rparr>"

definition ump_bdev_io_completion_cb ::
    "spdk_env \<Rightarrow> u64 \<Rightarrow> spdk_bdev_io \<Rightarrow> bool \<Rightarrow> addr \<Rightarrow> sump_state \<Rightarrow> fault + sump_state" where
  "ump_bdev_io_completion_cb env now io success a s =
     (case cctxs s a of
        None \<Rightarrow> Inl UseAfterFree
      | Some ctx \<Rightarrow>
         (case cctx_iopath ctx of
            None \<Rightarrow> Inl NullDeref
          | Some pa \<Rightarrow>
             if success then
               bindR (update_io_time env now pa io s) (\<lambda>s1.
               if find_path s1 pa = None then Inl UseAfterFree
               else let s2 = update_path pa (\<lambda>q. q\<lparr>io_incomplete := io_incomplete q - 1\<rparr>) s1;
                        s3 = s2\<lparr>callbacks := callbacks s2 @
                                  [(real_completion_cb ctx, real_caller_ctx ctx, success)]\<rparr>
                    in Inr (free_cctx a s3))
             else if find_path s pa = None then Inl UseAfterFree
             else
               bindR (ump_failback env pa io (update_path pa (\<lambda>q. q\<lparr>available := False\<rparr>) s)) (\<lambda>s1.
               ump_bdev_submit_request env (cctx_ch ctx)
                 (io\<lparr>bio_cb := real_completion_cb ctx, bio_caller_ctx := real_caller_ctx ctx,
                     submit_tsc := now\<rparr>)
                 (free_cctx a s1))))"

section \<open>The library as a state machine\<close>

text \<open>What the code around the library does to it. A lower device completes any of the I/Os
  in flight; the library that got a failing \<open>create_cb\<close> frees the channel it had passed.\<close>

datatype sump_event =
    EvRegister spdk_bdev
  | EvChannelCreate addr
  | EvChannelDestroy addr
  | EvSubmit addr spdk_bdev_io
  | EvComplete nat u64 bool
  | EvPoll addr

definition channel_create ::
    "spdk_env \<Rightarrow> addr \<Rightarrow> sump_state \<Rightarrow> fault + sump_state" where
  "channel_create env ma s =
     (case List.find (\<lambda>m. mb_addr m = ma \<and> \<not> mb_freed m) (mbdevs s) of
        None \<Rightarrow> Inr s
      | Some m \<Rightarrow>
          let ca = next_addr s; s1 = s\<lparr>next_addr := Suc (next_addr s)\<rparr>
          in bindR (ump_bdev_channel_create_cb env m ca s1) (\<lambda>(rc, s2).
               Inr (if rc = 0 then s2 else s2\<lparr>freed_channels := ca # freed_channels s2\<rparr>)))"

definition complete_io ::
    "spdk_env \<Rightarrow> nat \<Rightarrow> u64 \<Rightarrow> bool \<Rightarrow> sump_state \<Rightarrow> fault + sump_state" where
  "complete_io env i now success s =
     (if i < length (in_flight s)
      then let io = snd (in_flight s ! i); s1 = s\<lparr>in_flight := remove_nth i (in_flight s)\<rparr>
           in (case bio_cb io of
                 UmpIoCompletionCb \<Rightarrow> ump_bdev_io_completion_cb env now io success (bio_caller_ctx io) s1
               | UmpFailbackCb \<Rightarrow> ump_failback_io_completion_cb success (bio_caller_ctx io) s1
               | UpperCb k \<Rightarrow> Inr (s1\<lparr>callbacks := callbacks s1 @ [(bio_cb io, bio_caller_ctx io, success)]\<rparr>))
      else Inr s)"

definition poll_once :: "addr \<Rightarrow> sump_state \<Rightarrow> fault + sump_state" where
  "poll_once pa s =
     (case List.find (\<lambda>p. pl_addr p = pa \<and> \<not> pl_paused p) (pollers s) of
        None \<Rightarrow> Inr s
      | Some p \<Rightarrow> (case pl_fn p of UmpIoCountFn \<Rightarrow> ump_io_count_fn s
                                  | UmpFailbackIoFn fa \<Rightarrow> ump_failback_io_fn fa s))"

fun sump_step :: "spdk_env \<Rightarrow> sump_state \<Rightarrow> sump_event \<Rightarrow> fault + sump_state" where
  "sump_step env s (EvRegister b) = bindR (spdk_bdev_register env b s) (\<lambda>(rc, s1). Inr s1)"
| "sump_step env s (EvChannelCreate ma) = channel_create env ma s"
| "sump_step env s (EvChannelDestroy ca) =
     (if ca \<in> set (freed_channels s) \<or> find_channel s ca = None then Inr s
      else ump_bdev_channel_destroy_cb ca s)"
| "sump_step env s (EvSubmit ca io) =
     (if ca \<in> set (freed_channels s) then Inl UseAfterFree
      else ump_bdev_submit_request env ca io s)"
| "sump_step env s (EvComplete i now success) = complete_io env i now success s"
| "sump_step env s (EvPoll pa) = poll_once pa s"

section \<open>Function table entries that forward\<close>

definition ump_bdev_io_type_supported ::
    "(spdk_bdev \<Rightarrow> int \<Rightarrow> bool) \<Rightarrow> ump_bdev \<Rightarrow> int \<Rightarrow> fault + bool" where
  "ump_bdev_io_type_supported lower m t =
     (case spdk_bdev_list m of [] \<Rightarrow> Inl NullDeref | b # _ \<Rightarrow> Inr (lower b t))"

definition ump_bdev_dump_info_json ::
    "(spdk_bdev \<Rightarrow> 'w \<Rightarrow> int \<times> 'w) \<Rightarrow> ump_bdev \<Rightarrow> 'w \<Rightarrow> fault + int \<times> 'w" where
  "ump_bdev_dump_info_json lower m w =
     (case spdk_bdev_list m of [] \<Rightarrow> Inl NullDeref | b # _ \<Rightarrow> Inr (lower b w))"

definition ump_bdev_destruct :: "addr \<Rightarrow> sump_state \<Rightarrow> int \<times> sump_state" where
  "ump_bdev_destruct ctx s = (0, s)"

definition ump_bdev_get_spin_time :: "addr \<Rightarrow> u64" where
  "ump_bdev_get_spin_time ch = 0"

end
