(* ===== verification/Sump_Inv.thy ===== *)
theory Sump_Inv
  imports Sump_Core
begin

text \<open>
  The invariant of the multi-path library. \<open>channels_ok\<close>: the paths of all channels have
  distinct addresses, the identifiers of a channel's paths are its positions, the latency
  windows are consistent. \<open>mbdevs_ok\<close>: aggregated devices have distinct uuids, and the
  devices under one have its uuid. \<open>flight_ok\<close>: each I/O in flight carries a completion
  context of its own. \<open>sump_inv\<close> is kept by every step.
\<close>

section \<open>Channels\<close>

definition path_ok :: "addr \<Rightarrow> ump_bdev_iopath \<Rightarrow> bool" where
  "path_ok n p \<longleftrightarrow> iop_addr p < n \<and> tq_wf (io_read_time p) \<and> tq_wf (io_write_time p)"

definition channels_ok :: "addr \<Rightarrow> ump_bdev_channel list \<Rightarrow> bool" where
  "channels_ok n cs \<longleftrightarrow>
     distinct (map iop_addr (concat (map iopath_list cs))) \<and> distinct (map ch_addr cs) \<and>
     (\<forall>c \<in> set cs. (iopath_list c = [] \<or> ids_ok c) \<and> ch_addr c < n \<and> (\<forall>p \<in> set (iopath_list c). path_ok n p))"

definition paddrs :: "ump_bdev_channel list \<Rightarrow> addr set" where
  "paddrs cs = (\<Union>c \<in> set cs. iop_addr ` set (iopath_list c))"

lemma paddrs_simps [simp]:
  "paddrs [] = {}"
  "paddrs (c # cs) = iop_addr ` set (iopath_list c) \<union> paddrs cs"
  by (simp_all add: paddrs_def)

lemma path_ok_mono: "path_ok n p \<Longrightarrow> n \<le> m \<Longrightarrow> path_ok m p"
  by (auto simp: path_ok_def)

lemma channels_ok_mono: "channels_ok n cs \<Longrightarrow> n \<le> m \<Longrightarrow> channels_ok m cs"
  by (fastforce simp: channels_ok_def dest: path_ok_mono)

lemma channels_ok_Nil [simp]: "channels_ok n []"
  by (simp add: channels_ok_def)

lemma channels_ok_Cons [simp]:
  "channels_ok n (c # cs) \<longleftrightarrow> channels_ok n cs \<and> (iopath_list c = [] \<or> ids_ok c) \<and> ch_addr c < n \<and>
     ch_addr c \<notin> ch_addr ` set cs \<and> distinct (map iop_addr (iopath_list c)) \<and>
     (\<forall>p \<in> set (iopath_list c). path_ok n p) \<and>
     iop_addr ` set (iopath_list c) \<inter> paddrs cs = {}"
proof -
  have "iop_addr ` set (concat (map iopath_list cs)) = paddrs cs"
    by (auto simp: paddrs_def)
  then show ?thesis
    by (simp add: channels_ok_def image_Int_subset) blast
qed

lemma paddrs_less: "channels_ok n cs \<Longrightarrow> a \<in> paddrs cs \<Longrightarrow> a < n"
  by (auto simp: channels_ok_def path_ok_def paddrs_def)

lemma paddrs_map_paths:
  "(\<And>p. iop_addr (f p) = iop_addr p) \<Longrightarrow>
     paddrs (map (\<lambda>c. c\<lparr>iopath_list := map f (iopath_list c)\<rparr>) cs) = paddrs cs"
  by (induction cs) (simp_all add: image_image)

lemma channels_ok_map_paths:
  assumes "channels_ok n cs"
    and f: "\<And>p. iop_addr (f p) = iop_addr p" "\<And>p. iop_id (f p) = iop_id p"
      "\<And>p. path_ok n p \<Longrightarrow> path_ok n (f p)"
  shows "channels_ok n (map (\<lambda>c. c\<lparr>iopath_list := map f (iopath_list c)\<rparr>) cs)"
  using assms(1)
  by (induction cs)
    (auto simp: paddrs_map_paths f ids_ok_def comp_def image_image)

lemma channels_ok_update:
  assumes "channels_ok n cs"
    and f: "\<And>p. iop_addr (f p) = iop_addr p" "\<And>p. iop_id (f p) = iop_id p"
      "\<And>p. path_ok n p \<Longrightarrow> path_ok n (f p)"
  shows "channels_ok n (map (\<lambda>c. c\<lparr>iopath_list := update_by iop_addr a f (iopath_list c)\<rparr>) cs)"
  unfolding update_by_def by (rule channels_ok_map_paths [OF assms(1)]) (auto simp: f)

lemma paddrs_remove: "paddrs (remove_by ch_addr ca cs) \<subseteq> paddrs cs"
  by (auto simp: paddrs_def)

lemma channels_ok_remove:
  assumes "channels_ok n cs"
  shows "channels_ok n (remove_by ch_addr ca cs)"
  using assms
proof (induction cs)
  case (Cons c cs)
  then show ?case using paddrs_remove [of ca cs] by auto
qed simp

lemma ids_ok_append: "ids_ok c \<Longrightarrow> iop_id p = max_id c \<Longrightarrow> ids_ok (append_path p c)"
  by (simp add: ids_ok_def append_path_def add.commute)

lemma new_iopath_simps [simp]:
  "iop_addr (new_iopath a ioch b i) = a" "iop_id (new_iopath a ioch b i) = i"
  "io_channel (new_iopath a ioch b i) = ioch" "iop_bdev (new_iopath a ioch b i) = b"
  "available (new_iopath a ioch b i)" "\<not> reconnecting (new_iopath a ioch b i)"
  "io_incomplete (new_iopath a ioch b i) = 0"
  by (simp_all add: new_iopath_def)

lemma path_ok_new [simp]: "path_ok n (new_iopath a ioch b i) \<longleftrightarrow> a < n"
  by (simp add: path_ok_def new_iopath_def)

lemma append_path_simps [simp]:
  "ch_addr (append_path p c) = ch_addr c"
  "iopath_list (append_path p c) = iopath_list c @ [p]"
  "max_id (append_path p c) = max_id c + 1"
  by (simp_all add: append_path_def)

lemma add_to_first_channel_addrs:
  "add_to_first_channel u mk fr cs = Inr (Some cs') \<Longrightarrow> map ch_addr cs' = map ch_addr cs"
  by (induction cs arbitrary: cs') (auto split: if_splits simp: bindR_eq_Inr)

lemma add_to_first_channel_paths:
  assumes "add_to_first_channel u mk fr cs = Inr (Some cs')" and "\<And>i. iop_addr (mk i) = a"
  shows "paddrs cs' \<subseteq> insert a (paddrs cs)"
  using assms(1)
proof (induction cs arbitrary: cs')
  case (Cons c cs)
  then show ?case
    by (cases "\<exists>p \<in> set (iopath_list c). bd_uuid (iop_bdev p) = u")
      (auto split: if_splits simp: bindR_eq_Inr assms(2))
qed simp

lemma channels_ok_add:
  assumes "add_to_first_channel u mk fr cs = Inr (Some cs')" and "channels_ok n cs"
    and mk: "\<And>i. iop_addr (mk i) = n" "\<And>i. iop_id (mk i) = i" "\<And>i. path_ok (Suc n) (mk i)"
  shows "channels_ok (Suc n) cs'"
  using assms(1,2)
proof (induction cs arbitrary: cs')
  case Nil
  then show ?case by simp
next
  case (Cons c cs)
  have c: "channels_ok n cs" "iopath_list c = [] \<or> ids_ok c" "ch_addr c < n" "ch_addr c \<notin> ch_addr ` set cs"
    "distinct (map iop_addr (iopath_list c))" "\<forall>p \<in> set (iopath_list c). path_ok n p"
    "iop_addr ` set (iopath_list c) \<inter> paddrs cs = {}"
    using Cons.prems(2) by simp_all
  have sc: "\<forall>p \<in> set (iopath_list c). path_ok (Suc n) p" "n \<notin> iop_addr ` set (iopath_list c)"
    using c(6) by (auto simp: path_ok_def)
  have n: "n \<notin> paddrs cs" using paddrs_less [OF c(1)] by blast
  show ?case
  proof (cases "\<exists>p \<in> set (iopath_list c). bd_uuid (iop_bdev p) = u")
    case True
    then have cs': "cs' = append_path (mk (max_id c)) c # cs"
      using Cons.prems(1) by (auto split: if_splits)
    from True c(2) have "ids_ok c" by auto
    then show ?thesis
      unfolding cs' channels_ok_Cons
      using channels_ok_mono [OF c(1), of "Suc n"] c sc n ids_ok_append [of c "mk (max_id c)"] mk
      by auto
  next
    case False
    then obtain ds where ds: "add_to_first_channel u mk fr cs = Inr (Some ds)" "cs' = c # ds"
      using Cons.prems(1) by (auto split: if_splits simp: bindR_eq_Inr)
    have "ch_addr ` set ds = ch_addr ` set cs"
      using add_to_first_channel_addrs [OF ds(1)] by (metis list.set_map)
    moreover have "iop_addr ` set (iopath_list c) \<inter> paddrs ds = {}"
      using add_to_first_channel_paths [OF ds(1) mk(1)] c(7) sc(2) by blast
    ultimately show ?thesis
      unfolding ds(2) channels_ok_Cons using Cons.IH [OF ds(1) c(1)] c sc by simp
  qed
qed

lemma paddrs_append [simp]: "paddrs (cs @ ds) = paddrs cs \<union> paddrs ds"
  by (auto simp: paddrs_def)

lemma channels_ok_append:
  "channels_ok n (cs @ ds) \<longleftrightarrow> channels_ok n cs \<and> channels_ok n ds \<and>
     ch_addr ` set cs \<inter> ch_addr ` set ds = {} \<and> paddrs cs \<inter> paddrs ds = {}"
  by (induction cs) auto

section \<open>The whole state\<close>

definition mbdevs_ok :: "addr \<Rightarrow> ump_bdev list \<Rightarrow> bool" where
  "mbdevs_ok n ms \<longleftrightarrow>
     distinct (map (\<lambda>m. bd_uuid (mb_bdev m)) ms) \<and> distinct (map mb_addr ms) \<and>
     (\<forall>m \<in> set ms. mb_addr m < n \<and> spdk_bdev_list m \<noteq> [] \<and>
        (\<forall>b \<in> set (spdk_bdev_list m). bd_uuid b = bd_uuid (mb_bdev m)))"

definition flight_ctxs :: "(addr option \<times> spdk_bdev_io) list \<Rightarrow> addr list" where
  "flight_ctxs fl = map (\<lambda>e. bio_caller_ctx (snd e)) (filter (\<lambda>e. bio_cb (snd e) = UmpIoCompletionCb) fl)"

definition flight_ok :: "sump_state \<Rightarrow> bool" where
  "flight_ok s \<longleftrightarrow>
     distinct (flight_ctxs (in_flight s)) \<and>
     (\<forall>a \<in> set (flight_ctxs (in_flight s)). \<exists>ctx. cctxs s a = Some ctx \<and> cctx_iopath ctx \<noteq> None) \<and>
     (\<forall>e \<in> set (in_flight s). bio_cb (snd e) = UmpIoCompletionCb \<or> bio_cb (snd e) = UmpFailbackCb)"

definition sump_inv :: "sump_state \<Rightarrow> bool" where
  "sump_inv s \<longleftrightarrow>
     channels_ok (next_addr s) (g_channels s) \<and> length (io_counts s) = 4 \<and>
     mbdevs_ok (next_addr s) (mbdevs s) \<and>
     (\<forall>a ctx. cctxs s a = Some ctx \<longrightarrow> a < next_addr s) \<and>
     (\<forall>a ctx. fctxs s a = Some ctx \<longrightarrow> a < next_addr s) \<and> flight_ok s"

lemma mbdevs_ok_mono: "mbdevs_ok n ms \<Longrightarrow> n \<le> m \<Longrightarrow> mbdevs_ok m ms"
  by (fastforce simp: mbdevs_ok_def)

lemma flight_ctxs_simps [simp]:
  "flight_ctxs [] = []"
  "flight_ctxs (e # fl) = (if bio_cb (snd e) = UmpIoCompletionCb
     then bio_caller_ctx (snd e) # flight_ctxs fl else flight_ctxs fl)"
  "flight_ctxs (xs @ ys) = flight_ctxs xs @ flight_ctxs ys"
  by (simp_all add: flight_ctxs_def)

lemma split_nth: "i < length xs \<Longrightarrow> xs = take i xs @ xs ! i # drop (Suc i) xs"
  by (simp add: id_take_nth_drop)

lemma sump_inv_initial [simp]: "sump_inv sump_initial"
  by (simp add: sump_inv_def sump_initial_def mbdevs_ok_def flight_ok_def)

text \<open>Steps that only allocate.\<close>

lemma sump_inv_next [simp]: "sump_inv s \<Longrightarrow> sump_inv (s\<lparr>next_addr := Suc (next_addr s)\<rparr>)"
  by (auto simp: sump_inv_def flight_ok_def intro: channels_ok_mono mbdevs_ok_mono less_SucI)

lemma alloc_cases:
  obtains (Failed) "alloc env s = (None, s\<lparr>next_addr := Suc (next_addr s)\<rparr>)" "\<not> alloc_ok env (next_addr s)"
  | (Ok) "alloc env s = (Some (next_addr s), s\<lparr>next_addr := Suc (next_addr s)\<rparr>)" "alloc_ok env (next_addr s)"
  by (cases "alloc_ok env (next_addr s)") (auto simp: alloc_def)

lemma sump_inv_update_path:
  assumes "sump_inv s"
    and "\<And>p. iop_addr (f p) = iop_addr p" "\<And>p. iop_id (f p) = iop_id p"
      "\<And>p. path_ok (next_addr s) p \<Longrightarrow> path_ok (next_addr s) (f p)"
  shows "sump_inv (update_path a f s)"
  using assms channels_ok_update [of "next_addr s" "g_channels s" f a]
  by (simp add: sump_inv_def update_path_def flight_ok_def)

lemma update_path_frame [simp]:
  "next_addr (update_path a f s) = next_addr s" "io_counts (update_path a f s) = io_counts s"
  "mbdevs (update_path a f s) = mbdevs s" "cctxs (update_path a f s) = cctxs s"
  "fctxs (update_path a f s) = fctxs s" "in_flight (update_path a f s) = in_flight s"
  "callbacks (update_path a f s) = callbacks s" "pollers (update_path a f s) = pollers s"
  "freed_channels (update_path a f s) = freed_channels s"
  by (simp_all add: update_path_def)

lemma sump_inv_pollers [simp]: "sump_inv (s\<lparr>pollers := ps\<rparr>) = sump_inv s"
  by (simp add: sump_inv_def flight_ok_def)

lemma sump_inv_others [simp]:
  "sump_inv (s\<lparr>callbacks := x\<rparr>) = sump_inv s" "sump_inv (s\<lparr>put_channels := y\<rparr>) = sump_inv s"
  "sump_inv (s\<lparr>freed_channels := z\<rparr>) = sump_inv s" "sump_inv (s\<lparr>io_count_poller := q\<rparr>) = sump_inv s"
  "sump_inv (s\<lparr>io_devices := ds\<rparr>) = sump_inv s" "sump_inv (s\<lparr>real_register_set := b\<rparr>) = sump_inv s"
  by (simp_all add: sump_inv_def flight_ok_def)

lemma spdk_poller_register_inv:
  "spdk_poller_register env f s = (r, s') \<Longrightarrow> sump_inv s \<Longrightarrow> sump_inv s'"
  by (rule alloc_cases [of env s]) (auto simp: spdk_poller_register_def)

section \<open>Every operation keeps the invariant\<close>

lemma get_ump_bdev_by_uuid_SomeD:
  "get_ump_bdev_by_uuid ms u = Inr (Some m) \<Longrightarrow> m \<in> set ms \<and> bd_uuid (mb_bdev m) = u"
  by (induction ms) (auto split: if_splits)

lemma get_ump_bdev_by_uuid_NoneD:
  "get_ump_bdev_by_uuid ms u = Inr None \<Longrightarrow> \<forall>m \<in> set ms. bd_uuid (mb_bdev m) \<noteq> u"
  by (induction ms) (auto split: if_splits)

lemma mbdev_of_simps [simp]:
  "bd_uuid (mbdev_of env a b) = bd_uuid b" "bd_ctxt (mbdev_of env a b) = a"
  by (simp_all add: mbdev_of_def)

lemma mbdevs_ok_snoc:
  assumes "mbdevs_ok n ms" and "\<forall>m \<in> set ms. bd_uuid (mb_bdev m) \<noteq> bd_uuid b"
  shows "mbdevs_ok (Suc (Suc n)) (ms @ [\<lparr>mb_addr = n, mb_bdev = mbdev_of env n b, spdk_bdev_list = [b], mb_freed = f\<rparr>])"
proof -
  have "n \<notin> mb_addr ` set ms" using assms(1) by (auto simp: mbdevs_ok_def)
  moreover have "bd_uuid b \<notin> (\<lambda>m. bd_uuid (mb_bdev m)) ` set ms" using assms(2) by auto
  moreover have "mbdevs_ok (Suc (Suc n)) ms" using assms(1) by (rule mbdevs_ok_mono) simp
  ultimately show ?thesis by (simp add: mbdevs_ok_def)
qed

lemma ump_init_inv: "sump_inv s \<Longrightarrow> sump_inv (ump_init env s)"
  by (simp add: ump_init_def sump_inv_def flight_ok_def)

lemma ump_bdev_construct_inv:
  assumes "ump_bdev_construct env b s = (rc, s')" and "sump_inv s"
    and "\<forall>m \<in> set (mbdevs s). bd_uuid (mb_bdev m) \<noteq> bd_uuid b"
  shows "sump_inv s'"
proof -
  let ?n = "next_addr s"
  have step2: "sump_inv (s\<lparr>next_addr := Suc (Suc ?n)\<rparr>)"
    using sump_inv_next [OF sump_inv_next [OF assms(2)]] by simp
  have m: "mbdevs_ok (Suc (Suc ?n)) (mbdevs s @ [\<lparr>mb_addr = ?n, mb_bdev = mbdev_of env ?n b,
      spdk_bdev_list = [b], mb_freed = f\<rparr>])" for f
    using assms(2,3) mbdevs_ok_snoc by (simp add: sump_inv_def)
  show ?thesis
    using assms(1) step2 m sump_inv_next [OF assms(2)]
    by (auto simp: ump_bdev_construct_def alloc_def Let_def sump_inv_def flight_ok_def split: if_splits)
qed

lemma mbdevs_ok_add:
  assumes "mbdevs_ok n ms" and "\<forall>m \<in> set ms. mb_addr m = a \<longrightarrow> bd_uuid (mb_bdev m) = bd_uuid b"
  shows "mbdevs_ok n (update_by mb_addr a (\<lambda>m. m\<lparr>spdk_bdev_list := spdk_bdev_list m @ [b]\<rparr>) ms)"
proof -
  let ?f = "\<lambda>m. m\<lparr>spdk_bdev_list := spdk_bdev_list m @ [b]\<rparr>"
  have "map mb_addr (update_by mb_addr a ?f ms) = map mb_addr ms"
    "map (\<lambda>m. bd_uuid (mb_bdev m)) (update_by mb_addr a ?f ms) = map (\<lambda>m. bd_uuid (mb_bdev m)) ms"
    by (simp_all add: update_by_map_same)
  then show ?thesis
    using assms by (auto simp: mbdevs_ok_def set_update_by split: if_splits)
qed

lemma ump_bdev_add_bdev_inv:
  assumes "ump_bdev_add_bdev env (mb_addr m) b s = Inr (rc, s')" and "sump_inv s"
    and "m \<in> set (mbdevs s)" and "bd_uuid (mb_bdev m) = bd_uuid b"
  shows "sump_inv s'"
proof (rule alloc_cases [of env s])
  assume "alloc env s = (None, s\<lparr>next_addr := Suc (next_addr s)\<rparr>)"
  with assms(1,2) show ?thesis by (auto simp: ump_bdev_add_bdev_def)
next
  assume a: "alloc env s = (Some (next_addr s), s\<lparr>next_addr := Suc (next_addr s)\<rparr>)"
  let ?ms = "update_by mb_addr (mb_addr m) (\<lambda>m. m\<lparr>spdk_bdev_list := spdk_bdev_list m @ [b]\<rparr>) (mbdevs s)"
  let ?s2 = "s\<lparr>next_addr := Suc (next_addr s), mbdevs := ?ms\<rparr>"
  have "\<forall>x \<in> set (mbdevs s). mb_addr x = mb_addr m \<longrightarrow> bd_uuid (mb_bdev x) = bd_uuid b"
    using assms(2-4) by (auto simp: sump_inv_def mbdevs_ok_def distinct_map dest: inj_onD)
  then have s2: "sump_inv ?s2"
    using sump_inv_next [OF assms(2)] mbdevs_ok_add [of "Suc (next_addr s)" "mbdevs s" "mb_addr m" b]
    by (simp add: sump_inv_def flight_ok_def)
  have cs: "sump_inv (?s2\<lparr>next_addr := Suc (next_addr ?s2), g_channels := cs\<rparr>)"
    if "add_to_first_channel u (\<lambda>i. new_iopath (Suc (next_addr s)) x b i) fr (g_channels s) = Inr (Some cs)"
    for u x fr cs
    using channels_ok_add [OF that, of "Suc (next_addr s)"] s2 sump_inv_next [OF s2]
    by (simp add: sump_inv_def flight_ok_def)
  show ?thesis
    using assms(1) a s2 cs
    by (auto simp: ump_bdev_add_bdev_def bindR_eq_Inr alloc_def Let_def
        split: option.splits if_splits)
qed

lemma spdk_bdev_register_inv:
  assumes "spdk_bdev_register env b s = Inr (rc, s')" and "sump_inv s"
  shows "sump_inv s'"
proof -
  define s1 where "s1 = (if real_register_set s then s else ump_init env s)"
  have s1: "sump_inv s1" using assms(2) ump_init_inv by (simp add: s1_def)
  have "spdk_bdev_register env b s = (if \<not> real_register_set s1 then Inr (- 1, s1)
         else bindR (get_ump_bdev_by_uuid (mbdevs s1) (bd_uuid b)) (\<lambda>r.
           case r of None \<Rightarrow> Inr (ump_bdev_construct env b s1)
           | Some m \<Rightarrow> ump_bdev_add_bdev env (mb_addr m) b s1))"
    by (simp add: spdk_bdev_register_def s1_def Let_def)
  with assms(1) consider "s' = s1"
    | "get_ump_bdev_by_uuid (mbdevs s1) (bd_uuid b) = Inr None" "ump_bdev_construct env b s1 = (rc, s')"
    | m where "get_ump_bdev_by_uuid (mbdevs s1) (bd_uuid b) = Inr (Some m)"
        "ump_bdev_add_bdev env (mb_addr m) b s1 = Inr (rc, s')"
    by (cases "get_ump_bdev_by_uuid (mbdevs s1) (bd_uuid b)")
      (auto split: if_splits option.splits)
  then show ?thesis
    using s1 by cases
      (auto dest: get_ump_bdev_by_uuid_SomeD get_ump_bdev_by_uuid_NoneD
        intro: ump_bdev_construct_inv ump_bdev_add_bdev_inv)
qed

text \<open>The channel under construction: its paths are new, the rest of the state is framed.\<close>

definition building :: "addr \<Rightarrow> addr \<Rightarrow> ump_bdev_channel \<Rightarrow> bool" where
  "building lo hi c \<longleftrightarrow> ids_ok c \<and> distinct (map iop_addr (iopath_list c)) \<and>
     (\<forall>p \<in> set (iopath_list c). path_ok hi p \<and> lo \<le> iop_addr p)"

lemma building_append:
  assumes "building lo hi c" and "lo \<le> hi"
  shows "building lo (Suc hi) (append_path (new_iopath hi ch b (max_id c)) c)"
proof -
  have "path_ok (Suc hi) p \<and> iop_addr p \<noteq> hi" if "p \<in> set (iopath_list c)" for p
    using assms that by (auto simp: building_def path_ok_def)
  then show ?thesis
    using assms ids_ok_append [of c "new_iopath hi ch b (max_id c)"] by (auto simp: building_def)
qed

lemma building_mono: "building lo hi c \<Longrightarrow> hi \<le> hi' \<Longrightarrow> building lo hi' c"
  by (auto simp: building_def dest: path_ok_mono)

lemma create_iopaths_frame:
  assumes "create_iopaths env bs c s = Inr (c', s', ok)"
  shows "\<exists>n k p. s' = s\<lparr>next_addr := n, io_counts := k, put_channels := p\<rparr> \<and>
    next_addr s \<le> n \<and> length k = length (io_counts s) \<and> ch_addr c' = ch_addr c"
  using assms
proof (induction bs arbitrary: c s)
  case Nil
  then show ?case by (intro exI [of _ "next_addr s"] exI [of _ "io_counts s"] exI [of _ "put_channels s"]) simp
next
  case (Cons b bs)
  show ?case
  proof (cases "lower_get_io_channel env b (next_addr s)")
    case None
    with Cons show ?thesis by simp
  next
    case (Some x)
    show ?thesis
    proof (cases "alloc_ok env (next_addr s)")
      case True
      let ?p = "new_iopath (next_addr s) (Some x) b (max_id c)"
      let ?s1 = "s\<lparr>next_addr := Suc (next_addr s), io_counts := (io_counts s)[unat (max_id c) := 0]\<rparr>"
      have "create_iopaths env bs (append_path ?p c) ?s1 = Inr (c', s', ok)"
        using Cons.prems Some True by (simp add: alloc_def Let_def split: if_splits)
      from Cons.IH [OF this] show ?thesis by (fastforce)
    next
      case False
      with Cons.prems Some show ?thesis
        by (auto simp: alloc_def Let_def intro!: exI [of _ "Suc (next_addr s)"] exI [of _ "io_counts s"])
    qed
  qed
qed

lemma create_iopaths_building:
  assumes "create_iopaths env bs c s = Inr (c', s', ok)"
    and "building lo (next_addr s) c" and "lo \<le> next_addr s"
  shows "building lo (next_addr s') c'"
  using assms
proof (induction bs arbitrary: c s)
  case (Cons b bs)
  show ?case
  proof (cases "lower_get_io_channel env b (next_addr s)")
    case None
    with Cons show ?thesis by simp
  next
    case (Some x)
    then show ?thesis
      using Cons.prems building_append [OF Cons.prems(2,3), of "Some x" b]
        building_mono [OF Cons.prems(2), of "Suc (next_addr s)"]
      by (auto simp: alloc_def Let_def split: if_splits intro: Cons.IH)
  qed
qed simp

lemma spdk_poller_register_frame:
  assumes "spdk_poller_register env f s = (r, s')"
  shows "\<exists>ps. s' = s\<lparr>next_addr := Suc (next_addr s), pollers := ps\<rparr>"
proof (cases "alloc_ok env (next_addr s)")
  case True
  with assms show ?thesis by (auto simp: spdk_poller_register_def alloc_def)
next
  case False
  with assms have "s' = s\<lparr>next_addr := Suc (next_addr s), pollers := pollers s\<rparr>"
    by (auto simp: spdk_poller_register_def alloc_def)
  then show ?thesis by blast
qed

lemma update_by_snoc_fresh:
  "ch_addr c \<notin> ch_addr ` set cs \<Longrightarrow> ch_addr d = ch_addr c \<Longrightarrow>
     update_by ch_addr (ch_addr c) (\<lambda>_. d') (cs @ [d]) = cs @ [d']"
  by (induction cs) auto

lemma channels_ok_built:
  assumes "channels_ok lo cs" and "building lo hi c" and "lo \<le> hi" and "ch_addr c < hi"
    and "ch_addr c \<notin> ch_addr ` set cs"
  shows "channels_ok hi (cs @ [c])"
  using assms channels_ok_mono [OF assms(1,3)] paddrs_less [OF assms(1)]
  by (fastforce simp: channels_ok_append building_def)

lemma building_clear: "building lo hi \<lparr>ch_addr = a, iopath_list = [], max_id = 0\<rparr>"
  by (simp add: building_def ids_ok_def)

lemma ump_bdev_channel_create_cb_cases:
  assumes "ump_bdev_channel_create_cb env m ca s = Inr (rc, s')" and "ca \<notin> ch_addr ` set (g_channels s)"
  obtains c n k p ps ok pol where
    "s' = s\<lparr>next_addr := n, io_counts := k, put_channels := p, pollers := ps, io_count_poller := pol,
            g_channels := g_channels s @ [if ok then c else c\<lparr>iopath_list := []\<rparr>]\<rparr>"
    "building (Suc (next_addr s)) n c" "ch_addr c = ca" "Suc (next_addr s) \<le> n"
    "length k = length (io_counts s)" "rc = (if ok then 0 else - 1)"
proof -
  let ?c = "\<lparr>ch_addr = ca, iopath_list = [], max_id = 0\<rparr>"
  let ?s1 = "s\<lparr>g_channels := g_channels s @ [?c]\<rparr>"
  obtain pol s2 where p: "spdk_poller_register env UmpIoCountFn ?s1 = (pol, s2)"
    by (cases "spdk_poller_register env UmpIoCountFn ?s1")
  obtain ps where s2: "s2 = ?s1\<lparr>next_addr := Suc (next_addr s), pollers := ps\<rparr>"
    using spdk_poller_register_frame [OF p] by auto
  let ?s3 = "s2\<lparr>io_count_poller := pol\<rparr>"
  obtain r where r: "create_iopaths env (spdk_bdev_list m) ?c ?s3 = Inr r"
    and rc: "(case r of (c', s4, ok) \<Rightarrow> if ok then Inr (0, replace_channel c' s4)
           else let (c'', puts) = ump_bdev_channel_clear_all_iopath c'
                in Inr (- 1, replace_channel c'' (s4\<lparr>put_channels := put_channels s4 @ puts\<rparr>))) =
         (Inr (rc, s') :: fault + int \<times> sump_state)"
    using assms(1) p by (auto simp: ump_bdev_channel_create_cb_def Let_def bindR_eq_Inr split: if_splits)
  obtain c' s4 ok where "r = (c', s4, ok)" by (cases r)
  then have cr: "create_iopaths env (spdk_bdev_list m) ?c ?s3 = Inr (c', s4, ok)"
    and fin: "(if ok then Inr (0, replace_channel c' s4)
           else let (c'', puts) = ump_bdev_channel_clear_all_iopath c'
                in Inr (- 1, replace_channel c'' (s4\<lparr>put_channels := put_channels s4 @ puts\<rparr>))) =
         (Inr (rc, s') :: fault + int \<times> sump_state)"
    using r rc by simp_all
  have b: "building (Suc (next_addr s)) (next_addr s4) c'"
    using create_iopaths_building [OF cr building_clear] by (simp add: s2)
  obtain n k pc where s4: "s4 = ?s3\<lparr>next_addr := n, io_counts := k, put_channels := pc\<rparr>"
    "Suc (next_addr s) \<le> n" "length k = length (io_counts s)" "ch_addr c' = ca"
    using create_iopaths_frame [OF cr] by (auto simp: s2)
  have up: "update_by ch_addr ca (\<lambda>_. d) (g_channels s @ [?c]) = g_channels s @ [d]" for d
    using update_by_snoc_fresh [of ?c "g_channels s" ?c d] assms(2) by simp
  define pc' where "pc' = (if ok then pc else pc @ map io_channel (iopath_list c'))"
  have eq: "s' = s\<lparr>next_addr := n, io_counts := k, put_channels := pc', pollers := ps, io_count_poller := pol,
            g_channels := g_channels s @ [if ok then c' else c'\<lparr>iopath_list := []\<rparr>]\<rparr>"
    using fin up by (auto simp: s4 s2 pc'_def replace_channel_def ump_bdev_channel_clear_all_iopath_def)
  have rc': "rc = (if ok then 0 else - 1)"
    using fin by (auto simp: ump_bdev_channel_clear_all_iopath_def split: if_splits)
  have b': "building (Suc (next_addr s)) n c'" using b by (simp add: s4(1))
  show thesis by (rule that [OF eq b' s4(4,2,3) rc'])
qed

lemma ump_bdev_channel_create_cb_inv:
  assumes "ump_bdev_channel_create_cb env m ca s = Inr (rc, s')" and "sump_inv s"
    and "ca < next_addr s" and "ca \<notin> ch_addr ` set (g_channels s)"
  shows "sump_inv s'"
proof (rule ump_bdev_channel_create_cb_cases [OF assms(1,4)])
  fix c n k p ps ok pol
  assume s': "s' = s\<lparr>next_addr := n, io_counts := k, put_channels := p, pollers := ps, io_count_poller := pol,
            g_channels := g_channels s @ [if ok then c else c\<lparr>iopath_list := []\<rparr>]\<rparr>"
    and b: "building (Suc (next_addr s)) n c" and ca: "ch_addr c = ca" and n: "Suc (next_addr s) \<le> n"
    and k: "length k = length (io_counts s)"
  have le: "channels_ok (Suc (next_addr s)) (g_channels s)"
    using sump_inv_next [OF assms(2)] by (simp add: sump_inv_def)
  have c: "channels_ok n (g_channels s @ [c])"
    using channels_ok_built [OF le b n] assms(3,4) ca n by simp
  then have "channels_ok n (g_channels s @ [c\<lparr>iopath_list := []\<rparr>])"
    by (simp add: channels_ok_append)
  with c have "channels_ok n (g_channels s @ [if ok then c else c\<lparr>iopath_list := []\<rparr>])" by simp
  then show ?thesis
    using assms(2) n k mbdevs_ok_mono [of "next_addr s" "mbdevs s" n]
    by (fastforce simp: s' sump_inv_def flight_ok_def)
qed

lemma channel_create_inv:
  assumes "channel_create env ma s = Inr s'" and "sump_inv s"
  shows "sump_inv s'"
proof (cases "List.find (\<lambda>m. mb_addr m = ma \<and> \<not> mb_freed m) (mbdevs s)")
  case None
  with assms show ?thesis by (simp add: channel_create_def)
next
  case (Some m)
  let ?s1 = "s\<lparr>next_addr := Suc (next_addr s)\<rparr>"
  obtain rc s2 where c: "ump_bdev_channel_create_cb env m (next_addr s) ?s1 = Inr (rc, s2)"
    and s': "s' = (if rc = 0 then s2 else s2\<lparr>freed_channels := next_addr s # freed_channels s2\<rparr>)"
    using assms(1) Some by (auto simp: channel_create_def Let_def bindR_eq_Inr)
  have "next_addr s \<notin> ch_addr ` set (g_channels s)"
    using assms(2) by (auto simp: sump_inv_def channels_ok_def)
  then have "sump_inv s2"
    using ump_bdev_channel_create_cb_inv [OF c] sump_inv_next [OF assms(2)] by simp
  then show ?thesis by (simp add: s')
qed

lemma ump_bdev_channel_destroy_cb_inv:
  assumes "ump_bdev_channel_destroy_cb ca s = Inr s'" and "sump_inv s"
  shows "sump_inv s'"
proof -
  have "s' = s\<lparr>g_channels := remove_by ch_addr ca (g_channels s), pollers := pollers s',
      io_count_poller := None, put_channels := put_channels s'\<rparr>"
    using assms(1)
    by (cases "io_count_poller s")
      (auto simp: ump_bdev_channel_destroy_cb_def Let_def spdk_poller_unregister_def
        ump_bdev_channel_clear_all_iopath_def split: option.splits if_splits)
  then obtain ps pc where "s' = s\<lparr>g_channels := remove_by ch_addr ca (g_channels s), pollers := ps,
      io_count_poller := None, put_channels := pc\<rparr>" by blast
  then show ?thesis
    using assms(2) channels_ok_remove [of "next_addr s" "g_channels s" ca]
    by (auto simp: sump_inv_def flight_ok_def)
qed

lemma reset_times_simps [simp]:
  "iop_addr (reset_times p) = iop_addr p" "iop_id (reset_times p) = iop_id p"
  "available (reset_times p) = available p" "reconnecting (reset_times p) = reconnecting p"
  by (simp_all add: reset_times_def)

lemma ump_io_count_fn_inv:
  assumes "ump_io_count_fn s = Inr s'" and "sump_inv s"
  shows "sump_inv s'"
  using assms channels_ok_map_paths [of "next_addr s" "g_channels s" reset_times]
  by (auto simp: ump_io_count_fn_def sump_inv_def flight_ok_def path_ok_def reset_times_def split: if_splits)

lemma flight_ok_submit:
  assumes "flight_ok s" and "\<forall>a ctx. cctxs s a = Some ctx \<longrightarrow> a < next_addr s" and "cctx_iopath ctx \<noteq> None"
    and "bio_cb io = UmpIoCompletionCb" and "bio_caller_ctx io = next_addr s"
    and "in_flight s' = in_flight s @ [(x, io)]" and "cctxs s' = (cctxs s)(next_addr s \<mapsto> ctx)"
  shows "flight_ok s'"
proof -
  have "next_addr s \<notin> set (flight_ctxs (in_flight s))"
    using assms(1,2) unfolding flight_ok_def by fastforce
  then show ?thesis
    using assms by (auto simp: flight_ok_def)
qed

lemma ump_bdev_submit_request_Inr:
  assumes "ump_bdev_submit_request env ca io s = Inr s'"
  obtains (Dropped) "\<not> alloc_ok env (next_addr s)" "s' = s\<lparr>next_addr := Suc (next_addr s)\<rparr>"
  | (Sent) c p where "alloc_ok env (next_addr s)" "find_channel s ca = Some c"
      "ump_bdev_find_iopath c io = Inr (Some p)" "unat (iop_id p) < length (io_counts s)"
      "s' = s\<lparr>next_addr := Suc (next_addr s),
         io_counts := add_count (unat (iop_id p)) io (io_counts s),
         cctxs := (cctxs s)(next_addr s \<mapsto> \<lparr>cctx_ch = ca, real_caller_ctx = bio_caller_ctx io,
           real_completion_cb = bio_cb io, cctx_iopath = Some (iop_addr p)\<rparr>),
         in_flight := in_flight s @ [(io_channel p,
           io\<lparr>bio_cb := UmpIoCompletionCb, bio_caller_ctx := next_addr s\<rparr>)]\<rparr>"
proof (cases "alloc_ok env (next_addr s)")
  case False
  with assms Dropped show thesis by (auto simp: ump_bdev_submit_request_def alloc_def)
next
  case True
  have same: "ump_bdev_find_iopath c (io\<lparr>bio_cb := x, bio_caller_ctx := y\<rparr>) = ump_bdev_find_iopath c io"
    "add_count i (io\<lparr>bio_cb := x, bio_caller_ctx := y\<rparr>) cs = add_count i io cs" for c x y i cs
    by (simp_all add: ump_bdev_find_iopath_def ump_find_iopath_hash_def hash_chose_id_def add_count_def)
  have "find_channel (s\<lparr>next_addr := Suc (next_addr s)\<rparr>) ca = find_channel s ca"
    by (simp add: find_channel_def)
  with assms True Sent show thesis
    by (auto simp: ump_bdev_submit_request_def alloc_def Let_def inr_simps same)
qed

lemma ump_bdev_submit_request_inv:
  assumes "ump_bdev_submit_request env ca io s = Inr s'" and "sump_inv s"
  shows "sump_inv s'"
  using assms(1)
proof (cases rule: ump_bdev_submit_request_Inr)
  case Dropped
  with assms(2) show ?thesis by simp
next
  case (Sent c p)
  have "flight_ok s'"
    by (rule flight_ok_submit [of s "\<lparr>cctx_ch = ca, real_caller_ctx = bio_caller_ctx io,
           real_completion_cb = bio_cb io, cctx_iopath = Some (iop_addr p)\<rparr>"
          "io\<lparr>bio_cb := UmpIoCompletionCb, bio_caller_ctx := next_addr s\<rparr>" s' "io_channel p"])
      (use assms(2) in \<open>auto simp: Sent(5) sump_inv_def\<close>)
  moreover have "sump_inv (s\<lparr>next_addr := Suc (next_addr s)\<rparr>)" using assms(2) by simp
  ultimately show ?thesis
    by (auto simp: Sent(5) sump_inv_def add_count_def)
qed

section \<open>Failback and completion keep the invariant\<close>

text \<open>What \<open>ump_failback\<close> does to the state: nothing, or it marks the path and sets up a probe.\<close>

lemma ump_failback_Inr:
  assumes "ump_failback env pa io s = Inr s'"
  obtains (Already) p where "find_path s pa = Some p" "reconnecting p" "s' = s"
  | (Probe) p pol ps where "find_path s pa = Some p" "\<not> reconnecting p"
      "s' = (update_path pa (\<lambda>q. q\<lparr>reconnect_poller := pol\<rparr>)
              (update_path pa (\<lambda>q. q\<lparr>reconnecting := True\<rparr>) s))
              \<lparr>next_addr := Suc (Suc (Suc (next_addr s))), pollers := ps,
               fctxs := (fctxs s)(next_addr s \<mapsto> \<lparr>fb_iopath = pa, fb_bdev_io = io\<rparr>)\<rparr>"
proof -
  obtain p where p: "find_path s pa = Some p"
    using assms by (auto simp: ump_failback_def split: option.splits)
  show thesis
  proof (cases "reconnecting p")
    case True
    with assms p show thesis by (intro Already) (auto simp: ump_failback_def)
  next
    case False
    let ?n = "next_addr s"
    let ?s4 = "(update_path pa (\<lambda>q. q\<lparr>reconnecting := True\<rparr>) s)\<lparr>next_addr := Suc (Suc ?n),
      fctxs := (fctxs s)(?n \<mapsto> \<lparr>fb_iopath = pa, fb_bdev_io = io\<rparr>)\<rparr>"
    obtain pol s5 where reg: "spdk_poller_register env (UmpFailbackIoFn ?n) ?s4 = (pol, s5)"
      by (cases "spdk_poller_register env (UmpFailbackIoFn ?n) ?s4")
    obtain ps where s5: "s5 = ?s4\<lparr>next_addr := Suc (next_addr ?s4), pollers := ps\<rparr>"
      using spdk_poller_register_frame [OF reg] by blast
    have "s' = update_path pa (\<lambda>q. q\<lparr>reconnect_poller := pol\<rparr>) s5"
      using assms p False reg by (auto simp: ump_failback_def alloc_def Let_def split: if_splits)
    then show thesis
      by (intro Probe [OF p False, of ps pol]) (simp add: s5 update_path_def)
  qed
qed

lemma sump_inv_next3:
  assumes "sump_inv s"
  shows "sump_inv (s\<lparr>next_addr := Suc (Suc (Suc (next_addr s))), pollers := ps,
    fctxs := (fctxs s)(next_addr s \<mapsto> x)\<rparr>)"
proof -
  have "sump_inv (s\<lparr>next_addr := Suc (Suc (Suc (next_addr s)))\<rparr>)"
    using sump_inv_next [OF sump_inv_next [OF sump_inv_next [OF assms(1)]]] by simp
  then show ?thesis by (auto simp: sump_inv_def flight_ok_def split: if_splits)
qed

lemma sump_inv_set_flag:
  "sump_inv s \<Longrightarrow> sump_inv (update_path a (\<lambda>q. q\<lparr>available := x\<rparr>) s)"
  "sump_inv s \<Longrightarrow> sump_inv (update_path a (\<lambda>q. q\<lparr>reconnecting := x\<rparr>) s)"
  "sump_inv s \<Longrightarrow> sump_inv (update_path a (\<lambda>q. q\<lparr>reconnect_poller := y\<rparr>) s)"
  "sump_inv s \<Longrightarrow> sump_inv (update_path a (\<lambda>q. q\<lparr>io_incomplete := f q\<rparr>) s)"
  "sump_inv s \<Longrightarrow> sump_inv (update_path a (record_time now io) s)"
  by (rule sump_inv_update_path; simp add: path_ok_def record_time_def Let_def)+

lemma ump_failback_inv:
  assumes "ump_failback env pa io s = Inr s'" and "sump_inv s"
  shows "sump_inv s'"
  using assms(1)
proof (cases rule: ump_failback_Inr)
  case (Probe p pol ps)
  let ?t = "update_path pa (\<lambda>q. q\<lparr>reconnect_poller := pol\<rparr>)
              (update_path pa (\<lambda>q. q\<lparr>reconnecting := True\<rparr>) s)"
  have t: "sump_inv ?t" using assms(2) by (simp add: sump_inv_set_flag)
  show ?thesis
    using sump_inv_next3 [OF t, of "\<lparr>fb_iopath = pa, fb_bdev_io = io\<rparr>" ps]
    by (simp add: Probe(3))
qed (use assms(2) in simp)

lemma ump_failback_io_fn_inv:
  assumes "ump_failback_io_fn fa s = Inr s'" and "sump_inv s"
  shows "sump_inv s'"
  using assms
  by (auto simp: ump_failback_io_fn_def Let_def inr_simps sump_inv_def flight_ok_def split: if_splits)

lemma ump_failback_io_completion_cb_Inr:
  assumes "ump_failback_io_completion_cb success fa s = Inr s'"
  obtains (Failed) "\<not> success" "s' = s"
  | (Back) ctx p a where "success" "fctxs s fa = Some ctx" "find_path s (fb_iopath ctx) = Some p"
      "reconnect_poller p = Some a"
      "s' = (update_path (fb_iopath ctx) (\<lambda>q. q\<lparr>available := True\<rparr>) s)
         \<lparr>pollers := update_by pl_addr a (\<lambda>p. p\<lparr>pl_paused := True\<rparr>) (pollers s),
          fctxs := (fctxs s)(fa := None)\<rparr>"
  using assms
  by (auto simp: ump_failback_io_completion_cb_def spdk_poller_pause_def inr_simps split: if_splits)

lemma ump_failback_io_completion_cb_inv:
  assumes "ump_failback_io_completion_cb success fa s = Inr s'" and "sump_inv s"
  shows "sump_inv s'"
  using assms(1)
proof (cases rule: ump_failback_io_completion_cb_Inr)
  case (Back ctx p a)
  have "sump_inv (update_path (fb_iopath ctx) (\<lambda>q. q\<lparr>available := True\<rparr>) s)"
    using assms(2) by (rule sump_inv_set_flag)
  then show ?thesis
    by (auto simp: Back(5) sump_inv_def flight_ok_def split: if_splits)
qed (use assms(2) in simp)

text \<open>Freeing a completion context that no I/O in flight carries.\<close>

lemma sump_inv_free_cctx:
  assumes "sump_inv s" and "a \<notin> set (flight_ctxs (in_flight s))"
  shows "sump_inv (free_cctx a s)"
  using assms by (auto simp: sump_inv_def flight_ok_def free_cctx_def)

lemma update_io_time_Inr:
  assumes "update_io_time env now pa io s = Inr s'"
  shows "s' = s\<lparr>next_addr := Suc (next_addr s)\<rparr> \<or>
    s' = update_path pa (record_time now io) (s\<lparr>next_addr := Suc (next_addr s)\<rparr>)"
  using assms by (auto simp: update_io_time_def alloc_def inr_simps split: if_splits)

lemma update_io_time_inv:
  assumes "update_io_time env now pa io s = Inr s'" and "sump_inv s"
  shows "sump_inv s'"
  using update_io_time_Inr [OF assms(1)] sump_inv_next [OF assms(2)] by (auto simp: sump_inv_set_flag)

lemma update_io_time_frame:
  assumes "update_io_time env now pa io s = Inr s'"
  shows "in_flight s' = in_flight s" "cctxs s' = cctxs s" "callbacks s' = callbacks s"
    "fctxs s' = fctxs s" "pollers s' = pollers s"
  using update_io_time_Inr [OF assms] by auto

lemma ump_failback_frame:
  assumes "ump_failback env pa io s = Inr s'"
  shows "in_flight s' = in_flight s" "cctxs s' = cctxs s" "callbacks s' = callbacks s"
    "io_counts s' = io_counts s" "next_addr s \<le> next_addr s'"
  using assms by (cases rule: ump_failback_Inr; simp)+

lemma ump_bdev_io_completion_cb_Inr:
  assumes "ump_bdev_io_completion_cb env now io success a s = Inr s'"
  obtains (Done) ctx pa s1 where "success" "cctxs s a = Some ctx" "cctx_iopath ctx = Some pa"
      "update_io_time env now pa io s = Inr s1" "find_path s1 pa \<noteq> None"
      "s' = free_cctx a ((update_path pa (\<lambda>q. q\<lparr>io_incomplete := io_incomplete q - 1\<rparr>) s1)
              \<lparr>callbacks := callbacks s @ [(real_completion_cb ctx, real_caller_ctx ctx, True)]\<rparr>)"
  | (Retry) ctx pa s1 where "\<not> success" "cctxs s a = Some ctx" "cctx_iopath ctx = Some pa"
      "find_path s pa \<noteq> None"
      "ump_failback env pa io (update_path pa (\<lambda>q. q\<lparr>available := False\<rparr>) s) = Inr s1"
      "ump_bdev_submit_request env (cctx_ch ctx)
         (io\<lparr>bio_cb := real_completion_cb ctx, bio_caller_ctx := real_caller_ctx ctx, submit_tsc := now\<rparr>)
         (free_cctx a s1) = Inr s'"
proof -
  obtain ctx pa where c: "cctxs s a = Some ctx" "cctx_iopath ctx = Some pa"
    using assms by (auto simp: ump_bdev_io_completion_cb_def inr_simps)
  show thesis
  proof (cases success)
    case True
    with assms c obtain s1 where u: "update_io_time env now pa io s = Inr s1" and f: "find_path s1 pa \<noteq> None"
      and s': "s' = free_cctx a ((update_path pa (\<lambda>q. q\<lparr>io_incomplete := io_incomplete q - 1\<rparr>) s1)
              \<lparr>callbacks := callbacks s1 @ [(real_completion_cb ctx, real_caller_ctx ctx, True)]\<rparr>)"
      by (auto simp: ump_bdev_io_completion_cb_def inr_simps Let_def)
    show thesis
      by (rule Done [OF True c u f]) (simp add: s' update_io_time_frame(3) [OF u])
  next
    case False
    with assms c obtain s1 where r: "find_path s pa \<noteq> None"
      "ump_failback env pa io (update_path pa (\<lambda>q. q\<lparr>available := False\<rparr>) s) = Inr s1"
      "ump_bdev_submit_request env (cctx_ch ctx)
         (io\<lparr>bio_cb := real_completion_cb ctx, bio_caller_ctx := real_caller_ctx ctx, submit_tsc := now\<rparr>)
         (free_cctx a s1) = Inr s'"
      by (auto simp: ump_bdev_io_completion_cb_def inr_simps)
    show thesis by (rule Retry [OF False c r])
  qed
qed

lemma ump_bdev_io_completion_cb_inv:
  assumes "ump_bdev_io_completion_cb env now io success a s = Inr s'" and "sump_inv s"
    and "a \<notin> set (flight_ctxs (in_flight s))"
  shows "sump_inv s'"
  using assms(1)
proof (cases rule: ump_bdev_io_completion_cb_Inr)
  case (Done ctx pa s1)
  have "sump_inv (update_path pa (\<lambda>q. q\<lparr>io_incomplete := io_incomplete q - 1\<rparr>) s1)"
    using update_io_time_inv [OF Done(4) assms(2)] by (rule sump_inv_set_flag)
  then show ?thesis
    unfolding Done(6) using assms(3) update_io_time_frame(1) [OF Done(4)]
    by (intro sump_inv_free_cctx) simp_all
next
  case (Retry ctx pa s1)
  have "sump_inv s1"
    using ump_failback_inv [OF Retry(5)] sump_inv_set_flag(1) [OF assms(2)] by blast
  then have "sump_inv (free_cctx a s1)"
    using assms(3) ump_failback_frame(1) [OF Retry(5)] by (intro sump_inv_free_cctx) simp_all
  with Retry(6) show ?thesis by (rule ump_bdev_submit_request_inv)
qed

section \<open>The steps keep the invariant\<close>

lemma sump_inv_take_flight:
  assumes "sump_inv s" and "i < length (in_flight s)"
  shows "sump_inv (s\<lparr>in_flight := remove_nth i (in_flight s)\<rparr>)"
    and "bio_cb (snd (in_flight s ! i)) = UmpIoCompletionCb \<Longrightarrow>
      bio_caller_ctx (snd (in_flight s ! i)) \<notin> set (flight_ctxs (remove_nth i (in_flight s)))"
    and "bio_cb (snd (in_flight s ! i)) \<noteq> UpperCb k"
proof -
  have split: "in_flight s = take i (in_flight s) @ in_flight s ! i # drop (Suc i) (in_flight s)"
    using assms(2) by (rule split_nth)
  have "distinct (flight_ctxs (in_flight s))"
    and cov: "\<forall>e \<in> set (in_flight s). bio_cb (snd e) = UmpIoCompletionCb \<or> bio_cb (snd e) = UmpFailbackCb"
    using assms(1) by (simp_all add: sump_inv_def flight_ok_def)
  then have d: "distinct (flight_ctxs (take i (in_flight s) @ in_flight s ! i # drop (Suc i) (in_flight s)))"
    using split by simp
  have sub: "set (flight_ctxs (remove_nth i (in_flight s))) \<subseteq> set (flight_ctxs (in_flight s))"
    "set (remove_nth i (in_flight s)) \<subseteq> set (in_flight s)"
    by (subst (2) split, auto simp: remove_nth_def)
       (meson in_set_dropD in_set_takeD)+
  show "sump_inv (s\<lparr>in_flight := remove_nth i (in_flight s)\<rparr>)"
    using assms(1) d sub by (auto simp: sump_inv_def flight_ok_def remove_nth_def split: if_splits)
  show "bio_cb (snd (in_flight s ! i)) = UmpIoCompletionCb \<Longrightarrow>
      bio_caller_ctx (snd (in_flight s ! i)) \<notin> set (flight_ctxs (remove_nth i (in_flight s)))"
    using d by (auto simp: remove_nth_def)
  show "bio_cb (snd (in_flight s ! i)) \<noteq> UpperCb k"
    using cov assms(2) nth_mem by fastforce
qed

lemma complete_io_inv:
  assumes "complete_io env i now success s = Inr s'" and "sump_inv s"
  shows "sump_inv s'"
proof (cases "i < length (in_flight s)")
  case True
  note t = sump_inv_take_flight [OF assms(2) True]
  show ?thesis
  proof (cases "bio_cb (snd (in_flight s ! i))")
    case (UpperCb k)
    with t(3) show ?thesis by blast
  next
    case UmpIoCompletionCb
    with assms(1) True t(1,2) show ?thesis
      by (auto simp: complete_io_def Let_def intro: ump_bdev_io_completion_cb_inv)
  next
    case UmpFailbackCb
    with assms(1) True t(1) show ?thesis
      by (auto simp: complete_io_def Let_def intro: ump_failback_io_completion_cb_inv)
  qed
qed (use assms in \<open>simp add: complete_io_def\<close>)

lemma poll_once_inv:
  assumes "poll_once pa s = Inr s'" and "sump_inv s"
  shows "sump_inv s'"
  using assms
  by (auto simp: poll_once_def split: option.splits poller_fn.splits
      intro: ump_io_count_fn_inv ump_failback_io_fn_inv)

lemma sump_step_inv:
  assumes "sump_inv s" and "sump_step env s e = Inr s'"
  shows "sump_inv s'"
  using assms(2,1)
  by (cases e)
    (auto simp: bindR_eq_Inr split: if_splits
      intro: spdk_bdev_register_inv channel_create_inv ump_bdev_channel_destroy_cb_inv
        ump_bdev_submit_request_inv complete_io_inv poll_once_inv)

interpretation sump: stepper "sump_step env" sump_inv for env
  by unfold_locales (rule sump_step_inv)

end
