(* ===== verification/Sump_Flow.thy ===== *)
theory Sump_Flow
  imports Sump_Inv
begin

text \<open>
  What becomes of an I/O: the ledger of accepted I/Os (each is in flight, answered, exactly once and only
  with success, or lost when its context could not be allocated), failover to another path, and the life of
  a path that has failed (the failback probe and the path's permanent loss).
\<close>

section \<open>The ledger\<close>

definition caller_of :: "sump_state \<Rightarrow> addr \<Rightarrow> io_cb \<times> addr" where
  "caller_of s a = (case cctxs s a of
     Some ctx \<Rightarrow> (real_completion_cb ctx, real_caller_ctx ctx) | None \<Rightarrow> (UmpIoCompletionCb, 0))"

definition outstanding :: "sump_state \<Rightarrow> (io_cb \<times> addr) multiset" where
  "outstanding s = mset (map (caller_of s) (flight_ctxs (in_flight s)))"

definition answered :: "sump_state \<Rightarrow> (io_cb \<times> addr) multiset" where
  "answered s = mset (map (\<lambda>(cb, c, ok). (cb, c)) (callbacks s))"

definition ledger :: "sump_state \<Rightarrow> (io_cb \<times> addr) multiset" where
  "ledger s = outstanding s + answered s"

definition accepted_io :: "sump_event \<Rightarrow> (io_cb \<times> addr) multiset" where
  "accepted_io e = (case e of EvSubmit ca io \<Rightarrow> {#(bio_cb io, bio_caller_ctx io)#} | _ \<Rightarrow> {#})"

definition never_fails :: "spdk_env \<Rightarrow> bool" where
  "never_fails env \<longleftrightarrow> (\<forall>a. alloc_ok env a)"

text \<open>How a step changes the ledger: \<open>w\<close> comes in, and nothing leaves it as long as the
  allocations succeed; every completion delivered reports success.\<close>

definition ledger_change :: "spdk_env \<Rightarrow> sump_state \<Rightarrow> (io_cb \<times> addr) multiset \<Rightarrow> sump_state \<Rightarrow> bool" where
  "ledger_change env s w s' \<longleftrightarrow>
     (\<exists>d. ledger s' + d = ledger s + w \<and> (never_fails env \<longrightarrow> d = {#})) \<and>
     (\<exists>cbs. callbacks s' = callbacks s @ cbs \<and> (\<forall>(cb, c, ok) \<in> set cbs. ok))"

lemma ledger_changeI:
  "ledger s' + d = ledger s + w \<Longrightarrow> (never_fails env \<Longrightarrow> d = {#}) \<Longrightarrow>
   callbacks s' = callbacks s @ cbs \<Longrightarrow> \<forall>(cb, c, ok) \<in> set cbs. ok \<Longrightarrow> ledger_change env s w s'"
  by (auto simp: ledger_change_def)

definition same_io :: "sump_state \<Rightarrow> sump_state \<Rightarrow> bool" where
  "same_io s s' \<longleftrightarrow> flight_ctxs (in_flight s') = flight_ctxs (in_flight s) \<and> cctxs s' = cctxs s \<and>
     callbacks s' = callbacks s"

lemma same_io_ledger: "same_io s s' \<Longrightarrow> ledger s' = ledger s"
  by (simp add: same_io_def ledger_def outstanding_def answered_def caller_of_def [abs_def])

lemma same_io_callbacks: "same_io s s' \<Longrightarrow> callbacks s' = callbacks s"
  by (simp add: same_io_def)

lemma same_io_register:
  assumes "spdk_bdev_register env b s = Inr (rc, s')"
  shows "same_io s s'"
proof -
  have con: "same_io t t'" if "ump_bdev_construct env b t = (rc, t')" for t t' rc
    using that by (auto simp: ump_bdev_construct_def alloc_def Let_def same_io_def split: if_splits)
  have add: "same_io t t'" if "ump_bdev_add_bdev env a b t = Inr (rc, t')" for a t t' rc
    using that
    by (auto simp: ump_bdev_add_bdev_def alloc_def Let_def same_io_def inr_simps split: if_splits option.splits)
  define s1 where "s1 = (if real_register_set s then s else ump_init env s)"
  have s1: "same_io s s1" by (simp add: s1_def same_io_def ump_init_def)
  have "same_io s1 s'"
    using assms con add
    by (cases "get_ump_bdev_by_uuid (mbdevs s1) (bd_uuid b)")
      (auto simp: spdk_bdev_register_def Let_def same_io_def split: if_splits option.splits
        simp flip: s1_def)
  with s1 show ?thesis by (simp add: same_io_def)
qed

lemma same_io_channel_create:
  assumes "channel_create env ma s = Inr s'" and "sump_inv s"
  shows "same_io s s'"
proof (cases "List.find (\<lambda>m. mb_addr m = ma \<and> \<not> mb_freed m) (mbdevs s)")
  case None
  with assms show ?thesis by (simp add: channel_create_def same_io_def)
next
  case (Some m)
  let ?s1 = "s\<lparr>next_addr := Suc (next_addr s)\<rparr>"
  obtain rc s2 where c: "ump_bdev_channel_create_cb env m (next_addr s) ?s1 = Inr (rc, s2)"
    and s': "s' = (if rc = 0 then s2 else s2\<lparr>freed_channels := next_addr s # freed_channels s2\<rparr>)"
    using assms(1) Some by (auto simp: channel_create_def Let_def bindR_eq_Inr)
  have n: "next_addr s \<notin> ch_addr ` set (g_channels ?s1)"
    using assms(2) by (auto simp: sump_inv_def channels_ok_def)
  show ?thesis
    by (rule ump_bdev_channel_create_cb_cases [OF c n]) (simp add: s' same_io_def)
qed

lemma same_io_destroy:
  "ump_bdev_channel_destroy_cb ca s = Inr s' \<Longrightarrow> same_io s s'"
  by (auto simp: ump_bdev_channel_destroy_cb_def same_io_def Let_def spdk_poller_unregister_def
      ump_bdev_channel_clear_all_iopath_def inr_simps split: option.splits)

lemma same_io_poll: "poll_once pa s = Inr s' \<Longrightarrow> same_io s s'"
  by (auto simp: poll_once_def ump_io_count_fn_def ump_failback_io_fn_def Let_def same_io_def inr_simps
      split: option.splits poller_fn.splits if_splits)

lemma caller_of_frame: "cctxs s' = cctxs s \<Longrightarrow> caller_of s' = caller_of s"
  by (simp add: caller_of_def fun_eq_iff)

lemma map_caller_of_upd:
  "a \<notin> set xs \<Longrightarrow> cctxs s' = (cctxs s)(a := v) \<Longrightarrow>
     image_mset (caller_of s') (mset xs) = image_mset (caller_of s) (mset xs)"
  by (rule image_mset_cong) (auto simp: caller_of_def)

lemma fresh_not_in_flight:
  assumes "sump_inv s"
  shows "next_addr s \<notin> set (flight_ctxs (in_flight s))"
  using assms unfolding sump_inv_def flight_ok_def by fastforce

lemma same_io_change: "same_io s s' \<Longrightarrow> ledger_change env s {#} s'"
  using ledger_changeI [of s' "{#}" s "{#}" env "[]"] by (simp add: same_io_ledger same_io_callbacks)

lemma ledger_change_from:
  "ledger_change env t w s' \<Longrightarrow> ledger t = ledger s \<Longrightarrow> callbacks t = callbacks s \<Longrightarrow> ledger_change env s w s'"
  by (simp add: ledger_change_def)

lemma ledger_submit:
  assumes "ump_bdev_submit_request env ca io s = Inr s'" and "sump_inv s"
  shows "ledger_change env s {#(bio_cb io, bio_caller_ctx io)#} s'"
  using assms(1)
proof (cases rule: ump_bdev_submit_request_Inr)
  case Dropped
  have "same_io s s'" by (simp add: Dropped(2) same_io_def)
  then show ?thesis
    using Dropped(1)
    by (intro ledger_changeI [of _ "{#(bio_cb io, bio_caller_ctx io)#}" _ _ _ "[]"])
      (auto simp: same_io_ledger same_io_callbacks never_fails_def)
next
  case (Sent c p)
  then have "ledger s' = ledger s + {#(bio_cb io, bio_caller_ctx io)#}"
    using map_caller_of_upd [OF fresh_not_in_flight [OF assms(2)], of s' s]
    by (simp add: ledger_def outstanding_def answered_def caller_of_def)
  with Sent show ?thesis by (intro ledger_changeI [of _ "{#}" _ _ _ "[]"]) simp_all
qed

lemma ledger_free_cctx:
  "a \<notin> set (flight_ctxs (in_flight s)) \<Longrightarrow> ledger (free_cctx a s) = ledger s"
  using map_caller_of_upd [of a "flight_ctxs (in_flight s)" "free_cctx a s" s None]
  by (simp add: ledger_def outstanding_def answered_def) (simp add: free_cctx_def)

lemma ledger_take_flight:
  assumes "sump_inv s" and i: "i < length (in_flight s)"
    and cb: "bio_cb (snd (in_flight s ! i)) = UmpIoCompletionCb"
  shows "ledger s = ledger (s\<lparr>in_flight := remove_nth i (in_flight s)\<rparr>) +
    {#caller_of s (bio_caller_ctx (snd (in_flight s ! i)))#}"
proof -
  have "flight_ctxs (in_flight s) =
      flight_ctxs (take i (in_flight s) @ in_flight s ! i # drop (Suc i) (in_flight s))"
    using split_nth [OF i] by simp
  then show ?thesis
    using cb caller_of_frame [of "s\<lparr>in_flight := remove_nth i (in_flight s)\<rparr>" s]
    by (simp add: ledger_def outstanding_def answered_def remove_nth_def)
qed

lemma ledger_completion:
  assumes "ump_bdev_io_completion_cb env now io success a s = Inr s'" and "sump_inv s"
    and "a \<notin> set (flight_ctxs (in_flight s))"
  shows "ledger_change env s {#caller_of s a#} s'"
  using assms(1)
proof (cases rule: ump_bdev_io_completion_cb_Inr)
  case (Done ctx pa s1)
  note fr = update_io_time_frame [OF Done(4)]
  let ?t = "(update_path pa (\<lambda>q. q\<lparr>io_incomplete := io_incomplete q - 1\<rparr>) s1)
    \<lparr>callbacks := callbacks s @ [(real_completion_cb ctx, real_caller_ctx ctx, True)]\<rparr>"
  have "ledger s' = ledger ?t"
    unfolding Done(6) using assms(3) fr by (intro ledger_free_cctx) simp
  also have "\<dots> = ledger s + {#caller_of s a#}"
    using fr Done(2) caller_of_frame [of ?t s]
    by (simp add: ledger_def outstanding_def answered_def caller_of_def [of s a])
  finally show ?thesis
    by (intro ledger_changeI [of _ "{#}" _ _ _ "[(real_completion_cb ctx, real_caller_ctx ctx, True)]"])
      (simp_all add: Done(6) free_cctx_def)
next
  case (Retry ctx pa s1)
  note fr = ump_failback_frame [OF Retry(5)]
  have s1: "sump_inv s1"
    using ump_failback_inv [OF Retry(5)] sump_inv_set_flag(1) [OF assms(2)] by blast
  have na: "a \<notin> set (flight_ctxs (in_flight s1))" using assms(3) fr(1) by simp
  have "ledger (free_cctx a s1) = ledger s1" using na by (rule ledger_free_cctx)
  also have "ledger s1 = ledger s"
    using fr by (intro same_io_ledger) (simp add: same_io_def)
  finally have l: "ledger (free_cctx a s1) = ledger s" .
  have "caller_of s a = (real_completion_cb ctx, real_caller_ctx ctx)"
    using Retry(2) by (simp add: caller_of_def)
  then show ?thesis
    using ledger_change_from [OF ledger_submit [OF Retry(6) sump_inv_free_cctx [OF s1 na]] l] fr(3)
    by (simp add: free_cctx_def)
qed

lemma remove_nth_flight_ctxs:
  assumes "i < length fl" and "bio_cb (snd (fl ! i)) \<noteq> UmpIoCompletionCb"
  shows "flight_ctxs (remove_nth i fl) = flight_ctxs fl"
proof -
  have "flight_ctxs fl = flight_ctxs (take i fl @ fl ! i # drop (Suc i) fl)"
    using split_nth [OF assms(1)] by simp
  then show ?thesis using assms(2) by (simp add: remove_nth_def)
qed

lemma same_io_probe:
  "ump_failback_io_completion_cb success fa s = Inr s' \<Longrightarrow> same_io s s'"
  by (erule ump_failback_io_completion_cb_Inr) (simp_all add: same_io_def)

lemma ledger_complete_io:
  assumes "complete_io env i now success s = Inr s'" and "sump_inv s"
  shows "ledger_change env s {#} s'"
proof (cases "i < length (in_flight s)")
  case True
  let ?e = "in_flight s ! i" and ?s1 = "s\<lparr>in_flight := remove_nth i (in_flight s)\<rparr>"
  note t = sump_inv_take_flight [OF assms(2) True]
  show ?thesis
  proof (cases "bio_cb (snd ?e)")
    case (UpperCb k)
    with t(3) show ?thesis by blast
  next
    case UmpIoCompletionCb
    then have c: "ump_bdev_io_completion_cb env now (snd ?e) success (bio_caller_ctx (snd ?e)) ?s1 = Inr s'"
      using assms(1) True by (simp add: complete_io_def Let_def)
    have na: "bio_caller_ctx (snd ?e) \<notin> set (flight_ctxs (in_flight ?s1))"
      using t(2) [OF UmpIoCompletionCb] by simp
    show ?thesis
      using ledger_completion [OF c t(1) na] caller_of_frame [of ?s1 s]
      by (simp add: ledger_change_def ledger_take_flight [OF assms(2) True UmpIoCompletionCb])
  next
    case UmpFailbackCb
    then have "same_io ?s1 s'"
      using assms(1) True same_io_probe by (auto simp: complete_io_def Let_def)
    moreover have "same_io s ?s1"
      using remove_nth_flight_ctxs [OF True] UmpFailbackCb by (simp add: same_io_def)
    ultimately have "same_io s s'" by (simp add: same_io_def)
    then show ?thesis by (rule same_io_change)
  qed
next
  case False
  with assms(1) have "same_io s s'" by (simp add: complete_io_def same_io_def)
  then show ?thesis by (rule same_io_change)
qed

lemma step_ledger:
  assumes "sump_inv s" and "sump_step env s e = Inr s'"
  shows "ledger_change env s (accepted_io e) s'"
proof (cases e)
  case (EvRegister b)
  then have "same_io s s'" using assms(2) same_io_register by (auto simp: bindR_eq_Inr)
  then show ?thesis by (simp add: EvRegister accepted_io_def same_io_change)
next
  case (EvChannelCreate ma)
  then have "same_io s s'" using assms same_io_channel_create by auto
  then show ?thesis by (simp add: EvChannelCreate accepted_io_def same_io_change)
next
  case (EvChannelDestroy ca)
  have "same_io s s" by (simp add: same_io_def)
  with EvChannelDestroy have "same_io s s'" using assms same_io_destroy by (auto split: if_splits)
  then show ?thesis by (simp add: EvChannelDestroy accepted_io_def same_io_change)
next
  case (EvSubmit ca io)
  then have "ump_bdev_submit_request env ca io s = Inr s'"
    using assms(2) by (simp split: if_splits)
  from ledger_submit [OF this assms(1)] show ?thesis by (simp add: EvSubmit accepted_io_def)
next
  case (EvComplete i now success)
  then have "complete_io env i now success s = Inr s'" using assms(2) by simp
  from ledger_complete_io [OF this assms(1)] show ?thesis by (simp add: EvComplete accepted_io_def)
next
  case (EvPoll pa)
  then have "same_io s s'" using assms(2) same_io_poll by auto
  then show ?thesis by (simp add: EvPoll accepted_io_def same_io_change)
qed

definition only_success :: "sump_state \<Rightarrow> bool" where
  "only_success s \<longleftrightarrow> (\<forall>(cb, c, ok) \<in> set (callbacks s). ok)"

interpretation flow: lossy_stepper "sump_step env" "\<lambda>s. sump_inv s \<and> only_success s"
    ledger accepted_io "never_fails env" for env
proof
  fix s e s'
  assume "sump_inv s \<and> only_success s" and step: "sump_step env s e = Inr s'"
  then have s: "sump_inv s" "only_success s" by simp_all
  note l = step_ledger [OF s(1) step, unfolded ledger_change_def]
  show "sump_inv s' \<and> only_success s'"
    using sump.step_inv [OF s(1) step] l s(2) by (auto simp: only_success_def)
  show "\<exists>d. ledger s' + d = ledger s + accepted_io e \<and> (never_fails env \<longrightarrow> d = 0)"
    using l by simp
qed

text \<open>C1. No I/O is answered twice, and none is lost while memory lasts: whatever the
  allocations answer, in every state the library reaches without crashing the I/Os in flight,
  the completions delivered and a rest \<open>d\<close> are together exactly the I/Os that were
  submitted, each once, with its own callback and context. The rest \<open>d\<close> is empty when every
  allocation succeeds; when the completion context of an I/O cannot be allocated,
  \<open>ump_bdev_submit_request\<close> returns and the I/O is never completed. No completion delivered to
  the upper layer reports a failure.\<close>

theorem io_conservation:
  assumes "runR (sump_step env) sump_initial es = Inr s"
  shows "\<exists>d. outstanding s + answered s + d = (\<Sum>e\<leftarrow>es. accepted_io e) \<and>
    ((\<forall>a. alloc_ok env a) \<longrightarrow> d = {#}) \<and> (\<forall>(cb, c, ok) \<in> set (callbacks s). ok)"
proof -
  have "only_success sump_initial" by (simp add: only_success_def sump_initial_def)
  then have i: "sump_inv sump_initial \<and> only_success sump_initial" by simp
  have "ledger sump_initial = {#}"
    by (simp add: ledger_def outstanding_def answered_def sump_initial_def)
  with flow.run_loss [OF i assms] have "\<exists>d. outstanding s + answered s + d = (\<Sum>e\<leftarrow>es. accepted_io e) \<and>
      (never_fails env \<longrightarrow> d = {#})"
    by (simp add: ledger_def)
  moreover have "only_success s" using flow.run_inv [OF i assms] by simp
  ultimately show ?thesis by (simp add: only_success_def never_fails_def)
qed

text \<open>The rest is not empty: with an allocator that fails at the context of the only I/O, that
  I/O is neither in flight nor answered afterwards.\<close>

lemma failed_allocation_loses_io:
  assumes "ump_bdev_submit_request env ca io s = Inr s'" and "\<not> alloc_ok env (next_addr s)"
  shows "outstanding s' = outstanding s \<and> callbacks s' = callbacks s"
  using assms(1)
proof (cases rule: ump_bdev_submit_request_Inr)
  case Dropped
  then show ?thesis by (simp add: outstanding_def caller_of_def [abs_def])
qed (use assms(2) in simp)

section \<open>A concrete run\<close>

text \<open>Two paths to one device, one channel (address 4, paths 6 and 7), one I/O.\<close>

definition demo_env :: spdk_env where
  "demo_env = \<lparr>alloc_ok = \<lambda>_. True, lower_get_io_channel = \<lambda>b a. Some a,
     lower_bdev_register = \<lambda>b. 0, uuid_fmt_lower = \<lambda>u. ''0007'', dlsym_finds = True\<rparr>"

definition demo_setup :: "sump_event list" where
  "demo_setup = [EvRegister (sample_bdev 7 ''Nvme0n1''), EvRegister (sample_bdev 7 ''Nvme1n1''),
     EvChannelCreate 1]"

definition demo_failover :: "sump_event list" where
  "demo_failover = demo_setup @ [EvSubmit 4 (sample_io 0 8), EvComplete 0 0 False]"

lemma demo_env_simps [simp]:
  "alloc_ok demo_env a" "lower_get_io_channel demo_env b a = Some a"
  "lower_bdev_register demo_env b = 0" "dlsym_finds demo_env"
  by (simp_all add: demo_env_def)

definition demo_paths :: "bool \<Rightarrow> bool \<Rightarrow> addr option \<Rightarrow> ump_bdev_iopath list" where
  "demo_paths av rc pl = [(new_iopath 6 (Some 6) (sample_bdev 7 ''Nvme0n1'') 0)
       \<lparr>available := av, reconnecting := rc, reconnect_poller := pl\<rparr>,
     new_iopath 7 (Some 7) (sample_bdev 7 ''Nvme1n1'') 1]"

lemma demo_setup_run:
  "runR (sump_step demo_env) sump_initial demo_setup = Inr (sump_initial\<lparr>real_register_set := True,
     mbdevs := [\<lparr>mb_addr = 1, mb_bdev = mbdev_of demo_env 1 (sample_bdev 7 ''Nvme0n1''),
       spdk_bdev_list = [sample_bdev 7 ''Nvme0n1'', sample_bdev 7 ''Nvme1n1''], mb_freed = False\<rparr>],
     io_devices := [1], next_addr := 8,
     g_channels := [\<lparr>ch_addr = 4, iopath_list = demo_paths True False None, max_id = 2\<rparr>],
     pollers := [\<lparr>pl_addr = 5, pl_fn = UmpIoCountFn, pl_paused = False\<rparr>],
     io_count_poller := Some 5\<rparr>)"
  by (simp add: demo_setup_def spdk_bdev_register_def ump_init_def ump_bdev_construct_def alloc_def
      sump_initial_def sample_bdev_def mbdev_of_def ump_bdev_add_bdev_def channel_create_def
      ump_bdev_channel_create_cb_def spdk_poller_register_def replace_channel_def demo_paths_def
      append_path_def new_iopath_def Let_def)

definition demo_io :: "addr \<Rightarrow> io_cb \<Rightarrow> spdk_bdev_io" where
  "demo_io ctx cb = (sample_io 0 8)\<lparr>bio_cb := cb, bio_caller_ctx := ctx\<rparr>"

definition demo_failed_over :: sump_state where
  "demo_failed_over = sump_initial\<lparr>real_register_set := True,
     mbdevs := [\<lparr>mb_addr = 1, mb_bdev = mbdev_of demo_env 1 (sample_bdev 7 ''Nvme0n1''),
       spdk_bdev_list = [sample_bdev 7 ''Nvme0n1'', sample_bdev 7 ''Nvme1n1''], mb_freed = False\<rparr>],
     io_devices := [1], next_addr := 13,
     g_channels := [\<lparr>ch_addr = 4, iopath_list = demo_paths False True (Some 11), max_id = 2\<rparr>],
     io_counts := [4096, 4096, 0, 0],
     pollers := [\<lparr>pl_addr = 5, pl_fn = UmpIoCountFn, pl_paused = False\<rparr>,
       \<lparr>pl_addr = 11, pl_fn = UmpFailbackIoFn 9, pl_paused = False\<rparr>],
     io_count_poller := Some 5,
     cctxs := [12 \<mapsto> \<lparr>cctx_ch = 4, real_caller_ctx = 5, real_completion_cb = UpperCb 1,
       cctx_iopath = Some 7\<rparr>],
     fctxs := [9 \<mapsto> \<lparr>fb_iopath = 6, fb_bdev_io = demo_io 8 UmpIoCompletionCb\<rparr>],
     in_flight := [(Some 7, demo_io 12 UmpIoCompletionCb)]\<rparr>"

lemma demo_failover_run:
  "runR (sump_step demo_env) sump_initial demo_failover = Inr demo_failed_over"
  unfolding demo_failover_def runR_append demo_setup_run
  by (simp add: demo_failed_over_def demo_paths_def new_iopath_def ump_bdev_submit_request_def alloc_def
      find_channel_def ump_bdev_find_iopath_def ump_find_iopath_hash_def hash_select_def
      hash_chose_id_def add_count_def complete_io_def remove_nth_def ump_bdev_io_completion_cb_def
      find_path_def all_paths_def update_path_def ump_failback_def spdk_poller_register_def
      free_cctx_def demo_io_def sample_io_def sump_initial_def Let_def)

text \<open>The run above, for \<open>io_conservation\<close>: one I/O was accepted, and after the failover it is
  still the only one in flight.\<close>

theorem io_conservation_witness:
  "outstanding demo_failed_over + answered demo_failed_over = {#(UpperCb 1, 5)#}"
  using io_conservation [of demo_env demo_failover demo_failed_over] demo_failover_run
  by (simp add: demo_failover_def demo_setup_def accepted_io_def sample_io_def)

section \<open>Failover\<close>

lemma channel_paths_ok:
  assumes "ids_ok c" and "length (iopath_list c) \<le> 4" and "p \<in> set (iopath_list c)"
  shows "unat (iop_id p) < 4"
proof -
  obtain i where i: "i < length (iopath_list c)" "p = iopath_list c ! i"
    using assms(3) by (auto simp: in_set_conv_nth)
  then have "iop_id p = of_nat i" using ids_ok_nth [OF assms(1)] by simp
  then show ?thesis using i(1) assms(2) by (simp add: unat_of_nat_u64)
qed

lemma find_iopath_select:
  assumes "ids_ok c" and "iopath_list c \<noteq> []" and "length (iopath_list c) \<le> 4" and "num_blocks io \<noteq> 0"
  shows "ump_bdev_find_iopath c io = Inr (hash_select (hash_chose_id (max_id c) io) (iopath_list c))"
proof -
  have "length (iopath_list c) < 2 ^ 64" by (rule order.strict_trans1 [OF assms(3)]) simp
  then have "max_id c \<noteq> 0"
    using assms(1,2) of_nat_u64_inject [of "length (iopath_list c)" 0] by (simp add: ids_ok_def)
  then show ?thesis
    using assms(2,4) by (simp add: ump_bdev_find_iopath_def ump_find_iopath_hash_def)
qed

lemma find_path_member:
  assumes "channels_ok n (g_channels s)" and "c \<in> set (g_channels s)" and "p \<in> set (iopath_list c)"
  shows "find_path s (iop_addr p) = Some p"
proof -
  have "distinct (map iop_addr (all_paths s))"
    using assms(1) by (simp add: channels_ok_def all_paths_def)
  moreover have "p \<in> set (all_paths s)" using assms(2,3) by (auto simp: all_paths_def)
  ultimately show ?thesis by (simp add: find_path_def find_Some_iff_distinct)
qed

lemma find_channel_SomeD: "find_channel s ca = Some c \<Longrightarrow> c \<in> set (g_channels s) \<and> ch_addr c = ca"
  unfolding find_channel_def by (rule find_SomeD)

lemma find_channel_map:
  assumes "g_channels s' = map (\<lambda>c. c\<lparr>iopath_list := F (iopath_list c)\<rparr>) (g_channels s)"
  shows "find_channel s' ca = map_option (\<lambda>c. c\<lparr>iopath_list := F (iopath_list c)\<rparr>) (find_channel s ca)"
proof -
  have "List.find (\<lambda>x. ch_addr x = ca) (map (\<lambda>c. c\<lparr>iopath_list := F (iopath_list c)\<rparr>) cs) =
      map_option (\<lambda>c. c\<lparr>iopath_list := F (iopath_list c)\<rparr>) (List.find (\<lambda>x. ch_addr x = ca) cs)" for cs
    by (induction cs) auto
  then show ?thesis by (simp add: find_channel_def assms)
qed

lemma find_path_update:
  assumes "\<And>p. iop_addr (f p) = iop_addr p"
  shows "find_path (update_path a f s) b = map_option (\<lambda>p. if b = a then f p else p) (find_path s b)"
proof -
  have "all_paths (update_path a f s) = update_by iop_addr a f (all_paths s)"
    by (simp add: all_paths_def update_path_def update_by_def map_concat comp_def)
  then show ?thesis
    using find_key_update_by [of iop_addr f b a "all_paths s"] assms by (simp add: find_path_def)
qed

text \<open>The channels after the failing path has been marked and its probe set up.\<close>

definition marked :: "addr \<Rightarrow> (ump_bdev_iopath \<Rightarrow> ump_bdev_iopath) \<Rightarrow> bool" where
  "marked pa g \<longleftrightarrow> (\<forall>q. iop_addr (g q) = iop_addr q \<and> iop_id (g q) = iop_id q \<and>
     (iop_addr q \<noteq> pa \<longrightarrow> g q = q) \<and> (iop_addr q = pa \<longrightarrow> \<not> available (g q)))"

lemma marked_available:
  assumes "marked pa g"
  shows "q \<in> set (map g ps) \<and> available q \<longleftrightarrow> q \<in> set ps \<and> available q \<and> iop_addr q \<noteq> pa"
proof
  assume l: "q \<in> set (map g ps) \<and> available q"
  then obtain x where x: "x \<in> set ps" "q = g x" by auto
  have "iop_addr x \<noteq> pa" using assms l x(2) unfolding marked_def by blast
  moreover from this have "g x = x" using assms unfolding marked_def by blast
  ultimately show "q \<in> set ps \<and> available q \<and> iop_addr q \<noteq> pa" using l x by simp
next
  assume r: "q \<in> set ps \<and> available q \<and> iop_addr q \<noteq> pa"
  then have "g q = q" using assms unfolding marked_def by blast
  with r show "q \<in> set (map g ps) \<and> available q" by (metis image_eqI list.set_map)
qed

lemma failback_marks:
  assumes "ump_failback env pa io (update_path pa (\<lambda>q. q\<lparr>available := False\<rparr>) s) = Inr s1"
  obtains g where "marked pa g"
    "g_channels s1 = map (\<lambda>c. c\<lparr>iopath_list := map g (iopath_list c)\<rparr>) (g_channels s)"
  using assms
proof (cases rule: ump_failback_Inr)
  case Already
  show thesis
    by (rule that [of "\<lambda>q. if iop_addr q = pa then q\<lparr>available := False\<rparr> else q"])
      (auto simp: Already marked_def update_path_def update_by_def)
next
  case (Probe p pol ps)
  show thesis
    by (rule that [of "\<lambda>q. if iop_addr q = pa
          then q\<lparr>available := False, reconnecting := True, reconnect_poller := pol\<rparr> else q"])
      (auto simp: Probe(3) marked_def update_path_def update_by_def comp_def cong: if_cong)
qed

lemma ump_failback_succeeds:
  assumes "find_path s pa \<noteq> None" and "\<And>a. alloc_ok env a"
  shows "\<exists>s1. ump_failback env pa io (update_path pa (\<lambda>q. q\<lparr>available := False\<rparr>) s) = Inr s1"
  using assms by (auto simp: ump_failback_def find_path_update alloc_def Let_def split: prod.splits)

lemma submit_result:
  assumes "alloc_ok env (next_addr s)" and "find_channel s ca = Some c" and c: "ids_ok c"
    "iopath_list c \<noteq> []" "length (iopath_list c) \<le> 4" and "num_blocks io \<noteq> 0" and "length (io_counts s) = 4"
  shows "ump_bdev_submit_request env ca io s =
    (case hash_select (hash_chose_id (max_id c) io) (iopath_list c) of
       None \<Rightarrow> Inl NullDeref
     | Some p \<Rightarrow> Inr (s\<lparr>next_addr := Suc (next_addr s),
         io_counts := add_count (unat (iop_id p)) io (io_counts s),
         cctxs := (cctxs s)(next_addr s \<mapsto> \<lparr>cctx_ch = ca, real_caller_ctx = bio_caller_ctx io,
           real_completion_cb = bio_cb io, cctx_iopath = Some (iop_addr p)\<rparr>),
         in_flight := in_flight s @ [(io_channel p,
           io\<lparr>bio_cb := UmpIoCompletionCb, bio_caller_ctx := next_addr s\<rparr>)]\<rparr>))"
proof -
  have fc: "find_channel (s\<lparr>next_addr := n\<rparr>) ca = Some c" for n
    using assms(2) by (simp add: find_channel_def)
  have fi: "ump_bdev_find_iopath c (io\<lparr>bio_cb := x, bio_caller_ctx := y\<rparr>) =
      Inr (hash_select (hash_chose_id (max_id c) io) (iopath_list c))" for x y
    using find_iopath_select [OF c, of "io\<lparr>bio_cb := x, bio_caller_ctx := y\<rparr>"] assms(6)
    by (simp add: hash_chose_id_def)
  have lt: "unat (iop_id p) < 4" if "hash_select k (iopath_list c) = Some p" for k p
    using hash_select_SomeD [OF that] channel_paths_ok [OF c(1,3)] by blast
  show ?thesis
    using assms(1,7) lt
    by (auto simp: ump_bdev_submit_request_def alloc_def Let_def fc fi add_count_def split: option.splits)
qed

text \<open>The completion of a failed I/O: the path is marked and the I/O is submitted again on the channel.\<close>

lemma failed_completion:
  assumes "sump_inv s" and alloc: "\<And>a. alloc_ok env a" and i: "i < length (in_flight s)"
    and io: "in_flight s ! i = (x, io)" "bio_cb io = UmpIoCompletionCb"
    and ctx: "cctxs s (bio_caller_ctx io) = Some ctx" "cctx_iopath ctx = Some (iop_addr p)"
    and c: "find_channel s (cctx_ch ctx) = Some c" "p \<in> set (iopath_list c)"
  obtains t g where "marked (iop_addr p) g" "in_flight t = remove_nth i (in_flight s)"
    "g_channels t = map (\<lambda>c. c\<lparr>iopath_list := map g (iopath_list c)\<rparr>) (g_channels s)"
    "length (io_counts t) = 4" "ids_ok (c\<lparr>iopath_list := map g (iopath_list c)\<rparr>)"
    "complete_io env i now False s = ump_bdev_submit_request env (cctx_ch ctx)
       (io\<lparr>bio_cb := real_completion_cb ctx, bio_caller_ctx := real_caller_ctx ctx, submit_tsc := now\<rparr>) t"
proof -
  let ?s0 = "s\<lparr>in_flight := remove_nth i (in_flight s)\<rparr>" and ?pa = "iop_addr p"
  have cm: "c \<in> set (g_channels s)" and ch: "channels_ok (next_addr s) (g_channels s)" and ids: "ids_ok c"
    using find_channel_SomeD [OF c(1)] assms(1) c(2) by (auto simp: sump_inv_def channels_ok_def)
  have "find_path s ?pa = Some p" by (rule find_path_member [OF ch cm c(2)])
  then have fp: "find_path ?s0 ?pa = Some p" by (simp add: find_path_def all_paths_def)
  obtain s1 where s1: "ump_failback env ?pa io (update_path ?pa (\<lambda>q. q\<lparr>available := False\<rparr>) ?s0) = Inr s1"
    using ump_failback_succeeds [of ?s0 ?pa env io] fp alloc by auto
  obtain g where g: "marked ?pa g"
    "g_channels s1 = map (\<lambda>c. c\<lparr>iopath_list := map g (iopath_list c)\<rparr>) (g_channels s)"
    using failback_marks [OF s1] by auto
  note fr = ump_failback_frame [OF s1]
  show thesis
  proof (rule that [OF g(1), of "free_cctx (bio_caller_ctx io) s1"])
    show "complete_io env i now False s = ump_bdev_submit_request env (cctx_ch ctx)
       (io\<lparr>bio_cb := real_completion_cb ctx, bio_caller_ctx := real_caller_ctx ctx, submit_tsc := now\<rparr>)
       (free_cctx (bio_caller_ctx io) s1)"
      using i io ctx fp s1 by (simp add: complete_io_def ump_bdev_io_completion_cb_def Let_def)
    show "ids_ok (c\<lparr>iopath_list := map g (iopath_list c)\<rparr>)"
      using ids g(1) by (auto simp: ids_ok_def marked_def comp_def)
  qed (use fr g(2) assms(1) in \<open>simp_all add: free_cctx_def sump_inv_def\<close>)
qed

text \<open>C2. Failover, in a consistent state (\<open>sump_inv\<close>, which every reachable state is) while
  every allocation succeeds, on a channel that still exists and has at most four paths (the length of the array
  \<open>count\<close>) and for an I/O of at least one block. When an I/O fails on a path, the path is
  marked unavailable and, if another path of the channel is available, the I/O is submitted
  again on such a path, keeping the caller's own callback and context; if none is left the
  library dereferences a null pointer instead of completing the I/O with an error. The
  conditions are needed: a failed allocation loses the I/O (\<open>failed_allocation_loses_io\<close>), the
  fifth path of a channel writes outside \<open>count\<close> (\<open>channel_create_paths\<close>), and the hash
  divides by the number of blocks.\<close>

theorem failover:
  assumes "sump_inv s" and alloc: "\<And>a. alloc_ok env a" and i: "i < length (in_flight s)"
    and io: "in_flight s ! i = (x, io)" "bio_cb io = UmpIoCompletionCb" "num_blocks io \<noteq> 0"
    and ctx: "cctxs s (bio_caller_ctx io) = Some ctx" "cctx_iopath ctx = Some (iop_addr p)"
    and c: "find_channel s (cctx_ch ctx) = Some c" "p \<in> set (iopath_list c)" "length (iopath_list c) \<le> 4"
  shows "if \<exists>q \<in> set (iopath_list c). available q \<and> iop_addr q \<noteq> iop_addr p
    then \<exists>s' q a. complete_io env i now False s = Inr s' \<and>
      q \<in> set (iopath_list c) \<and> available q \<and> iop_addr q \<noteq> iop_addr p \<and>
      in_flight s' = remove_nth i (in_flight s) @
        [(io_channel q, io\<lparr>bio_caller_ctx := a, submit_tsc := now\<rparr>)] \<and>
      cctxs s' a = Some (ctx\<lparr>cctx_iopath := Some (iop_addr q)\<rparr>) \<and>
      (\<forall>r \<in> set (all_paths s'). iop_addr r = iop_addr p \<longrightarrow> \<not> available r)
    else complete_io env i now False s = Inl NullDeref"
proof -
  let ?pa = "iop_addr p" and ?P = "\<lambda>q. q \<in> set (iopath_list c) \<and> available q \<and> iop_addr q \<noteq> iop_addr p"
  let ?io = "io\<lparr>bio_cb := real_completion_cb ctx, bio_caller_ctx := real_caller_ctx ctx, submit_tsc := now\<rparr>"
  obtain t g where g: "marked ?pa g" and fl: "in_flight t = remove_nth i (in_flight s)"
    and gc: "g_channels t = map (\<lambda>c. c\<lparr>iopath_list := map g (iopath_list c)\<rparr>) (g_channels s)"
    and len: "length (io_counts t) = 4" and ids: "ids_ok (c\<lparr>iopath_list := map g (iopath_list c)\<rparr>)"
    and comp: "complete_io env i now False s = ump_bdev_submit_request env (cctx_ch ctx) ?io t"
    by (rule failed_completion [OF assms(1) alloc i io(1,2) ctx c(1,2)])
  let ?c' = "c\<lparr>iopath_list := map g (iopath_list c)\<rparr>"
  have fc: "find_channel t (cctx_ch ctx) = Some ?c'" using find_channel_map [OF gc] c(1) by simp
  have c': "iopath_list ?c' \<noteq> []" "length (iopath_list ?c') \<le> 4" using c(2,3) by auto
  note sub = submit_result [OF alloc fc ids c', of ?io, simplified, OF io(3) len]
  have av: "q' \<in> set (map g (iopath_list c)) \<and> available q' \<longleftrightarrow> ?P q'" for q'
    using g by (rule marked_available)
  show ?thesis
  proof (cases "hash_select (hash_chose_id (max_id c) ?io) (map g (iopath_list c))")
    case None
    then have "\<not> (\<exists>q \<in> set (iopath_list c). available q \<and> iop_addr q \<noteq> ?pa)" using hash_select_NoneD [OF None] av by blast
    with None show ?thesis using comp sub by simp
  next
    case (Some q)
    then have q: "?P q" using hash_select_SomeD [OF Some] av by blast
    obtain s' where s': "complete_io env i now False s = Inr s'" "g_channels s' = g_channels t"
        "in_flight s' = remove_nth i (in_flight s) @ [(io_channel q, io\<lparr>bio_caller_ctx := next_addr t, submit_tsc := now\<rparr>)]"
        "cctxs s' (next_addr t) = Some (ctx\<lparr>cctx_iopath := Some (iop_addr q)\<rparr>)"
      using comp sub Some fl io(2) by simp
    have "\<forall>r \<in> set (all_paths s'). iop_addr r = ?pa \<longrightarrow> \<not> available r"
      using g by (auto simp: all_paths_def s'(2) gc marked_def)
    with q s' show ?thesis by auto
  qed
qed

definition demo_submitted :: sump_state where
  "demo_submitted = sump_initial\<lparr>real_register_set := True,
     mbdevs := [\<lparr>mb_addr = 1, mb_bdev = mbdev_of demo_env 1 (sample_bdev 7 ''Nvme0n1''),
       spdk_bdev_list = [sample_bdev 7 ''Nvme0n1'', sample_bdev 7 ''Nvme1n1''], mb_freed = False\<rparr>],
     io_devices := [1], next_addr := 9,
     g_channels := [\<lparr>ch_addr = 4, iopath_list = demo_paths True False None, max_id = 2\<rparr>],
     io_counts := [4096, 0, 0, 0],
     pollers := [\<lparr>pl_addr = 5, pl_fn = UmpIoCountFn, pl_paused = False\<rparr>],
     io_count_poller := Some 5,
     cctxs := [8 \<mapsto> \<lparr>cctx_ch = 4, real_caller_ctx = 5, real_completion_cb = UpperCb 1,
       cctx_iopath = Some 6\<rparr>],
     in_flight := [(Some 6, demo_io 8 UmpIoCompletionCb)]\<rparr>"

lemma demo_submitted_run:
  "runR (sump_step demo_env) sump_initial (demo_setup @ [EvSubmit 4 (sample_io 0 8)]) = Inr demo_submitted"
  unfolding runR_append demo_setup_run
  by (simp add: demo_submitted_def demo_paths_def new_iopath_def ump_bdev_submit_request_def alloc_def
      find_channel_def ump_bdev_find_iopath_def ump_find_iopath_hash_def hash_select_def
      hash_chose_id_def add_count_def demo_io_def sample_io_def sump_initial_def Let_def)

theorem failover_witness:
  "\<exists>s' a. complete_io demo_env 0 3 False demo_submitted = Inr s' \<and>
     in_flight s' = [(Some 7, (demo_io a UmpIoCompletionCb)\<lparr>submit_tsc := 3\<rparr>)] \<and>
     cctxs s' a = Some \<lparr>cctx_ch = 4, real_caller_ctx = 5, real_completion_cb = UpperCb 1, cctx_iopath = Some 7\<rparr>"
proof -
  let ?c = "\<lparr>ch_addr = 4, iopath_list = demo_paths True False None, max_id = 2\<rparr>"
  let ?p = "(new_iopath 6 (Some 6) (sample_bdev 7 ''Nvme0n1'') 0)
       \<lparr>available := True, reconnecting := False, reconnect_poller := None\<rparr>"
  let ?io = "demo_io 8 UmpIoCompletionCb"
  let ?ctx = "\<lparr>cctx_ch = 4, real_caller_ctx = 5, real_completion_cb = UpperCb 1, cctx_iopath = Some 6\<rparr>"
  have inv: "sump_inv demo_submitted"
    by (rule sump.run_inv [OF sump_inv_initial demo_submitted_run])
  have i: "0 < length (in_flight demo_submitted)" "in_flight demo_submitted ! 0 = (Some 6, ?io)"
    by (simp_all add: demo_submitted_def)
  have io: "bio_cb ?io = UmpIoCompletionCb" "num_blocks ?io \<noteq> 0" by (simp_all add: demo_io_def)
  have x: "cctxs demo_submitted (bio_caller_ctx ?io) = Some ?ctx" "cctx_iopath ?ctx = Some (iop_addr ?p)"
    by (simp_all add: demo_submitted_def demo_io_def)
  have c: "find_channel demo_submitted (cctx_ch ?ctx) = Some ?c" "?p \<in> set (iopath_list ?c)"
      "length (iopath_list ?c) \<le> 4"
    by (simp_all add: demo_submitted_def find_channel_def demo_paths_def)
  have b: "\<exists>q \<in> set (iopath_list ?c). available q \<and> iop_addr q \<noteq> iop_addr ?p"
    by (simp add: demo_paths_def)
  show ?thesis
    using failover [OF inv demo_env_simps(1) i(1,2) io x c, where now = 3] b
    by (auto simp: demo_paths_def demo_submitted_def remove_nth_def demo_io_def)
qed

section \<open>The life of a failed path\<close>

definition lost :: "addr \<Rightarrow> sump_state \<Rightarrow> bool" where
  "lost pa s \<longleftrightarrow> pa < next_addr s \<and>
     (\<forall>q \<in> set (all_paths s). iop_addr q = pa \<longrightarrow> reconnecting q \<and> \<not> available q) \<and>
     (\<forall>fa ctx. fctxs s fa = Some ctx \<longrightarrow> fb_iopath ctx \<noteq> pa)"

lemma all_paths_update_path: "all_paths (update_path a f s) = update_by iop_addr a f (all_paths s)"
  by (simp add: all_paths_def update_path_def update_by_def map_concat comp_def)

lemma lost_update_path:
  assumes "lost pa s" and "\<And>p. iop_addr (f p) = iop_addr p"
    and "\<And>p. a = pa \<Longrightarrow> reconnecting p \<and> \<not> available p \<Longrightarrow> reconnecting (f p) \<and> \<not> available (f p)"
  shows "lost pa (update_path a f s)"
  using assms by (auto simp: lost_def all_paths_update_path set_update_by split: if_splits)

lemma lost_frame:
  assumes "lost pa s" and "g_channels s' = g_channels s" and "fctxs s' = fctxs s" and "next_addr s \<le> next_addr s'"
  shows "lost pa s'"
  using assms by (auto simp: lost_def all_paths_def)

lemma lost_fewer_paths:
  assumes "lost pa s" and "\<And>q. q \<in> set (all_paths s') \<Longrightarrow> q \<in> set (all_paths s) \<or> pa < iop_addr q"
    and "fctxs s' = fctxs s" and "next_addr s \<le> next_addr s'"
  shows "lost pa s'"
  using assms by (fastforce simp: lost_def)

lemma lost_submit:
  assumes "ump_bdev_submit_request env ca io s = Inr s'" and "lost pa s"
  shows "lost pa s'"
  using assms(1) by (cases rule: ump_bdev_submit_request_Inr) (auto intro: lost_frame [OF assms(2)])

lemma lost_failback:
  assumes "ump_failback env a io s = Inr s'" and "lost pa s"
  shows "lost pa s'"
  using assms(1)
proof (cases rule: ump_failback_Inr)
  case (Probe p pol ps)
  have "a \<noteq> pa"
    using find_SomeD [OF Probe(1) [unfolded find_path_def]] Probe(2) assms(2) by (auto simp: lost_def)
  then have "lost pa (update_path a (\<lambda>q. q\<lparr>reconnect_poller := pol\<rparr>)
              (update_path a (\<lambda>q. q\<lparr>reconnecting := True\<rparr>) s))"
    by (intro lost_update_path assms(2)) auto
  with \<open>a \<noteq> pa\<close> show ?thesis
    by (auto simp: Probe(3) lost_def all_paths_def split: if_splits)
qed (use assms(2) in simp)

lemma lost_completion:
  assumes "ump_bdev_io_completion_cb env now io success a s = Inr s'" and "lost pa s"
  shows "lost pa s'"
  using assms(1)
proof (cases rule: ump_bdev_io_completion_cb_Inr)
  case (Done ctx pa' s1)
  have n: "lost pa (s\<lparr>next_addr := Suc (next_addr s)\<rparr>)" by (rule lost_frame [OF assms(2)]) simp_all
  then have "lost pa (update_path pa' (record_time now io) (s\<lparr>next_addr := Suc (next_addr s)\<rparr>))"
    by (rule lost_update_path) (auto simp: record_time_def Let_def)
  with n have s1: "lost pa s1" using update_io_time_Inr [OF Done(4)] by auto
  have "lost pa (update_path pa' (\<lambda>q. q\<lparr>io_incomplete := io_incomplete q - 1\<rparr>) s1)"
    using s1 by (rule lost_update_path) auto
  then show ?thesis unfolding Done(6) by (rule lost_frame) (simp_all add: free_cctx_def)
next
  case (Retry ctx pa' s1)
  have "lost pa (update_path pa' (\<lambda>q. q\<lparr>available := False\<rparr>) s)"
    using assms(2) by (rule lost_update_path) auto
  then have "lost pa s1" using lost_failback [OF Retry(5)] by blast
  then have "lost pa (free_cctx a s1)" by (rule lost_frame) (simp_all add: free_cctx_def)
  then show ?thesis by (rule lost_submit [OF Retry(6)])
qed

lemma lost_probe:
  assumes "ump_failback_io_completion_cb success fa s = Inr s'" and "lost pa s"
  shows "lost pa s'"
  using assms(1)
proof (cases rule: ump_failback_io_completion_cb_Inr)
  case (Back ctx p a)
  then have "lost pa (update_path (fb_iopath ctx) (\<lambda>q. q\<lparr>available := True\<rparr>) s)"
    using assms(2) by (intro lost_update_path) (auto simp: lost_def)
  then show ?thesis by (auto simp: Back(5) lost_def all_paths_def split: if_splits)
qed (use assms(2) in simp)

lemma lost_complete_io:
  assumes "complete_io env i now success s = Inr s'" and "lost pa s"
  shows "lost pa s'"
proof -
  have "lost pa (s\<lparr>in_flight := fl\<rparr>)" for fl by (rule lost_frame [OF assms(2)]) simp_all
  moreover have "lost pa (s\<lparr>in_flight := fl, callbacks := x\<rparr>)" for fl x
    by (rule lost_frame [OF assms(2)]) simp_all
  ultimately show ?thesis
    using assms by (auto simp: complete_io_def Let_def split: if_splits io_cb.splits
        intro: lost_completion lost_probe)
qed

lemma add_to_first_channel_new:
  assumes "add_to_first_channel u mk fr cs = Inr (Some cs')"
    and "q \<in> set (concat (map iopath_list cs'))"
  shows "q \<in> set (concat (map iopath_list cs)) \<or> (\<exists>i. q = mk i)"
  using assms
proof (induction cs arbitrary: cs')
  case (Cons c cs)
  show ?case
  proof (cases "\<exists>p \<in> set (iopath_list c). bd_uuid (iop_bdev p) = u")
    case True
    then have "cs' = append_path (mk (max_id c)) c # cs" using Cons.prems(1) by (auto split: if_splits)
    then show ?thesis using Cons.prems(2) by auto
  next
    case False
    then obtain ds where "add_to_first_channel u mk fr cs = Inr (Some ds)" "cs' = c # ds"
      using Cons.prems(1) by (auto split: if_splits simp: bindR_eq_Inr)
    then show ?thesis using Cons by auto
  qed
qed simp

lemma lost_register:
  assumes "spdk_bdev_register env b s = Inr (rc, s')" and "lost pa s"
  shows "lost pa s'"
proof -
  have con: "lost pa t'" if "ump_bdev_construct env b t = (rc, t')" "lost pa t" for t t' rc
    using that(1) by (auto simp: ump_bdev_construct_def alloc_def Let_def split: if_splits
        intro!: lost_frame [OF that(2)])
  have add: "lost pa t'" if a: "ump_bdev_add_bdev env a b t = Inr (rc, t')" and l: "lost pa t" for a t t' rc
  proof -
    have "(g_channels t' = g_channels t \<or>
        (\<exists>u x fr. add_to_first_channel u (\<lambda>i. new_iopath (Suc (next_addr t)) x b i) fr (g_channels t) =
           Inr (Some (g_channels t')))) \<and> fctxs t' = fctxs t \<and> next_addr t \<le> next_addr t'"
      using a
      by (fastforce simp: ump_bdev_add_bdev_def alloc_def Let_def inr_simps
          split: if_splits option.split_asm)
    then have f: "fctxs t' = fctxs t" "next_addr t \<le> next_addr t'"
      and g: "g_channels t' = g_channels t \<or> (\<exists>u x fr. add_to_first_channel u
           (\<lambda>i. new_iopath (Suc (next_addr t)) x b i) fr (g_channels t) = Inr (Some (g_channels t')))"
      by simp_all
    have "q \<in> set (all_paths t) \<or> pa < iop_addr q" if "q \<in> set (all_paths t')" for q
      using g that l by (auto simp: all_paths_def lost_def dest!: add_to_first_channel_new)
    then show ?thesis using f by (intro lost_fewer_paths [OF l]) auto
  qed
  define s1 where "s1 = (if real_register_set s then s else ump_init env s)"
  have s1: "lost pa s1" using assms(2) by (auto simp: s1_def ump_init_def lost_def all_paths_def)
  show ?thesis
    using assms(1) con add s1
    by (cases "get_ump_bdev_by_uuid (mbdevs s1) (bd_uuid b)")
      (auto simp: spdk_bdev_register_def Let_def split: if_splits option.splits simp flip: s1_def)
qed

lemma lost_channel_create:
  assumes "channel_create env ma s = Inr s'" and "lost pa s" and "sump_inv s"
  shows "lost pa s'"
proof (cases "List.find (\<lambda>m. mb_addr m = ma \<and> \<not> mb_freed m) (mbdevs s)")
  case None
  with assms show ?thesis by (simp add: channel_create_def)
next
  case (Some m)
  let ?s1 = "s\<lparr>next_addr := Suc (next_addr s)\<rparr>"
  obtain rc s2 where c: "ump_bdev_channel_create_cb env m (next_addr s) ?s1 = Inr (rc, s2)"
    and s': "s' = (if rc = 0 then s2 else s2\<lparr>freed_channels := next_addr s # freed_channels s2\<rparr>)"
    using assms(1) Some by (auto simp: channel_create_def Let_def bindR_eq_Inr)
  have n: "next_addr s \<notin> ch_addr ` set (g_channels ?s1)"
    using assms(3) by (auto simp: sump_inv_def channels_ok_def)
  have "lost pa s2"
  proof (rule ump_bdev_channel_create_cb_cases [OF c n])
    fix d n k p ps ok pol
    assume s2: "s2 = ?s1\<lparr>next_addr := n, io_counts := k, put_channels := p, pollers := ps,
        io_count_poller := pol, g_channels := g_channels ?s1 @ [if ok then d else d\<lparr>iopath_list := []\<rparr>]\<rparr>"
      and b: "building (Suc (next_addr ?s1)) n d" and le: "Suc (next_addr ?s1) \<le> n"
    have "pa < iop_addr q" if "q \<in> set (iopath_list d)" for q
      using b assms(2) that by (auto simp: building_def lost_def)
    then show ?thesis
      using le by (intro lost_fewer_paths [OF assms(2)]) (auto simp: s2 all_paths_def split: if_splits)
  qed
  then show ?thesis by (simp add: s' lost_def all_paths_def)
qed

lemma lost_step:
  assumes "sump_inv s" and "lost pa s" and "sump_step env s e = Inr s'"
  shows "lost pa s'"
proof (cases e)
  case (EvRegister b)
  with assms show ?thesis by (auto simp: bindR_eq_Inr intro: lost_register)
next
  case (EvChannelCreate ma)
  with assms show ?thesis by (auto intro: lost_channel_create)
next
  case (EvChannelDestroy ca)
  then have "s' = s \<or> ump_bdev_channel_destroy_cb ca s = Inr s'" using assms(3) by (auto split: if_splits)
  then show ?thesis
    using assms(2)
    by (auto simp: ump_bdev_channel_destroy_cb_def Let_def spdk_poller_unregister_def all_paths_def
        ump_bdev_channel_clear_all_iopath_def inr_simps split: option.splits
        intro!: lost_fewer_paths [OF assms(2)])
next
  case (EvSubmit ca io)
  with assms show ?thesis by (auto split: if_splits intro: lost_submit)
next
  case (EvComplete i now success)
  with assms show ?thesis by (auto intro: lost_complete_io)
next
  case (EvPoll a)
  have "lost pa t" if "ump_io_count_fn s = Inr t" for t
  proof -
    have "\<forall>q \<in> set (all_paths t). iop_addr q = pa \<longrightarrow> reconnecting q \<and> \<not> available q"
      using that assms(2) by (auto simp: ump_io_count_fn_def lost_def all_paths_def split: if_splits)
    moreover have "fctxs t = fctxs s" "next_addr t = next_addr s"
      using that by (auto simp: ump_io_count_fn_def split: if_splits)
    ultimately show ?thesis using assms(2) by (simp add: lost_def)
  qed
  moreover have "lost pa t" if "ump_failback_io_fn fa s = Inr t" for fa t
  proof -
    from that obtain ctx io where ctx: "fctxs s fa = Some ctx"
      and t: "fctxs t = (fctxs s)(fa \<mapsto> ctx\<lparr>fb_bdev_io := io\<rparr>)" "g_channels t = g_channels s"
        "next_addr t = next_addr s"
      by (auto simp: ump_failback_io_fn_def inr_simps Let_def)
    from ctx have "fb_iopath ctx \<noteq> pa" using assms(2) unfolding lost_def by blast
    then have "\<forall>x c. fctxs t x = Some c \<longrightarrow> fb_iopath c \<noteq> pa"
      using assms(2) by (simp add: t lost_def)
    then show ?thesis using assms(2) by (simp add: lost_def all_paths_def t)
  qed
  ultimately show ?thesis
    using assms(2,3) EvPoll by (auto simp: poll_once_def split: option.splits poller_fn.splits)
qed

interpretation lost: stepper "sump_step env" "\<lambda>s. sump_inv s \<and> lost pa s" for env pa
  by unfold_locales (auto intro: sump.step_inv lost_step)

text \<open>C7. A path that was brought back once is lost for good when it fails again: the flag
  \<open>reconnecting\<close> is never cleared, so the second failure sets up no probe, and after it no
  sequence of events whatever makes the path available again.\<close>

theorem second_failure_loses_path:
  assumes "sump_inv s" and "find_path s pa = Some p" and "reconnecting p"
    and "\<forall>fa ctx. fctxs s fa = Some ctx \<longrightarrow> fb_iopath ctx \<noteq> pa"
    and "in_flight s ! i = (x, io)" "i < length (in_flight s)" "bio_cb io = UmpIoCompletionCb"
    and "cctxs s (bio_caller_ctx io) = Some ctx" "cctx_iopath ctx = Some pa"
    and "runR (sump_step env) s (EvComplete i now False # es) = Inr s'"
  shows "\<forall>q \<in> set (all_paths s'). iop_addr q = pa \<longrightarrow> \<not> available q"
proof -
  let ?s0 = "s\<lparr>in_flight := remove_nth i (in_flight s)\<rparr>"
  obtain s1 where c: "complete_io env i now False s = Inr s1" and r: "runR (sump_step env) s1 es = Inr s'"
    using assms(10) by (auto simp: bindR_eq_Inr)
  have inv: "sump_inv s1" by (rule complete_io_inv [OF c assms(1)])
  have d: "distinct (map iop_addr (all_paths s))"
    using assms(1) by (simp add: sump_inv_def channels_ok_def all_paths_def)
  have p: "\<forall>q \<in> set (all_paths s). iop_addr q = pa \<longrightarrow> q = p" "p \<in> set (all_paths s)" "iop_addr p = pa"
    using assms(2) d by (auto simp: find_path_def find_Some_iff_distinct distinct_map dest: inj_onD)
  have all0: "all_paths ?s0 = all_paths s" by (simp add: all_paths_def)
  have n: "pa < next_addr s"
    using p(2,3) assms(1) by (auto simp: sump_inv_def channels_ok_def all_paths_def path_ok_def)
  have l: "lost pa (update_path pa (\<lambda>q. q\<lparr>available := False\<rparr>) ?s0)"
  proof -
    have "reconnecting q \<and> \<not> available q"
      if q: "q \<in> set (update_by iop_addr pa (\<lambda>q. q\<lparr>available := False\<rparr>) (all_paths s))" "iop_addr q = pa" for q
    proof -
      obtain y where "y \<in> set (all_paths s)" "q = (if iop_addr y = pa then y\<lparr>available := False\<rparr> else y)"
        using q(1) by (auto simp: set_update_by)
      with q(2) p(1) assms(3) show ?thesis by (cases "iop_addr y = pa") auto
    qed
    with n assms(4) show ?thesis by (simp add: lost_def all_paths_update_path all0)
  qed
  have "ump_bdev_io_completion_cb env now io False (bio_caller_ctx io) ?s0 = Inr s1"
    using c assms(5-7) by (simp add: complete_io_def Let_def)
  then have "lost pa s1"
  proof (cases rule: ump_bdev_io_completion_cb_Inr)
    case (Retry ctx' pa' s2)
    then have "pa' = pa" using assms(8,9) by simp
    then have "lost pa s2" using lost_failback [OF Retry(5)] l by simp
    then have "lost pa (free_cctx (bio_caller_ctx io) s2)"
      by (rule lost_frame) (simp_all add: free_cctx_def)
    then show ?thesis by (rule lost_submit [OF Retry(6)])
  qed simp
  with inv have "sump_inv s1 \<and> lost pa s1" by simp
  from lost.run_inv [OF this r] show ?thesis by (auto simp: lost_def)
qed

definition demo_recovery :: "sump_event list" where
  "demo_recovery = [EvComplete 0 2 True, EvPoll 11, EvComplete 0 2 True, EvSubmit 4 (sample_io 0 8)]"

definition demo_recovered :: sump_state where
  "demo_recovered = demo_failed_over\<lparr>next_addr := 15,
     g_channels := [\<lparr>ch_addr = 4, iopath_list =
       [(new_iopath 6 (Some 6) (sample_bdev 7 ''Nvme0n1'') 0)
          \<lparr>available := True, reconnecting := True, reconnect_poller := Some 11\<rparr>,
        (new_iopath 7 (Some 7) (sample_bdev 7 ''Nvme1n1'') 1)
          \<lparr>io_read_time := \<lparr>time_list = [2], tq_len = 1, io_time_all = 2, io_time_avg = 2\<rparr>,
           io_incomplete := - 1\<rparr>], max_id = 2\<rparr>],
     io_counts := [8192, 4096, 0, 0],
     pollers := [\<lparr>pl_addr = 5, pl_fn = UmpIoCountFn, pl_paused = False\<rparr>,
       \<lparr>pl_addr = 11, pl_fn = UmpFailbackIoFn 9, pl_paused = True\<rparr>],
     cctxs := [14 \<mapsto> \<lparr>cctx_ch = 4, real_caller_ctx = 5, real_completion_cb = UpperCb 1,
       cctx_iopath = Some 6\<rparr>],
     fctxs := Map.empty,
     callbacks := [(UpperCb 1, 5, True)],
     in_flight := [(Some 6, demo_io 14 UmpIoCompletionCb)]\<rparr>"

lemmas demo_eval = demo_failed_over_def demo_paths_def new_iopath_def ump_bdev_submit_request_def
  alloc_def find_channel_def ump_bdev_find_iopath_def ump_find_iopath_hash_def hash_select_def
  hash_chose_id_def add_count_def complete_io_def remove_nth_def ump_bdev_io_completion_cb_def
  find_path_def all_paths_def update_path_def update_io_time_def record_time_def
  update_io_time_detail_def ump_time_queue_init_def tq_zero_def free_cctx_def demo_io_def
  sample_io_def sump_initial_def poll_once_def ump_failback_io_fn_def ump_failback_def
  ump_failback_io_completion_cb_def spdk_poller_pause_def Let_def

lemma demo_recovery_run:
  "runR (sump_step demo_env) sump_initial (demo_failover @ demo_recovery) = Inr demo_recovered"
  unfolding runR_append demo_failover_run
  by (simp add: demo_recovery_def demo_recovered_def demo_eval)

theorem second_failure_loses_path_witness:
  "\<exists>s'. runR (sump_step demo_env) demo_recovered [EvComplete 0 5 False, EvPoll 11, EvPoll 5] = Inr s' \<and>
     (\<forall>q \<in> set (all_paths s'). iop_addr q = 6 \<longrightarrow> \<not> available q)"
proof -
  have inv: "sump_inv demo_recovered"
    by (rule sump.run_inv [OF sump_inv_initial demo_recovery_run])
  let ?p = "(new_iopath 6 (Some 6) (sample_bdev 7 ''Nvme0n1'') 0)
          \<lparr>available := True, reconnecting := True, reconnect_poller := Some 11\<rparr>"
  let ?io = "demo_io 14 UmpIoCompletionCb"
  let ?ctx = "\<lparr>cctx_ch = 4, real_caller_ctx = 5, real_completion_cb = UpperCb 1, cctx_iopath = Some 6\<rparr>"
  have f: "find_path demo_recovered 6 = Some ?p" "reconnecting ?p"
    "\<forall>fa ctx. fctxs demo_recovered fa = Some ctx \<longrightarrow> fb_iopath ctx \<noteq> 6"
    by (simp_all add: demo_recovered_def find_path_def all_paths_def)
  have i: "in_flight demo_recovered ! 0 = (Some 6, ?io)" "0 < length (in_flight demo_recovered)"
    "bio_cb ?io = UmpIoCompletionCb"
    by (simp_all add: demo_recovered_def demo_io_def)
  have c: "cctxs demo_recovered (bio_caller_ctx ?io) = Some ?ctx" "cctx_iopath ?ctx = Some 6"
    by (simp_all add: demo_recovered_def demo_io_def)
  obtain s' where r: "runR (sump_step demo_env) demo_recovered [EvComplete 0 5 False, EvPoll 11, EvPoll 5] = Inr s'"
    by (simp add: demo_recovered_def demo_eval ump_io_count_fn_def)
  with second_failure_loses_path [OF inv f i c r] show ?thesis by blast
qed

text \<open>C19. A probe is sent at every tick of its poller, also while an earlier one is still out,
  and the first probe to succeed frees the context all of them carry: when a second one
  succeeds too, the library uses the freed context.\<close>

theorem second_probe_success_uses_freed_context:
  assumes "i < length (in_flight s)" and "in_flight s ! i = (x, io)" and "bio_cb io = UmpFailbackCb"
    and "complete_io env i now True s = Inr s1"
    and "j < length (in_flight s1)" and "in_flight s1 ! j = (y, io')" and "bio_cb io' = UmpFailbackCb"
    and "bio_caller_ctx io' = bio_caller_ctx io"
  shows "complete_io env j now' True s1 = Inl UseAfterFree"
proof -
  let ?s0 = "s\<lparr>in_flight := remove_nth i (in_flight s)\<rparr>"
  have "ump_failback_io_completion_cb True (bio_caller_ctx io) ?s0 = Inr s1"
    using assms(1-4) by (simp add: complete_io_def Let_def)
  then have "fctxs s1 (bio_caller_ctx io) = None"
    by (cases rule: ump_failback_io_completion_cb_Inr) auto
  then show ?thesis
    using assms(5-8) by (simp add: complete_io_def Let_def ump_failback_io_completion_cb_def)
qed

definition demo_probes :: sump_state where
  "demo_probes = demo_failed_over\<lparr>
     fctxs := [9 \<mapsto> \<lparr>fb_iopath = 6, fb_bdev_io = demo_io 9 UmpFailbackCb\<rparr>],
     in_flight := [(Some 7, demo_io 12 UmpIoCompletionCb), (Some 6, demo_io 9 UmpFailbackCb),
       (Some 6, demo_io 9 UmpFailbackCb)]\<rparr>"

lemma demo_probes_run:
  "runR (sump_step demo_env) sump_initial (demo_failover @ [EvPoll 11, EvPoll 11]) = Inr demo_probes"
  unfolding runR_append demo_failover_run
  by (simp add: demo_probes_def demo_eval)

theorem second_probe_success_uses_freed_context_witness:
  "runR (sump_step demo_env) sump_initial
     (demo_failover @ [EvPoll 11, EvPoll 11, EvComplete 1 7 True, EvComplete 1 8 True]) = Inl UseAfterFree"
proof -
  obtain s1 where s1: "complete_io demo_env 1 7 True demo_probes = Inr s1"
    and j: "1 < length (in_flight s1)" "in_flight s1 ! 1 = (Some 6, demo_io 9 UmpFailbackCb)"
    by (simp add: demo_probes_def demo_eval)
  have i: "1 < length (in_flight demo_probes)" "in_flight demo_probes ! 1 = (Some 6, demo_io 9 UmpFailbackCb)"
    "bio_cb (demo_io 9 UmpFailbackCb) = UmpFailbackCb"
    by (simp_all add: demo_probes_def demo_io_def)
  have "complete_io demo_env 1 8 True s1 = Inl UseAfterFree"
    by (rule second_probe_success_uses_freed_context [OF i s1 j i(3) refl])
  then show ?thesis
    using s1 runR_append [of "sump_step demo_env" sump_initial "demo_failover @ [EvPoll 11, EvPoll 11]"
        "[EvComplete 1 7 True, EvComplete 1 8 True]"] demo_probes_run by simp
qed

end
