(* ===== verification/Sump_Props.thy ===== *)
theory Sump_Props
  imports Sump_Flow
begin

text \<open>
  Properties of single operations of the multi-path library: the latency window, the state
  every run reaches, registration, channel creation, paths added later.
\<close>

section \<open>The latency window\<close>

lemma fold_update_wf: "tq_wf q \<Longrightarrow> tq_wf (fold update_io_time_detail ts q)"
  by (induction ts arbitrary: q) simp_all

lemma fold_update_list:
  assumes "tq_wf q"
  shows "time_list (fold update_io_time_detail ts q) =
    drop (length (time_list q) + length ts - 20) (time_list q @ ts)"
  using assms
proof (induction ts arbitrary: q)
  case Nil
  then show ?case by (simp add: tq_wf_def)
next
  case (Cons t ts)
  let ?q = "update_io_time_detail t q" and ?n = "length (time_list q)"
  have l: "time_list ?q = drop (?n - 19) (time_list q @ [t])" and n: "?n \<le> 20"
    using Cons.prems time_list_update by (simp_all add: tq_wf_def)
  have "time_list (fold update_io_time_detail ts ?q) =
      drop (length (time_list ?q) + length ts - 20) (time_list ?q @ ts)"
    using Cons.prems by (intro Cons.IH) simp
  also have "\<dots> = drop (?n + length (t # ts) - 20) (time_list q @ t # ts)"
  proof (cases "?n \<le> 19")
    case True
    then show ?thesis using l by simp
  next
    case False
    with n have "?n = 20" by simp
    then obtain x xs where "time_list q = x # xs" "length xs = 19" by (cases "time_list q") auto
    with l show ?thesis by (simp add: Suc_diff_le)
  qed
  finally show ?case by simp
qed

text \<open>After any sequence of latencies the window of a path holds the last twenty of them, in
  order, and the average is their sum (modulo \<open>2^64\<close>) divided by their number.\<close>

theorem latency_window:
  "let q = fold update_io_time_detail ts tq_zero in
     time_list q = drop (length ts - 20) ts \<and>
     io_time_avg q = sum_list (time_list q) div of_nat (min 20 (length ts))"
proof -
  let ?q = "fold update_io_time_detail ts tq_zero"
  have l: "time_list ?q = drop (length ts - 20) ts"
    using fold_update_list [OF tq_wf_zero, of ts] by (simp only: tq_zero_def time_queue.simps) simp
  have "tq_wf ?q" by (simp add: fold_update_wf)
  then have a: "io_time_avg ?q = sum_list (time_list ?q) div of_nat (length (time_list ?q))"
    by (simp add: tq_wf_def)
  have "length (time_list ?q) = min 20 (length ts)" by (simp add: l)
  with a l show ?thesis by (simp only: Let_def)
qed

section \<open>Every reachable state\<close>

text \<open>C13. In every state the library can reach, whatever allocations fail and whatever the
  lower devices answer: path addresses and channel addresses are distinct, the ids of a
  channel's paths are their positions in its queue, no two aggregated devices share a uuid,
  every device under an aggregated device has its uuid, every latency window is
  consistent and every I/O in flight has a completion context of its own.\<close>

theorem reachable_states_consistent:
  assumes "runR (sump_step env) sump_initial es = Inr s"
  shows "distinct (map iop_addr (all_paths s)) \<and> distinct (map ch_addr (g_channels s)) \<and>
    (\<forall>c \<in> set (g_channels s). iopath_list c = [] \<or> ids_ok c) \<and>
    distinct (map (\<lambda>m. bd_uuid (mb_bdev m)) (mbdevs s)) \<and>
    (\<forall>m \<in> set (mbdevs s). spdk_bdev_list m \<noteq> [] \<and>
       (\<forall>b \<in> set (spdk_bdev_list m). bd_uuid b = bd_uuid (mb_bdev m))) \<and>
    (\<forall>p \<in> set (all_paths s). tq_wf (io_read_time p) \<and> tq_wf (io_write_time p)) \<and>
    distinct (flight_ctxs (in_flight s)) \<and> set (flight_ctxs (in_flight s)) \<subseteq> dom (cctxs s)"
proof -
  have "sump_inv s" by (rule sump.run_inv [OF sump_inv_initial assms])
  then show ?thesis
    by (auto simp: sump_inv_def channels_ok_def mbdevs_ok_def flight_ok_def all_paths_def path_ok_def)
qed

theorem reachable_states_consistent_witness:
  "distinct (map iop_addr (all_paths demo_recovered)) \<and>
   set (flight_ctxs (in_flight demo_recovered)) \<subseteq> dom (cctxs demo_recovered)"
  using reachable_states_consistent [OF demo_recovery_run] by blast

section \<open>Registration\<close>

lemma get_ump_bdev_freed:
  assumes "\<forall>m \<in> set ms. bd_uuid (mb_bdev m) \<noteq> u" and "\<exists>m \<in> set ms. mb_freed m"
  shows "get_ump_bdev_by_uuid ms u = Inl UseAfterFree"
  using assms by (induction ms) auto

lemma get_ump_bdev_None_all:
  "get_ump_bdev_by_uuid ms u = Inr None \<Longrightarrow> \<forall>m \<in> set ms. \<not> mb_freed m \<and> bd_uuid (mb_bdev m) \<noteq> u"
  by (induction ms) (auto split: if_splits)

text \<open>A registration that the block layer refuses frees the aggregated device but leaves it
  in the global list: it returns the error, and from then on registering any device whose
  uuid is not found before it reads freed memory.\<close>

theorem refused_registration_dangles:
  assumes "real_register_set s" and "get_ump_bdev_by_uuid (mbdevs s) (bd_uuid b) = Inr None"
    and "\<And>a. alloc_ok env a" and "lower_bdev_register env (mbdev_of env (next_addr s) b) = rc" and "rc \<noteq> 0"
  shows "\<exists>s'. spdk_bdev_register env b s = Inr (rc, s') \<and>
    (\<forall>b'. bd_uuid b' \<noteq> bd_uuid b \<and> (\<forall>m \<in> set (mbdevs s). bd_uuid (mb_bdev m) \<noteq> bd_uuid b') \<longrightarrow>
       spdk_bdev_register env b' s' = Inl UseAfterFree) \<and>
    spdk_bdev_register env b s' = Inl UseAfterFree"
proof -
  let ?m = "\<lparr>mb_addr = next_addr s, mb_bdev = mbdev_of env (next_addr s) b, spdk_bdev_list = [b], mb_freed = True\<rparr>"
  obtain s' where s': "spdk_bdev_register env b s = Inr (rc, s')" "mbdevs s' = mbdevs s @ [?m]"
    "real_register_set s'"
    using assms by (simp add: spdk_bdev_register_def ump_bdev_construct_def alloc_def Let_def)
  have "spdk_bdev_register env b' s' = Inl UseAfterFree"
    if "bd_uuid b' \<noteq> bd_uuid b" "\<forall>m \<in> set (mbdevs s). bd_uuid (mb_bdev m) \<noteq> bd_uuid b'" for b'
    using get_ump_bdev_freed [of "mbdevs s'" "bd_uuid b'"] that s'(2,3)
    by (simp add: spdk_bdev_register_def)
  moreover have "get_ump_bdev_by_uuid (mbdevs s') (bd_uuid b) = Inl UseAfterFree"
  proof -
    have "\<forall>m \<in> set (mbdevs s). \<not> mb_freed m \<and> bd_uuid (mb_bdev m) \<noteq> bd_uuid b"
      using assms(2) by (rule get_ump_bdev_None_all)
    moreover have "get_ump_bdev_by_uuid (ms @ [?m]) (bd_uuid b) = Inl UseAfterFree"
      if "\<forall>m \<in> set ms. \<not> mb_freed m \<and> bd_uuid (mb_bdev m) \<noteq> bd_uuid b" for ms
      using that by (induction ms) auto
    ultimately show ?thesis by (simp add: s'(2))
  qed
  ultimately show ?thesis using s' by (auto simp: spdk_bdev_register_def)
qed

theorem refused_registration_dangles_witness:
  "\<exists>s'. spdk_bdev_register (demo_env\<lparr>lower_bdev_register := \<lambda>_. - 17\<rparr>) (sample_bdev 7 ''a'')
      (sump_initial\<lparr>real_register_set := True\<rparr>) = Inr (- 17, s') \<and>
    spdk_bdev_register (demo_env\<lparr>lower_bdev_register := \<lambda>_. - 17\<rparr>) (sample_bdev 8 ''b'') s' = Inl UseAfterFree"
proof -
  let ?env = "demo_env\<lparr>lower_bdev_register := \<lambda>_. - 17\<rparr>" and ?s = "sump_initial\<lparr>real_register_set := True\<rparr>"
  have h: "real_register_set ?s" "get_ump_bdev_by_uuid (mbdevs ?s) (bd_uuid (sample_bdev 7 ''a'')) = Inr None"
    "alloc_ok ?env a" "lower_bdev_register ?env (mbdev_of ?env (next_addr ?s) (sample_bdev 7 ''a'')) = - 17"
    "(- 17 :: int) \<noteq> 0" for a
    by (simp_all add: sump_initial_def)
  have "bd_uuid (sample_bdev 8 ''b'') \<noteq> bd_uuid (sample_bdev 7 ''a'')" by (simp add: sample_bdev_def)
  with refused_registration_dangles [OF h] show ?thesis by (auto simp: sump_initial_def)
qed

section \<open>Paths added to a device in use\<close>

lemma add_to_first_channel_split:
  assumes "\<forall>c \<in> set pre. ch_addr c \<notin> set fr \<and> (\<forall>p \<in> set (iopath_list c). bd_uuid (iop_bdev p) \<noteq> u)"
    and "ch_addr c \<notin> set fr" and "\<exists>p \<in> set (iopath_list c). bd_uuid (iop_bdev p) = u"
  shows "add_to_first_channel u mk fr (pre @ c # post) = Inr (Some (pre @ append_path (mk (max_id c)) c # post))"
  using assms by (induction pre) auto

text \<open>A path registered while channels of its device exist is added to the first of them
  alone: the other channels, of other threads, never use it.\<close>

theorem hot_added_path_reaches_one_channel:
  assumes "\<And>a. alloc_ok env a" and "m \<in> set (mbdevs s)" and "bd_uuid (mb_bdev m) = bd_uuid b"
    and "distinct (map mb_addr (mbdevs s))"
    and "g_channels s = pre @ c # post"
    and "\<forall>d \<in> set pre. ch_addr d \<notin> set (freed_channels s) \<and> (\<forall>p \<in> set (iopath_list d). bd_uuid (iop_bdev p) \<noteq> bd_uuid b)"
    and "ch_addr c \<notin> set (freed_channels s)" and "\<exists>p \<in> set (iopath_list c). bd_uuid (iop_bdev p) = bd_uuid b"
  shows "\<exists>s' p. ump_bdev_add_bdev env (mb_addr m) b s = Inr (0, s') \<and>
    g_channels s' = pre @ append_path p c # post \<and> iop_bdev p = b \<and> available p \<and> iop_id p = max_id c"
proof -
  let ?f = "\<lambda>m. m\<lparr>spdk_bdev_list := spdk_bdev_list m @ [b]\<rparr>"
  have "List.find (\<lambda>x. mb_addr x = mb_addr m) (mbdevs s) = Some m"
    using assms(2,4) by (simp add: find_Some_iff_distinct)
  then have fm: "List.find (\<lambda>x. mb_addr x = mb_addr m) (update_by mb_addr (mb_addr m) ?f (mbdevs s)) = Some (?f m)"
    using find_key_update_by [of mb_addr ?f "mb_addr m" "mb_addr m" "mbdevs s"] by simp
  show ?thesis
    using assms(1,3) fm
      add_to_first_channel_split [OF assms(6-8), where mk = "\<lambda>i. new_iopath (Suc (next_addr s))
        (lower_get_io_channel env b (Suc (next_addr s))) b i" and post = post]
    by (auto simp: ump_bdev_add_bdev_def alloc_def Let_def assms(5)
        intro!: exI [of _ "new_iopath (Suc (next_addr s)) (lower_get_io_channel env b (Suc (next_addr s))) b (max_id c)"])
qed

theorem hot_added_path_reaches_one_channel_witness:
  "\<exists>s' p. ump_bdev_add_bdev demo_env 1 (sample_bdev 7 ''Nvme2n1'') demo_submitted = Inr (0, s') \<and>
     length (g_channels s') = 1 \<and> iop_bdev p = sample_bdev 7 ''Nvme2n1'' \<and>
     p \<in> set (all_paths s') \<and> iop_id p = 2"
proof -
  let ?m = "\<lparr>mb_addr = 1, mb_bdev = mbdev_of demo_env 1 (sample_bdev 7 ''Nvme0n1''),
       spdk_bdev_list = [sample_bdev 7 ''Nvme0n1'', sample_bdev 7 ''Nvme1n1''], mb_freed = False\<rparr>"
  let ?c = "\<lparr>ch_addr = 4, iopath_list = demo_paths True False None, max_id = 2\<rparr>"
  have h: "?m \<in> set (mbdevs demo_submitted)"
    "bd_uuid (mb_bdev ?m) = bd_uuid (sample_bdev 7 ''Nvme2n1'')" "distinct (map mb_addr (mbdevs demo_submitted))"
    "g_channels demo_submitted = [] @ ?c # []"
    "\<forall>d \<in> set []. ch_addr d \<notin> set (freed_channels demo_submitted) \<and>
       (\<forall>p \<in> set (iopath_list d). bd_uuid (iop_bdev p) \<noteq> bd_uuid (sample_bdev 7 ''Nvme2n1''))"
    "ch_addr ?c \<notin> set (freed_channels demo_submitted)"
    "\<exists>p \<in> set (iopath_list ?c). bd_uuid (iop_bdev p) = bd_uuid (sample_bdev 7 ''Nvme2n1'')"
    by (simp_all add: demo_submitted_def sump_initial_def demo_paths_def sample_bdev_def)
  show ?thesis
    using hot_added_path_reaches_one_channel [OF demo_env_simps(1) h] by (auto simp: all_paths_def)
qed

section \<open>Channel creation\<close>

lemma create_iopaths_all:
  assumes env: "\<And>a. alloc_ok env a" "\<And>b a. lower_get_io_channel env b a \<noteq> None"
    and "ids_ok c" and "length (iopath_list c) \<le> 4" and "length (io_counts s) = 4"
    and "\<forall>p \<in> set (iopath_list c). available p"
  shows "case create_iopaths env bs c s of
      Inr (c', s', ok) \<Rightarrow> ok \<and> length (iopath_list c) + length bs \<le> 4 \<and>
        map iop_bdev (iopath_list c') = map iop_bdev (iopath_list c) @ bs \<and>
        (\<forall>p \<in> set (iopath_list c'). available p) \<and> ids_ok c'
    | Inl e \<Rightarrow> e = OutOfBounds \<and> 4 < length (iopath_list c) + length bs"
  using assms(3-)
proof (induction bs arbitrary: c s)
  case (Cons b bs)
  obtain x where x: "lower_get_io_channel env b (next_addr s) = Some x"
    using env(2) [of b "next_addr s"] by blast
  let ?n = "length (iopath_list c)" and ?p = "new_iopath (next_addr s) (Some x) b (max_id c)"
  have id: "unat (max_id c) = ?n"
    using Cons.prems(1,2) by (simp add: ids_ok_def unat_of_nat_u64)
  show ?case
  proof (cases "?n < 4")
    case True
    let ?s1 = "s\<lparr>next_addr := Suc (next_addr s), io_counts := (io_counts s)[?n := 0]\<rparr>"
    have step: "create_iopaths env (b # bs) c s = create_iopaths env bs (append_path ?p c) ?s1"
      using x True env(1) id Cons.prems(3) by (simp add: alloc_def Let_def)
    have "case create_iopaths env bs (append_path ?p c) ?s1 of
      Inr (c', s', ok) \<Rightarrow> ok \<and> length (iopath_list (append_path ?p c)) + length bs \<le> 4 \<and>
        map iop_bdev (iopath_list c') = map iop_bdev (iopath_list (append_path ?p c)) @ bs \<and>
        (\<forall>p \<in> set (iopath_list c'). available p) \<and> ids_ok c'
    | Inl e \<Rightarrow> e = OutOfBounds \<and> 4 < length (iopath_list (append_path ?p c)) + length bs"
      using True Cons.prems ids_ok_append [OF Cons.prems(1), of ?p] by (intro Cons.IH) auto
    then show ?thesis unfolding step by (auto split: sum.splits prod.splits)
  next
    case False
    then show ?thesis
      using x env(1) id Cons.prems(2,3) by (simp add: alloc_def Let_def)
  qed
qed simp

text \<open>Opening a channel of a device all of whose paths answer gives the channel one available
  path per path of the device, in order of registration, with ids from 0; from the fifth
  path on it writes past the end of the array \<open>count\<close>.\<close>

theorem channel_create_paths:
  assumes "\<And>a. alloc_ok env a" and "\<And>b a. lower_get_io_channel env b a \<noteq> None" and "sump_inv s"
    and "freed_channels s = []" and "ca \<notin> ch_addr ` set (g_channels s)"
  shows "if length (spdk_bdev_list m) \<le> 4
    then \<exists>s' c. ump_bdev_channel_create_cb env m ca s = Inr (0, s') \<and>
      g_channels s' = g_channels s @ [c] \<and> ch_addr c = ca \<and> ids_ok c \<and>
      map iop_bdev (iopath_list c) = spdk_bdev_list m \<and> (\<forall>p \<in> set (iopath_list c). available p)
    else ump_bdev_channel_create_cb env m ca s = Inl OutOfBounds"
proof -
  let ?c = "\<lparr>ch_addr = ca, iopath_list = [], max_id = 0\<rparr>"
  let ?s1 = "s\<lparr>g_channels := g_channels s @ [?c]\<rparr>"
  obtain pol s2 where p: "spdk_poller_register env UmpIoCountFn ?s1 = (pol, s2)"
    by (cases "spdk_poller_register env UmpIoCountFn ?s1")
  obtain ps where s2: "s2 = ?s1\<lparr>next_addr := Suc (next_addr s), pollers := ps\<rparr>"
    using spdk_poller_register_frame [OF p] by auto
  let ?s3 = "s2\<lparr>io_count_poller := pol\<rparr>"
  have "length (io_counts ?s3) = 4" using assms(3) by (simp add: s2 sump_inv_def)
  then have all: "case create_iopaths env (spdk_bdev_list m) ?c ?s3 of
      Inr (c', s', ok) \<Rightarrow> ok \<and> length (spdk_bdev_list m) \<le> 4 \<and>
        map iop_bdev (iopath_list c') = spdk_bdev_list m \<and>
        (\<forall>p \<in> set (iopath_list c'). available p) \<and> ids_ok c'
    | Inl e \<Rightarrow> e = OutOfBounds \<and> 4 < length (spdk_bdev_list m)"
    using create_iopaths_all [OF assms(1,2), of ?c ?s3 "spdk_bdev_list m"]
    by (auto simp: ids_ok_def split: sum.splits prod.splits)
  have cb: "ump_bdev_channel_create_cb env m ca s =
      bindR (create_iopaths env (spdk_bdev_list m) ?c ?s3) (\<lambda>(c', s4, ok).
           if ok then Inr (0, replace_channel c' s4)
           else let (c'', puts) = ump_bdev_channel_clear_all_iopath c'
                in Inr (- 1, replace_channel c'' (s4\<lparr>put_channels := put_channels s4 @ puts\<rparr>)))"
    using p assms(4) by (simp add: ump_bdev_channel_create_cb_def Let_def)
  show ?thesis
  proof (cases "create_iopaths env (spdk_bdev_list m) ?c ?s3")
    case (Inl e)
    with all show ?thesis by (simp add: cb)
  next
    case (Inr r)
    obtain c' s4 ok where r: "r = (c', s4, ok)" by (cases r)
    have ca: "ch_addr c' = ca" and g: "g_channels s4 = g_channels s @ [?c]"
      using create_iopaths_frame [OF Inr [unfolded r]] by (auto simp: s2)
    have "update_by ch_addr ca (\<lambda>_. c') (g_channels s @ [?c]) = g_channels s @ [c']"
      using update_by_snoc_fresh [of ?c "g_channels s" ?c c'] assms(5) by simp
    then have "g_channels (replace_channel c' s4) = g_channels s @ [c']"
      by (simp add: replace_channel_def ca g)
    with all Inr r ca show ?thesis by (simp add: cb)
  qed
qed

theorem channel_create_paths_witness:
  "(\<exists>s' c. ump_bdev_channel_create_cb demo_env \<lparr>mb_addr = 1, mb_bdev = sample_bdev 7 ''u'',
      spdk_bdev_list = [sample_bdev 7 ''a'', sample_bdev 7 ''b''], mb_freed = False\<rparr> 9 sump_initial = Inr (0, s') \<and>
     g_channels s' = [c] \<and> map iop_bdev (iopath_list c) = [sample_bdev 7 ''a'', sample_bdev 7 ''b'']) \<and>
   ump_bdev_channel_create_cb demo_env \<lparr>mb_addr = 1, mb_bdev = sample_bdev 7 ''u'',
      spdk_bdev_list = replicate 5 (sample_bdev 7 ''a''), mb_freed = False\<rparr> 9 sump_initial = Inl OutOfBounds"
proof -
  have e: "lower_get_io_channel demo_env b a \<noteq> None" for b a by simp
  have i: "freed_channels sump_initial = []" "9 \<notin> ch_addr ` set (g_channels sump_initial)"
    "g_channels sump_initial = []"
    by (simp_all add: sump_initial_def)
  note t = channel_create_paths [OF demo_env_simps(1) e sump_inv_initial i(1,2)]
  show ?thesis
    using t [of "\<lparr>mb_addr = 1, mb_bdev = sample_bdev 7 ''u'',
        spdk_bdev_list = [sample_bdev 7 ''a'', sample_bdev 7 ''b''], mb_freed = False\<rparr>"]
      t [of "\<lparr>mb_addr = 1, mb_bdev = sample_bdev 7 ''u'',
        spdk_bdev_list = replicate 5 (sample_bdev 7 ''a''), mb_freed = False\<rparr>"]
    by (auto simp: i(3))
qed

end
