(* ===== verification/Reservation.thy ===== *)
theory Reservation
  imports Prelude
begin

text \<open>
  Persistent reservations of an NVMe-oF namespace (\<^verbatim>\<open>src/nvmf/subsystem.c\<close>): registrants, the
  reservation holder, the register, acquire, release and report commands, the file that
  keeps them through a power loss.

  A registrant is an allocated object, \<open>rg_addr\<close> its address; \<open>ns_holder\<close> is a pointer to a
  registrant. The command fields are the bit fields of cdw10, at their numeric values.
  The data of a request is \<open>None\<close> when the request has none or too little. The
  persistence file is what a later load finds in it: \<open>None\<close> when it holds no reservation.
  Opening and writing it and allocating are decided by the environment
  (\<open>json_outcome\<close>, a fresh address or \<open>None\<close>); \<open>fmt\<close> and \<open>parse\<close> stand for
  \<open>spdk_uuid_fmt_lower\<close> and \<open>spdk_uuid_parse\<close>.
\<close>

section \<open>Data\<close>

abbreviation RESERVE_WRITE_EXCLUSIVE :: u8 where "RESERVE_WRITE_EXCLUSIVE \<equiv> 1"
abbreviation RESERVE_EXCLUSIVE_ACCESS :: u8 where "RESERVE_EXCLUSIVE_ACCESS \<equiv> 2"
abbreviation RESERVE_WRITE_EXCLUSIVE_REG_ONLY :: u8 where "RESERVE_WRITE_EXCLUSIVE_REG_ONLY \<equiv> 3"
abbreviation RESERVE_EXCLUSIVE_ACCESS_REG_ONLY :: u8 where "RESERVE_EXCLUSIVE_ACCESS_REG_ONLY \<equiv> 4"
abbreviation RESERVE_WRITE_EXCLUSIVE_ALL_REGS :: u8 where "RESERVE_WRITE_EXCLUSIVE_ALL_REGS \<equiv> 5"
abbreviation RESERVE_EXCLUSIVE_ACCESS_ALL_REGS :: u8 where "RESERVE_EXCLUSIVE_ACCESS_ALL_REGS \<equiv> 6"

abbreviation MAX_NUM_REGISTRANTS :: nat where "MAX_NUM_REGISTRANTS \<equiv> 16"

datatype nvme_sc =
    SC_SUCCESS
  | SC_INVALID_FIELD
  | SC_INTERNAL_DEVICE_ERROR
  | SC_HOSTID_INCONSISTENT_FORMAT
  | SC_RESERVATION_CONFLICT

datatype notice_type =
    RESERVATION_LOG_PAGE_EMPTY
  | REGISTRATION_PREEMPTED
  | RESERVATION_RELEASED
  | RESERVATION_PREEMPTED

record spdk_nvmf_registrant =
  rg_addr :: addr
  rg_hostid :: uuid
  rg_rkey :: u64

record spdk_nvmf_ns =
  ns_nsid :: u32
  ns_bdev :: "uuid option" \<comment> \<open>the uuid of the block device, if any\<close>
  ns_mask :: u32
  ns_gen :: u32
  ns_registrants :: "spdk_nvmf_registrant list"
  ns_crkey :: u64
  ns_rtype :: u8
  ns_holder :: "addr option"
  ns_ptpl_file :: "string option"
  ns_ptpl_activated :: bool

record spdk_nvmf_reservation_info =
  ri_ptpl_activated :: bool
  ri_rtype :: u8
  ri_crkey :: u64
  ri_bdev_uuid :: string
  ri_holder_uuid :: string
  ri_registrants :: "(u64 \<times> string) list"

datatype json_outcome = JsonNoMem | JsonOpenFails | JsonShortWrite | JsonOk

section \<open>Registrants\<close>

definition reservation_get_registrant ::
    "spdk_nvmf_registrant list \<Rightarrow> uuid \<Rightarrow> spdk_nvmf_registrant option" where
  "reservation_get_registrant regs u = List.find (\<lambda>r. rg_hostid r = u) regs"

definition all_registrants_type :: "spdk_nvmf_ns \<Rightarrow> bool" where
  "all_registrants_type ns \<longleftrightarrow>
     ns_rtype ns = RESERVE_WRITE_EXCLUSIVE_ALL_REGS \<or> ns_rtype ns = RESERVE_EXCLUSIVE_ACCESS_ALL_REGS"

definition registrant_is_holder :: "spdk_nvmf_ns \<Rightarrow> spdk_nvmf_registrant option \<Rightarrow> bool" where
  "registrant_is_holder ns reg =
     (case reg of None \<Rightarrow> False
      | Some r \<Rightarrow> if all_registrants_type ns then True else ns_holder ns = Some (rg_addr r))"

definition add_registrant ::
    "addr option \<Rightarrow> uuid \<Rightarrow> u64 \<Rightarrow> spdk_nvmf_ns \<Rightarrow> int \<times> spdk_nvmf_ns" where
  "add_registrant mem hostid nrkey ns =
     (case mem of
        None \<Rightarrow> (- 12, ns)
      | Some a \<Rightarrow> (0, ns\<lparr>ns_registrants := ns_registrants ns @
                             [\<lparr>rg_addr = a, rg_hostid = hostid, rg_rkey = nrkey\<rparr>],
                         ns_gen := ns_gen ns + 1\<rparr>))"

definition release_reservation :: "spdk_nvmf_ns \<Rightarrow> spdk_nvmf_ns" where
  "release_reservation ns = ns\<lparr>ns_rtype := 0, ns_crkey := 0, ns_holder := None\<rparr>"

definition check_release_on_remove_registrant ::
    "spdk_nvmf_ns \<Rightarrow> spdk_nvmf_registrant \<Rightarrow> spdk_nvmf_ns" where
  "check_release_on_remove_registrant ns reg =
     (if ns_holder ns = None then ns
      else case ns_registrants ns of
             next_reg # _ \<Rightarrow>
               if all_registrants_type ns then ns\<lparr>ns_holder := Some (rg_addr next_reg)\<rparr>
               else if registrant_is_holder ns (Some reg) then release_reservation ns else ns
           | [] \<Rightarrow> if registrant_is_holder ns (Some reg) then release_reservation ns else ns)"

definition remove_registrant :: "spdk_nvmf_registrant \<Rightarrow> spdk_nvmf_ns \<Rightarrow> spdk_nvmf_ns" where
  "remove_registrant reg ns =
     (let ns1 = ns\<lparr>ns_registrants := remove_by rg_addr (rg_addr reg) (ns_registrants ns)\<rparr>;
          ns2 = check_release_on_remove_registrant ns1 reg
      in ns2\<lparr>ns_gen := ns_gen ns2 + 1\<rparr>)"

text \<open>The \<open>TAILQ_FOREACH_SAFE\<close> loops that remove the registrants that satisfy a condition.\<close>

definition remove_registrants_if ::
    "(spdk_nvmf_registrant \<Rightarrow> bool) \<Rightarrow> spdk_nvmf_ns \<Rightarrow> spdk_nvmf_ns \<times> nat" where
  "remove_registrants_if P ns =
     (fold remove_registrant (filter P (ns_registrants ns)) ns, length (filter P (ns_registrants ns)))"

definition remove_registrants_by_key :: "u64 \<Rightarrow> spdk_nvmf_ns \<Rightarrow> spdk_nvmf_ns \<times> nat" where
  "remove_registrants_by_key rkey ns = remove_registrants_if (\<lambda>r. rg_rkey r = rkey) ns"

definition remove_all_other_registrants ::
    "spdk_nvmf_registrant \<Rightarrow> spdk_nvmf_ns \<Rightarrow> spdk_nvmf_ns \<times> nat" where
  "remove_all_other_registrants reg ns = remove_registrants_if (\<lambda>r. rg_addr r \<noteq> rg_addr reg) ns"

definition clear_all_registrants :: "spdk_nvmf_ns \<Rightarrow> spdk_nvmf_ns \<times> nat" where
  "clear_all_registrants ns = remove_registrants_if (\<lambda>_. True) ns"

definition acquire_reservation ::
    "u64 \<Rightarrow> u8 \<Rightarrow> spdk_nvmf_registrant \<Rightarrow> spdk_nvmf_ns \<Rightarrow> spdk_nvmf_ns" where
  "acquire_reservation rkey rtype reg ns =
     ns\<lparr>ns_rtype := rtype, ns_crkey := rkey, ns_holder := Some (rg_addr reg)\<rparr>"

section \<open>Notifications\<close>

definition get_all_other_hostid :: "spdk_nvmf_ns \<Rightarrow> nat \<Rightarrow> uuid \<Rightarrow> uuid list" where
  "get_all_other_hostid ns mx current =
     take mx (filter (\<lambda>h. h \<noteq> current) (map rg_hostid (ns_registrants ns)))"

definition get_unregistered_hostid :: "uuid list \<Rightarrow> uuid list \<Rightarrow> uuid list" where
  "get_unregistered_hostid old remaining =
     (if remaining = [] then old else filter (\<lambda>h. h \<notin> set remaining) old)"

text \<open>\<open>ctrlrs\<close>: the controllers of the subsystem, as address and host id; the result are the
  calls of \<open>nvmf_ctrlr_reservation_notice_log\<close>.\<close>

definition gen_ctrlr_notification ::
    "(addr \<times> uuid) list \<Rightarrow> uuid list \<Rightarrow> notice_type \<Rightarrow> (addr \<times> notice_type) list" where
  "gen_ctrlr_notification ctrlrs hostids t =
     concat (map (\<lambda>h. map (\<lambda>c. (fst c, t)) (filter (\<lambda>c. snd c = h) ctrlrs)) hostids)"

definition reservation_notice_log :: "bool \<Rightarrow> spdk_nvmf_ns \<Rightarrow> notice_type \<Rightarrow> (notice_type \<times> u32) option"
  where
  "reservation_notice_log mem ns t =
     (case t of
        RESERVATION_LOG_PAGE_EMPTY \<Rightarrow> None
      | REGISTRATION_PREEMPTED \<Rightarrow> if bit (ns_mask ns) 1 \<or> \<not> mem then None else Some (t, ns_nsid ns)
      | RESERVATION_RELEASED \<Rightarrow> if bit (ns_mask ns) 2 \<or> \<not> mem then None else Some (t, ns_nsid ns)
      | RESERVATION_PREEMPTED \<Rightarrow> if bit (ns_mask ns) 3 \<or> \<not> mem then None else Some (t, ns_nsid ns))"

section \<open>Persistence\<close>

type_synonym ptpl_store = "spdk_nvmf_reservation_info option"

definition reservation_update ::
    "json_outcome \<Rightarrow> spdk_nvmf_reservation_info \<Rightarrow> ptpl_store \<Rightarrow> int \<times> ptpl_store" where
  "reservation_update jo info file =
     (case jo of
        JsonNoMem \<Rightarrow> (- 12, file)
      | JsonOpenFails \<Rightarrow> (- 1, file)
      | JsonShortWrite \<Rightarrow> (- 1, None)
      | JsonOk \<Rightarrow> (0, if ri_ptpl_activated info then Some info else None))"

definition update_reservation_info ::
    "(uuid \<Rightarrow> string) \<Rightarrow> json_outcome \<Rightarrow> spdk_nvmf_ns \<Rightarrow> ptpl_store \<Rightarrow> fault + int \<times> ptpl_store" where
  "update_reservation_info fmt jo ns file =
     (case (ns_bdev ns, ns_ptpl_file ns) of
        (Some b, Some _) \<Rightarrow>
          bindR (if ns_rtype ns \<noteq> 0 \<and> \<not> all_registrants_type ns
                 then (case ns_holder ns of
                         None \<Rightarrow> Inl NullDeref
                       | Some h \<Rightarrow>
                          (case List.find (\<lambda>r. rg_addr r = h) (ns_registrants ns) of
                             None \<Rightarrow> Inl UseAfterFree
                           | Some r \<Rightarrow> Inr (fmt (rg_hostid r))))
                 else Inr '''') (\<lambda>holder_uuid.
          if length (ns_registrants ns) > MAX_NUM_REGISTRANTS then Inl OutOfBounds
          else Inr (reservation_update jo
             \<lparr>ri_ptpl_activated = ns_ptpl_activated ns,
              ri_rtype = ns_rtype ns,
              ri_crkey = (if ns_rtype ns \<noteq> 0 then ns_crkey ns else 0),
              ri_bdev_uuid = fmt b, ri_holder_uuid = holder_uuid,
              ri_registrants = map (\<lambda>r. (rg_rkey r, fmt (rg_hostid r))) (ns_registrants ns)\<rparr> file))
      | _ \<Rightarrow> Inr (0, file))"

text \<open>\<open>mem\<close>: the addresses that \<open>calloc\<close> returns, \<open>None\<close> where it fails; \<open>junk\<close>: what the
  uninitialised \<open>holder_uuid\<close> contains when the string does not parse.\<close>

fun restore_registrants ::
    "(string \<Rightarrow> uuid option) \<Rightarrow> addr option list \<Rightarrow> (u64 \<times> string) list \<Rightarrow> spdk_nvmf_ns \<Rightarrow> int \<times> spdk_nvmf_ns"
  where
  "restore_registrants parse mem [] ns = (0, ns)"
| "restore_registrants parse mem ((rkey, u) # rs) ns =
     (case mem of
        Some a # mem' \<Rightarrow>
          restore_registrants parse mem' rs
            (ns\<lparr>ns_registrants := ns_registrants ns @
               [\<lparr>rg_addr = a, rg_hostid = (case parse u of Some h \<Rightarrow> h | None \<Rightarrow> 0), rg_rkey = rkey\<rparr>]\<rparr>)
      | _ \<Rightarrow> (- 12, ns))"

definition last_with_hostid :: "uuid \<Rightarrow> spdk_nvmf_registrant list \<Rightarrow> addr option" where
  "last_with_hostid u regs =
     (case filter (\<lambda>r. rg_hostid r = u) regs of [] \<Rightarrow> None | rs \<Rightarrow> Some (rg_addr (last rs)))"

definition reservation_restore ::
    "(string \<Rightarrow> uuid option) \<Rightarrow> uuid \<Rightarrow> uuid \<Rightarrow> addr option list \<Rightarrow> spdk_nvmf_reservation_info \<Rightarrow>
     spdk_nvmf_ns \<Rightarrow> int \<times> spdk_nvmf_ns" where
  "reservation_restore parse junk1 junk2 mem info ns =
     (if \<not> ri_ptpl_activated info \<or> ri_registrants info = [] then (0, ns)
      else if ri_crkey info \<notin> set (map fst (ri_registrants info)) then (- 22, ns)
      else if Some (case parse (ri_bdev_uuid info) of Some u \<Rightarrow> u | None \<Rightarrow> junk1) \<noteq> ns_bdev ns then (- 22, ns)
      else
        let ns1 = ns\<lparr>ns_crkey := ri_crkey info, ns_rtype := ri_rtype info,
                     ns_ptpl_activated := ri_ptpl_activated info\<rparr>;
            holder_uuid = (case parse (ri_holder_uuid info) of Some u \<Rightarrow> u | None \<Rightarrow> junk2);
            n0 = length (ns_registrants ns1);
            (rc, ns2) = restore_registrants parse mem (ri_registrants info) ns1
        in if rc \<noteq> 0 then (rc, ns2)
           else if all_registrants_type ns2
           then (0, ns2\<lparr>ns_holder := (case ns_registrants ns2 of [] \<Rightarrow> None | r # _ \<Rightarrow> Some (rg_addr r))\<rparr>)
           else (0, ns2\<lparr>ns_holder := last_with_hostid holder_uuid (drop n0 (ns_registrants ns2))\<rparr>))"

section \<open>The commands\<close>

record resv_result =
  rr_ns :: spdk_nvmf_ns
  rr_status :: nvme_sc
  rr_update :: bool \<comment> \<open>the poll groups are to be updated\<close>
  rr_notices :: "(addr \<times> notice_type) list"
  rr_file :: ptpl_store

text \<open>The environment of a command: the controllers of the subsystem, the outcome of the file
  write, the address \<open>calloc\<close> returns.\<close>

record resv_env =
  re_fmt :: "uuid \<Rightarrow> string"
  re_ctrlrs :: "(addr \<times> uuid) list"
  re_json :: json_outcome
  re_calloc :: "addr option"

abbreviation REGISTER_KEY :: u8 where "REGISTER_KEY \<equiv> 0"
abbreviation UNREGISTER_KEY :: u8 where "UNREGISTER_KEY \<equiv> 1"
abbreviation REPLACE_KEY :: u8 where "REPLACE_KEY \<equiv> 2"
abbreviation PTPL_CLEAR_POWER_ON :: u8 where "PTPL_CLEAR_POWER_ON \<equiv> 2"
abbreviation PTPL_PERSIST_POWER_LOSS :: u8 where "PTPL_PERSIST_POWER_LOSS \<equiv> 3"

definition set_rkey :: "spdk_nvmf_registrant \<Rightarrow> u64 \<Rightarrow> spdk_nvmf_ns \<Rightarrow> spdk_nvmf_ns" where
  "set_rkey reg k ns = ns\<lparr>ns_registrants :=
     update_by rg_addr (rg_addr reg) (\<lambda>r. r\<lparr>rg_rkey := k\<rparr>) (ns_registrants ns)\<rparr>"

text \<open>The switch over \<open>rrega\<close>: the namespace, the status, whether to update, the notifications.\<close>

definition register_switch ::
    "resv_env \<Rightarrow> uuid \<Rightarrow> u8 \<Rightarrow> bool \<Rightarrow> u64 \<Rightarrow> u64 \<Rightarrow> bool \<Rightarrow> spdk_nvmf_ns \<Rightarrow>
     spdk_nvmf_ns \<times> nvme_sc \<times> bool \<times> (addr \<times> notice_type) list" where
  "register_switch env hostid rrega iekey crkey nrkey update ns =
     (let reg = reservation_get_registrant (ns_registrants ns) hostid in
      if rrega = REGISTER_KEY then
        (case reg of
           None \<Rightarrow>
             if nrkey = 0 then (ns, SC_INVALID_FIELD, update, [])
             else (case add_registrant (re_calloc env) hostid nrkey ns of
                     (rc, ns1) \<Rightarrow> if rc < 0 then (ns1, SC_INTERNAL_DEVICE_ERROR, update, [])
                                 else (ns1, SC_SUCCESS, True, []))
         | Some r \<Rightarrow>
             if rg_rkey r \<noteq> nrkey then (ns, SC_RESERVATION_CONFLICT, update, [])
             else (ns, SC_SUCCESS, update, []))
      else if rrega = UNREGISTER_KEY then
        (case reg of
           None \<Rightarrow> (ns, SC_RESERVATION_CONFLICT, update, [])
         | Some r \<Rightarrow>
             if \<not> iekey \<and> rg_rkey r \<noteq> crkey then (ns, SC_RESERVATION_CONFLICT, update, [])
             else let hostids = get_all_other_hostid ns MAX_NUM_REGISTRANTS hostid;
                      ns1 = remove_registrant r ns
                  in (ns1, SC_SUCCESS, True,
                      if ns_rtype ns1 = 0 \<and> hostids \<noteq> [] \<and>
                         (ns_rtype ns = RESERVE_WRITE_EXCLUSIVE_REG_ONLY \<or>
                          ns_rtype ns = RESERVE_EXCLUSIVE_ACCESS_REG_ONLY)
                      then gen_ctrlr_notification (re_ctrlrs env) hostids RESERVATION_RELEASED else []))
      else if rrega = REPLACE_KEY then
        (if nrkey = 0 then (ns, SC_INVALID_FIELD, update, [])
         else case reg of
           Some r \<Rightarrow>
             if \<not> iekey \<and> rg_rkey r \<noteq> crkey then (ns, SC_RESERVATION_CONFLICT, update, [])
             else if rg_rkey r = nrkey then (ns, SC_SUCCESS, update, [])
             else (set_rkey r nrkey ns, SC_SUCCESS, True, [])
         | None \<Rightarrow>
             if iekey then (case add_registrant (re_calloc env) hostid nrkey ns of
                     (rc, ns1) \<Rightarrow> if rc < 0 then (ns1, SC_INTERNAL_DEVICE_ERROR, update, [])
                                 else (ns1, SC_SUCCESS, True, []))
             else (ns, SC_RESERVATION_CONFLICT, update, []))
      else (ns, SC_INVALID_FIELD, update, []))"

text \<open>The change of the persistence flag: the namespace and whether it changed, \<open>None\<close> when the
  namespace has no file.\<close>

definition register_ptpl :: "u8 \<Rightarrow> spdk_nvmf_ns \<Rightarrow> (spdk_nvmf_ns \<times> bool) option" where
  "register_ptpl cptpl ns =
     (if cptpl = PTPL_CLEAR_POWER_ON then Some (ns\<lparr>ns_ptpl_activated := False\<rparr>, ns_ptpl_activated ns)
      else if cptpl = PTPL_PERSIST_POWER_LOSS then
        (if ns_ptpl_file ns = None then None
         else Some (ns\<lparr>ns_ptpl_activated := True\<rparr>, \<not> ns_ptpl_activated ns))
      else Some (ns, False))"

definition reservation_register ::
    "resv_env \<Rightarrow> uuid \<Rightarrow> u8 \<Rightarrow> bool \<Rightarrow> u8 \<Rightarrow> (u64 \<times> u64) option \<Rightarrow> spdk_nvmf_ns \<Rightarrow> ptpl_store \<Rightarrow>
     fault + resv_result" where
  "reservation_register env hostid rrega iekey cptpl data ns file =
     (let (ns2, status, update, notices) =
        (case data of
           None \<Rightarrow> (ns, SC_INVALID_FIELD, False, [])
         | Some (crkey, nrkey) \<Rightarrow>
             (case register_ptpl cptpl ns of
                None \<Rightarrow> (ns, SC_INVALID_FIELD, False, [])
              | Some (ns1, u) \<Rightarrow> register_switch env hostid rrega iekey crkey nrkey u ns1))
      in if update
         then bindR (update_reservation_info (re_fmt env) (re_json env) ns2 file) (\<lambda>(rc, file').
                Inr \<lparr>rr_ns = ns2, rr_status = (if rc \<noteq> 0 then SC_INTERNAL_DEVICE_ERROR else status),
                     rr_update = update, rr_notices = notices, rr_file = file'\<rparr>)
         else Inr \<lparr>rr_ns = ns2, rr_status = status, rr_update = update, rr_notices = notices,
                   rr_file = file\<rparr>)"

abbreviation ACQUIRE_ACQUIRE :: u8 where "ACQUIRE_ACQUIRE \<equiv> 0"
abbreviation ACQUIRE_PREEMPT :: u8 where "ACQUIRE_PREEMPT \<equiv> 1"

text \<open>The case \<open>SPDK_NVME_RESERVE_PREEMPT\<close>: the namespace, the status, whether to update, the
  other hosts' ids before, whether a reservation was released.\<close>

definition acquire_preempt ::
    "uuid \<Rightarrow> spdk_nvmf_registrant \<Rightarrow> u8 \<Rightarrow> u64 \<Rightarrow> u64 \<Rightarrow> spdk_nvmf_ns \<Rightarrow>
     fault + spdk_nvmf_ns \<times> nvme_sc \<times> bool \<times> uuid list \<times> bool" where
  "acquire_preempt hostid reg rtype crkey prkey ns =
     (case ns_holder ns of
        None \<Rightarrow> Inr (fst (remove_registrants_by_key prkey ns), SC_SUCCESS, True, [], False)
      | Some h \<Rightarrow>
         let hostids = get_all_other_hostid ns MAX_NUM_REGISTRANTS hostid in
         if \<not> all_registrants_type ns then
           (if registrant_is_holder ns (Some reg) \<and> ns_crkey ns = prkey
            then Inr (ns\<lparr>ns_rtype := rtype\<rparr>, SC_SUCCESS, True, hostids, True)
            else if ns_crkey ns = prkey then
              (case List.find (\<lambda>r. rg_addr r = h) (ns_registrants ns) of
                 None \<Rightarrow> Inl UseAfterFree
               | Some hr \<Rightarrow> Inr (acquire_reservation crkey rtype reg (remove_registrant hr ns),
                                SC_SUCCESS, True, hostids, True))
            else if prkey \<noteq> 0
            then Inr (fst (remove_registrants_by_key prkey ns), SC_SUCCESS, True, hostids, False)
            else Inr (ns, SC_RESERVATION_CONFLICT, False, hostids, False))
         else if prkey = 0
         then Inr (fst (remove_all_other_registrants reg ns), SC_SUCCESS, True, hostids, False)
         else (case remove_registrants_by_key prkey ns of
                 (ns1, count) \<Rightarrow>
                   if count = 0 then Inr (ns1, SC_RESERVATION_CONFLICT, False, hostids, False)
                   else Inr (ns1, SC_SUCCESS, True, hostids, False)))"

definition acquire_switch ::
    "uuid \<Rightarrow> spdk_nvmf_registrant \<Rightarrow> u8 \<Rightarrow> u8 \<Rightarrow> u64 \<Rightarrow> u64 \<Rightarrow> spdk_nvmf_ns \<Rightarrow>
     fault + spdk_nvmf_ns \<times> nvme_sc \<times> bool \<times> uuid list \<times> bool" where
  "acquire_switch hostid reg racqa rtype crkey prkey ns =
     (if racqa = ACQUIRE_ACQUIRE then
        (if registrant_is_holder ns (Some reg) \<and> ns_rtype ns = rtype
         then Inr (ns, SC_SUCCESS, False, [], False)
         else if ns_holder ns = None
         then Inr (acquire_reservation crkey rtype reg ns, SC_SUCCESS, True, [], False)
         else Inr (ns, SC_RESERVATION_CONFLICT, False, [], False))
      else if racqa = ACQUIRE_PREEMPT then acquire_preempt hostid reg rtype crkey prkey ns
      else Inr (ns, SC_INVALID_FIELD, False, [], False))"

text \<open>What the three commands that change the namespace do at \<open>exit\<close> when the reservation
  information is only written while persistence is activated.\<close>

definition resv_exit ::
    "resv_env \<Rightarrow> spdk_nvmf_ns \<Rightarrow> nvme_sc \<Rightarrow> bool \<Rightarrow> (addr \<times> notice_type) list \<Rightarrow> ptpl_store \<Rightarrow> fault + resv_result"
  where
  "resv_exit env ns status update notices file =
     (if update \<and> ns_ptpl_activated ns
      then bindR (update_reservation_info (re_fmt env) (re_json env) ns file) (\<lambda>(rc, file').
             Inr \<lparr>rr_ns = ns, rr_status = (if rc \<noteq> 0 then SC_INTERNAL_DEVICE_ERROR else status),
                  rr_update = update, rr_notices = notices, rr_file = file'\<rparr>)
      else Inr \<lparr>rr_ns = ns, rr_status = status, rr_update = update, rr_notices = notices,
                rr_file = file\<rparr>)"

definition reservation_acquire ::
    "resv_env \<Rightarrow> uuid \<Rightarrow> u8 \<Rightarrow> bool \<Rightarrow> u8 \<Rightarrow> (u64 \<times> u64) option \<Rightarrow> spdk_nvmf_ns \<Rightarrow> ptpl_store \<Rightarrow>
     fault + resv_result" where
  "reservation_acquire env hostid racqa iekey rtype data ns file =
     bindR (case data of
              None \<Rightarrow> Inr (ns, SC_INVALID_FIELD, True, [], False)
            | Some (crkey, prkey) \<Rightarrow>
               if iekey \<or> rtype > RESERVE_EXCLUSIVE_ACCESS_ALL_REGS
               then Inr (ns, SC_INVALID_FIELD, False, [], False)
               else case reservation_get_registrant (ns_registrants ns) hostid of
                      None \<Rightarrow> Inr (ns, SC_RESERVATION_CONFLICT, False, [], False)
                    | Some reg \<Rightarrow>
                       if rg_rkey reg \<noteq> crkey then Inr (ns, SC_RESERVATION_CONFLICT, False, [], False)
                       else acquire_switch hostid reg racqa rtype crkey prkey ns)
       (\<lambda>(ns1, status, update, old, released).
          let new = get_all_other_hostid ns1 MAX_NUM_REGISTRANTS hostid;
              gone = get_unregistered_hostid old new;
              notices = (if update \<and> racqa = ACQUIRE_PREEMPT
                         then gen_ctrlr_notification (re_ctrlrs env) gone REGISTRATION_PREEMPTED @
                              (if released
                               then gen_ctrlr_notification (re_ctrlrs env) new RESERVATION_RELEASED else [])
                         else [])
          in resv_exit env ns1 status update notices file)"

abbreviation RELEASE_RELEASE :: u8 where "RELEASE_RELEASE \<equiv> 0"
abbreviation RELEASE_CLEAR :: u8 where "RELEASE_CLEAR \<equiv> 1"

definition reservation_release ::
    "resv_env \<Rightarrow> uuid \<Rightarrow> u8 \<Rightarrow> bool \<Rightarrow> u8 \<Rightarrow> u64 option \<Rightarrow> spdk_nvmf_ns \<Rightarrow> ptpl_store \<Rightarrow>
     fault + resv_result" where
  "reservation_release env hostid rrela iekey rtype data ns file =
     (case data of
        None \<Rightarrow> resv_exit env ns SC_INVALID_FIELD True [] file
      | Some crkey \<Rightarrow>
         if iekey then resv_exit env ns SC_INVALID_FIELD False [] file
         else case reservation_get_registrant (ns_registrants ns) hostid of
                None \<Rightarrow> resv_exit env ns SC_RESERVATION_CONFLICT False [] file
              | Some reg \<Rightarrow>
                 if rg_rkey reg \<noteq> crkey then resv_exit env ns SC_RESERVATION_CONFLICT False [] file
                 else
                 let hostids = get_all_other_hostid ns MAX_NUM_REGISTRANTS hostid in
                 if rrela = RELEASE_RELEASE then
                   (if ns_holder ns = None then resv_exit env ns SC_SUCCESS False [] file
                    else if ns_rtype ns \<noteq> rtype then resv_exit env ns SC_INVALID_FIELD False [] file
                    else if \<not> registrant_is_holder ns (Some reg) then resv_exit env ns SC_SUCCESS False [] file
                    else resv_exit env (release_reservation ns) SC_SUCCESS True
                      (if hostids \<noteq> [] \<and> ns_rtype ns \<noteq> RESERVE_WRITE_EXCLUSIVE \<and>
                          ns_rtype ns \<noteq> RESERVE_EXCLUSIVE_ACCESS
                       then gen_ctrlr_notification (re_ctrlrs env) hostids RESERVATION_RELEASED else []) file)
                 else if rrela = RELEASE_CLEAR then
                   resv_exit env (fst (clear_all_registrants ns)) SC_SUCCESS True
                     (gen_ctrlr_notification (re_ctrlrs env) hostids RESERVATION_PREEMPTED) file
                 else resv_exit env ns SC_INVALID_FIELD False [] file)"

section \<open>The report\<close>

record resv_report =
  rp_gen :: u32
  rp_rtype :: u8
  rp_ptpls :: bool
  rp_regctl :: nat
  rp_ctrlrs :: "(bool \<times> u64 \<times> uuid) list" \<comment> \<open>holder?, key, host id; all have cntlid 0xffff\<close>

text \<open>The extended status header and each registered-controller entry have 64 bytes; the buffer
  of the request is not compared with \<open>transfer_len\<close>.\<close>

definition report_transfer_len :: "u32 \<Rightarrow> u32" where
  "report_transfer_len cdw10 = (cdw10 + 1) * 4"

fun report_entries :: "spdk_nvmf_ns \<Rightarrow> u32 \<Rightarrow> u32 \<Rightarrow> spdk_nvmf_registrant list \<Rightarrow>
    (bool \<times> u64 \<times> uuid) list" where
  "report_entries ns tlen plen [] = []"
| "report_entries ns tlen plen (r # rs) =
     (if plen + 64 > tlen then []
      else (ns_holder ns = Some (rg_addr r), rg_rkey r, rg_hostid r) # report_entries ns tlen (plen + 64) rs)"

definition reservation_report ::
    "bool \<Rightarrow> bool \<Rightarrow> u32 \<Rightarrow> spdk_nvmf_ns \<Rightarrow> nvme_sc \<times> resv_report option" where
  "reservation_report has_data eds cdw10 ns =
     (if \<not> has_data then (SC_INVALID_FIELD, None)
      else if \<not> eds then (SC_HOSTID_INCONSISTENT_FORMAT, None)
      else let tlen = report_transfer_len cdw10 in
           if tlen < 64 then (SC_INTERNAL_DEVICE_ERROR, None)
           else let es = report_entries ns tlen 64 (ns_registrants ns)
                in (SC_SUCCESS, Some \<lparr>rp_gen = ns_gen ns, rp_rtype = ns_rtype ns,
                      rp_ptpls = ns_ptpl_activated ns, rp_regctl = length es, rp_ctrlrs = es\<rparr>))"

section \<open>The poll group's copy and the check of every I/O\<close>

record spdk_nvmf_subsystem_pg_ns_info =
  pgn_crkey :: u64
  pgn_rtype :: u8
  pgn_holder_id :: uuid
  pgn_reg_hostid :: "uuid list" \<comment> \<open>16 entries, unused ones zero\<close>

definition pg_update_reservation ::
    "spdk_nvmf_ns \<Rightarrow> 'a spdk_nvmf_subsystem_pg_ns_info_scheme \<Rightarrow>
       fault + int \<times> 'a spdk_nvmf_subsystem_pg_ns_info_scheme" where
  "pg_update_reservation ns info =
     bindR (case ns_holder ns of
              None \<Rightarrow> Inr (pgn_holder_id info)
            | Some h \<Rightarrow> (case List.find (\<lambda>r. rg_addr r = h) (ns_registrants ns) of
                           None \<Rightarrow> Inl UseAfterFree | Some r \<Rightarrow> Inr (rg_hostid r)))
       (\<lambda>hid.
          let hs = map rg_hostid (ns_registrants ns);
              info1 = info\<lparr>pgn_crkey := ns_crkey ns, pgn_rtype := ns_rtype ns, pgn_holder_id := hid,
                pgn_reg_hostid := take MAX_NUM_REGISTRANTS (hs @ replicate MAX_NUM_REGISTRANTS 0)\<rparr>
          in Inr (if length hs > MAX_NUM_REGISTRANTS then - 22 else 0, info1))"

definition ns_info_ctrlr_is_registrant :: "spdk_nvmf_subsystem_pg_ns_info \<Rightarrow> uuid \<Rightarrow> bool" where
  "ns_info_ctrlr_is_registrant info hostid \<longleftrightarrow> hostid \<in> set (pgn_reg_hostid info)"

datatype nvm_opc =
    OPC_FLUSH | OPC_WRITE | OPC_READ | OPC_WRITE_UNCORRECTABLE | OPC_COMPARE | OPC_WRITE_ZEROES
  | OPC_DATASET_MANAGEMENT | OPC_RESERVATION_REGISTER | OPC_RESERVATION_REPORT
  | OPC_RESERVATION_ACQUIRE | OPC_RESERVATION_RELEASE | OPC_OTHER u8

text \<open>\<open>None\<close>: the command may go on; otherwise its status.\<close>

definition reservation_request_check ::
    "spdk_nvmf_subsystem_pg_ns_info \<Rightarrow> uuid \<Rightarrow> nvm_opc \<Rightarrow> u8 \<Rightarrow> nvme_sc option" where
  "reservation_request_check info hostid opc racqa =
     (let rtype = pgn_rtype info; is_registrant = ns_info_ctrlr_is_registrant info hostid in
      if rtype = 0 then None
      else if (rtype = RESERVE_WRITE_EXCLUSIVE_ALL_REGS \<or> rtype = RESERVE_EXCLUSIVE_ACCESS_ALL_REGS) \<and>
              is_registrant then None
      else if pgn_holder_id info = hostid then None
      else
        (let status =
          (case opc of
             OPC_READ \<Rightarrow>
               if rtype = RESERVE_EXCLUSIVE_ACCESS then SC_RESERVATION_CONFLICT
               else if (rtype = RESERVE_EXCLUSIVE_ACCESS_REG_ONLY \<or>
                        rtype = RESERVE_EXCLUSIVE_ACCESS_ALL_REGS) \<and> \<not> is_registrant
               then SC_RESERVATION_CONFLICT else SC_SUCCESS
           | OPC_COMPARE \<Rightarrow>
               if rtype = RESERVE_EXCLUSIVE_ACCESS then SC_RESERVATION_CONFLICT
               else if (rtype = RESERVE_EXCLUSIVE_ACCESS_REG_ONLY \<or>
                        rtype = RESERVE_EXCLUSIVE_ACCESS_ALL_REGS) \<and> \<not> is_registrant
               then SC_RESERVATION_CONFLICT else SC_SUCCESS
           | OPC_RESERVATION_ACQUIRE \<Rightarrow>
               if racqa = ACQUIRE_ACQUIRE then SC_RESERVATION_CONFLICT
               else if \<not> is_registrant then SC_RESERVATION_CONFLICT else SC_SUCCESS
           | OPC_RESERVATION_RELEASE \<Rightarrow>
               if \<not> is_registrant then SC_RESERVATION_CONFLICT else SC_SUCCESS
           | OPC_RESERVATION_REGISTER \<Rightarrow> SC_SUCCESS
           | OPC_RESERVATION_REPORT \<Rightarrow> SC_SUCCESS
           | OPC_OTHER _ \<Rightarrow> SC_SUCCESS
           | _ \<Rightarrow>
               if rtype = RESERVE_WRITE_EXCLUSIVE \<or> rtype = RESERVE_EXCLUSIVE_ACCESS
               then SC_RESERVATION_CONFLICT
               else if \<not> is_registrant then SC_RESERVATION_CONFLICT else SC_SUCCESS)
         in if status = SC_RESERVATION_CONFLICT then Some status else None))"

end
