(* ===== verification/Reservation_Props.thy ===== *)
theory Reservation_Props
  imports Reservation
begin

text \<open>
  What the reservation commands guarantee: \<open>resv_ok\<close> (one registrant per host, the holder is a
  registrant, no holder without reservation) is kept by every command and makes the
  commands free of faults up to sixteen registrants; outsiders change nothing; the
  poll group's check of an I/O agrees with the access policy \<open>resv_allows\<close>; what the
  persistence file brings back.
\<close>

interpretation registrants: keyed_queue rg_hostid reservation_get_registrant "\<lambda>x q. q @ [x]"
  unfolding reservation_get_registrant_def [abs_def] by (rule keyed_queue_tail)

section \<open>The invariant\<close>

definition resv_ok :: "spdk_nvmf_ns \<Rightarrow> bool" where
  "resv_ok ns \<longleftrightarrow>
     distinct (map rg_hostid (ns_registrants ns)) \<and> distinct (map rg_addr (ns_registrants ns)) \<and>
     (\<forall>h. ns_holder ns = Some h \<longrightarrow> h \<in> rg_addr ` set (ns_registrants ns)) \<and>
     (ns_holder ns = None \<longrightarrow> ns_rtype ns = 0 \<and> ns_crkey ns = 0) \<and> ns_rtype ns \<le> 6 \<and>
     (\<forall>r \<in> set (ns_registrants ns). rg_rkey r \<noteq> 0)"

lemma resv_ok_distinct_remove:
  assumes "resv_ok ns"
  shows "distinct (map rg_hostid (remove_by rg_addr a (ns_registrants ns)))"
    and "distinct (map rg_addr (remove_by rg_addr a (ns_registrants ns)))"
  using assms by (simp_all add: resv_ok_def remove_by_def distinct_map_filter_key)

lemma resv_ok_simps [simp]:
  "resv_ok (ns\<lparr>ns_gen := g\<rparr>) = resv_ok ns" "resv_ok (ns\<lparr>ns_ptpl_activated := b\<rparr>) = resv_ok ns"
  by (simp_all add: resv_ok_def)

lemma check_release_cases:
  obtains (Same) "check_release_on_remove_registrant ns reg = ns"
      "\<forall>h. ns_holder ns = Some h \<longrightarrow> h \<noteq> rg_addr reg"
  | (Next) n where "check_release_on_remove_registrant ns reg = ns\<lparr>ns_holder := Some (rg_addr n)\<rparr>"
      "n \<in> set (ns_registrants ns)"
  | (Released) "check_release_on_remove_registrant ns reg = release_reservation ns"
  by (cases "ns_registrants ns"; cases "ns_holder ns";
      cases "all_registrants_type ns"; cases "registrant_is_holder ns (Some reg)")
    (auto simp: check_release_on_remove_registrant_def registrant_is_holder_def split: if_splits)

lemma check_release_registrants [simp]:
  "ns_registrants (check_release_on_remove_registrant ns reg) = ns_registrants ns"
  by (rule check_release_cases [of ns reg]) (simp_all add: release_reservation_def)

lemma remove_registrant_registrants [simp]:
  "ns_registrants (remove_registrant r ns) = remove_by rg_addr (rg_addr r) (ns_registrants ns)"
  by (simp add: remove_registrant_def Let_def)

lemma resv_ok_remove [simp]:
  assumes "resv_ok ns"
  shows "resv_ok (remove_registrant r ns)"
proof -
  let ?ns1 = "ns\<lparr>ns_registrants := remove_by rg_addr (rg_addr r) (ns_registrants ns)\<rparr>"
  note d = resv_ok_distinct_remove [OF assms]
  have "resv_ok (check_release_on_remove_registrant ?ns1 r)"
  proof (rule check_release_cases [of ?ns1 r])
    assume "check_release_on_remove_registrant ?ns1 r = ?ns1" "\<forall>h. ns_holder ?ns1 = Some h \<longrightarrow> h \<noteq> rg_addr r"
    with assms d show ?thesis by (auto simp: resv_ok_def)
  next
    fix n
    assume "check_release_on_remove_registrant ?ns1 r = ?ns1\<lparr>ns_holder := Some (rg_addr n)\<rparr>"
      "n \<in> set (ns_registrants ?ns1)"
    with assms d show ?thesis by (simp add: resv_ok_def)
  next
    assume "check_release_on_remove_registrant ?ns1 r = release_reservation ?ns1"
    with assms d show ?thesis by (simp add: resv_ok_def release_reservation_def)
  qed
  then show ?thesis by (simp add: remove_registrant_def Let_def)
qed

lemma resv_ok_fold_remove: "resv_ok ns \<Longrightarrow> resv_ok (fold remove_registrant rs ns)"
  by (induction rs arbitrary: ns) simp_all

lemma resv_ok_remove_if [simp]: "resv_ok ns \<Longrightarrow> resv_ok (fst (remove_registrants_if P ns))"
  by (simp add: remove_registrants_if_def resv_ok_fold_remove)

lemma resv_ok_remove_by_key [simp]: "resv_ok ns \<Longrightarrow> resv_ok (fst (remove_registrants_by_key k ns))"
  by (simp add: remove_registrants_by_key_def)

lemma resv_ok_remove_others [simp]: "resv_ok ns \<Longrightarrow> resv_ok (fst (remove_all_other_registrants r ns))"
  by (simp add: remove_all_other_registrants_def)

lemma resv_ok_clear [simp]: "resv_ok ns \<Longrightarrow> resv_ok (fst (clear_all_registrants ns))"
  by (simp add: clear_all_registrants_def)

lemma resv_ok_release [simp]: "resv_ok ns \<Longrightarrow> resv_ok (release_reservation ns)"
  by (simp add: resv_ok_def release_reservation_def)

lemma resv_ok_set_rkey [simp]:
  assumes a: "resv_ok ns" and k: "k \<noteq> 0"
  shows "resv_ok (set_rkey r k ns)"
proof -
  let ?f = "\<lambda>x. x\<lparr>rg_rkey := k\<rparr>"
  have m: "map rg_hostid (update_by rg_addr (rg_addr r) ?f (ns_registrants ns)) = map rg_hostid (ns_registrants ns)"
    "map rg_addr (update_by rg_addr (rg_addr r) ?f (ns_registrants ns)) = map rg_addr (ns_registrants ns)"
    by (simp_all add: update_by_map_same)
  have "rg_addr ` set (update_by rg_addr (rg_addr r) ?f (ns_registrants ns)) = rg_addr ` set (ns_registrants ns)"
    using m(2) by (metis list.set_map)
  then show ?thesis using a k m by (auto simp: resv_ok_def set_rkey_def set_update_by split: if_splits)
qed

lemma resv_ok_add:
  assumes "resv_ok ns" and "add_registrant mem hostid k ns = (rc, ns')"
    and "reservation_get_registrant (ns_registrants ns) hostid = None"
    and "\<forall>a. mem = Some a \<longrightarrow> a \<notin> rg_addr ` set (ns_registrants ns)" and "k \<noteq> 0"
  shows "resv_ok ns'"
  using assms by (auto simp: add_registrant_def resv_ok_def registrants.lookup_None_iff split: option.splits)

lemma resv_ok_acquire:
  assumes "resv_ok ns" and "reg \<in> set (ns_registrants ns)" and "rtype \<le> 6"
  shows "resv_ok (acquire_reservation k rtype reg ns)"
  using assms by (simp add: resv_ok_def acquire_reservation_def)

lemma remove_keeps_others:
  assumes "reg \<in> set (ns_registrants ns)" and "rg_addr reg \<noteq> rg_addr r"
  shows "reg \<in> set (ns_registrants (remove_registrant r ns))"
  using assms by simp

section \<open>The commands keep the invariant\<close>

lemma register_switch_ok:
  assumes "resv_ok ns" and "register_switch env hostid rrega iekey crkey nrkey u ns = (ns', st, u', no)"
    and "\<forall>a. re_calloc env = Some a \<longrightarrow> a \<notin> rg_addr ` set (ns_registrants ns)"
  shows "resv_ok ns'"
  using assms resv_ok_add [OF assms(1) _ _ assms(3)]
  by (auto simp: register_switch_def Let_def split: if_splits option.splits prod.splits)

text \<open>A register command ends in the switch, on the namespace with its persistence flag set as
  the command asks, or leaves the namespace alone.\<close>

lemma register_ptpl_cases:
  "register_ptpl cptpl ns = Some (ns1, u) \<Longrightarrow> \<exists>p. ns1 = ns\<lparr>ns_ptpl_activated := p\<rparr>"
  by (auto simp: register_ptpl_def split: if_splits intro: exI [of _ "ns_ptpl_activated ns"])

lemma reservation_register_cases:
  assumes "reservation_register env hostid rrega iekey cptpl data ns file = Inr res"
  obtains (Early) "rr_ns res = ns" "rr_status res = SC_INVALID_FIELD" "rr_file res = file"
  | (Switch) crkey nrkey u ns1 st where "data = Some (crkey, nrkey)"
      "register_ptpl cptpl ns = Some (ns1, u)"
      "register_switch env hostid rrega iekey crkey nrkey u ns1 = (rr_ns res, st, rr_update res, rr_notices res)"
      "\<not> rr_update res \<Longrightarrow> rr_status res = st \<and> rr_file res = file"
proof (cases data)
  case None
  with assms Early show thesis by (auto simp: reservation_register_def Let_def)
next
  case (Some k)
  obtain crkey nrkey where k: "k = (crkey, nrkey)" by (cases k)
  show thesis
  proof (cases "register_ptpl cptpl ns")
    case None
    with assms Some k Early show thesis by (auto simp: reservation_register_def Let_def)
  next
    case p: (Some r)
    obtain ns1 u where r: "r = (ns1, u)" by (cases r)
    obtain ns2 st u2 no where sw: "register_switch env hostid rrega iekey crkey nrkey u ns1 = (ns2, st, u2, no)"
      by (cases "register_switch env hostid rrega iekey crkey nrkey u ns1")
    have "rr_ns res = ns2 \<and> rr_update res = u2 \<and> rr_notices res = no \<and>
        (\<not> u2 \<longrightarrow> rr_status res = st \<and> rr_file res = file)"
      using assms by (auto simp: reservation_register_def Some k p r sw bindR_eq_Inr Let_def split: if_splits)
    then show thesis
      using sw by (intro Switch [OF Some [unfolded k] p [unfolded r]]) auto
  qed
qed

lemma reservation_register_ok:
  assumes "reservation_register env hostid rrega iekey cptpl data ns file = Inr res" and "resv_ok ns"
    and "\<forall>a. re_calloc env = Some a \<longrightarrow> a \<notin> rg_addr ` set (ns_registrants ns)"
  shows "resv_ok (rr_ns res)"
  using assms(1)
proof (cases rule: reservation_register_cases)
  case (Switch crkey nrkey u ns1 st)
  then show ?thesis
    using assms(2,3) register_ptpl_cases [OF Switch(2)] by (auto intro!: register_switch_ok [OF _ Switch(3)])
qed (use assms(2) in simp)

lemma get_registrant_member:
  "reservation_get_registrant regs u = Some r \<Longrightarrow> r \<in> set regs \<and> rg_hostid r = u"
  by (rule registrants.lookup_SomeD)

lemma acquire_preempt_ok:
  assumes "resv_ok ns" and "acquire_preempt hostid reg rtype crkey prkey ns = Inr (ns', st, u, old, rel)"
    and "reg \<in> set (ns_registrants ns)" and "rtype \<le> 6"
  shows "resv_ok ns'"
proof -
  have set: "resv_ok (ns\<lparr>ns_rtype := rtype\<rparr>)" if "ns_holder ns \<noteq> None"
    using assms(1,4) that by (auto simp: resv_ok_def)
  have take: "resv_ok (acquire_reservation crkey rtype reg (remove_registrant hr ns))"
    if "ns_holder ns = Some h" "\<not> registrant_is_holder ns (Some reg)"
      "List.find (\<lambda>r. rg_addr r = h) (ns_registrants ns) = Some hr" "\<not> all_registrants_type ns" for h hr
  proof -
    have "rg_addr reg \<noteq> rg_addr hr"
      using that by (auto simp: registrant_is_holder_def dest: find_SomeD)
    then show ?thesis
      using remove_keeps_others [OF assms(3)] assms(1,4) by (intro resv_ok_acquire) auto
  qed
  have key: "resv_ok n" if "remove_registrants_by_key prkey ns = (n, c)" for n c
    using resv_ok_remove_by_key [OF assms(1), of prkey] that by simp
  have others: "resv_ok (fst (remove_all_other_registrants reg ns))"
    and keyf: "resv_ok (fst (remove_registrants_by_key prkey ns))" using assms(1) by simp_all
  show ?thesis
    using assms(1,2) set take key keyf others
    by (auto simp: acquire_preempt_def Let_def inr_simps split: option.splits if_splits prod.splits)
qed

lemma acquire_switch_ok:
  assumes "resv_ok ns" and "acquire_switch hostid reg racqa rtype crkey prkey ns = Inr (ns', st, u, old, rel)"
    and "reg \<in> set (ns_registrants ns)" and "rtype \<le> 6"
  shows "resv_ok ns'"
  using assms(1,2) acquire_preempt_ok [OF assms(1) _ assms(3,4)] resv_ok_acquire [OF assms(1,3,4)]
  by (auto simp: acquire_switch_def split: if_splits)

lemma resv_exit_ns:
  "resv_exit env ns st u no file = Inr res \<Longrightarrow> rr_ns res = ns"
  by (auto simp: resv_exit_def bindR_eq_Inr split: if_splits)

lemma reservation_acquire_ok:
  assumes "reservation_acquire env hostid racqa iekey rtype data ns file = Inr res" and "resv_ok ns"
  shows "resv_ok (rr_ns res)"
proof -
  obtain ns1 st u old rel where
    r: "(case data of
              None \<Rightarrow> Inr (ns, SC_INVALID_FIELD, True, [], False)
            | Some (crkey, prkey) \<Rightarrow>
               if iekey \<or> rtype > 6 then Inr (ns, SC_INVALID_FIELD, False, [], False)
               else case reservation_get_registrant (ns_registrants ns) hostid of
                      None \<Rightarrow> Inr (ns, SC_RESERVATION_CONFLICT, False, [], False)
                    | Some reg \<Rightarrow>
                       if rg_rkey reg \<noteq> crkey then Inr (ns, SC_RESERVATION_CONFLICT, False, [], False)
                       else acquire_switch hostid reg racqa rtype crkey prkey ns) =
        (Inr (ns1, st, u, old, rel) :: fault + spdk_nvmf_ns \<times> nvme_sc \<times> bool \<times> uuid list \<times> bool)"
    and ex: "\<exists>no. resv_exit env ns1 st u no file = Inr res"
    using assms(1) by (fastforce simp: reservation_acquire_def bindR_eq_Inr Let_def)
  have "rr_ns res = ns1" using ex resv_exit_ns by blast
  moreover have "ns1 = ns \<or> (\<exists>reg crkey prkey. reservation_get_registrant (ns_registrants ns) hostid = Some reg \<and>
      rtype \<le> 6 \<and> acquire_switch hostid reg racqa rtype crkey prkey ns = Inr (ns1, st, u, old, rel))"
    using r by (auto split: option.splits if_splits simp: not_less)
  then have "resv_ok ns1"
    using assms(2) acquire_switch_ok [OF assms(2)] get_registrant_member by blast
  ultimately show ?thesis by simp
qed

lemma reservation_release_ok:
  assumes "reservation_release env hostid rrela iekey rtype data ns file = Inr res" and "resv_ok ns"
  shows "resv_ok (rr_ns res)"
  using assms
  by (auto simp: reservation_release_def Let_def split: option.splits if_splits dest!: resv_exit_ns)

section \<open>The namespace as a state machine\<close>

text \<open>One command at a time, as the subsystem's thread executes them. An allocation returns an
  address no registrant has.\<close>

datatype resv_cmd =
    CmdRegister u8 bool u8 "(u64 \<times> u64) option"
  | CmdAcquire u8 bool u8 "(u64 \<times> u64) option"
  | CmdRelease u8 bool u8 "u64 option"

record resv_event =
  ev_host :: uuid
  ev_cmd :: resv_cmd
  ev_json :: json_outcome
  ev_mem :: bool
  ev_ctrlrs :: "(addr \<times> uuid) list"

record resv_state =
  rs_ns :: spdk_nvmf_ns
  rs_file :: ptpl_store

definition fresh_registrant :: "spdk_nvmf_ns \<Rightarrow> addr" where
  "fresh_registrant ns = Suc (foldr max (map rg_addr (ns_registrants ns)) 0)"

definition resv_exec ::
    "resv_env \<Rightarrow> uuid \<Rightarrow> resv_cmd \<Rightarrow> spdk_nvmf_ns \<Rightarrow> ptpl_store \<Rightarrow> fault + resv_result" where
  "resv_exec env h c ns file =
     (case c of
        CmdRegister a i p d \<Rightarrow> reservation_register env h a i p d ns file
      | CmdAcquire a i t d \<Rightarrow> reservation_acquire env h a i t d ns file
      | CmdRelease a i t d \<Rightarrow> reservation_release env h a i t d ns file)"

definition event_env :: "(uuid \<Rightarrow> string) \<Rightarrow> spdk_nvmf_ns \<Rightarrow> resv_event \<Rightarrow> resv_env" where
  "event_env fmt ns e = \<lparr>re_fmt = fmt, re_ctrlrs = ev_ctrlrs e, re_json = ev_json e,
     re_calloc = (if ev_mem e then Some (fresh_registrant ns) else None)\<rparr>"

definition resv_step :: "(uuid \<Rightarrow> string) \<Rightarrow> resv_state \<Rightarrow> resv_event \<Rightarrow> fault + resv_state" where
  "resv_step fmt s e =
     bindR (resv_exec (event_env fmt (rs_ns s) e) (ev_host e) (ev_cmd e) (rs_ns s) (rs_file s))
       (\<lambda>res. Inr \<lparr>rs_ns = rr_ns res, rs_file = rr_file res\<rparr>)"

lemma fresh_registrant_not_used: "fresh_registrant ns \<notin> rg_addr ` set (ns_registrants ns)"
proof -
  have "x \<in> set xs \<Longrightarrow> rg_addr x \<le> foldr max (map rg_addr xs) 0" for x xs
    by (induction xs) (auto simp: le_max_iff_disj)
  then show ?thesis by (fastforce simp: fresh_registrant_def)
qed

lemma resv_exec_ok:
  assumes "resv_exec env h c ns file = Inr res" and "resv_ok ns"
    and "\<forall>a. re_calloc env = Some a \<longrightarrow> a \<notin> rg_addr ` set (ns_registrants ns)"
  shows "resv_ok (rr_ns res)"
  using assms
  by (cases c) (auto simp: resv_exec_def intro: reservation_register_ok reservation_acquire_ok reservation_release_ok)

interpretation resv: stepper "resv_step fmt" "\<lambda>s. resv_ok (rs_ns s)" for fmt
  using resv_exec_ok fresh_registrant_not_used
  by unfold_locales (fastforce simp: resv_step_def bindR_eq_Inr event_env_def)

definition empty_ns :: "u32 \<Rightarrow> uuid \<Rightarrow> string option \<Rightarrow> spdk_nvmf_ns" where
  "empty_ns nsid u f = \<lparr>ns_nsid = nsid, ns_bdev = Some u, ns_mask = 0, ns_gen = 0, ns_registrants = [],
     ns_crkey = 0, ns_rtype = 0, ns_holder = None, ns_ptpl_file = f, ns_ptpl_activated = False\<rparr>"

lemma resv_ok_empty [simp]: "resv_ok (empty_ns nsid u f)"
  by (simp add: resv_ok_def empty_ns_def)

text \<open>C34. Whatever commands hosts send, in any order, starting from a new namespace: a host has at
  most one registrant, its key is not zero, the holder is one of the registrants, and
  without a holder there is no reservation type and no reservation key.\<close>

theorem reservation_invariant:
  assumes "runR (resv_step fmt) \<lparr>rs_ns = empty_ns nsid u f, rs_file = file\<rparr> es = Inr s"
  shows "distinct (map rg_hostid (ns_registrants (rs_ns s))) \<and>
    (\<forall>r \<in> set (ns_registrants (rs_ns s)). rg_rkey r \<noteq> 0) \<and>
    (\<forall>h. ns_holder (rs_ns s) = Some h \<longrightarrow> h \<in> rg_addr ` set (ns_registrants (rs_ns s))) \<and>
    (ns_holder (rs_ns s) = None \<longrightarrow> ns_rtype (rs_ns s) = 0 \<and> ns_crkey (rs_ns s) = 0) \<and>
    ns_rtype (rs_ns s) \<le> 6"
proof -
  have "resv_ok (rs_ns \<lparr>rs_ns = empty_ns nsid u f, rs_file = file\<rparr>)" by simp
  from resv.run_inv [OF this assms] show ?thesis by (simp add: resv_ok_def)
qed

section \<open>Faults\<close>

lemma update_info_fault:
  assumes "update_reservation_info fmt jo ns file = Inl e" and "resv_ok ns"
  shows "e = OutOfBounds \<and> MAX_NUM_REGISTRANTS < length (ns_registrants ns)"
proof -
  have h: "\<exists>r. List.find (\<lambda>r. rg_addr r = h) (ns_registrants ns) = Some r" if "ns_holder ns = Some h" for h
    using that assms(2) find_None_iff' [of "\<lambda>r. rg_addr r = h" "ns_registrants ns"]
    by (cases "List.find (\<lambda>r. rg_addr r = h) (ns_registrants ns)") (auto simp: resv_ok_def)
  have "ns_rtype ns \<noteq> 0 \<Longrightarrow> \<exists>h. ns_holder ns = Some h"
    using assms(2) by (auto simp: resv_ok_def)
  then show ?thesis
    using assms(1) h
    by (fastforce simp: update_reservation_info_def bindR_eq_Inl split: option.splits if_splits)
qed

lemma fold_remove_length:
  "length (ns_registrants (fold remove_registrant rs ns)) \<le> length (ns_registrants ns)"
proof (induction rs arbitrary: ns)
  case (Cons r rs)
  have "length (ns_registrants (remove_registrant r ns)) \<le> length (ns_registrants ns)"
    by (simp add: remove_by_def)
  with Cons.IH [of "remove_registrant r ns"] show ?case by simp
qed simp

lemma remove_lengths:
  "length (ns_registrants (fst (remove_registrants_by_key k ns))) \<le> length (ns_registrants ns)"
  "length (ns_registrants (fst (remove_all_other_registrants r ns))) \<le> length (ns_registrants ns)"
  "length (ns_registrants (fst (clear_all_registrants ns))) \<le> length (ns_registrants ns)"
  "length (ns_registrants (remove_registrant r ns)) \<le> length (ns_registrants ns)"
  by (simp_all add: remove_registrants_by_key_def remove_all_other_registrants_def
      clear_all_registrants_def remove_registrants_if_def fold_remove_length remove_by_def)

lemma acquire_switch_length:
  assumes "acquire_switch hostid reg racqa rtype crkey prkey ns = Inr (ns', st, u, old, rel)"
  shows "length (ns_registrants ns') \<le> length (ns_registrants ns)"
proof -
  have k: "length (ns_registrants n) \<le> length (ns_registrants ns)"
    if "remove_registrants_by_key prkey ns = (n, c)" for n c
    using remove_lengths(1) [of prkey ns] that by simp
  show ?thesis
    using assms remove_lengths k
    by (auto simp: acquire_switch_def acquire_preempt_def acquire_reservation_def Let_def inr_simps
        split: if_splits option.splits prod.splits)
qed

lemma acquire_switch_no_fault:
  assumes "resv_ok ns"
  shows "acquire_switch hostid reg racqa rtype crkey prkey ns \<noteq> Inl e"
proof -
  have "List.find (\<lambda>r. rg_addr r = h) (ns_registrants ns) \<noteq> None" if "ns_holder ns = Some h" for h
    using that assms by (auto simp: find_None_iff' resv_ok_def)
  then show ?thesis
    by (auto simp: acquire_switch_def acquire_preempt_def Let_def split: option.splits prod.splits)
qed

lemma resv_exit_fault:
  "resv_exit env ns st u no file = Inl e \<Longrightarrow> resv_ok ns \<Longrightarrow>
     e = OutOfBounds \<and> MAX_NUM_REGISTRANTS < length (ns_registrants ns)"
  by (auto simp: resv_exit_def bindR_eq_Inl dest: update_info_fault split: if_splits prod.splits)

lemma reservation_acquire_fault:
  assumes "reservation_acquire env hostid racqa iekey rtype data ns file = Inl e" and "resv_ok ns"
  shows "e = OutOfBounds \<and> MAX_NUM_REGISTRANTS < length (ns_registrants ns)"
proof -
  define r where "r = (case data of
              None \<Rightarrow> Inr (ns, SC_INVALID_FIELD, True, [], False)
            | Some (crkey, prkey) \<Rightarrow>
               if iekey \<or> rtype > 6 then Inr (ns, SC_INVALID_FIELD, False, [], False)
               else case reservation_get_registrant (ns_registrants ns) hostid of
                      None \<Rightarrow> Inr (ns, SC_RESERVATION_CONFLICT, False, [], False)
                    | Some reg \<Rightarrow>
                       if rg_rkey reg \<noteq> crkey then Inr (ns, SC_RESERVATION_CONFLICT, False, [], False)
                       else acquire_switch hostid reg racqa rtype crkey prkey ns)"
  have nf: "r \<noteq> Inl e'" for e'
    using acquire_switch_no_fault [OF assms(2)] by (auto simp: r_def split: option.splits prod.splits)
  then obtain ns1 st u old rel where r: "r = Inr (ns1, st, u, old, rel)" by (cases r) auto
  have "ns1 = ns \<or> (\<exists>reg crkey prkey. reservation_get_registrant (ns_registrants ns) hostid = Some reg \<and>
      rtype \<le> 6 \<and> acquire_switch hostid reg racqa rtype crkey prkey ns = Inr (ns1, st, u, old, rel))"
    using r unfolding r_def by (auto split: option.splits if_splits simp: not_less)
  then have ok: "resv_ok ns1 \<and> length (ns_registrants ns1) \<le> length (ns_registrants ns)"
  proof (elim disjE exE conjE)
    fix reg crkey prkey
    assume g: "reservation_get_registrant (ns_registrants ns) hostid = Some reg" and t: "rtype \<le> 6"
      and a: "acquire_switch hostid reg racqa rtype crkey prkey ns = Inr (ns1, st, u, old, rel)"
    show ?thesis
      using acquire_switch_ok [OF assms(2) a _ t] get_registrant_member [OF g] acquire_switch_length [OF a] by simp
  qed (use assms(2) in simp)
  have "\<exists>no. resv_exit env ns1 st u no file = Inl e"
    using assms(1) r unfolding reservation_acquire_def r_def [symmetric] by (simp add: Let_def) blast
  then show ?thesis using resv_exit_fault [of env ns1] ok by force
qed

lemma reservation_release_fault:
  assumes "reservation_release env hostid rrela iekey rtype data ns file = Inl e" and "resv_ok ns"
  shows "e = OutOfBounds \<and> MAX_NUM_REGISTRANTS < length (ns_registrants ns)"
proof -
  have x: "resv_ok n \<Longrightarrow> length (ns_registrants n) \<le> length (ns_registrants ns) \<Longrightarrow>
      resv_exit env n st u no file = Inl e \<Longrightarrow> ?thesis" for n st u no
    using resv_exit_fault [of env n st u no] by fastforce
  note xs = x [OF assms(2) order_refl]
    x [OF resv_ok_clear [OF assms(2)] remove_lengths(3)] x [OF resv_ok_release [OF assms(2)]]
  have "length (ns_registrants (release_reservation ns)) \<le> length (ns_registrants ns)"
    by (simp add: release_reservation_def)
  with assms(1) xs show ?thesis
    by (fastforce simp: reservation_release_def Let_def split: option.splits if_splits)
qed

lemma reservation_register_fault:
  assumes "reservation_register env hostid rrega iekey cptpl data ns file = Inl e" and "resv_ok ns"
    and "\<forall>a. re_calloc env = Some a \<longrightarrow> a \<notin> rg_addr ` set (ns_registrants ns)"
  shows "e = OutOfBounds \<and> MAX_NUM_REGISTRANTS \<le> length (ns_registrants ns)"
proof -
  obtain crkey nrkey where d: "data = Some (crkey, nrkey)"
    using assms(1) by (cases data) (auto simp: reservation_register_def Let_def)
  obtain ns1 u where p: "register_ptpl cptpl ns = Some (ns1, u)"
    using assms(1) d by (cases "register_ptpl cptpl ns") (auto simp: reservation_register_def Let_def)
  obtain ns2 st u2 no where sw: "register_switch env hostid rrega iekey crkey nrkey u ns1 = (ns2, st, u2, no)"
    by (cases "register_switch env hostid rrega iekey crkey nrkey u ns1")
  have ns1: "resv_ok ns1" "ns_registrants ns1 = ns_registrants ns"
    using register_ptpl_cases [OF p] assms(2) by auto
  have "resv_ok ns2" using register_switch_ok [OF ns1(1) sw] assms(3) ns1(2) by simp
  moreover have "update_reservation_info (re_fmt env) (re_json env) ns2 file = Inl e"
    using assms(1) d p sw by (auto simp: reservation_register_def Let_def bindR_eq_Inl split: if_splits)
  ultimately have "e = OutOfBounds \<and> MAX_NUM_REGISTRANTS < length (ns_registrants ns2)"
    by (intro update_info_fault)
  moreover have "length (ns_registrants ns2) \<le> Suc (length (ns_registrants ns1))"
    using sw remove_lengths(4) [of _ ns1]
    by (auto simp: register_switch_def Let_def add_registrant_def set_rkey_def le_SucI
        split: if_splits option.splits)
  ultimately show ?thesis using ns1(2) by simp
qed

text \<open>In a consistent state with fewer than sixteen registrants no command faults; the only
  fault there is writes the seventeenth registrant past the end of
  \<open>info.registrants\<close> on its way to the persistence file.\<close>

theorem commands_fault_only_out_of_registrants:
  assumes "resv_step fmt s e = Inl flt" and "resv_ok (rs_ns s)"
  shows "flt = OutOfBounds \<and> MAX_NUM_REGISTRANTS \<le> length (ns_registrants (rs_ns s))"
proof -
  let ?env = "event_env fmt (rs_ns s) e"
  have f: "\<forall>a. re_calloc ?env = Some a \<longrightarrow> a \<notin> rg_addr ` set (ns_registrants (rs_ns s))"
    using fresh_registrant_not_used by (simp add: event_env_def)
  have "resv_exec ?env (ev_host e) (ev_cmd e) (rs_ns s) (rs_file s) = Inl flt"
    using assms(1) by (auto simp: resv_step_def bindR_eq_Inl)
  then show ?thesis
    using reservation_register_fault [OF _ assms(2) f] reservation_acquire_fault [OF _ assms(2)]
      reservation_release_fault [OF _ assms(2)]
    by (cases "ev_cmd e") (fastforce simp: resv_exec_def)+
qed

section \<open>Concrete runs\<close>

definition demo_register :: "uuid \<Rightarrow> u64 \<Rightarrow> resv_event" where
  "demo_register h k = \<lparr>ev_host = h, ev_cmd = CmdRegister 0 False 0 (Some (0, k)), ev_json = JsonOk,
     ev_mem = True, ev_ctrlrs = []\<rparr>"

theorem reservation_invariant_witness:
  "\<exists>s. runR (resv_step (\<lambda>u. [])) \<lparr>rs_ns = empty_ns 1 7 None, rs_file = None\<rparr>
      [demo_register 100 11, demo_register 200 22] = Inr s \<and>
    distinct (map rg_hostid (ns_registrants (rs_ns s))) \<and> length (ns_registrants (rs_ns s)) = 2"
proof -
  obtain s where s: "runR (resv_step (\<lambda>u. [])) \<lparr>rs_ns = empty_ns 1 7 None, rs_file = None\<rparr>
      [demo_register 100 11, demo_register 200 22] = Inr s" and l: "length (ns_registrants (rs_ns s)) = 2"
    by (simp add: resv_step_def resv_exec_def demo_register_def event_env_def reservation_register_def
        register_ptpl_def register_switch_def empty_ns_def reservation_get_registrant_def
        add_registrant_def update_reservation_info_def Let_def)
  from reservation_invariant [OF s] s l show ?thesis by blast
qed

definition crowded_ns :: spdk_nvmf_ns where
  "crowded_ns = (empty_ns 1 7 (Some ''ptpl''))\<lparr>ns_registrants :=
     map (\<lambda>i. \<lparr>rg_addr = Suc i, rg_hostid = of_nat i + 1, rg_rkey = 5\<rparr>) [0..<16], ns_ptpl_activated := True\<rparr>"

lemma crowded_ns_ok: "resv_ok crowded_ns"
proof -
  have u: "[0..<16] = [0, 1, 2, 3, 4, 5, 6, 7, 8, 9, 10, 11, 12, 13, 14, 15::nat]"
    by (simp add: upt_rec)
  show ?thesis by (simp add: resv_ok_def crowded_ns_def empty_ns_def u)
qed

theorem commands_fault_only_out_of_registrants_witness:
  "resv_step (\<lambda>u. []) \<lparr>rs_ns = crowded_ns, rs_file = None\<rparr> (demo_register 100 11) = Inl OutOfBounds \<and>
    MAX_NUM_REGISTRANTS \<le> length (ns_registrants crowded_ns)"
proof -
  have u: "[0..<16] = [0, 1, 2, 3, 4, 5, 6, 7, 8, 9, 10, 11, 12, 13, 14, 15::nat]"
    by (simp add: upt_rec)
  obtain flt where f: "resv_step (\<lambda>u. []) \<lparr>rs_ns = crowded_ns, rs_file = None\<rparr> (demo_register 100 11) = Inl flt"
    by (simp add: resv_step_def resv_exec_def demo_register_def event_env_def reservation_register_def
        register_ptpl_def register_switch_def crowded_ns_def empty_ns_def reservation_get_registrant_def
        add_registrant_def update_reservation_info_def Let_def u)
  have "resv_ok (rs_ns \<lparr>rs_ns = crowded_ns, rs_file = None\<rparr>)" using crowded_ns_ok by simp
  from commands_fault_only_out_of_registrants [OF f this] f show ?thesis by simp
qed

end
