(* ===== verification/Reservation_Policy.thy ===== *)
theory Reservation_Policy
  imports Reservation_Props
begin

text \<open>
  Reservations seen from outside: what a host without a valid registration can do, what
  preempting does, which I/O the poll groups let through, what survives a power loss, what
  a report contains.
\<close>

section \<open>Hosts without a valid registration\<close>

definition not_registered_with :: "uuid \<Rightarrow> u64 \<Rightarrow> spdk_nvmf_ns \<Rightarrow> bool" where
  "not_registered_with h k ns \<longleftrightarrow>
     (\<forall>r \<in> set (ns_registrants ns). rg_hostid r = h \<longrightarrow> rg_rkey r \<noteq> k)"

text \<open>C35. A host that is not registered, or gives a key that is not its own, cannot acquire,
  preempt, release or clear anything: the command ends in a reservation conflict, the
  namespace and the persistence file stay as they are, nobody is notified.\<close>

theorem outsiders_change_nothing:
  assumes "not_registered_with h k ns" and "rtype \<le> 6"
  shows "reservation_acquire env h racqa False rtype (Some (k, prkey)) ns fil =
      Inr \<lparr>rr_ns = ns, rr_status = SC_RESERVATION_CONFLICT, rr_update = False, rr_notices = [], rr_file = fil\<rparr>
    \<and> reservation_release env h rrela False t (Some k) ns fil =
      Inr \<lparr>rr_ns = ns, rr_status = SC_RESERVATION_CONFLICT, rr_update = False, rr_notices = [], rr_file = fil\<rparr>"
proof (cases "reservation_get_registrant (ns_registrants ns) h")
  case None
  then show ?thesis
    using assms(2)
    by (simp add: reservation_acquire_def reservation_release_def resv_exit_def Let_def not_less)
next
  case (Some r)
  then have "rg_rkey r \<noteq> k"
    using assms(1) get_registrant_member [OF Some] by (simp add: not_registered_with_def)
  with Some show ?thesis
    using assms(2)
    by (simp add: reservation_acquire_def reservation_release_def resv_exit_def Let_def not_less)
qed

definition sample_ns :: spdk_nvmf_ns where
  "sample_ns = (empty_ns 1 7 (Some ''ptpl''))\<lparr>ns_registrants :=
     [\<lparr>rg_addr = 1, rg_hostid = 100, rg_rkey = 11\<rparr>, \<lparr>rg_addr = 2, rg_hostid = 200, rg_rkey = 22\<rparr>],
     ns_rtype := 1, ns_crkey := 11, ns_holder := Some 1, ns_ptpl_activated := True\<rparr>"

lemma sample_ns_simps [simp]:
  "ns_registrants sample_ns =
     [\<lparr>rg_addr = 1, rg_hostid = 100, rg_rkey = 11\<rparr>, \<lparr>rg_addr = 2, rg_hostid = 200, rg_rkey = 22\<rparr>]"
  "ns_rtype sample_ns = 1" "ns_crkey sample_ns = 11" "ns_holder sample_ns = Some 1"
  "ns_ptpl_activated sample_ns" "ns_bdev sample_ns = Some 7" "ns_ptpl_file sample_ns = Some ''ptpl''"
  by (simp_all add: sample_ns_def empty_ns_def)

lemma resv_ok_sample [simp]: "resv_ok sample_ns"
  by (simp add: resv_ok_def)

definition sample_renv :: resv_env where
  "sample_renv = \<lparr>re_fmt = \<lambda>u. replicate (unat u) CHR ''x'', re_ctrlrs = [(50, 100), (51, 200)],
     re_json = JsonOk, re_calloc = Some 9\<rparr>"

theorem outsiders_change_nothing_witness:
  "reservation_release sample_renv 300 RELEASE_CLEAR False 0 (Some 11) sample_ns None =
     Inr \<lparr>rr_ns = sample_ns, rr_status = SC_RESERVATION_CONFLICT, rr_update = False, rr_notices = [], rr_file = None\<rparr>"
proof -
  have "not_registered_with 300 11 sample_ns" by (simp add: not_registered_with_def)
  from outsiders_change_nothing [OF this, of 0] show ?thesis by simp
qed

section \<open>Preempting\<close>

text \<open>A registrant that preempts the holder of a single-holder reservation with the
  reservation's key takes the reservation over with the type it asks for and unregisters the
  former holder, and only it.\<close>

theorem preempt_takes_over:
  assumes "resv_ok ns" and "hr \<in> set (ns_registrants ns)" and "ns_holder ns = Some (rg_addr hr)"
    and "reg \<in> set (ns_registrants ns)" and "rg_hostid reg \<noteq> rg_hostid hr" and "\<not> all_registrants_type ns"
    and "rtype \<le> 6" and "ns_rtype ns \<noteq> 0"
    and "reservation_acquire env (rg_hostid reg) ACQUIRE_PREEMPT False rtype
           (Some (rg_rkey reg, ns_crkey ns)) ns fil = Inr res"
  shows "ns_registrants (rr_ns res) = remove_by rg_addr (rg_addr hr) (ns_registrants ns) \<and>
    ns_holder (rr_ns res) = Some (rg_addr reg) \<and> ns_rtype (rr_ns res) = rtype \<and>
    ns_crkey (rr_ns res) = rg_rkey reg \<and> rr_update res"
proof -
  have d: "distinct (map rg_hostid (ns_registrants ns))" "distinct (map rg_addr (ns_registrants ns))"
    using assms(1) by (simp_all add: resv_ok_def)
  have g: "reservation_get_registrant (ns_registrants ns) (rg_hostid reg) = Some reg"
    using registrants.lookup_eq_Some [OF d(1)] assms(4) by simp
  have ne: "rg_addr reg \<noteq> rg_addr hr"
    using assms(2,4,5) d(2) by (auto simp: distinct_map dest: inj_onD)
  have f: "List.find (\<lambda>r. rg_addr r = rg_addr hr) (ns_registrants ns) = Some hr"
    using assms(2) d(2) by (simp add: find_Some_iff_distinct)
  have nh: "\<not> registrant_is_holder ns (Some reg)"
    using assms(3,6) ne by (simp add: registrant_is_holder_def)
  let ?ns1 = "acquire_reservation (rg_rkey reg) rtype reg (remove_registrant hr ns)"
  have p: "acquire_preempt (rg_hostid reg) reg rtype (rg_rkey reg) (ns_crkey ns) ns =
      Inr (?ns1, SC_SUCCESS, True, get_all_other_hostid ns MAX_NUM_REGISTRANTS (rg_hostid reg), True)"
    using assms(3,6) nh f by (simp add: acquire_preempt_def Let_def)
  have t: "\<not> 6 < rtype" using assms(7) by (rule leD)
  have "\<exists>no. resv_exit env ?ns1 SC_SUCCESS True no fil = Inr res"
    using assms(9) t g p
    by (simp add: reservation_acquire_def acquire_switch_def Let_def) blast
  then have "rr_ns res = ?ns1 \<and> rr_update res"
    by (auto simp: resv_exit_def bindR_eq_Inr split: if_splits)
  then show ?thesis by (simp add: acquire_reservation_def)
qed

theorem preempt_takes_over_witness:
  "\<exists>res. reservation_acquire sample_renv 200 ACQUIRE_PREEMPT False 2 (Some (22, 11)) sample_ns None = Inr res \<and>
     ns_registrants (rr_ns res) = [\<lparr>rg_addr = 2, rg_hostid = 200, rg_rkey = 22\<rparr>] \<and>
     ns_holder (rr_ns res) = Some 2 \<and> ns_rtype (rr_ns res) = 2"
proof -
  let ?h = "\<lparr>rg_addr = 1, rg_hostid = 100, rg_rkey = 11\<rparr>" and ?r = "\<lparr>rg_addr = 2, rg_hostid = 200, rg_rkey = 22\<rparr>"
  have h: "?h \<in> set (ns_registrants sample_ns)" "ns_holder sample_ns = Some (rg_addr ?h)"
    "?r \<in> set (ns_registrants sample_ns)" "rg_hostid ?r \<noteq> rg_hostid ?h" "\<not> all_registrants_type sample_ns"
    "(2::u8) \<le> 6" "ns_rtype sample_ns \<noteq> 0"
    by (simp_all add: all_registrants_type_def)
  have "\<exists>res. reservation_acquire sample_renv 200 ACQUIRE_PREEMPT False 2 (Some (22, 11)) sample_ns None = Inr res"
    using reservation_acquire_fault [OF _ resv_ok_sample, of sample_renv 200 ACQUIRE_PREEMPT False 2 "Some (22, 11)" None]
    by (cases "reservation_acquire sample_renv 200 ACQUIRE_PREEMPT False 2 (Some (22, 11)) sample_ns None") auto
  then obtain res where r: "reservation_acquire sample_renv (rg_hostid ?r) ACQUIRE_PREEMPT False 2
      (Some (rg_rkey ?r, ns_crkey sample_ns)) sample_ns None = Inr res"
    by auto
  from preempt_takes_over [OF resv_ok_sample h r] r show ?thesis by auto
qed

section \<open>Which I/O is let through\<close>

text \<open>The access policy of NVMe reservations, on the namespace itself. A host is a registrant
  when it has one; for the all-registrants types every registrant is a holder.\<close>

datatype io_class = ReadAccess | WriteAccess

definition is_registrant_of :: "spdk_nvmf_ns \<Rightarrow> uuid \<Rightarrow> bool" where
  "is_registrant_of ns h \<longleftrightarrow> h \<in> rg_hostid ` set (ns_registrants ns)"

definition is_holder_of :: "spdk_nvmf_ns \<Rightarrow> uuid \<Rightarrow> bool" where
  "is_holder_of ns h \<longleftrightarrow>
     (\<exists>r \<in> set (ns_registrants ns). rg_hostid r = h \<and>
        (all_registrants_type ns \<or> ns_holder ns = Some (rg_addr r)))"

definition resv_allows :: "spdk_nvmf_ns \<Rightarrow> uuid \<Rightarrow> io_class \<Rightarrow> bool" where
  "resv_allows ns h acc \<longleftrightarrow>
     ns_rtype ns = 0 \<or> is_holder_of ns h \<or>
     (case acc of
        ReadAccess \<Rightarrow> ns_rtype ns \<in> {1, 3, 5} \<or> ns_rtype ns \<in> {4, 6} \<and> is_registrant_of ns h
      | WriteAccess \<Rightarrow> ns_rtype ns \<in> {3, 4, 5, 6} \<and> is_registrant_of ns h)"

definition opc_access :: "nvm_opc \<Rightarrow> io_class option" where
  "opc_access opc =
     (if opc \<in> {OPC_READ, OPC_COMPARE} then Some ReadAccess
      else if opc \<in> {OPC_FLUSH, OPC_WRITE, OPC_WRITE_UNCORRECTABLE, OPC_WRITE_ZEROES, OPC_DATASET_MANAGEMENT}
      then Some WriteAccess else None)"

lemma word_le_6_cases:
  assumes "(t::u8) \<le> 6"
  obtains "t = 0" | "t = 1" | "t = 2" | "t = 3" | "t = 4" | "t = 5" | "t = 6"
proof -
  have "unat t \<le> 6" using assms by (simp add: word_le_nat_alt)
  then have "unat t = 0 \<or> unat t = 1 \<or> unat t = 2 \<or> unat t = 3 \<or> unat t = 4 \<or> unat t = 5 \<or> unat t = 6"
    by auto
  moreover have "unat t = k \<Longrightarrow> t = of_nat k" for k by (metis of_nat_unat ucast_id)
  ultimately show thesis using that by fastforce
qed

lemma find_holder:
  assumes "resv_ok ns" and "ns_holder ns = Some h"
  obtains r where "List.find (\<lambda>r. rg_addr r = h) (ns_registrants ns) = Some r"
    "r \<in> set (ns_registrants ns)" "rg_addr r = h"
  using assms find_None_iff' [of "\<lambda>r. rg_addr r = h" "ns_registrants ns"]
  by (cases "List.find (\<lambda>r. rg_addr r = h) (ns_registrants ns)") (auto simp: resv_ok_def dest: find_SomeD)

lemma pg_update_result:
  assumes "resv_ok ns" and "length (ns_registrants ns) \<le> MAX_NUM_REGISTRANTS"
    and "pg_update_reservation ns info = Inr (rc, info')" and "h \<noteq> 0"
  shows "rc = 0" and "pgn_rtype info' = ns_rtype ns"
    and "ns_info_ctrlr_is_registrant info' h = is_registrant_of ns h"
    and "ns_rtype ns \<noteq> 0 \<Longrightarrow>
      (pgn_holder_id info' = h) = (\<exists>r \<in> set (ns_registrants ns). rg_hostid r = h \<and> ns_holder ns = Some (rg_addr r))"
proof -
  have i: "rc = 0 \<and> pgn_rtype info' = ns_rtype ns \<and> pgn_reg_hostid info' =
      take MAX_NUM_REGISTRANTS (map rg_hostid (ns_registrants ns) @ replicate MAX_NUM_REGISTRANTS 0)"
    using assms(2,3) by (auto simp: pg_update_reservation_def bindR_eq_Inr Let_def)
  then show "rc = 0" and "pgn_rtype info' = ns_rtype ns" by simp_all
  show "ns_info_ctrlr_is_registrant info' h = is_registrant_of ns h"
    using i assms(2,4) by (auto simp: ns_info_ctrlr_is_registrant_def is_registrant_of_def)
  assume nz: "ns_rtype ns \<noteq> 0"
  then obtain a where a: "ns_holder ns = Some a" using assms(1) by (auto simp: resv_ok_def)
  obtain r where r: "List.find (\<lambda>r. rg_addr r = a) (ns_registrants ns) = Some r"
      "r \<in> set (ns_registrants ns)" "rg_addr r = a"
    by (rule find_holder [OF assms(1) a])
  have "pgn_holder_id info' = rg_hostid r"
    using assms(3) a r by (auto simp: pg_update_reservation_def bindR_eq_Inr Let_def)
  moreover have uniq: "r' = r" if "r' \<in> set (ns_registrants ns)" "rg_addr r' = a" for r'
  proof -
    have "inj_on rg_addr (set (ns_registrants ns))"
      using assms(1) by (simp add: resv_ok_def distinct_map)
    then show ?thesis using that r(2,3) by (simp add: inj_on_def)
  qed
  ultimately show "(pgn_holder_id info' = h) =
      (\<exists>r \<in> set (ns_registrants ns). rg_hostid r = h \<and> ns_holder ns = Some (rg_addr r))"
    using a r(2,3) by (metis option.inject)
qed

text \<open>The check looks at a list of opcodes; every other one passes, also the Copy command, which writes.\<close>

lemma unlisted_opcode_passes: "reservation_request_check info h (OPC_OTHER opc) racqa = None"
  by (simp add: reservation_request_check_def Let_def)

text \<open>C28. The check of a request in its poll group implements the access policy for the commands Read,
  Compare, Flush, Write, Write Uncorrectable, Write Zeroes and Dataset Management: once the poll
  group's copy has been updated, with at most 16 registrants and for every host id but zero, such
  a command is let through exactly when the policy allows it, and stopped with a reservation
  conflict otherwise. A Copy command is never stopped (\<open>unlisted_opcode_passes\<close>), and the host id
  zero passes for a registrant (\<open>zero_hostid_passes_for_registrant\<close>).\<close>

theorem request_check_implements_policy:
  assumes "resv_ok ns" and "length (ns_registrants ns) \<le> MAX_NUM_REGISTRANTS"
    and "pg_update_reservation ns info = Inr (rc, info')" and "h \<noteq> 0" and "opc_access opc = Some acc"
  shows "reservation_request_check info' h opc racqa =
    (if resv_allows ns h acc then None else Some SC_RESERVATION_CONFLICT)"
proof -
  note u = pg_update_result [OF assms(1-4)]
  define R where "R = is_registrant_of ns h"
  define H where "H = (\<exists>r \<in> set (ns_registrants ns). rg_hostid r = h \<and> ns_holder ns = Some (rg_addr r))"
  have hold: "is_holder_of ns h = (all_registrants_type ns \<and> R \<or> H)"
    by (auto simp: is_holder_of_def R_def H_def is_registrant_of_def)
  have reg: "ns_info_ctrlr_is_registrant info' h = R" and holder: "ns_rtype ns \<noteq> 0 \<Longrightarrow> (pgn_holder_id info' = h) = H"
    using u(3,4) by (simp_all add: R_def H_def)
  have "ns_rtype ns \<le> 6" using assms(1) by (simp add: resv_ok_def)
  then show ?thesis
  proof (cases rule: word_le_6_cases)
    case 1
    then show ?thesis using u(2) by (simp add: reservation_request_check_def resv_allows_def)
  qed (use holder assms(5) in \<open>cases opc; cases R; cases H;
      simp add: reservation_request_check_def resv_allows_def opc_access_def hold reg u(2)
        all_registrants_type_def R_def [symmetric]\<close>)+
qed

theorem request_check_implements_policy_witness:
  "\<exists>info'. pg_update_reservation sample_ns \<lparr>pgn_crkey = 0, pgn_rtype = 0, pgn_holder_id = 0,
      pgn_reg_hostid = replicate 16 0\<rparr> = Inr (0, info') \<and>
    reservation_request_check info' 200 OPC_WRITE 0 = Some SC_RESERVATION_CONFLICT \<and>
    reservation_request_check info' 200 OPC_READ 0 = None"
proof -
  let ?info = "\<lparr>pgn_crkey = 0, pgn_rtype = 0, pgn_holder_id = 0, pgn_reg_hostid = replicate 16 0\<rparr>"
  obtain info' where i: "pg_update_reservation sample_ns ?info = Inr (0, info')"
    by (simp add: pg_update_reservation_def Let_def)
  have l: "length (ns_registrants sample_ns) \<le> MAX_NUM_REGISTRANTS" by simp
  have o: "opc_access OPC_WRITE = Some WriteAccess" "opc_access OPC_READ = Some ReadAccess" "(200::uuid) \<noteq> 0"
    by (simp_all add: opc_access_def)
  have p: "\<not> resv_allows sample_ns 200 WriteAccess" "resv_allows sample_ns 200 ReadAccess"
    by (simp_all add: resv_allows_def is_holder_of_def all_registrants_type_def)
  show ?thesis
    using i p request_check_implements_policy [OF resv_ok_sample l i o(3) o(1), of 0]
      request_check_implements_policy [OF resv_ok_sample l i o(3) o(2), of 0] by auto
qed

text \<open>A host that connects with the all-zero host id passes for a registrant of every namespace
  with fewer than sixteen registrants, since the unused entries of the poll group's copy are
  zero: under a registrants-only or all-registrants reservation it may write although it
  never registered.\<close>

theorem zero_hostid_passes_for_registrant:
  assumes "length (ns_registrants ns) < MAX_NUM_REGISTRANTS"
    and "pg_update_reservation ns info = Inr (rc, info')" and "ns_rtype ns \<in> {3, 4, 5, 6}"
  shows "reservation_request_check info' 0 OPC_WRITE racqa = None"
proof -
  have "pgn_reg_hostid info' = take MAX_NUM_REGISTRANTS (map rg_hostid (ns_registrants ns) @ replicate MAX_NUM_REGISTRANTS 0)"
    and t: "pgn_rtype info' = ns_rtype ns"
    using assms(2) by (auto simp: pg_update_reservation_def bindR_eq_Inr Let_def)
  then have "ns_info_ctrlr_is_registrant info' 0"
    using assms(1) by (simp add: ns_info_ctrlr_is_registrant_def)
  then show ?thesis
    using assms(3) t by (auto simp: reservation_request_check_def Let_def)
qed

theorem zero_hostid_passes_for_registrant_witness:
  "\<exists>info'. pg_update_reservation (sample_ns\<lparr>ns_rtype := 3\<rparr>) \<lparr>pgn_crkey = 0, pgn_rtype = 0, pgn_holder_id = 0,
      pgn_reg_hostid = replicate 16 0\<rparr> = Inr (0, info') \<and>
    reservation_request_check info' 0 OPC_WRITE 0 = None"
proof -
  let ?info = "\<lparr>pgn_crkey = 0, pgn_rtype = 0, pgn_holder_id = 0, pgn_reg_hostid = replicate 16 0\<rparr>"
  obtain info' where i: "pg_update_reservation (sample_ns\<lparr>ns_rtype := 3\<rparr>) ?info = Inr (0, info')"
    by (simp add: pg_update_reservation_def Let_def)
  show ?thesis
    using i zero_hostid_passes_for_registrant [OF _ i, of 0] by simp
qed

section \<open>Through a power loss\<close>

text \<open>What the commands write while persistence is activated and the file can be written.\<close>

definition persisted :: "(uuid \<Rightarrow> string) \<Rightarrow> spdk_nvmf_ns \<Rightarrow> fault + int \<times> ptpl_store" where
  "persisted fmt ns = update_reservation_info fmt JsonOk ns None"

lemma persisted_eq:
  assumes "resv_ok ns" and "ns_ptpl_activated ns" and "ns_bdev ns = Some u" and "ns_ptpl_file ns = Some f"
    and "length (ns_registrants ns) \<le> MAX_NUM_REGISTRANTS"
  obtains hu where "persisted fmt ns = Inr (0, Some
       \<lparr>ri_ptpl_activated = True, ri_rtype = ns_rtype ns,
        ri_crkey = (if ns_rtype ns \<noteq> 0 then ns_crkey ns else 0), ri_bdev_uuid = fmt u, ri_holder_uuid = hu,
        ri_registrants = map (\<lambda>r. (rg_rkey r, fmt (rg_hostid r))) (ns_registrants ns)\<rparr>)"
    and "ns_rtype ns \<noteq> 0 \<Longrightarrow> \<not> all_registrants_type ns \<Longrightarrow>
      \<exists>r \<in> set (ns_registrants ns). ns_holder ns = Some (rg_addr r) \<and> hu = fmt (rg_hostid r)"
proof (cases "ns_rtype ns \<noteq> 0 \<and> \<not> all_registrants_type ns")
  case True
  then obtain h where h: "ns_holder ns = Some h" using assms(1) by (auto simp: resv_ok_def)
  obtain r where r: "List.find (\<lambda>r. rg_addr r = h) (ns_registrants ns) = Some r"
      "r \<in> set (ns_registrants ns)" "rg_addr r = h"
    by (rule find_holder [OF assms(1) h])
  show thesis
    using assms(2-5) True h r
    by (intro that [of "fmt (rg_hostid r)"])
      (auto simp: persisted_def update_reservation_info_def reservation_update_def)
next
  case False
  then show thesis
    using assms(2-5)
    by (intro that [of "''''"]) (auto simp: persisted_def update_reservation_info_def reservation_update_def)
qed

lemma restore_registrants_all:
  assumes "length mem = length rs" and "\<And>u. parse (fmt u) = Some u"
  shows "restore_registrants parse (map Some mem) (map (\<lambda>r. (rg_rkey r, fmt (rg_hostid r))) rs) ns =
    (0, ns\<lparr>ns_registrants := ns_registrants ns @ map2 (\<lambda>a r. r\<lparr>rg_addr := a\<rparr>) mem rs\<rparr>)"
  using assms(1)
proof (induction mem rs arbitrary: ns rule: list_induct2)
  case (Cons a mem r rs)
  then show ?case by (simp add: assms(2))
qed simp

lemma filter_hostid_map2:
  assumes "distinct (map rg_hostid rs)" and "length mem = length rs" and "k < length rs"
  shows "filter (\<lambda>r. rg_hostid r = rg_hostid (rs ! k)) (map2 (\<lambda>a r. r\<lparr>rg_addr := a\<rparr>) mem rs) =
    [(rs ! k)\<lparr>rg_addr := mem ! k\<rparr>]"
  using assms
proof (induction rs arbitrary: mem k)
  case (Cons r rs)
  obtain a as where m: "mem = a # as" using Cons.prems(2) by (cases mem) auto
  show ?case
  proof (cases k)
    case 0
    have "rg_hostid x \<noteq> rg_hostid r" if "x \<in> set (map2 (\<lambda>a r. r\<lparr>rg_addr := a\<rparr>) as rs)" for x
    proof -
      from that obtain b y where "(b, y) \<in> set (zip as rs)" "x = y\<lparr>rg_addr := b\<rparr>" by auto
      then have "y \<in> set rs" "rg_hostid x = rg_hostid y" by (auto dest: set_zip_rightD)
      then show ?thesis using Cons.prems(1) by (auto simp: image_iff)
    qed
    then show ?thesis by (simp add: 0 m filter_empty_conv)
  next
    case (Suc j)
    then have "rg_hostid (rs ! j) \<in> rg_hostid ` set rs" using Cons.prems(3) by simp
    then have "rg_hostid r \<noteq> rg_hostid (rs ! j)" using Cons.prems(1) by auto
    then show ?thesis using Suc m Cons.IH [of as j] Cons.prems by simp
  qed
qed simp

lemma map2_addr_same:
  "length mem = length rs \<Longrightarrow> map (\<lambda>r. (rg_hostid r, rg_rkey r)) (map2 (\<lambda>a r. r\<lparr>rg_addr := a\<rparr>) mem rs) =
     map (\<lambda>r. (rg_hostid r, rg_rkey r)) rs"
  by (induction mem rs rule: list_induct2) simp_all

text \<open>C36. A reservation survives a power loss when persistence was activated and the namespace has a
  file for it, the type is one with a holder (not 0), the reservation key is still the key of a registrant,
  there are at most 16 registrants, parsing a printed UUID gives it back, and at load the block device is
  the same and memory for the registrants can be allocated: loading what was written then gives the same registrants with the same keys, the same type and key,
  and the same host holds it (for the all-registrants types, the first registrant). When the
  holder has replaced its key it does not survive: see \<open>replace_key_breaks_persistence\<close>.\<close>

theorem reservation_survives_power_loss:
  assumes "resv_ok ns" and "ns_ptpl_activated ns" and "ns_bdev ns = Some u" and "ns_ptpl_file ns = Some f"
    and "length (ns_registrants ns) \<le> MAX_NUM_REGISTRANTS" and "ns_rtype ns \<noteq> 0"
    and "ns_crkey ns \<in> rg_rkey ` set (ns_registrants ns)"
    and parse: "\<And>u. parse (fmt u) = Some u" and len: "length mem = length (ns_registrants ns)"
  shows "\<exists>info ns'. persisted fmt ns = Inr (0, Some info) \<and>
    reservation_restore parse j1 j2 (map Some mem) info (empty_ns nsid u fl) = (0, ns') \<and>
    map (\<lambda>r. (rg_hostid r, rg_rkey r)) (ns_registrants ns') = map (\<lambda>r. (rg_hostid r, rg_rkey r)) (ns_registrants ns) \<and>
    ns_rtype ns' = ns_rtype ns \<and> ns_crkey ns' = ns_crkey ns \<and> ns_ptpl_activated ns' \<and>
    (\<exists>k < length mem. ns_holder ns' = Some (mem ! k) \<and>
       (if all_registrants_type ns then k = 0 else ns_holder ns = Some (rg_addr (ns_registrants ns ! k))))"
proof -
  let ?regs = "ns_registrants ns"
  let ?info = "\<lambda>hu. \<lparr>ri_ptpl_activated = True, ri_rtype = ns_rtype ns, ri_crkey = ns_crkey ns,
        ri_bdev_uuid = fmt u, ri_holder_uuid = hu,
        ri_registrants = map (\<lambda>r. (rg_rkey r, fmt (rg_hostid r))) ?regs\<rparr>"
  obtain hu where p: "persisted fmt ns = Inr (0, Some (?info hu))"
    and hu: "\<not> all_registrants_type ns \<Longrightarrow>
      \<exists>r \<in> set ?regs. ns_holder ns = Some (rg_addr r) \<and> hu = fmt (rg_hostid r)"
    by (rule persisted_eq [OF assms(1-5), of fmt]) (use assms(6) in simp)
  let ?new = "map2 (\<lambda>a r. r\<lparr>rg_addr := a\<rparr>) mem ?regs"
  let ?ns1 = "(empty_ns nsid u fl)\<lparr>ns_crkey := ns_crkey ns, ns_rtype := ns_rtype ns, ns_ptpl_activated := True\<rparr>"
  have ne: "?regs \<noteq> []" using assms(7) by auto
  have key: "ns_crkey ns \<in> set (map fst (ri_registrants (?info hu)))" using assms(7) by (auto simp: image_iff)
  have rr: "restore_registrants parse (map Some mem) (ri_registrants (?info hu)) ?ns1 = (0, ?ns1\<lparr>ns_registrants := ?new\<rparr>)"
    using restore_registrants_all [where parse = parse and fmt = fmt, OF len parse, of ?ns1]
    by (simp add: empty_ns_def)
  define ho where "ho = (if all_registrants_type ns then (case ?new of [] \<Rightarrow> None | r # _ \<Rightarrow> Some (rg_addr r))
      else last_with_hostid (case parse hu of Some x \<Rightarrow> x | None \<Rightarrow> j2) ?new)"
  have res: "reservation_restore parse j1 j2 (map Some mem) (?info hu) (empty_ns nsid u fl) =
      (0, ?ns1\<lparr>ns_registrants := ?new, ns_holder := ho\<rparr>)"
    using ne key rr parse
    by (simp add: reservation_restore_def Let_def ho_def all_registrants_type_def empty_ns_def)
  have "\<exists>k < length mem. ho = Some (mem ! k) \<and>
       (if all_registrants_type ns then k = 0 else ns_holder ns = Some (rg_addr (?regs ! k)))"
  proof (cases "all_registrants_type ns")
    case True
    obtain r rs where rs: "?regs = r # rs" using ne by (cases ?regs) auto
    then obtain a as where "mem = a # as" using len by (cases mem) auto
    with True rs show ?thesis by (auto simp: ho_def)
  next
    case False
    then obtain r where r: "r \<in> set ?regs" "ns_holder ns = Some (rg_addr r)" "hu = fmt (rg_hostid r)" using hu by blast
    then obtain k where k: "k < length ?regs" "?regs ! k = r" by (auto simp: in_set_conv_nth)
    have "distinct (map rg_hostid ?regs)" using assms(1) by (simp add: resv_ok_def)
    from filter_hostid_map2 [OF this len k(1)] have "ho = Some (mem ! k)"
      using False r(3) k(2) parse by (simp add: ho_def last_with_hostid_def)
    with k r(2) False len show ?thesis by auto
  qed
  then show ?thesis
    using p res map2_addr_same [OF len]
    by (intro exI [of _ "?info hu"] exI [of _ "?ns1\<lparr>ns_registrants := ?new, ns_holder := ho\<rparr>"]) simp
qed

text \<open>The identifiers as strings of as many \<open>x\<close>: a formatting that can be parsed back.\<close>

definition unary_fmt :: "uuid \<Rightarrow> string" where
  "unary_fmt u = replicate (unat u) CHR ''x''"

definition unary_parse :: "string \<Rightarrow> uuid option" where
  "unary_parse s = Some (of_nat (length s))"

lemma unary_roundtrip: "unary_parse (unary_fmt u) = Some u"
  by (simp add: unary_parse_def unary_fmt_def)

theorem reservation_survives_power_loss_witness:
  "\<exists>info ns'. persisted unary_fmt sample_ns = Inr (0, Some info) \<and>
    reservation_restore unary_parse 0 0 [Some 5, Some 6] info (empty_ns 1 7 None) = (0, ns') \<and>
    map (\<lambda>r. (rg_hostid r, rg_rkey r)) (ns_registrants ns') = [(100, 11), (200, 22)] \<and>
    ns_rtype ns' = 1 \<and> ns_crkey ns' = 11"
proof -
  have h: "length (ns_registrants sample_ns) \<le> MAX_NUM_REGISTRANTS" "ns_rtype sample_ns \<noteq> 0"
    "ns_crkey sample_ns \<in> rg_rkey ` set (ns_registrants sample_ns)"
    "length [5::addr, 6] = length (ns_registrants sample_ns)"
    by simp_all
  show ?thesis
    using reservation_survives_power_loss [where ns = sample_ns and parse = unary_parse and fmt = unary_fmt
        and mem = "[5, 6]" and u = 7 and f = "''ptpl''" and nsid = 1 and fl = None and ?j1.0 = 0 and ?j2.0 = 0,
        OF resv_ok_sample _ _ _ h(1-3) unary_roundtrip h(4)] by auto
qed

text \<open>Otherwise the load fails: when the namespace holds no reservation, or its key is no longer
  the key of any registrant, what was written is rejected with \<open>-EINVAL\<close>; adding the namespace
  again after the power loss then fails.\<close>

theorem restore_rejects:
  assumes "resv_ok ns" and "ns_ptpl_activated ns" and "ns_bdev ns = Some u" and "ns_ptpl_file ns = Some f"
    and "length (ns_registrants ns) \<le> MAX_NUM_REGISTRANTS" and "ns_registrants ns \<noteq> []"
    and "ns_rtype ns = 0 \<or> ns_crkey ns \<notin> rg_rkey ` set (ns_registrants ns)"
  shows "\<exists>info. persisted fmt ns = Inr (0, Some info) \<and>
    reservation_restore parse j1 j2 mem info ns0 = (- 22, ns0)"
proof -
  let ?info = "\<lambda>hu. \<lparr>ri_ptpl_activated = True, ri_rtype = ns_rtype ns,
        ri_crkey = (if ns_rtype ns \<noteq> 0 then ns_crkey ns else 0), ri_bdev_uuid = fmt u, ri_holder_uuid = hu,
        ri_registrants = map (\<lambda>r. (rg_rkey r, fmt (rg_hostid r))) (ns_registrants ns)\<rparr>"
  obtain hu where p: "persisted fmt ns = Inr (0, Some (?info hu))"
    by (rule persisted_eq [OF assms(1-5), of fmt])
  have keys: "set (map fst (ri_registrants (?info hu))) = rg_rkey ` set (ns_registrants ns)"
    by (simp add: comp_def)
  have "0 \<notin> rg_rkey ` set (ns_registrants ns)" using assms(1) by (auto simp: resv_ok_def)
  then have "ri_crkey (?info hu) \<notin> set (map fst (ri_registrants (?info hu)))"
    unfolding keys using assms(7) by auto
  with p assms(6) show ?thesis by (intro exI [of _ "?info hu"]) (simp add: reservation_restore_def)
qed

theorem restore_rejects_witness:
  "\<exists>info. persisted unary_fmt (release_reservation sample_ns) = Inr (0, Some info) \<and>
    reservation_restore unary_parse 0 0 [Some 5, Some 6] info (empty_ns 1 7 None) = (- 22, empty_ns 1 7 None)"
proof -
  let ?ns = "release_reservation sample_ns"
  have h: "resv_ok ?ns" "ns_ptpl_activated ?ns" "ns_bdev ?ns = Some 7" "ns_ptpl_file ?ns = Some ''ptpl''"
    "length (ns_registrants ?ns) \<le> MAX_NUM_REGISTRANTS" "ns_registrants ?ns \<noteq> []"
    "ns_rtype ?ns = 0 \<or> ns_crkey ?ns \<notin> rg_rkey ` set (ns_registrants ?ns)"
    by simp_all (simp_all add: release_reservation_def)
  show ?thesis by (rule restore_rejects [OF h])
qed

text \<open>A holder that replaces its key leaves the reservation's key behind: the command succeeds,
  the reservation key stays the old one, and if no other registrant has it, what the
  command wrote can no longer be loaded.\<close>

theorem replace_key_breaks_persistence:
  assumes "resv_ok ns" and "reg \<in> set (ns_registrants ns)" and "rg_rkey reg = ns_crkey ns"
    and "\<forall>r \<in> set (ns_registrants ns). rg_addr r \<noteq> rg_addr reg \<longrightarrow> rg_rkey r \<noteq> ns_crkey ns"
    and "nrkey \<noteq> 0" and "nrkey \<noteq> ns_crkey ns" and "cptpl = 0" and "ns_ptpl_activated ns"
    and "ns_bdev ns = Some u" and "ns_ptpl_file ns = Some f"
    and "length (ns_registrants ns) \<le> MAX_NUM_REGISTRANTS" and "re_json env = JsonOk" and "re_fmt env = fmt"
  shows "\<exists>res info. reservation_register env (rg_hostid reg) REPLACE_KEY False cptpl
        (Some (rg_rkey reg, nrkey)) ns None = Inr res \<and> rr_status res = SC_SUCCESS \<and>
      ns_crkey (rr_ns res) = ns_crkey ns \<and> rr_file res = Some info \<and>
      reservation_restore parse j1 j2 mem info ns0 = (- 22, ns0)"
proof -
  have "distinct (map rg_hostid (ns_registrants ns))" using assms(1) by (simp add: resv_ok_def)
  then have g: "reservation_get_registrant (ns_registrants ns) (rg_hostid reg) = Some reg"
    using registrants.lookup_eq_Some assms(2) by simp
  let ?ns2 = "set_rkey reg nrkey ns"
  have ok: "resv_ok ?ns2" using assms(1,5) by simp
  have ns2: "ns_ptpl_activated ?ns2" "ns_bdev ?ns2 = Some u" "ns_ptpl_file ?ns2 = Some f"
    "length (ns_registrants ?ns2) \<le> MAX_NUM_REGISTRANTS" "ns_registrants ?ns2 \<noteq> []" "ns_crkey ?ns2 = ns_crkey ns"
    using assms(2,8-11) by (auto simp: set_rkey_def update_by_def)
  have "ns_crkey ns \<notin> rg_rkey ` set (ns_registrants ?ns2)"
  proof
    assume "ns_crkey ns \<in> rg_rkey ` set (ns_registrants ?ns2)"
    then obtain y where y: "y \<in> set (ns_registrants ns)"
      "ns_crkey ns = rg_rkey (if rg_addr y = rg_addr reg then y\<lparr>rg_rkey := nrkey\<rparr> else y)"
      by (auto simp: set_rkey_def set_update_by)
    show False
    proof (cases "rg_addr y = rg_addr reg")
      case True
      then show False using y(2) assms(6) by simp
    next
      case False
      then have "rg_rkey y \<noteq> ns_crkey ns" using assms(4) y(1) by blast
      then show False using y(2) False by simp
    qed
  qed
  then obtain info where i: "persisted fmt ?ns2 = Inr (0, Some info)"
    and r: "reservation_restore parse j1 j2 mem info ns0 = (- 22, ns0)"
    using restore_rejects [OF ok ns2(1-5), of fmt parse j1 j2 mem ns0] ns2(6) by auto
  have sw: "register_switch env (rg_hostid reg) REPLACE_KEY False (rg_rkey reg) nrkey False ns =
      (?ns2, SC_SUCCESS, True, [])"
    using g assms(3,5,6) by (auto simp: register_switch_def Let_def)
  show ?thesis
    using i r sw assms(7,12,13) ns2(6)
    by (simp add: reservation_register_def register_ptpl_def persisted_def Let_def)
qed

theorem replace_key_breaks_persistence_witness:
  "\<exists>res info. reservation_register (sample_renv\<lparr>re_fmt := unary_fmt\<rparr>) 100 REPLACE_KEY False 0
        (Some (11, 33)) sample_ns None = Inr res \<and> rr_status res = SC_SUCCESS \<and> rr_file res = Some info \<and>
      reservation_restore unary_parse 0 0 [Some 5, Some 6] info (empty_ns 1 7 None) = (- 22, empty_ns 1 7 None)"
proof -
  let ?r = "\<lparr>rg_addr = 1, rg_hostid = 100, rg_rkey = 11\<rparr>" and ?env = "sample_renv\<lparr>re_fmt := unary_fmt\<rparr>"
  have h: "?r \<in> set (ns_registrants sample_ns)" "rg_rkey ?r = ns_crkey sample_ns"
    "\<forall>r \<in> set (ns_registrants sample_ns). rg_addr r \<noteq> rg_addr ?r \<longrightarrow> rg_rkey r \<noteq> ns_crkey sample_ns"
    "(33::u64) \<noteq> 0" "33 \<noteq> ns_crkey sample_ns" "(0::u8) = 0" "ns_ptpl_activated sample_ns"
    "ns_bdev sample_ns = Some 7" "ns_ptpl_file sample_ns = Some ''ptpl''"
    "length (ns_registrants sample_ns) \<le> MAX_NUM_REGISTRANTS" "re_json ?env = JsonOk" "re_fmt ?env = unary_fmt"
    by (simp_all add: sample_renv_def)
  show ?thesis
    using replace_key_breaks_persistence [OF resv_ok_sample h, where parse = unary_parse and ?j1.0 = 0
        and ?j2.0 = 0 and mem = "[Some 5, Some 6]" and ?ns0.0 = "empty_ns 1 7 None"]
    by auto
qed

section \<open>The report\<close>

lemma report_entries_take:
  assumes "unat plen + 64 * length rs < 2 ^ 32" and "plen \<le> tlen"
  shows "report_entries ns tlen plen rs = map (\<lambda>r. (ns_holder ns = Some (rg_addr r), rg_rkey r, rg_hostid r))
     (take ((unat tlen - unat plen) div 64) rs)"
  using assms
proof (induction rs arbitrary: plen)
  case (Cons r rs)
  have p: "unat (plen + 64) = unat plen + 64"
    using Cons.prems(1) by (subst unat_plus_if') simp
  show ?case
  proof (cases "plen + 64 > tlen")
    case True
    then have "unat tlen < unat plen + 64" using p by (simp add: word_less_nat_alt)
    then have "(unat tlen - unat plen) div 64 = 0" by simp
    with True show ?thesis by simp
  next
    case False
    then have le: "unat plen + 64 \<le> unat tlen" using p by (simp add: word_less_nat_alt not_less)
    then have "(unat tlen - unat plen) div 64 = Suc ((unat tlen - unat (plen + 64)) div 64)"
      using p le_div_geq [of 64 "unat tlen - unat plen"] by (simp add: diff_diff_left)
    then show ?thesis
      using False Cons.IH [of "plen + 64"] Cons.prems(1) p by (simp add: not_less)
  qed
qed simp

text \<open>A report of \<open>n\<close> dwords lists the registrants in order, as many of the first ones as fit
  behind the 64-byte header in the length the host asks for, each with its key, its host id
  and whether it is the holder, and counts them; it never needs more than that length.\<close>

theorem report_lists_registrants:
  assumes "64 * (length (ns_registrants ns) + 1) < 2 ^ 32" and "64 \<le> report_transfer_len cdw10"
  shows "\<exists>rep k. reservation_report True True cdw10 ns = (SC_SUCCESS, Some rep) \<and>
    k = min (length (ns_registrants ns)) ((unat (report_transfer_len cdw10) - 64) div 64) \<and>
    rp_ctrlrs rep = map (\<lambda>r. (ns_holder ns = Some (rg_addr r), rg_rkey r, rg_hostid r)) (take k (ns_registrants ns)) \<and>
    rp_regctl rep = k \<and> 64 + 64 * k \<le> unat (report_transfer_len cdw10) \<and>
    rp_gen rep = ns_gen ns \<and> rp_rtype rep = ns_rtype ns"
proof -
  let ?t = "report_transfer_len cdw10" and ?n = "length (ns_registrants ns)"
  let ?m = "(unat ?t - 64) div 64"
  have t: "64 \<le> unat ?t" using assms(2) by (simp add: word_le_nat_alt)
  have e: "report_entries ns ?t 64 (ns_registrants ns) =
      map (\<lambda>r. (ns_holder ns = Some (rg_addr r), rg_rkey r, rg_hostid r)) (take ?m (ns_registrants ns))"
    using report_entries_take [of 64 "ns_registrants ns" ?t ns] assms by simp
  have m: "64 * ?m \<le> unat ?t - 64" by (rule times_div_less_eq_dividend)
  have "64 * min ?n ?m \<le> 64 * ?m" by simp
  with m t have "64 + 64 * min ?n ?m \<le> unat ?t" by linarith
  moreover have "take (min ?n ?m) (ns_registrants ns) = take ?m (ns_registrants ns)"
    by (cases "?n \<le> ?m") (simp_all add: min_def)
  ultimately show ?thesis
    using e assms(2) by (simp add: reservation_report_def Let_def not_less)
qed

theorem report_lists_registrants_witness:
  "\<exists>rep. reservation_report True True 31 sample_ns = (SC_SUCCESS, Some rep) \<and>
    rp_ctrlrs rep = [(True, 11, 100)] \<and> rp_regctl rep = 1"
proof -
  have t: "unat (report_transfer_len 31) = 128" "64 \<le> report_transfer_len 31"
    by (simp_all add: report_transfer_len_def)
  have n: "64 * (length (ns_registrants sample_ns) + 1) < 2 ^ 32" by simp
  show ?thesis using report_lists_registrants [OF n t(2)] t(1) by auto
qed

end
