(* ===== verification/Poll_Group.thy ===== *)
theory Poll_Group
  imports Reservation
begin

text \<open>
  One subsystem in one poll group (\<^verbatim>\<open>src/nvmf/nvmf.c\<close>, \<^verbatim>\<open>src/nvmf/ctrlr.c\<close>): the queue pairs
  of the group, the namespace information and I/O counters of the subsystem, the admission
  and completion of requests, and pausing and resuming.

  A request and a queue pair are allocated objects with their addresses. What a command
  handler, the block device and the transport answer is decided by the environment:
  \<open>exec_status\<close> is the outcome of processing a command, \<open>request_complete\<close> is called with the
  status that the handler has set. Everything below runs on the thread of the group, one
  operation at a time. The group logs what can be observed: the responses given to the
  transport (\<open>pg_sent\<close>), the requests freed without a response (\<open>pg_freed\<close>) and the callbacks
  that reported the end of a pause, resume or add (\<open>pg_done\<close>).
\<close>

section \<open>Data\<close>

datatype spdk_nvmf_subsystem_state =
    SUBSYSTEM_INACTIVE
  | SUBSYSTEM_ACTIVATING
  | SUBSYSTEM_ACTIVE
  | SUBSYSTEM_PAUSING
  | SUBSYSTEM_PAUSED
  | SUBSYSTEM_RESUMING
  | SUBSYSTEM_DEACTIVATING
  | SUBSYSTEM_NUM_STATES

datatype spdk_nvmf_qpair_state =
    QPAIR_UNINITIALIZED | QPAIR_ACTIVE | QPAIR_DEACTIVATING | QPAIR_ERROR

datatype spdk_nvmf_zcopy_phase =
    ZCOPY_PHASE_NONE | ZCOPY_PHASE_INIT | ZCOPY_PHASE_EXECUTE | ZCOPY_PHASE_END_PENDING
  | ZCOPY_PHASE_COMPLETE | ZCOPY_PHASE_INIT_FAILED

abbreviation NVME_OPC_FABRIC :: u8 where "NVME_OPC_FABRIC \<equiv> 0x7f"
abbreviation OPC_ASYNC_EVENT_REQUEST :: u8 where "OPC_ASYNC_EVENT_REQUEST \<equiv> 0x0c"
abbreviation FABRIC_COMMAND_CONNECT :: u8 where "FABRIC_COMMAND_CONNECT \<equiv> 0x01"
abbreviation GLOBAL_NS_TAG :: u32 where "GLOBAL_NS_TAG \<equiv> 0xFFFFFFFF"

record spdk_nvme_status =
  st_sct :: u8
  st_sc :: u8
  st_dnr :: bool
  st_crd :: u8

abbreviation st_success :: spdk_nvme_status where
  "st_success \<equiv> \<lparr>st_sct = 0, st_sc = 0, st_dnr = False, st_crd = 0\<rparr>"

abbreviation st_invalid_namespace :: spdk_nvme_status where
  "st_invalid_namespace \<equiv> \<lparr>st_sct = 0, st_sc = 0x0b, st_dnr = True, st_crd = 0\<rparr>"

abbreviation st_command_sequence_error :: spdk_nvme_status where
  "st_command_sequence_error \<equiv> \<lparr>st_sct = 0, st_sc = 0x0c, st_dnr = False, st_crd = 0\<rparr>"

definition cpl_is_error :: "spdk_nvme_status \<Rightarrow> bool" where
  "cpl_is_error st \<longleftrightarrow> st_sct st \<noteq> 0 \<or> st_sc st \<noteq> 0"

text \<open>\<open>rq_names_us\<close>: the NQN in the data of a Connect command names this subsystem.\<close>

record spdk_nvmf_request =
  rq_addr :: addr
  rq_qpair :: addr
  rq_opc :: u8
  rq_fctype :: u8
  rq_names_us :: bool
  rq_nsid :: u32
  rq_zcopy :: spdk_nvmf_zcopy_phase

record spdk_nvmf_qpair =
  qp_addr :: addr
  qp_qid :: u16
  qp_state :: spdk_nvmf_qpair_state
  qp_ctrlr :: bool \<comment> \<open>connected to a controller of this subsystem\<close>
  qp_acre_enabled :: bool \<comment> \<open>of that controller\<close>
  qp_fabrics :: bool \<comment> \<open>the transport type is a fabrics one\<close>
  qp_outstanding :: "spdk_nvmf_request list"
  qp_state_cb :: bool \<comment> \<open>\<open>_nvmf_qpair_destroy\<close> is set as the state callback\<close>
  qp_connect_received :: bool
  qp_disconnect_started :: bool

record pg_ns_info = spdk_nvmf_subsystem_pg_ns_info +
  pgn_channel :: "addr option"
  pgn_uuid :: uuid
  pgn_num_blocks :: u64
  pgn_io_outstanding :: u64
  pgn_state :: spdk_nvmf_subsystem_state

text \<open>\<open>num_ns\<close> is the length of \<open>sg_ns_info\<close>.\<close>

record spdk_nvmf_subsystem_poll_group =
  sg_ns_info :: "pg_ns_info list"
  sg_mgmt_io_outstanding :: u64
  sg_cb :: "addr option"
  sg_state :: spdk_nvmf_subsystem_state
  sg_queued :: "spdk_nvmf_request list"

record spdk_nvmf_poll_group =
  pg_qpairs :: "spdk_nvmf_qpair list"
  pg_sgroup :: spdk_nvmf_subsystem_poll_group
  pg_subsystem_id :: u32
  pg_num_sgroups :: u32
  pg_current_admin_qpairs :: u32
  pg_current_io_qpairs :: u32
  pg_current_unassociated_qpairs :: u32
  pg_completed_nvme_io :: u64
  pg_sent :: "(addr \<times> spdk_nvme_status) list"
  pg_freed :: "addr list"
  pg_done :: "(addr \<times> int) list"
  pg_put_channels :: "addr list"
  pg_removing :: "(addr option \<times> nat) option"
    \<comment> \<open>\<open>nvmf_qpair_disconnect_many_ctx\<close>: completion callback and count\<close>
  pg_messages :: nat \<comment> \<open>messages to run \<open>remove_subsystem_msg\<close> again\<close>
  pg_ns_notices :: nat \<comment> \<open>rounds of namespace change notices to the controllers\<close>

definition zero_ns_info :: pg_ns_info where
  "zero_ns_info = \<lparr>pgn_crkey = 0, pgn_rtype = 0, pgn_holder_id = 0,
     pgn_reg_hostid = replicate MAX_NUM_REGISTRANTS 0, pgn_channel = None, pgn_uuid = 0,
     pgn_num_blocks = 0, pgn_io_outstanding = 0, pgn_state = SUBSYSTEM_INACTIVE\<rparr>"

abbreviation find_qpair :: "addr \<Rightarrow> spdk_nvmf_poll_group \<Rightarrow> spdk_nvmf_qpair option" where
  "find_qpair a pg \<equiv> List.find (\<lambda>q. qp_addr q = a) (pg_qpairs pg)"

definition set_qpair ::
    "addr \<Rightarrow> (spdk_nvmf_qpair \<Rightarrow> spdk_nvmf_qpair) \<Rightarrow> spdk_nvmf_poll_group \<Rightarrow> spdk_nvmf_poll_group" where
  "set_qpair a f pg = pg\<lparr>pg_qpairs := update_by qp_addr a f (pg_qpairs pg)\<rparr>"

definition set_sgroup ::
    "(spdk_nvmf_subsystem_poll_group \<Rightarrow> spdk_nvmf_subsystem_poll_group) \<Rightarrow>
       spdk_nvmf_poll_group \<Rightarrow> spdk_nvmf_poll_group" where
  "set_sgroup f pg = pg\<lparr>pg_sgroup := f (pg_sgroup pg)\<rparr>"

definition call_back :: "addr option \<Rightarrow> int \<Rightarrow> spdk_nvmf_poll_group \<Rightarrow> spdk_nvmf_poll_group" where
  "call_back cb rc pg =
     (case cb of None \<Rightarrow> pg | Some f \<Rightarrow> pg\<lparr>pg_done := pg_done pg @ [(f, rc)]\<rparr>)"

definition qpair_is_admin_queue :: "spdk_nvmf_qpair \<Rightarrow> bool" where
  "qpair_is_admin_queue q \<longleftrightarrow> qp_qid q = 0"

definition request_is_fabric_connect :: "spdk_nvmf_request \<Rightarrow> bool" where
  "request_is_fabric_connect r \<longleftrightarrow> rq_opc r = NVME_OPC_FABRIC \<and> rq_fctype r = FABRIC_COMMAND_CONNECT"

text \<open>Whether the poll group of this subsystem is the one a request is accounted in.\<close>

definition request_sgroup :: "spdk_nvmf_qpair \<Rightarrow> spdk_nvmf_request \<Rightarrow> bool" where
  "request_sgroup q r \<longleftrightarrow>
     (if qp_ctrlr q then True else request_is_fabric_connect r \<and> rq_names_us r)"

section \<open>The namespaces of the subsystem in the poll group\<close>

text \<open>
  \<open>blocks\<close> is \<open>spdk_bdev_get_num_blocks\<close> of the block device with the given uuid, \<open>ch_new\<close> what
  \<open>spdk_bdev_get_io_channel\<close> returns. The result holds the return code, the entry, the
  channels given back and whether the namespace changed.
\<close>

definition update_ns_info ::
    "(uuid \<Rightarrow> u64) \<Rightarrow> addr option \<Rightarrow> spdk_nvmf_ns option \<Rightarrow> pg_ns_info \<Rightarrow>
       fault + int \<times> pg_ns_info \<times> addr list \<times> bool" where
  "update_ns_info blocks ch_new nso info =
     (case nso of
        None \<Rightarrow>
          (case pgn_channel info of
             None \<Rightarrow> Inr (0, zero_ns_info, [], False)
           | Some ch \<Rightarrow> Inr (0, zero_ns_info, [ch], True))
      | Some ns \<Rightarrow>
          let finish = (\<lambda>info1 puts changed.
                case ns_bdev ns of
                  None \<Rightarrow> Inl NullDeref
                | Some u \<Rightarrow>
                    bindR (pg_update_reservation ns (info1\<lparr>pgn_uuid := u, pgn_num_blocks := blocks u\<rparr>))
                      (\<lambda>(rc, info2). Inr (rc, info2, puts, changed)))
          in (case pgn_channel info of
                None \<Rightarrow>
                  (case ch_new of
                     None \<Rightarrow> Inr (- 12, info, [], True)
                   | Some ch \<Rightarrow> finish (info\<lparr>pgn_channel := Some ch\<rparr>) [] True)
              | Some ch \<Rightarrow>
                  (case ns_bdev ns of
                     None \<Rightarrow> Inl NullDeref
                   | Some u \<Rightarrow>
                       if pgn_uuid info \<noteq> u then
                         (case ch_new of
                            None \<Rightarrow> Inr (- 12, zero_ns_info, [ch], True)
                          | Some ch' \<Rightarrow> finish (zero_ns_info\<lparr>pgn_channel := Some ch'\<rparr>) [ch] True)
                       else finish info [] (pgn_num_blocks info \<noteq> blocks u))))"

fun update_ns_infos ::
    "(uuid \<Rightarrow> u64) \<Rightarrow> (nat \<Rightarrow> addr option) \<Rightarrow> nat \<Rightarrow> spdk_nvmf_ns option list \<Rightarrow> pg_ns_info list \<Rightarrow>
       fault + int \<times> pg_ns_info list \<times> addr list \<times> bool" where
  "update_ns_infos blocks chans i (n # ns) (x # xs) =
     bindR (update_ns_info blocks (chans i) n x) (\<lambda>(rc, x', puts, changed).
       if rc \<noteq> 0 then Inr (rc, x' # xs, puts, changed)
       else bindR (update_ns_infos blocks chans (Suc i) ns xs) (\<lambda>(rc', xs', puts', changed').
              Inr (rc', x' # xs', puts @ puts', changed \<or> changed')))"
| "update_ns_infos blocks chans i _ xs = Inr (0, xs, [], False)"

text \<open>
  \<open>nss\<close> is the array \<open>subsystem->ns\<close> of \<open>max_nsid\<close> entries, \<open>mem\<close> whether the allocation
  of the array of namespace information succeeds.
\<close>

definition poll_group_update_subsystem ::
    "bool \<Rightarrow> (uuid \<Rightarrow> u64) \<Rightarrow> (nat \<Rightarrow> addr option) \<Rightarrow> spdk_nvmf_ns option list \<Rightarrow>
       spdk_nvmf_poll_group \<Rightarrow> fault + int \<times> spdk_nvmf_poll_group" where
  "poll_group_update_subsystem mem blocks chans nss pg =
     (if pg_subsystem_id pg \<ge> pg_num_sgroups pg then Inr (- 12, pg)
      else
        let infos = sg_ns_info (pg_sgroup pg);
            new = length nss; old = length infos;
            extra = (if old = 0 then [] else drop new infos);
            dropped = map (pgn_channel_update (\<lambda>_. None)) extra;
            pg1 = pg\<lparr>pg_put_channels := pg_put_channels pg @ List.map_filter pgn_channel extra\<rparr>
        in if \<not> mem \<and> (if old = 0 then new > 0 else new > old \<or> (new < old \<and> new > 0))
           then Inr (- 12, set_sgroup (\<lambda>sg. sg\<lparr>sg_ns_info := take new infos @ dropped\<rparr>) pg1)
           else
             let infos1 = take new infos @ replicate (new - old) zero_ns_info
             in bindR (update_ns_infos blocks chans 0 nss infos1) (\<lambda>(rc, infos2, puts, changed).
                  let pg2 = set_sgroup (\<lambda>sg. sg\<lparr>sg_ns_info := infos2\<rparr>)
                              (pg1\<lparr>pg_put_channels := pg_put_channels pg1 @ puts\<rparr>)
                  in Inr (rc, if rc = 0 \<and> changed then pg2\<lparr>pg_ns_notices := pg_ns_notices pg2 + 1\<rparr>
                              else pg2)))"

definition all_ns_state ::
    "spdk_nvmf_subsystem_state \<Rightarrow> spdk_nvmf_subsystem_poll_group \<Rightarrow> spdk_nvmf_subsystem_poll_group" where
  "all_ns_state st sg = sg\<lparr>sg_ns_info := map (pgn_state_update (\<lambda>_. st)) (sg_ns_info sg)\<rparr>"

text \<open>Pausing: \<open>nsid\<close> is the namespace to pause, all of them with the global tag. The
  subtraction wraps around for 0, which is no namespace.\<close>

definition mark_pausing :: "u32 \<Rightarrow> spdk_nvmf_subsystem_poll_group \<Rightarrow> spdk_nvmf_subsystem_poll_group" where
  "mark_pausing nsid sg =
     (let i = unat (nsid - 1) in
      if nsid = GLOBAL_NS_TAG then all_ns_state SUBSYSTEM_PAUSING sg
      else if i < length (sg_ns_info sg)
           then sg\<lparr>sg_ns_info := (sg_ns_info sg)[i := (sg_ns_info sg ! i)\<lparr>pgn_state := SUBSYSTEM_PAUSING\<rparr>]\<rparr>
           else sg)"

definition poll_group_pause_subsystem ::
    "u32 \<Rightarrow> addr option \<Rightarrow> spdk_nvmf_poll_group \<Rightarrow> spdk_nvmf_poll_group" where
  "poll_group_pause_subsystem nsid cb pg =
     (if pg_subsystem_id pg \<ge> pg_num_sgroups pg then call_back cb (- 1) pg
      else if sg_state (pg_sgroup pg) = SUBSYSTEM_PAUSED then call_back cb 0 pg
      else
        let sg = mark_pausing nsid ((pg_sgroup pg)\<lparr>sg_state := SUBSYSTEM_PAUSING\<rparr>)
        in if sg_mgmt_io_outstanding sg > 0 \<or>
              (if nsid = GLOBAL_NS_TAG then \<exists>x \<in> set (sg_ns_info sg). pgn_io_outstanding x > 0
               else unat (nsid - 1) < length (sg_ns_info sg) \<and>
                    pgn_io_outstanding (sg_ns_info sg ! unat (nsid - 1)) > 0)
           then pg\<lparr>pg_sgroup := sg\<lparr>sg_cb := cb\<rparr>\<rparr>
           else call_back cb 0 (pg\<lparr>pg_sgroup := sg\<lparr>sg_state := SUBSYSTEM_PAUSED\<rparr>\<rparr>))"

section \<open>Completion of requests\<close>

text \<open>What the completion of a request does to it: whether it leaves the list of outstanding
  requests, and its next phase.\<close>

fun zcopy_complete ::
    "spdk_nvmf_zcopy_phase \<Rightarrow> bool \<Rightarrow> bool \<times> spdk_nvmf_zcopy_phase" where
  "zcopy_complete ZCOPY_PHASE_NONE err = (True, ZCOPY_PHASE_NONE)"
| "zcopy_complete ZCOPY_PHASE_INIT err =
     (if err then (True, ZCOPY_PHASE_INIT_FAILED) else (False, ZCOPY_PHASE_EXECUTE))"
| "zcopy_complete ZCOPY_PHASE_END_PENDING err = (True, ZCOPY_PHASE_COMPLETE)"
| "zcopy_complete ph err = (False, ph)"

text \<open>The destruction of a queue pair: its queued requests are freed, it leaves the group.\<close>

definition qpair_destroy :: "addr \<Rightarrow> spdk_nvmf_poll_group \<Rightarrow> fault + spdk_nvmf_poll_group" where
  "qpair_destroy qa pg =
     (case find_qpair qa pg of
        None \<Rightarrow> Inl UseAfterFree
      | Some q \<Rightarrow>
          let pg1 = (if qp_connect_received q then
                       (if qp_qid q = 0
                        then pg\<lparr>pg_current_admin_qpairs := pg_current_admin_qpairs pg - 1\<rparr>
                        else pg\<lparr>pg_current_io_qpairs := pg_current_io_qpairs pg - 1\<rparr>)
                     else pg\<lparr>pg_current_unassociated_qpairs := pg_current_unassociated_qpairs pg - 1\<rparr>);
              mine = (\<lambda>r. rq_qpair r = qa);
              pg2 = (if qp_ctrlr q then
                       set_sgroup (\<lambda>sg. sg\<lparr>sg_queued := filter (\<lambda>r. \<not> mine r) (sg_queued sg)\<rparr>)
                         (pg1\<lparr>pg_freed := pg_freed pg1 @ map rq_addr (filter mine (sg_queued (pg_sgroup pg1)))\<rparr>)
                     else pg1)
          in Inr (pg2\<lparr>pg_qpairs := remove_by qp_addr qa (pg_qpairs pg2)\<rparr>))"

definition qpair_request_cleanup ::
    "addr \<Rightarrow> spdk_nvmf_poll_group \<Rightarrow> fault + spdk_nvmf_poll_group" where
  "qpair_request_cleanup qa pg =
     (case find_qpair qa pg of
        None \<Rightarrow> Inl UseAfterFree
      | Some q \<Rightarrow>
          if qp_state q = QPAIR_DEACTIVATING \<and> qp_outstanding q = [] then
            (if qp_state_cb q then qpair_destroy qa pg else Inl NullDeref)
          else Inr pg)"

definition set_crd :: "spdk_nvmf_qpair \<Rightarrow> spdk_nvme_status \<Rightarrow> spdk_nvme_status" where
  "set_crd q st =
     (if qp_ctrlr q \<and> cpl_is_error st \<and> \<not> st_dnr st \<and> qp_acre_enabled q then st\<lparr>st_crd := 1\<rparr> else st)"

text \<open>The counter of the namespace or of the management requests goes down.\<close>

definition release_outstanding ::
    "spdk_nvmf_qpair \<Rightarrow> spdk_nvmf_request \<Rightarrow> bool \<Rightarrow> spdk_nvmf_subsystem_poll_group \<Rightarrow>
       spdk_nvmf_subsystem_poll_group" where
  "release_outstanding q r ended sg =
     (if rq_opc r = NVME_OPC_FABRIC \<or> qpair_is_admin_queue q
      then sg\<lparr>sg_mgmt_io_outstanding := sg_mgmt_io_outstanding sg - 1\<rparr>
      else if ended \<and> unat (rq_nsid r - 1) < length (sg_ns_info sg)
      then let i = unat (rq_nsid r - 1); x = sg_ns_info sg ! i
           in sg\<lparr>sg_ns_info := (sg_ns_info sg)[i := x\<lparr>pgn_io_outstanding := pgn_io_outstanding x - 1\<rparr>]\<rparr>
      else sg)"

text \<open>The check for the end of a pause.\<close>

definition drained :: "spdk_nvmf_subsystem_poll_group \<Rightarrow> bool" where
  "drained sg \<longleftrightarrow> sg_mgmt_io_outstanding sg = 0 \<and>
     list_all (\<lambda>x. \<not> (pgn_state x = SUBSYSTEM_PAUSING \<and> pgn_io_outstanding x > 0)) (sg_ns_info sg)"

definition finish_pause :: "spdk_nvmf_poll_group \<Rightarrow> fault + spdk_nvmf_poll_group" where
  "finish_pause pg =
     (let sg = pg_sgroup pg in
      if sg_state sg = SUBSYSTEM_PAUSING \<and> drained sg then
        (case sg_cb sg of
           None \<Rightarrow> Inl NullDeref
         | Some f \<Rightarrow> Inr (call_back (Some f) 0
                          (pg\<lparr>pg_sgroup := sg\<lparr>sg_state := SUBSYSTEM_PAUSED, sg_cb := None\<rparr>\<rparr>)))
      else Inr pg)"

text \<open>\<open>_nvmf_request_complete\<close> for the request at \<open>ra\<close>, with the status its handler has set.\<close>

definition request_complete ::
    "addr \<Rightarrow> addr \<Rightarrow> spdk_nvme_status \<Rightarrow> spdk_nvmf_poll_group \<Rightarrow> fault + spdk_nvmf_poll_group" where
  "request_complete qa ra st0 pg =
     (case find_qpair qa pg of
        None \<Rightarrow> Inl UseAfterFree
      | Some q \<Rightarrow>
          (case List.find (\<lambda>r. rq_addr r = ra) (qp_outstanding q) of
             None \<Rightarrow> Inl UseAfterFree
           | Some r \<Rightarrow>
               let st = set_crd q st0;
                   is_aer = (qp_ctrlr q \<and> rq_opc r = OPC_ASYNC_EVENT_REQUEST);
                   (gone, ph) = zcopy_complete (rq_zcopy r) (cpl_is_error st);
                   ended = ph \<in> {ZCOPY_PHASE_NONE, ZCOPY_PHASE_COMPLETE, ZCOPY_PHASE_INIT_FAILED};
                   pg1 = (if qp_ctrlr q \<and> qp_qid q \<noteq> 0
                          then pg\<lparr>pg_completed_nvme_io := pg_completed_nvme_io pg + 1\<rparr> else pg);
                   pg2 = set_qpair qa
                           (qp_outstanding_update
                              (if gone then remove_by rq_addr ra
                               else update_by rq_addr ra (rq_zcopy_update (\<lambda>_. ph)))) pg1;
                   pg3 = pg2\<lparr>pg_sent := pg_sent pg2 @ [(ra, st)]\<rparr>
               in bindR (if request_sgroup q r \<and> \<not> is_aer
                         then finish_pause (set_sgroup (release_outstanding q r ended) pg3)
                         else Inr pg3)
                    (qpair_request_cleanup qa)))"

section \<open>Admission and execution of requests\<close>

datatype exec_status = EXEC_COMPLETE spdk_nvme_status | EXEC_ASYNCHRONOUS

definition enqueue_outstanding :: "spdk_nvmf_request \<Rightarrow> spdk_nvmf_poll_group \<Rightarrow> spdk_nvmf_poll_group" where
  "enqueue_outstanding r pg =
     set_qpair (rq_qpair r) (\<lambda>q. q\<lparr>qp_outstanding := qp_outstanding q @ [r]\<rparr>) pg"

definition reject_request ::
    "spdk_nvmf_request \<Rightarrow> spdk_nvme_status \<Rightarrow> spdk_nvmf_poll_group \<Rightarrow> fault + spdk_nvmf_poll_group" where
  "reject_request r st pg = request_complete (rq_qpair r) (rq_addr r) st (enqueue_outstanding r pg)"

definition queue_request :: "spdk_nvmf_request \<Rightarrow> spdk_nvmf_poll_group \<Rightarrow> spdk_nvmf_poll_group" where
  "queue_request r pg = set_sgroup (\<lambda>sg. sg\<lparr>sg_queued := sg_queued sg @ [r]\<rparr>) pg"

definition add_io_outstanding ::
    "nat \<Rightarrow> spdk_nvmf_subsystem_poll_group \<Rightarrow> spdk_nvmf_subsystem_poll_group" where
  "add_io_outstanding i sg =
     (let x = sg_ns_info sg ! i
      in sg\<lparr>sg_ns_info := (sg_ns_info sg)[i := x\<lparr>pgn_io_outstanding := pgn_io_outstanding x + 1\<rparr>]\<rparr>)"

definition add_mgmt_outstanding ::
    "spdk_nvmf_subsystem_poll_group \<Rightarrow> spdk_nvmf_subsystem_poll_group" where
  "add_mgmt_outstanding sg = sg\<lparr>sg_mgmt_io_outstanding := sg_mgmt_io_outstanding sg + 1\<rparr>"

text \<open>\<open>nvmf_check_subsystem_active\<close>: whether the request may be processed now.\<close>

definition check_subsystem_active ::
    "spdk_nvmf_request \<Rightarrow> spdk_nvmf_poll_group \<Rightarrow> fault + bool \<times> spdk_nvmf_poll_group" where
  "check_subsystem_active r pg =
     (case find_qpair (rq_qpair r) pg of
        None \<Rightarrow> Inl UseAfterFree
      | Some q \<Rightarrow>
          if \<not> request_sgroup q r then Inr (True, pg)
          else
            let sg = pg_sgroup pg;
                stop = (\<lambda>res. bindR res (\<lambda>pg'. Inr (False, pg')));
                go = (\<lambda>pg'. if qp_state q \<noteq> QPAIR_ACTIVE
                             then stop (reject_request r st_command_sequence_error pg')
                             else Inr (True, pg'))
            in if rq_opc r = NVME_OPC_FABRIC \<or> qpair_is_admin_queue q then
                 (if sg_state sg \<noteq> SUBSYSTEM_ACTIVE then Inr (False, queue_request r pg)
                  else go (set_sgroup add_mgmt_outstanding pg))
               else
                 let i = unat (rq_nsid r - 1) in
                 if i \<ge> length (sg_ns_info sg) then stop (reject_request r st_invalid_namespace pg)
                 else if pgn_channel (sg_ns_info sg ! i) = None then
                   stop (reject_request r st_invalid_namespace (set_sgroup (add_io_outstanding i) pg))
                 else if pgn_state (sg_ns_info sg ! i) \<noteq> SUBSYSTEM_ACTIVE then
                   Inr (False, queue_request r pg)
                 else go (set_sgroup (add_io_outstanding i) pg))"

text \<open>
  The processing of a command up to the point where a handler decides; \<open>out\<close> is what that
  handler answers. An asynchronous event request stops counting as outstanding here.
\<close>

definition process_cmd ::
    "spdk_nvmf_request \<Rightarrow> exec_status \<Rightarrow> spdk_nvmf_poll_group \<Rightarrow>
       fault + exec_status \<times> spdk_nvmf_poll_group" where
  "process_cmd r out pg =
     (case find_qpair (rq_qpair r) pg of
        None \<Rightarrow> Inl UseAfterFree
      | Some q \<Rightarrow>
          if rq_opc r = NVME_OPC_FABRIC \<and> qp_fabrics q then
            Inr (if \<not> qp_ctrlr q \<and> rq_fctype r \<noteq> FABRIC_COMMAND_CONNECT
                 then EXEC_COMPLETE st_command_sequence_error else out, pg)
          else if qpair_is_admin_queue q then
            (if rq_opc r = OPC_ASYNC_EVENT_REQUEST \<and> \<not> qp_ctrlr q then Inl NullDeref
             else
               let pg1 = (if rq_opc r = OPC_ASYNC_EVENT_REQUEST
                          then set_sgroup (\<lambda>sg. sg\<lparr>sg_mgmt_io_outstanding := sg_mgmt_io_outstanding sg - 1\<rparr>) pg
                          else pg)
               in Inr (if \<not> qp_ctrlr q then EXEC_COMPLETE st_command_sequence_error else out, pg1))
          else Inr (if \<not> qp_ctrlr q then EXEC_COMPLETE st_command_sequence_error else out, pg))"

definition request_exec ::
    "spdk_nvmf_request \<Rightarrow> exec_status \<Rightarrow> spdk_nvmf_poll_group \<Rightarrow> fault + spdk_nvmf_poll_group" where
  "request_exec r out pg =
     bindR (check_subsystem_active r pg) (\<lambda>(active, pg1).
       if \<not> active then Inr pg1
       else bindR (process_cmd r out (enqueue_outstanding r pg1)) (\<lambda>(status, pg2).
              case status of
                EXEC_COMPLETE st \<Rightarrow> request_complete (rq_qpair r) (rq_addr r) st pg2
              | EXEC_ASYNCHRONOUS \<Rightarrow> Inr pg2))"

text \<open>The transport asks for the end of a zero-copy request that is executing.\<close>

definition request_zcopy_end ::
    "addr \<Rightarrow> addr \<Rightarrow> spdk_nvmf_poll_group \<Rightarrow> spdk_nvmf_poll_group" where
  "request_zcopy_end qa ra pg =
     set_qpair qa (qp_outstanding_update
       (update_by rq_addr ra (rq_zcopy_update (\<lambda>_. ZCOPY_PHASE_END_PENDING)))) pg"

section \<open>Resuming and adding the subsystem\<close>

text \<open>The queued requests are taken off in order and executed; \<open>outs\<close> holds the outcomes.\<close>

fun release_queued ::
    "(addr \<Rightarrow> exec_status) \<Rightarrow> spdk_nvmf_request list \<Rightarrow> spdk_nvmf_poll_group \<Rightarrow>
       fault + spdk_nvmf_poll_group" where
  "release_queued outs [] pg = Inr pg"
| "release_queued outs (r # rs) pg =
     bindR (request_exec r (outs (rq_addr r))
              (set_sgroup (\<lambda>sg. sg\<lparr>sg_queued := remove_by rq_addr (rq_addr r) (sg_queued sg)\<rparr>) pg))
       (release_queued outs rs)"

definition poll_group_resume_subsystem ::
    "bool \<Rightarrow> (uuid \<Rightarrow> u64) \<Rightarrow> (nat \<Rightarrow> addr option) \<Rightarrow> spdk_nvmf_ns option list \<Rightarrow>
       (addr \<Rightarrow> exec_status) \<Rightarrow> addr option \<Rightarrow> spdk_nvmf_poll_group \<Rightarrow> fault + spdk_nvmf_poll_group" where
  "poll_group_resume_subsystem mem blocks chans nss outs cb pg =
     (if pg_subsystem_id pg \<ge> pg_num_sgroups pg then Inr (call_back cb (- 1) pg)
      else if sg_state (pg_sgroup pg) = SUBSYSTEM_ACTIVE then Inr (call_back cb 0 pg)
      else bindR (poll_group_update_subsystem mem blocks chans nss pg) (\<lambda>(rc, pg1).
             if rc \<noteq> 0 then Inr (call_back cb rc pg1)
             else
               let pg2 = set_sgroup (\<lambda>sg. (all_ns_state SUBSYSTEM_ACTIVE sg)\<lparr>sg_state := SUBSYSTEM_ACTIVE\<rparr>) pg1
               in bindR (release_queued outs (sg_queued (pg_sgroup pg2)) pg2)
                    (\<lambda>pg3. Inr (call_back cb 0 pg3))))"

section \<open>Disconnecting queue pairs\<close>

text \<open>
  \<open>nvmf_qpair_free_aer\<close>: the asynchronous event requests that the controller holds are the
  outstanding ones of the admin queue; each is freed like any request, and the queue pair
  is cleaned up when the last outstanding request is gone.
\<close>

definition qpair_free_aer :: "addr \<Rightarrow> spdk_nvmf_poll_group \<Rightarrow> fault + spdk_nvmf_poll_group" where
  "qpair_free_aer qa pg =
     (case find_qpair qa pg of
        None \<Rightarrow> Inl UseAfterFree
      | Some q \<Rightarrow>
          if \<not> qpair_is_admin_queue q then Inr pg
          else if \<not> qp_ctrlr q then Inl NullDeref
          else
            let aer = (\<lambda>r. rq_opc r = OPC_ASYNC_EVENT_REQUEST);
                aers = filter aer (qp_outstanding q);
                pg1 = set_qpair qa (qp_outstanding_update (filter (\<lambda>r. \<not> aer r)))
                        (pg\<lparr>pg_freed := pg_freed pg @ map rq_addr aers\<rparr>)
            in if aers = [] then Inr pg1 else qpair_request_cleanup qa pg1)"

text \<open>
  \<open>spdk_nvmf_qpair_disconnect\<close> on the thread of the group; \<open>mem\<close>: the context can be
  allocated. The boolean of the result tells whether the callback was called at once.
  \<open>nvmf_qpair_abort_pending_zcopy_reqs\<close> hands the zero-copy requests that are executing to the
  transport, which ends them later with \<open>request_zcopy_end\<close>, an event of its own.
\<close>

definition qpair_disconnect ::
    "addr \<Rightarrow> bool \<Rightarrow> spdk_nvmf_poll_group \<Rightarrow> fault + int \<times> bool \<times> spdk_nvmf_poll_group" where
  "qpair_disconnect qa mem pg =
     (case find_qpair qa pg of
        None \<Rightarrow> Inl UseAfterFree
      | Some q \<Rightarrow>
          if qp_disconnect_started q then Inr (0, True, pg)
          else
            let pg1 = set_qpair qa (qp_disconnect_started_update (\<lambda>_. True)) pg in
            if qp_state q = QPAIR_UNINITIALIZED then Inr (0, True, pg1)
            else
              let pg2 = set_qpair qa (qp_state_update (\<lambda>_. QPAIR_DEACTIVATING)) pg1 in
              if \<not> mem then Inr (- 12, False, pg2)
              else if qp_outstanding q \<noteq> [] then
                bindR (qpair_free_aer qa (set_qpair qa (qp_state_cb_update (\<lambda>_. True)) pg2))
                  (\<lambda>pg3. Inr (0, False, pg3))
              else bindR (qpair_destroy qa pg2) (\<lambda>pg3. Inr (0, False, pg3)))"

section \<open>Removing and adding the subsystem\<close>

definition remove_subsystem_finish :: "spdk_nvmf_poll_group \<Rightarrow> spdk_nvmf_poll_group" where
  "remove_subsystem_finish pg =
     (let cb = (case pg_removing pg of None \<Rightarrow> None | Some (f, _) \<Rightarrow> f);
          chs = List.map_filter pgn_channel (sg_ns_info (pg_sgroup pg))
      in call_back cb 0
           (set_sgroup (\<lambda>sg. sg\<lparr>sg_ns_info := []\<rparr>)
             (pg\<lparr>pg_removing := None, pg_put_channels := pg_put_channels pg @ chs\<rparr>)))"

text \<open>The loop over the queue pairs: each disconnect that is not called back at once adds to
  the count; the loop stops at the first error.\<close>

fun disconnect_all ::
    "(addr \<Rightarrow> bool) \<Rightarrow> addr list \<Rightarrow> nat \<Rightarrow> spdk_nvmf_poll_group \<Rightarrow>
       fault + int \<times> nat \<times> spdk_nvmf_poll_group" where
  "disconnect_all mem [] count pg = Inr (0, count, pg)"
| "disconnect_all mem (qa # qas) count pg =
     bindR (qpair_disconnect qa (mem qa) pg) (\<lambda>(rc, called, pg1).
       if rc \<noteq> 0 then Inr (rc, count + 1, pg1)
       else disconnect_all mem qas (if called then count else count + 1) pg1)"

definition remove_subsystem_msg ::
    "(addr \<Rightarrow> bool) \<Rightarrow> spdk_nvmf_poll_group \<Rightarrow> fault + spdk_nvmf_poll_group" where
  "remove_subsystem_msg mem pg =
     (case pg_removing pg of
        None \<Rightarrow> Inl UseAfterFree
      | Some (cb, _) \<Rightarrow>
          let mine = map qp_addr (filter qp_ctrlr (pg_qpairs pg)) in
          if mine = [] then Inr (remove_subsystem_finish pg)
          else bindR (disconnect_all mem mine 0 pg) (\<lambda>(rc, count, pg1).
                 let pg2 = pg1\<lparr>pg_removing := Some (cb, count)\<rparr>
                 in Inr (if count = 0 \<or> rc \<noteq> 0 then pg2\<lparr>pg_messages := pg_messages pg2 + 1\<rparr> else pg2)))"

text \<open>\<open>remove_subsystem_qpair_cb\<close>: the disconnect of one queue pair has completed.\<close>

definition remove_subsystem_qpair_cb ::
    "(addr \<Rightarrow> bool) \<Rightarrow> spdk_nvmf_poll_group \<Rightarrow> fault + spdk_nvmf_poll_group" where
  "remove_subsystem_qpair_cb mem pg =
     (case pg_removing pg of
        None \<Rightarrow> Inl UseAfterFree
      | Some (cb, count) \<Rightarrow>
          let pg1 = pg\<lparr>pg_removing := Some (cb, count - 1)\<rparr>
          in if count - 1 = 0 then remove_subsystem_msg mem pg1 else Inr pg1)"

definition poll_group_remove_subsystem ::
    "bool \<Rightarrow> (addr \<Rightarrow> bool) \<Rightarrow> addr option \<Rightarrow> spdk_nvmf_poll_group \<Rightarrow> fault + spdk_nvmf_poll_group" where
  "poll_group_remove_subsystem mem_ctx mem cb pg =
     (if \<not> mem_ctx then Inr (call_back cb (- 1) pg)
      else remove_subsystem_msg mem
             (set_sgroup (\<lambda>sg. (all_ns_state SUBSYSTEM_INACTIVE sg)\<lparr>sg_state := SUBSYSTEM_INACTIVE\<rparr>)
               (pg\<lparr>pg_removing := Some (cb, 0)\<rparr>)))"

definition poll_group_add_subsystem ::
    "bool \<Rightarrow> (uuid \<Rightarrow> u64) \<Rightarrow> (nat \<Rightarrow> addr option) \<Rightarrow> spdk_nvmf_ns option list \<Rightarrow>
       bool \<Rightarrow> (addr \<Rightarrow> bool) \<Rightarrow> addr option \<Rightarrow> spdk_nvmf_poll_group \<Rightarrow>
       fault + int \<times> spdk_nvmf_poll_group" where
  "poll_group_add_subsystem mem blocks chans nss mem_ctx mem_qp cb pg =
     (if pg_subsystem_id pg \<ge> pg_num_sgroups pg then Inl OutOfBounds
      else
        let pg0 = set_sgroup (\<lambda>sg. sg\<lparr>sg_queued := []\<rparr>) pg in
        bindR (poll_group_update_subsystem mem blocks chans nss pg0) (\<lambda>(rc, pg1).
          bindR (if rc \<noteq> 0 then poll_group_remove_subsystem mem_ctx mem_qp None pg1
                 else Inr (set_sgroup
                        (\<lambda>sg. (all_ns_state SUBSYSTEM_ACTIVE sg)\<lparr>sg_state := SUBSYSTEM_ACTIVE\<rparr>) pg1))
            (\<lambda>pg2. Inr (rc, call_back cb rc pg2))))"

end
