(* ===== verification/Poll_Group_Inv.thy ===== *)
theory Poll_Group_Inv
  imports Poll_Group "HOL-Library.Multiset"
begin

text \<open>
  The invariant of a subsystem's poll group: the counters of outstanding requests agree
  with the lists of outstanding requests, a paused subsystem has none, and a subsystem
  that is being paused still has one. The steps are those between the addition and the
  removal of the subsystem; \<open>pg_ok\<close> states what the group relies on.
\<close>

section \<open>Accounting\<close>

text \<open>The counter that a request is accounted in.\<close>

datatype req_class = Uncounted | Mgmt | Io nat

definition req_class :: "spdk_nvmf_qpair \<Rightarrow> spdk_nvmf_request \<Rightarrow> req_class" where
  "req_class q r =
     (if \<not> request_sgroup q r \<or> (qp_ctrlr q \<and> rq_opc r = OPC_ASYNC_EVENT_REQUEST) then Uncounted
      else if rq_opc r = NVME_OPC_FABRIC \<or> qpair_is_admin_queue q then Mgmt
      else Io (unat (rq_nsid r - 1)))"

definition n_out :: "req_class \<Rightarrow> spdk_nvmf_poll_group \<Rightarrow> nat" where
  "n_out c pg = sum_list (map (\<lambda>q. length (filter (\<lambda>r. req_class q r = c) (qp_outstanding q))) (pg_qpairs pg))"

fun counter :: "spdk_nvmf_subsystem_poll_group \<Rightarrow> req_class \<Rightarrow> nat" where
  "counter sg Uncounted = 0"
| "counter sg Mgmt = unat (sg_mgmt_io_outstanding sg)"
| "counter sg (Io i) =
     (if i < length (sg_ns_info sg) then unat (pgn_io_outstanding (sg_ns_info sg ! i)) else 0)"

text \<open>The requests the group holds, by address.\<close>

definition live :: "spdk_nvmf_poll_group \<Rightarrow> addr multiset" where
  "live pg = mset (concat (map (\<lambda>q. map rq_addr (qp_outstanding q)) (pg_qpairs pg))) +
     mset (map rq_addr (sg_queued (pg_sgroup pg)))"

definition req_wf :: "spdk_nvmf_qpair \<Rightarrow> spdk_nvmf_request \<Rightarrow> bool" where
  "req_wf q r \<longleftrightarrow> rq_zcopy r \<notin> {ZCOPY_PHASE_COMPLETE, ZCOPY_PHASE_INIT_FAILED} \<and>
     (rq_zcopy r \<noteq> ZCOPY_PHASE_NONE \<longrightarrow>
        qp_ctrlr q \<and> \<not> qpair_is_admin_queue q \<and> rq_opc r \<noteq> NVME_OPC_FABRIC)"

definition qpair_wf :: "spdk_nvmf_qpair \<Rightarrow> bool" where
  "qpair_wf q \<longleftrightarrow> list_all (req_wf q) (qp_outstanding q)"

text \<open>Before the queue pair has a controller, only Connect commands are outstanding.\<close>

definition connect_wf :: "spdk_nvmf_qpair \<Rightarrow> bool" where
  "connect_wf q \<longleftrightarrow> (\<not> qp_ctrlr q \<longrightarrow> list_all request_is_fabric_connect (qp_outstanding q))"

definition queued_wf :: "spdk_nvmf_poll_group \<Rightarrow> spdk_nvmf_request \<Rightarrow> bool" where
  "queued_wf pg r \<longleftrightarrow> rq_zcopy r \<in> {ZCOPY_PHASE_NONE, ZCOPY_PHASE_INIT} \<and>
     (\<forall>q. find_qpair (rq_qpair r) pg = Some q \<longrightarrow> req_wf q r)"

definition max_live :: nat where "max_live = 2 ^ 62"

text \<open>What is known of the structure, whatever the counters are.\<close>

definition pg_shape :: "spdk_nvmf_poll_group \<Rightarrow> bool" where
  "pg_shape pg \<longleftrightarrow> distinct (map qp_addr (pg_qpairs pg)) \<and> list_all qpair_wf (pg_qpairs pg) \<and>
     list_all (queued_wf pg) (sg_queued (pg_sgroup pg)) \<and>
     (\<forall>a. count (live pg) a \<le> 1) \<and> size (live pg) \<le> max_live \<and>
     pg_subsystem_id pg < pg_num_sgroups pg"

text \<open>Counters are ahead of the outstanding requests by \<open>L\<close>, which is zero unless requests
  have been lost from the accounts.\<close>

definition counters_ok :: "(req_class \<Rightarrow> nat) \<Rightarrow> spdk_nvmf_poll_group \<Rightarrow> bool" where
  "counters_ok L pg \<longleftrightarrow>
     (\<forall>c. c \<noteq> Uncounted \<longrightarrow> counter (pg_sgroup pg) c = n_out c pg + L c)"

definition pause_ok :: "spdk_nvmf_subsystem_poll_group \<Rightarrow> bool" where
  "pause_ok sg \<longleftrightarrow>
     (case sg_state sg of
        SUBSYSTEM_PAUSED \<Rightarrow> drained sg
      | SUBSYSTEM_PAUSING \<Rightarrow> \<not> drained sg \<and> sg_cb sg \<noteq> None
      | _ \<Rightarrow> list_all (\<lambda>x. pgn_state x \<noteq> SUBSYSTEM_PAUSING) (sg_ns_info sg))"

definition pg_inv0 :: "(req_class \<Rightarrow> nat) \<Rightarrow> spdk_nvmf_poll_group \<Rightarrow> bool" where
  "pg_inv0 L pg \<longleftrightarrow> pg_shape pg \<and> counters_ok L pg \<and> pause_ok (pg_sgroup pg) \<and> (\<forall>c. L c \<le> max_live)"

definition pg_inv :: "(req_class \<Rightarrow> nat) \<Rightarrow> spdk_nvmf_poll_group \<Rightarrow> bool" where
  "pg_inv L pg \<longleftrightarrow> pg_inv0 L pg \<and> list_all connect_wf (pg_qpairs pg)"

section \<open>Steps\<close>

datatype pg_event =
    Exec spdk_nvmf_request exec_status
  | Complete addr addr spdk_nvme_status
  | ZcopyEnd addr addr
  | Pause u32 "addr option"
  | Resume bool "uuid \<Rightarrow> u64" "nat \<Rightarrow> addr option" "spdk_nvmf_ns option list"
      "addr \<Rightarrow> exec_status" "addr option"
  | Disconnect addr bool
  | NewQpair addr bool
  | Connected addr u16 bool
  | Update bool "uuid \<Rightarrow> u64" "nat \<Rightarrow> addr option" "spdk_nvmf_ns option list"

text \<open>\<open>Update\<close> is \<open>nvmf_poll_group_update_subsystem\<close>, which the subsystem sends to every group after a
  namespace was resized or its reservation changed; \<open>NewQpair\<close> is \<open>spdk_nvmf_poll_group_add\<close> with a transport that accepts the queue pair,
  \<open>Connected\<close> what the controller does to the queue pair of a successful Connect.\<close>

definition poll_group_add :: "addr \<Rightarrow> bool \<Rightarrow> int \<Rightarrow> spdk_nvmf_poll_group \<Rightarrow> int \<times> spdk_nvmf_poll_group" where
  "poll_group_add qa fabrics rc pg =
     (if rc = 0 then
        (0, pg\<lparr>pg_qpairs := pg_qpairs pg @
              [\<lparr>qp_addr = qa, qp_qid = 0, qp_state = QPAIR_ACTIVE, qp_ctrlr = False,
                qp_acre_enabled = False, qp_fabrics = fabrics, qp_outstanding = [],
                qp_state_cb = False, qp_connect_received = False, qp_disconnect_started = False\<rparr>]\<rparr>)
      else (rc, pg))"

fun pg_step :: "spdk_nvmf_poll_group \<Rightarrow> pg_event \<Rightarrow> fault + spdk_nvmf_poll_group" where
  "pg_step pg (Exec r out) = request_exec r out pg"
| "pg_step pg (Complete qa ra st) = request_complete qa ra st pg"
| "pg_step pg (ZcopyEnd qa ra) = Inr (request_zcopy_end qa ra pg)"
| "pg_step pg (Pause nsid cb) = Inr (poll_group_pause_subsystem nsid cb pg)"
| "pg_step pg (Resume mem blocks chans nss outs cb) =
     poll_group_resume_subsystem mem blocks chans nss outs cb pg"
| "pg_step pg (Disconnect qa mem) = bindR (qpair_disconnect qa mem pg) (\<lambda>(_, _, pg'). Inr pg')"
| "pg_step pg (NewQpair qa fabrics) = Inr (snd (poll_group_add qa fabrics 0 pg))"
| "pg_step pg (Connected qa qid acre) =
     Inr (set_qpair qa (\<lambda>q. q\<lparr>qp_ctrlr := True, qp_qid := qid, qp_acre_enabled := acre\<rparr>) pg)"
| "pg_step pg (Update mem blocks chans nss) =
     bindR (poll_group_update_subsystem mem blocks chans nss pg) (\<lambda>(_, pg'). Inr pg')"

text \<open>Requests that the accounting handles: no NVM command with the opcode of the
  asynchronous event request, and no asynchronous event request on a queue pair that is
  being disconnected. \<open>command_0c_blocks_pause\<close> shows what happens to the others.\<close>

definition regular :: "spdk_nvmf_poll_group \<Rightarrow> spdk_nvmf_request \<Rightarrow> bool" where
  "regular pg r \<longleftrightarrow> (\<forall>q. find_qpair (rq_qpair r) pg = Some q \<longrightarrow>
     rq_opc r = OPC_ASYNC_EVENT_REQUEST \<longrightarrow> qpair_is_admin_queue q \<and> qp_state q = QPAIR_ACTIVE)"

text \<open>A namespace with outstanding I/O is still there, with the same block device, when the
  subsystem resumes.\<close>

definition busy_kept :: "spdk_nvmf_ns option list \<Rightarrow> spdk_nvmf_poll_group \<Rightarrow> bool" where
  "busy_kept nss pg \<longleftrightarrow>
     (\<forall>i < length (sg_ns_info (pg_sgroup pg)).
        counter (pg_sgroup pg) (Io i) > 0 \<longrightarrow>
          i < length nss \<and> pgn_channel (sg_ns_info (pg_sgroup pg) ! i) \<noteq> None \<and>
          (\<exists>ns. nss ! i = Some ns \<and> ns_bdev ns = Some (pgn_uuid (sg_ns_info (pg_sgroup pg) ! i))))"

text \<open>The bound on the requests that the group holds at a time: memory is finite.\<close>

definition few_live :: "spdk_nvmf_poll_group \<Rightarrow> bool" where
  "few_live pg \<longleftrightarrow> int (size (live pg)) < 2 ^ 62"

lemma few_live_iff [simp]: "few_live pg \<longleftrightarrow> size (live pg) < max_live"
proof -
  have "(2 :: int) ^ 62 = int (2 ^ 62)" by simp
  then show ?thesis unfolding few_live_def max_live_def by (metis of_nat_less_iff)
qed

fun pg_ok :: "spdk_nvmf_poll_group \<Rightarrow> pg_event \<Rightarrow> bool" where
  "pg_ok pg (Exec r out) \<longleftrightarrow>
     rq_addr r \<notin># live pg \<and> few_live pg \<and> queued_wf pg r \<and> regular pg r"
| "pg_ok pg (Complete qa ra st) \<longleftrightarrow> True"
| "pg_ok pg (ZcopyEnd qa ra) \<longleftrightarrow>
     (case find_qpair qa pg of
        None \<Rightarrow> True
      | Some q \<Rightarrow> list_all (\<lambda>r. rq_addr r = ra \<longrightarrow> rq_zcopy r = ZCOPY_PHASE_EXECUTE) (qp_outstanding q))"
| "pg_ok pg (Pause nsid cb) \<longleftrightarrow> sg_state (pg_sgroup pg) \<noteq> SUBSYSTEM_PAUSING \<and> cb \<noteq> None"
| "pg_ok pg (Resume mem blocks chans nss outs cb) \<longleftrightarrow>
     sg_state (pg_sgroup pg) \<noteq> SUBSYSTEM_PAUSING \<and> busy_kept nss pg \<and>
     list_all (regular pg) (sg_queued (pg_sgroup pg))"
| "pg_ok pg (Disconnect qa mem) \<longleftrightarrow> True"
| "pg_ok pg (NewQpair qa fabrics) \<longleftrightarrow> qa \<notin> qp_addr ` set (pg_qpairs pg) \<and>
     qa \<notin> rq_qpair ` set (sg_queued (pg_sgroup pg))"
| "pg_ok pg (Connected qa qid acre) \<longleftrightarrow>
     (case find_qpair qa pg of
        None \<Rightarrow> True
      | Some q \<Rightarrow> \<not> qp_ctrlr q \<and> list_all rq_names_us (qp_outstanding q))"
| "pg_ok pg (Update mem blocks chans nss) \<longleftrightarrow> sg_state (pg_sgroup pg) \<noteq> SUBSYSTEM_PAUSING \<and> busy_kept nss pg"

text \<open>The same predicates in executable form.\<close>

lemma queued_wf_code [code]:
  "queued_wf pg r \<longleftrightarrow> rq_zcopy r \<in> {ZCOPY_PHASE_NONE, ZCOPY_PHASE_INIT} \<and>
     (case find_qpair (rq_qpair r) pg of None \<Rightarrow> True | Some q \<Rightarrow> req_wf q r)"
  by (auto simp: queued_wf_def split: option.split)

lemma regular_code [code]:
  "regular pg r \<longleftrightarrow> (case find_qpair (rq_qpair r) pg of
      None \<Rightarrow> True
    | Some q \<Rightarrow> rq_opc r = OPC_ASYNC_EVENT_REQUEST \<longrightarrow> qpair_is_admin_queue q \<and> qp_state q = QPAIR_ACTIVE)"
  by (auto simp: regular_def split: option.split)

lemma busy_kept_code [code]:
  "busy_kept nss pg \<longleftrightarrow>
     list_all (\<lambda>i. counter (pg_sgroup pg) (Io i) > 0 \<longrightarrow>
          i < length nss \<and> pgn_channel (sg_ns_info (pg_sgroup pg) ! i) \<noteq> None \<and>
          (case nss ! i of None \<Rightarrow> False
           | Some ns \<Rightarrow> ns_bdev ns = Some (pgn_uuid (sg_ns_info (pg_sgroup pg) ! i))))
       [0..<length (sg_ns_info (pg_sgroup pg))]"
  unfolding busy_kept_def list_all_iff set_upt Ball_def atLeastLessThan_iff
  by (intro iff_allI) (auto split: option.splits)

section \<open>The primitive changes of the group\<close>

lemma pg_parts [simp]:
  "pg_qpairs (set_sgroup f pg) = pg_qpairs pg"
  "pg_sgroup (set_sgroup f pg) = f (pg_sgroup pg)"
  "pg_sgroup (set_qpair a g pg) = pg_sgroup pg"
  "pg_qpairs (set_qpair a g pg) = update_by qp_addr a g (pg_qpairs pg)"
  "pg_qpairs (call_back cb rc pg) = pg_qpairs pg"
  "pg_sgroup (call_back cb rc pg) = pg_sgroup pg"
  "pg_subsystem_id (set_sgroup f pg) = pg_subsystem_id pg"
  "pg_num_sgroups (set_sgroup f pg) = pg_num_sgroups pg"
  "pg_subsystem_id (set_qpair a g pg) = pg_subsystem_id pg"
  "pg_num_sgroups (set_qpair a g pg) = pg_num_sgroups pg"
  "pg_subsystem_id (call_back cb rc pg) = pg_subsystem_id pg"
  "pg_num_sgroups (call_back cb rc pg) = pg_num_sgroups pg"
  "pg_done (set_sgroup f pg) = pg_done pg"
  "pg_done (set_qpair a g pg) = pg_done pg"
  by (simp_all add: set_sgroup_def set_qpair_def call_back_def split: option.splits)

lemma queued_parts [simp]:
  "sg_queued (release_outstanding q r e sg) = sg_queued sg"
  "sg_queued (add_io_outstanding i sg) = sg_queued sg"
  "sg_queued (add_mgmt_outstanding sg) = sg_queued sg"
  "sg_state (release_outstanding q r e sg) = sg_state sg"
  "sg_state (add_io_outstanding i sg) = sg_state sg"
  "sg_state (add_mgmt_outstanding sg) = sg_state sg"
  "sg_cb (release_outstanding q r e sg) = sg_cb sg"
  "sg_cb (add_io_outstanding i sg) = sg_cb sg"
  "sg_cb (add_mgmt_outstanding sg) = sg_cb sg"
  by (simp_all add: release_outstanding_def add_io_outstanding_def add_mgmt_outstanding_def Let_def)

text \<open>A found queue pair splits the list; what only changes that queue pair changes the sums
  in its own summand.\<close>

lemma pg_split:
  assumes "distinct (map qp_addr (pg_qpairs pg))" and "find_qpair qa pg = Some q"
  obtains xs ys where "pg_qpairs pg = xs @ q # ys" and "qp_addr q = qa"
    and "qa \<notin> qp_addr ` set xs" and "qa \<notin> qp_addr ` set ys"
  using assms by (rule find_key_split)

definition cls_count :: "req_class \<Rightarrow> spdk_nvmf_qpair \<Rightarrow> nat" where
  "cls_count c q = length (filter (\<lambda>r. req_class q r = c) (qp_outstanding q))"

lemma n_out_alt: "n_out c pg = sum_list (map (cls_count c) (pg_qpairs pg))"
  by (simp add: n_out_def cls_count_def [abs_def])

lemma n_out_sgroup [simp]: "n_out c (set_sgroup f pg) = n_out c pg"
  by (simp add: n_out_def)

lemma n_out_call_back [simp]: "n_out c (call_back cb rc pg) = n_out c pg"
  by (simp add: n_out_def)

lemma n_out_set_qpair:
  assumes "distinct (map qp_addr (pg_qpairs pg))" and "find_qpair qa pg = Some q"
  shows "n_out c (set_qpair qa f pg) + cls_count c q = n_out c pg + cls_count c (f q)"
  using assms by (rule pg_split) (auto simp: n_out_alt update_by_notin)

definition q_live :: "spdk_nvmf_qpair \<Rightarrow> addr multiset" where
  "q_live q = mset (map rq_addr (qp_outstanding q))"

lemma live_alt: "live pg = sum_list (map q_live (pg_qpairs pg)) + mset (map rq_addr (sg_queued (pg_sgroup pg)))"
proof -
  have "mset (concat (map (\<lambda>q. map rq_addr (qp_outstanding q)) qs)) = sum_list (map q_live qs)" for qs
    by (induction qs) (simp_all add: q_live_def)
  then show ?thesis by (simp add: live_def)
qed

lemma live_call_back [simp]: "live (call_back cb rc pg) = live pg"
  by (simp add: live_alt)

lemma live_sgroup: "sg_queued (f (pg_sgroup pg)) = sg_queued (pg_sgroup pg) \<Longrightarrow>
    live (set_sgroup f pg) = live pg"
  by (simp add: live_alt)

lemma live_set_qpair:
  assumes "distinct (map qp_addr (pg_qpairs pg))" and "find_qpair qa pg = Some q"
  shows "live (set_qpair qa f pg) + q_live q = live pg + q_live (f q)"
  using assms by (rule pg_split) (auto simp: live_alt update_by_notin)

lemma q_live_subset: "find_qpair qa pg = Some q \<Longrightarrow> q_live q \<subseteq># live pg"
proof -
  assume "find_qpair qa pg = Some q"
  then have "q \<in> set (pg_qpairs pg)" by (auto dest: find_SomeD)
  then obtain xs ys where "pg_qpairs pg = xs @ q # ys" by (auto simp: in_set_conv_decomp)
  then show ?thesis by (simp add: live_alt)
qed

lemma n_out_le_live: "n_out c pg \<le> size (live pg)"
proof -
  have "cls_count c q \<le> size (q_live q)" for q
    by (simp add: cls_count_def q_live_def)
  then have "sum_list (map (cls_count c) qs) \<le> size (sum_list (map q_live qs))" for qs
    by (induction qs) (simp_all add: add_mono)
  then show ?thesis by (simp add: n_out_alt live_alt trans_le_add1)
qed

lemma n_out_pos:
  assumes "find_qpair qa pg = Some q" and "r \<in> set (qp_outstanding q)" and "req_class q r = c"
  shows "n_out c pg > 0"
proof -
  from assms(1) have "q \<in> set (pg_qpairs pg)" by (auto dest: find_SomeD)
  then obtain xs ys where s: "pg_qpairs pg = xs @ q # ys" by (auto simp: in_set_conv_decomp)
  have "cls_count c q > 0" using assms(2,3) by (auto simp: cls_count_def filter_empty_conv)
  with s show ?thesis by (simp add: n_out_alt)
qed

section \<open>The counters\<close>

definition add_outstanding :: "req_class \<Rightarrow> spdk_nvmf_subsystem_poll_group \<Rightarrow> spdk_nvmf_subsystem_poll_group" where
  "add_outstanding c sg =
     (case c of Uncounted \<Rightarrow> sg | Mgmt \<Rightarrow> add_mgmt_outstanding sg | Io i \<Rightarrow> add_io_outstanding i sg)"

lemma unat_plus1: "unat (w :: u64) < 2 ^ 64 - 1 \<Longrightarrow> unat (w + 1) = unat w + 1"
  by (subst unat_plus_simple [THEN iffD1]) (auto simp: word_le_nat_alt unat_word_ariths)

lemma unat_minus1_pos: "0 < unat (w :: u64) \<Longrightarrow> unat (w - 1) = unat w - 1"
  by (metis unat_minus_one unat_gt_0)

lemma counter_add:
  assumes "c \<noteq> Uncounted" and "counter sg c < 2 ^ 64 - 1"
    and "\<And>i. c = Io i \<Longrightarrow> i < length (sg_ns_info sg)"
  shows "counter (add_outstanding c sg) d = counter sg d + (if d = c then 1 else 0)"
  using assms
  by (cases c; cases d)
    (auto simp: add_outstanding_def add_mgmt_outstanding_def add_io_outstanding_def Let_def
       nth_list_update unat_plus1)

lemma counter_release:
  assumes "req_class q r = c" and "c \<noteq> Uncounted" and "counter sg c > 0" and "c \<noteq> Mgmt \<Longrightarrow> e"
  shows "counter (release_outstanding q r e sg) d = counter sg d - (if d = c then 1 else 0)"
  using assms
  by (cases c; cases d)
    (auto simp: release_outstanding_def req_class_def Let_def nth_list_update unat_minus1_pos
       split: if_splits)

lemma release_not_ended:
  assumes "req_class q r = Io i" shows "release_outstanding q r False sg = sg"
  using assms by (auto simp: release_outstanding_def req_class_def split: if_splits)

lemma sg_ns_state_parts [simp]:
  "map pgn_state (sg_ns_info (release_outstanding q r e sg)) = map pgn_state (sg_ns_info sg)"
  "map pgn_state (sg_ns_info (add_outstanding c sg)) = map pgn_state (sg_ns_info sg)"
proof -
  have u: "map pgn_state (xs[i := (xs ! i)\<lparr>pgn_io_outstanding := v\<rparr>]) = map pgn_state xs" for xs i v
    by (cases "i < length xs") (simp_all add: map_update list_update_same_conv list_update_beyond)
  show "map pgn_state (sg_ns_info (release_outstanding q r e sg)) = map pgn_state (sg_ns_info sg)"
    by (simp add: release_outstanding_def Let_def u)
  show "map pgn_state (sg_ns_info (add_outstanding c sg)) = map pgn_state (sg_ns_info sg)"
    by (simp add: add_outstanding_def add_mgmt_outstanding_def add_io_outstanding_def Let_def u
        split: req_class.split)
qed

lemma length_ns_info [simp]:
  "length (sg_ns_info (release_outstanding q r e sg)) = length (sg_ns_info sg)"
  "length (sg_ns_info (add_outstanding c sg)) = length (sg_ns_info sg)"
  by (rule map_eq_imp_length_eq [OF sg_ns_state_parts(1)])
    (rule map_eq_imp_length_eq [OF sg_ns_state_parts(2)])

abbreviation ns_state :: "spdk_nvmf_subsystem_poll_group \<Rightarrow> nat \<Rightarrow> spdk_nvmf_subsystem_state" where
  "ns_state sg i \<equiv> map pgn_state (sg_ns_info sg) ! i"

lemma drained_alt:
  "drained sg \<longleftrightarrow> counter sg Mgmt = 0 \<and>
     (\<forall>i < length (sg_ns_info sg). ns_state sg i = SUBSYSTEM_PAUSING \<longrightarrow> counter sg (Io i) = 0)"
  by (auto simp: drained_def list_all_length unat_eq_zero word_gt_0)

lemma pause_ok_cong:
  assumes "sg_state sg' = sg_state sg" and "drained sg' = drained sg" and "sg_cb sg' = sg_cb sg"
    and "map pgn_state (sg_ns_info sg') = map pgn_state (sg_ns_info sg)"
  shows "pause_ok sg' = pause_ok sg"
proof -
  have a: "list_all (\<lambda>x. pgn_state x \<noteq> SUBSYSTEM_PAUSING) xs \<longleftrightarrow> SUBSYSTEM_PAUSING \<notin> set (map pgn_state xs)"
    for xs by (force simp: list_all_iff)
  show ?thesis unfolding pause_ok_def a assms ..
qed

lemma drained_release:
  assumes "drained sg" and "req_class q r = c" "c \<noteq> Uncounted" and "counter sg c > 0" and "c \<noteq> Mgmt \<Longrightarrow> e"
  shows "drained (release_outstanding q r e sg)"
  using assms counter_release [OF assms(2-5)] by (auto simp: drained_alt simp del: counter.simps)

section \<open>What completing a request keeps\<close>

lemma pg_shapeD:
  assumes "pg_shape pg"
  shows "distinct (map qp_addr (pg_qpairs pg))" and "\<And>q. q \<in> set (pg_qpairs pg) \<Longrightarrow> qpair_wf q"
    and "\<And>r. r \<in> set (sg_queued (pg_sgroup pg)) \<Longrightarrow> queued_wf pg r"
    and "\<And>a. count (live pg) a \<le> 1" and "size (live pg) \<le> max_live"
  using assms by (auto simp: pg_shape_def list_all_iff)

text \<open>Changes that leave fewer requests and no new queue pair keep the shape.\<close>

lemma pg_shape_shrink:
  assumes "pg_shape pg" and "live pg' \<subseteq># live pg"
    and "distinct (map qp_addr (pg_qpairs pg'))" and "list_all qpair_wf (pg_qpairs pg')"
    and "set (sg_queued (pg_sgroup pg')) \<subseteq> set (sg_queued (pg_sgroup pg))"
    and "\<And>a q' r. find_qpair a pg' = Some q' \<Longrightarrow>
        \<exists>q. find_qpair a pg = Some q \<and> (req_wf q r \<longrightarrow> req_wf q' r)"
    and "pg_subsystem_id pg' = pg_subsystem_id pg" and "pg_num_sgroups pg' = pg_num_sgroups pg"
  shows "pg_shape pg'"
proof -
  have "count (live pg') a \<le> 1" for a
    using mset_subset_eq_count [OF assms(2), of a] pg_shapeD(4) [OF assms(1), of a] by simp
  moreover have "size (live pg') \<le> max_live"
    using size_mset_mono [OF assms(2)] pg_shapeD(5) [OF assms(1)] by simp
  moreover have "queued_wf pg' r" if "r \<in> set (sg_queued (pg_sgroup pg'))" for r
  proof -
    have "queued_wf pg r" using that assms(5) pg_shapeD(3) [OF assms(1)] by blast
    with assms(6) show ?thesis by (fastforce simp: queued_wf_def)
  qed
  ultimately show ?thesis
    using assms by (auto simp: pg_shape_def list_all_iff)
qed

text \<open>The cleanup after a completion either does nothing or destroys the queue pair.\<close>

lemma find_qpair_remove:
  "find_qpair a pg' = Some q' \<Longrightarrow> pg_qpairs pg' = remove_by qp_addr qa (pg_qpairs pg) \<Longrightarrow>
     find_qpair a pg = Some q'"
  by (auto simp: find_key_remove_by split: if_splits)

lemma qpair_destroy_Inr:
  assumes "qpair_destroy qa pg = Inr pg'"
  obtains q where "find_qpair qa pg = Some q" and "pg_qpairs pg' = remove_by qp_addr qa (pg_qpairs pg)"
    and "pg_sgroup pg' = (if qp_ctrlr q then (pg_sgroup pg)\<lparr>sg_queued :=
           filter (\<lambda>r. rq_qpair r \<noteq> qa) (sg_queued (pg_sgroup pg))\<rparr> else pg_sgroup pg)"
    and "pg_subsystem_id pg' = pg_subsystem_id pg" and "pg_num_sgroups pg' = pg_num_sgroups pg"
    and "pg_done pg' = pg_done pg" and "pg_sent pg' = pg_sent pg"
  using assms
  by (cases "find_qpair qa pg") (auto simp: qpair_destroy_def Let_def set_sgroup_def)

lemma drained_queued [simp]: "drained (sg\<lparr>sg_queued := x\<rparr>) = drained sg"
  by (simp add: drained_def)

lemma pause_ok_queued [simp]: "pause_ok (sg\<lparr>sg_queued := x\<rparr>) = pause_ok sg"
  by (rule pause_ok_cong) simp_all

lemma counter_queued [simp]: "counter (sg\<lparr>sg_queued := x\<rparr>) c = counter sg c"
  by (cases c) simp_all

lemma distinct_remove_key: "distinct (map key xs) \<Longrightarrow> distinct (map key (remove_by key k xs))"
  by (induction xs) auto

lemma qpair_destroy_keeps:
  assumes i: "pg_inv0 L pg" and d: "qpair_destroy qa pg = Inr pg'"
    and e: "\<And>q. find_qpair qa pg = Some q \<Longrightarrow> qp_outstanding q = []"
  shows "pg_inv0 L pg'"
proof -
  from d obtain q where q: "find_qpair qa pg = Some q"
    and qs: "pg_qpairs pg' = remove_by qp_addr qa (pg_qpairs pg)"
    and sg: "pg_sgroup pg' = (if qp_ctrlr q then (pg_sgroup pg)\<lparr>sg_queued :=
           filter (\<lambda>r. rq_qpair r \<noteq> qa) (sg_queued (pg_sgroup pg))\<rparr> else pg_sgroup pg)"
    and ids: "pg_subsystem_id pg' = pg_subsystem_id pg" "pg_num_sgroups pg' = pg_num_sgroups pg"
    by (rule qpair_destroy_Inr)
  have sh: "pg_shape pg" using i by (simp add: pg_inv0_def)
  note dist = pg_shapeD(1) [OF sh]
  have empty: "qp_outstanding q = []" by (rule e [OF q])
  from dist q obtain xs ys where s: "pg_qpairs pg = xs @ q # ys" "qp_addr q = qa"
      "qa \<notin> qp_addr ` set xs" "qa \<notin> qp_addr ` set ys"
    by (rule pg_split)
  then have s': "pg_qpairs pg' = xs @ ys" by (simp add: qs remove_by_notin)
  have n: "n_out c pg' = n_out c pg" for c
    by (simp add: n_out_alt s s' cls_count_def empty)
  have f: "mset (map rq_addr (filter P rs)) \<subseteq># mset (map rq_addr rs)" for P rs
    by (simp add: image_mset_subseteq_mono)
  have "live pg' \<subseteq># live pg"
    using f [of "\<lambda>r. rq_qpair r \<noteq> qa" "sg_queued (pg_sgroup pg)"]
    by (simp add: live_alt s s' q_live_def empty sg del: mset_map)
  then have "pg_shape pg'"
  proof (rule pg_shape_shrink [OF sh])
    show "distinct (map qp_addr (pg_qpairs pg'))" using dist by (simp add: s s')
    show "list_all qpair_wf (pg_qpairs pg')" using pg_shapeD(2) [OF sh] by (simp add: s s' list_all_iff)
    show "set (sg_queued (pg_sgroup pg')) \<subseteq> set (sg_queued (pg_sgroup pg))" by (auto simp: sg)
    show "\<exists>q. find_qpair a pg = Some q \<and> (req_wf q r \<longrightarrow> req_wf q' r)"
      if "find_qpair a pg' = Some q'" for a q' r
      using find_qpair_remove [OF that qs] by blast
  qed (rule ids)+
  moreover have "counters_ok L pg'" "pause_ok (pg_sgroup pg')"
    using i by (simp_all add: pg_inv0_def counters_ok_def n sg)
  ultimately show ?thesis using i by (simp add: pg_inv0_def)
qed

lemma qpair_request_cleanup_cases:
  assumes "qpair_request_cleanup qa pg = Inr pg'"
  obtains (same) "pg' = pg"
  | (destroy) q where "find_qpair qa pg = Some q" and "qp_outstanding q = []"
      and "qpair_destroy qa pg = Inr pg'"
  using assms by (auto simp: qpair_request_cleanup_def split: option.splits if_splits)

lemma cleanup_keeps: "pg_inv0 L pg \<Longrightarrow> qpair_request_cleanup qa pg = Inr pg' \<Longrightarrow> pg_inv0 L pg'"
  by (erule qpair_request_cleanup_cases) (auto intro: qpair_destroy_keeps)

text \<open>Changes that touch neither the queue pairs nor the counters.\<close>

definition same_core :: "spdk_nvmf_poll_group \<Rightarrow> spdk_nvmf_poll_group \<Rightarrow> bool" where
  "same_core pg pg' \<longleftrightarrow> pg_qpairs pg' = pg_qpairs pg \<and> pg_sgroup pg' = pg_sgroup pg \<and>
     pg_subsystem_id pg' = pg_subsystem_id pg \<and> pg_num_sgroups pg' = pg_num_sgroups pg"

lemma same_core_inv:
  assumes "same_core pg pg'" shows "pg_inv0 L pg' = pg_inv0 L pg"
proof -
  have "live pg' = live pg" "\<And>c. n_out c pg' = n_out c pg" "queued_wf pg' = queued_wf pg"
    using assms by (simp_all add: fun_eq_iff live_def n_out_def queued_wf_def same_core_def)
  with assms show ?thesis
    by (simp add: pg_inv0_def pg_shape_def counters_ok_def same_core_def)
qed

text \<open>The end of a pause after a change of the counters.\<close>

definition pause_next :: "spdk_nvmf_subsystem_poll_group \<Rightarrow> spdk_nvmf_subsystem_poll_group" where
  "pause_next sg = (if sg_state sg = SUBSYSTEM_PAUSING \<and> drained sg
     then sg\<lparr>sg_state := SUBSYSTEM_PAUSED, sg_cb := None\<rparr> else sg)"

lemma finish_pause_Inr:
  assumes "finish_pause pg = Inr pg'"
  shows "same_core (set_sgroup pause_next pg) pg'"
    and "pg_done pg' = pg_done pg @
      (if sg_state (pg_sgroup pg) = SUBSYSTEM_PAUSING \<and> drained (pg_sgroup pg)
       then [(the (sg_cb (pg_sgroup pg)), 0)] else [])"
  using assms
  by (auto simp: finish_pause_def same_core_def pause_next_def call_back_def Let_def
      split: if_splits option.splits)

lemma counter_pause_next [simp]: "counter (pause_next sg) c = counter sg c"
  by (cases c) (auto simp: pause_next_def)

lemma queued_pause_next [simp]: "sg_queued (pause_next sg) = sg_queued sg"
  by (simp add: pause_next_def)

lemma pause_next_release:
  assumes p: "pause_ok sg" and k: "req_class q r = c" "c \<noteq> Uncounted" "counter sg c > 0" "c \<noteq> Mgmt \<Longrightarrow> e"
  shows "pause_ok (pause_next (release_outstanding q r e sg))"
proof (cases "sg_state sg = SUBSYSTEM_PAUSING")
  case True
  then show ?thesis using p
    by (auto simp: pause_next_def pause_ok_def drained_def)
next
  case False
  then have *: "pause_next (release_outstanding q r e sg) = release_outstanding q r e sg"
    by (simp add: pause_next_def)
  have a: "list_all (\<lambda>x. pgn_state x \<noteq> SUBSYSTEM_PAUSING) xs \<longleftrightarrow> SUBSYSTEM_PAUSING \<notin> set (map pgn_state xs)"
    for xs by (force simp: list_all_iff)
  show ?thesis
  proof (cases "sg_state sg = SUBSYSTEM_PAUSED")
    case True
    then show ?thesis using drained_release [OF _ k] p by (simp add: * pause_ok_def)
  next
    case notp: False
    then show ?thesis using p False unfolding * pause_ok_def a sg_ns_state_parts queued_parts
      by (cases "sg_state sg") simp_all
  qed
qed

text \<open>A completed request is found, moves to its next phase or leaves, and is released.\<close>

lemma request_complete_Inr:
  assumes "request_complete qa ra st0 pg = Inr pg'"
  obtains q r gone ph pg1 pg2 where
    "find_qpair qa pg = Some q" and "List.find (\<lambda>r. rq_addr r = ra) (qp_outstanding q) = Some r"
    and "zcopy_complete (rq_zcopy r) (cpl_is_error (set_crd q st0)) = (gone, ph)"
    and "same_core (set_qpair qa (qp_outstanding_update
           (if gone then remove_by rq_addr ra else update_by rq_addr ra (rq_zcopy_update (\<lambda>_. ph)))) pg) pg1"
    and "pg_done pg1 = pg_done pg"
    and "(if req_class q r = Uncounted then Inr pg1
          else finish_pause (set_sgroup (release_outstanding q r
             (ph \<in> {ZCOPY_PHASE_NONE, ZCOPY_PHASE_COMPLETE, ZCOPY_PHASE_INIT_FAILED})) pg1)) = Inr pg2"
    and "qpair_request_cleanup qa pg2 = Inr pg'"
proof -
  from assms obtain q r where q: "find_qpair qa pg = Some q"
      and r: "List.find (\<lambda>r. rq_addr r = ra) (qp_outstanding q) = Some r"
    by (auto simp: request_complete_def split: option.splits)
  obtain gone ph where z: "zcopy_complete (rq_zcopy r) (cpl_is_error (set_crd q st0)) = (gone, ph)"
    by (cases "zcopy_complete (rq_zcopy r) (cpl_is_error (set_crd q st0))")
  have cl: "request_sgroup q r \<and> \<not> (qp_ctrlr q \<and> rq_opc r = OPC_ASYNC_EVENT_REQUEST)
      \<longleftrightarrow> req_class q r \<noteq> Uncounted"
    by (simp add: req_class_def)
  let ?m = "\<lambda>p. (set_qpair qa (qp_outstanding_update
      (if gone then remove_by rq_addr ra else update_by rq_addr ra (rq_zcopy_update (\<lambda>_. ph))))
      (if qp_ctrlr q \<and> qp_qid q \<noteq> 0
       then pg\<lparr>pg_completed_nvme_io := pg_completed_nvme_io pg + 1\<rparr> else pg))"
  let ?pg1 = "(?m pg)\<lparr>pg_sent := pg_sent (?m pg) @ [(ra, set_crd q st0)]\<rparr>"
  have e: "request_complete qa ra st0 pg = bindR
      (if req_class q r = Uncounted then Inr ?pg1
       else finish_pause (set_sgroup (release_outstanding q r
             (ph \<in> {ZCOPY_PHASE_NONE, ZCOPY_PHASE_COMPLETE, ZCOPY_PHASE_INIT_FAILED})) ?pg1))
      (qpair_request_cleanup qa)"
    unfolding request_complete_def q r option.case Let_def z prod.case cl
    by (cases "req_class q r = Uncounted")
      (simp_all only: if_True if_False not_True_eq_False not_False_eq_True simp_thms)
  have "same_core (set_qpair qa (qp_outstanding_update
      (if gone then remove_by rq_addr ra else update_by rq_addr ra (rq_zcopy_update (\<lambda>_. ph)))) pg) ?pg1"
    by (simp add: same_core_def set_qpair_def)
  moreover have "pg_done ?pg1 = pg_done pg" by (simp add: set_qpair_def)
  moreover from assms [unfolded e bindR_eq_Inr] obtain pg2 where
    "(if req_class q r = Uncounted then Inr ?pg1
      else finish_pause (set_sgroup (release_outstanding q r
        (ph \<in> {ZCOPY_PHASE_NONE, ZCOPY_PHASE_COMPLETE, ZCOPY_PHASE_INIT_FAILED})) ?pg1)) = Inr pg2"
    "qpair_request_cleanup qa pg2 = Inr pg'"
    by blast
  ultimately show ?thesis using that q r z by blast
qed

lemma outstanding_distinct:
  assumes "pg_shape pg" and "find_qpair qa pg = Some q"
  shows "distinct (map rq_addr (qp_outstanding q))"
proof -
  have "count (mset (map rq_addr (qp_outstanding q))) a \<le> 1" for a
    using mset_subset_eq_count [OF q_live_subset [OF assms(2)], of a] pg_shapeD(4) [OF assms(1), of a]
    by (simp add: q_live_def)
  then have "count (mset (map rq_addr (qp_outstanding q))) a =
      (if a \<in> set (map rq_addr (qp_outstanding q)) then 1 else 0)" for a
    by (metis One_nat_def count_mset_0_iff le_SucE le_zero_eq not_in_iff set_mset_mset)
  then show ?thesis by (simp only: distinct_count_atmost_1) blast
qed

lemma req_class_zcopy [simp]: "req_class q (rq_zcopy_update f r) = req_class q r"
  by (simp add: req_class_def request_sgroup_def request_is_fabric_connect_def)

lemma req_class_outstanding [simp]: "req_class (qp_outstanding_update f q) = req_class q"
  by (simp add: fun_eq_iff req_class_def request_sgroup_def qpair_is_admin_queue_def)

lemma req_wf_outstanding [simp]: "req_wf (qp_outstanding_update f q) = req_wf q"
  by (simp add: fun_eq_iff req_wf_def qpair_is_admin_queue_def)

text \<open>What a change of the list of outstanding requests of one queue pair does.\<close>

lemma shape_outstanding:
  assumes sh: "pg_shape pg" and q: "find_qpair qa pg = Some q"
    and l: "mset (map rq_addr (f (qp_outstanding q))) \<subseteq># mset (map rq_addr (qp_outstanding q))"
    and wf: "list_all (req_wf q) (f (qp_outstanding q))"
  shows "pg_shape (set_qpair qa (qp_outstanding_update f) pg)"
proof (rule pg_shape_shrink [OF sh])
  note dist = pg_shapeD(1) [OF sh]
  let ?pg' = "set_qpair qa (qp_outstanding_update f) pg"
  have "live ?pg' + q_live q \<subseteq># live pg + q_live q"
    using live_set_qpair [OF dist q, of "qp_outstanding_update f"] l
    by (simp add: q_live_def)
  then show "live ?pg' \<subseteq># live pg" by simp
  show "distinct (map qp_addr (pg_qpairs ?pg'))" using dist by (simp add: update_by_map_same)
  show "list_all qpair_wf (pg_qpairs ?pg')"
    using dist q
  proof (rule pg_split)
    fix xs ys assume "pg_qpairs pg = xs @ q # ys" "qp_addr q = qa"
      "qa \<notin> qp_addr ` set xs" "qa \<notin> qp_addr ` set ys"
    then show ?thesis using wf pg_shapeD(2) [OF sh]
      by (simp add: list_all_iff qpair_wf_def update_by_notin)
  qed
  show "\<exists>q. find_qpair a pg = Some q \<and> (req_wf q r \<longrightarrow> req_wf q' r)"
    if "find_qpair a ?pg' = Some q'" for a q' r
    using that by (auto simp: find_key_update_by split: if_splits)
qed simp_all

lemma counters_bound:
  assumes "pg_inv0 L pg" and "c \<noteq> Uncounted" shows "counter (pg_sgroup pg) c \<le> 2 * max_live"
proof -
  have "n_out c pg \<le> max_live"
    using n_out_le_live [of c pg] pg_shapeD(5) [of pg] assms(1) by (simp add: pg_inv0_def)
  with assms show ?thesis by (auto simp: pg_inv0_def counters_ok_def add_mono mult_2)
qed

text \<open>The three ways in which the request leaves or stays.\<close>

lemma zcopy_complete_cases:
  assumes "zcopy_complete z err = (gone, ph)" and "req_wf q r" and "rq_zcopy r = z"
  shows "gone \<longleftrightarrow> ph \<in> {ZCOPY_PHASE_NONE, ZCOPY_PHASE_COMPLETE, ZCOPY_PHASE_INIT_FAILED}"
    and "\<not> gone \<Longrightarrow> ph = ZCOPY_PHASE_EXECUTE \<and> req_wf q (r\<lparr>rq_zcopy := ph\<rparr>) \<and> (\<exists>i. req_class q r = Io i \<or> req_class q r = Uncounted)"
proof -
  from assms show "gone \<longleftrightarrow> ph \<in> {ZCOPY_PHASE_NONE, ZCOPY_PHASE_COMPLETE, ZCOPY_PHASE_INIT_FAILED}"
    by (cases z) (auto simp: req_wf_def split: if_splits)
  show "ph = ZCOPY_PHASE_EXECUTE \<and> req_wf q (r\<lparr>rq_zcopy := ph\<rparr>) \<and> (\<exists>i. req_class q r = Io i \<or> req_class q r = Uncounted)"
    if "\<not> gone"
    using assms that by (cases z) (auto simp: req_wf_def req_class_def split: if_splits)
qed

lemma shape_sgroup:
  assumes "sg_queued (f (pg_sgroup pg)) = sg_queued (pg_sgroup pg)"
  shows "pg_shape (set_sgroup f pg) = pg_shape pg"
proof -
  have "queued_wf (set_sgroup f pg) = queued_wf pg" by (simp add: fun_eq_iff queued_wf_def)
  then show ?thesis using assms by (simp add: pg_shape_def live_sgroup)
qed

lemma pause_next_id: "pause_ok sg \<Longrightarrow> pause_next sg = sg"
  by (auto simp: pause_ok_def pause_next_def)

lemma n_out_outstanding:
  assumes "pg_shape pg" and "find_qpair qa pg = Some q"
    and "List.find (\<lambda>r. rq_addr r = ra) (qp_outstanding q) = Some r"
  shows "n_out c (set_qpair qa (qp_outstanding_update
           (if gone then remove_by rq_addr ra else update_by rq_addr ra (rq_zcopy_update (\<lambda>_. ph)))) pg) =
         n_out c pg - (if gone \<and> req_class q r = c then 1 else 0)"
proof -
  note d = pg_shapeD(1) [OF assms(1)]
  obtain us vs where o: "qp_outstanding q = us @ r # vs" "rq_addr r = ra"
      "ra \<notin> rq_addr ` set us" "ra \<notin> rq_addr ` set vs"
    using outstanding_distinct [OF assms(1,2)] assms(3) by (rule find_key_split)
  show ?thesis
    using n_out_set_qpair [OF d assms(2), of c "qp_outstanding_update
        (if gone then remove_by rq_addr ra else update_by rq_addr ra (rq_zcopy_update (\<lambda>_. ph)))"]
    by (auto simp: cls_count_def o remove_by_notin update_by_notin split: if_splits)
qed

lemma complete_keeps:
  assumes i: "pg_inv0 L pg" and c: "request_complete qa ra st pg = Inr pg'"
  shows "pg_inv0 L pg'"
proof -
  from c obtain q r gone ph pg1 pg2 where q: "find_qpair qa pg = Some q"
    and r: "List.find (\<lambda>r. rq_addr r = ra) (qp_outstanding q) = Some r"
    and z: "zcopy_complete (rq_zcopy r) (cpl_is_error (set_crd q st)) = (gone, ph)"
    and pg1: "same_core (set_qpair qa (qp_outstanding_update
           (if gone then remove_by rq_addr ra else update_by rq_addr ra (rq_zcopy_update (\<lambda>_. ph)))) pg) pg1"
    and pg2: "(if req_class q r = Uncounted then Inr pg1
          else finish_pause (set_sgroup (release_outstanding q r
             (ph \<in> {ZCOPY_PHASE_NONE, ZCOPY_PHASE_COMPLETE, ZCOPY_PHASE_INIT_FAILED})) pg1)) = Inr pg2"
    and pg': "qpair_request_cleanup qa pg2 = Inr pg'"
    by (rule request_complete_Inr)
  let ?g = "if gone then remove_by rq_addr ra else update_by rq_addr ra (rq_zcopy_update (\<lambda>_. ph))"
  let ?A = "set_qpair qa (qp_outstanding_update ?g) pg"
  have sh: "pg_shape pg" and co: "counters_ok L pg" and pa: "pause_ok (pg_sgroup pg)"
      and L: "\<forall>c. L c \<le> max_live"
    using i by (simp_all add: pg_inv0_def)
  have rin: "r \<in> set (qp_outstanding q)" using find_SomeD [OF r] by simp
  have qwf: "list_all (req_wf q) (qp_outstanding q)"
    using pg_shapeD(2) [OF sh] find_SomeD [OF q] by (auto simp: qpair_wf_def)
  then have rwf: "req_wf q r" using rin by (simp add: list_all_iff)
  note zc = zcopy_complete_cases [OF z rwf refl]
  obtain us vs where o: "qp_outstanding q = us @ r # vs" "rq_addr r = ra"
      "ra \<notin> rq_addr ` set us" "ra \<notin> rq_addr ` set vs"
    using outstanding_distinct [OF sh q] r by (rule find_key_split)
  have g: "mset (map rq_addr (?g (qp_outstanding q))) \<subseteq># mset (map rq_addr (qp_outstanding q))"
    by (simp add: o remove_by_notin update_by_notin)
  have "list_all (req_wf q) (?g (qp_outstanding q))"
    using qwf zc(2) by (auto simp: o remove_by_notin update_by_notin)
  from shape_outstanding [OF sh q, of ?g, OF g this] have shA: "pg_shape ?A" .
  note n = n_out_outstanding [OF sh q r, of _ gone ph]
  have "pg_inv0 L pg2"
  proof (cases "req_class q r = Uncounted")
    case True
    with n have "pg_inv0 L ?A" using shA co pa L by (simp add: pg_inv0_def counters_ok_def)
    with pg1 pg2 True show ?thesis by (simp add: same_core_inv)
  next
    case False
    let ?c = "req_class q r"
    let ?rel = "release_outstanding q r gone"
    have fin: "finish_pause (set_sgroup ?rel pg1) = Inr pg2"
      using pg2 False unfolding zc(1) [symmetric] by simp
    have npos: "n_out ?c pg > 0" using q rin by (rule n_out_pos) simp
    have pos: "counter (pg_sgroup pg) ?c > 0" using npos False co by (simp add: counters_ok_def)
    have Br: "pg_shape (set_sgroup (pause_next \<circ> ?rel) ?A)"
      using shA by (simp add: shape_sgroup)
    have cr: "counter (?rel (pg_sgroup pg)) d = counter (pg_sgroup pg) d - (if gone \<and> d = ?c then 1 else 0)" for d
    proof (cases gone)
      case True
      then show ?thesis using counter_release [OF refl False pos, of gone d] by simp
    next
      case ng: False
      with zc(2) False obtain i where "?c = Io i" by blast
      from release_not_ended [OF this] ng show ?thesis by simp
    qed
    have pr: "pause_ok (pause_next (?rel (pg_sgroup pg)))"
    proof (cases gone)
      case True
      then show ?thesis using pause_next_release [OF pa refl False pos, of gone] by simp
    next
      case ng: False
      with zc(2) False obtain i where "?c = Io i" by blast
      from release_not_ended [OF this] ng show ?thesis using pa by (simp add: pause_next_id)
    qed
    have "pg_inv0 L (set_sgroup (pause_next \<circ> ?rel) ?A)"
      using Br pr L co npos by (auto simp: pg_inv0_def counters_ok_def n cr)
    moreover have "same_core (set_sgroup (pause_next \<circ> ?rel) ?A) (set_sgroup pause_next (set_sgroup ?rel pg1))"
      using pg1 by (simp add: same_core_def)
    moreover have "same_core (set_sgroup pause_next (set_sgroup ?rel pg1)) pg2"
      by (rule finish_pause_Inr(1) [OF fin])
    ultimately show ?thesis by (simp add: same_core_inv)
  qed
  then show ?thesis using pg' by (rule cleanup_keeps)
qed

section \<open>What executing a request keeps\<close>

lemma find_enqueue:
  "find_qpair a (enqueue_outstanding r pg) = map_option (\<lambda>q. if a = rq_qpair r
     then q\<lparr>qp_outstanding := qp_outstanding q @ [r]\<rparr> else q) (find_qpair a pg)"
  by (simp add: enqueue_outstanding_def find_key_update_by)

lemma enqueue_parts [simp]:
  "pg_sgroup (enqueue_outstanding r pg) = pg_sgroup pg"
  "pg_subsystem_id (enqueue_outstanding r pg) = pg_subsystem_id pg"
  "pg_num_sgroups (enqueue_outstanding r pg) = pg_num_sgroups pg"
  "pg_done (enqueue_outstanding r pg) = pg_done pg"
  by (simp_all add: enqueue_outstanding_def)

lemma enqueue_then_remove:
  assumes "distinct (map qp_addr (pg_qpairs pg))" and "find_qpair (rq_qpair r) pg = Some q"
    and "rq_addr r \<notin> rq_addr ` set (qp_outstanding q)"
  shows "pg_qpairs (set_qpair (rq_qpair r) (qp_outstanding_update (remove_by rq_addr (rq_addr r)))
           (enqueue_outstanding r pg)) = pg_qpairs pg"
  using assms(1,2)
proof (rule pg_split)
  fix xs ys assume "pg_qpairs pg = xs @ q # ys" "qp_addr q = rq_qpair r"
    "rq_qpair r \<notin> qp_addr ` set xs" "rq_qpair r \<notin> qp_addr ` set ys"
  then show ?thesis using assms(3)
    by (simp add: enqueue_outstanding_def update_by_notin remove_by_notin)
qed

lemma fresh_outstanding:
  "rq_addr r \<notin># live pg \<Longrightarrow> find_qpair qa pg = Some q \<Longrightarrow> rq_addr r \<notin> rq_addr ` set (qp_outstanding q)"
  using mset_subset_eqD [OF q_live_subset] by (fastforce simp: q_live_def)

lemma find_fresh_last:
  "rq_addr r \<notin> rq_addr ` set rs \<Longrightarrow> List.find (\<lambda>x. rq_addr x = rq_addr r) (rs @ [r]) = Some r"
  by (simp add: find_key_append_notin)

text \<open>A request that is rejected with an error leaves no trace in the accounts.\<close>

lemma reject_same_core:
  assumes sh: "pg_shape pg" and pa: "pause_ok (pg_sgroup pg)"
    and q: "find_qpair (rq_qpair r) pg = Some q" and fresh: "rq_addr r \<notin># live pg"
    and z: "rq_zcopy r \<in> {ZCOPY_PHASE_NONE, ZCOPY_PHASE_INIT}" and err: "cpl_is_error st"
    and cls: "req_class q r \<noteq> Uncounted"
    and add: "release_outstanding q r True (add (pg_sgroup pg)) = pg_sgroup pg"
    and rej: "reject_request r st (set_sgroup add pg) = Inr pg'"
  obtains pg2 where "same_core pg pg2" and "pg_done pg2 = pg_done pg"
    and "qpair_request_cleanup (rq_qpair r) pg2 = Inr pg'"
proof -
  let ?E = "enqueue_outstanding r (set_sgroup add pg)"
  let ?q = "q\<lparr>qp_outstanding := qp_outstanding q @ [r]\<rparr>"
  note fr = fresh_outstanding [OF fresh q]
  have qE: "find_qpair (rq_qpair r) ?E = Some ?q" by (simp add: find_enqueue q)
  have rE: "List.find (\<lambda>x. rq_addr x = rq_addr r) (qp_outstanding ?q) = Some r"
    using find_fresh_last [OF fr] by simp
  have cE: "req_class ?q r = req_class q r"
    using req_class_outstanding [of "\<lambda>_. qp_outstanding q @ [r]" q] by simp
  have relE: "release_outstanding ?q r e = release_outstanding q r e" for e
    by (simp add: fun_eq_iff release_outstanding_def qpair_is_admin_queue_def)
  have errE: "cpl_is_error (set_crd ?q st)" using err by (simp add: set_crd_def cpl_is_error_def)
  obtain q' r' gone ph pg1 pg2 where *: "find_qpair (rq_qpair r) ?E = Some q'"
      "List.find (\<lambda>x. rq_addr x = rq_addr r) (qp_outstanding q') = Some r'"
      "zcopy_complete (rq_zcopy r') (cpl_is_error (set_crd q' st)) = (gone, ph)"
      "same_core (set_qpair (rq_qpair r) (qp_outstanding_update
         (if gone then remove_by rq_addr (rq_addr r)
          else update_by rq_addr (rq_addr r) (rq_zcopy_update (\<lambda>_. ph)))) ?E) pg1"
      "pg_done pg1 = pg_done ?E"
      "(if req_class q' r' = Uncounted then Inr pg1
        else finish_pause (set_sgroup (release_outstanding q' r'
          (ph \<in> {ZCOPY_PHASE_NONE, ZCOPY_PHASE_COMPLETE, ZCOPY_PHASE_INIT_FAILED})) pg1)) = Inr pg2"
      "qpair_request_cleanup (rq_qpair r) pg2 = Inr pg'"
    using rej unfolding reject_request_def by (rule request_complete_Inr)
  have id: "q' = ?q" "r' = r" using * qE rE by auto
  have g: "gone" "ph \<in> {ZCOPY_PHASE_NONE, ZCOPY_PHASE_COMPLETE, ZCOPY_PHASE_INIT_FAILED}"
    using *(3) z errE by (auto simp: id)
  have qs: "pg_qpairs pg1 = pg_qpairs pg"
    using *(4) g enqueue_then_remove [of "set_sgroup add pg" r q] pg_shapeD(1) [OF sh] q fr
    by (simp add: same_core_def)
  have sg1: "pg_sgroup pg1 = add (pg_sgroup pg)" using *(4) by (simp add: same_core_def)
  have fin: "finish_pause (set_sgroup (release_outstanding q r True) pg1) = Inr pg2"
    using *(6) g cls by (simp add: id cE relE)
  have sg2: "pg_sgroup (set_sgroup (release_outstanding q r True) pg1) = pg_sgroup pg"
    by (simp add: sg1 add)
  have "same_core pg pg2"
    using finish_pause_Inr(1) [OF fin] *(4) pause_next_id [OF pa]
    by (simp add: same_core_def qs sg1 add)
  moreover have "pg_done pg2 = pg_done pg"
    using finish_pause_Inr(2) [OF fin] *(5) pa unfolding sg2
    by (auto simp: pause_ok_def)
  ultimately show ?thesis using that *(7) by blast
qed

lemma shape_enqueue:
  assumes sh: "pg_shape pg" and q: "find_qpair (rq_qpair r) pg = Some q"
    and fresh: "rq_addr r \<notin># live pg" and size: "size (live pg) < max_live" and wf: "req_wf q r"
  shows "pg_shape (enqueue_outstanding r pg)"
proof -
  note d = pg_shapeD(1) [OF sh]
  let ?f = "\<lambda>q. q\<lparr>qp_outstanding := qp_outstanding q @ [r]\<rparr>"
  have l: "live (enqueue_outstanding r pg) = live pg + {#rq_addr r#}"
    using live_set_qpair [OF d q, of ?f] by (simp add: enqueue_outstanding_def q_live_def)
  have wfe: "req_wf (?f q) = req_wf q" for q
    using req_wf_outstanding [of "\<lambda>_. qp_outstanding q @ [r]" q] by simp
  have "list_all qpair_wf (pg_qpairs (enqueue_outstanding r pg))"
    using d q
  proof (rule pg_split)
    fix xs ys assume "pg_qpairs pg = xs @ q # ys" "qp_addr q = rq_qpair r"
      "rq_qpair r \<notin> qp_addr ` set xs" "rq_qpair r \<notin> qp_addr ` set ys"
    then show ?thesis using wf wfe pg_shapeD(2) [OF sh]
      by (simp add: list_all_iff qpair_wf_def update_by_notin enqueue_outstanding_def)
  qed
  moreover have "queued_wf (enqueue_outstanding r pg) x = queued_wf pg x" for x
    by (cases "find_qpair (rq_qpair x) pg") (auto simp: queued_wf_def find_enqueue wfe)
  moreover have "count (live (enqueue_outstanding r pg)) a \<le> 1" for a
    using pg_shapeD(4) [OF sh, of a] fresh by (auto simp: l not_in_iff)
  moreover have "distinct (map qp_addr (pg_qpairs (enqueue_outstanding r pg)))"
    using d by (simp add: enqueue_outstanding_def update_by_map_same)
  ultimately show ?thesis
    using sh size by (simp add: pg_shape_def l list_all_iff)
qed

lemma n_out_enqueue:
  assumes "pg_shape pg" and "find_qpair (rq_qpair r) pg = Some q"
  shows "n_out c (enqueue_outstanding r pg) = n_out c pg + (if req_class q r = c then 1 else 0)"
proof -
  let ?f = "\<lambda>q. q\<lparr>qp_outstanding := qp_outstanding q @ [r]\<rparr>"
  have cl: "req_class (?f q) = req_class q"
    using req_class_outstanding [of "\<lambda>_. qp_outstanding q @ [r]" q] by simp
  from n_out_set_qpair [OF pg_shapeD(1) [OF assms(1)] assms(2), of c ?f] show ?thesis
    by (simp add: enqueue_outstanding_def cls_count_def cl)
qed

lemma release_add:
  "release_outstanding q r e (add_mgmt_outstanding sg) = sg"
  if "rq_opc r = NVME_OPC_FABRIC \<or> qpair_is_admin_queue q"
  using that by (simp add: release_outstanding_def add_mgmt_outstanding_def)

lemma release_add_io:
  "release_outstanding q r True (add_io_outstanding i sg) = sg"
  if "\<not> (rq_opc r = NVME_OPC_FABRIC \<or> qpair_is_admin_queue q)" and "i = unat (rq_nsid r - 1)"
    and "i < length (sg_ns_info sg)"
  using that by (simp add: release_outstanding_def add_io_outstanding_def Let_def)

text \<open>A request is put on the list of outstanding ones while its counter is raised.\<close>

definition admit :: "spdk_nvmf_qpair \<Rightarrow> spdk_nvmf_request \<Rightarrow> spdk_nvmf_poll_group \<Rightarrow> spdk_nvmf_poll_group" where
  "admit q r pg = enqueue_outstanding r (set_sgroup (add_outstanding (req_class q r)) pg)"

definition admissible :: "spdk_nvmf_qpair \<Rightarrow> spdk_nvmf_request \<Rightarrow> spdk_nvmf_subsystem_poll_group \<Rightarrow> bool" where
  "admissible q r sg \<longleftrightarrow>
     (case req_class q r of
        Uncounted \<Rightarrow> True
      | Mgmt \<Rightarrow> sg_state sg = SUBSYSTEM_ACTIVE
      | Io i \<Rightarrow> i < length (sg_ns_info sg) \<and> ns_state sg i = SUBSYSTEM_ACTIVE)"

lemma queued_add [simp]: "sg_queued (add_outstanding c sg) = sg_queued sg"
    "sg_state (add_outstanding c sg) = sg_state sg" "sg_cb (add_outstanding c sg) = sg_cb sg"
  by (simp_all add: add_outstanding_def split: req_class.split)

lemma add_uncounted [simp]: "add_outstanding Uncounted sg = sg"
  by (simp add: add_outstanding_def)

lemma add_outstanding_class:
  "add_outstanding Mgmt = add_mgmt_outstanding" "add_outstanding (Io i) = add_io_outstanding i"
  by (simp_all add: fun_eq_iff add_outstanding_def)

lemma max_live_small: "2 * max_live < 2 ^ 64 - 1"
  by (simp add: max_live_def)

lemma admit_keeps:
  assumes i: "pg_inv0 L pg" and q: "find_qpair (rq_qpair r) pg = Some q"
    and fresh: "rq_addr r \<notin># live pg" and size: "size (live pg) < max_live" and wf: "req_wf q r"
    and adm: "admissible q r (pg_sgroup pg)"
  shows "pg_inv0 L (admit q r pg)"
proof -
  let ?c = "req_class q r" and ?sg = "pg_sgroup pg"
  let ?P = "set_sgroup (add_outstanding ?c) pg"
  have sh: "pg_shape pg" and co: "counters_ok L pg" and pa: "pause_ok ?sg"
    using i by (simp_all add: pg_inv0_def)
  have shP: "pg_shape ?P" by (simp add: shape_sgroup sh)
  have shA: "pg_shape (admit q r pg)"
    unfolding admit_def using shP _ _ _ wf by (rule shape_enqueue) (simp_all add: q fresh size live_sgroup)
  have cnt: "counter (add_outstanding ?c ?sg) d = counter ?sg d + (if d = ?c then 1 else 0)"
    if "?c \<noteq> Uncounted" for d
  proof (rule counter_add [OF that])
    show "counter ?sg ?c < 2 ^ 64 - 1"
      using counters_bound [OF i that] max_live_small by (rule le_less_trans)
    show "?c = Io j \<Longrightarrow> j < length (sg_ns_info ?sg)" for j using adm by (simp add: admissible_def)
  qed
  have n: "n_out d (admit q r pg) = n_out d pg + (if ?c = d then 1 else 0)" for d
    unfolding admit_def using n_out_enqueue [OF shP, of r q d] q by simp
  have "counters_ok L (admit q r pg)"
    using co cnt unfolding counters_ok_def n by (cases "?c = Uncounted") (auto simp: admit_def)
  moreover have "pause_ok (add_outstanding ?c ?sg)"
  proof (cases "sg_state ?sg = SUBSYSTEM_PAUSED \<or> sg_state ?sg = SUBSYSTEM_PAUSING")
    case True
    have "drained (add_outstanding ?c ?sg) = drained ?sg"
      using adm True cnt by (cases ?c) (auto simp: admissible_def drained_alt simp del: counter.simps)
    then show ?thesis using pa by (subst pause_ok_cong [of _ ?sg]) simp_all
  next
    case False
    have a: "list_all (\<lambda>x. pgn_state x \<noteq> SUBSYSTEM_PAUSING) xs \<longleftrightarrow> SUBSYSTEM_PAUSING \<notin> set (map pgn_state xs)"
      for xs by (force simp: list_all_iff)
    from False show ?thesis using pa unfolding pause_ok_def a sg_ns_state_parts queued_add
      by (cases "sg_state ?sg") simp_all
  qed
  ultimately show ?thesis using i shA by (simp add: pg_inv0_def admit_def)
qed

lemma queue_keeps:
  assumes i: "pg_inv0 L pg" and fresh: "rq_addr r \<notin># live pg" and size: "size (live pg) < max_live"
    and wf: "queued_wf pg r"
  shows "pg_inv0 L (queue_request r pg)"
proof -
  have l: "live (queue_request r pg) = live pg + {#rq_addr r#}"
    by (simp add: live_alt queue_request_def)
  have "queued_wf (queue_request r pg) = queued_wf pg"
    by (simp add: fun_eq_iff queued_wf_def queue_request_def)
  moreover have "count (live (queue_request r pg)) a \<le> 1" for a
    using fresh i by (auto simp: l pg_inv0_def pg_shape_def not_in_iff)
  moreover have "size (live (queue_request r pg)) \<le> max_live"
    using size by (simp add: l)
  moreover have "pg_qpairs (queue_request r pg) = pg_qpairs pg"
      "sg_queued (pg_sgroup (queue_request r pg)) = sg_queued (pg_sgroup pg) @ [r]"
      "pg_subsystem_id (queue_request r pg) = pg_subsystem_id pg"
      "pg_num_sgroups (queue_request r pg) = pg_num_sgroups pg"
    by (simp_all add: queue_request_def)
  ultimately have "pg_shape (queue_request r pg)"
    using i wf by (simp add: pg_inv0_def pg_shape_def)
  then show ?thesis using i by (simp add: pg_inv0_def counters_ok_def queue_request_def)
qed

text \<open>How the admission of a request can end.\<close>

lemma check_subsystem_active_cases:
  assumes c: "check_subsystem_active r pg = Inr (active, pg1)"
    and q: "find_qpair (rq_qpair r) pg = Some q" and reg: "regular pg r"
  obtains (queued) "\<not> active" and "pg1 = queue_request r pg"
  | (rejected) add st where "\<not> active" and "req_class q r \<noteq> Uncounted" and "cpl_is_error st"
      and "release_outstanding q r True (add (pg_sgroup pg)) = pg_sgroup pg"
      and "reject_request r st (set_sgroup add pg) = Inr pg1"
  | (aer) "active" and "req_class q r = Uncounted" and "rq_opc r = OPC_ASYNC_EVENT_REQUEST"
      and "qpair_is_admin_queue q" and "qp_ctrlr q" and "pg1 = set_sgroup add_mgmt_outstanding pg"
  | (admitted) "active" and "pg1 = set_sgroup (add_outstanding (req_class q r)) pg"
      and "admissible q r (pg_sgroup pg)" and "request_sgroup q r"
      and "\<not> (qp_ctrlr q \<and> rq_opc r = OPC_ASYNC_EVENT_REQUEST)"
  | (unbound) "active" and "\<not> request_sgroup q r" and "pg1 = pg"
proof (cases "request_sgroup q r")
  case False
  then show ?thesis using c unbound by (simp add: check_subsystem_active_def q)
next
  case sg: True
  let ?sg = "pg_sgroup pg" and ?i = "unat (rq_nsid r - 1)"
  have id: "set_sgroup (\<lambda>x. x) pg = pg" by (simp add: set_sgroup_def)
  have e1: "cpl_is_error st_command_sequence_error" "cpl_is_error st_invalid_namespace"
    by (simp_all add: cpl_is_error_def)
  have aer: "qpair_is_admin_queue q \<and> qp_state q = QPAIR_ACTIVE" if "rq_opc r = OPC_ASYNC_EVENT_REQUEST"
    using reg q that by (simp add: regular_def)
  show ?thesis
  proof (cases "rq_opc r = NVME_OPC_FABRIC \<or> qpair_is_admin_queue q")
    case adm: True
    show ?thesis
    proof (cases "sg_state ?sg \<noteq> SUBSYSTEM_ACTIVE")
      case True
      then show ?thesis using c adm sg queued by (simp add: check_subsystem_active_def q)
    next
      case act: False
      show ?thesis
      proof (cases "qp_ctrlr q \<and> rq_opc r = OPC_ASYNC_EVENT_REQUEST")
        case True
        then show ?thesis using that(3) c adm act sg aer
          by (simp add: check_subsystem_active_def q req_class_def)
      next
        case na: False
        then have m: "req_class q r = Mgmt" using adm sg by (simp add: req_class_def)
        show ?thesis
        proof (cases "qp_state q = QPAIR_ACTIVE")
          case True
          show ?thesis
            by (rule admitted) (use c adm act sg na m True in
                \<open>simp_all add: check_subsystem_active_def q add_outstanding_class admissible_def\<close>)
        next
          case False
          show ?thesis
            by (rule rejected [of st_command_sequence_error add_mgmt_outstanding])
              (use c adm act sg m False e1 in
                \<open>auto simp: check_subsystem_active_def q release_add bindR_eq_Inr\<close>)
        qed
      qed
    qed
  next
    case io: False
    then have na: "rq_opc r \<noteq> OPC_ASYNC_EVENT_REQUEST" using aer by auto
    have m: "req_class q r = Io ?i" using io sg na by (simp add: req_class_def)
    show ?thesis
    proof (cases "?i < length (sg_ns_info ?sg)")
      case False
      show ?thesis
        by (rule rejected [of st_invalid_namespace "\<lambda>x. x"])
          (use c io sg m e1 False in
            \<open>auto simp: check_subsystem_active_def q bindR_eq_Inr id release_outstanding_def Let_def\<close>)
    next
      case len: True
      note rio = release_add_io [OF io refl len]
      show ?thesis
      proof (cases "pgn_channel (sg_ns_info ?sg ! ?i)")
        case None
        show ?thesis
          by (rule rejected [of st_invalid_namespace "add_io_outstanding ?i"])
            (use c io sg m e1 len None rio in
              \<open>auto simp: check_subsystem_active_def q bindR_eq_Inr Let_def\<close>)
      next
        case ch: (Some ch)
        show ?thesis
        proof (cases "pgn_state (sg_ns_info ?sg ! ?i) = SUBSYSTEM_ACTIVE")
          case False
          then show ?thesis using c io sg len ch queued by (simp add: check_subsystem_active_def q Let_def)
        next
          case act: True
          show ?thesis
          proof (cases "qp_state q = QPAIR_ACTIVE")
            case True
            show ?thesis
              by (rule admitted) (use c io act sg na m True len ch in
                  \<open>simp_all add: check_subsystem_active_def q add_outstanding_class admissible_def Let_def\<close>)
          next
            case False
            show ?thesis
              by (rule rejected [of st_command_sequence_error "add_io_outstanding ?i"])
                (use c io act sg m False len ch e1 rio in
                  \<open>auto simp: check_subsystem_active_def q bindR_eq_Inr Let_def\<close>)
          qed
        qed
      qed
    qed
  qed
qed

text \<open>An executed request is queued, rejected, or processed with its counter raised.\<close>

lemma request_exec_cases:
  assumes e: "request_exec r out pg = Inr pg'" and sh: "pg_shape pg" and pa: "pause_ok (pg_sgroup pg)"
    and fresh: "rq_addr r \<notin># live pg" and wf: "queued_wf pg r" and reg: "regular pg r"
  obtains (queued) q where "find_qpair (rq_qpair r) pg = Some q" and "pg' = queue_request r pg"
  | (rejected) q pg2 where "find_qpair (rq_qpair r) pg = Some q" and "same_core pg pg2"
      and "pg_done pg2 = pg_done pg" and "qpair_request_cleanup (rq_qpair r) pg2 = Inr pg'"
  | (processed) q status pg2 where "find_qpair (rq_qpair r) pg = Some q"
      and "admissible q r (pg_sgroup pg)"
      and "same_core (admit q r pg) pg2" and "pg_done pg2 = pg_done pg"
      and "\<not> qp_ctrlr q \<longrightarrow> request_is_fabric_connect r \<or> (\<exists>st. status = EXEC_COMPLETE st \<and> cpl_is_error st)"
      and "(case status of EXEC_COMPLETE st \<Rightarrow> request_complete (rq_qpair r) (rq_addr r) st pg2
            | EXEC_ASYNCHRONOUS \<Rightarrow> Inr pg2) = Inr pg'"
proof -
  from e obtain active pg1 where c: "check_subsystem_active r pg = Inr (active, pg1)"
    by (auto simp: request_exec_def bindR_eq_Inr)
  then obtain q where q: "find_qpair (rq_qpair r) pg = Some q"
    by (auto simp: check_subsystem_active_def split: option.splits)
  let ?E = "enqueue_outstanding r pg1"
  have proc: thesis if act: "active" and f1: "find_qpair (rq_qpair r) pg1 = Some q"
    and adm: "admissible q r (pg_sgroup pg)" and dn: "pg_done pg1 = pg_done pg"
    and core: "same_core (admit q r pg) (if rq_opc r = OPC_ASYNC_EVENT_REQUEST \<and> qpair_is_admin_queue q \<and>
        qp_ctrlr q then set_sgroup (\<lambda>sg. sg\<lparr>sg_mgmt_io_outstanding := sg_mgmt_io_outstanding sg - 1\<rparr>) ?E
        else ?E)"
  proof -
    let ?q = "q\<lparr>qp_outstanding := qp_outstanding q @ [r]\<rparr>"
    have qE: "find_qpair (rq_qpair r) ?E = Some ?q" by (simp add: find_enqueue f1)
    from e act obtain status pg2 where p: "process_cmd r out ?E = Inr (status, pg2)"
      and r: "(case status of EXEC_COMPLETE st \<Rightarrow> request_complete (rq_qpair r) (rq_addr r) st pg2
               | EXEC_ASYNCHRONOUS \<Rightarrow> Inr pg2) = Inr pg'"
      by (auto simp: request_exec_def c bindR_eq_Inr)
    have "pg_done pg2 = pg_done pg"
      using p dn by (auto simp: process_cmd_def qE Let_def split: if_splits)
    moreover have "pg2 = (if rq_opc r = OPC_ASYNC_EVENT_REQUEST \<and> qpair_is_admin_queue q \<and>
        qp_ctrlr q then set_sgroup (\<lambda>sg. sg\<lparr>sg_mgmt_io_outstanding := sg_mgmt_io_outstanding sg - 1\<rparr>) ?E
        else ?E)"
      using p by (auto simp: process_cmd_def qE qpair_is_admin_queue_def Let_def split: if_splits)
    with core have "same_core (admit q r pg) pg2" by simp
    moreover have "\<not> qp_ctrlr q \<longrightarrow> request_is_fabric_connect r \<or>
        (\<exists>st. status = EXEC_COMPLETE st \<and> cpl_is_error st)"
      using p by (auto simp: process_cmd_def qE request_is_fabric_connect_def cpl_is_error_def Let_def
          split: if_splits)
    ultimately show thesis using processed [OF q adm] r by blast
  qed
  from c q reg show thesis
  proof (cases rule: check_subsystem_active_cases)
    case queued
    then show ?thesis using that(1) q e by (simp add: request_exec_def c)
  next
    case (rejected add st)
    have "pg' = pg1" using e rejected(1) by (simp add: request_exec_def c)
    with rejected(5) have rej: "reject_request r st (set_sgroup add pg) = Inr pg'" by simp
    have z: "rq_zcopy r \<in> {ZCOPY_PHASE_NONE, ZCOPY_PHASE_INIT}" using wf by (simp add: queued_wf_def)
    from sh pa q fresh z rejected(3,2,4) rej show ?thesis
      by (rule reject_same_core) (rule that(2) [OF q])
  next
    case aer
    have r: "set_sgroup (\<lambda>sg. sg\<lparr>sg_mgmt_io_outstanding := sg_mgmt_io_outstanding sg - 1\<rparr>)
        (set_sgroup add_mgmt_outstanding pg) = pg"
      by (simp add: set_sgroup_def add_mgmt_outstanding_def)
    show ?thesis
      by (rule proc) (use aer q in \<open>auto simp: admissible_def same_core_def admit_def
        enqueue_outstanding_def add_mgmt_outstanding_def req_class_def request_sgroup_def split: if_splits\<close>)
  next
    case admitted
    show ?thesis
      by (rule proc) (use admitted q in \<open>auto simp: admit_def same_core_def\<close>)
  next
    case unbound
    then have u: "req_class q r = Uncounted" by (simp add: req_class_def)
    have id: "set_sgroup (\<lambda>x. x) pg = pg" by (simp add: set_sgroup_def)
    have "add_outstanding Uncounted = (\<lambda>x. x)" by (simp add: fun_eq_iff)
    then have a: "admit q r pg = enqueue_outstanding r pg" by (simp add: admit_def u id)
    show ?thesis
      by (rule proc) (use unbound q u in \<open>auto simp: admissible_def same_core_def a request_sgroup_def
        split: if_splits\<close>)
  qed
qed

lemma exec_keeps:
  assumes i: "pg_inv0 L pg" and e: "request_exec r out pg = Inr pg'"
    and fresh: "rq_addr r \<notin># live pg" and size: "size (live pg) < max_live"
    and wf: "queued_wf pg r" and reg: "regular pg r"
  shows "pg_inv0 L pg'"
proof -
  have sh: "pg_shape pg" and pa: "pause_ok (pg_sgroup pg)" using i by (simp_all add: pg_inv0_def)
  from e sh pa fresh wf reg show ?thesis
  proof (cases rule: request_exec_cases)
    case queued
    then show ?thesis using queue_keeps [OF i fresh size wf] by simp
  next
    case (rejected q pg2)
    then have "pg_inv0 L pg2" using i by (simp add: same_core_inv)
    then show ?thesis using rejected(4) by (rule cleanup_keeps)
  next
    case (processed q status pg2)
    have "req_wf q r" using wf processed(1) by (simp add: queued_wf_def)
    then have "pg_inv0 L (admit q r pg)" using admit_keeps [OF i] processed(1,2) fresh size by blast
    then have "pg_inv0 L pg2" using processed(3) by (simp add: same_core_inv)
    then show ?thesis using processed(6) by (cases status) (auto intro: complete_keeps)
  qed
qed

end
