(* ===== verification/Poll_Group_Steps.thy ===== *)
theory Poll_Group_Steps
  imports Poll_Group_Inv
begin

text \<open>
  Every step of the poll group keeps the invariant of \<open>Poll_Group_Inv\<close>. The invariant is
  an interpretation of \<open>guarded_stepper\<close>, so it holds in all states that the group reaches.
\<close>

section \<open>What completing and executing a request leave alone\<close>

text \<open>Queue pairs only disappear, and queued requests only with their queue pair.\<close>

definition pg_frame :: "spdk_nvmf_poll_group \<Rightarrow> spdk_nvmf_poll_group \<Rightarrow> bool" where
  "pg_frame pg pg' \<longleftrightarrow>
     (\<forall>a q'. find_qpair a pg' = Some q' \<longrightarrow> (\<exists>q. find_qpair a pg = Some q \<and>
        qp_qid q' = qp_qid q \<and> qp_state q' = qp_state q \<and> qp_ctrlr q' = qp_ctrlr q)) \<and>
     (\<forall>x \<in> set (sg_queued (pg_sgroup pg)).
        x \<in> set (sg_queued (pg_sgroup pg')) \<or> find_qpair (rq_qpair x) pg' = None)"

lemma pg_frame_qpair:
  "pg_frame pg pg' \<Longrightarrow> find_qpair a pg' = Some q' \<Longrightarrow> \<exists>q. find_qpair a pg = Some q \<and>
     qp_qid q' = qp_qid q \<and> qp_state q' = qp_state q \<and> qp_ctrlr q' = qp_ctrlr q"
  by (simp add: pg_frame_def)

lemma pg_frame_gone: "pg_frame pg pg' \<Longrightarrow> find_qpair a pg = None \<Longrightarrow> find_qpair a pg' = None"
  using pg_frame_qpair by (cases "find_qpair a pg'") fastforce+

lemma pg_frame_queued:
  "pg_frame pg pg' \<Longrightarrow> x \<in> set (sg_queued (pg_sgroup pg)) \<Longrightarrow>
     x \<in> set (sg_queued (pg_sgroup pg')) \<or> find_qpair (rq_qpair x) pg' = None"
  by (simp add: pg_frame_def)

lemma pg_frame_trans:
  assumes "pg_frame a b" and "pg_frame b c" shows "pg_frame a c"
  unfolding pg_frame_def
proof (intro conjI allI impI ballI)
  fix k q' assume "find_qpair k c = Some q'"
  from pg_frame_qpair [OF assms(2) this] pg_frame_qpair [OF assms(1)]
  show "\<exists>q. find_qpair k a = Some q \<and> qp_qid q' = qp_qid q \<and> qp_state q' = qp_state q \<and> qp_ctrlr q' = qp_ctrlr q"
    by fastforce
next
  fix x assume "x \<in> set (sg_queued (pg_sgroup a))"
  from pg_frame_queued [OF assms(1) this]
  show "x \<in> set (sg_queued (pg_sgroup c)) \<or> find_qpair (rq_qpair x) c = None"
    by (rule disjE) (auto dest: pg_frame_queued [OF assms(2)] pg_frame_gone [OF assms(2)])
qed

lemma pg_frame_same_core: "same_core a b \<Longrightarrow> pg_frame a b"
  by (simp add: pg_frame_def same_core_def)

lemma pg_frame_sgroup: "sg_queued (f (pg_sgroup pg)) = sg_queued (pg_sgroup pg) \<Longrightarrow> pg_frame pg (set_sgroup f pg)"
  by (simp add: pg_frame_def)

lemma pg_frame_outstanding: "pg_frame pg (set_qpair a (qp_outstanding_update f) pg)"
  by (auto simp: pg_frame_def find_key_update_by split: if_splits)

lemma pg_frame_enqueue: "pg_frame pg (enqueue_outstanding r pg)"
  by (auto simp: pg_frame_def find_enqueue split: if_splits)

lemma pg_frame_destroy:
  assumes "qpair_destroy qa pg = Inr pg'" shows "pg_frame pg pg'"
  using assms
proof (rule qpair_destroy_Inr)
  fix q
  assume qs: "pg_qpairs pg' = remove_by qp_addr qa (pg_qpairs pg)"
    and sg: "pg_sgroup pg' = (if qp_ctrlr q then (pg_sgroup pg)\<lparr>sg_queued :=
           filter (\<lambda>r. rq_qpair r \<noteq> qa) (sg_queued (pg_sgroup pg))\<rparr> else pg_sgroup pg)"
  show ?thesis
    unfolding pg_frame_def using find_qpair_remove [OF _ qs]
    by (auto simp: sg qs find_key_remove_by)
qed

lemma pg_frame_cleanup: "qpair_request_cleanup qa pg = Inr pg' \<Longrightarrow> pg_frame pg pg'"
  by (erule qpair_request_cleanup_cases)
    (auto intro: pg_frame_destroy simp: pg_frame_same_core same_core_def)

lemma pg_frame_complete:
  assumes "request_complete qa ra st pg = Inr pg'" shows "pg_frame pg pg'"
  using assms
proof (rule request_complete_Inr)
  fix q r gone ph pg1 pg2
  let ?f = "qp_outstanding_update
         (if gone then remove_by rq_addr ra else update_by rq_addr ra (rq_zcopy_update (\<lambda>_. ph)))"
  let ?rel = "release_outstanding q r (ph \<in> {ZCOPY_PHASE_NONE, ZCOPY_PHASE_COMPLETE, ZCOPY_PHASE_INIT_FAILED})"
  assume c: "same_core (set_qpair qa ?f pg) pg1"
    and f: "(if req_class q r = Uncounted then Inr pg1 else finish_pause (set_sgroup ?rel pg1)) = Inr pg2"
    and cl: "qpair_request_cleanup qa pg2 = Inr pg'"
  have "pg_frame pg1 pg2"
  proof (cases "req_class q r = Uncounted")
    case True
    with f show ?thesis by (simp add: pg_frame_same_core same_core_def)
  next
    case False
    then have "same_core (set_sgroup pause_next (set_sgroup ?rel pg1)) pg2"
      using f finish_pause_Inr(1) [of "set_sgroup ?rel pg1" pg2] by simp
    moreover have "pg_frame pg1 (set_sgroup pause_next (set_sgroup ?rel pg1))"
      by (simp add: pg_frame_def)
    ultimately show ?thesis using pg_frame_trans pg_frame_same_core by blast
  qed
  with c cl show ?thesis
    using pg_frame_trans pg_frame_outstanding pg_frame_same_core pg_frame_cleanup by meson
qed

lemma pg_frame_exec:
  assumes "request_exec r out pg = Inr pg'" and "pg_shape pg" and "pause_ok (pg_sgroup pg)"
    and "rq_addr r \<notin># live pg" and "queued_wf pg r" and "regular pg r"
  shows "pg_frame pg pg'"
  using assms
proof (cases rule: request_exec_cases)
  case (queued q)
  then show ?thesis by (auto simp: queue_request_def pg_frame_def)
next
  case (rejected q pg2)
  then show ?thesis using pg_frame_trans pg_frame_same_core pg_frame_cleanup by meson
next
  case (processed q status pg2)
  have "pg_frame pg (admit q r pg)"
    unfolding admit_def by (rule pg_frame_trans [OF pg_frame_sgroup pg_frame_enqueue]) simp
  then have f: "pg_frame pg pg2" using processed(3) pg_frame_trans pg_frame_same_core by blast
  show ?thesis
  proof (cases status)
    case (EXEC_COMPLETE st)
    then show ?thesis using f processed(6) pg_frame_trans pg_frame_complete by fastforce
  next
    case EXEC_ASYNCHRONOUS
    then show ?thesis using f processed(6) by simp
  qed
qed

lemma regular_frame: "regular pg r \<Longrightarrow> pg_frame pg pg' \<Longrightarrow> regular pg' r"
  unfolding regular_def pg_frame_def qpair_is_admin_queue_def by metis

section \<open>Unconnected queue pairs\<close>

abbreviation all_connect_wf :: "spdk_nvmf_poll_group \<Rightarrow> bool" where
  "all_connect_wf pg \<equiv> list_all connect_wf (pg_qpairs pg)"

lemma connect_wf_same_core: "same_core a b \<Longrightarrow> all_connect_wf b = all_connect_wf a"
  by (simp add: same_core_def)

lemma connect_wf_cleanup:
  assumes "qpair_request_cleanup qa pg = Inr pg'" and "all_connect_wf pg" shows "all_connect_wf pg'"
  using assms(1)
proof (cases rule: qpair_request_cleanup_cases)
  case same
  then show ?thesis using assms(2) by simp
next
  case (destroy q)
  from destroy(3) show ?thesis
    by (rule qpair_destroy_Inr) (use assms(2) in \<open>auto simp: list_all_iff\<close>)
qed

lemma connect_wf_outstanding:
  assumes "all_connect_wf pg" and "\<And>q. connect_wf q \<Longrightarrow> connect_wf (f q)"
  shows "all_connect_wf (set_qpair a f pg)"
  using assms by (auto simp: list_all_iff set_update_by)

lemma connect_wf_shrink:
  "connect_wf q \<Longrightarrow> connect_wf (qp_outstanding_update (remove_by rq_addr ra) q)"
  "connect_wf q \<Longrightarrow> connect_wf (qp_outstanding_update (filter P) q)"
  "connect_wf q \<Longrightarrow> connect_wf (qp_outstanding_update (update_by rq_addr ra (rq_zcopy_update g)) q)"
  by (auto simp: connect_wf_def list_all_iff set_update_by request_is_fabric_connect_def)

lemma connect_wf_complete_steps:
  assumes "same_core (set_qpair qa (qp_outstanding_update
         (if gone then remove_by rq_addr ra else update_by rq_addr ra (rq_zcopy_update (\<lambda>_. ph)))) pg) pg1"
    and "(if u then Inr pg1 else finish_pause (set_sgroup g pg1)) = Inr pg2"
  shows "pg_qpairs pg2 = pg_qpairs (set_qpair qa (qp_outstanding_update
         (if gone then remove_by rq_addr ra else update_by rq_addr ra (rq_zcopy_update (\<lambda>_. ph)))) pg)"
  using assms finish_pause_Inr(1) [of "set_sgroup g pg1" pg2]
  by (cases u) (simp_all add: same_core_def)

lemma connect_wf_complete:
  assumes "request_complete qa ra st pg = Inr pg'" and "all_connect_wf pg" shows "all_connect_wf pg'"
  using assms(1)
proof (rule request_complete_Inr)
  fix q r gone ph pg1 pg2
  let ?g = "if gone then remove_by rq_addr ra else update_by rq_addr ra (rq_zcopy_update (\<lambda>_. ph))"
  assume "same_core (set_qpair qa (qp_outstanding_update ?g) pg) pg1"
    and "(if req_class q r = Uncounted then Inr pg1
          else finish_pause (set_sgroup (release_outstanding q r
             (ph \<in> {ZCOPY_PHASE_NONE, ZCOPY_PHASE_COMPLETE, ZCOPY_PHASE_INIT_FAILED})) pg1)) = Inr pg2"
    and cl: "qpair_request_cleanup qa pg2 = Inr pg'"
  then have qs: "pg_qpairs pg2 = pg_qpairs (set_qpair qa (qp_outstanding_update ?g) pg)"
    by (rule_tac connect_wf_complete_steps)
  have "all_connect_wf (set_qpair qa (qp_outstanding_update ?g) pg)"
    by (rule connect_wf_outstanding [OF assms(2)]) (simp add: connect_wf_shrink)
  then have "all_connect_wf pg2" unfolding qs .
  with cl show ?thesis by (rule connect_wf_cleanup)
qed

text \<open>A request that completes with an error leaves the queue pairs as they were.\<close>

lemma complete_error_qpairs:
  assumes d: "distinct (map qp_addr (pg_qpairs pg))" and q: "find_qpair (rq_qpair r) pg = Some q"
    and fr: "rq_addr r \<notin> rq_addr ` set (qp_outstanding q)"
    and z: "rq_zcopy r \<in> {ZCOPY_PHASE_NONE, ZCOPY_PHASE_INIT}" and err: "cpl_is_error st"
    and E: "pg_qpairs pgE = pg_qpairs (enqueue_outstanding r pg)"
    and c: "request_complete (rq_qpair r) (rq_addr r) st pgE = Inr pg'"
  obtains pg2 where "pg_qpairs pg2 = pg_qpairs pg" and "qpair_request_cleanup (rq_qpair r) pg2 = Inr pg'"
proof -
  let ?q = "q\<lparr>qp_outstanding := qp_outstanding q @ [r]\<rparr>"
  have qE: "find_qpair (rq_qpair r) pgE = Some ?q" using q by (simp add: find_enqueue E)
  have rE: "List.find (\<lambda>x. rq_addr x = rq_addr r) (qp_outstanding ?q) = Some r"
    using find_fresh_last [OF fr] by simp
  obtain q' r' gone ph pg1 pg2 where *: "find_qpair (rq_qpair r) pgE = Some q'"
      "List.find (\<lambda>x. rq_addr x = rq_addr r) (qp_outstanding q') = Some r'"
      "zcopy_complete (rq_zcopy r') (cpl_is_error (set_crd q' st)) = (gone, ph)"
      "same_core (set_qpair (rq_qpair r) (qp_outstanding_update
         (if gone then remove_by rq_addr (rq_addr r)
          else update_by rq_addr (rq_addr r) (rq_zcopy_update (\<lambda>_. ph)))) pgE) pg1"
      "(if req_class q' r' = Uncounted then Inr pg1
        else finish_pause (set_sgroup (release_outstanding q' r'
          (ph \<in> {ZCOPY_PHASE_NONE, ZCOPY_PHASE_COMPLETE, ZCOPY_PHASE_INIT_FAILED})) pg1)) = Inr pg2"
      "qpair_request_cleanup (rq_qpair r) pg2 = Inr pg'"
    using c by (rule request_complete_Inr)
  have id: "r' = r" using * qE rE by auto
  have "cpl_is_error (set_crd q' st)" using err by (simp add: set_crd_def cpl_is_error_def)
  then have g: "gone" using *(3) z by (auto simp: id)
  have "pg_qpairs pg2 = pg_qpairs pg"
    using connect_wf_complete_steps [OF *(4,5)] enqueue_then_remove [OF d q fr] g by (simp add: E)
  then show ?thesis using that *(6) by blast
qed

lemma connect_wf_exec:
  assumes e: "request_exec r out pg = Inr pg'" and sh: "pg_shape pg" and pa: "pause_ok (pg_sgroup pg)"
    and fresh: "rq_addr r \<notin># live pg" and wf: "queued_wf pg r" and reg: "regular pg r"
    and c: "all_connect_wf pg"
  shows "all_connect_wf pg'"
  using e sh pa fresh wf reg
proof (cases rule: request_exec_cases)
  case (queued q)
  then show ?thesis using c by (simp add: queue_request_def)
next
  case (rejected q pg2)
  then show ?thesis using c connect_wf_same_core connect_wf_cleanup by blast
next
  case (processed q status pg2)
  have qs: "pg_qpairs pg2 = pg_qpairs (enqueue_outstanding r pg)"
    using processed(3) by (simp add: same_core_def admit_def enqueue_outstanding_def)
  show ?thesis
  proof (cases "qp_ctrlr q \<or> request_is_fabric_connect r")
    case True
    from pg_shapeD(1) [OF sh] processed(1) have "all_connect_wf pg2"
    proof (rule pg_split)
      fix xs ys assume "pg_qpairs pg = xs @ q # ys" "qp_addr q = rq_qpair r"
        "rq_qpair r \<notin> qp_addr ` set xs" "rq_qpair r \<notin> qp_addr ` set ys"
      then show ?thesis using c True unfolding qs
        by (auto simp: enqueue_outstanding_def update_by_notin connect_wf_def)
    qed
    then show ?thesis using processed(6) by (cases status) (auto intro: connect_wf_complete)
  next
    case False
    then obtain st where st: "status = EXEC_COMPLETE st" "cpl_is_error st"
      using processed(5) by blast
    have z: "rq_zcopy r \<in> {ZCOPY_PHASE_NONE, ZCOPY_PHASE_INIT}" using wf by (simp add: queued_wf_def)
    from processed(6) st have "request_complete (rq_qpair r) (rq_addr r) st pg2 = Inr pg'" by simp
    with pg_shapeD(1) [OF sh] processed(1) fresh_outstanding [OF fresh processed(1)] z st(2) qs
    obtain pg3 where "pg_qpairs pg3 = pg_qpairs pg" "qpair_request_cleanup (rq_qpair r) pg3 = Inr pg'"
      by (rule complete_error_qpairs)
    then show ?thesis using c connect_wf_cleanup by simp
  qed
qed

section \<open>Releasing the queued requests\<close>

lemma pg_inv_exec:
  assumes "pg_inv L pg" and "request_exec r out pg = Inr pg'" and "rq_addr r \<notin># live pg"
    and "size (live pg) < max_live" and "queued_wf pg r" and "regular pg r"
  shows "pg_inv L pg'"
  using assms exec_keeps connect_wf_exec unfolding pg_inv_def pg_inv0_def by blast

lemma dequeue_live:
  assumes sh: "pg_shape pg" and r: "r \<in> set (sg_queued (pg_sgroup pg))"
  defines "pg' \<equiv> set_sgroup (\<lambda>sg. sg\<lparr>sg_queued := remove_by rq_addr (rq_addr r) (sg_queued sg)\<rparr>) pg"
  shows "live pg = live pg' + {#rq_addr r#}" and "rq_addr r \<notin># live pg'"
    and "set (sg_queued (pg_sgroup pg')) = set (sg_queued (pg_sgroup pg)) - {r}"
proof -
  let ?q = "sg_queued (pg_sgroup pg)"
  have "count (mset (map rq_addr ?q)) a \<le> 1" for a
    using pg_shapeD(4) [OF sh, of a] by (simp add: live_alt)
  then have "count (mset (map rq_addr ?q)) a = (if a \<in> set (map rq_addr ?q) then 1 else 0)" for a
    by (metis One_nat_def count_mset_0_iff le_SucE le_zero_eq not_in_iff set_mset_mset)
  then have d: "distinct (map rq_addr ?q)" by (simp only: distinct_count_atmost_1) blast
  then have f: "List.find (\<lambda>x. rq_addr x = rq_addr r) ?q = Some r"
    using r by (simp add: find_Some_iff_distinct)
  from d f show l: "live pg = live pg' + {#rq_addr r#}"
    by (rule find_key_split) (simp add: live_alt pg'_def remove_by_notin)
  show "rq_addr r \<notin># live pg'"
    using pg_shapeD(4) [OF sh, of "rq_addr r"] by (simp add: l flip: count_eq_zero_iff)
  from d f show "set (sg_queued (pg_sgroup pg')) = set ?q - {r}"
  proof (rule find_key_split)
    fix ys zs assume "?q = ys @ r # zs" "rq_addr r \<notin> rq_addr ` set ys" "rq_addr r \<notin> rq_addr ` set zs"
    then show ?thesis by (auto simp: pg'_def remove_by_notin)
  qed
qed

lemma pg_inv_dequeue:
  assumes i: "pg_inv L pg" and r: "r \<in> set (sg_queued (pg_sgroup pg))"
  shows "pg_inv L (set_sgroup (\<lambda>sg. sg\<lparr>sg_queued := remove_by rq_addr (rq_addr r) (sg_queued sg)\<rparr>) pg)"
    (is "pg_inv L ?D")
proof -
  have sh: "pg_shape pg" using i by (simp add: pg_inv_def pg_inv0_def)
  note l = dequeue_live [OF sh r]
  have "pg_shape ?D"
  proof (rule pg_shape_shrink [OF sh])
    show "live ?D \<subseteq># live pg" unfolding l(1) by simp
    show "set (sg_queued (pg_sgroup ?D)) \<subseteq> set (sg_queued (pg_sgroup pg))" using l(3) by auto
  qed (use sh in \<open>simp_all add: pg_shape_def\<close>)
  then show ?thesis using i by (simp add: pg_inv_def pg_inv0_def counters_ok_def)
qed

text \<open>Executing a request of a queue pair that is gone is a use after free.\<close>

lemma request_exec_gone: "find_qpair (rq_qpair r) pg = None \<Longrightarrow> request_exec r out pg = Inl UseAfterFree"
  by (simp add: request_exec_def check_subsystem_active_def)

lemma release_queued_keeps:
  assumes "pg_inv L pg" and "release_queued outs rs pg = Inr pg'" and "distinct rs"
    and "\<And>r. r \<in> set rs \<Longrightarrow> r \<in> set (sg_queued (pg_sgroup pg)) \<or> find_qpair (rq_qpair r) pg = None"
    and "\<And>r. r \<in> set rs \<Longrightarrow> regular pg r"
  shows "pg_inv L pg'"
  using assms
proof (induction rs arbitrary: pg)
  case Nil
  then show ?case by simp
next
  case (Cons r rs)
  let ?D = "set_sgroup (\<lambda>sg. sg\<lparr>sg_queued := remove_by rq_addr (rq_addr r) (sg_queued sg)\<rparr>) pg"
  from Cons.prems(2) obtain pg1 where e: "request_exec r (outs (rq_addr r)) ?D = Inr pg1"
      and rest: "release_queued outs rs pg1 = Inr pg'"
    by (auto simp: bindR_eq_Inr)
  have "find_qpair (rq_qpair r) pg \<noteq> None"
  proof
    assume "find_qpair (rq_qpair r) pg = None"
    then have "find_qpair (rq_qpair r) ?D = None" by simp
    from request_exec_gone [OF this] e show False by simp
  qed
  then have rq: "r \<in> set (sg_queued (pg_sgroup pg))" using Cons.prems(4) [of r] by auto
  have sh: "pg_shape pg" using Cons.prems(1) by (simp add: pg_inv_def pg_inv0_def)
  have iD: "pg_inv L ?D" using pg_inv_dequeue [OF Cons.prems(1) rq] .
  then have shD: "pg_shape ?D" "pause_ok (pg_sgroup ?D)" by (simp_all add: pg_inv_def pg_inv0_def)
  note l = dequeue_live [OF sh rq]
  have wf: "queued_wf ?D r" using pg_shapeD(3) [OF sh rq] by (simp add: queued_wf_def)
  have reg: "regular ?D r" using Cons.prems(5) [of r] by (simp add: regular_def)
  have size: "size (live ?D) < max_live"
    using pg_shapeD(5) [OF sh] arg_cong [OF l(1), of size] by simp
  have i1: "pg_inv L pg1" by (rule pg_inv_exec [OF iD e l(2) size wf reg])
  have f: "pg_frame ?D pg1" by (rule pg_frame_exec [OF e shD l(2) wf reg])
  from i1 rest show ?case
  proof (rule Cons.IH)
    show "distinct rs" using Cons.prems(3) by simp
    fix x assume x: "x \<in> set rs"
    then have "x \<noteq> r" using Cons.prems(3) by auto
    then have "x \<in> set (sg_queued (pg_sgroup ?D)) \<or> find_qpair (rq_qpair x) ?D = None"
      using Cons.prems(4) [of x] x l(3) by auto
    then show "x \<in> set (sg_queued (pg_sgroup pg1)) \<or> find_qpair (rq_qpair x) pg1 = None"
    proof
      assume "x \<in> set (sg_queued (pg_sgroup ?D))"
      from pg_frame_queued [OF f this] show ?thesis .
    next
      assume "find_qpair (rq_qpair x) ?D = None"
      from pg_frame_gone [OF f this] show ?thesis ..
    qed
    have "regular ?D x" using Cons.prems(5) [of x] x by (simp add: regular_def)
    then show "regular pg1 x" using f by (rule regular_frame)
  qed
qed

section \<open>Updating the namespaces\<close>

lemma pg_update_reservation_keeps:
  fixes info info' :: pg_ns_info
  assumes "pg_update_reservation ns info = Inr (rc, info')"
  shows "pgn_channel info' = pgn_channel info \<and> pgn_uuid info' = pgn_uuid info \<and>
    pgn_num_blocks info' = pgn_num_blocks info \<and>
    pgn_io_outstanding info' = pgn_io_outstanding info \<and> pgn_state info' = pgn_state info"
  using assms by (auto simp: pg_update_reservation_def bindR_eq_Inr Let_def)

text \<open>What an entry becomes: the same counter and state, or an entry without I/O that is not
  paused. \<open>kept\<close>: the namespace with this I/O is still there.\<close>

definition entry_kept :: "spdk_nvmf_ns option \<Rightarrow> pg_ns_info \<Rightarrow> bool" where
  "entry_kept nso x \<longleftrightarrow> (pgn_io_outstanding x = 0 \<or>
     (pgn_channel x \<noteq> None \<and> (\<exists>ns. nso = Some ns \<and> ns_bdev ns = Some (pgn_uuid x))))"

definition entry_ok :: "pg_ns_info \<Rightarrow> pg_ns_info \<Rightarrow> bool" where
  "entry_ok x x' \<longleftrightarrow> pgn_io_outstanding x' = pgn_io_outstanding x \<and>
     (pgn_state x' = pgn_state x \<or> pgn_state x' = SUBSYSTEM_INACTIVE)"

lemma update_ns_info_ok:
  assumes "update_ns_info blocks ch nso x = Inr (rc, x', puts, changed)" and "entry_kept nso x"
  shows "entry_ok x x'"
proof (cases nso)
  case None
  then show ?thesis using assms
    by (auto simp: update_ns_info_def entry_kept_def entry_ok_def zero_ns_info_def split: option.splits)
next
  case (Some ns)
  then show ?thesis using assms
    by (auto simp: update_ns_info_def entry_kept_def entry_ok_def zero_ns_info_def Let_def bindR_eq_Inr
        dest!: pg_update_reservation_keeps split: option.splits if_splits)
qed

lemma entry_ok_refl [simp]: "entry_ok x x"
  by (simp add: entry_ok_def)

lemma update_ns_infos_ok:
  assumes "update_ns_infos blocks chans i nss xs = Inr (rc, xs', puts, changed)"
    and "length xs \<le> length nss" and "\<And>j. j < length xs \<Longrightarrow> entry_kept (nss ! j) (xs ! j)"
  shows "list_all2 entry_ok xs xs'"
  using assms
proof (induction xs arbitrary: i nss rc xs' puts changed)
  case Nil
  then show ?case by (cases nss) auto
next
  case (Cons x xs)
  from Cons.prems(2) obtain n ns where nss: "nss = n # ns" by (cases nss) auto
  from Cons.prems(1) obtain rc1 x1 p1 c1 where u: "update_ns_info blocks (chans i) n x = Inr (rc1, x1, p1, c1)"
    by (auto simp: bindR_eq_Inr nss)
  have x1: "entry_ok x x1" using update_ns_info_ok [OF u] Cons.prems(3) [of 0] by (simp add: nss)
  show ?case
  proof (cases "rc1 = 0")
    case False
    then show ?thesis using Cons.prems(1) u x1 by (auto simp: nss list_all2_same)
  next
    case True
    then obtain rc2 xs2 p2 c2 where r: "update_ns_infos blocks chans (Suc i) ns xs = Inr (rc2, xs2, p2, c2)"
        and xs': "xs' = x1 # xs2"
      using Cons.prems(1) u by (auto simp: bindR_eq_Inr nss)
    have "list_all2 entry_ok xs xs2"
      using r
    proof (rule Cons.IH)
      show "length xs \<le> length ns" using Cons.prems(2) by (simp add: nss)
      show "entry_kept (ns ! j) (xs ! j)" if "j < length xs" for j
        using Cons.prems(3) [of "Suc j"] that by (simp add: nss)
    qed
    then show ?thesis using x1 xs' by simp
  qed
qed

definition sg_updated ::
    "spdk_nvmf_subsystem_poll_group \<Rightarrow> spdk_nvmf_subsystem_poll_group \<Rightarrow> bool" where
  "sg_updated sg sg' \<longleftrightarrow> sg_mgmt_io_outstanding sg' = sg_mgmt_io_outstanding sg \<and> sg_cb sg' = sg_cb sg \<and>
     sg_state sg' = sg_state sg \<and> sg_queued sg' = sg_queued sg \<and>
     (\<forall>i. counter sg' (Io i) = counter sg (Io i)) \<and>
     (\<forall>i < length (sg_ns_info sg'). ns_state sg' i = SUBSYSTEM_PAUSING \<longrightarrow>
        i < length (sg_ns_info sg) \<and> ns_state sg i = SUBSYSTEM_PAUSING)"

lemma sg_updated_counter: "sg_updated sg sg' \<Longrightarrow> counter sg' c = counter sg c"
  by (cases c) (simp_all add: sg_updated_def)

lemma pause_ok_alt:
  "sg_state sg \<noteq> SUBSYSTEM_PAUSING \<Longrightarrow> pause_ok sg \<longleftrightarrow>
     (if sg_state sg = SUBSYSTEM_PAUSED then drained sg
      else \<forall>i < length (sg_ns_info sg). ns_state sg i \<noteq> SUBSYSTEM_PAUSING)"
  by (cases "sg_state sg") (auto simp: pause_ok_def list_all_length)

lemma sg_updated_pause_ok:
  assumes "sg_updated sg sg'" and "sg_state sg \<noteq> SUBSYSTEM_PAUSING" and "pause_ok sg"
  shows "pause_ok sg'"
proof -
  have "sg_state sg' = sg_state sg" using assms(1) by (simp add: sg_updated_def)
  moreover have "drained sg'" if "drained sg"
    using that assms(1) unfolding drained_alt sg_updated_counter [OF assms(1)]
    by (auto simp: sg_updated_def simp del: counter.simps)
  ultimately show ?thesis using assms by (auto simp: pause_ok_alt sg_updated_def)
qed

lemma sg_updated_infos:
  assumes l: "list_all2 entry_ok (take n (sg_ns_info sg) @ replicate (n - length (sg_ns_info sg)) zero_ns_info) xs"
    and b: "\<And>i. i < length (sg_ns_info sg) \<Longrightarrow> counter sg (Io i) > 0 \<Longrightarrow> i < n"
  shows "sg_updated sg (sg\<lparr>sg_ns_info := xs\<rparr>)"
proof -
  let ?ys = "take n (sg_ns_info sg) @ replicate (n - length (sg_ns_info sg)) zero_ns_info"
  have len: "length xs = n" using list_all2_lengthD [OF l] by auto
  have e: "entry_ok (?ys ! i) (xs ! i)" if "i < n" for i
    using l that len by (simp add: list_all2_conv_all_nth)
  have old: "?ys ! i = sg_ns_info sg ! i" if "i < n" "i < length (sg_ns_info sg)" for i
    using that by (simp add: nth_append)
  have new: "?ys ! i = zero_ns_info" if "i < n" "\<not> i < length (sg_ns_info sg)" for i
    using that by (simp add: nth_append)
  have c: "counter (sg\<lparr>sg_ns_info := xs\<rparr>) (Io i) = counter sg (Io i)" for i
  proof (cases "i < n")
    case True
    then show ?thesis using e [OF True] old [OF True] new [OF True]
      by (cases "i < length (sg_ns_info sg)") (simp_all add: len entry_ok_def zero_ns_info_def)
  next
    case False
    then show ?thesis using b [of i] by (auto simp: len)
  qed
  have "i < length (sg_ns_info sg) \<and> pgn_state (sg_ns_info sg ! i) = SUBSYSTEM_PAUSING"
    if "i < n" "pgn_state (xs ! i) = SUBSYSTEM_PAUSING" for i
    using e [OF that(1)] old [OF that(1)] new [OF that(1)] that(2)
    by (cases "i < length (sg_ns_info sg)") (auto simp: entry_ok_def zero_ns_info_def)
  then show ?thesis using c by (simp add: sg_updated_def len del: counter.simps)
qed

lemma update_subsystem_Inr:
  assumes u: "poll_group_update_subsystem mem blocks chans nss pg = Inr (rc, pg')" and b: "busy_kept nss pg"
  obtains "sg_updated (pg_sgroup pg) (pg_sgroup pg')" and "pg_qpairs pg' = pg_qpairs pg"
    and "pg_subsystem_id pg' = pg_subsystem_id pg" and "pg_num_sgroups pg' = pg_num_sgroups pg"
    and "pg_done pg' = pg_done pg"
proof -
  let ?sg = "pg_sgroup pg" and ?n = "length nss"
  let ?infos = "sg_ns_info ?sg"
  have refl: "sg_updated ?sg ?sg" by (simp add: sg_updated_def)
  have busy: "i < ?n" if "i < length ?infos" "counter ?sg (Io i) > 0" for i
    using b that unfolding busy_kept_def by blast
  show ?thesis
  proof (cases "pg_subsystem_id pg \<ge> pg_num_sgroups pg")
    case True
    then show ?thesis using u refl that by (simp add: poll_group_update_subsystem_def)
  next
    case id: False
    define extra where "extra = (if length ?infos = 0 then [] else drop ?n ?infos)"
    define pg1 where "pg1 = pg\<lparr>pg_put_channels := pg_put_channels pg @ List.map_filter pgn_channel extra\<rparr>"
    define nomem where "nomem \<longleftrightarrow> \<not> mem \<and> (if length ?infos = 0 then ?n > 0
        else ?n > length ?infos \<or> (?n < length ?infos \<and> ?n > 0))"
    note u' = u [unfolded poll_group_update_subsystem_def Let_def, folded extra_def, folded pg1_def nomem_def]
    have p1: "pg_sgroup pg1 = ?sg" "pg_qpairs pg1 = pg_qpairs pg" "pg_done pg1 = pg_done pg"
        "pg_subsystem_id pg1 = pg_subsystem_id pg" "pg_num_sgroups pg1 = pg_num_sgroups pg"
      by (simp_all add: pg1_def)
    show ?thesis
    proof (cases nomem)
      case True
      define xs where "xs = take ?n ?infos @ map (pgn_channel_update (\<lambda>_. None)) extra"
      have pg': "pg' = set_sgroup (\<lambda>sg. sg\<lparr>sg_ns_info := xs\<rparr>) pg1" using u' True id by (simp add: xs_def)
      have whole: "take ?n ?infos @ extra = ?infos" by (simp add: extra_def)
      have "map pgn_io_outstanding xs = map pgn_io_outstanding (take ?n ?infos @ extra)"
          "map pgn_state xs = map pgn_state (take ?n ?infos @ extra)"
        by (simp_all add: xs_def comp_def)
      note io = this(1) [unfolded whole] and st = this(2) [unfolded whole]
      have l: "length xs = length ?infos" by (rule map_eq_imp_length_eq [OF io])
      have "pgn_io_outstanding (xs ! i) = pgn_io_outstanding (?infos ! i)"
          "pgn_state (xs ! i) = pgn_state (?infos ! i)" if "i < length ?infos" for i
        using arg_cong [OF io, of "\<lambda>l. l ! i"] arg_cong [OF st, of "\<lambda>l. l ! i"] that by (simp_all add: l)
      then have "sg_updated ?sg (?sg\<lparr>sg_ns_info := xs\<rparr>)"
        by (simp add: sg_updated_def l)
      then show ?thesis using that by (simp add: pg' p1)
    next
      case mem: False
      let ?ys = "take ?n ?infos @ replicate (?n - length ?infos) zero_ns_info"
      from u' id mem obtain xs puts changed where
        r: "update_ns_infos blocks chans 0 nss ?ys = Inr (rc, xs, puts, changed)"
        and pg': "pg_sgroup pg' = ?sg\<lparr>sg_ns_info := xs\<rparr>" "pg_qpairs pg' = pg_qpairs pg"
          "pg_done pg' = pg_done pg" "pg_subsystem_id pg' = pg_subsystem_id pg"
          "pg_num_sgroups pg' = pg_num_sgroups pg"
        by (auto simp: bindR_eq_Inr p1 set_sgroup_def split: if_splits)
      have kept: "entry_kept (nss ! j) (?ys ! j)" if "j < length ?ys" for j
      proof (cases "j < length ?infos")
        case True
        then have "?ys ! j = ?infos ! j" using that by (simp add: nth_append)
        then show ?thesis using b True
          by (auto simp: busy_kept_def entry_kept_def unat_gt_0)
      next
        case False
        then have "?ys ! j = zero_ns_info" using that by (simp add: nth_append)
        then show ?thesis by (simp add: entry_kept_def zero_ns_info_def)
      qed
      have "list_all2 entry_ok ?ys xs" using r kept by (intro update_ns_infos_ok) auto
      from sg_updated_infos [OF this busy] have "sg_updated ?sg (?sg\<lparr>sg_ns_info := xs\<rparr>)" by simp
      then show ?thesis using that by (simp add: pg')
    qed
  qed
qed

section \<open>The other steps\<close>

text \<open>A change of the poll group of the subsystem that keeps queue and counters.\<close>

lemma counter_cong:
  assumes "sg_mgmt_io_outstanding sg' = sg_mgmt_io_outstanding sg"
    and "map pgn_io_outstanding (sg_ns_info sg') = map pgn_io_outstanding (sg_ns_info sg)"
  shows "counter sg' c = counter sg c"
proof (cases c)
  case (Io i)
  have "length (sg_ns_info sg') = length (sg_ns_info sg)"
    by (rule map_eq_imp_length_eq [OF assms(2)])
  then show ?thesis using arg_cong [OF assms(2), of "\<lambda>l. l ! i"] Io
    by (cases "i < length (sg_ns_info sg)") simp_all
qed (simp_all add: assms(1))

lemma pg_inv_sgroup:
  assumes i: "pg_inv L pg" and "sg_queued sg' = sg_queued (pg_sgroup pg)"
    and "\<And>c. counter sg' c = counter (pg_sgroup pg) c" and "pause_ok sg'"
    and "pg_qpairs pg' = pg_qpairs pg" and "pg_sgroup pg' = sg'"
    and "pg_subsystem_id pg' = pg_subsystem_id pg" and "pg_num_sgroups pg' = pg_num_sgroups pg"
  shows "pg_inv L pg'"
proof -
  let ?P = "set_sgroup (\<lambda>_. sg') pg"
  have "pg_inv0 L ?P"
    using i assms(2-4) by (simp add: pg_inv_def pg_inv0_def shape_sgroup counters_ok_def)
  moreover have "same_core ?P pg'" using assms by (simp add: same_core_def)
  ultimately show ?thesis using i assms(5) same_core_inv by (simp add: pg_inv_def)
qed

lemma pg_inv_call_back [simp]: "pg_inv L (call_back cb rc pg) = pg_inv L pg"
  using same_core_inv [of pg "call_back cb rc pg" L] by (simp add: pg_inv_def same_core_def)

lemma pg_inv_update:
  assumes i: "pg_inv L pg" and b: "busy_kept nss pg" and st: "sg_state (pg_sgroup pg) \<noteq> SUBSYSTEM_PAUSING"
    and u: "poll_group_update_subsystem mem blocks chans nss pg = Inr (rc, pg')"
  shows "pg_inv L pg'"
  using u b
proof (rule update_subsystem_Inr)
  assume s: "sg_updated (pg_sgroup pg) (pg_sgroup pg')" "pg_qpairs pg' = pg_qpairs pg"
    "pg_subsystem_id pg' = pg_subsystem_id pg" "pg_num_sgroups pg' = pg_num_sgroups pg"
  show ?thesis
  proof (rule pg_inv_sgroup [OF i])
    show "sg_queued (pg_sgroup pg') = sg_queued (pg_sgroup pg)" using s(1) by (simp add: sg_updated_def)
    show "pause_ok (pg_sgroup pg')"
      using sg_updated_pause_ok [OF s(1) st] i by (simp add: pg_inv_def pg_inv0_def)
  qed (simp_all add: s sg_updated_counter [OF s(1)])
qed

lemma all_ns_state_parts [simp]:
  "sg_queued (all_ns_state st sg) = sg_queued sg" "sg_cb (all_ns_state st sg) = sg_cb sg"
  "sg_state (all_ns_state st sg) = sg_state sg"
  "sg_mgmt_io_outstanding (all_ns_state st sg) = sg_mgmt_io_outstanding sg"
  "length (sg_ns_info (all_ns_state st sg)) = length (sg_ns_info sg)"
  "i < length (sg_ns_info sg) \<Longrightarrow> pgn_state (sg_ns_info (all_ns_state st sg) ! i) = st"
  by (simp_all add: all_ns_state_def)

lemma all_ns_state_io [simp]:
  "map pgn_io_outstanding (sg_ns_info (all_ns_state st sg)) = map pgn_io_outstanding (sg_ns_info sg)"
  by (simp add: all_ns_state_def)

lemma pg_inv_active:
  assumes "pg_inv L pg"
  shows "pg_inv L (set_sgroup (\<lambda>sg. (all_ns_state SUBSYSTEM_ACTIVE sg)\<lparr>sg_state := SUBSYSTEM_ACTIVE\<rparr>) pg)"
proof (rule pg_inv_sgroup [OF assms])
  let ?sg = "(all_ns_state SUBSYSTEM_ACTIVE (pg_sgroup pg))\<lparr>sg_state := SUBSYSTEM_ACTIVE\<rparr>"
  show "counter ?sg c = counter (pg_sgroup pg) c" for c
    by (rule counter_cong) simp_all
  show "pause_ok ?sg" by (simp add: pause_ok_alt)
qed simp_all

lemma queue_distinct:
  assumes "pg_shape pg" shows "distinct (sg_queued (pg_sgroup pg))"
proof -
  let ?q = "sg_queued (pg_sgroup pg)"
  have "count (mset (map rq_addr ?q)) a \<le> 1" for a
    using pg_shapeD(4) [OF assms, of a] by (simp add: live_alt)
  then have "count (mset (map rq_addr ?q)) a = (if a \<in> set (map rq_addr ?q) then 1 else 0)" for a
    by (metis One_nat_def count_mset_0_iff le_SucE le_zero_eq not_in_iff set_mset_mset)
  then have "distinct (map rq_addr ?q)" by (simp only: distinct_count_atmost_1) blast
  then show ?thesis by (simp add: distinct_map)
qed

lemma pg_inv_resume:
  assumes i: "pg_inv L pg" and ok: "pg_ok pg (Resume mem blocks chans nss outs cb)"
    and r: "poll_group_resume_subsystem mem blocks chans nss outs cb pg = Inr pg'"
  shows "pg_inv L pg'"
proof (cases "pg_subsystem_id pg \<ge> pg_num_sgroups pg \<or> sg_state (pg_sgroup pg) = SUBSYSTEM_ACTIVE")
  case True
  then show ?thesis using r i by (auto simp: poll_group_resume_subsystem_def split: if_splits)
next
  case out: False
  with r obtain rc pg1 where u: "poll_group_update_subsystem mem blocks chans nss pg = Inr (rc, pg1)"
    by (auto simp: poll_group_resume_subsystem_def bindR_eq_Inr)
  have i1: "pg_inv L pg1" using pg_inv_update [OF i _ _ u] ok by simp
  show ?thesis
  proof (cases "rc = 0")
    case False
    then show ?thesis using r u i1 out by (auto simp: poll_group_resume_subsystem_def)
  next
    case rc: True
    let ?pg2 = "set_sgroup (\<lambda>sg. (all_ns_state SUBSYSTEM_ACTIVE sg)\<lparr>sg_state := SUBSYSTEM_ACTIVE\<rparr>) pg1"
    have i2: "pg_inv L ?pg2" by (rule pg_inv_active [OF i1])
    from r u rc out obtain pg3 where rel: "release_queued outs (sg_queued (pg_sgroup ?pg2)) ?pg2 = Inr pg3"
        and pg': "pg' = call_back cb 0 pg3"
      by (auto simp: poll_group_resume_subsystem_def bindR_eq_Inr)
    have "pg_inv L pg3"
      using i2 rel
    proof (rule release_queued_keeps)
      show "distinct (sg_queued (pg_sgroup ?pg2))"
        using i2 by (intro queue_distinct) (simp add: pg_inv_def pg_inv0_def)
      have "busy_kept nss pg" using ok by simp
      with u have "sg_queued (pg_sgroup ?pg2) = sg_queued (pg_sgroup pg) \<and> pg_qpairs ?pg2 = pg_qpairs pg"
        by (rule update_subsystem_Inr) (simp add: sg_updated_def)
      then show "regular ?pg2 x" if "x \<in> set (sg_queued (pg_sgroup ?pg2))" for x
        using ok that by (simp add: list_all_iff regular_def)
    qed simp
    then show ?thesis by (simp add: pg')
  qed
qed

text \<open>Pausing: the namespaces that are asked for, and the decision at once.\<close>

definition asked_to_pause :: "u32 \<Rightarrow> nat \<Rightarrow> bool" where
  "asked_to_pause nsid i \<longleftrightarrow> nsid = GLOBAL_NS_TAG \<or> i = unat (nsid - 1)"

lemma mark_pausing_parts [simp]:
  "sg_queued (mark_pausing nsid sg) = sg_queued sg" "sg_cb (mark_pausing nsid sg) = sg_cb sg"
  "sg_state (mark_pausing nsid sg) = sg_state sg"
  "sg_mgmt_io_outstanding (mark_pausing nsid sg) = sg_mgmt_io_outstanding sg"
  "length (sg_ns_info (mark_pausing nsid sg)) = length (sg_ns_info sg)"
  by (simp_all add: mark_pausing_def Let_def)

lemma mark_pausing_io:
  "map pgn_io_outstanding (sg_ns_info (mark_pausing nsid sg)) = map pgn_io_outstanding (sg_ns_info sg)"
  by (simp add: mark_pausing_def Let_def map_update list_update_same_conv)

lemma mark_pausing_state:
  "i < length (sg_ns_info sg) \<Longrightarrow> pgn_state (sg_ns_info (mark_pausing nsid sg) ! i) =
     (if asked_to_pause nsid i then SUBSYSTEM_PAUSING else pgn_state (sg_ns_info sg ! i))"
  by (auto simp: mark_pausing_def Let_def asked_to_pause_def all_ns_state_def nth_list_update)

lemma mark_pausing_counter [simp]: "counter (mark_pausing nsid sg) c = counter sg c"
  by (rule counter_cong) (simp_all add: mark_pausing_io)

lemma pause_subsystem_alt:
  assumes "pg_subsystem_id pg < pg_num_sgroups pg" and "pause_ok (pg_sgroup pg)"
    and "sg_state (pg_sgroup pg) \<noteq> SUBSYSTEM_PAUSING" and "sg_state (pg_sgroup pg) \<noteq> SUBSYSTEM_PAUSED"
  shows "poll_group_pause_subsystem nsid cb pg =
    (let sg = (mark_pausing nsid (pg_sgroup pg))\<lparr>sg_state := SUBSYSTEM_PAUSING\<rparr>
     in if drained sg then call_back cb 0 (pg\<lparr>pg_sgroup := sg\<lparr>sg_state := SUBSYSTEM_PAUSED\<rparr>\<rparr>)
        else pg\<lparr>pg_sgroup := sg\<lparr>sg_cb := cb\<rparr>\<rparr>)"
proof -
  let ?sg = "pg_sgroup pg"
  let ?M = "(mark_pausing nsid ?sg)\<lparr>sg_state := SUBSYSTEM_PAUSING\<rparr>"
  have np: "pgn_state (sg_ns_info ?sg ! i) \<noteq> SUBSYSTEM_PAUSING" if "i < length (sg_ns_info ?sg)" for i
    using assms(2-4) that by (simp add: pause_ok_alt)
  have st: "pgn_state (sg_ns_info (mark_pausing nsid ?sg) ! i) = SUBSYSTEM_PAUSING \<longleftrightarrow> asked_to_pause nsid i"
    if "i < length (sg_ns_info ?sg)" for i
    using np [OF that] by (simp add: mark_pausing_state that)
  have cM: "counter ?M c = counter ?sg c" for c
    by (rule counter_cong) (simp_all add: mark_pausing_io)
  have d: "drained ?M \<longleftrightarrow> counter ?sg Mgmt = 0 \<and>
      (\<forall>i < length (sg_ns_info ?sg). asked_to_pause nsid i \<longrightarrow> counter ?sg (Io i) = 0)"
    unfolding drained_alt cM using st by (auto simp del: counter.simps)
  have m: "mark_pausing nsid (?sg\<lparr>sg_state := SUBSYSTEM_PAUSING\<rparr>) = ?M"
    by (simp add: mark_pausing_def Let_def all_ns_state_def)
  have io: "pgn_io_outstanding (sg_ns_info (mark_pausing nsid ?sg) ! i) =
      pgn_io_outstanding (sg_ns_info ?sg ! i)" if "i < length (sg_ns_info ?sg)" for i
    using arg_cong [OF mark_pausing_io, of "\<lambda>l. l ! i" nsid ?sg] that by simp
  have w: "sg_mgmt_io_outstanding ?M > 0 \<or>
      (if nsid = GLOBAL_NS_TAG then \<exists>x \<in> set (sg_ns_info ?M). pgn_io_outstanding x > 0
       else unat (nsid - 1) < length (sg_ns_info ?M) \<and>
         pgn_io_outstanding (sg_ns_info ?M ! unat (nsid - 1)) > 0) \<longleftrightarrow> \<not> drained ?M"
  proof (cases "nsid = GLOBAL_NS_TAG")
    case True
    show ?thesis
      unfolding d Bex_set_nth using io [unfolded True] True
      by (auto simp: asked_to_pause_def word_gt_0 unat_eq_zero)
  next
    case False
    then show ?thesis
      unfolding d using io by (auto simp: asked_to_pause_def word_gt_0 unat_eq_zero)
  qed
  show ?thesis
    unfolding poll_group_pause_subsystem_def Let_def m w using assms(1,4) by simp
qed

lemma pg_inv_pause:
  assumes i: "pg_inv L pg" and ok: "pg_ok pg (Pause nsid cb)"
  shows "pg_inv L (poll_group_pause_subsystem nsid cb pg)"
proof (cases "sg_state (pg_sgroup pg) = SUBSYSTEM_PAUSED")
  case True
  have "pg_subsystem_id pg < pg_num_sgroups pg" using i by (simp add: pg_inv_def pg_inv0_def pg_shape_def)
  then show ?thesis using True i by (simp add: poll_group_pause_subsystem_def)
next
  case np: False
  let ?M = "(mark_pausing nsid (pg_sgroup pg))\<lparr>sg_state := SUBSYSTEM_PAUSING\<rparr>"
  have id: "pg_subsystem_id pg < pg_num_sgroups pg" and pa: "pause_ok (pg_sgroup pg)"
    using i by (simp_all add: pg_inv_def pg_inv0_def pg_shape_def)
  have cnt: "counter (?M\<lparr>sg_state := st, sg_cb := cb'\<rparr>) c = counter (pg_sgroup pg) c" for st cb' c
    by (rule counter_cong) (simp_all add: mark_pausing_io)
  have dr: "drained (?M\<lparr>sg_state := st, sg_cb := cb'\<rparr>) = drained ?M" for st cb'
    by (simp add: drained_def)
  have cnt1: "counter (?M\<lparr>sg_state := st\<rparr>) c = counter (pg_sgroup pg) c" for st c
    by (rule counter_cong) (simp_all add: mark_pausing_io)
  have dr1: "drained (?M\<lparr>sg_state := st\<rparr>) = drained ?M" for st
    by (simp add: drained_def)
  note alt = pause_subsystem_alt [OF id pa _ np, of nsid cb]
  show ?thesis
  proof (cases "drained ?M")
    case True
    have "poll_group_pause_subsystem nsid cb pg = call_back cb 0
        (pg\<lparr>pg_sgroup := ?M\<lparr>sg_state := SUBSYSTEM_PAUSED\<rparr>\<rparr>)"
      using alt ok True by (simp add: Let_def)
    moreover have "pg_inv L (pg\<lparr>pg_sgroup := ?M\<lparr>sg_state := SUBSYSTEM_PAUSED\<rparr>\<rparr>)"
      by (rule pg_inv_sgroup [OF i _ cnt1]) (use True dr1 in \<open>simp_all add: pause_ok_def\<close>)
    ultimately show ?thesis by simp
  next
    case False
    have "poll_group_pause_subsystem nsid cb pg =
        pg\<lparr>pg_sgroup := ?M\<lparr>sg_state := SUBSYSTEM_PAUSING, sg_cb := cb\<rparr>\<rparr>"
      using alt ok False by (simp add: Let_def)
    moreover have "pg_inv L (pg\<lparr>pg_sgroup := ?M\<lparr>sg_state := SUBSYSTEM_PAUSING, sg_cb := cb\<rparr>\<rparr>)"
      by (rule pg_inv_sgroup [OF i _ cnt]) (use False dr ok in \<open>simp_all add: pause_ok_def\<close>)
    ultimately show ?thesis by simp
  qed
qed

text \<open>Changes of one queue pair that keep the classes of its requests.\<close>

lemma pg_inv_set_qpair:
  assumes i: "pg_inv L pg"
    and f: "\<And>q. find_qpair qa pg = Some q \<Longrightarrow> qp_addr (f q) = qp_addr q \<and> q_live (f q) \<subseteq># q_live q \<and>
        qpair_wf (f q) \<and> connect_wf (f q) \<and> (\<forall>c. c \<noteq> Uncounted \<longrightarrow> cls_count c (f q) = cls_count c q) \<and>
        (\<forall>r. rq_zcopy r \<in> {ZCOPY_PHASE_NONE, ZCOPY_PHASE_INIT} \<longrightarrow> req_wf q r \<longrightarrow> req_wf (f q) r)"
    and same: "pg_qpairs pg' = pg_qpairs (set_qpair qa f pg)" "pg_sgroup pg' = pg_sgroup pg"
      "pg_subsystem_id pg' = pg_subsystem_id pg" "pg_num_sgroups pg' = pg_num_sgroups pg"
  shows "pg_inv L pg'"
proof (cases "find_qpair qa pg")
  case None
  then have "qa \<notin> qp_addr ` set (pg_qpairs pg)" by (auto simp: find_None_iff')
  then have "same_core pg pg'" using same by (simp add: same_core_def update_by_notin)
  then show ?thesis using i same_core_inv [of pg pg' L] by (simp add: pg_inv_def same_core_def)
next
  case (Some q)
  note fq = f [OF Some]
  have sh: "pg_shape pg" using i by (simp add: pg_inv_def pg_inv0_def)
  note d = pg_shapeD(1) [OF sh]
  from d Some obtain xs ys where s: "pg_qpairs pg = xs @ q # ys" "qp_addr q = qa"
      "qa \<notin> qp_addr ` set xs" "qa \<notin> qp_addr ` set ys"
    by (rule pg_split)
  then have s': "pg_qpairs pg' = xs @ f q # ys" by (simp add: same(1) update_by_notin)
  have n: "n_out c pg' = n_out c pg" if "c \<noteq> Uncounted" for c
    using fq that by (simp add: n_out_alt s s')
  have live: "live pg' \<subseteq># live pg" using fq by (simp add: live_alt s s' same(2))
  have fnd: "find_qpair a pg' = (if a = qa then Some (f q) else find_qpair a pg)" for a
    using find_key_middle [OF s(3,2), of a ys] find_key_middle [OF s(3), of "f q" a ys] fq
    by (simp add: s(1,2) s')
  have "pg_shape pg'"
  proof -
    have "queued_wf pg' r" if "r \<in> set (sg_queued (pg_sgroup pg))" for r
      using pg_shapeD(3) [OF sh that] fq Some by (auto simp: queued_wf_def fnd)
    moreover have "count (live pg') a \<le> 1" for a
      using mset_subset_eq_count [OF live, of a] pg_shapeD(4) [OF sh, of a] by simp
    moreover have "size (live pg') \<le> max_live"
      using size_mset_mono [OF live] pg_shapeD(5) [OF sh] by simp
    ultimately show ?thesis using d sh fq
      by (simp add: pg_shape_def s s' same list_all_iff)
  qed
  moreover have "counters_ok L pg'" using i n by (simp add: pg_inv_def pg_inv0_def counters_ok_def same(2))
  ultimately show ?thesis using i fq
    by (simp add: pg_inv_def pg_inv0_def same(2) s s')
qed

lemma pg_inv_destroy:
  assumes "pg_inv L pg" and "qpair_destroy qa pg = Inr pg'"
    and "\<And>q. find_qpair qa pg = Some q \<Longrightarrow> qp_outstanding q = []"
  shows "pg_inv L pg'"
proof -
  have "pg_inv0 L pg'" using assms qpair_destroy_keeps unfolding pg_inv_def by blast
  moreover from assms(2) have "all_connect_wf pg'"
    by (rule qpair_destroy_Inr) (use assms(1) in \<open>auto simp: pg_inv_def list_all_iff\<close>)
  ultimately show ?thesis by (simp add: pg_inv_def)
qed

lemma pg_inv_cleanup: "pg_inv L pg \<Longrightarrow> qpair_request_cleanup qa pg = Inr pg' \<Longrightarrow> pg_inv L pg'"
  using cleanup_keeps connect_wf_cleanup unfolding pg_inv_def by blast

text \<open>The flags of a queue pair play no part.\<close>

lemma pg_inv_flags:
  assumes "pg_inv L pg" and "\<And>q. req_class (f q) = req_class q \<and> req_wf (f q) = req_wf q \<and>
      qp_addr (f q) = qp_addr q \<and> qp_outstanding (f q) = qp_outstanding q \<and> qp_ctrlr (f q) = qp_ctrlr q"
  shows "pg_inv L (set_qpair qa f pg)"
proof (rule pg_inv_set_qpair [OF assms(1) _ refl])
  fix q assume q: "find_qpair qa pg = Some q"
  have "qpair_wf q" "connect_wf q" using assms(1) find_SomeD [OF q]
    by (auto simp: pg_inv_def pg_inv0_def pg_shape_def list_all_iff)
  then show "qp_addr (f q) = qp_addr q \<and> q_live (f q) \<subseteq># q_live q \<and> qpair_wf (f q) \<and> connect_wf (f q) \<and>
      (\<forall>c. c \<noteq> Uncounted \<longrightarrow> cls_count c (f q) = cls_count c q) \<and>
      (\<forall>r. rq_zcopy r \<in> {ZCOPY_PHASE_NONE, ZCOPY_PHASE_INIT} \<longrightarrow> req_wf q r \<longrightarrow> req_wf (f q) r)"
    using assms(2) [of q] by (simp add: q_live_def qpair_wf_def connect_wf_def cls_count_def)
qed simp_all

lemma req_parts_flags [simp]:
  "req_class (q\<lparr>qp_state := st\<rparr>) = req_class q" "req_class (q\<lparr>qp_state_cb := b\<rparr>) = req_class q"
  "req_class (q\<lparr>qp_disconnect_started := b\<rparr>) = req_class q"
  "req_wf (q\<lparr>qp_state := st\<rparr>) = req_wf q" "req_wf (q\<lparr>qp_state_cb := b\<rparr>) = req_wf q"
  "req_wf (q\<lparr>qp_disconnect_started := b\<rparr>) = req_wf q"
  by (simp_all add: fun_eq_iff req_class_def req_wf_def request_sgroup_def qpair_is_admin_queue_def)

lemma pg_inv_free_aer:
  assumes i: "pg_inv L pg" and f: "qpair_free_aer qa pg = Inr pg'"
  shows "pg_inv L pg'"
proof -
  from f obtain q where q: "find_qpair qa pg = Some q"
    by (auto simp: qpair_free_aer_def split: option.splits)
  show ?thesis
  proof (cases "qpair_is_admin_queue q")
    case False
    then show ?thesis using i f q by (simp add: qpair_free_aer_def)
  next
    case adm: True
    then have c: "qp_ctrlr q" using f q by (auto simp: qpair_free_aer_def split: if_splits)
    let ?f = "qp_outstanding_update (filter (\<lambda>r. rq_opc r \<noteq> OPC_ASYNC_EVENT_REQUEST))"
    let ?pg1 = "set_qpair qa ?f (pg\<lparr>pg_freed := pg_freed pg @
       map rq_addr (filter (\<lambda>r. rq_opc r = OPC_ASYNC_EVENT_REQUEST) (qp_outstanding q))\<rparr>)"
    have "pg_inv L ?pg1"
    proof (rule pg_inv_set_qpair [OF i])
      fix q' assume "find_qpair qa pg = Some q'"
      then have q': "q' = q" by (simp add: q)
      have w: "qpair_wf q" "connect_wf q" using i find_SomeD [OF q]
        by (auto simp: pg_inv_def pg_inv0_def pg_shape_def list_all_iff)
      have "cls_count k (?f q) = cls_count k q" if "k \<noteq> Uncounted" for k
      proof -
        have "req_class q r = k \<Longrightarrow> rq_opc r \<noteq> OPC_ASYNC_EVENT_REQUEST" for r
          using that c by (auto simp: req_class_def)
        then have "filter (\<lambda>r. req_class q r = k \<and> rq_opc r \<noteq> OPC_ASYNC_EVENT_REQUEST) rs =
            filter (\<lambda>r. req_class q r = k) rs" for rs
          by (intro filter_cong) auto
        then show ?thesis by (simp add: cls_count_def conj_commute)
      qed
      moreover have "q_live (?f q) \<subseteq># q_live q"
        by (simp add: q_live_def image_mset_subseteq_mono)
      ultimately show "qp_addr (?f q') = qp_addr q' \<and> q_live (?f q') \<subseteq># q_live q' \<and>
          qpair_wf (?f q') \<and> connect_wf (?f q') \<and>
          (\<forall>c. c \<noteq> Uncounted \<longrightarrow> cls_count c (?f q') = cls_count c q') \<and>
          (\<forall>r. rq_zcopy r \<in> {ZCOPY_PHASE_NONE, ZCOPY_PHASE_INIT} \<longrightarrow> req_wf q' r \<longrightarrow> req_wf (?f q') r)"
        using w by (simp add: q' connect_wf_shrink qpair_wf_def list_all_iff)
    qed simp_all
    then show ?thesis using f adm c q
      by (auto simp: qpair_free_aer_def Let_def intro: pg_inv_cleanup split: if_splits)
  qed
qed

lemma pg_inv_disconnect:
  assumes i: "pg_inv L pg" and d: "qpair_disconnect qa mem pg = Inr (rc, called, pg')"
  shows "pg_inv L pg'"
proof -
  from d obtain q where q: "find_qpair qa pg = Some q"
    by (auto simp: qpair_disconnect_def split: option.splits)
  let ?pg1 = "set_qpair qa (qp_disconnect_started_update (\<lambda>_. True)) pg"
  let ?pg2 = "set_qpair qa (qp_state_update (\<lambda>_. QPAIR_DEACTIVATING)) ?pg1"
  let ?pg3 = "set_qpair qa (qp_state_cb_update (\<lambda>_. True)) ?pg2"
  have i1: "pg_inv L ?pg1" by (rule pg_inv_flags [OF i]) simp
  have i2: "pg_inv L ?pg2" by (rule pg_inv_flags [OF i1]) simp
  have i3: "pg_inv L ?pg3" by (rule pg_inv_flags [OF i2]) simp
  have "\<And>x. find_qpair qa ?pg2 = Some x \<Longrightarrow> qp_outstanding x = qp_outstanding q"
    using q by (auto simp: find_key_update_by)
  then show ?thesis using d q i i1 i2 pg_inv_free_aer [OF i3] pg_inv_destroy [OF i2]
    by (auto simp: qpair_disconnect_def Let_def bindR_eq_Inr split: if_splits)
qed

lemma pg_inv_new_qpair:
  assumes i: "pg_inv L pg" and ok: "pg_ok pg (NewQpair qa fabrics)"
  shows "pg_inv L (snd (poll_group_add qa fabrics 0 pg))"
proof -
  let ?q = "\<lparr>qp_addr = qa, qp_qid = 0, qp_state = QPAIR_ACTIVE, qp_ctrlr = False,
                qp_acre_enabled = False, qp_fabrics = fabrics, qp_outstanding = [],
                qp_state_cb = False, qp_connect_received = False, qp_disconnect_started = False\<rparr>"
  let ?pg = "pg\<lparr>pg_qpairs := pg_qpairs pg @ [?q]\<rparr>"
  have qa: "qa \<notin> qp_addr ` set (pg_qpairs pg)" "qa \<notin> rq_qpair ` set (sg_queued (pg_sgroup pg))"
    using ok by simp_all
  have l: "live ?pg = live pg" by (simp add: live_alt q_live_def)
  have n: "n_out c ?pg = n_out c pg" for c by (simp add: n_out_alt cls_count_def)
  have w: "queued_wf ?pg r" if "queued_wf pg r" "r \<in> set (sg_queued (pg_sgroup pg))" for r
  proof -
    have "rq_qpair r \<noteq> qa" using qa(2) that(2) by auto
    then have "find_qpair (rq_qpair r) ?pg = find_qpair (rq_qpair r) pg"
      using find_key_middle [of qa qp_addr "pg_qpairs pg" ?q "rq_qpair r" "[]"] qa(1) by simp
    with that(1) show ?thesis by (simp add: queued_wf_def)
  qed
  have "pg_shape ?pg" using i qa w
    by (auto simp: pg_inv_def pg_inv0_def pg_shape_def l qpair_wf_def list_all_iff)
  then show ?thesis using i
    by (simp add: poll_group_add_def pg_inv_def pg_inv0_def counters_ok_def n connect_wf_def)
qed

lemma pg_inv_connected:
  assumes i: "pg_inv L pg" and ok: "pg_ok pg (Connected qa qid acre)"
  shows "pg_inv L (set_qpair qa (\<lambda>q. q\<lparr>qp_ctrlr := True, qp_qid := qid, qp_acre_enabled := acre\<rparr>) pg)"
proof (rule pg_inv_set_qpair [OF i _ refl])
  fix q assume q: "find_qpair qa pg = Some q"
  let ?f = "\<lambda>q. q\<lparr>qp_ctrlr := True, qp_qid := qid, qp_acre_enabled := acre\<rparr>"
  have w: "qpair_wf q" "connect_wf q" using i find_SomeD [OF q]
    by (auto simp: pg_inv_def pg_inv0_def pg_shape_def list_all_iff)
  have us: "\<not> qp_ctrlr q" "list_all rq_names_us (qp_outstanding q)" using ok q by simp_all
  have "req_wf (?f q) r" if "req_wf q r" for r
    using that us by (auto simp: req_wf_def)
  moreover have "req_class (?f q) r = Mgmt \<and> req_class q r = Mgmt" if "r \<in> set (qp_outstanding q)" for r
    using that us w(2) by (auto simp: req_class_def request_sgroup_def connect_wf_def list_all_iff
        request_is_fabric_connect_def)
  then have "cls_count c (?f q) = cls_count c q" for c
    unfolding cls_count_def by (intro arg_cong [of _ _ length] filter_cong) auto
  ultimately show "qp_addr (?f q) = qp_addr q \<and> q_live (?f q) \<subseteq># q_live q \<and> qpair_wf (?f q) \<and> connect_wf (?f q) \<and>
      (\<forall>c. c \<noteq> Uncounted \<longrightarrow> cls_count c (?f q) = cls_count c q) \<and>
      (\<forall>r. rq_zcopy r \<in> {ZCOPY_PHASE_NONE, ZCOPY_PHASE_INIT} \<longrightarrow> req_wf q r \<longrightarrow> req_wf (?f q) r)"
    using w by (simp add: qpair_wf_def connect_wf_def q_live_def list_all_iff)
qed simp_all

lemma pg_inv_zcopy_end:
  assumes i: "pg_inv L pg" and ok: "pg_ok pg (ZcopyEnd qa ra)"
  shows "pg_inv L (request_zcopy_end qa ra pg)"
  unfolding request_zcopy_end_def
proof (rule pg_inv_set_qpair [OF i _ refl])
  fix q assume q: "find_qpair qa pg = Some q"
  let ?g = "update_by rq_addr ra (rq_zcopy_update (\<lambda>_. ZCOPY_PHASE_END_PENDING))"
  let ?f = "qp_outstanding_update ?g"
  have w: "qpair_wf q" "connect_wf q" using i find_SomeD [OF q]
    by (auto simp: pg_inv_def pg_inv0_def pg_shape_def list_all_iff)
  have "list_all (\<lambda>r. rq_addr r = ra \<longrightarrow> rq_zcopy r = ZCOPY_PHASE_EXECUTE) (qp_outstanding q)"
    using ok q by simp
  then have "qpair_wf (?f q)" using w(1)
    by (auto simp: qpair_wf_def list_all_iff set_update_by req_wf_def split: if_splits)
  moreover have "length (filter (\<lambda>r. req_class q r = c) (?g rs)) = length (filter (\<lambda>r. req_class q r = c) rs)" for c rs
    by (induction rs) auto
  moreover have "q_live (?f q) = q_live q" by (simp add: q_live_def update_by_map_same del: mset_map)
  ultimately show "qp_addr (?f q) = qp_addr q \<and> q_live (?f q) \<subseteq># q_live q \<and> qpair_wf (?f q) \<and> connect_wf (?f q) \<and>
      (\<forall>c. c \<noteq> Uncounted \<longrightarrow> cls_count c (?f q) = cls_count c q) \<and>
      (\<forall>r. rq_zcopy r \<in> {ZCOPY_PHASE_NONE, ZCOPY_PHASE_INIT} \<longrightarrow> req_wf q r \<longrightarrow> req_wf (?f q) r)"
    using w(2) by (simp add: connect_wf_shrink cls_count_def)
qed simp_all

lemma pg_step_inv:
  assumes "pg_inv L pg" and "pg_ok pg e" and "pg_step pg e = Inr pg'"
  shows "pg_inv L pg'"
proof (cases e)
  case (Exec r out)
  show ?thesis by (rule pg_inv_exec [OF assms(1), of r out]) (use assms(2,3) in \<open>simp_all add: Exec\<close>)
next
  case (Complete qa ra st)
  then have c: "request_complete qa ra st pg = Inr pg'" using assms(3) by simp
  show ?thesis
    using complete_keeps [OF _ c, of L] connect_wf_complete [OF c] assms(1) by (simp add: pg_inv_def)
next
  case (ZcopyEnd qa ra)
  then show ?thesis using pg_inv_zcopy_end [OF assms(1), of qa ra] assms(2,3) by simp
next
  case (Pause nsid cb)
  then show ?thesis using pg_inv_pause [OF assms(1), of nsid cb] assms(2,3) by simp
next
  case (Resume mem blocks chans nss outs cb)
  show ?thesis
    by (rule pg_inv_resume [OF assms(1), of mem blocks chans nss outs cb])
      (use assms(2,3) in \<open>simp_all add: Resume\<close>)
next
  case (Disconnect qa mem)
  then obtain rc called where "qpair_disconnect qa mem pg = Inr (rc, called, pg')"
    using assms(3) by (auto simp: bindR_eq_Inr)
  then show ?thesis by (rule pg_inv_disconnect [OF assms(1)])
next
  case (NewQpair qa fabrics)
  then show ?thesis using pg_inv_new_qpair [OF assms(1), of qa fabrics] assms(2,3) by simp
next
  case (Connected qa qid acre)
  then show ?thesis using pg_inv_connected [OF assms(1), of qa qid acre] assms(2,3) by simp
next
  case (Update mem blocks chans nss)
  then obtain rc where "poll_group_update_subsystem mem blocks chans nss pg = Inr (rc, pg')"
    using assms(3) by (auto simp: bindR_eq_Inr)
  from pg_inv_update [OF assms(1) _ _ this] assms(2) Update show ?thesis by simp
qed

interpretation pgroup: guarded_stepper pg_step pg_ok "pg_inv L" for L
  by unfold_locales (rule pg_step_inv)

end
