(* ===== verification/Poll_Group_Props.thy ===== *)
theory Poll_Group_Props
  imports Poll_Group_Steps
begin

text \<open>
  What the poll group of a subsystem promises: a pause is reported when nothing that was
  asked to stop is running any more, exactly once, and requests that the accounting misses
  keep it from ever being reported.
\<close>

section \<open>A paused subsystem\<close>

text \<open>The group right after the subsystem has been added to it.\<close>

definition pg_start :: "spdk_nvmf_poll_group \<Rightarrow> bool" where
  "pg_start pg \<longleftrightarrow> pg_qpairs pg = [] \<and> sg_queued (pg_sgroup pg) = [] \<and>
     sg_mgmt_io_outstanding (pg_sgroup pg) = 0 \<and> sg_state (pg_sgroup pg) = SUBSYSTEM_ACTIVE \<and>
     list_all (\<lambda>x. pgn_io_outstanding x = 0 \<and> pgn_state x = SUBSYSTEM_ACTIVE) (sg_ns_info (pg_sgroup pg)) \<and>
     pg_subsystem_id pg < pg_num_sgroups pg"

lemma pg_start_inv: "pg_start pg \<Longrightarrow> pg_inv (\<lambda>_. 0) pg"
proof -
  assume s: "pg_start pg"
  then have "counter (pg_sgroup pg) c = 0" for c
    by (cases c) (auto simp: pg_start_def list_all_length)
  moreover have "n_out c pg = 0" for c using s by (simp add: pg_start_def n_out_def)
  moreover have "live pg = {#}" using s by (simp add: pg_start_def live_def)
  moreover have "pause_ok (pg_sgroup pg)" using s by (auto simp: pg_start_def pause_ok_def list_all_iff)
  ultimately show ?thesis using s
    by (simp add: pg_inv_def pg_inv0_def pg_shape_def counters_ok_def pg_start_def)
qed

lemma pg_reach_inv: "pg_start pg0 \<Longrightarrow> guarded_reach pg_step pg_ok pg0 pg \<Longrightarrow> pg_inv (\<lambda>_. 0) pg"
  by (rule pgroup.reach_inv) (assumption, rule pg_start_inv)

lemma pg_inv_counter: "pg_inv L pg \<Longrightarrow> c \<noteq> Uncounted \<Longrightarrow> counter (pg_sgroup pg) c = n_out c pg + L c"
  by (simp add: pg_inv_def pg_inv0_def counters_ok_def)

text \<open>C20. In every state that the poll group reaches under the conditions of its surroundings
  (\<open>pg_ok\<close>: no I/O command has the opcode 0x0c of an asynchronous event request and no such request
  comes on a queue pair that is being disconnected; a new request or queue pair has an address
  of its own, names the subsystem of this group, and there are fewer than 2^62 requests; a
  zero-copy end comes for an executing zero-copy request; a pause has a callback and no
  pause, resume or update of the namespaces comes while a pause is waiting; an update or a resume leaves a
  namespace with outstanding I/O in place, with its block device), the counters of outstanding requests are exact: the management counter is the number of Fabrics and admin requests on the lists of
  the queue pairs, and the counter of each namespace is the number of its I/O requests there.
  No counter ever wraps around. Without the first condition they are not exact: see
  \<open>command_0c_blocks_pause\<close>.\<close>

theorem outstanding_counters_exact:
  assumes "pg_start pg0" and "guarded_reach pg_step pg_ok pg0 pg"
  shows "unat (sg_mgmt_io_outstanding (pg_sgroup pg)) = n_out Mgmt pg \<and>
    (\<forall>i < length (sg_ns_info (pg_sgroup pg)).
       unat (pgn_io_outstanding (sg_ns_info (pg_sgroup pg) ! i)) = n_out (Io i) pg)"
proof -
  note c = pg_inv_counter [OF pg_reach_inv [OF assms]]
  have "unat (pgn_io_outstanding (sg_ns_info (pg_sgroup pg) ! i)) = n_out (Io i) pg"
    if "i < length (sg_ns_info (pg_sgroup pg))" for i
    using c [of "Io i"] that by simp
  then show ?thesis using c [of Mgmt] by simp
qed

text \<open>C23. Under the same conditions (\<open>pg_ok\<close>), while the subsystem is paused in the poll group, no Fabrics or admin request is
  outstanding (asynchronous event requests apart), and no I/O request to a namespace that
  was asked to pause.\<close>

theorem paused_is_quiet:
  assumes "pg_start pg0" and "guarded_reach pg_step pg_ok pg0 pg"
    and "sg_state (pg_sgroup pg) = SUBSYSTEM_PAUSED"
    and "q \<in> set (pg_qpairs pg)" and "r \<in> set (qp_outstanding q)"
  shows "req_class q r = Uncounted \<or>
    (\<exists>i < length (sg_ns_info (pg_sgroup pg)). req_class q r = Io i \<and>
       pgn_state (sg_ns_info (pg_sgroup pg) ! i) \<noteq> SUBSYSTEM_PAUSING)"
proof (rule disjCI)
  let ?sg = "pg_sgroup pg"
  have i: "pg_inv (\<lambda>_. 0) pg" by (rule pg_reach_inv [OF assms(1,2)])
  then have d: "drained ?sg" using assms(3) by (simp add: pg_inv_def pg_inv0_def pause_ok_def)
  assume no: "\<not> (\<exists>i < length (sg_ns_info ?sg). req_class q r = Io i \<and>
       pgn_state (sg_ns_info ?sg ! i) \<noteq> SUBSYSTEM_PAUSING)"
  have "distinct (map qp_addr (pg_qpairs pg))" using i by (simp add: pg_inv_def pg_inv0_def pg_shape_def)
  then have "find_qpair (qp_addr q) pg = Some q" using assms(4) by (simp add: find_Some_iff_distinct)
  then have pos: "n_out (req_class q r) pg > 0" using assms(5) by (rule n_out_pos) simp
  show "req_class q r = Uncounted"
  proof (rule ccontr)
    assume u: "req_class q r \<noteq> Uncounted"
    with pos pg_inv_counter [OF i u] have c: "counter ?sg (req_class q r) > 0" by simp
    then show False using d u no by (cases "req_class q r") (auto simp: drained_alt split: if_splits)
  qed
qed

section \<open>The report of a pause\<close>

text \<open>The callbacks that a step makes.\<close>

definition pausing_done ::
    "addr \<Rightarrow> (addr \<times> int) list \<Rightarrow> spdk_nvmf_subsystem_state list \<Rightarrow> spdk_nvmf_poll_group \<Rightarrow> bool" where
  "pausing_done cb d S pg \<longleftrightarrow> map pgn_state (sg_ns_info (pg_sgroup pg)) = S \<and>
     ((sg_state (pg_sgroup pg) = SUBSYSTEM_PAUSING \<and> sg_cb (pg_sgroup pg) = Some cb \<and> pg_done pg = d) \<or>
     (sg_state (pg_sgroup pg) = SUBSYSTEM_PAUSED \<and> pg_done pg = d @ [(cb, 0)]))"

text \<open>Two states with the same state of the subsystem, callback and log.\<close>

definition same_pause :: "spdk_nvmf_poll_group \<Rightarrow> spdk_nvmf_poll_group \<Rightarrow> bool" where
  "same_pause a b \<longleftrightarrow> sg_state (pg_sgroup b) = sg_state (pg_sgroup a) \<and>
     sg_cb (pg_sgroup b) = sg_cb (pg_sgroup a) \<and> pg_done b = pg_done a \<and>
     map pgn_state (sg_ns_info (pg_sgroup b)) = map pgn_state (sg_ns_info (pg_sgroup a))"

lemma same_pauseD: "same_pause a b \<Longrightarrow> pausing_done cb d S a \<Longrightarrow> pausing_done cb d S b"
  by (simp add: same_pause_def pausing_done_def)

lemma same_pause_refl: "same_pause a a"
  by (simp add: same_pause_def)

lemma same_pause_trans: "same_pause a b \<Longrightarrow> same_pause b c \<Longrightarrow> same_pause a c"
  by (simp add: same_pause_def)

lemma same_pause_core: "same_core a b \<Longrightarrow> pg_done b = pg_done a \<Longrightarrow> same_pause a b"
  by (simp add: same_pause_def same_core_def)

lemma same_pause_destroy: "qpair_destroy qa pg = Inr pg' \<Longrightarrow> same_pause pg pg'"
  by (erule qpair_destroy_Inr) (auto simp: same_pause_def)

lemma same_pause_cleanup: "qpair_request_cleanup qa pg = Inr pg' \<Longrightarrow> same_pause pg pg'"
  by (erule qpair_request_cleanup_cases) (simp_all add: same_pause_destroy same_pause_refl)

lemma same_pause_admit: "same_pause pg (admit q r pg)"
  by (simp add: same_pause_def admit_def)

lemma finish_pause_done:
  "finish_pause pg = Inr pg' \<Longrightarrow> pausing_done cb d S pg \<Longrightarrow> pausing_done cb d S pg'"
  by (auto simp: finish_pause_def pausing_done_def call_back_def Let_def split: if_splits option.splits)

lemma complete_done:
  assumes "request_complete qa ra st pg = Inr pg'" and p: "pausing_done cb d S pg"
  shows "pausing_done cb d S pg'"
  using assms(1)
proof (rule request_complete_Inr)
  fix q r gone ph pg1 pg2
  let ?rel = "release_outstanding q r (ph \<in> {ZCOPY_PHASE_NONE, ZCOPY_PHASE_COMPLETE, ZCOPY_PHASE_INIT_FAILED})"
  assume c: "same_core (set_qpair qa (qp_outstanding_update
         (if gone then remove_by rq_addr ra else update_by rq_addr ra (rq_zcopy_update (\<lambda>_. ph)))) pg) pg1"
      "pg_done pg1 = pg_done pg"
    and f: "(if req_class q r = Uncounted then Inr pg1 else finish_pause (set_sgroup ?rel pg1)) = Inr pg2"
    and cl: "qpair_request_cleanup qa pg2 = Inr pg'"
  have "same_pause pg pg1" using c by (simp add: same_pause_def same_core_def)
  then have p1: "pausing_done cb d S pg1" using p by (rule same_pauseD)
  have "same_pause pg1 (set_sgroup ?rel pg1)" by (simp add: same_pause_def)
  then have "pausing_done cb d S (set_sgroup ?rel pg1)" using p1 by (rule same_pauseD)
  then have "pausing_done cb d S pg2"
    using f p1 finish_pause_done [of "set_sgroup ?rel pg1" pg2] by (simp split: if_splits)
  with same_pause_cleanup [OF cl] show ?thesis by (rule same_pauseD)
qed

lemma exec_done:
  assumes "pg_inv L pg" and "pg_ok pg (Exec r out)" and "request_exec r out pg = Inr pg'"
    and p: "pausing_done cb d S pg"
  shows "pausing_done cb d S pg'"
proof -
  have sh: "pg_shape pg" "pause_ok (pg_sgroup pg)" using assms(1) by (simp_all add: pg_inv_def pg_inv0_def)
  from assms(3) sh show ?thesis
  proof (rule request_exec_cases)
    show "rq_addr r \<notin># live pg" "queued_wf pg r" "regular pg r" using assms(2) by simp_all
  next
    assume "pg' = queue_request r pg"
    then show ?thesis using p by (auto simp: pausing_done_def queue_request_def)
  next
    fix pg2 assume "same_core pg pg2" "pg_done pg2 = pg_done pg"
      and cl: "qpair_request_cleanup (rq_qpair r) pg2 = Inr pg'"
    then have "pausing_done cb d S pg2" using same_pauseD [OF same_pause_core p] by simp
    with same_pause_cleanup [OF cl] show ?thesis by (rule same_pauseD)
  next
    fix q status pg2
    assume c: "same_core (admit q r pg) pg2" "pg_done pg2 = pg_done pg"
      and s: "(case status of EXEC_COMPLETE st \<Rightarrow> request_complete (rq_qpair r) (rq_addr r) st pg2
            | EXEC_ASYNCHRONOUS \<Rightarrow> Inr pg2) = Inr pg'"
    have "same_pause (admit q r pg) pg2"
      using c by (intro same_pause_core) (simp_all add: admit_def)
    then have "same_pause pg pg2" using same_pause_admit same_pause_trans by blast
    then have "pausing_done cb d S pg2" using p by (rule same_pauseD)
    then show ?thesis using s by (cases status) (auto intro: complete_done)
  qed
qed

lemma free_aer_same_pause:
  assumes "qpair_free_aer qa pg = Inr pg'" shows "same_pause pg pg'"
proof -
  from assms obtain q where q: "find_qpair qa pg = Some q"
    by (auto simp: qpair_free_aer_def split: option.splits)
  let ?pg1 = "set_qpair qa (qp_outstanding_update (filter (\<lambda>r. rq_opc r \<noteq> OPC_ASYNC_EVENT_REQUEST)))
     (pg\<lparr>pg_freed := pg_freed pg @
       map rq_addr (filter (\<lambda>r. rq_opc r = OPC_ASYNC_EVENT_REQUEST) (qp_outstanding q))\<rparr>)"
  have s: "same_pause pg ?pg1" "same_pause pg pg" by (simp_all add: same_pause_def set_qpair_def)
  show ?thesis
  proof (cases "qpair_is_admin_queue q \<and> qp_ctrlr q \<and>
      filter (\<lambda>r. rq_opc r = OPC_ASYNC_EVENT_REQUEST) (qp_outstanding q) \<noteq> []")
    case True
    then have "qpair_request_cleanup qa ?pg1 = Inr pg'"
      using assms q by (simp add: qpair_free_aer_def Let_def)
    from same_pause_trans [OF s(1) same_pause_cleanup [OF this]] show ?thesis .
  next
    case False
    then have "pg' = pg \<or> pg' = ?pg1"
      using assms q by (auto simp: qpair_free_aer_def Let_def split: if_splits)
    then show ?thesis using s by auto
  qed
qed

lemma disconnect_same_pause:
  assumes "qpair_disconnect qa mem pg = Inr (rc, called, pg')" shows "same_pause pg pg'"
proof -
  from assms obtain q where q: "find_qpair qa pg = Some q"
    by (auto simp: qpair_disconnect_def split: option.splits)
  let ?pg1 = "set_qpair qa (qp_disconnect_started_update (\<lambda>_. True)) pg"
  let ?pg2 = "set_qpair qa (qp_state_update (\<lambda>_. QPAIR_DEACTIVATING)) ?pg1"
  let ?pg3 = "set_qpair qa (qp_state_cb_update (\<lambda>_. True)) ?pg2"
  have s: "same_pause pg pg" "same_pause pg ?pg1" "same_pause pg ?pg2" "same_pause pg ?pg3"
    by (simp_all add: same_pause_def)
  have "pg' = pg \<or> pg' = ?pg1 \<or> pg' = ?pg2 \<or> qpair_free_aer qa ?pg3 = Inr pg' \<or> qpair_destroy qa ?pg2 = Inr pg'"
    using assms q by (auto simp: qpair_disconnect_def Let_def bindR_eq_Inr split: if_splits)
  then show ?thesis
    using s same_pause_trans [OF s(4) free_aer_same_pause] same_pause_trans [OF s(3) same_pause_destroy]
    by (elim disjE) simp_all
qed

text \<open>The events between the start of a pause and the next decision about the subsystem.\<close>

definition pausing_ok :: "spdk_nvmf_poll_group \<Rightarrow> pg_event \<Rightarrow> bool" where
  "pausing_ok pg e \<longleftrightarrow> pg_ok pg e \<and>
     (case e of Pause _ _ \<Rightarrow> False | Resume _ _ _ _ _ _ \<Rightarrow> False | Update _ _ _ _ \<Rightarrow> False | _ \<Rightarrow> True)"

lemma pausing_step:
  assumes "pg_inv L pg \<and> pausing_done cb d S pg" and ok: "pausing_ok pg e" and st: "pg_step pg e = Inr pg'"
  shows "pg_inv L pg' \<and> pausing_done cb d S pg'"
proof
  have i: "pg_inv L pg" and p: "pausing_done cb d S pg" and k: "pg_ok pg e"
    using assms(1) ok by (simp_all add: pausing_ok_def)
  show "pg_inv L pg'" using i k st by (rule pg_step_inv)
  have same: "pausing_done cb d S pg'" if "same_pause pg pg'" using that p by (rule same_pauseD)
  show "pausing_done cb d S pg'"
  proof (cases e)
    case (Exec r out)
    show ?thesis
      by (rule exec_done [OF i _ _ p, of r out]) (use k st in \<open>simp_all only: Exec pg_step.simps\<close>)
  next
    case (Complete qa ra st)
    then show ?thesis using \<open>pg_step pg e = _\<close> complete_done [OF _ p] by simp
  next
    case (Disconnect qa mem)
    then obtain rc called where "qpair_disconnect qa mem pg = Inr (rc, called, pg')"
      using st by (auto simp: bindR_eq_Inr)
    then show ?thesis by (intro same disconnect_same_pause)
  qed (use ok st same in \<open>auto simp: pausing_ok_def same_pause_def request_zcopy_end_def poll_group_add_def\<close>)
qed

interpretation pausing: guarded_stepper pg_step pausing_ok "\<lambda>pg. pg_inv L pg \<and> pausing_done cb d S pg"
  for L cb d S
  by unfold_locales (rule pausing_step)

text \<open>C24. Under the same conditions (\<open>pg_ok\<close>, in particular no I/O command with opcode 0x0c, which
  \<open>command_0c_blocks_pause\<close> shows to block a pause for ever), a pause that has to wait is
  reported exactly once, when the last request it waits for is gone: whatever requests arrive,
  complete or are disconnected after it started, before the next pause, resume or update of the subsystem, as soon as no accounted request is left the subsystem is paused in the group and the callback
  of the pause has been called once, with status 0, and nothing else has been reported.\<close>

theorem pause_is_reported_once:
  assumes "pg_start pg0" and "guarded_reach pg_step pg_ok pg0 pg"
    and "sg_state (pg_sgroup pg) = SUBSYSTEM_PAUSING" and "sg_cb (pg_sgroup pg) = Some cb"
    and "guarded_reach pg_step pausing_ok pg pg'"
    and "\<forall>q \<in> set (pg_qpairs pg'). \<forall>r \<in> set (qp_outstanding q). req_class q r = Uncounted"
  shows "sg_state (pg_sgroup pg') = SUBSYSTEM_PAUSED \<and> pg_done pg' = pg_done pg @ [(cb, 0)]"
proof -
  have "pg_inv (\<lambda>_. 0) pg \<and> pausing_done cb (pg_done pg) (map pgn_state (sg_ns_info (pg_sgroup pg))) pg"
    using pg_reach_inv [OF assms(1,2)] assms(3,4) by (simp add: pausing_done_def)
  with assms(5) have i: "pg_inv (\<lambda>_. 0) pg'" and p: "pausing_done cb (pg_done pg) (map pgn_state (sg_ns_info (pg_sgroup pg))) pg'"
    using pausing.reach_inv by blast+
  have n: "n_out c pg' = 0" if "c \<noteq> Uncounted" for c
    using assms(6) that by (auto simp: n_out_def sum_list_eq_0_iff filter_empty_conv)
  have "counter (pg_sgroup pg') c = 0" if "c \<noteq> Uncounted" for c
    using pg_inv_counter [OF i that] n [OF that] by simp
  then have "drained (pg_sgroup pg')" by (simp add: drained_alt del: counter.simps)
  then have "sg_state (pg_sgroup pg') \<noteq> SUBSYSTEM_PAUSING"
    using i by (auto simp: pg_inv_def pg_inv0_def pause_ok_def)
  with p show ?thesis by (auto simp: pausing_done_def)
qed

section \<open>Requests that are lost from the accounts\<close>

text \<open>An I/O command with opcode 0x0c, admitted and completed: its counter stays raised.\<close>

lemma command_0c_leaks:
  assumes i: "pg_inv L pg" and q: "find_qpair (rq_qpair r) pg = Some q"
    and cq: "qp_ctrlr q" "qp_qid q \<noteq> 0" "qp_state q = QPAIR_ACTIVE"
    and r: "rq_opc r = OPC_ASYNC_EVENT_REQUEST" "rq_zcopy r = ZCOPY_PHASE_NONE" "rq_addr r \<notin># live pg"
    and n: "unat (rq_nsid r - 1) = n" "n < length (sg_ns_info (pg_sgroup pg))"
      "pgn_channel (sg_ns_info (pg_sgroup pg) ! n) \<noteq> None"
      "pgn_state (sg_ns_info (pg_sgroup pg) ! n) = SUBSYSTEM_ACTIVE"
    and L: "L (Io n) < max_live"
  obtains pg' where "request_exec r (EXEC_COMPLETE st) pg = Inr pg'"
    and "pg_inv (L(Io n := L (Io n) + 1)) pg'" and "same_core (set_sgroup (add_io_outstanding n) pg) pg'"
    and "pg_done pg' = pg_done pg"
proof -
  let ?P = "set_sgroup (add_io_outstanding n) pg"
  let ?E = "enqueue_outstanding r ?P"
  let ?q = "q\<lparr>qp_outstanding := qp_outstanding q @ [r]\<rparr>"
  have sh: "pg_shape pg" using i by (simp add: pg_inv_def pg_inv0_def)
  note fr = fresh_outstanding [OF r(3) q]
  have na: "\<not> qpair_is_admin_queue q" using cq by (simp add: qpair_is_admin_queue_def)
  have chk: "check_subsystem_active r pg = Inr (True, ?P)"
    using q cq r n na by (auto simp: check_subsystem_active_def request_sgroup_def Let_def)
  have qE: "find_qpair (rq_qpair r) ?E = Some ?q" using q by (simp add: find_enqueue)
  have proc: "process_cmd r (EXEC_COMPLETE st) ?E = Inr (EXEC_COMPLETE st, ?E)"
    using r cq na by (simp add: process_cmd_def qE qpair_is_admin_queue_def)
  have rE: "List.find (\<lambda>x. rq_addr x = rq_addr r) (qp_outstanding ?q) = Some r"
    using find_fresh_last [OF fr] by simp
  define pg' where "pg' = (set_qpair (rq_qpair r) (qp_outstanding_update (remove_by rq_addr (rq_addr r)))
     (?E\<lparr>pg_completed_nvme_io := pg_completed_nvme_io ?E + 1\<rparr>))
     \<lparr>pg_sent := pg_sent ?E @ [(rq_addr r, set_crd ?q st)]\<rparr>"
  have qs: "pg_qpairs pg' = pg_qpairs pg"
    using enqueue_then_remove [of ?P r q] pg_shapeD(1) [OF sh] q fr by (simp add: pg'_def set_qpair_def)
  have sE: "pg_sent (set_qpair a f pg) = pg_sent pg" for a f pg by (simp add: set_qpair_def)
  have "find_qpair (rq_qpair r) pg' = Some q" by (simp add: qs q)
  then have cl: "qpair_request_cleanup (rq_qpair r) pg' = Inr pg'"
    using cq(3) by (simp add: qpair_request_cleanup_def)
  have "request_complete (rq_qpair r) (rq_addr r) st ?E = Inr pg'"
    unfolding request_complete_def qE option.case rE Let_def
    using r cq cl by (simp add: pg'_def sE request_sgroup_def)
  then have e: "request_exec r (EXEC_COMPLETE st) pg = Inr pg'"
    by (simp add: request_exec_def chk proc)
  have core: "same_core ?P pg'" by (simp add: same_core_def qs) (simp add: pg'_def set_qpair_def enqueue_outstanding_def)
  have cnt: "counter (add_io_outstanding n (pg_sgroup pg)) d =
      counter (pg_sgroup pg) d + (if d = Io n then 1 else 0)" for d
  proof -
    have "counter (pg_sgroup pg) (Io n) < 2 ^ 64 - 1"
      using counters_bound [of L pg "Io n"] i max_live_small unfolding pg_inv_def
      by (metis le_less_trans req_class.distinct(3))
    with n(2) show ?thesis
      using counter_add [of "Io n" "pg_sgroup pg" d] by (simp add: add_outstanding_class)
  qed
  have st: "map pgn_state (sg_ns_info (add_io_outstanding n (pg_sgroup pg))) =
      map pgn_state (sg_ns_info (pg_sgroup pg))"
    using sg_ns_state_parts(2) [of "Io n" "pg_sgroup pg"] by (simp add: add_outstanding_class)
  have len: "length (sg_ns_info (add_io_outstanding n (pg_sgroup pg))) = length (sg_ns_info (pg_sgroup pg))"
    by (rule map_eq_imp_length_eq [OF st])
  have nn: "ns_state (pg_sgroup pg) n = SUBSYSTEM_ACTIVE" using n by simp
  have dr: "drained (add_io_outstanding n (pg_sgroup pg)) = drained (pg_sgroup pg)"
    unfolding drained_alt cnt st len using nn by (auto simp del: counter.simps)
  have "pause_ok (add_io_outstanding n (pg_sgroup pg)) = pause_ok (pg_sgroup pg)"
    by (rule pause_ok_cong) (simp_all add: dr st)
  then have "pg_inv (L(Io n := L (Io n) + 1)) ?P"
    using i L by (auto simp: pg_inv_def pg_inv0_def shape_sgroup counters_ok_def cnt simp del: counter.simps)
  then have "pg_inv (L(Io n := L (Io n) + 1)) pg'"
    using core same_core_inv [OF core] by (simp add: pg_inv_def same_core_def)
  moreover have "pg_done pg' = pg_done pg" by (simp add: pg'_def set_qpair_def enqueue_outstanding_def set_sgroup_def)
  ultimately show ?thesis using that e core by blast
qed

lemma pausing_blocked:
  assumes i: "pg_inv L pg" and p: "pausing_done cb d S pg" and r: "guarded_reach pg_step pausing_ok pg pg'"
    and n: "n < length S" "S ! n = SUBSYSTEM_PAUSING" "L (Io n) > 0"
  shows "sg_state (pg_sgroup pg') = SUBSYSTEM_PAUSING \<and> pg_done pg' = d"
proof -
  have i': "pg_inv L pg'" and p': "pausing_done cb d S pg'"
    using pausing.reach_inv [OF r] i p by blast+
  have st: "map pgn_state (sg_ns_info (pg_sgroup pg')) = S" using p' by (simp add: pausing_done_def)
  have len: "n < length (sg_ns_info (pg_sgroup pg'))" using arg_cong [OF st, of length] n(1)
    by simp
  have "counter (pg_sgroup pg') (Io n) > 0" using pg_inv_counter [OF i', of "Io n"] n(3) by simp
  then have "\<not> drained (pg_sgroup pg')"
    using len n(2) unfolding drained_alt st by (auto simp del: counter.simps)
  then have "sg_state (pg_sgroup pg') \<noteq> SUBSYSTEM_PAUSED"
    using i' by (auto simp: pg_inv_def pg_inv0_def pause_ok_def)
  with p' show ?thesis by (auto simp: pausing_done_def)
qed

text \<open>One I/O command with opcode 0x0c (NVMe Verify), which any connected host can send, keeps
  the subsystem from ever being paused again: the command is answered, but since
  \<open>_nvmf_request_complete\<close> takes every request with that opcode for an asynchronous event
  request, the counter of its namespace is not decremented, and a later pause of the
  namespace is never reported, whatever happens next.\<close>

theorem command_0c_blocks_pause:
  assumes "pg_start pg0" and "guarded_reach pg_step pg_ok pg0 pg"
    and act: "sg_state (pg_sgroup pg) = SUBSYSTEM_ACTIVE"
    and q: "find_qpair (rq_qpair r) pg = Some q" "qp_ctrlr q" "qp_qid q \<noteq> 0" "qp_state q = QPAIR_ACTIVE"
    and r: "rq_opc r = 0x0c" "rq_zcopy r = ZCOPY_PHASE_NONE" "rq_addr r \<notin># live pg"
    and n: "unat (rq_nsid r - 1) = n" "n < length (sg_ns_info (pg_sgroup pg))"
      "pgn_channel (sg_ns_info (pg_sgroup pg) ! n) \<noteq> None"
      "pgn_state (sg_ns_info (pg_sgroup pg) ! n) = SUBSYSTEM_ACTIVE"
    and e: "request_exec r (EXEC_COMPLETE st) pg = Inr pg1"
    and pause: "asked_to_pause nsid n" "pg2 = poll_group_pause_subsystem nsid (Some cb) pg1"
    and run: "guarded_reach pg_step pausing_ok pg2 pg3"
  shows "n_out (Io n) pg1 = n_out (Io n) pg \<and>
    sg_state (pg_sgroup pg3) = SUBSYSTEM_PAUSING \<and> pg_done pg3 = pg_done pg"
proof -
  have i: "pg_inv (\<lambda>_. 0) pg" by (rule pg_reach_inv [OF assms(1,2)])
  let ?L = "(\<lambda>_. 0)(Io n := Suc 0)"
  obtain pg1' where 1: "request_exec r (EXEC_COMPLETE st) pg = Inr pg1'"
      "pg_inv ((\<lambda>_. 0)(Io n := 0 + 1)) pg1'" "same_core (set_sgroup (add_io_outstanding n) pg) pg1'"
      "pg_done pg1' = pg_done pg"
    using command_0c_leaks [OF i q r n] by (auto simp: max_live_def)
  then have id: "pg1' = pg1" using e by simp
  have i1: "pg_inv ?L pg1" and c1: "same_core (set_sgroup (add_io_outstanding n) pg) pg1"
    and d1: "pg_done pg1 = pg_done pg"
    using 1(2-4) by (simp_all add: id)
  have st1: "sg_state (pg_sgroup pg1) = SUBSYSTEM_ACTIVE" "pg_qpairs pg1 = pg_qpairs pg"
    "length (sg_ns_info (pg_sgroup pg1)) = length (sg_ns_info (pg_sgroup pg))"
    using c1 act length_ns_info(2) [of "Io n" "pg_sgroup pg"]
    by (simp_all add: same_core_def add_outstanding_class)
  have i2: "pg_inv ?L pg2" unfolding pause(2) by (rule pg_inv_pause [OF i1]) (simp add: st1)
  let ?M = "(mark_pausing nsid (pg_sgroup pg1))\<lparr>sg_state := SUBSYSTEM_PAUSING\<rparr>"
  have nd: "\<not> drained ?M"
  proof -
    have c: "counter ?M k = counter (pg_sgroup pg1) k" for k
      by (rule counter_cong) (simp_all add: mark_pausing_io)
    have "counter (pg_sgroup pg1) (Io n) > 0" using pg_inv_counter [OF i1, of "Io n"] by simp
    moreover have "ns_state ?M n = SUBSYSTEM_PAUSING" "n < length (sg_ns_info ?M)"
      using n(2) pause(1) by (simp_all add: st1 mark_pausing_state)
    ultimately show ?thesis unfolding drained_alt c by (auto simp del: counter.simps)
  qed
  have "pg2 = pg1\<lparr>pg_sgroup := ?M\<lparr>sg_cb := Some cb\<rparr>\<rparr>"
    using pause_subsystem_alt [of pg1 nsid "Some cb"] i1 nd
    by (simp add: pause(2) st1 pg_inv_def pg_inv0_def pg_shape_def Let_def)
  then have p2: "pausing_done cb (pg_done pg) (map pgn_state (sg_ns_info ?M)) pg2"
    by (simp add: pausing_done_def d1)
  have "sg_state (pg_sgroup pg3) = SUBSYSTEM_PAUSING \<and> pg_done pg3 = pg_done pg"
    using i2 p2 run
    by (rule pausing_blocked [where n = n]) (use n(2) pause(1) in \<open>simp_all add: st1 mark_pausing_state\<close>)
  moreover have "n_out (Io n) pg1 = n_out (Io n) pg" by (simp add: n_out_def st1)
  ultimately show ?thesis by simp
qed

section \<open>Hosts that are not connected yet\<close>

text \<open>A host that has not connected can crash the target in two ways: by an asynchronous
  event request on the admin queue before the Connect command, and by dropping the
  connection while its Connect command is being processed. Both dereference the controller,
  which does not exist yet.\<close>

theorem unconnected_host_crashes:
  assumes "find_qpair a pg = Some q" and "\<not> qp_ctrlr q" and "qp_qid q = 0" and "qp_state q = QPAIR_ACTIVE"
  shows "(\<forall>(r :: spdk_nvmf_request) out. rq_qpair r = a \<longrightarrow> rq_opc r = 0x0c \<longrightarrow> request_exec r out pg = Inl NullDeref) \<and>
    (qp_outstanding q \<noteq> [] \<longrightarrow> \<not> qp_disconnect_started q \<longrightarrow> qpair_disconnect a True pg = Inl NullDeref)"
proof (intro conjI allI impI)
  fix r :: spdk_nvmf_request and out assume r: "rq_qpair r = a" "rq_opc r = 0x0c"
  have "check_subsystem_active r pg = Inr (True, pg)"
    using assms r by (simp add: check_subsystem_active_def request_sgroup_def request_is_fabric_connect_def)
  moreover have "process_cmd r out (enqueue_outstanding r pg) = Inl NullDeref"
    using assms r by (simp add: process_cmd_def find_enqueue qpair_is_admin_queue_def)
  ultimately show "request_exec r out pg = Inl NullDeref"
    by (simp add: request_exec_def)
next
  assume "qp_outstanding q \<noteq> []" "\<not> qp_disconnect_started q"
  then show "qpair_disconnect a True pg = Inl NullDeref"
    using assms
    by (simp add: qpair_disconnect_def Let_def qpair_free_aer_def find_key_update_by qpair_is_admin_queue_def)
qed

text \<open>A Connect command that is queued because the subsystem is not active outlives its
  queue pair: \<open>_nvmf_qpair_destroy\<close> frees the queued requests of connected queue pairs only,
  so when the host gives up, the request stays queued, and resuming the subsystem executes
  a request whose queue pair is gone.\<close>

theorem queued_connect_use_after_free:
  assumes "find_qpair (rq_qpair r) pg = Some q" and "\<not> qp_ctrlr q" and "qp_state q = QPAIR_ACTIVE"
    and "\<not> qp_disconnect_started q" and "qp_outstanding q = []"
    and "sg_queued (pg_sgroup pg) = r # rs" and "distinct (map qp_addr (pg_qpairs pg))"
  shows "\<exists>pg1. qpair_disconnect (rq_qpair r) True pg = Inr (0, False, pg1) \<and>
    r \<in> set (sg_queued (pg_sgroup pg1)) \<and> find_qpair (rq_qpair r) pg1 = None \<and>
    release_queued outs (sg_queued (pg_sgroup pg1)) pg1 = Inl UseAfterFree"
proof -
  let ?a = "rq_qpair r"
  let ?pg2 = "set_qpair ?a (qp_state_update (\<lambda>_. QPAIR_DEACTIVATING))
     (set_qpair ?a (qp_disconnect_started_update (\<lambda>_. True)) pg)"
  have f: "find_qpair ?a ?pg2 = Some (q\<lparr>qp_state := QPAIR_DEACTIVATING, qp_disconnect_started := True\<rparr>)"
    using assms(1) by (simp add: find_key_update_by)
  then obtain pg1 where d: "qpair_destroy ?a ?pg2 = Inr pg1"
    by (simp add: qpair_destroy_def Let_def)
  then have qs: "pg_qpairs pg1 = remove_by qp_addr ?a (pg_qpairs ?pg2)"
    and sg: "pg_sgroup pg1 = pg_sgroup pg"
    by (rule qpair_destroy_Inr, use f assms(2) in simp)+
  have "qpair_disconnect ?a True pg = Inr (0, False, pg1)"
    using assms(1,3,4,5) d by (simp add: qpair_disconnect_def Let_def)
  moreover have gone: "find_qpair ?a pg1 = None" by (simp add: qs find_key_remove_by)
  moreover have "release_queued outs (sg_queued (pg_sgroup pg1)) pg1 = Inl UseAfterFree"
    using gone request_exec_gone [of r] by (simp add: sg assms(6))
  ultimately show ?thesis using assms(6) by (auto simp: sg)
qed

section \<open>A concrete group\<close>

text \<open>A group with two namespaces and a queue pair that connects, sends I/O and is paused.\<close>

definition demo_ns :: "addr \<Rightarrow> pg_ns_info" where
  "demo_ns ch = zero_ns_info\<lparr>pgn_channel := Some ch, pgn_uuid := of_nat ch, pgn_state := SUBSYSTEM_ACTIVE\<rparr>"

definition demo_group :: spdk_nvmf_poll_group where
  "demo_group = \<lparr>pg_qpairs = [], pg_sgroup = \<lparr>sg_ns_info = [demo_ns 5, demo_ns 6],
     sg_mgmt_io_outstanding = 0, sg_cb = None, sg_state = SUBSYSTEM_ACTIVE, sg_queued = []\<rparr>,
     pg_subsystem_id = 0, pg_num_sgroups = 1, pg_current_admin_qpairs = 0, pg_current_io_qpairs = 0,
     pg_current_unassociated_qpairs = 0, pg_completed_nvme_io = 0, pg_sent = [], pg_freed = [],
     pg_done = [], pg_put_channels = [], pg_removing = None, pg_messages = 0, pg_ns_notices = 0\<rparr>"

definition demo_req :: "addr \<Rightarrow> u8 \<Rightarrow> u32 \<Rightarrow> spdk_nvmf_request" where
  "demo_req a opc nsid = \<lparr>rq_addr = a, rq_qpair = 1, rq_opc = opc, rq_fctype = 1, rq_names_us = True,
     rq_nsid = nsid, rq_zcopy = ZCOPY_PHASE_NONE\<rparr>"

definition demo_connect :: "pg_event list" where
  "demo_connect = [NewQpair 1 True, Exec (demo_req 10 0x7f 0) EXEC_ASYNCHRONOUS, Connected 1 1 False,
     Complete 1 10 st_success]"

definition demo_pausing :: "pg_event list" where
  "demo_pausing = demo_connect @ [Exec (demo_req 11 2 1) EXEC_ASYNCHRONOUS,
     Exec (demo_req 12 2 2) EXEC_ASYNCHRONOUS, Pause 1 (Some 77)]"

definition demo_paused :: "pg_event list" where
  "demo_paused = demo_pausing @ [Complete 1 11 st_success, Exec (demo_req 13 2 1) EXEC_ASYNCHRONOUS]"

definition demo_at :: "pg_event list \<Rightarrow> spdk_nvmf_poll_group" where
  "demo_at es = (case run_guarded pg_step pg_ok demo_group es of Some pg \<Rightarrow> pg | None \<Rightarrow> demo_group)"

lemma demo_reach:
  "run_guarded pg_step pg_ok demo_group es \<noteq> None \<Longrightarrow> guarded_reach pg_step pg_ok demo_group (demo_at es)"
  by (auto simp: demo_at_def intro: run_guarded_start)

lemma demo_pg_start: "pg_start demo_group"
  by (simp add: pg_start_def demo_group_def demo_ns_def zero_ns_info_def)

lemma demo_runs:
  "run_guarded pg_step pg_ok demo_group demo_connect \<noteq> None"
  "run_guarded pg_step pg_ok demo_group demo_pausing \<noteq> None"
  "run_guarded pg_step pg_ok demo_group demo_paused \<noteq> None"
  by code_simp+

theorem outstanding_counters_exact_witness:
  "unat (pgn_io_outstanding (sg_ns_info (pg_sgroup (demo_at demo_pausing)) ! 1)) = 1 \<and>
   n_out (Io 1) (demo_at demo_pausing) = 1"
proof -
  have "unat (pgn_io_outstanding (sg_ns_info (pg_sgroup (demo_at demo_pausing)) ! 1)) = 1"
      "1 < length (sg_ns_info (pg_sgroup (demo_at demo_pausing)))"
    by code_simp+
  with outstanding_counters_exact [OF demo_pg_start demo_reach [OF demo_runs(2)]]
  show ?thesis by metis
qed

theorem paused_is_quiet_witness:
  "let pg = demo_at demo_paused; q = hd (pg_qpairs pg); r = hd (qp_outstanding q) in
     rq_addr r = 12 \<and> (\<exists>i < 2. req_class q r = Io i \<and> pgn_state (sg_ns_info (pg_sgroup pg) ! i) \<noteq> SUBSYSTEM_PAUSING)"
proof -
  let ?pg = "demo_at demo_paused"
  let ?q = "hd (pg_qpairs ?pg)"
  let ?r = "hd (qp_outstanding ?q)"
  have f: "sg_state (pg_sgroup ?pg) = SUBSYSTEM_PAUSED" "?q \<in> set (pg_qpairs ?pg)"
      "?r \<in> set (qp_outstanding ?q)" "rq_addr ?r = 12" "req_class ?q ?r \<noteq> Uncounted"
      "length (sg_ns_info (pg_sgroup ?pg)) = 2"
    by code_simp+
  from paused_is_quiet [OF demo_pg_start demo_reach [OF demo_runs(3)] f(1,2,3)] f(4,5,6)
  show ?thesis unfolding Let_def by auto
qed

theorem pause_is_reported_once_witness:
  "\<exists>pg'. run_guarded pg_step pausing_ok (demo_at demo_pausing)
       [Complete 1 12 st_success, Complete 1 11 st_success] = Some pg' \<and>
     sg_state (pg_sgroup pg') = SUBSYSTEM_PAUSED \<and> pg_done pg' = pg_done (demo_at demo_pausing) @ [(77, 0)]"
proof -
  let ?pg = "demo_at demo_pausing"
  let ?run = "run_guarded pg_step pausing_ok ?pg [Complete 1 12 st_success, Complete 1 11 st_success]"
  have f: "sg_state (pg_sgroup ?pg) = SUBSYSTEM_PAUSING" "sg_cb (pg_sgroup ?pg) = Some 77"
    by code_simp+
  have "case ?run of None \<Rightarrow> False
      | Some pg' \<Rightarrow> list_all (\<lambda>q. list_all (\<lambda>r. req_class q r = Uncounted) (qp_outstanding q)) (pg_qpairs pg')"
    by code_simp
  then obtain pg' where r: "?run = Some pg'"
      and u: "\<forall>q \<in> set (pg_qpairs pg'). \<forall>r \<in> set (qp_outstanding q). req_class q r = Uncounted"
    by (auto simp: list_all_iff split: option.splits)
  from pause_is_reported_once [OF demo_pg_start demo_reach [OF demo_runs(2)] f run_guarded_start [OF r] u] r
  show ?thesis by blast
qed

theorem command_0c_blocks_pause_witness:
  "\<exists>pg1. request_exec (demo_req 20 0x0c 1) (EXEC_COMPLETE st_success) (demo_at demo_connect) = Inr pg1 \<and>
     sg_state (pg_sgroup (poll_group_pause_subsystem 1 (Some 77) pg1)) = SUBSYSTEM_PAUSING"
proof -
  let ?pg = "demo_at demo_connect" and ?r = "demo_req 20 0x0c 1"
  have s: "sg_state (pg_sgroup ?pg) = SUBSYSTEM_ACTIVE" by code_simp
  have "case find_qpair (rq_qpair ?r) ?pg of None \<Rightarrow> False
      | Some q \<Rightarrow> qp_ctrlr q \<and> qp_qid q \<noteq> 0 \<and> qp_state q = QPAIR_ACTIVE"
    by code_simp
  then obtain q where q: "find_qpair (rq_qpair ?r) ?pg = Some q" "qp_ctrlr q" "qp_qid q \<noteq> 0"
      "qp_state q = QPAIR_ACTIVE"
    by (auto split: option.splits)
  have r: "rq_opc ?r = 0x0c" "rq_zcopy ?r = ZCOPY_PHASE_NONE" "rq_addr ?r \<notin># live ?pg"
    by code_simp+
  have n: "unat (rq_nsid ?r - 1) = 0" "0 < length (sg_ns_info (pg_sgroup ?pg))"
      "pgn_channel (sg_ns_info (pg_sgroup ?pg) ! 0) \<noteq> None"
      "pgn_state (sg_ns_info (pg_sgroup ?pg) ! 0) = SUBSYSTEM_ACTIVE"
    by code_simp+
  have "case request_exec ?r (EXEC_COMPLETE st_success) ?pg of Inl _ \<Rightarrow> False | Inr _ \<Rightarrow> True"
    by code_simp
  then obtain pg1 where e: "request_exec ?r (EXEC_COMPLETE st_success) ?pg = Inr pg1"
    by (auto split: sum.splits)
  have "asked_to_pause 1 0" by (simp add: asked_to_pause_def)
  from command_0c_blocks_pause [OF demo_pg_start demo_reach [OF demo_runs(1)] s q r n e this refl
      guarded_reach.start, of 77] e
  show ?thesis by blast
qed

theorem unconnected_host_crashes_witness:
  "request_exec (demo_req 10 0x0c 0) EXEC_ASYNCHRONOUS (demo_at [NewQpair 1 True]) = Inl NullDeref \<and>
   qpair_disconnect 1 True (demo_at [NewQpair 1 True, Exec (demo_req 10 0x7f 0) EXEC_ASYNCHRONOUS]) = Inl NullDeref"
proof -
  let ?a = "demo_at [NewQpair 1 True]"
    and ?b = "demo_at [NewQpair 1 True, Exec (demo_req 10 0x7f 0) EXEC_ASYNCHRONOUS]"
  have "case find_qpair 1 ?a of None \<Rightarrow> False
      | Some q \<Rightarrow> \<not> qp_ctrlr q \<and> qp_qid q = 0 \<and> qp_state q = QPAIR_ACTIVE"
    "case find_qpair 1 ?b of None \<Rightarrow> False
      | Some q \<Rightarrow> \<not> qp_ctrlr q \<and> qp_qid q = 0 \<and> qp_state q = QPAIR_ACTIVE \<and>
          qp_outstanding q \<noteq> [] \<and> \<not> qp_disconnect_started q"
    by code_simp+
  then obtain q q' where q: "find_qpair 1 ?a = Some q" "\<not> qp_ctrlr q" "qp_qid q = 0" "qp_state q = QPAIR_ACTIVE"
    and q': "find_qpair 1 ?b = Some q'" "\<not> qp_ctrlr q'" "qp_qid q' = 0" "qp_state q' = QPAIR_ACTIVE"
      "qp_outstanding q' \<noteq> []" "\<not> qp_disconnect_started q'"
    by (auto split: option.splits)
  from unconnected_host_crashes [OF q] unconnected_host_crashes [OF q'(1-4)] q'(5,6)
  show ?thesis by (auto simp: demo_req_def)
qed

theorem queued_connect_use_after_free_witness:
  "\<exists>pg1. qpair_disconnect 1 True (demo_at [NewQpair 1 True, Pause 1 (Some 77),
        Exec (demo_req 10 0x7f 0) EXEC_ASYNCHRONOUS]) = Inr (0, False, pg1) \<and>
     release_queued (\<lambda>_. EXEC_ASYNCHRONOUS) (sg_queued (pg_sgroup pg1)) pg1 = Inl UseAfterFree"
proof -
  let ?pg = "demo_at [NewQpair 1 True, Pause 1 (Some 77), Exec (demo_req 10 0x7f 0) EXEC_ASYNCHRONOUS]"
  let ?r = "demo_req 10 0x7f 0"
  have "case find_qpair (rq_qpair ?r) ?pg of None \<Rightarrow> False
      | Some q \<Rightarrow> \<not> qp_ctrlr q \<and> qp_state q = QPAIR_ACTIVE \<and> \<not> qp_disconnect_started q \<and> qp_outstanding q = []"
    by code_simp
  then obtain q where q: "find_qpair (rq_qpair ?r) ?pg = Some q" "\<not> qp_ctrlr q" "qp_state q = QPAIR_ACTIVE"
      "\<not> qp_disconnect_started q" "qp_outstanding q = []"
    by (auto split: option.splits)
  have s: "sg_queued (pg_sgroup ?pg) = ?r # []" "distinct (map qp_addr (pg_qpairs ?pg))"
    by code_simp+
  from queued_connect_use_after_free [OF q s, of "\<lambda>_. EXEC_ASYNCHRONOUS"] show ?thesis
    by (auto simp: demo_req_def)
qed

end
