(* ===== verification/Subsys_State.thy ===== *)
theory Subsys_State
  imports Poll_Group_Props
begin

text \<open>
  Starting, stopping, pausing and resuming a subsystem (\<^verbatim>\<open>src/nvmf/subsystem.c\<close>): the state
  machine of the subsystem and the change of state that runs over all poll groups.

  The iteration over the poll groups is the environment's: \<open>ss_iter\<close> is the iteration under
  way and an event \<open>IterDone\<close> its end, with the status that \<open>spdk_for_each_channel\<close> reports
  (the first one of a group that is not 0). What happens in one group is
  \<open>state_change_on_pg\<close>, on the operations of \<open>Poll_Group\<close>. \<open>ss_log\<close> holds the callbacks made.
\<close>

section \<open>The state machine\<close>

primrec state_num :: "spdk_nvmf_subsystem_state \<Rightarrow> int" where
  "state_num SUBSYSTEM_INACTIVE = 0"
| "state_num SUBSYSTEM_ACTIVATING = 1"
| "state_num SUBSYSTEM_ACTIVE = 2"
| "state_num SUBSYSTEM_PAUSING = 3"
| "state_num SUBSYSTEM_PAUSED = 4"
| "state_num SUBSYSTEM_RESUMING = 5"
| "state_num SUBSYSTEM_DEACTIVATING = 6"
| "state_num SUBSYSTEM_NUM_STATES = 7"

lemma state_num_inject [simp]: "state_num a = state_num b \<longleftrightarrow> a = b"
  by (cases a; cases b) simp_all

definition get_intermediate_state ::
    "spdk_nvmf_subsystem_state \<Rightarrow> spdk_nvmf_subsystem_state \<Rightarrow> spdk_nvmf_subsystem_state" where
  "get_intermediate_state current requested =
     (case requested of
        SUBSYSTEM_INACTIVE \<Rightarrow> SUBSYSTEM_DEACTIVATING
      | SUBSYSTEM_ACTIVE \<Rightarrow>
          (if current = SUBSYSTEM_PAUSED then SUBSYSTEM_RESUMING else SUBSYSTEM_ACTIVATING)
      | SUBSYSTEM_PAUSED \<Rightarrow> SUBSYSTEM_PAUSING
      | _ \<Rightarrow> SUBSYSTEM_NUM_STATES)"

text \<open>The compare-and-exchange: the value found there and the new value.\<close>

definition compare_exchange ::
    "spdk_nvmf_subsystem_state \<Rightarrow> spdk_nvmf_subsystem_state \<Rightarrow> spdk_nvmf_subsystem_state \<Rightarrow>
       spdk_nvmf_subsystem_state \<times> spdk_nvmf_subsystem_state" where
  "compare_exchange cur expected new = (cur, if cur = expected then new else cur)"

definition expected_old_state ::
    "spdk_nvmf_subsystem_state \<Rightarrow> spdk_nvmf_subsystem_state option" where
  "expected_old_state st =
     (case st of
        SUBSYSTEM_INACTIVE \<Rightarrow> Some SUBSYSTEM_DEACTIVATING
      | SUBSYSTEM_ACTIVATING \<Rightarrow> Some SUBSYSTEM_INACTIVE
      | SUBSYSTEM_ACTIVE \<Rightarrow> Some SUBSYSTEM_ACTIVATING
      | SUBSYSTEM_PAUSING \<Rightarrow> Some SUBSYSTEM_ACTIVE
      | SUBSYSTEM_PAUSED \<Rightarrow> Some SUBSYSTEM_PAUSING
      | SUBSYSTEM_RESUMING \<Rightarrow> Some SUBSYSTEM_PAUSED
      | SUBSYSTEM_DEACTIVATING \<Rightarrow> Some SUBSYSTEM_ACTIVE
      | SUBSYSTEM_NUM_STATES \<Rightarrow> None)"

text \<open>\<open>nvmf_subsystem_set_state\<close>: the return code and the state afterwards.\<close>

definition subsystem_set_state ::
    "spdk_nvmf_subsystem_state \<Rightarrow> spdk_nvmf_subsystem_state \<Rightarrow> int \<times> spdk_nvmf_subsystem_state" where
  "subsystem_set_state st cur =
     (case expected_old_state st of
        None \<Rightarrow> (- 1, cur)
      | Some expected \<Rightarrow>
          let (actual, cur1) = compare_exchange cur expected st
          in if actual = expected then (0, cur1)
             else
               let e1 = (if actual = SUBSYSTEM_RESUMING \<and> st = SUBSYSTEM_ACTIVE
                         then SUBSYSTEM_RESUMING else expected);
                   e2 = (if actual = SUBSYSTEM_ACTIVATING \<and> st = SUBSYSTEM_DEACTIVATING
                         then SUBSYSTEM_ACTIVATING else e1);
                   e3 = (if actual = SUBSYSTEM_RESUMING \<and> st = SUBSYSTEM_PAUSING
                         then SUBSYSTEM_RESUMING else e2);
                   e4 = (if actual = SUBSYSTEM_PAUSED \<and> st = SUBSYSTEM_DEACTIVATING
                         then SUBSYSTEM_PAUSED else e3);
                   (actual2, cur2) = compare_exchange cur1 e4 st
               in (state_num actual2 - state_num e4, cur2))"

section \<open>Changes of state\<close>

record subsystem_state_change_ctx =
  cx_nsid :: u16
  cx_original_state :: spdk_nvmf_subsystem_state
  cx_requested_state :: spdk_nvmf_subsystem_state
  cx_cb :: "addr option"

datatype iteration = ForwardIter | RevertIter

record subsystem_ctl =
  ss_state :: spdk_nvmf_subsystem_state
  ss_changing_state :: bool
  ss_ctx :: "subsystem_state_change_ctx option"
  ss_iter :: "iteration option"
  ss_log :: "(addr \<times> int) list"

definition log_cb :: "addr option \<Rightarrow> int \<Rightarrow> subsystem_ctl \<Rightarrow> subsystem_ctl" where
  "log_cb cb rc s = (case cb of None \<Rightarrow> s | Some f \<Rightarrow> s\<lparr>ss_log := ss_log s @ [(f, rc)]\<rparr>)"

definition end_change :: "addr option \<Rightarrow> int \<Rightarrow> subsystem_ctl \<Rightarrow> subsystem_ctl" where
  "end_change cb rc s =
     (log_cb cb rc (s\<lparr>ss_changing_state := False\<rparr>))\<lparr>ss_ctx := None, ss_iter := None\<rparr>"

definition state_change_revert_done ::
    "subsystem_state_change_ctx \<Rightarrow> subsystem_ctl \<Rightarrow> subsystem_ctl" where
  "state_change_revert_done cx s =
     (let (rc, st) = subsystem_set_state (cx_requested_state cx) (ss_state s)
      in end_change (cx_cb cx) (- 1) (s\<lparr>ss_state := st\<rparr>))"

definition state_change_done ::
    "int \<Rightarrow> subsystem_state_change_ctx \<Rightarrow> subsystem_ctl \<Rightarrow> subsystem_ctl" where
  "state_change_done status cx s =
     (let (status1, s1) =
            (if status = 0
             then let (rc, st) = subsystem_set_state (cx_requested_state cx) (ss_state s)
                  in (if rc \<noteq> 0 then - 1 else 0, s\<lparr>ss_state := st\<rparr>)
             else (status, s))
      in if status1 \<noteq> 0 then
           let (rc, st) = subsystem_set_state
                 (get_intermediate_state (cx_requested_state cx) (cx_original_state cx)) (ss_state s1)
           in if rc \<noteq> 0 then end_change (cx_cb cx) status1 (s1\<lparr>ss_state := st\<rparr>)
              else s1\<lparr>ss_state := st, ss_ctx := Some (cx\<lparr>cx_requested_state := cx_original_state cx\<rparr>),
                       ss_iter := Some RevertIter\<rparr>
         else end_change (cx_cb cx) 0 s1)"

text \<open>\<open>nvmf_subsystem_state_change\<close>; \<open>mem\<close>: the context can be allocated.\<close>

definition subsystem_state_change ::
    "bool \<Rightarrow> u32 \<Rightarrow> spdk_nvmf_subsystem_state \<Rightarrow> addr option \<Rightarrow> subsystem_ctl \<Rightarrow> int \<times> subsystem_ctl" where
  "subsystem_state_change mem nsid requested cb s =
     (if ss_changing_state s then (- 16, s)
      else if ss_state s = requested then (0, log_cb cb 0 s)
      else if \<not> mem then (- 12, s)
      else
        let (rc, st) = subsystem_set_state (get_intermediate_state (ss_state s) requested) (ss_state s)
        in if rc \<noteq> 0 then (rc, s\<lparr>ss_state := st\<rparr>)
           else (0, s\<lparr>ss_changing_state := True, ss_state := st, ss_iter := Some ForwardIter,
                      ss_ctx := Some \<lparr>cx_nsid = ucast nsid, cx_original_state = ss_state s,
                                      cx_requested_state = requested, cx_cb = cb\<rparr>\<rparr>))"

definition subsystem_start :: "bool \<Rightarrow> addr option \<Rightarrow> subsystem_ctl \<Rightarrow> int \<times> subsystem_ctl" where
  "subsystem_start mem cb = subsystem_state_change mem 0 SUBSYSTEM_ACTIVE cb"

definition subsystem_stop :: "bool \<Rightarrow> addr option \<Rightarrow> subsystem_ctl \<Rightarrow> int \<times> subsystem_ctl" where
  "subsystem_stop mem cb = subsystem_state_change mem 0 SUBSYSTEM_INACTIVE cb"

definition subsystem_pause :: "bool \<Rightarrow> u32 \<Rightarrow> addr option \<Rightarrow> subsystem_ctl \<Rightarrow> int \<times> subsystem_ctl" where
  "subsystem_pause mem nsid cb = subsystem_state_change mem nsid SUBSYSTEM_PAUSED cb"

definition subsystem_resume :: "bool \<Rightarrow> addr option \<Rightarrow> subsystem_ctl \<Rightarrow> int \<times> subsystem_ctl" where
  "subsystem_resume mem cb = subsystem_state_change mem 0 SUBSYSTEM_ACTIVE cb"

section \<open>The change of state in one poll group\<close>

text \<open>What the environment of a poll group provides to the operations of \<open>Poll_Group\<close>.\<close>

record pg_env =
  env_mem :: bool
  env_mem_ctx :: bool
  env_mem_qpair :: "addr \<Rightarrow> bool"
  env_blocks :: "uuid \<Rightarrow> u64"
  env_chans :: "nat \<Rightarrow> addr option"
  env_outs :: "addr \<Rightarrow> exec_status"

text \<open>\<open>it\<close> is the iteration, the context of the callback \<open>subsystem_state_change_continue\<close>.
  A request for the active state is passed on only while activating or resuming.\<close>

definition state_change_on_pg ::
    "pg_env \<Rightarrow> spdk_nvmf_ns option list \<Rightarrow> addr \<Rightarrow> subsystem_state_change_ctx \<Rightarrow>
       spdk_nvmf_subsystem_state \<Rightarrow> spdk_nvmf_poll_group \<Rightarrow> fault + spdk_nvmf_poll_group" where
  "state_change_on_pg env nss it cx st pg =
     (case cx_requested_state cx of
        SUBSYSTEM_INACTIVE \<Rightarrow>
          poll_group_remove_subsystem (env_mem_ctx env) (env_mem_qpair env) (Some it) pg
      | SUBSYSTEM_ACTIVE \<Rightarrow>
          if st = SUBSYSTEM_ACTIVATING then
            bindR (poll_group_add_subsystem (env_mem env) (env_blocks env) (env_chans env) nss
                     (env_mem_ctx env) (env_mem_qpair env) (Some it) pg) (\<lambda>(_, pg'). Inr pg')
          else if st = SUBSYSTEM_RESUMING then
            poll_group_resume_subsystem (env_mem env) (env_blocks env) (env_chans env) nss
              (env_outs env) (Some it) pg
          else Inr pg
      | SUBSYSTEM_PAUSED \<Rightarrow> Inr (poll_group_pause_subsystem (ucast (cx_nsid cx)) (Some it) pg)
      | _ \<Rightarrow> Inr pg)"

section \<open>Steps\<close>

datatype ss_event =
    Start bool "addr option"
  | Stop bool "addr option"
  | PauseNs bool u32 "addr option"
  | ResumeAll bool "addr option"
  | IterDone int

fun ss_step :: "subsystem_ctl \<Rightarrow> ss_event \<Rightarrow> fault + subsystem_ctl" where
  "ss_step s (Start mem cb) = Inr (snd (subsystem_start mem cb s))"
| "ss_step s (Stop mem cb) = Inr (snd (subsystem_stop mem cb s))"
| "ss_step s (PauseNs mem nsid cb) = Inr (snd (subsystem_pause mem nsid cb s))"
| "ss_step s (ResumeAll mem cb) = Inr (snd (subsystem_resume mem cb s))"
| "ss_step s (IterDone status) =
     (case (ss_iter s, ss_ctx s) of
        (Some ForwardIter, Some cx) \<Rightarrow> Inr (state_change_done status cx s)
      | (Some RevertIter, Some cx) \<Rightarrow> Inr (state_change_revert_done cx s)
      | _ \<Rightarrow> Inl UseAfterFree)"

definition init_ctl :: subsystem_ctl where
  "init_ctl = \<lparr>ss_state = SUBSYSTEM_INACTIVE, ss_changing_state = False, ss_ctx = None,
     ss_iter = None, ss_log = []\<rparr>"

section \<open>The transitions\<close>

inductive transition :: "spdk_nvmf_subsystem_state \<Rightarrow> spdk_nvmf_subsystem_state \<Rightarrow> bool" where
  activate: "transition SUBSYSTEM_INACTIVE SUBSYSTEM_ACTIVATING"
| activated: "transition SUBSYSTEM_ACTIVATING SUBSYSTEM_ACTIVE"
| activation_failed: "transition SUBSYSTEM_ACTIVATING SUBSYSTEM_DEACTIVATING"
| pause: "transition SUBSYSTEM_ACTIVE SUBSYSTEM_PAUSING"
| paused: "transition SUBSYSTEM_PAUSING SUBSYSTEM_PAUSED"
| resume: "transition SUBSYSTEM_PAUSED SUBSYSTEM_RESUMING"
| resumed: "transition SUBSYSTEM_RESUMING SUBSYSTEM_ACTIVE"
| resume_failed: "transition SUBSYSTEM_RESUMING SUBSYSTEM_PAUSING"
| deactivate: "transition SUBSYSTEM_ACTIVE SUBSYSTEM_DEACTIVATING"
| deactivate_paused: "transition SUBSYSTEM_PAUSED SUBSYSTEM_DEACTIVATING"
| deactivated: "transition SUBSYSTEM_DEACTIVATING SUBSYSTEM_INACTIVE"

inductive_simps transition_iff [simp]: "transition a b"

lemma set_state_transition:
  "fst (subsystem_set_state st cur) = 0 \<longleftrightarrow> transition cur st"
  "snd (subsystem_set_state st cur) = (if transition cur st then st else cur)"
  by (cases st; cases cur; simp add: subsystem_set_state_def expected_old_state_def compare_exchange_def)+

lemma set_state_if:
  "transition cur st \<Longrightarrow> subsystem_set_state st cur = (0, st)"
  "\<not> transition cur st \<Longrightarrow> \<exists>rc. rc \<noteq> 0 \<and> subsystem_set_state st cur = (rc, cur)"
  using set_state_transition [of st cur] by (cases "subsystem_set_state st cur"; auto)+

end
