(* ===== verification/Subsys_State_Props.thy ===== *)
theory Subsys_State_Props
  imports Subsys_State
begin

text \<open>
  What the state machine of a subsystem guarantees: which changes of state exist, that a
  change under way can always be ended, what a caller of start, stop, pause and resume gets,
  and the failures from which there is no way back.
\<close>

section \<open>The invariant\<close>

definition settled_states :: "spdk_nvmf_subsystem_state set" where
  "settled_states = {SUBSYSTEM_INACTIVE, SUBSYSTEM_ACTIVE, SUBSYSTEM_PAUSED}"

definition stuck :: "subsystem_ctl \<Rightarrow> bool" where
  "stuck s \<longleftrightarrow> \<not> ss_changing_state s \<and> ss_ctx s = None \<and> ss_iter s = None \<and>
     (ss_state s = SUBSYSTEM_PAUSING \<or> ss_state s = SUBSYSTEM_DEACTIVATING)"

definition ctl_ok :: "subsystem_ctl \<Rightarrow> bool" where
  "ctl_ok s \<longleftrightarrow> (case ss_ctx s of
      None \<Rightarrow> \<not> ss_changing_state s \<and> ss_iter s = None \<and> (ss_state s \<in> settled_states \<or> stuck s)
    | Some cx \<Rightarrow> ss_changing_state s \<and> ss_iter s \<noteq> None \<and> ss_state s \<notin> settled_states \<and>
        transition (ss_state s) (cx_requested_state cx) \<and> cx_requested_state cx \<in> settled_states \<and>
        (ss_iter s = Some ForwardIter \<longrightarrow> cx_original_state cx \<in> settled_states \<and>
           transition (cx_original_state cx) (ss_state s)))"

lemma ctl_ok_init: "ctl_ok init_ctl"
  by (simp add: ctl_ok_def init_ctl_def settled_states_def)

lemma log_cb_parts [simp]:
  "ss_state (log_cb cb rc s) = ss_state s" "ss_changing_state (log_cb cb rc s) = ss_changing_state s"
  "ss_ctx (log_cb cb rc s) = ss_ctx s" "ss_iter (log_cb cb rc s) = ss_iter s"
  by (simp_all add: log_cb_def split: option.splits)

lemma end_change_parts [simp]:
  "ss_state (end_change cb rc s) = ss_state s" "\<not> ss_changing_state (end_change cb rc s)"
  "ss_ctx (end_change cb rc s) = None" "ss_iter (end_change cb rc s) = None"
  "ss_log (end_change cb rc s) = ss_log (log_cb cb rc s)"
  by (simp_all add: end_change_def log_cb_def split: option.splits)

lemma ctl_ok_log: "ctl_ok (log_cb cb rc s) \<longleftrightarrow> ctl_ok s"
  by (simp add: ctl_ok_def stuck_def split: option.splits)

text \<open>A request is refused, served at once, or starts an iteration.\<close>

lemma state_change_cases:
  assumes "subsystem_state_change mem nsid req cb s = (rc, s')"
  shows "(s' = s \<and> rc \<noteq> 0) \<or> (s' = log_cb cb 0 s \<and> rc = 0 \<and> ss_state s = req \<and> \<not> ss_changing_state s) \<or>
    (rc = 0 \<and> \<not> ss_changing_state s \<and> ss_state s \<noteq> req \<and>
     transition (ss_state s) (get_intermediate_state (ss_state s) req) \<and>
     s' = s\<lparr>ss_changing_state := True, ss_state := get_intermediate_state (ss_state s) req,
            ss_iter := Some ForwardIter,
            ss_ctx := Some \<lparr>cx_nsid = ucast nsid, cx_original_state = ss_state s,
                            cx_requested_state = req, cx_cb = cb\<rparr>\<rparr>)"
  using assms set_state_if [of "ss_state s" "get_intermediate_state (ss_state s) req"]
  by (cases "transition (ss_state s) (get_intermediate_state (ss_state s) req)")
    (auto simp: subsystem_state_change_def simp del: transition_iff split: if_splits)

lemma idle_state: "ctl_ok s \<Longrightarrow> \<not> ss_changing_state s \<Longrightarrow>
    ss_state s \<noteq> SUBSYSTEM_ACTIVATING \<and> ss_state s \<noteq> SUBSYSTEM_RESUMING"
  by (auto simp: ctl_ok_def settled_states_def stuck_def split: option.splits)

lemma intermediate_transition:
  assumes "req \<in> settled_states" "st \<noteq> SUBSYSTEM_ACTIVATING \<and> st \<noteq> SUBSYSTEM_RESUMING" "st \<noteq> req" "transition st (get_intermediate_state st req)"
  shows "st \<in> settled_states \<and> get_intermediate_state st req \<notin> settled_states \<and>
    transition (get_intermediate_state st req) req"
  using assms by (cases st; cases req)
    (simp_all add: get_intermediate_state_def settled_states_def)

lemma state_change_ok:
  assumes "ctl_ok s" and "req \<in> settled_states"
    and "subsystem_state_change mem nsid req cb s = (rc, s')"
  shows "ctl_ok s'"
  using state_change_cases [OF assms(3)]
proof (elim disjE conjE)
  assume t: "transition (ss_state s) (get_intermediate_state (ss_state s) req)" "ss_state s \<noteq> req"
    and idle: "\<not> ss_changing_state s"
    and s': "s' = s\<lparr>ss_changing_state := True, ss_state := get_intermediate_state (ss_state s) req,
            ss_iter := Some ForwardIter,
            ss_ctx := Some \<lparr>cx_nsid = ucast nsid, cx_original_state = ss_state s,
                            cx_requested_state = req, cx_cb = cb\<rparr>\<rparr>"
  from intermediate_transition [OF assms(2) idle_state [OF assms(1) idle] t(2,1)] t assms(2) s'
  show ?thesis by (simp add: ctl_ok_def del: transition_iff)
qed (use assms(1) in \<open>simp_all add: ctl_ok_log\<close>)

text \<open>The end of the first iteration: the change is done, rolled back, or given up.\<close>

lemma state_change_done_simps:
  assumes "transition (ss_state s) (cx_requested_state cx)"
  shows "state_change_done 0 cx s = end_change (cx_cb cx) 0 (s\<lparr>ss_state := cx_requested_state cx\<rparr>)"
    and "status \<noteq> 0 \<Longrightarrow> state_change_done status cx s =
      (let i = get_intermediate_state (cx_requested_state cx) (cx_original_state cx)
       in if transition (ss_state s) i
          then s\<lparr>ss_state := i, ss_ctx := Some (cx\<lparr>cx_requested_state := cx_original_state cx\<rparr>),
                 ss_iter := Some RevertIter\<rparr>
          else end_change (cx_cb cx) status s)"
proof -
  show "state_change_done 0 cx s = end_change (cx_cb cx) 0 (s\<lparr>ss_state := cx_requested_state cx\<rparr>)"
    by (simp add: state_change_done_def set_state_if(1) [OF assms] Let_def)
next
  let ?i = "get_intermediate_state (cx_requested_state cx) (cx_original_state cx)"
  assume n: "status \<noteq> 0"
  show "state_change_done status cx s = (let i = ?i
       in if transition (ss_state s) i
          then s\<lparr>ss_state := i, ss_ctx := Some (cx\<lparr>cx_requested_state := cx_original_state cx\<rparr>),
                 ss_iter := Some RevertIter\<rparr>
          else end_change (cx_cb cx) status s)"
  proof (cases "transition (ss_state s) ?i")
    case True
    with n set_state_if(1) [OF True] show ?thesis
      by (simp add: state_change_done_def Let_def del: transition_iff)
  next
    case False
    with set_state_if(2) [OF False] obtain rc
      where "rc \<noteq> 0" "subsystem_set_state ?i (ss_state s) = (rc, ss_state s)" by blast
    with n False show ?thesis
      by (simp add: state_change_done_def Let_def end_change_def log_cb_def del: transition_iff
          split: option.splits)
  qed
qed

lemma state_change_done_ok:
  assumes "ctl_ok s" and c: "ss_ctx s = Some cx" and i: "ss_iter s = Some ForwardIter"
  shows "ctl_ok (state_change_done status cx s)"
proof -
  from assms have t: "transition (ss_state s) (cx_requested_state cx)" "transition (cx_original_state cx) (ss_state s)"
    and r: "cx_requested_state cx \<in> settled_states" "cx_original_state cx \<in> settled_states"
      "ss_state s \<notin> settled_states" "ss_changing_state s"
    by (simp_all add: ctl_ok_def del: transition_iff)
  show ?thesis
  proof (cases "status = 0")
    case True
    then show ?thesis
      using t r by (simp add: state_change_done_simps(1) ctl_ok_def del: transition_iff)
  next
    case False
    show ?thesis
      using t r unfolding state_change_done_simps(2) [OF t(1) False] Let_def
      by (cases "cx_requested_state cx"; cases "cx_original_state cx")
        (auto simp: ctl_ok_def get_intermediate_state_def settled_states_def stuck_def split: if_splits)
  qed
qed

lemma state_change_revert_done_eq:
  assumes "transition (ss_state s) (cx_requested_state cx)"
  shows "state_change_revert_done cx s =
    end_change (cx_cb cx) (- 1) (s\<lparr>ss_state := cx_requested_state cx\<rparr>)"
  by (simp add: state_change_revert_done_def set_state_if(1) [OF assms])

lemma ss_step_ok:
  assumes ok: "ctl_ok s" and st: "ss_step s e = Inr s'"
  shows "ctl_ok s'"
proof -
  have sc: "ctl_ok (snd (subsystem_state_change mem nsid req cb s))" if "req \<in> settled_states"
    for mem nsid req cb
    using state_change_ok [OF ok that] by (metis prod.collapse)
  show ?thesis
  proof (cases e)
    case (IterDone status)
    with st obtain it cx where ic: "ss_iter s = Some it" "ss_ctx s = Some cx"
      by (auto split: option.splits iteration.splits)
    then have t: "transition (ss_state s) (cx_requested_state cx)" "cx_requested_state cx \<in> settled_states"
      using ok by (simp_all add: ctl_ok_def del: transition_iff)
    show ?thesis
    proof (cases it)
      case ForwardIter
      then show ?thesis using st ic IterDone state_change_done_ok [OF ok] by auto
    next
      case RevertIter
      then show ?thesis
        using st ic IterDone t by (auto simp: state_change_revert_done_eq ctl_ok_def simp del: transition_iff)
    qed
  qed (use st in \<open>auto simp: subsystem_start_def subsystem_stop_def subsystem_pause_def
        subsystem_resume_def settled_states_def intro!: sc\<close>)
qed

interpretation subsys: stepper ss_step ctl_ok
  by unfold_locales (rule ss_step_ok)

section \<open>Which changes exist\<close>

text \<open>\<open>nvmf_subsystem_set_state\<close>, with its two compare-and-exchange attempts, is exactly the
  transition relation of the subsystem's state machine: it returns 0 if and only if the
  transition from the current state exists, and then moves to the new state; otherwise it
  leaves the state unchanged.\<close>

theorem set_state_is_transition:
  "(fst (subsystem_set_state st cur) = 0 \<longleftrightarrow> transition cur st) \<and>
   snd (subsystem_set_state st cur) = (if transition cur st then st else cur)"
  by (simp only: set_state_transition)

text \<open>C37. After any sequence of requests to start, stop, pause and resume a subsystem, and ends of
  the iterations with any status: a change is under way exactly if the lock is held, the
  state is then an intermediate one from which the requested state is reachable in one
  transition, so every iteration that ends is answered; and otherwise the subsystem is
  inactive, active or paused, or stuck in PAUSING or DEACTIVATING. While the poll groups are
  asked for the active state, the subsystem is ACTIVATING or RESUMING, so that each group is
  told to add or to resume the subsystem, and the iteration goes on.\<close>

theorem state_change_invariant:
  assumes "runR ss_step init_ctl es = Inr s"
  shows "(case ss_ctx s of
      None \<Rightarrow> \<not> ss_changing_state s \<and> ss_iter s = None \<and> (ss_state s \<in> settled_states \<or> stuck s)
    | Some cx \<Rightarrow> ss_changing_state s \<and> ss_state s \<notin> settled_states \<and>
        transition (ss_state s) (cx_requested_state cx) \<and>
        (cx_requested_state cx = SUBSYSTEM_ACTIVE \<longrightarrow>
           ss_state s = SUBSYSTEM_ACTIVATING \<or> ss_state s = SUBSYSTEM_RESUMING) \<and>
        (\<forall>status. \<exists>s'. ss_step s (IterDone status) = Inr s'))"
proof -
  have "ctl_ok s" by (rule subsys.run_inv [OF ctl_ok_init assms])
  then show ?thesis
    by (auto simp: ctl_ok_def split: option.splits iteration.splits)
qed

text \<open>C38. What a caller gets whose request to change the state is accepted: if every poll group
  succeeds, the subsystem is in the requested state and the callback gets 0; if one fails
  and the request was to start or resume, the change is rolled back over all poll groups,
  whatever those answer, the subsystem is back in its original state and the callback gets
  -1; if one fails and the request was to pause or stop, the callback gets the status and
  the subsystem is stuck.\<close>

theorem state_change_outcome:
  assumes "runR ss_step init_ctl es = Inr s" and "req \<in> settled_states" and "ss_state s \<noteq> req"
    and "subsystem_state_change mem nsid req (Some cb) s = (0, s1)"
  shows "(\<exists>s2. ss_step s1 (IterDone 0) = Inr s2 \<and> ss_state s2 = req \<and>
      \<not> ss_changing_state s2 \<and> ss_log s2 = ss_log s @ [(cb, 0)]) \<and>
    (status \<noteq> 0 \<longrightarrow> (\<exists>s2. ss_step s1 (IterDone status) = Inr s2 \<and>
      (if req = SUBSYSTEM_ACTIVE
       then \<exists>s3. ss_step s2 (IterDone status') = Inr s3 \<and> ss_state s3 = ss_state s \<and>
              \<not> ss_changing_state s3 \<and> ss_log s3 = ss_log s @ [(cb, - 1)]
       else stuck s2 \<and> ss_log s2 = ss_log s @ [(cb, status)])))"
proof -
  have ok: "ctl_ok s" by (rule subsys.run_inv [OF ctl_ok_init assms(1)])
  let ?i = "get_intermediate_state (ss_state s) req"
  let ?cx = "\<lparr>cx_nsid = ucast nsid, cx_original_state = ss_state s, cx_requested_state = req, cx_cb = Some cb\<rparr>"
  from state_change_cases [OF assms(4)] assms(3) have tr: "transition (ss_state s) ?i"
    and idle: "\<not> ss_changing_state s"
    and s1: "s1 = s\<lparr>ss_changing_state := True, ss_state := ?i, ss_iter := Some ForwardIter, ss_ctx := Some ?cx\<rparr>"
    by (auto simp del: transition_iff)
  have tr2: "transition ?i req" using intermediate_transition [OF assms(2) idle_state [OF ok idle] assms(3) tr] by blast
  then have t1: "transition (ss_state s1) (cx_requested_state ?cx)" by (simp add: s1 del: transition_iff)
  have d0: "ss_step s1 (IterDone 0) = Inr (end_change (Some cb) 0 (s1\<lparr>ss_state := req\<rparr>))"
    by (simp add: s1) (simp add: state_change_done_simps(1) [OF t1, unfolded s1])
  have d1: "ss_step s1 (IterDone status) = Inr (state_change_done status ?cx s1)"
    by (simp add: s1)
  let ?j = "get_intermediate_state req (ss_state s)"
  have j: "(transition ?i ?j \<longleftrightarrow> req = SUBSYSTEM_ACTIVE) \<and> (req = SUBSYSTEM_ACTIVE \<longrightarrow> transition ?j (ss_state s)) \<and>
      (req \<noteq> SUBSYSTEM_ACTIVE \<longrightarrow> ?i \<in> {SUBSYSTEM_PAUSING, SUBSYSTEM_DEACTIVATING})"
    using assms(2,3) tr tr2 by (cases req; cases "ss_state s")
      (simp_all add: get_intermediate_state_def settled_states_def)
  have "\<exists>s2. ss_step s1 (IterDone status) = Inr s2 \<and> (if req = SUBSYSTEM_ACTIVE
       then \<exists>s3. ss_step s2 (IterDone status') = Inr s3 \<and> ss_state s3 = ss_state s \<and>
              \<not> ss_changing_state s3 \<and> ss_log s3 = ss_log s @ [(cb, - 1)]
       else stuck s2 \<and> ss_log s2 = ss_log s @ [(cb, status)])" if n: "status \<noteq> 0"
  proof (cases "req = SUBSYSTEM_ACTIVE")
    case True
    with j have "transition ?j (ss_state s)" "transition ?i ?j" by blast+
    then show ?thesis
      using state_change_done_simps(2) [OF t1 n] True d1
      by (simp add: Let_def s1 state_change_revert_done_eq log_cb_def del: transition_iff)
  next
    case False
    with j have "\<not> transition ?i ?j" "?i \<in> {SUBSYSTEM_PAUSING, SUBSYSTEM_DEACTIVATING}" by blast+
    then show ?thesis
      using state_change_done_simps(2) [OF t1 n] False d1
      by (simp add: Let_def s1 stuck_def log_cb_def del: transition_iff)
  qed
  moreover have "\<exists>s2. ss_step s1 (IterDone 0) = Inr s2 \<and> ss_state s2 = req \<and>
      \<not> ss_changing_state s2 \<and> ss_log s2 = ss_log s @ [(cb, 0)]"
    unfolding d0 by (simp add: s1 log_cb_def)
  ultimately show ?thesis by blast
qed

text \<open>A subsystem that failed to pause or to stop never leaves PAUSING or DEACTIVATING again:
  every later request to start, stop, pause or resume it is refused, and no callback is
  made.\<close>

theorem failed_stop_or_pause_is_final:
  assumes "stuck s" and "runR ss_step s es = Inr t"
  shows "t = s \<and> fst (subsystem_start mem cb t) \<noteq> 0 \<and> fst (subsystem_stop mem cb t) \<noteq> 0 \<and>
    fst (subsystem_pause mem nsid cb t) \<noteq> 0 \<and> fst (subsystem_resume mem cb t) \<noteq> 0"
proof -
  have r: "fst (subsystem_state_change mem nsid req cb s) \<noteq> 0 \<and>
      snd (subsystem_state_change mem nsid req cb s) = s"
    if "req \<in> settled_states" for mem nsid req cb
  proof -
    have "\<not> transition (ss_state s) (get_intermediate_state (ss_state s) req)" "ss_state s \<noteq> req"
      using assms(1) that by (auto simp: stuck_def settled_states_def get_intermediate_state_def)
    then show ?thesis
      using state_change_cases [of mem nsid req cb s] by (metis prod.collapse)
  qed
  note ops = subsystem_start_def subsystem_stop_def subsystem_pause_def subsystem_resume_def
  have step: "u = s" if "ss_step s e = Inr u" for e u
    using that assms(1) r by (cases e) (auto simp: ops settled_states_def stuck_def)
  have "t = s" using assms(2)
    by (induction es) (auto simp: bindR_eq_Inr dest: step)
  then show ?thesis using r by (simp add: ops settled_states_def)
qed

section \<open>Pausing every namespace\<close>

text \<open>A request to pause a subsystem with all its namespaces (the global namespace tag) pauses
  none of them: the 32-bit namespace id is stored in a 16-bit field of the context, and what
  the poll groups get is namespace 0xFFFF. In a poll group of an active subsystem with fewer
  namespaces than that, the namespaces stay as they are, and without Fabrics or admin
  requests in flight the pause is reported at once, whatever I/O is outstanding.\<close>

theorem pause_all_pauses_no_namespace:
  assumes "subsystem_pause True GLOBAL_NS_TAG cb s = (0, s1)"
    and "ss_ctx s1 = Some cx" and "ss_state s = SUBSYSTEM_ACTIVE"
    and "sg_state (pg_sgroup pg) = SUBSYSTEM_ACTIVE" and "pg_subsystem_id pg < pg_num_sgroups pg"
    and "length (sg_ns_info (pg_sgroup pg)) < 0xFFFF"
    and "state_change_on_pg env nss it cx (ss_state s1) pg = Inr pg'"
  shows "sg_ns_info (pg_sgroup pg') = sg_ns_info (pg_sgroup pg) \<and>
    (sg_mgmt_io_outstanding (pg_sgroup pg) = 0 \<longrightarrow>
       sg_state (pg_sgroup pg') = SUBSYSTEM_PAUSED \<and> pg_done pg' = pg_done pg @ [(it, 0)])"
proof -
  have cx: "cx_requested_state cx = SUBSYSTEM_PAUSED" "cx_nsid cx = 0xFFFF"
    using assms(1-3) by (auto simp: subsystem_pause_def subsystem_state_change_def Let_def
        set_state_if get_intermediate_state_def log_cb_def split: if_splits prod.splits)
  have p: "pg' = poll_group_pause_subsystem 0xFFFF (Some it) pg"
    using assms(7) cx by (simp add: state_change_on_pg_def)
  have n: "\<not> unat ((0xFFFF :: u32) - 1) < length (sg_ns_info (pg_sgroup pg))"
    using assms(6) by simp
  then have m: "mark_pausing 0xFFFF ((pg_sgroup pg)\<lparr>sg_state := SUBSYSTEM_PAUSING\<rparr>) =
      (pg_sgroup pg)\<lparr>sg_state := SUBSYSTEM_PAUSING\<rparr>"
    by (simp add: mark_pausing_def)
  show ?thesis
    unfolding p using n assms(4,5)
    by (auto simp: poll_group_pause_subsystem_def Let_def m call_back_def word_gt_0)
qed

section \<open>Witnesses\<close>

definition demo_active :: subsystem_ctl where
  "demo_active = (case runR ss_step init_ctl [Start True (Some 5), IterDone 0] of
     Inr s \<Rightarrow> s | Inl _ \<Rightarrow> init_ctl)"

lemma demo_active_run: "runR ss_step init_ctl [Start True (Some 5), IterDone 0] = Inr demo_active"
  by code_simp

theorem state_change_invariant_witness:
  "case ss_ctx demo_active of None \<Rightarrow> \<not> ss_changing_state demo_active | Some _ \<Rightarrow> True"
  using state_change_invariant [OF demo_active_run] by (auto split: option.splits)

definition demo_pausing_ctl :: subsystem_ctl where
  "demo_pausing_ctl = snd (subsystem_state_change True 1 SUBSYSTEM_PAUSED (Some 6) demo_active)"

theorem state_change_outcome_witness:
  "\<exists>s2. ss_step demo_pausing_ctl (IterDone (- 12)) = Inr s2 \<and> stuck s2 \<and>
     ss_log s2 = ss_log demo_active @ [(6, - 12)]"
proof -
  have "SUBSYSTEM_PAUSED \<in> settled_states" by (simp add: settled_states_def)
  moreover have "ss_state demo_active \<noteq> SUBSYSTEM_PAUSED" by code_simp
  moreover have "subsystem_state_change True 1 SUBSYSTEM_PAUSED (Some 6) demo_active = (0, demo_pausing_ctl)"
    by code_simp
  ultimately show ?thesis
    using state_change_outcome [OF demo_active_run, where status = "- 12"] by fastforce
qed

definition demo_stuck :: subsystem_ctl where
  "demo_stuck = (case ss_step demo_pausing_ctl (IterDone (- 12)) of Inr s \<Rightarrow> s | Inl _ \<Rightarrow> init_ctl)"

theorem failed_stop_or_pause_is_final_witness:
  "fst (subsystem_resume True (Some 9) demo_stuck) \<noteq> 0"
proof -
  have "stuck demo_stuck" by (unfold stuck_def) code_simp
  moreover have "runR ss_step demo_stuck [ResumeAll True None, Stop True None] = Inr demo_stuck"
    by code_simp
  ultimately show ?thesis using failed_stop_or_pause_is_final by blast
qed

theorem pause_all_pauses_no_namespace_witness:
  "let pg' = poll_group_pause_subsystem 0xFFFF (Some 77) (demo_at (demo_connect @
       [Exec (demo_req 11 2 1) EXEC_ASYNCHRONOUS])) in
     sg_state (pg_sgroup pg') = SUBSYSTEM_PAUSED \<and>
     pgn_io_outstanding (hd (sg_ns_info (pg_sgroup pg'))) = 1"
proof -
  let ?pg = "demo_at (demo_connect @ [Exec (demo_req 11 2 1) EXEC_ASYNCHRONOUS])"
  let ?s1 = "snd (subsystem_pause True GLOBAL_NS_TAG (Some 6) demo_active)"
  let ?cx = "\<lparr>cx_nsid = 0xFFFF, cx_original_state = SUBSYSTEM_ACTIVE,
      cx_requested_state = SUBSYSTEM_PAUSED, cx_cb = Some 6\<rparr>"
  have a: "subsystem_pause True GLOBAL_NS_TAG (Some 6) demo_active = (0, ?s1)" "ss_ctx ?s1 = Some ?cx"
      "ss_state demo_active = SUBSYSTEM_ACTIVE"
    by code_simp+
  have b: "sg_state (pg_sgroup ?pg) = SUBSYSTEM_ACTIVE" "pg_subsystem_id ?pg < pg_num_sgroups ?pg"
      "sg_mgmt_io_outstanding (pg_sgroup ?pg) = 0"
    by code_simp+
  have l: "map pgn_io_outstanding (sg_ns_info (pg_sgroup ?pg)) = [1, 0]" by code_simp
  then have len: "length (sg_ns_info (pg_sgroup ?pg)) = 2" by (metis length_map length_Cons list.size(3) numeral_2_eq_2)
  have "state_change_on_pg env [] 77 ?cx (ss_state ?s1) ?pg =
      Inr (poll_group_pause_subsystem 0xFFFF (Some 77) ?pg)" for env
    by (simp add: state_change_on_pg_def)
  from pause_all_pauses_no_namespace [OF a b(1,2) _ this] b(3) len
  have "sg_ns_info (pg_sgroup (poll_group_pause_subsystem 0xFFFF (Some 77) ?pg)) = sg_ns_info (pg_sgroup ?pg)"
    "sg_state (pg_sgroup (poll_group_pause_subsystem 0xFFFF (Some 77) ?pg)) = SUBSYSTEM_PAUSED"
    by simp_all
  with l show ?thesis by (cases "sg_ns_info (pg_sgroup ?pg)") auto
qed

end
