(* ===== verification/Nqn.thy ===== *)
theory Nqn
  imports Prelude
begin

text \<open>
  NVMe qualified names (\<open>nvmf_valid_nqn\<close> and \<open>nvmf_valid_ascii_string\<close> of
  \<^verbatim>\<open>src/nvmf/subsystem.c\<close>).

  A name is the list of its characters without the terminating NUL; reading the position
  just behind the last character gives NUL. \<open>utf8\<close> stands for \<open>utf8_valid\<close>, the number of
  bytes of the first character of the rest of the name (not positive when that is no UTF-8),
  \<open>parse\<close> for \<open>spdk_uuid_parse\<close>. The character classes are those of the C locale. The
  reverse domain is scanned by a state machine whose state is the kind of character that may
  come next; \<open>domain_ok\<close> is the grammar it accepts.
\<close>

section \<open>Characters\<close>

definition isdigit :: "char \<Rightarrow> bool" where
  "isdigit c \<longleftrightarrow> 48 \<le> (of_char c :: nat) \<and> (of_char c :: nat) \<le> 57"

definition isalpha :: "char \<Rightarrow> bool" where
  "isalpha c \<longleftrightarrow> (65 \<le> (of_char c :: nat) \<and> (of_char c :: nat) \<le> 90) \<or>
     (97 \<le> (of_char c :: nat) \<and> (of_char c :: nat) \<le> 122)"

definition valid_ascii_string :: "string \<Rightarrow> bool" where
  "valid_ascii_string s = list_all (\<lambda>c. 0x20 \<le> (of_char c :: nat) \<and> (of_char c :: nat) \<le> 0x7E) s"

definition char_at :: "string \<Rightarrow> nat \<Rightarrow> char" where
  "char_at s i = (if i < length s then s ! i else CHR 0x00)"

section \<open>The name\<close>

abbreviation NQN_MAX_LEN :: nat where "NQN_MAX_LEN \<equiv> 223"
abbreviation NQN_MIN_LEN :: nat where "NQN_MIN_LEN \<equiv> 11"
abbreviation DOMAIN_LABEL_MAX_LEN :: nat where "DOMAIN_LABEL_MAX_LEN \<equiv> 63"
abbreviation NQN_UUID_PRE :: string where "NQN_UUID_PRE \<equiv> ''nqn.2014-08.org.nvmexpress:uuid:''"
abbreviation UUID_STRING_LEN :: nat where "UUID_STRING_LEN \<equiv> 36"
abbreviation DISCOVERY_NQN :: string where "DISCOVERY_NQN \<equiv> ''nqn.2014-08.org.nvmexpress.discovery''"

datatype domain_state = ACCEPT_LETTER | ACCEPT_LDH | ACCEPT_ANY

text \<open>The loop over the reverse domain; \<open>n\<close> is the length of the label so far.\<close>

fun scan_domain :: "domain_state \<Rightarrow> nat \<Rightarrow> string \<Rightarrow> bool" where
  "scan_domain st n [] = True"
| "scan_domain st n (c # cs) =
     (if n > DOMAIN_LABEL_MAX_LEN then False
      else case st of
        ACCEPT_LETTER \<Rightarrow> if isalpha c then scan_domain ACCEPT_ANY (n + 1) cs else False
      | ACCEPT_LDH \<Rightarrow>
          if isalpha c \<or> isdigit c then scan_domain ACCEPT_ANY (n + 1) cs
          else if c = CHR ''-'' then (if cs = [] then False else scan_domain ACCEPT_LDH (n + 1) cs)
          else False
      | ACCEPT_ANY \<Rightarrow>
          if isalpha c \<or> isdigit c then scan_domain ACCEPT_ANY (n + 1) cs
          else if c = CHR ''-'' then (if cs = [] then False else scan_domain ACCEPT_LDH (n + 1) cs)
          else if c = CHR ''.'' then scan_domain ACCEPT_LETTER 0 cs
          else False)"

function scan_utf8 :: "(string \<Rightarrow> int) \<Rightarrow> string \<Rightarrow> bool" where
  "scan_utf8 utf8 s =
     (if s = [] then True
      else let n = utf8 s in if n \<le> 0 then False else scan_utf8 utf8 (drop (nat n) s))"
  by pat_completeness auto
termination by (relation "measure (\<lambda>(_, s). length s)") auto

declare scan_utf8.simps [simp del]

definition date_code_ok :: "string \<Rightarrow> bool" where
  "date_code_ok nqn \<longleftrightarrow>
     isdigit (char_at nqn 4) \<and> isdigit (char_at nqn 5) \<and> isdigit (char_at nqn 6) \<and>
     isdigit (char_at nqn 7) \<and> char_at nqn 8 = CHR ''-'' \<and> isdigit (char_at nqn 9) \<and>
     isdigit (char_at nqn 10) \<and> char_at nqn 11 = CHR ''.''"

definition valid_nqn :: "(string \<Rightarrow> int) \<Rightarrow> (string \<Rightarrow> uuid option) \<Rightarrow> string \<Rightarrow> bool" where
  "valid_nqn utf8 parse nqn =
     (let len = length nqn in
      if len > NQN_MAX_LEN then False
      else if len < NQN_MIN_LEN then False
      else if nqn = DISCOVERY_NQN then True
      else if take (length NQN_UUID_PRE) nqn = NQN_UUID_PRE then
        (if len \<noteq> length NQN_UUID_PRE + UUID_STRING_LEN then False
         else parse (drop (length NQN_UUID_PRE) nqn) \<noteq> None)
      else if take 4 nqn \<noteq> ''nqn.'' then False
      else if \<not> date_code_ok nqn then False
      else
        let end = length (takeWhile (\<lambda>c. c \<noteq> CHR '':'') nqn)
        in if \<not> (end < len \<and> end < len - 1) then False
           else if \<not> scan_domain ACCEPT_LETTER 0 (drop 12 (take end nqn)) then False
           else scan_utf8 utf8 (drop (end + 1) nqn))"

section \<open>The grammar of the reverse domain\<close>

text \<open>A label starts with a letter, ends with a letter or digit and holds letters, digits and
  hyphens.\<close>

definition label_ok :: "nat \<Rightarrow> string \<Rightarrow> bool" where
  "label_ok mx l \<longleftrightarrow> l \<noteq> [] \<and> isalpha (hd l) \<and>
     list_all (\<lambda>c. isalpha c \<or> isdigit c \<or> c = CHR ''-'') l \<and>
     (isalpha (last l) \<or> isdigit (last l)) \<and> length l \<le> mx"

text \<open>The labels of a domain, separated by dots.\<close>

fun labels :: "string \<Rightarrow> string list" where
  "labels [] = [[]]"
| "labels (c # cs) =
     (if c = CHR ''.'' then [] # labels cs
      else (c # hd (labels cs)) # tl (labels cs))"

text \<open>What the scanner accepts: all labels but the last have at most 63 characters; the last
  one may have 64, or be empty.\<close>

definition domain_ok :: "string \<Rightarrow> bool" where
  "domain_ok d \<longleftrightarrow> list_all (label_ok DOMAIN_LABEL_MAX_LEN) (butlast (labels d)) \<and>
     (last (labels d) = [] \<or> label_ok (DOMAIN_LABEL_MAX_LEN + 1) (last (labels d)))"

lemma char_classes [simp]:
  "\<not> isalpha CHR ''.''" "\<not> isdigit CHR ''.''" "\<not> isalpha CHR ''-''" "\<not> isdigit CHR ''-''"
  by (simp_all add: isalpha_def isdigit_def)

lemma labels_ne [simp]: "labels s \<noteq> []"
  by (cases s) auto

lemma domain_ok_Nil [simp]: "domain_ok []"
  by (simp add: domain_ok_def)

text \<open>A part of a label in front of the rest of the domain goes to the first label.\<close>

lemma labels_prefix:
  "CHR ''.'' \<notin> set p \<Longrightarrow> labels (p @ s) = (p @ hd (labels s)) # tl (labels s)"
  by (induction p) auto

lemma domain_ok_dot:
  assumes "CHR ''.'' \<notin> set p"
  shows "domain_ok (p @ CHR ''.'' # s) \<longleftrightarrow> label_ok DOMAIN_LABEL_MAX_LEN p \<and> domain_ok s"
  by (simp add: domain_ok_def labels_prefix [OF assms])

lemma domain_ok_label:
  assumes "CHR ''.'' \<notin> set p"
  shows "domain_ok p \<longleftrightarrow> p = [] \<or> label_ok (DOMAIN_LABEL_MAX_LEN + 1) p"
  using labels_prefix [OF assms, of "[]"] by (simp add: domain_ok_def)

text \<open>The part \<open>p\<close> of a label that has been read, in each state of the scanner.\<close>

definition read_part :: "domain_state \<Rightarrow> string \<Rightarrow> bool" where
  "read_part st p \<longleftrightarrow> (case st of
      ACCEPT_LETTER \<Rightarrow> p = []
    | ACCEPT_LDH \<Rightarrow> p \<noteq> [] \<and> isalpha (hd p) \<and> last p = CHR ''-''
    | ACCEPT_ANY \<Rightarrow> p \<noteq> [] \<and> isalpha (hd p) \<and> (isalpha (last p) \<or> isdigit (last p))) \<and>
    list_all (\<lambda>c. isalpha c \<or> isdigit c \<or> c = CHR ''-'') p"

lemma read_part_no_dot: "read_part st p \<Longrightarrow> CHR ''.'' \<notin> set p"
  by (auto simp: read_part_def list_all_iff)

lemma label_ok_split:
  assumes "domain_ok (p @ c # cs)" and "read_part st p"
  shows "length p \<le> DOMAIN_LABEL_MAX_LEN \<and> (c = CHR ''.'' \<or> isalpha c \<or> isdigit c \<or> c = CHR ''-'')"
proof (cases "c = CHR ''.''")
  case True
  with assms(1) have "label_ok DOMAIN_LABEL_MAX_LEN p"
    by (simp add: domain_ok_dot [OF read_part_no_dot [OF assms(2)]])
  with True show ?thesis by (simp add: label_ok_def)
next
  case False
  let ?l = "p @ c # hd (labels cs)"
  have l: "labels (p @ c # cs) = ?l # tl (labels cs)"
    using False labels_prefix [OF read_part_no_dot [OF assms(2)], of "c # cs"] by simp
  have "label_ok (DOMAIN_LABEL_MAX_LEN + 1) ?l"
    using assms(1) l by (cases "tl (labels cs)") (auto simp: domain_ok_def label_ok_def)
  then show ?thesis by (simp add: label_ok_def)
qed

lemma read_part_snoc:
  assumes "read_part st p"
  shows "isalpha c \<Longrightarrow> read_part ACCEPT_ANY (p @ [c])"
    and "isdigit c \<Longrightarrow> st \<noteq> ACCEPT_LETTER \<Longrightarrow> read_part ACCEPT_ANY (p @ [c])"
    and "st \<noteq> ACCEPT_LETTER \<Longrightarrow> read_part ACCEPT_LDH (p @ ''-'')"
  using assms by (auto simp: read_part_def hd_append split: domain_state.splits)

lemma scan_domain_grammar:
  assumes "read_part st p" and "length p \<le> DOMAIN_LABEL_MAX_LEN + 1"
    and "st = ACCEPT_LDH \<longrightarrow> s \<noteq> []"
  shows "scan_domain st (length p) s \<longleftrightarrow> domain_ok (p @ s)"
  using assms
proof (induction s arbitrary: st p)
  case Nil
  then show ?case
    by (cases st) (auto simp: domain_ok_label [OF read_part_no_dot [OF Nil(1)]] read_part_def label_ok_def)
next
  case (Cons c cs)
  note nd = read_part_no_dot [OF Cons.prems(1)]
  have letter: "\<not> domain_ok (c # cs)" if "\<not> isalpha c"
    using that domain_ok_dot [of "[]" cs] label_ok_split [of "[]" c cs ACCEPT_LETTER]
    by (cases "c = CHR ''.''") (auto simp: read_part_def label_ok_def domain_ok_def)
  have hyphen: "\<not> domain_ok (p @ ''-'')"
  proof -
    have "CHR ''.'' \<notin> set (p @ ''-'')" using nd by simp
    from domain_ok_label [OF this] show ?thesis by (simp add: label_ok_def)
  qed
  have dot: "domain_ok (p @ CHR ''.'' # cs) \<longleftrightarrow> st = ACCEPT_ANY \<and> domain_ok cs"
    if "length p \<le> DOMAIN_LABEL_MAX_LEN"
    unfolding domain_ok_dot [OF nd] using Cons.prems(1) that
    by (cases st) (auto simp: label_ok_def read_part_def)
  have nil: "read_part ACCEPT_LETTER []" by (simp add: read_part_def)
  show ?case
  proof (cases "length p > DOMAIN_LABEL_MAX_LEN")
    case True
    then show ?thesis using label_ok_split [OF _ Cons.prems(1), of c cs] by auto
  next
    case False
    then have n: "length (p @ [c]) \<le> DOMAIN_LABEL_MAX_LEN + 1" by simp
    have more: "scan_domain st' (length p + 1) cs \<longleftrightarrow> domain_ok (p @ c # cs)"
      if "read_part st' (p @ [c])" "st' = ACCEPT_LDH \<longrightarrow> cs \<noteq> []" for st'
      using Cons.IH [OF that(1) n that(2)] by simp
    consider "isalpha c" | "isdigit c" "\<not> isalpha c" | "c = CHR ''-''" | "c = CHR ''.''"
      | "\<not> isalpha c" "\<not> isdigit c" "c \<noteq> CHR ''-''" "c \<noteq> CHR ''.''" by blast
    then show ?thesis
    proof cases
      case 1
      with False more [OF read_part_snoc(1) [OF Cons.prems(1) 1]] show ?thesis
        by (cases st) auto
    next
      case 2
      show ?thesis
      proof (cases "st = ACCEPT_LETTER")
        case True
        with 2 letter Cons.prems(1) show ?thesis by (simp add: read_part_def)
      next
        case ne: False
        with 2 False more [OF read_part_snoc(2) [OF Cons.prems(1) 2(1) ne]] show ?thesis
          by (cases st) auto
      qed
    next
      case 3
      show ?thesis
      proof (cases "st = ACCEPT_LETTER")
        case True
        with 3 letter Cons.prems(1) show ?thesis by (simp add: read_part_def)
      next
        case ne: False
        have "cs \<noteq> [] \<Longrightarrow> scan_domain ACCEPT_LDH (length p + 1) cs \<longleftrightarrow> domain_ok (p @ c # cs)"
          using more [of ACCEPT_LDH] read_part_snoc(3) [OF Cons.prems(1) ne] 3 by simp
        with ne 3 False hyphen show ?thesis by (cases st; cases "cs = []") auto
      qed
    next
      case 4
      have "scan_domain ACCEPT_LETTER 0 cs \<longleftrightarrow> domain_ok cs"
        using Cons.IH [OF nil] by simp
      with 4 False dot show ?thesis by (cases st) auto
    next
      case 5
      have "\<not> domain_ok (p @ c # cs)" using label_ok_split [OF _ Cons.prems(1), of c cs] 5 by auto
      with 5 False show ?thesis by (cases st) auto
    qed
  qed
qed

section \<open>The grammar of a name\<close>

definition date_ok :: "string \<Rightarrow> bool" where
  "date_ok d \<longleftrightarrow> length d = 7 \<and> list_all isdigit (take 4 d) \<and> d ! 4 = CHR ''-'' \<and>
     list_all isdigit (drop 5 d)"

text \<open>\<open>nqn.yyyy-mm.reverse.domain:user-string\<close>\<close>

definition structured_nqn :: "(string \<Rightarrow> int) \<Rightarrow> string \<Rightarrow> bool" where
  "structured_nqn utf8 nqn \<longleftrightarrow> (\<exists>date dom user.
     nqn = ''nqn.'' @ date @ ''.'' @ dom @ '':'' @ user \<and> date_ok date \<and>
     CHR '':'' \<notin> set dom \<and> domain_ok dom \<and> user \<noteq> [] \<and> scan_utf8 utf8 user)"

lemma length_7: "length xs = 7 \<Longrightarrow> \<exists>a b c d e f g. xs = [a, b, c, d, e, f, g]"
  by (auto simp: eval_nat_numeral length_Suc_conv)

lemma length_ge_12: "12 \<le> length xs \<Longrightarrow>
    \<exists>a b c d e f g h i j k l ys. xs = a # b # c # d # e # f # g # h # i # j # k # l # ys"
  by (auto simp: eval_nat_numeral Suc_le_length_iff)

lemma nul_no_dot [simp]: "CHR 0x00 \<noteq> CHR ''.''"
  by simp

lemma date_head:
  "take 4 nqn = ''nqn.'' \<and> date_code_ok nqn \<longleftrightarrow>
     (\<exists>date rest. nqn = ''nqn.'' @ date @ ''.'' @ rest \<and> date_ok date)"
proof
  assume h: "take 4 nqn = ''nqn.'' \<and> date_code_ok nqn"
  then have "12 \<le> length nqn"
    by (auto simp: date_code_ok_def char_at_def split: if_splits)
  then obtain a b c d e f g h i j k l rest
    where n: "nqn = a # b # c # d # e # f # g # h # i # j # k # l # rest"
    by (drule_tac length_ge_12, elim exE) (rule that)
  with h have "nqn = ''nqn.'' @ [e, f, g, h, i, j, k] @ ''.'' @ rest" "date_ok [e, f, g, h, i, j, k]"
    by (simp_all add: date_code_ok_def char_at_def date_ok_def)
  then show "\<exists>date rest. nqn = ''nqn.'' @ date @ ''.'' @ rest \<and> date_ok date" by blast
next
  assume "\<exists>date rest. nqn = ''nqn.'' @ date @ ''.'' @ rest \<and> date_ok date"
  then obtain date rest where n: "nqn = ''nqn.'' @ date @ ''.'' @ rest" and d: "date_ok date" by blast
  from d obtain e f g h i j k where "date = [e, f, g, h, i, j, k]"
    using length_7 date_ok_def by blast
  with n d show "take 4 nqn = ''nqn.'' \<and> date_code_ok nqn"
    by (simp add: date_code_ok_def char_at_def date_ok_def)
qed

lemma isdigit_not_colon: "isdigit c \<Longrightarrow> c \<noteq> CHR '':''"
  by (auto simp: isdigit_def)

lemma date_no_colon:
  assumes "date_ok date" shows "CHR '':'' \<notin> set date"
proof -
  from assms obtain a b c d e f g where "date = [a, b, c, d, e, f, g]"
    using length_7 date_ok_def by blast
  with assms show ?thesis by (auto simp: date_ok_def dest: isdigit_not_colon)
qed

lemma first_in_append: "c \<notin> set h \<Longrightarrow> takeWhile (\<lambda>x. x \<noteq> c) (h @ c # u) = h"
  by (induction h) auto

lemma split_at_first:
  "length (takeWhile (\<lambda>x. x \<noteq> c) s) < length s \<Longrightarrow>
     s = takeWhile (\<lambda>x. x \<noteq> c) s @ c # drop (length (takeWhile (\<lambda>x. x \<noteq> c) s) + 1) s"
  by (induction s) auto

lemma structured_nqn_iff:
  "structured_nqn utf8 nqn \<longleftrightarrow> take 4 nqn = ''nqn.'' \<and> date_code_ok nqn \<and>
     (let end = length (takeWhile (\<lambda>c. c \<noteq> CHR '':'') nqn)
      in end + 1 < length nqn \<and> domain_ok (drop 12 (take end nqn)) \<and> scan_utf8 utf8 (drop (end + 1) nqn))"
  (is "_ \<longleftrightarrow> ?R")
proof
  assume "structured_nqn utf8 nqn"
  then obtain date dom user where n: "nqn = ''nqn.'' @ date @ ''.'' @ dom @ '':'' @ user"
    and p: "date_ok date" "CHR '':'' \<notin> set dom" "domain_ok dom" "user \<noteq> []" "scan_utf8 utf8 user"
    by (auto simp: structured_nqn_def)
  define h where "h = ''nqn.'' @ date @ ''.'' @ dom"
  have l: "length date = 7" using p(1) by (simp add: date_ok_def)
  have n': "nqn = h @ CHR '':'' # user" by (simp add: n h_def)
  have "CHR '':'' \<notin> set h" using date_no_colon [OF p(1)] p(2) by (auto simp: h_def)
  then have "takeWhile (\<lambda>c. c \<noteq> CHR '':'') nqn = h" unfolding n' by (rule first_in_append)
  moreover have "drop 12 h = dom" using l by (simp add: h_def)
  moreover have "take 4 nqn = ''nqn.'' \<and> date_code_ok nqn"
    unfolding date_head using n p(1) by auto
  ultimately show ?R using p by (simp add: Let_def n')
next
  assume r: ?R
  then obtain date rest where n: "nqn = ''nqn.'' @ date @ ''.'' @ rest" and d: "date_ok date"
    using date_head by blast
  define h where "h = takeWhile (\<lambda>c. c \<noteq> CHR '':'') nqn"
  define user where "user = drop (length h + 1) nqn"
  define dom where "dom = takeWhile (\<lambda>c. c \<noteq> CHR '':'') rest"
  have l: "length date = 7" using d by (simp add: date_ok_def)
  have r': "length h + 1 < length nqn" "domain_ok (drop 12 (take (length h) nqn))" "scan_utf8 utf8 user"
    using r by (simp_all add: Let_def h_def user_def)
  have n': "nqn = h @ CHR '':'' # user"
    using split_at_first [of "CHR '':''" nqn] r'(1) by (simp add: h_def user_def)
  have h: "h = ''nqn.'' @ date @ ''.'' @ dom"
    using date_no_colon [OF d] unfolding h_def dom_def n by (auto simp: takeWhile_append)
  have dd: "drop 12 (take (length h) nqn) = dom" using l by (simp add: n') (simp add: h)
  have "CHR '':'' \<notin> set dom" by (auto simp: dom_def dest: set_takeWhileD)
  moreover have "user \<noteq> []" using r'(1) by (auto simp: n')
  moreover have "nqn = ''nqn.'' @ date @ ''.'' @ dom @ '':'' @ user" using n' h by simp
  ultimately show "structured_nqn utf8 nqn"
    using r'(2,3) d unfolding structured_nqn_def dd by blast
qed

text \<open>C40. \<open>nvmf_valid_nqn\<close> accepts exactly the names of 11 to 223 characters that are the name of
  the discovery service, or have the UUID form with a UUID of 36 characters, or the form
  \<open>nqn.yyyy-mm.reverse.domain:user-string\<close> with a reverse domain whose labels are well-formed,
  and a user string of one or more valid UTF-8 characters. Two labels are treated
  differently from RFC 1034: the last one may have 64 characters, and it may be empty.\<close>

theorem valid_nqn_grammar:
  "valid_nqn utf8 parse nqn \<longleftrightarrow> length nqn \<in> {NQN_MIN_LEN..NQN_MAX_LEN} \<and>
     (nqn = DISCOVERY_NQN \<or>
      (\<exists>u. nqn = NQN_UUID_PRE @ u \<and> length u = UUID_STRING_LEN \<and> parse u \<noteq> None) \<or>
      (take (length NQN_UUID_PRE) nqn \<noteq> NQN_UUID_PRE \<and> structured_nqn utf8 nqn))"
proof (cases "take (length NQN_UUID_PRE) nqn = NQN_UUID_PRE")
  case True
  then obtain u where "nqn = NQN_UUID_PRE @ u" by (metis append_take_drop_id)
  then show ?thesis using True by (auto simp: valid_nqn_def Let_def)
next
  case False
  have s: "scan_domain ACCEPT_LETTER 0 d \<longleftrightarrow> domain_ok d" for d
    using scan_domain_grammar [of ACCEPT_LETTER "[]" d] by (simp add: read_part_def)
  have "\<not> (\<exists>u. nqn = NQN_UUID_PRE @ u)" using False by auto
  then show ?thesis
    unfolding structured_nqn_iff valid_nqn_def s Let_def using False by auto
qed

text \<open>The names that RFC 1034 does not allow: an empty domain, an empty last label, a last label
  of 64 characters.\<close>

lemma valid_nqn_beyond_rfc:
  "valid_nqn (\<lambda>_. 1) (\<lambda>_. None) ''nqn.2016-06.:x''"
  "valid_nqn (\<lambda>_. 1) (\<lambda>_. None) ''nqn.2016-06.io.:x''"
  "valid_nqn (\<lambda>_. 1) (\<lambda>_. None) (''nqn.2016-06.'' @ replicate 64 CHR ''a'' @ '':x'')"
  by code_simp+

end
