(* ===== verification/Ctrlr_Events.thy ===== *)
theory Ctrlr_Events
  imports Prelude
begin

unbundle bit_operations_syntax

text \<open>
  Events of a controller (\<^verbatim>\<open>src/nvmf/ctrlr.c\<close>): asynchronous event requests and the events that
  answer them, the masks of the event kinds, the list of changed namespaces, the queue of
  reservation log pages.

  \<open>ct_aer_req\<close> holds the requests in \<open>aer_req[0 .. nr_aer_reqs - 1]\<close>, each with its command id;
  \<open>ct_sent\<close> logs the completions of asynchronous event requests, \<open>ct_freed\<close> the requests freed
  without one. \<open>mem\<close>: the allocation succeeds. All operations run on the thread of the
  controller.
\<close>

section \<open>Data\<close>

abbreviation MAX_ASYNC_EVENTS :: nat where "MAX_ASYNC_EVENTS \<equiv> 4"
abbreviation NS_LIST_MAX :: nat where "NS_LIST_MAX \<equiv> 1024"

abbreviation NS_ATTR_CHANGE_MASK_BIT :: nat where "NS_ATTR_CHANGE_MASK_BIT \<equiv> 0"
abbreviation ANA_CHANGE_MASK_BIT :: nat where "ANA_CHANGE_MASK_BIT \<equiv> 1"
abbreviation DISCOVERY_LOG_CHANGE_MASK_BIT :: nat where "DISCOVERY_LOG_CHANGE_MASK_BIT \<equiv> 2"
abbreviation RESERVATION_LOG_AVAIL_MASK_BIT :: nat where "RESERVATION_LOG_AVAIL_MASK_BIT \<equiv> 3"
abbreviation ERROR_MASK_BIT :: nat where "ERROR_MASK_BIT \<equiv> 4"

text \<open>The fields of an event: its type, its information and the log page to read.\<close>

record async_event =
  ae_type :: u8
  ae_info :: u8
  ae_lid :: u8

abbreviation EVENT_TYPE_ERROR :: u8 where "EVENT_TYPE_ERROR \<equiv> 0"
abbreviation EVENT_TYPE_NOTICE :: u8 where "EVENT_TYPE_NOTICE \<equiv> 2"
abbreviation EVENT_TYPE_IO :: u8 where "EVENT_TYPE_IO \<equiv> 6"
abbreviation EVENT_FW_IMAGE_LOAD :: u8 where "EVENT_FW_IMAGE_LOAD \<equiv> 5"

abbreviation event_ns_attr_changed :: async_event where
  "event_ns_attr_changed \<equiv> \<lparr>ae_type = EVENT_TYPE_NOTICE, ae_info = 0, ae_lid = 0x04\<rparr>"
abbreviation event_ana_change :: async_event where
  "event_ana_change \<equiv> \<lparr>ae_type = EVENT_TYPE_NOTICE, ae_info = 3, ae_lid = 0x0c\<rparr>"
abbreviation event_discovery_log_change :: async_event where
  "event_discovery_log_change \<equiv> \<lparr>ae_type = EVENT_TYPE_NOTICE, ae_info = 0xf0, ae_lid = 0x70\<rparr>"
abbreviation event_reservation_log :: async_event where
  "event_reservation_log \<equiv> \<lparr>ae_type = EVENT_TYPE_IO, ae_info = 0, ae_lid = 0x80\<rparr>"

datatype aer_reply = AerEvent async_event | AerAborted | AerLimitExceeded

record reservation_log =
  lg_log_page_count :: u64
  lg_type :: nat
  lg_num_avail_log_pages :: u8
  lg_nsid :: u32

record spdk_nvmf_ctrlr =
  ct_addr :: addr
  ct_cntlid :: u16
  ct_hostnqn :: string
  ct_dynamic :: bool
  ct_listener :: "addr option"
  ct_aec :: u32 \<comment> \<open>the asynchronous event configuration feature\<close>
  ct_aer_req :: "(addr \<times> u16) list"
  ct_async_events :: "async_event list"
  ct_notice_aen_mask :: u64
  ct_changed_ns_list :: "u32 list"
  ct_changed_ns_list_count :: nat
  ct_log_page_count :: u64
  ct_num_avail_log_pages :: u8
  ct_log_head :: "reservation_log list"
  ct_sent :: "(addr \<times> aer_reply) list"
  ct_freed :: "addr list"

definition reply_aer :: "addr \<Rightarrow> aer_reply \<Rightarrow> spdk_nvmf_ctrlr \<Rightarrow> spdk_nvmf_ctrlr" where
  "reply_aer a r c = c\<lparr>ct_sent := ct_sent c @ [(a, r)]\<rparr>"

section \<open>Requests and events\<close>

text \<open>\<open>reserved\<close> is the mask of the reserved bits of the feature.\<close>

definition set_features_async_event_configuration ::
    "u32 \<Rightarrow> u32 \<Rightarrow> spdk_nvmf_ctrlr \<Rightarrow> spdk_nvmf_ctrlr" where
  "set_features_async_event_configuration reserved cdw11 c = c\<lparr>ct_aec := cdw11 AND NOT reserved\<rparr>"

definition ns_attr_notice :: "spdk_nvmf_ctrlr \<Rightarrow> bool" where
  "ns_attr_notice c = bit (ct_aec c) 8"

definition ana_change_notice :: "spdk_nvmf_ctrlr \<Rightarrow> bool" where
  "ana_change_notice c = bit (ct_aec c) 11"

definition discovery_log_change_notice :: "spdk_nvmf_ctrlr \<Rightarrow> bool" where
  "discovery_log_change_notice c = bit (ct_aec c) 31"

definition async_event_request :: "addr \<Rightarrow> u16 \<Rightarrow> spdk_nvmf_ctrlr \<Rightarrow> spdk_nvmf_ctrlr" where
  "async_event_request req cid c =
     (if length (ct_aer_req c) \<ge> MAX_ASYNC_EVENTS then reply_aer req AerLimitExceeded c
      else case ct_async_events c of
             ev # evs \<Rightarrow> reply_aer req (AerEvent ev) (c\<lparr>ct_async_events := evs\<rparr>)
           | [] \<Rightarrow> c\<lparr>ct_aer_req := ct_aer_req c @ [(req, cid)]\<rparr>)"

definition queue_pending_async_event ::
    "bool \<Rightarrow> async_event \<Rightarrow> spdk_nvmf_ctrlr \<Rightarrow> spdk_nvmf_ctrlr" where
  "queue_pending_async_event mem ev c =
     (if \<not> mem then c else c\<lparr>ct_async_events := ct_async_events c @ [ev]\<rparr>)"

definition async_event_notification ::
    "bool \<Rightarrow> async_event \<Rightarrow> spdk_nvmf_ctrlr \<Rightarrow> spdk_nvmf_ctrlr" where
  "async_event_notification mem ev c =
     (if ct_aer_req c = [] then queue_pending_async_event mem ev c
      else reply_aer (fst (last (ct_aer_req c))) (AerEvent ev)
             (c\<lparr>ct_aer_req := butlast (ct_aer_req c)\<rparr>))"

definition unmask_aen :: "nat \<Rightarrow> spdk_nvmf_ctrlr \<Rightarrow> spdk_nvmf_ctrlr" where
  "unmask_aen m c = c\<lparr>ct_notice_aen_mask := ct_notice_aen_mask c AND NOT (push_bit m 1)\<rparr>"

definition mask_aen :: "nat \<Rightarrow> spdk_nvmf_ctrlr \<Rightarrow> bool \<times> spdk_nvmf_ctrlr" where
  "mask_aen m c =
     (if ct_notice_aen_mask c AND push_bit m 1 \<noteq> 0 then (False, c)
      else (True, c\<lparr>ct_notice_aen_mask := ct_notice_aen_mask c OR push_bit m 1\<rparr>))"

definition notify_masked :: "nat \<Rightarrow> bool \<Rightarrow> async_event \<Rightarrow> spdk_nvmf_ctrlr \<Rightarrow> spdk_nvmf_ctrlr" where
  "notify_masked m mem ev c =
     (let (fresh, c1) = mask_aen m c in if fresh then async_event_notification mem ev c1 else c1)"

definition async_event_ns_notice :: "bool \<Rightarrow> spdk_nvmf_ctrlr \<Rightarrow> spdk_nvmf_ctrlr" where
  "async_event_ns_notice mem c =
     (if \<not> ns_attr_notice c then c
      else notify_masked NS_ATTR_CHANGE_MASK_BIT mem event_ns_attr_changed c)"

definition async_event_ana_change_notice :: "bool \<Rightarrow> spdk_nvmf_ctrlr \<Rightarrow> spdk_nvmf_ctrlr" where
  "async_event_ana_change_notice mem c =
     (if \<not> ana_change_notice c then c
      else notify_masked ANA_CHANGE_MASK_BIT mem event_ana_change c)"

definition async_event_reservation_notification :: "bool \<Rightarrow> spdk_nvmf_ctrlr \<Rightarrow> spdk_nvmf_ctrlr" where
  "async_event_reservation_notification mem c =
     (if ct_num_avail_log_pages c = 0 then c
      else notify_masked RESERVATION_LOG_AVAIL_MASK_BIT mem event_reservation_log c)"

definition async_event_discovery_log_change_notice :: "bool \<Rightarrow> spdk_nvmf_ctrlr \<Rightarrow> spdk_nvmf_ctrlr" where
  "async_event_discovery_log_change_notice mem c =
     (if \<not> discovery_log_change_notice c then c
      else notify_masked DISCOVERY_LOG_CHANGE_MASK_BIT mem event_discovery_log_change c)"

definition async_event_error_event ::
    "bool \<Rightarrow> async_event \<Rightarrow> spdk_nvmf_ctrlr \<Rightarrow> spdk_nvmf_ctrlr" where
  "async_event_error_event mem ev c =
     (let (fresh, c1) = mask_aen ERROR_MASK_BIT c
      in if \<not> fresh then c1
         else if ae_type ev \<noteq> EVENT_TYPE_ERROR \<or> ae_info ev > EVENT_FW_IMAGE_LOAD then c1
         else async_event_notification mem ev c1)"

section \<open>Aborting and freeing requests\<close>

text \<open>\<open>nvmf_qpair_free_aer\<close>, on the admin queue of the controller.\<close>

definition free_aer :: "spdk_nvmf_ctrlr \<Rightarrow> spdk_nvmf_ctrlr" where
  "free_aer c = c\<lparr>ct_freed := ct_freed c @ map fst (ct_aer_req c), ct_aer_req := []\<rparr>"

definition ctrlr_abort_aer :: "spdk_nvmf_ctrlr \<Rightarrow> spdk_nvmf_ctrlr" where
  "ctrlr_abort_aer c =
     (fold (\<lambda>(a, _). reply_aer a AerAborted) (ct_aer_req c) c)\<lparr>ct_aer_req := []\<rparr>"

text \<open>The abort of one request by its command id: the first one that matches; the last request
  moves to its place.\<close>

definition find_cid :: "u16 \<Rightarrow> (addr \<times> u16) list \<Rightarrow> nat option" where
  "find_cid cid rs = (let i = length (takeWhile (\<lambda>r. snd r \<noteq> cid) rs)
                      in if i < length rs then Some i else None)"

definition qpair_abort_aer :: "bool \<Rightarrow> u16 \<Rightarrow> spdk_nvmf_ctrlr \<Rightarrow> bool \<times> spdk_nvmf_ctrlr" where
  "qpair_abort_aer admin cid c =
     (if \<not> admin then (False, c)
      else case find_cid cid (ct_aer_req c) of
             None \<Rightarrow> (False, c)
           | Some i \<Rightarrow>
               let rs = ct_aer_req c; n = length rs - 1
               in (True, reply_aer (fst (rs ! i)) AerAborted
                     (c\<lparr>ct_aer_req := (if i < n then (butlast rs)[i := last rs] else butlast rs)\<rparr>)))"

section \<open>Changed namespaces\<close>

definition ctrlr_ns_changed :: "u32 \<Rightarrow> spdk_nvmf_ctrlr \<Rightarrow> spdk_nvmf_ctrlr" where
  "ctrlr_ns_changed nsid c =
     (if nsid \<in> set (take (ct_changed_ns_list_count c) (ct_changed_ns_list c)) then c
      else if ct_changed_ns_list_count c = NS_LIST_MAX then
        c\<lparr>ct_changed_ns_list := 0xFFFFFFFF # replicate (NS_LIST_MAX - 1) 0\<rparr>
      else c\<lparr>ct_changed_ns_list := (ct_changed_ns_list c)[ct_changed_ns_list_count c := nsid],
             ct_changed_ns_list_count := ct_changed_ns_list_count c + 1\<rparr>)"

section \<open>Reservation log pages\<close>

definition add_reservation_log ::
    "bool \<Rightarrow> reservation_log \<Rightarrow> spdk_nvmf_ctrlr \<Rightarrow> fault + spdk_nvmf_ctrlr" where
  "add_reservation_log mem lg c =
     (let c1 = c\<lparr>ct_log_page_count := ct_log_page_count c + 1\<rparr>
      in if ct_num_avail_log_pages c1 = 0xff then
           (if ct_log_head c1 = [] then Inl NullDeref
            else Inr (c1\<lparr>ct_log_head := butlast (ct_log_head c1) @
                   [(last (ct_log_head c1))\<lparr>lg_log_page_count := ct_log_page_count c1\<rparr>]\<rparr>))
         else
           let lg1 = lg\<lparr>lg_log_page_count := ct_log_page_count c1,
                        lg_num_avail_log_pages := ct_num_avail_log_pages c1\<rparr>
           in Inr (async_event_reservation_notification mem
                (c1\<lparr>ct_num_avail_log_pages := ct_num_avail_log_pages c1 + 1,
                    ct_log_head := ct_log_head c1 @ [lg1]\<rparr>)))"

end
