(* ===== verification/Subsys.thy ===== *)
theory Subsys
  imports Poll_Group Nqn Ctrlr_Events
begin

text \<open>
  An NVM subsystem of the target (\<^verbatim>\<open>src/nvmf/subsystem.c\<close>): its hosts, listeners, namespaces,
  controllers and ANA groups; creation and destruction.

  A transport id stands for all transport ids that \<open>spdk_nvme_transport_id_compare\<close> takes for
  equal, which is all the code asks about it. \<open>sb_ns\<close> is the array of namespaces, so that
  \<open>max_nsid\<close> is its length; \<open>sb_used_listener_ids\<close> is the bit array of \<open>sb_listeners\<close>.
  \<open>sb_open\<close> holds the block devices that the subsystem has open, \<open>sb_discovery_updates\<close> the
  calls of \<open>nvmf_update_discovery_log\<close> (\<open>None\<close>: for all hosts). Whether allocations succeed and
  what block devices and transports answer is decided by the environment.
\<close>

section \<open>Data\<close>

type_synonym trid = nat

abbreviation MAX_LISTENERS_PER_SUBSYSTEM :: nat where "MAX_LISTENERS_PER_SUBSYSTEM \<equiv> 16"
abbreviation MIN_CNTLID :: u16 where "MIN_CNTLID \<equiv> 1"
abbreviation MAX_CNTLID :: u16 where "MAX_CNTLID \<equiv> 0xFFEF"
abbreviation CTRLR_SN_LEN :: nat where "CTRLR_SN_LEN \<equiv> 20"
abbreviation CTRLR_MN_LEN :: nat where "CTRLR_MN_LEN \<equiv> 40"
abbreviation MODEL_NUMBER_DEFAULT :: string where "MODEL_NUMBER_DEFAULT \<equiv> ''SPDK bdev Controller''"
abbreviation DEFAULT_NAMESPACES :: nat where "DEFAULT_NAMESPACES \<equiv> 32"

datatype ana_state =
  ANA_OPTIMIZED | ANA_NON_OPTIMIZED | ANA_INACCESSIBLE | ANA_PERSISTENT_LOSS | ANA_CHANGE

record subsys_listener =
  sl_addr :: addr
  sl_trid :: trid
  sl_id :: nat
  sl_ana_state :: "ana_state list"
  sl_ana_state_change_count :: u64

record subsys_ns =
  sn_ns :: spdk_nvmf_ns \<comment> \<open>with the namespace id, the block device and the reservation\<close>
  sn_anagrpid :: u32
  sn_nguid :: uuid
  sn_eui64 :: u64
  sn_uuid :: uuid
  sn_zcopy :: bool
  sn_zns :: bool

record spdk_nvmf_ns_opts =
  no_nsid :: u32
  no_nguid :: uuid
  no_eui64 :: u64
  no_uuid :: uuid
  no_anagrpid :: u32

record spdk_nvmf_subsystem =
  sb_id :: nat
  sb_subnqn :: string
  sb_discovery :: bool
  sb_state :: spdk_nvmf_subsystem_state
  sb_next_cntlid :: u16
  sb_min_cntlid :: u16
  sb_max_cntlid :: u16
  sb_allow_any_host :: bool
  sb_allow_any_listener :: bool
  sb_ana_reporting :: bool
  sb_destroying :: bool
  sb_async_destroy :: bool
  sb_zone_append_supported :: bool
  sb_max_zone_append_size_kib :: u64
  sb_ns :: "subsys_ns option list"
  sb_ana_group :: "u32 list"
  sb_ctrlrs :: "spdk_nvmf_ctrlr list"
  sb_hosts :: "string list"
  sb_listeners :: "subsys_listener list"
  sb_used_listener_ids :: "bool list"
  sb_sn :: string
  sb_mn :: string
  sb_open :: "uuid list"
  sb_discovery_updates :: "string option list"

record spdk_nvmf_tgt =
  tg_subsystems :: "spdk_nvmf_subsystem option list"
  tg_discovery_genctr :: u64
  tg_discovery_filter :: u32

text \<open>The subsystem may be changed only while it is inactive or paused.\<close>

definition may_change :: "spdk_nvmf_subsystem \<Rightarrow> bool" where
  "may_change s \<longleftrightarrow> sb_state s = SUBSYSTEM_INACTIVE \<or> sb_state s = SUBSYSTEM_PAUSED"

definition update_discovery_log :: "string option \<Rightarrow> spdk_nvmf_subsystem \<Rightarrow> spdk_nvmf_subsystem" where
  "update_discovery_log h s = s\<lparr>sb_discovery_updates := sb_discovery_updates s @ [h]\<rparr>"

definition max_nsid :: "spdk_nvmf_subsystem \<Rightarrow> nat" where
  "max_nsid s = length (sb_ns s)"

text \<open>\<open>_nvmf_subsystem_get_ns\<close>: the subtraction wraps around for 0.\<close>

definition get_ns :: "spdk_nvmf_subsystem \<Rightarrow> u32 \<Rightarrow> subsys_ns option" where
  "get_ns s nsid = (if unat (nsid - 1) \<ge> max_nsid s then None else sb_ns s ! unat (nsid - 1))"

section \<open>Hosts\<close>

definition find_host :: "string list \<Rightarrow> string \<Rightarrow> string option" where
  "find_host hosts hostnqn = List.find (\<lambda>h. h = hostnqn) hosts"

definition add_host ::
    "(string \<Rightarrow> int) \<Rightarrow> (string \<Rightarrow> uuid option) \<Rightarrow> bool \<Rightarrow> string \<Rightarrow> spdk_nvmf_subsystem \<Rightarrow>
       int \<times> spdk_nvmf_subsystem" where
  "add_host utf8 parse mem hostnqn s =
     (if \<not> valid_nqn utf8 parse hostnqn then (- 22, s)
      else if find_host (sb_hosts s) hostnqn \<noteq> None then (0, s)
      else if \<not> mem then (- 12, s)
      else
        let s1 = s\<lparr>sb_hosts := take NQN_MAX_LEN hostnqn # sb_hosts s\<rparr>
        in (0, if sb_listeners s1 \<noteq> [] then update_discovery_log (Some hostnqn) s1 else s1))"

definition remove_host :: "string \<Rightarrow> spdk_nvmf_subsystem \<Rightarrow> int \<times> spdk_nvmf_subsystem" where
  "remove_host hostnqn s =
     (case find_host (sb_hosts s) hostnqn of
        None \<Rightarrow> (- 2, s)
      | Some h \<Rightarrow>
          let s1 = s\<lparr>sb_hosts := remove1 h (sb_hosts s)\<rparr>
          in (0, if sb_listeners s1 \<noteq> [] then update_discovery_log (Some hostnqn) s1 else s1))"

definition set_allow_any_host :: "bool \<Rightarrow> spdk_nvmf_subsystem \<Rightarrow> spdk_nvmf_subsystem" where
  "set_allow_any_host b s =
     (let s1 = s\<lparr>sb_allow_any_host := b\<rparr>
      in if sb_listeners s1 \<noteq> [] then update_discovery_log None s1 else s1)"

definition host_allowed :: "spdk_nvmf_subsystem \<Rightarrow> string option \<Rightarrow> bool" where
  "host_allowed s hostnqn =
     (case hostnqn of
        None \<Rightarrow> False
      | Some h \<Rightarrow> if sb_allow_any_host s then True else find_host (sb_hosts s) h \<noteq> None)"

section \<open>Listeners\<close>

definition find_listener :: "subsys_listener list \<Rightarrow> trid \<Rightarrow> subsys_listener option" where
  "find_listener ls t = List.find (\<lambda>l. sl_trid l = t) ls"

definition find_first_clear :: "bool list \<Rightarrow> nat option" where
  "find_first_clear bits =
     (let i = length (takeWhile id bits) in if i < length bits then Some i else None)"

text \<open>
  \<open>tr_listener\<close>: the transport exists and listens on the transport id; \<open>mem\<close> and \<open>mem_ana\<close>: the
  two allocations succeed; \<open>assoc\<close>: what the \<open>listen_associate\<close> operation of the transport
  returns (0 when it has none). The result is the status given to the callback.
\<close>

definition add_listener ::
    "bool \<Rightarrow> bool \<Rightarrow> bool \<Rightarrow> int \<Rightarrow> addr \<Rightarrow> trid \<Rightarrow> spdk_nvmf_subsystem \<Rightarrow> int \<times> spdk_nvmf_subsystem" where
  "add_listener tr_listener mem mem_ana assoc a t s =
     (if \<not> may_change s then (- 11, s)
      else if find_listener (sb_listeners s) t \<noteq> None then (0, s)
      else if \<not> tr_listener then (- 22, s)
      else if \<not> mem then (- 12, s)
      else if \<not> mem_ana then (- 12, s)
      else case find_first_clear (sb_used_listener_ids s) of
             None \<Rightarrow> (- 22, s)
           | Some i \<Rightarrow>
               let s1 = s\<lparr>sb_used_listener_ids := (sb_used_listener_ids s)[i := True]\<rparr>;
                   l = \<lparr>sl_addr = a, sl_trid = t, sl_id = i,
                        sl_ana_state = replicate (max_nsid s) ANA_OPTIMIZED,
                        sl_ana_state_change_count = 0\<rparr>
               in if assoc \<noteq> 0 then (assoc, s1)
                  else (0, update_discovery_log None (s1\<lparr>sb_listeners := l # sb_listeners s1\<rparr>)))"

text \<open>The listener is also taken from the controllers that came in through it.\<close>

definition drop_listener :: "subsys_listener \<Rightarrow> spdk_nvmf_subsystem \<Rightarrow> spdk_nvmf_subsystem" where
  "drop_listener l s =
     (update_discovery_log None
       (s\<lparr>sb_ctrlrs := map (\<lambda>c. if ct_listener c = Some (sl_addr l) then c\<lparr>ct_listener := None\<rparr> else c)
                         (sb_ctrlrs s),
          sb_listeners := remove_by sl_addr (sl_addr l) (sb_listeners s)\<rparr>))
     \<lparr>sb_used_listener_ids := (sb_used_listener_ids s)[sl_id l := False]\<rparr>"

definition remove_listener :: "trid \<Rightarrow> spdk_nvmf_subsystem \<Rightarrow> int \<times> spdk_nvmf_subsystem" where
  "remove_listener t s =
     (if \<not> may_change s then (- 11, s)
      else case find_listener (sb_listeners s) t of
             None \<Rightarrow> (- 2, s)
           | Some l \<Rightarrow> (0, drop_listener l s))"

definition remove_all_listeners :: "spdk_nvmf_subsystem \<Rightarrow> spdk_nvmf_subsystem" where
  "remove_all_listeners s = fold drop_listener (sb_listeners s) s"

definition listener_allowed :: "spdk_nvmf_subsystem \<Rightarrow> trid \<Rightarrow> bool" where
  "listener_allowed s t \<longleftrightarrow> t \<in> sl_trid ` set (sb_listeners s) \<or> sb_subnqn s = DISCOVERY_NQN"

section \<open>Namespaces\<close>

text \<open>The changed namespace is added to the list of every controller.\<close>

definition subsystem_ns_changed :: "u32 \<Rightarrow> spdk_nvmf_subsystem \<Rightarrow> spdk_nvmf_subsystem" where
  "subsystem_ns_changed nsid s = s\<lparr>sb_ctrlrs := map (ctrlr_ns_changed nsid) (sb_ctrlrs s)\<rparr>"

text \<open>What the environment of \<open>spdk_nvmf_subsystem_add_ns_ext\<close> provides: the properties of the
  block device, if it can be opened; the content of the persistence file, if it can be
  loaded, and what restoring it needs; the answer of the transports.\<close>

record bdev_info =
  bi_uuid :: uuid
  bi_md_size :: u32
  bi_md_interleaved :: bool
  bi_zcopy :: bool
  bi_zoned :: bool
  bi_zone_append :: bool
  bi_max_zone_append_size :: u32
  bi_block_size :: u32

record ns_env =
  ne_mem :: bool
  ne_bdev :: "bdev_info option"
  ne_max_md_size :: u32
  ne_claim :: int
  ne_ptpl_file :: "string option"
  ne_load :: "spdk_nvmf_reservation_info option"
  ne_parse :: "string \<Rightarrow> uuid option"
  ne_junk1 :: uuid
  ne_junk2 :: uuid
  ne_resv_mem :: "addr option list"
  ne_strdup :: bool
  ne_transports :: "int list"

text \<open>The first nsid that is free; one more than the number of namespaces when there is none.\<close>

definition first_free_nsid :: "spdk_nvmf_subsystem \<Rightarrow> u32" where
  "first_free_nsid s = of_nat (length (takeWhile (\<lambda>n. n \<noteq> None) (sb_ns s)) + 1)"

definition has_zoned_ns :: "spdk_nvmf_subsystem \<Rightarrow> bool" where
  "has_zoned_ns s \<longleftrightarrow> (\<exists>n \<in> set (sb_ns s). case n of None \<Rightarrow> False | Some ns \<Rightarrow> sn_zns ns)"

definition new_ns :: "u32 \<Rightarrow> uuid \<Rightarrow> spdk_nvmf_ns" where
  "new_ns nsid u = \<lparr>ns_nsid = nsid, ns_bdev = Some u, ns_mask = 0, ns_gen = 0, ns_registrants = [],
     ns_crkey = 0, ns_rtype = 0, ns_holder = None, ns_ptpl_file = None, ns_ptpl_activated = False\<rparr>"

text \<open>The error exit: the slot is emptied, the block device closed. The count of the ANA group
  stays.\<close>

definition add_ns_err :: "nat \<Rightarrow> uuid \<Rightarrow> spdk_nvmf_subsystem \<Rightarrow> u32 \<times> spdk_nvmf_subsystem" where
  "add_ns_err i u s = (0, s\<lparr>sb_ns := (sb_ns s)[i := None], sb_open := remove1 u (sb_open s)\<rparr>)"

definition set_ns :: "nat \<Rightarrow> subsys_ns \<Rightarrow> spdk_nvmf_subsystem \<Rightarrow> spdk_nvmf_subsystem" where
  "set_ns i ns s = s\<lparr>sb_ns := (sb_ns s)[i := Some ns]\<rparr>"

text \<open>From the point where the namespace is in the array: reservations, transports, notices.\<close>

definition attach_ns ::
    "ns_env \<Rightarrow> u32 \<Rightarrow> subsys_ns \<Rightarrow> uuid \<Rightarrow> spdk_nvmf_subsystem \<Rightarrow> u32 \<times> spdk_nvmf_subsystem" where
  "attach_ns env nsid ns u s =
     (let i = unat (nsid - 1);
          g = unat (sn_anagrpid ns - 1);
          s1 = (set_ns i ns s)\<lparr>sb_ana_group := (sb_ana_group s)[g := sb_ana_group s ! g + 1]\<rparr>;
          finish = (\<lambda>ns' s'.
            if \<exists>rc \<in> set (ne_transports env). rc \<noteq> 0 then add_ns_err i u s'
            else (nsid, subsystem_ns_changed nsid s'))
      in case ne_ptpl_file env of
           None \<Rightarrow> finish ns s1
         | Some pf \<Rightarrow>
             let (rc, r) = (case ne_load env of
                   None \<Rightarrow> (0, sn_ns ns)
                 | Some info \<Rightarrow>
                     reservation_restore (ne_parse env) (ne_junk1 env) (ne_junk2 env) (ne_resv_mem env)
                       info (sn_ns ns))
             in if rc \<noteq> 0 then add_ns_err i u s1
                else if \<not> ne_strdup env then add_ns_err i u s1
                else
                  let ns' = ns\<lparr>sn_ns := r\<lparr>ns_ptpl_file := Some pf\<rparr>\<rparr>
                  in finish ns' (set_ns i ns' s1))"

text \<open>From the point where the block device is open: claiming it, the cached properties of the
  device, the checks for zoned devices.\<close>

definition claim_ns ::
    "ns_env \<Rightarrow> spdk_nvmf_ns_opts \<Rightarrow> u32 \<Rightarrow> u32 \<Rightarrow> bdev_info \<Rightarrow> spdk_nvmf_subsystem \<Rightarrow>
       u32 \<times> spdk_nvmf_subsystem" where
  "claim_ns env opts nsid anagrpid b s =
     (if bi_md_size b \<noteq> 0 \<and> (\<not> bi_md_interleaved b \<or> bi_md_size b > ne_max_md_size env) then (0, s)
      else if ne_claim env \<noteq> 0 then (0, s)
      else
        let u = bi_uuid b;
            s1 = s\<lparr>sb_open := u # sb_open s\<rparr>;
            zas = bi_zone_append b;
            kib = (ucast (bi_max_zone_append_size b * bi_block_size b) :: u64);
            ns = \<lparr>sn_ns = new_ns nsid u, sn_anagrpid = anagrpid,
                  sn_nguid = (if no_nguid opts = 0 then u else no_nguid opts),
                  sn_eui64 = no_eui64 opts,
                  sn_uuid = (if no_uuid opts = 0 then u else no_uuid opts),
                  sn_zcopy = bi_zcopy b, sn_zns = bi_zoned b\<rparr>
        in if bi_zoned b then
             (if has_zoned_ns s \<and>
                 (sb_zone_append_supported s \<noteq> zas \<or> sb_max_zone_append_size_kib s \<noteq> kib)
              then add_ns_err (unat (nsid - 1)) u s1
              else attach_ns env nsid ns u
                     (s1\<lparr>sb_zone_append_supported := zas, sb_max_zone_append_size_kib := kib\<rparr>))
           else attach_ns env nsid ns u s1)"

definition ns_opts_defaults :: spdk_nvmf_ns_opts where
  "ns_opts_defaults = \<lparr>no_nsid = 0, no_nguid = 0, no_eui64 = 0, no_uuid = 0, no_anagrpid = 0\<rparr>"

definition add_ns ::
    "ns_env \<Rightarrow> spdk_nvmf_ns_opts option \<Rightarrow> spdk_nvmf_subsystem \<Rightarrow> u32 \<times> spdk_nvmf_subsystem" where
  "add_ns env user_opts s =
     (if \<not> may_change s then (0, s)
      else
        let opts = (case user_opts of None \<Rightarrow> ns_opts_defaults | Some o' \<Rightarrow> o')
        in if no_nsid opts = 0xFFFFFFFF then (0, s)
        else
        let nsid = (if no_nsid opts = 0 then first_free_nsid s else no_nsid opts)
        in if get_ns s nsid \<noteq> None then (0, s)
        else if unat nsid > max_nsid s then (0, s)
        else
        let anagrpid = (if no_anagrpid opts = 0 then nsid else no_anagrpid opts)
        in if unat anagrpid > max_nsid s then (0, s)
        else if \<not> ne_mem env then (0, s)
        else case ne_bdev env of
               None \<Rightarrow> (0, s)
             | Some b \<Rightarrow> claim_ns env opts nsid anagrpid b s)"

definition remove_ns :: "u32 \<Rightarrow> spdk_nvmf_subsystem \<Rightarrow> fault + int \<times> spdk_nvmf_subsystem" where
  "remove_ns nsid s =
     (if \<not> may_change s then Inr (- 1, s)
      else if nsid = 0 \<or> unat nsid > max_nsid s then Inr (- 1, s)
      else case sb_ns s ! unat (nsid - 1) of
             None \<Rightarrow> Inr (- 1, s)
           | Some ns \<Rightarrow>
               let g = unat (sn_anagrpid ns - 1)
               in if g \<ge> length (sb_ana_group s) then Inl OutOfBounds
                  else case ns_bdev (sn_ns ns) of
                    None \<Rightarrow> Inl NullDeref
                  | Some u \<Rightarrow>
                      Inr (0, subsystem_ns_changed nsid
                        (s\<lparr>sb_ns := (sb_ns s)[unat (nsid - 1) := None],
                           sb_ana_group := (sb_ana_group s)[g := sb_ana_group s ! g - 1],
                           sb_open := remove1 u (sb_open s)\<rparr>)))"

text \<open>The iteration over the namespaces: \<open>prev\<close> is 0 at the start.\<close>

definition get_next_allocated_nsid :: "spdk_nvmf_subsystem \<Rightarrow> nat \<Rightarrow> nat" where
  "get_next_allocated_nsid s prev =
     (if prev \<ge> max_nsid s then 0
      else let i = length (takeWhile (\<lambda>n. n = None) (drop prev (sb_ns s)))
           in if prev + i < max_nsid s then prev + i + 1 else 0)"

definition set_sn :: "string \<Rightarrow> spdk_nvmf_subsystem \<Rightarrow> int \<times> spdk_nvmf_subsystem" where
  "set_sn sn s =
     (if length sn > CTRLR_SN_LEN then (- 1, s)
      else if \<not> valid_ascii_string sn then (- 1, s)
      else (0, s\<lparr>sb_sn := sn\<rparr>))"

definition set_mn :: "string option \<Rightarrow> spdk_nvmf_subsystem \<Rightarrow> int \<times> spdk_nvmf_subsystem" where
  "set_mn mn s =
     (let m = (case mn of None \<Rightarrow> MODEL_NUMBER_DEFAULT | Some x \<Rightarrow> x)
      in if length m > CTRLR_MN_LEN then (- 1, s)
         else if \<not> valid_ascii_string m then (- 1, s)
         else (0, s\<lparr>sb_mn := m\<rparr>))"

section \<open>Controllers\<close>

definition get_ctrlr :: "spdk_nvmf_ctrlr list \<Rightarrow> u16 \<Rightarrow> spdk_nvmf_ctrlr option" where
  "get_ctrlr cs cntlid = List.find (\<lambda>c. ct_cntlid c = cntlid) cs"

definition set_cntlid_range :: "u16 \<Rightarrow> u16 \<Rightarrow> spdk_nvmf_subsystem \<Rightarrow> int \<times> spdk_nvmf_subsystem" where
  "set_cntlid_range mn mx s =
     (if sb_state s \<noteq> SUBSYSTEM_INACTIVE then (- 11, s)
      else if mn > mx then (- 22, s)
      else if mn < MIN_CNTLID \<or> mn > MAX_CNTLID \<or> mx < MIN_CNTLID \<or> mx > MAX_CNTLID then (- 22, s)
      else
        let s1 = s\<lparr>sb_min_cntlid := mn, sb_max_cntlid := mx\<rparr>
        in (0, if sb_next_cntlid s1 < mn \<or> uint (sb_next_cntlid s1) > uint mx - 1
               then s1\<lparr>sb_next_cntlid := mn - 1\<rparr> else s1))"

text \<open>The loop of \<open>nvmf_subsystem_gen_cntlid\<close>; \<open>n\<close> is the number of iterations left.\<close>

fun gen_cntlid_loop :: "nat \<Rightarrow> spdk_nvmf_subsystem \<Rightarrow> u16 \<times> spdk_nvmf_subsystem" where
  "gen_cntlid_loop 0 s = (0xFFFF, s)"
| "gen_cntlid_loop (Suc n) s =
     (let next = sb_next_cntlid s + 1;
          next' = (if next > sb_max_cntlid s then sb_min_cntlid s else next);
          s1 = s\<lparr>sb_next_cntlid := next'\<rparr>
      in if get_ctrlr (sb_ctrlrs s1) next' = None then (next', s1) else gen_cntlid_loop n s1)"

definition gen_cntlid :: "spdk_nvmf_subsystem \<Rightarrow> u16 \<times> spdk_nvmf_subsystem" where
  "gen_cntlid s = gen_cntlid_loop (nat (uint (sb_max_cntlid s) - uint (sb_min_cntlid s) + 1)) s"

definition add_ctrlr :: "spdk_nvmf_ctrlr \<Rightarrow> spdk_nvmf_subsystem \<Rightarrow> int \<times> spdk_nvmf_subsystem" where
  "add_ctrlr c s =
     (if ct_dynamic c then
        let (id, s1) = gen_cntlid s
        in if id = 0xFFFF then (- 16, s1)
           else (0, s1\<lparr>sb_ctrlrs := sb_ctrlrs s1 @ [c\<lparr>ct_cntlid := id\<rparr>]\<rparr>)
      else if get_ctrlr (sb_ctrlrs s) (ct_cntlid c) \<noteq> None then (- 17, s)
      else (0, s\<lparr>sb_ctrlrs := sb_ctrlrs s @ [c]\<rparr>))"

definition remove_ctrlr :: "addr \<Rightarrow> spdk_nvmf_subsystem \<Rightarrow> spdk_nvmf_subsystem" where
  "remove_ctrlr a s = s\<lparr>sb_ctrlrs := remove_by ct_addr a (sb_ctrlrs s)\<rparr>"

section \<open>Asymmetric namespace access\<close>

definition set_ana_reporting :: "bool \<Rightarrow> spdk_nvmf_subsystem \<Rightarrow> int \<times> spdk_nvmf_subsystem" where
  "set_ana_reporting b s =
     (if sb_state s \<noteq> SUBSYSTEM_INACTIVE then (- 11, s) else (0, s\<lparr>sb_ana_reporting := b\<rparr>))"

text \<open>Every controller of the listener whose admin queue pair is connected is told; \<open>admin\<close>
  says which are, \<open>mem_ev\<close> whether the event of a controller can be allocated.\<close>

definition listener_update :: "(addr \<Rightarrow> bool) \<Rightarrow> (addr \<Rightarrow> bool) \<Rightarrow> addr \<Rightarrow> spdk_nvmf_subsystem \<Rightarrow>
    spdk_nvmf_subsystem" where
  "listener_update admin mem_ev la s = s\<lparr>sb_ctrlrs :=
     map (\<lambda>c. if admin (ct_addr c) \<and> ct_listener c = Some la
              then async_event_ana_change_notice (mem_ev (ct_addr c)) c else c) (sb_ctrlrs s)\<rparr>"

text \<open>The result is the status that the callback gets.\<close>

definition set_ana_state ::
    "bool \<Rightarrow> (addr \<Rightarrow> bool) \<Rightarrow> (addr \<Rightarrow> bool) \<Rightarrow> trid \<Rightarrow> ana_state \<Rightarrow> u32 \<Rightarrow> spdk_nvmf_subsystem \<Rightarrow>
       fault + int \<times> spdk_nvmf_subsystem" where
  "set_ana_state mem admin mem_ev t st anagrpid s =
     (if \<not> sb_ana_reporting s then Inr (- 22, s)
      else if st \<notin> {ANA_OPTIMIZED, ANA_NON_OPTIMIZED, ANA_INACCESSIBLE} then Inr (- 95, s)
      else if unat anagrpid > max_nsid s then Inr (- 22, s)
      else case find_listener (sb_listeners s) t of
        None \<Rightarrow> Inr (- 22, s)
      | Some l \<Rightarrow>
          let g = unat (anagrpid - 1)
          in if anagrpid \<noteq> 0 \<and> g \<ge> length (sl_ana_state l) then Inl OutOfBounds
             else if anagrpid \<noteq> 0 \<and> sl_ana_state l ! g = st then Inr (0, s)
             else if \<not> mem then Inr (- 12, s)
             else
               let states = (if anagrpid = 0 then replicate (max_nsid s) st
                             else (sl_ana_state l)[g := st])
               in Inr (0, listener_update admin mem_ev (sl_addr l)
                    (s\<lparr>sb_listeners := update_by sl_addr (sl_addr l)
                         (\<lambda>l. l\<lparr>sl_ana_state := states,
                               sl_ana_state_change_count := sl_ana_state_change_count l + 1\<rparr>)
                         (sb_listeners s)\<rparr>)))"

section \<open>Creation and destruction\<close>

definition tgt_find_subsystem :: "spdk_nvmf_tgt \<Rightarrow> string \<Rightarrow> spdk_nvmf_subsystem option" where
  "tgt_find_subsystem t nqn =
     (if length nqn > NQN_MAX_LEN then None
      else List.find (\<lambda>s. sb_subnqn s = nqn) (List.map_filter id (tg_subsystems t)))"

definition new_subsystem :: "nat \<Rightarrow> string \<Rightarrow> bool \<Rightarrow> nat \<Rightarrow> spdk_nvmf_subsystem" where
  "new_subsystem sid nqn discovery num_ns =
     \<lparr>sb_id = sid, sb_subnqn = take NQN_MAX_LEN nqn, sb_discovery = discovery,
      sb_state = SUBSYSTEM_INACTIVE, sb_next_cntlid = 0, sb_min_cntlid = MIN_CNTLID,
      sb_max_cntlid = MAX_CNTLID, sb_allow_any_host = False, sb_allow_any_listener = False,
      sb_ana_reporting = False, sb_destroying = False, sb_async_destroy = False,
      sb_zone_append_supported = False, sb_max_zone_append_size_kib = 0,
      sb_ns = replicate num_ns None, sb_ana_group = replicate num_ns 0, sb_ctrlrs = [],
      sb_hosts = [], sb_listeners = [],
      sb_used_listener_ids = replicate MAX_LISTENERS_PER_SUBSYSTEM False,
      sb_sn = replicate CTRLR_SN_LEN (CHR ''0''), sb_mn = MODEL_NUMBER_DEFAULT, sb_open = [],
      sb_discovery_updates = []\<rparr>"

text \<open>\<open>mems\<close>: the subsystem, the bit array and the two arrays can be allocated.\<close>

definition subsystem_create ::
    "(string \<Rightarrow> int) \<Rightarrow> (string \<Rightarrow> uuid option) \<Rightarrow> bool \<Rightarrow> string \<Rightarrow> bool \<Rightarrow> nat \<Rightarrow> spdk_nvmf_tgt \<Rightarrow>
       nat option \<times> spdk_nvmf_tgt" where
  "subsystem_create utf8 parse mems nqn discovery num_ns t =
     (if tgt_find_subsystem t nqn \<noteq> None then (None, t)
      else if \<not> valid_nqn utf8 parse nqn then (None, t)
      else if discovery \<and> num_ns \<noteq> 0 then (None, t)
      else
        let n = (if \<not> discovery \<and> num_ns = 0 then DEFAULT_NAMESPACES else num_ns);
            sid = length (takeWhile (\<lambda>s. s \<noteq> None) (tg_subsystems t))
        in if sid \<ge> length (tg_subsystems t) then (None, t)
           else if \<not> mems then (None, t)
           else (Some sid, t\<lparr>tg_subsystems := (tg_subsystems t)[sid := Some (new_subsystem sid nqn discovery n)]\<rparr>))"

text \<open>\<open>_nvmf_subsystem_destroy\<close>: with controllers left it sends itself a message (\<open>send\<close>: the
  result) and is called again; else it removes the namespaces one by one. The second component
  is the subsystem that is left, if any.\<close>

fun remove_all_ns :: "nat list \<Rightarrow> spdk_nvmf_subsystem \<Rightarrow> fault + spdk_nvmf_subsystem" where
  "remove_all_ns [] s = Inr s"
| "remove_all_ns (i # is) s =
     (if sb_ns s ! i = None then remove_all_ns is s
      else bindR (remove_ns (of_nat (i + 1)) s) (\<lambda>(_, s'). remove_all_ns is s'))"

definition destroy_now ::
    "int \<Rightarrow> spdk_nvmf_subsystem \<Rightarrow> fault + int \<times> spdk_nvmf_subsystem \<times> bool" where
  "destroy_now send s =
     (if sb_ctrlrs s \<noteq> [] then
        Inr (if send \<noteq> 0 then send else - 115, s\<lparr>sb_async_destroy := True\<rparr>, False)
      else bindR (remove_all_ns [0..<max_nsid s] s) (\<lambda>s'. Inr (0, s', True)))"

text \<open>The result: the return code, the subsystem when the call ends, and whether it was freed.\<close>

definition subsystem_destroy ::
    "int \<Rightarrow> spdk_nvmf_subsystem \<Rightarrow> fault + int \<times> spdk_nvmf_subsystem \<times> bool" where
  "subsystem_destroy send s =
     (if sb_state s \<noteq> SUBSYSTEM_INACTIVE then Inr (- 11, s, False)
      else if sb_destroying s then Inr (- 114, s, False)
      else
        let s1 = remove_all_listeners (s\<lparr>sb_destroying := True\<rparr>)
        in destroy_now send (s1\<lparr>sb_hosts := []\<rparr>))"

end
