(* ===== verification/Subsys_Inv.thy ===== *)
theory Subsys_Inv
  imports Subsys "HOL-Library.Multiset"
begin

text \<open>
  The invariant of a subsystem: hosts, listeners and controllers are keyed queues, listener ids
  are marked as used, the namespace array and the ANA group counts fit together, the range
  of controller ids is valid. \<open>subsys_step\<close> is the subsystem as a state machine; its
  callers' obligation is that a new listener or controller is a new object.
\<close>

section \<open>The queues of a subsystem\<close>

interpretation hosts: keyed_queue id find_host "\<lambda>x q. x # q"
  unfolding find_host_def using keyed_queue_head [of id] by simp

interpretation listeners: keyed_queue sl_trid find_listener "\<lambda>x q. x # q"
  unfolding find_listener_def by (rule keyed_queue_head)

interpretation ctrlrs: keyed_queue ct_cntlid get_ctrlr "\<lambda>x q. q @ [x]"
  unfolding get_ctrlr_def by (rule keyed_queue_tail)

section \<open>The invariant\<close>

definition hosts_ok :: "string list \<Rightarrow> bool" where
  "hosts_ok hs \<longleftrightarrow> distinct hs"

definition listeners_ok :: "nat \<Rightarrow> bool list \<Rightarrow> subsys_listener list \<Rightarrow> bool" where
  "listeners_ok n used ls \<longleftrightarrow> distinct (map sl_trid ls) \<and> distinct (map sl_addr ls) \<and>
     distinct (map sl_id ls) \<and> length used = MAX_LISTENERS_PER_SUBSYSTEM \<and>
     (\<forall>l \<in> set ls. sl_id l < MAX_LISTENERS_PER_SUBSYSTEM \<and> used ! sl_id l \<and> length (sl_ana_state l) = n)"

definition ctrlrs_ok :: "spdk_nvmf_ctrlr list \<Rightarrow> bool" where
  "ctrlrs_ok cs \<longleftrightarrow> distinct (map ct_cntlid cs)"

definition cntlids_ok :: "u16 \<Rightarrow> u16 \<Rightarrow> u16 \<Rightarrow> bool" where
  "cntlids_ok mn mx next \<longleftrightarrow> MIN_CNTLID \<le> mn \<and> mn \<le> mx \<and> mx \<le> MAX_CNTLID \<and> mn - 1 \<le> next \<and> next \<le> mx"

definition ns_entry_ok :: "nat \<Rightarrow> nat \<Rightarrow> subsys_ns \<Rightarrow> bool" where
  "ns_entry_ok n i ns \<longleftrightarrow> unat (ns_nsid (sn_ns ns)) = i + 1 \<and> ns_bdev (sn_ns ns) \<noteq> None \<and>
     sn_anagrpid ns \<noteq> 0 \<and> unat (sn_anagrpid ns) \<le> n"

text \<open>The block devices of the namespaces.\<close>

definition ns_bdevs :: "subsys_ns option list \<Rightarrow> uuid list" where
  "ns_bdevs nss = List.map_filter (\<lambda>n. case n of None \<Rightarrow> None | Some ns \<Rightarrow> ns_bdev (sn_ns ns)) nss"

definition namespaces_ok :: "subsys_ns option list \<Rightarrow> u32 list \<Rightarrow> uuid list \<Rightarrow> bool" where
  "namespaces_ok nss groups opened \<longleftrightarrow> length nss < 2 ^ 32 - 1 \<and> length groups = length nss \<and>
     (\<forall>i < length nss. \<forall>ns. nss ! i = Some ns \<longrightarrow> ns_entry_ok (length nss) i ns) \<and>
     mset opened = mset (ns_bdevs nss)"

definition subsys_inv :: "spdk_nvmf_subsystem \<Rightarrow> bool" where
  "subsys_inv s \<longleftrightarrow> hosts_ok (sb_hosts s) \<and>
     listeners_ok (length (sb_ns s)) (sb_used_listener_ids s) (sb_listeners s) \<and>
     ctrlrs_ok (sb_ctrlrs s) \<and> cntlids_ok (sb_min_cntlid s) (sb_max_cntlid s) (sb_next_cntlid s) \<and>
     namespaces_ok (sb_ns s) (sb_ana_group s) (sb_open s)"

section \<open>Operations that keep the invariant\<close>

lemma update_discovery_parts [simp]:
  "sb_hosts (update_discovery_log h s) = sb_hosts s" "sb_listeners (update_discovery_log h s) = sb_listeners s"
  "sb_ctrlrs (update_discovery_log h s) = sb_ctrlrs s" "sb_ns (update_discovery_log h s) = sb_ns s"
  "sb_used_listener_ids (update_discovery_log h s) = sb_used_listener_ids s"
  by (simp_all add: update_discovery_log_def)

lemma update_discovery_inv [simp]: "subsys_inv (update_discovery_log h s) \<longleftrightarrow> subsys_inv s"
  by (simp add: update_discovery_log_def subsys_inv_def)

lemma hosts_ok_add: "hosts_ok hs \<Longrightarrow> find_host hs h = None \<Longrightarrow> hosts_ok (h # hs)"
  using hosts.lookup_None_iff [of hs h] by (simp add: hosts_ok_def)

lemma hosts_ok_remove: "hosts_ok hs \<Longrightarrow> hosts_ok (remove1 h hs)"
  by (simp add: hosts_ok_def)

lemma valid_nqn_length: "valid_nqn utf8 parse h \<Longrightarrow> take NQN_MAX_LEN h = h"
  by (simp add: valid_nqn_def Let_def split: if_splits)

lemma add_host_inv: "subsys_inv s \<Longrightarrow> subsys_inv (snd (add_host utf8 parse mem h s))"
  by (auto simp: add_host_def Let_def valid_nqn_length) (auto simp: subsys_inv_def hosts_ok_add)

lemma remove_host_inv: "subsys_inv s \<Longrightarrow> subsys_inv (snd (remove_host h s))"
  by (auto simp: remove_host_def Let_def split: option.splits) (auto simp: subsys_inv_def hosts_ok_remove)

lemma set_allow_any_host_inv: "subsys_inv s \<Longrightarrow> subsys_inv (set_allow_any_host b s)"
  by (auto simp: set_allow_any_host_def Let_def) (auto simp: subsys_inv_def)

lemma find_first_clear_Some:
  "find_first_clear bits = Some i \<Longrightarrow> i < length bits \<and> \<not> bits ! i"
  using nth_length_takeWhile [of id bits]
  by (auto simp: find_first_clear_def Let_def split: if_splits)

lemma find_first_clear_None: "find_first_clear bits = None \<longleftrightarrow> list_all id bits"
  by (induction bits) (auto simp: find_first_clear_def Let_def split: if_splits)

lemma nth_mark: "used ! j \<Longrightarrow> used[i := True] ! j"
  by (cases "i = j"; cases "i < length used") (auto simp: list_update_beyond)

lemma listeners_ok_mark: "listeners_ok n used ls \<Longrightarrow> listeners_ok n (used[i := True]) ls"
  by (auto simp: listeners_ok_def nth_mark)

lemma listeners_ok_add:
  assumes "listeners_ok n used ls" and "find_first_clear used = Some i"
    and "find_listener ls (sl_trid l) = None" and "sl_addr l \<notin> sl_addr ` set ls"
    and "sl_id l = i" and "length (sl_ana_state l) = n"
  shows "listeners_ok n (used[i := True]) (l # ls)"
proof -
  have "sl_trid l \<notin> sl_trid ` set ls" using assms(3) listeners.lookup_None_iff by blast
  moreover have "i \<notin> sl_id ` set ls"
    using assms(1) find_first_clear_Some [OF assms(2)] by (auto simp: listeners_ok_def)
  ultimately show ?thesis
    using assms find_first_clear_Some [OF assms(2)] by (auto simp: listeners_ok_def nth_list_update)
qed

lemma add_listener_inv:
  "subsys_inv s \<Longrightarrow> a \<notin> sl_addr ` set (sb_listeners s) \<Longrightarrow>
     subsys_inv (snd (add_listener tr mem ma assoc a t s))"
  by (auto simp: add_listener_def Let_def max_nsid_def split: option.splits)
    (auto simp: subsys_inv_def listeners_ok_mark intro: listeners_ok_add)

lemma listeners_ok_drop:
  assumes "listeners_ok n used ls" and "l \<in> set ls"
  shows "listeners_ok n (used[sl_id l := False]) (remove_by sl_addr (sl_addr l) ls)"
proof -
  have "sl_id l \<noteq> sl_id x" if "x \<in> set ls" "sl_addr x \<noteq> sl_addr l" for x
    using that assms by (auto simp: listeners_ok_def distinct_map inj_on_def)
  then show ?thesis using assms by (auto simp: listeners_ok_def distinct_remove_by)
qed

lemma map_cntlid_cong: "(\<And>c. ct_cntlid (f c) = ct_cntlid c) \<Longrightarrow> ctrlrs_ok (map f cs) \<longleftrightarrow> ctrlrs_ok cs"
  by (simp add: ctrlrs_ok_def comp_def)

lemma drop_listener_inv: "subsys_inv s \<Longrightarrow> l \<in> set (sb_listeners s) \<Longrightarrow> subsys_inv (drop_listener l s)"
  by (auto simp: drop_listener_def update_discovery_log_def subsys_inv_def listeners_ok_drop map_cntlid_cong)

lemma remove_listener_inv: "subsys_inv s \<Longrightarrow> subsys_inv (snd (remove_listener t s))"
  using listeners.lookup_SomeD
  by (auto simp: remove_listener_def intro!: drop_listener_inv split: option.splits)

section \<open>Controller ids\<close>

definition cntlid_used :: "spdk_nvmf_subsystem \<Rightarrow> nat \<Rightarrow> bool" where
  "cntlid_used s x \<longleftrightarrow> of_nat x \<in> ct_cntlid ` set (sb_ctrlrs s)"

lemma cntlid_used_unat [simp]: "cntlid_used s (unat v) \<longleftrightarrow> get_ctrlr (sb_ctrlrs s) v \<noteq> None"
  using ctrlrs.lookup_None_iff [of "sb_ctrlrs s" v] by (auto simp: cntlid_used_def)

text \<open>The ids tried are, one after the other and cyclically, those of the range.\<close>

lemma gen_cntlid_step:
  fixes mn mx nx :: u16
  assumes "cntlids_ok mn mx nx" and q: "q = unat nx + 1 - unat mn" and N: "N = unat mx - unat mn + 1"
  defines "v \<equiv> if nx + 1 > mx then mn else nx + 1"
  shows "unat v = unat mn + q mod N" and "cntlids_ok mn mx v" and "unat v + 1 - unat mn = q mod N + 1"
proof -
  have o: "1 \<le> unat mn" "unat mn \<le> unat mx" "unat mx \<le> 0xFFEF" "unat mn \<le> unat nx + 1" "unat nx \<le> unat mx"
    using assms(1) unat_sub [of 1 mn] by (auto simp: cntlids_ok_def word_le_nat_alt)
  then have n1: "unat (nx + 1) = unat nx + 1" by (subst unat_add_lem [THEN iffD1]) simp_all
  show u: "unat v = unat mn + q mod N"
  proof (cases "nx = mx")
    case True
    with o q N have "q = N" by simp
    with True show ?thesis
      using o n1 by (simp add: v_def word_less_nat_alt)
  next
    case False
    then have "unat nx \<noteq> unat mx" by (simp add: word_unat_eq_iff)
    then have "\<not> nx + 1 > mx" "q < N" using o n1 q N by (auto simp: word_less_nat_alt)
    with n1 o q show ?thesis by (simp add: v_def)
  qed
  have "q mod N < N" using N by simp
  then have "unat mn + q mod N \<le> unat mx" using o N by linarith
  with u o show "cntlids_ok mn mx v"
    using unat_sub [of 1 mn] by (simp add: cntlids_ok_def word_le_nat_alt)
  show "unat v + 1 - unat mn = q mod N + 1" using u by simp
qed

lemma gen_cntlid_loop_cases:
  assumes "cntlids_ok (sb_min_cntlid s) (sb_max_cntlid s) (sb_next_cntlid s)"
    and "q = unat (sb_next_cntlid s) + 1 - unat (sb_min_cntlid s)"
    and N: "N = unat (sb_max_cntlid s) - unat (sb_min_cntlid s) + 1"
  shows "\<exists>v nx. gen_cntlid_loop n s = (v, s\<lparr>sb_next_cntlid := nx\<rparr>) \<and>
    cntlids_ok (sb_min_cntlid s) (sb_max_cntlid s) nx \<and>
    ((\<exists>k < n. unat v = unat (sb_min_cntlid s) + (q + k) mod N \<and> \<not> cntlid_used s (unat v)) \<or>
     (v = 0xFFFF \<and> (\<forall>k < n. cntlid_used s (unat (sb_min_cntlid s) + (q + k) mod N))))"
  using assms
proof (induction n arbitrary: s q)
  case 0
  then show ?case by (intro exI [of _ "0xFFFF"] exI [of _ "sb_next_cntlid s"]) simp
next
  case (Suc n)
  let ?mn = "sb_min_cntlid s" and ?mx = "sb_max_cntlid s"
  define v where "v = (if sb_next_cntlid s + 1 > ?mx then ?mn else sb_next_cntlid s + 1)"
  note st = gen_cntlid_step [OF Suc.prems, folded v_def]
  define t where "t = s\<lparr>sb_next_cntlid := v\<rparr>"
  show ?case
  proof (cases "get_ctrlr (sb_ctrlrs s) v")
    case None
    then have "gen_cntlid_loop (Suc n) s = (v, t)" by (simp add: t_def v_def Let_def)
    moreover have "\<not> cntlid_used s (unat v)" using None by simp
    ultimately show ?thesis
      using st(1,2) by (intro exI [of _ v] exI [of _ v] conjI disjI1 exI [of _ 0]) (simp_all only: t_def, simp_all)
  next
    case (Some c)
    then have g: "gen_cntlid_loop (Suc n) s = gen_cntlid_loop n t" by (simp add: t_def v_def Let_def)
    have used: "cntlid_used s (unat ?mn + q mod N)" using Some st(1) cntlid_used_unat [of s v] by simp
    have "\<exists>w nx. gen_cntlid_loop n t = (w, t\<lparr>sb_next_cntlid := nx\<rparr>) \<and> cntlids_ok ?mn ?mx nx \<and>
      ((\<exists>k < n. unat w = unat ?mn + (q mod N + 1 + k) mod N \<and> \<not> cntlid_used t (unat w)) \<or>
       (w = 0xFFFF \<and> (\<forall>k < n. cntlid_used t (unat ?mn + (q mod N + 1 + k) mod N))))"
      using Suc.IH [of t "q mod N + 1"] st Suc.prems(3) by (simp add: t_def)
    then obtain w nx where w: "gen_cntlid_loop n t = (w, s\<lparr>sb_next_cntlid := nx\<rparr>)" "cntlids_ok ?mn ?mx nx"
      and d: "(\<exists>k < n. unat w = unat ?mn + (q mod N + 1 + k) mod N \<and> \<not> cntlid_used s (unat w)) \<or>
       (w = 0xFFFF \<and> (\<forall>k < n. cntlid_used s (unat ?mn + (q mod N + 1 + k) mod N)))"
      by (auto simp: t_def cntlid_used_def)
    have m: "(q mod N + 1 + k) mod N = (q + Suc k) mod N" for k
      by (metis add.assoc mod_add_left_eq plus_1_eq_Suc)
    from d have "(\<exists>k < Suc n. unat w = unat ?mn + (q + k) mod N \<and> \<not> cntlid_used s (unat w)) \<or>
       (w = 0xFFFF \<and> (\<forall>k < Suc n. cntlid_used s (unat ?mn + (q + k) mod N)))"
      unfolding m using used by (auto simp: less_Suc_eq_0_disj)
    with g w show ?thesis by auto
  qed
qed

lemma cyclic_cover: "(0::nat) < N \<Longrightarrow> x < N \<Longrightarrow> \<exists>k < N. (q + k) mod N = x"
proof -
  assume n: "0 < N" "x < N"
  let ?k = "(x + (N - q mod N)) mod N"
  have "(q + ?k) mod N = (q mod N + (x + (N - q mod N))) mod N" by (simp add: mod_simps)
  also have "q mod N + (x + (N - q mod N)) = x + N" using mod_less_divisor [OF n(1), of q] by linarith
  finally have "(q + ?k) mod N = x" using n by simp
  with n(1) show ?thesis by (intro exI [of _ ?k]) simp
qed

lemma gen_cntlid_spec:
  assumes "cntlids_ok (sb_min_cntlid s) (sb_max_cntlid s) (sb_next_cntlid s)"
  shows "\<exists>v nx. gen_cntlid s = (v, s\<lparr>sb_next_cntlid := nx\<rparr>) \<and>
    cntlids_ok (sb_min_cntlid s) (sb_max_cntlid s) nx \<and>
    ((sb_min_cntlid s \<le> v \<and> v \<le> sb_max_cntlid s \<and> get_ctrlr (sb_ctrlrs s) v = None) \<or>
     (v = 0xFFFF \<and> (\<forall>x. sb_min_cntlid s \<le> x \<and> x \<le> sb_max_cntlid s \<longrightarrow> get_ctrlr (sb_ctrlrs s) x \<noteq> None)))"
proof -
  let ?mn = "sb_min_cntlid s" and ?mx = "sb_max_cntlid s"
  define N where "N = unat ?mx - unat ?mn + 1"
  define q where "q = unat (sb_next_cntlid s) + 1 - unat ?mn"
  have le: "unat ?mn \<le> unat ?mx" using assms by (simp add: cntlids_ok_def word_le_nat_alt)
  then have n: "nat (uint ?mx - uint ?mn + 1) = N"
    unfolding N_def uint_nat by linarith
  have gl: "gen_cntlid s = gen_cntlid_loop N s" by (simp only: gen_cntlid_def n)
  obtain v nx where g: "gen_cntlid s = (v, s\<lparr>sb_next_cntlid := nx\<rparr>)" "cntlids_ok ?mn ?mx nx"
    and d: "(\<exists>k < N. unat v = unat ?mn + (q + k) mod N \<and> \<not> cntlid_used s (unat v)) \<or>
     (v = 0xFFFF \<and> (\<forall>k < N. cntlid_used s (unat ?mn + (q + k) mod N)))"
    using gen_cntlid_loop_cases [OF assms q_def N_def, of N] unfolding gl [symmetric]
    by (elim exE conjE) (rule that)
  from d have "(?mn \<le> v \<and> v \<le> ?mx \<and> get_ctrlr (sb_ctrlrs s) v = None) \<or>
     (v = 0xFFFF \<and> (\<forall>x. ?mn \<le> x \<and> x \<le> ?mx \<longrightarrow> get_ctrlr (sb_ctrlrs s) x \<noteq> None))"
  proof (elim disjE exE conjE)
    fix k assume v: "unat v = unat ?mn + (q + k) mod N" "\<not> cntlid_used s (unat v)"
    have "(q + k) mod N < N" by (simp add: N_def)
    then have "unat ?mn \<le> unat v \<and> unat v \<le> unat ?mx" using v(1) le N_def by linarith
    moreover have "get_ctrlr (sb_ctrlrs s) v = None" using v(2) by simp
    ultimately show ?thesis by (simp add: word_le_nat_alt)
  next
    assume v: "v = 0xFFFF" and all: "\<forall>k < N. cntlid_used s (unat ?mn + (q + k) mod N)"
    have "get_ctrlr (sb_ctrlrs s) x \<noteq> None" if "?mn \<le> x" "x \<le> ?mx" for x
    proof -
      have "unat x - unat ?mn < N" using that by (simp add: N_def word_le_nat_alt)
      then obtain k where "k < N" "(q + k) mod N = unat x - unat ?mn"
        using cyclic_cover [of N "unat x - unat ?mn" q] by (auto simp: N_def)
      with all that have "cntlid_used s (unat x)" by (fastforce simp: word_le_nat_alt)
      then show ?thesis by simp
    qed
    with v show ?thesis by blast
  qed
  with g show ?thesis by blast
qed

lemma set_cntlid_range_inv: "subsys_inv s \<Longrightarrow> subsys_inv (snd (set_cntlid_range mn mx s))"
proof -
  assume s: "subsys_inv s"
  have m: "unat (mn - 1) = unat mn - 1" "1 \<le> unat mn" if "mn \<noteq> 0"
    using that unat_sub [of 1 mn] by (simp_all add: Suc_le_eq unat_gt_0 word_le_nat_alt)
  have "cntlids_ok mn mx nx" if "mn \<le> mx" "mn \<noteq> 0" "mx \<le> MAX_CNTLID" "mn \<le> nx" "uint nx < uint mx" for nx
  proof -
    have "nx \<le> mx" using that(5) by (simp add: word_le_def)
    then show ?thesis using that m by (simp add: cntlids_ok_def word_le_nat_alt)
  qed
  moreover have "cntlids_ok mn mx (mn - 1)" if "mn \<le> mx" "mn \<noteq> 0" "mx \<le> MAX_CNTLID"
    using that m by (simp add: cntlids_ok_def word_le_nat_alt)
  ultimately show ?thesis
    using s by (auto simp: set_cntlid_range_def Let_def subsys_inv_def not_less)
qed

lemma add_ctrlr_inv: "subsys_inv s \<Longrightarrow> subsys_inv (snd (add_ctrlr c s))"
proof -
  assume s: "subsys_inv s"
  have new: "ctrlrs_ok (sb_ctrlrs s @ [d])" if "get_ctrlr (sb_ctrlrs s) (ct_cntlid d) = None" for d
    using s that ctrlrs.lookup_None_iff [of "sb_ctrlrs s" "ct_cntlid d"]
    by (simp add: subsys_inv_def ctrlrs_ok_def)
  have ck: "cntlids_ok (sb_min_cntlid s) (sb_max_cntlid s) (sb_next_cntlid s)"
    using s by (simp add: subsys_inv_def)
  from gen_cntlid_spec [OF ck] obtain v nx where g: "gen_cntlid s = (v, s\<lparr>sb_next_cntlid := nx\<rparr>)"
    and nx: "cntlids_ok (sb_min_cntlid s) (sb_max_cntlid s) nx"
    and v: "v \<noteq> 0xFFFF \<longrightarrow> get_ctrlr (sb_ctrlrs s) v = None" by blast
  show ?thesis
    using s g nx v new [of "c\<lparr>ct_cntlid := v\<rparr>"] new [of c]
    by (auto simp: add_ctrlr_def subsys_inv_def)
qed

lemma remove_ctrlr_inv: "subsys_inv s \<Longrightarrow> subsys_inv (remove_ctrlr a s)"
  by (simp add: remove_ctrlr_def subsys_inv_def ctrlrs_ok_def remove_by_def distinct_map_filter_key)

section \<open>Namespaces\<close>

lemma unat_minus_one: "(w :: u32) \<noteq> 0 \<Longrightarrow> unat (w - 1) = unat w - 1"
  by (metis One_nat_def unat_minus_one)

lemma unat_of_nat_slot: "i + 1 < 2 ^ 32 \<Longrightarrow> (of_nat (i + 1) :: u32) \<noteq> 0 \<and> unat (of_nat (i + 1) - 1 :: u32) = i"
proof -
  assume "i + 1 < 2 ^ 32"
  then have u: "unat (of_nat (i + 1) :: u32) = i + 1" by (rule unat_of_nat_u32)
  then have "(of_nat (i + 1) :: u32) \<noteq> 0" by (metis Suc_eq_plus1 nat.simps(3) unat_0)
  with u show ?thesis using unat_minus_one [of "of_nat (i + 1)"] by simp
qed

lemma unat_minus_one_less: "(w :: u32) \<noteq> 0 \<Longrightarrow> unat w \<le> n \<Longrightarrow> unat (w - 1) < n"
  using unat_minus_one [of w] unat_gt_0 [of w] by linarith

lemma ns_bdevs_Cons: "ns_bdevs (n # nss) =
    (case n of None \<Rightarrow> [] | Some ns \<Rightarrow> (case ns_bdev (sn_ns ns) of None \<Rightarrow> [] | Some u \<Rightarrow> [u])) @ ns_bdevs nss"
  by (simp add: ns_bdevs_def map_filter_simps split: option.splits)

lemma ns_bdevs_append: "ns_bdevs (as @ bs) = ns_bdevs as @ ns_bdevs bs"
  by (simp add: ns_bdevs_def List.map_filter_def)

lemma ns_bdevs_set:
  "i < length nss \<Longrightarrow> nss ! i = None \<Longrightarrow> ns_bdev (sn_ns ns) = Some u \<Longrightarrow>
     mset (ns_bdevs (nss[i := Some ns])) = add_mset u (mset (ns_bdevs nss))"
  "i < length nss \<Longrightarrow> nss ! i = Some ns \<Longrightarrow> ns_bdev (sn_ns ns) = Some u \<Longrightarrow>
     add_mset u (mset (ns_bdevs (nss[i := None]))) = mset (ns_bdevs nss)"
  by (simp_all add: upd_conv_take_nth_drop id_take_nth_drop [of i nss, THEN arg_cong [where f = "\<lambda>x. mset (ns_bdevs x)"]]
      ns_bdevs_append ns_bdevs_Cons)

lemma ctrlr_ns_changed_cntlid [simp]: "ct_cntlid (ctrlr_ns_changed nsid c) = ct_cntlid c"
  by (simp add: ctrlr_ns_changed_def)

lemma ns_changed_parts [simp]:
  "sb_ns (subsystem_ns_changed nsid s) = sb_ns s" "sb_ana_group (subsystem_ns_changed nsid s) = sb_ana_group s"
  "sb_open (subsystem_ns_changed nsid s) = sb_open s"
  by (simp_all add: subsystem_ns_changed_def)

text \<open>Everything but the namespaces, the ANA group counts and what follows from them.\<close>

definition ns_frame :: "spdk_nvmf_subsystem \<Rightarrow> spdk_nvmf_subsystem \<Rightarrow> bool" where
  "ns_frame s s' \<longleftrightarrow> sb_hosts s' = sb_hosts s \<and> sb_listeners s' = sb_listeners s \<and>
     sb_used_listener_ids s' = sb_used_listener_ids s \<and>
     map ct_cntlid (sb_ctrlrs s') = map ct_cntlid (sb_ctrlrs s) \<and> sb_min_cntlid s' = sb_min_cntlid s \<and>
     sb_max_cntlid s' = sb_max_cntlid s \<and> sb_next_cntlid s' = sb_next_cntlid s \<and>
     length (sb_ns s') = length (sb_ns s) \<and> sb_state s' = sb_state s \<and>
     sb_ana_reporting s' = sb_ana_reporting s"

lemma ns_frame_inv: "subsys_inv s \<Longrightarrow> ns_frame s s' \<Longrightarrow>
    namespaces_ok (sb_ns s') (sb_ana_group s') (sb_open s') \<Longrightarrow> subsys_inv s'"
  by (simp add: ns_frame_def subsys_inv_def ctrlrs_ok_def)

lemma restore_keeps_ids:
  assumes "reservation_restore parse j1 j2 mem info ns = (rc, ns')"
  shows "ns_nsid ns' = ns_nsid ns \<and> ns_bdev ns' = ns_bdev ns"
proof -
  have r: "ns_nsid (snd (restore_registrants parse m rs n)) = ns_nsid n \<and>
      ns_bdev (snd (restore_registrants parse m rs n)) = ns_bdev n" for m rs n
    by (induction rs arbitrary: m n) (auto split: list.splits option.splits)
  let ?ns1 = "ns\<lparr>ns_crkey := ri_crkey info, ns_rtype := ri_rtype info,
    ns_ptpl_activated := ri_ptpl_activated info\<rparr>"
  obtain rc2 n2 where n2: "restore_registrants parse mem (ri_registrants info) ?ns1 = (rc2, n2)"
    by (rule prod.exhaust)
  then have "ns_nsid n2 = ns_nsid ns \<and> ns_bdev n2 = ns_bdev ns"
    using r [of mem "ri_registrants info" ?ns1] by simp
  then show ?thesis using assms n2 by (simp add: reservation_restore_def Let_def split: if_splits) auto
qed

text \<open>The count of an ANA group is incremented.\<close>

definition inc_group :: "nat \<Rightarrow> u32 list \<Rightarrow> u32 list" where
  "inc_group g gs = gs[g := gs ! g + 1]"

lemma length_inc_group [simp]: "length (inc_group g gs) = length gs"
  by (simp add: inc_group_def)

text \<open>A namespace is in its slot, or the slot is empty again; the count is raised in both cases.\<close>

lemma attach_ns_cases:
  assumes i: "i = unat (nsid - 1)" and free: "sb_ns s ! i = None" and "i < length (sb_ns s)"
    and id: "ns_nsid (sn_ns ns) = nsid" "ns_bdev (sn_ns ns) = Some u"
    and a: "attach_ns env nsid ns u s = (rc, s')"
  shows "ns_frame s s' \<and> sb_ana_group s' = inc_group (unat (sn_anagrpid ns - 1)) (sb_ana_group s) \<and>
    ((rc = 0 \<and> sb_ns s' = sb_ns s \<and> sb_open s' = remove1 u (sb_open s)) \<or>
     (\<exists>ns'. rc = nsid \<and> sb_ns s' = (sb_ns s)[i := Some ns'] \<and> sb_open s' = sb_open s \<and>
        ns_nsid (sn_ns ns') = nsid \<and> ns_bdev (sn_ns ns') = Some u \<and> sn_anagrpid ns' = sn_anagrpid ns))"
proof -
  let ?g = "unat (sn_anagrpid ns - 1)"
  let ?s1 = "(set_ns i ns s)\<lparr>sb_ana_group := (sb_ana_group s)[?g := sb_ana_group s ! ?g + 1]\<rparr>"
  define fin where "fin = (\<lambda>(ns' :: subsys_ns) s'.
      if \<exists>rc \<in> set (ne_transports env). rc \<noteq> 0 then add_ns_err i u s'
      else (nsid, subsystem_ns_changed nsid s'))"
  define goal where "goal = (\<lambda>(rc, s'). ns_frame s s' \<and> sb_ana_group s' = inc_group ?g (sb_ana_group s) \<and>
    ((rc = (0 :: u32) \<and> sb_ns s' = sb_ns s \<and> sb_open s' = remove1 u (sb_open s)) \<or>
     (\<exists>ns'. rc = nsid \<and> sb_ns s' = (sb_ns s)[i := Some ns'] \<and> sb_open s' = sb_open s \<and>
        ns_nsid (sn_ns ns') = nsid \<and> ns_bdev (sn_ns ns') = Some u \<and> sn_anagrpid ns' = sn_anagrpid ns)))"
  have upd: "(sb_ns s)[i := None] = sb_ns s" using free by (simp add: list_update_same_conv assms(3))
  have err: "goal (add_ns_err i u ?s1)"
    by (simp add: goal_def add_ns_err_def set_ns_def ns_frame_def inc_group_def upd)
  have fin: "goal (fin ns' (?s1\<lparr>sb_ns := (sb_ns s)[i := Some ns']\<rparr>))"
    if "ns_nsid (sn_ns ns') = nsid" "ns_bdev (sn_ns ns') = Some u" "sn_anagrpid ns' = sn_anagrpid ns" for ns'
    using that by (auto simp: goal_def fin_def add_ns_err_def set_ns_def ns_frame_def inc_group_def upd
        subsystem_ns_changed_def)
  have s1: "?s1 = ?s1\<lparr>sb_ns := (sb_ns s)[i := Some ns]\<rparr>" by (simp add: set_ns_def)
  have s2: "set_ns i ns' ?s1 = ?s1\<lparr>sb_ns := (sb_ns s)[i := Some ns']\<rparr>" for ns' by (simp add: set_ns_def)
  have at: "attach_ns env nsid ns u s =
     (case ne_ptpl_file env of
        None \<Rightarrow> fin ns ?s1
      | Some pf \<Rightarrow>
          let (rc, r) = (case ne_load env of None \<Rightarrow> (0, sn_ns ns)
                | Some info \<Rightarrow> reservation_restore (ne_parse env) (ne_junk1 env) (ne_junk2 env)
                    (ne_resv_mem env) info (sn_ns ns))
          in if rc \<noteq> 0 then add_ns_err i u ?s1
             else if \<not> ne_strdup env then add_ns_err i u ?s1
             else let ns' = ns\<lparr>sn_ns := r\<lparr>ns_ptpl_file := Some pf\<rparr>\<rparr> in fin ns' (set_ns i ns' ?s1))"
    by (simp only: attach_ns_def Let_def i fin_def)
  have "goal (attach_ns env nsid ns u s)"
  proof (cases "ne_ptpl_file env")
    case None
    then show ?thesis using fin [of ns] id s1 by (simp add: at)
  next
    case (Some pf)
    obtain rc r where r: "(case ne_load env of None \<Rightarrow> (0, sn_ns ns)
        | Some info \<Rightarrow> reservation_restore (ne_parse env) (ne_junk1 env) (ne_junk2 env)
            (ne_resv_mem env) info (sn_ns ns)) = (rc, r)" by (rule prod.exhaust)
    then have "ns_nsid r = nsid \<and> ns_bdev r = Some u"
      using id by (cases "ne_load env") (auto dest: restore_keeps_ids)
    then have "goal (fin (ns\<lparr>sn_ns := r\<lparr>ns_ptpl_file := Some pf\<rparr>\<rparr>)
        (set_ns i (ns\<lparr>sn_ns := r\<lparr>ns_ptpl_file := Some pf\<rparr>\<rparr>) ?s1))"
      unfolding s2 by (intro fin) simp_all
    then show ?thesis unfolding at Some using r err by (simp add: Let_def)
  qed
  then show ?thesis unfolding a goal_def by simp
qed

lemma first_free_nsid_pos:
  "length (sb_ns s) < 2 ^ 32 - 1 \<Longrightarrow> unat (first_free_nsid s) = length (takeWhile (\<lambda>n. n \<noteq> None) (sb_ns s)) + 1"
proof -
  assume "length (sb_ns s) < 2 ^ 32 - 1"
  moreover have "length (takeWhile (\<lambda>n. n \<noteq> None) (sb_ns s)) \<le> length (sb_ns s)"
    by (rule length_takeWhile_le)
  ultimately have "length (takeWhile (\<lambda>n. n \<noteq> None) (sb_ns s)) + 1 < 2 ^ 32" by linarith
  then show ?thesis unfolding first_free_nsid_def by (rule unat_of_nat_u32)
qed

definition ns_added :: "u32 \<Rightarrow> spdk_nvmf_subsystem \<Rightarrow> spdk_nvmf_subsystem \<Rightarrow> bool" where
  "ns_added rc s s' \<longleftrightarrow> (\<exists>ns u. rc \<noteq> 0 \<and> unat (rc - 1) < length (sb_ns s) \<and> sb_ns s ! unat (rc - 1) = None \<and>
     sb_ns s' = (sb_ns s)[unat (rc - 1) := Some ns] \<and> sb_open s' = u # sb_open s \<and>
     ns_nsid (sn_ns ns) = rc \<and> ns_bdev (sn_ns ns) = Some u \<and> sn_anagrpid ns \<noteq> 0 \<and>
     unat (sn_anagrpid ns) \<le> length (sb_ns s) \<and>
     sb_ana_group s' = inc_group (unat (sn_anagrpid ns - 1)) (sb_ana_group s))"

definition ns_not_added :: "u32 \<Rightarrow> spdk_nvmf_subsystem \<Rightarrow> spdk_nvmf_subsystem \<Rightarrow> bool" where
  "ns_not_added rc s s' \<longleftrightarrow> rc = 0 \<and> sb_ns s' = sb_ns s \<and> sb_open s' = sb_open s \<and>
     (sb_ana_group s' = sb_ana_group s \<or>
      (\<exists>g < length (sb_ns s). sb_ana_group s' = inc_group g (sb_ana_group s)))"

lemma ns_frame_refl: "ns_frame s s"
  by (simp add: ns_frame_def)

lemma attach_added:
  assumes a: "attach_ns env nsid ns u s1 = (rc, s')"
    and s1: "s1 = s\<lparr>sb_open := u # sb_open s, sb_zone_append_supported := z, sb_max_zone_append_size_kib := k\<rparr>"
    and n: "nsid \<noteq> 0" "unat (nsid - 1) < length (sb_ns s)" "sb_ns s ! unat (nsid - 1) = None"
    and ns: "ns_nsid (sn_ns ns) = nsid" "ns_bdev (sn_ns ns) = Some u" "sn_anagrpid ns \<noteq> 0"
      "unat (sn_anagrpid ns) \<le> length (sb_ns s)"
  shows "ns_frame s s' \<and> (ns_added rc s s' \<or> ns_not_added rc s s')"
proof -
  have g: "unat (sn_anagrpid ns - 1) < length (sb_ns s)"
    using ns(3,4) by (simp add: unat_minus_one unat_gt_0) (metis Suc_le_lessD Suc_pred unat_gt_0)
  have f: "ns_frame s1 s' \<longleftrightarrow> ns_frame s s'" by (simp add: s1 ns_frame_def)
  have sf: "sb_ns s1 = sb_ns s" "sb_open s1 = u # sb_open s" "sb_ana_group s1 = sb_ana_group s"
    by (simp_all add: s1)
  from attach_ns_cases [OF refl _ _ ns(1,2) a] n(2,3) sf f
  have "ns_frame s s'" and gr: "sb_ana_group s' = inc_group (unat (sn_anagrpid ns - 1)) (sb_ana_group s)"
    and d: "(rc = 0 \<and> sb_ns s' = sb_ns s \<and> sb_open s' = sb_open s) \<or>
     (\<exists>ns'. rc = nsid \<and> sb_ns s' = (sb_ns s)[unat (nsid - 1) := Some ns'] \<and> sb_open s' = u # sb_open s \<and>
        ns_nsid (sn_ns ns') = nsid \<and> ns_bdev (sn_ns ns') = Some u \<and> sn_anagrpid ns' = sn_anagrpid ns)"
    by simp_all
  have "ns_added rc s s' \<or> ns_not_added rc s s'"
    using d
  proof (elim disjE exE conjE)
    assume "rc = 0" "sb_ns s' = sb_ns s" "sb_open s' = sb_open s"
    then show ?thesis using gr g by (auto simp: ns_not_added_def)
  next
    fix ns' assume "rc = nsid" "sb_ns s' = (sb_ns s)[unat (nsid - 1) := Some ns']" "sb_open s' = u # sb_open s"
      "ns_nsid (sn_ns ns') = nsid" "ns_bdev (sn_ns ns') = Some u" "sn_anagrpid ns' = sn_anagrpid ns"
    then show ?thesis unfolding ns_added_def using n ns gr by (intro disjI1 exI [of _ ns'] exI [of _ u]) simp
  qed
  with \<open>ns_frame s s'\<close> show ?thesis by blast
qed

lemma get_ns_slot:
  assumes "get_ns s nsid = None" "nsid \<noteq> 0" "unat nsid \<le> length (sb_ns s)"
  shows "unat (nsid - 1) < length (sb_ns s)" "sb_ns s ! unat (nsid - 1) = None"
proof -
  have "unat nsid > 0" using assms(2) by (simp add: unat_gt_0)
  then show l: "unat (nsid - 1) < length (sb_ns s)" using assms(2,3) by (simp add: unat_minus_one)
  then show "sb_ns s ! unat (nsid - 1) = None" using assms(1) by (simp add: get_ns_def max_nsid_def)
qed

lemma ns_refused: "ns_frame s s \<and> (ns_added 0 s s \<or> ns_not_added 0 s s)"
  by (simp add: ns_frame_refl ns_not_added_def)

lemma claim_ns_cases:
  assumes c: "claim_ns env opts nsid grp b s = (rc, s')"
    and n: "nsid \<noteq> 0" "unat (nsid - 1) < length (sb_ns s)" "sb_ns s ! unat (nsid - 1) = None"
    and g: "grp \<noteq> 0" "unat grp \<le> length (sb_ns s)"
  shows "ns_frame s s' \<and> (ns_added rc s s' \<or> ns_not_added rc s s')"
proof -
  let ?u = "bi_uuid b"
  define ns where "ns = \<lparr>sn_ns = new_ns nsid ?u, sn_anagrpid = grp,
    sn_nguid = (if no_nguid opts = 0 then ?u else no_nguid opts), sn_eui64 = no_eui64 opts,
    sn_uuid = (if no_uuid opts = 0 then ?u else no_uuid opts), sn_zcopy = bi_zcopy b, sn_zns = bi_zoned b\<rparr>"
  define k where "k = (ucast (bi_max_zone_append_size b * bi_block_size b) :: u64)"
  define s1 where "s1 = s\<lparr>sb_open := ?u # sb_open s\<rparr>"
  define s2 where "s2 = s1\<lparr>sb_zone_append_supported := bi_zone_append b, sb_max_zone_append_size_kib := k\<rparr>"
  have ns: "ns_nsid (sn_ns ns) = nsid" "ns_bdev (sn_ns ns) = Some ?u" "sn_anagrpid ns \<noteq> 0"
    "unat (sn_anagrpid ns) \<le> length (sb_ns s)"
    using g by (simp_all add: ns_def new_ns_def)
  have e: "add_ns_err (unat (nsid - 1)) ?u s1 = (0, s)"
    using n by (simp add: add_ns_err_def s1_def list_update_same_conv)
  have s1': "s1 = s\<lparr>sb_open := ?u # sb_open s, sb_zone_append_supported := sb_zone_append_supported s,
      sb_max_zone_append_size_kib := sb_max_zone_append_size_kib s\<rparr>"
    and s2': "s2 = s\<lparr>sb_open := ?u # sb_open s, sb_zone_append_supported := bi_zone_append b,
      sb_max_zone_append_size_kib := k\<rparr>" by (simp_all add: s1_def s2_def)
  have "claim_ns env opts nsid grp b s = (0, s) \<or> claim_ns env opts nsid grp b s = attach_ns env nsid ns ?u s1 \<or>
      claim_ns env opts nsid grp b s = attach_ns env nsid ns ?u s2"
    unfolding claim_ns_def Let_def s1_def [symmetric] k_def [symmetric] ns_def [symmetric] s2_def [symmetric] e
    by simp
  then show ?thesis
  proof (elim disjE)
    assume "claim_ns env opts nsid grp b s = (0, s)"
    with c show ?thesis using ns_refused by simp
  next
    assume "claim_ns env opts nsid grp b s = attach_ns env nsid ns ?u s1"
    then have "attach_ns env nsid ns ?u s1 = (rc, s')" using c by simp
    then show ?thesis by (rule attach_added [OF _ s1' n ns])
  next
    assume "claim_ns env opts nsid grp b s = attach_ns env nsid ns ?u s2"
    then have "attach_ns env nsid ns ?u s2 = (rc, s')" using c by simp
    then show ?thesis by (rule attach_added [OF _ s2' n ns])
  qed
qed

lemma add_ns_cases:
  assumes inv: "subsys_inv s" and a: "add_ns env opts s = (rc, s')"
  shows "ns_frame s s' \<and> (ns_added rc s s' \<or> ns_not_added rc s s')"
proof -
  define op where "op = (case opts of None \<Rightarrow> ns_opts_defaults | Some o' \<Rightarrow> o')"
  define nsid where "nsid = (if no_nsid op = 0 then first_free_nsid s else no_nsid op)"
  define grp where "grp = (if no_anagrpid op = 0 then nsid else no_anagrpid op)"
  have l: "length (sb_ns s) < 2 ^ 32 - 1" using inv by (simp add: subsys_inv_def namespaces_ok_def)
  have "first_free_nsid s \<noteq> 0" using first_free_nsid_pos [OF l] by (metis Suc_eq_plus1 nat.simps(3) unat_0)
  then have n0: "nsid \<noteq> 0" by (simp add: nsid_def)
  then have g0: "grp \<noteq> 0" by (simp add: grp_def)
  note def = add_ns_def Let_def op_def [symmetric] nsid_def [symmetric] grp_def [symmetric]
  show ?thesis
  proof (cases "may_change s \<and> no_nsid op \<noteq> 0xFFFFFFFF \<and> get_ns s nsid = None \<and>
      unat nsid \<le> max_nsid s \<and> unat grp \<le> max_nsid s \<and> ne_mem env \<and> ne_bdev env \<noteq> None")
    case True
    then obtain b where "claim_ns env op nsid grp b s = (rc, s')"
      using a unfolding def by auto
    moreover have "unat (nsid - 1) < length (sb_ns s)" "sb_ns s ! unat (nsid - 1) = None"
      using get_ns_slot [of s nsid] True n0 by (simp_all add: max_nsid_def)
    ultimately show ?thesis
      using claim_ns_cases [OF _ n0 _ _ g0] True by (simp add: max_nsid_def)
  next
    case False
    then have "(rc, s') = (0, s)" using a unfolding def by (auto split: if_splits option.splits)
    then show ?thesis using ns_refused by simp
  qed
qed

lemma namespaces_ok_added:
  assumes n: "namespaces_ok (sb_ns s) (sb_ana_group s) (sb_open s)" and a: "ns_added rc s s'"
  shows "namespaces_ok (sb_ns s') (sb_ana_group s') (sb_open s')"
proof -
  from a obtain ns u where rc: "rc \<noteq> 0" "unat (rc - 1) < length (sb_ns s)" "sb_ns s ! unat (rc - 1) = None"
    and s': "sb_ns s' = (sb_ns s)[unat (rc - 1) := Some ns]" "sb_open s' = u # sb_open s"
      "sb_ana_group s' = inc_group (unat (sn_anagrpid ns - 1)) (sb_ana_group s)"
    and ns: "ns_nsid (sn_ns ns) = rc" "ns_bdev (sn_ns ns) = Some u" "sn_anagrpid ns \<noteq> 0"
      "unat (sn_anagrpid ns) \<le> length (sb_ns s)"
    unfolding ns_added_def by (elim exE conjE) (rule that)
  have "unat rc > 0" using rc(1) by (simp add: unat_gt_0)
  then have "ns_entry_ok (length (sb_ns s)) (unat (rc - 1)) ns"
    using ns rc(1) by (simp add: ns_entry_ok_def unat_minus_one)
  then show ?thesis
    using n rc(2) ns_bdevs_set(1) [OF rc(2,3) ns(2)]
    by (auto simp: namespaces_ok_def s' nth_list_update)
qed

lemma namespaces_ok_not_added:
  "namespaces_ok (sb_ns s) (sb_ana_group s) (sb_open s) \<Longrightarrow> ns_not_added rc s s' \<Longrightarrow>
     namespaces_ok (sb_ns s') (sb_ana_group s') (sb_open s')"
  by (auto simp: namespaces_ok_def ns_not_added_def)

lemma add_ns_inv: "subsys_inv s \<Longrightarrow> subsys_inv (snd (add_ns env opts s))"
proof -
  assume s: "subsys_inv s"
  obtain rc s' where a: "add_ns env opts s = (rc, s')" by (rule prod.exhaust)
  from add_ns_cases [OF s a] s show ?thesis
    unfolding a snd_conv
    by (intro ns_frame_inv [OF s]) (auto simp: subsys_inv_def intro: namespaces_ok_added namespaces_ok_not_added)
qed

definition dec_group :: "nat \<Rightarrow> u32 list \<Rightarrow> u32 list" where
  "dec_group g gs = gs[g := gs ! g - 1]"

lemma length_dec_group [simp]: "length (dec_group g gs) = length gs"
  by (simp add: dec_group_def)

text \<open>Removal of a namespace succeeds whenever there is one, and never reaches outside the array of
  ANA groups.\<close>

lemma remove_ns_cases:
  assumes "subsys_inv s"
  shows "remove_ns nsid s = Inr (- 1, s) \<or> (\<exists>ns u s'. remove_ns nsid s = Inr (0, s') \<and> may_change s \<and>
     nsid \<noteq> 0 \<and> unat (nsid - 1) < length (sb_ns s) \<and> sb_ns s ! unat (nsid - 1) = Some ns \<and>
     ns_bdev (sn_ns ns) = Some u \<and> ns_frame s s' \<and> sb_ns s' = (sb_ns s)[unat (nsid - 1) := None] \<and>
     sb_open s' = remove1 u (sb_open s) \<and>
     sb_ana_group s' = dec_group (unat (sn_anagrpid ns - 1)) (sb_ana_group s))"
proof (cases "may_change s \<and> nsid \<noteq> 0 \<and> unat nsid \<le> max_nsid s \<and> sb_ns s ! unat (nsid - 1) \<noteq> None")
  case True
  then obtain ns where ns: "sb_ns s ! unat (nsid - 1) = Some ns" by blast
  have i: "unat (nsid - 1) < length (sb_ns s)" using True by (simp add: unat_minus_one_less max_nsid_def)
  with assms ns have e: "ns_entry_ok (length (sb_ns s)) (unat (nsid - 1)) ns"
    by (simp add: subsys_inv_def namespaces_ok_def)
  then obtain u where u: "ns_bdev (sn_ns ns) = Some u" by (auto simp: ns_entry_ok_def)
  have g: "unat (sn_anagrpid ns - 1) < length (sb_ana_group s)"
    using e assms by (simp add: ns_entry_ok_def unat_minus_one_less subsys_inv_def namespaces_ok_def)
  show ?thesis
    using True ns u g i
    by (intro disjI2) (simp add: remove_ns_def ns_frame_def subsystem_ns_changed_def dec_group_def max_nsid_def Let_def)
next
  case False
  then show ?thesis by (auto simp: remove_ns_def)
qed

lemma remove_ns_inv: "subsys_inv s \<Longrightarrow> remove_ns nsid s = Inr (rc, s') \<Longrightarrow> subsys_inv s'"
proof -
  assume s: "subsys_inv s" and r: "remove_ns nsid s = Inr (rc, s')"
  from remove_ns_cases [OF s, of nsid] show ?thesis
  proof (elim disjE exE conjE)
    assume "remove_ns nsid s = Inr (- 1, s)" with r s show ?thesis by simp
  next
    fix ns u t
    assume t: "remove_ns nsid s = Inr (0, t)" and i: "unat (nsid - 1) < length (sb_ns s)"
      "sb_ns s ! unat (nsid - 1) = Some ns" and u: "ns_bdev (sn_ns ns) = Some u"
      and f: "ns_frame s t" "sb_ns t = (sb_ns s)[unat (nsid - 1) := None]" "sb_open t = remove1 u (sb_open s)"
      "sb_ana_group t = dec_group (unat (sn_anagrpid ns - 1)) (sb_ana_group s)"
    have n: "namespaces_ok (sb_ns s) (sb_ana_group s) (sb_open s)" using s by (simp add: subsys_inv_def)
    have b: "mset (ns_bdevs (sb_ns s)) = add_mset u (mset (ns_bdevs ((sb_ns s)[unat (nsid - 1) := None])))"
      using ns_bdevs_set(2) [OF i u] by simp
    have "mset (remove1 u (sb_open s)) = mset (ns_bdevs ((sb_ns s)[unat (nsid - 1) := None]))"
      using n unfolding namespaces_ok_def by (simp add: b)
    then have "namespaces_ok (sb_ns t) (sb_ana_group t) (sb_open t)"
      using n i(1) by (auto simp: namespaces_ok_def f(2-4) nth_list_update split: if_splits)
    with ns_frame_inv [OF s f(1)] r t show ?thesis by simp
  qed
qed

section \<open>ANA states\<close>

lemma async_notice_cntlid [simp]:
  "ct_cntlid (async_event_ana_change_notice m c) = ct_cntlid c"
  by (simp add: async_event_ana_change_notice_def notify_masked_def mask_aen_def
      async_event_notification_def queue_pending_async_event_def reply_aer_def Let_def)

lemma listeners_ok_ana:
  "listeners_ok n used ls \<Longrightarrow> length states = n \<Longrightarrow>
     listeners_ok n used (update_by sl_addr a (\<lambda>l. l\<lparr>sl_ana_state := states,
       sl_ana_state_change_count := sl_ana_state_change_count l + 1\<rparr>) ls)"
  by (auto simp: listeners_ok_def update_by_map_same set_update_by)

lemma set_ana_state_inv:
  assumes s: "subsys_inv s"
  shows "\<exists>rc s'. set_ana_state mem admin mem_ev t st g s = Inr (rc, s') \<and> subsys_inv s'"
proof (cases "find_listener (sb_listeners s) t")
  case None
  then show ?thesis using s by (simp add: set_ana_state_def)
next
  case (Some l)
  then have l: "length (sl_ana_state l) = length (sb_ns s)"
    using s listeners.lookup_SomeD [OF Some] by (simp add: subsys_inv_def listeners_ok_def)
  have inv: "subsys_inv (listener_update admin mem_ev a (s\<lparr>sb_listeners := update_by sl_addr a
      (\<lambda>l. l\<lparr>sl_ana_state := states, sl_ana_state_change_count := sl_ana_state_change_count l + 1\<rparr>)
      (sb_listeners s)\<rparr>))" if "length states = length (sb_ns s)" for a states
    using s that by (simp add: subsys_inv_def listener_update_def listeners_ok_ana map_cntlid_cong)
  have "\<not> unat (g - 1) \<ge> length (sl_ana_state l)" if "g \<noteq> 0" "\<not> unat g > max_nsid s"
    using that l unat_minus_one_less [of g "max_nsid s"] by (simp add: max_nsid_def)
  then have g: "g \<noteq> 0 \<and> unat (g - 1) \<ge> length (sl_ana_state l) \<longrightarrow> unat g > max_nsid s" by blast
  have inv0: "subsys_inv (listener_update admin mem_ev (sl_addr l) (s\<lparr>sb_listeners := update_by sl_addr (sl_addr l)
      (\<lambda>x. x\<lparr>sl_ana_state := if g = 0 then replicate (max_nsid s) st else (sl_ana_state l)[unat (g - 1) := st],
              sl_ana_state_change_count := sl_ana_state_change_count x + 1\<rparr>) (sb_listeners s)\<rparr>))"
    by (rule inv) (simp add: max_nsid_def l)
  define b1 where "b1 \<longleftrightarrow> st \<notin> {ANA_OPTIMIZED, ANA_NON_OPTIMIZED, ANA_INACCESSIBLE}"
  define b2 where "b2 \<longleftrightarrow> g \<noteq> 0 \<and> sl_ana_state l ! unat (g - 1) = st"
  show ?thesis
    unfolding set_ana_state_def Let_def Some option.case b1_def [symmetric] b2_def [symmetric]
    using s g inv0 by (cases "g = 0") simp_all
qed

lemma new_subsystem_inv: "num_ns < 2 ^ 32 - 1 \<Longrightarrow> subsys_inv (new_subsystem sid nqn d num_ns)"
proof -
  assume n: "num_ns < 2 ^ 32 - 1"
  have "ns_bdevs (replicate k None) = []" for k by (induction k) (auto simp: ns_bdevs_Cons, simp add: ns_bdevs_def List.map_filter_def)
  with n show ?thesis
    by (simp add: subsys_inv_def new_subsystem_def hosts_ok_def listeners_ok_def ctrlrs_ok_def cntlids_ok_def
        namespaces_ok_def)
qed

section \<open>The subsystem as a state machine\<close>

datatype subsys_event =
    AddHost bool string
  | RemoveHost string
  | AllowAnyHost bool
  | AddListener bool bool bool int addr trid
  | RemoveListener trid
  | AddNs ns_env "spdk_nvmf_ns_opts option"
  | RemoveNs u32
  | SetCntlidRange u16 u16
  | AddCtrlr spdk_nvmf_ctrlr
  | RemoveCtrlr addr
  | SetAnaReporting bool
  | SetAnaState bool "addr \<Rightarrow> bool" "addr \<Rightarrow> bool" trid ana_state u32
  | StateChanges spdk_nvmf_subsystem_state

fun subsys_step :: "(string \<Rightarrow> int) \<Rightarrow> (string \<Rightarrow> uuid option) \<Rightarrow> spdk_nvmf_subsystem \<Rightarrow> subsys_event \<Rightarrow>
    fault + spdk_nvmf_subsystem" where
  "subsys_step utf8 parse s (AddHost mem h) = Inr (snd (add_host utf8 parse mem h s))"
| "subsys_step utf8 parse s (RemoveHost h) = Inr (snd (remove_host h s))"
| "subsys_step utf8 parse s (AllowAnyHost b) = Inr (set_allow_any_host b s)"
| "subsys_step utf8 parse s (AddListener tr mem ma assoc a t) = Inr (snd (add_listener tr mem ma assoc a t s))"
| "subsys_step utf8 parse s (RemoveListener t) = Inr (snd (remove_listener t s))"
| "subsys_step utf8 parse s (AddNs env opts) = Inr (snd (add_ns env opts s))"
| "subsys_step utf8 parse s (RemoveNs nsid) = bindR (remove_ns nsid s) (\<lambda>(_, s'). Inr s')"
| "subsys_step utf8 parse s (SetCntlidRange mn mx) = Inr (snd (set_cntlid_range mn mx s))"
| "subsys_step utf8 parse s (AddCtrlr c) = Inr (snd (add_ctrlr c s))"
| "subsys_step utf8 parse s (RemoveCtrlr a) = Inr (remove_ctrlr a s)"
| "subsys_step utf8 parse s (SetAnaReporting b) = Inr (snd (set_ana_reporting b s))"
| "subsys_step utf8 parse s (SetAnaState mem admin mem_ev t st g) =
     bindR (set_ana_state mem admin mem_ev t st g s) (\<lambda>(_, s'). Inr s')"
| "subsys_step utf8 parse s (StateChanges st) = Inr (s\<lparr>sb_state := st\<rparr>)"

text \<open>A new listener is a new object.\<close>

fun subsys_ok :: "spdk_nvmf_subsystem \<Rightarrow> subsys_event \<Rightarrow> bool" where
  "subsys_ok s (AddListener tr mem ma assoc a t) \<longleftrightarrow> a \<notin> sl_addr ` set (sb_listeners s)"
| "subsys_ok s _ \<longleftrightarrow> True"

lemma subsys_step_inv:
  assumes s: "subsys_inv s" and ok: "subsys_ok s e"
  shows "\<exists>s'. subsys_step utf8 parse s e = Inr s' \<and> subsys_inv s'"
proof (cases e)
  case (RemoveNs nsid)
  then show ?thesis using remove_ns_cases [OF s, of nsid] remove_ns_inv [OF s, of nsid] s by auto
next
  case (SetAnaState mem admin mem_ev t st g)
  then show ?thesis using set_ana_state_inv [OF s, of mem admin mem_ev t st g] by auto
qed (use s ok in \<open>simp_all add: add_host_inv remove_host_inv set_allow_any_host_inv add_listener_inv
      remove_listener_inv add_ns_inv set_cntlid_range_inv add_ctrlr_inv remove_ctrlr_inv
      set_ana_reporting_def, simp_all add: subsys_inv_def\<close>)

interpretation subsys_ops: guarded_stepper "subsys_step utf8 parse" subsys_ok subsys_inv for utf8 parse
  by unfold_locales (metis subsys_step_inv sum.inject(2))

end
