(* ===== verification/Subsys_Props.thy ===== *)
theory Subsys_Props
  imports Subsys_Inv
begin

text \<open>
  What the operations of a subsystem promise: totality and the invariant in every reachable
  state, access control, the choice of controller ids, listener ids, the round trip of
  namespaces, ANA states, destruction.
\<close>

section \<open>A new subsystem\<close>

text \<open>C21. In every state that a new subsystem can reach by adding and removing hosts, listeners,
  namespaces and controllers, setting ranges and ANA states, every further operation returns
  (no access is outside an array, no null pointer is dereferenced), and the invariant of the
  subsystem holds before and after it: host names, transport ids, listener ids and controller
  ids are unique, every listener holds an id marked as used and one ANA state per namespace
  slot, every namespace is in the slot of its id and in an existing ANA group, exactly the
  block devices of the namespaces are open, and the range of controller ids is valid.\<close>

theorem subsystem_operations_total:
  assumes "num_ns < 2 ^ 32 - 1"
    and "guarded_reach (subsys_step utf8 parse) subsys_ok (new_subsystem sid nqn d num_ns) s"
    and "subsys_ok s e"
  shows "subsys_inv s \<and> (\<exists>s'. subsys_step utf8 parse s e = Inr s' \<and> subsys_inv s')"
  using subsys_ops.reach_inv [OF assms(2) new_subsystem_inv [OF assms(1)]] assms(3)
  by (blast intro: subsys_step_inv)

section \<open>Access control\<close>

lemma find_host_iff [simp]: "find_host hs x = None \<longleftrightarrow> x \<notin> set hs"
  using hosts.lookup_None_iff [of hs x] by simp

lemma update_discovery_any [simp]:
  "sb_allow_any_host (update_discovery_log h s) = sb_allow_any_host s"
  by (simp add: update_discovery_log_def)

lemma host_allowed_Some: "host_allowed s (Some x) \<longleftrightarrow> sb_allow_any_host s \<or> x \<in> set (sb_hosts s)"
  by (simp add: host_allowed_def)

lemma add_host_parts:
  "sb_allow_any_host (snd (add_host utf8 parse mem h s)) = sb_allow_any_host s"
  "set (sb_hosts (snd (add_host utf8 parse mem h s))) =
     set (sb_hosts s) \<union> (if fst (add_host utf8 parse mem h s) = 0 then {h} else {})"
  by (auto simp: add_host_def Let_def valid_nqn_length)

lemma remove_host_parts:
  "sb_allow_any_host (snd (remove_host h s)) = sb_allow_any_host s"
  "sb_hosts (snd (remove_host h s)) = remove1 h (sb_hosts s)"
  "fst (remove_host h s) = 0 \<longleftrightarrow> h \<in> set (sb_hosts s)"
  using hosts.lookup_SomeD [of "sb_hosts s" h] hosts.lookup_None_iff [of "sb_hosts s" h]
  by (auto simp: remove_host_def Let_def remove1_idem split: option.splits)

lemma set_allow_any_host_parts:
  "sb_allow_any_host (set_allow_any_host b s) = b" "sb_hosts (set_allow_any_host b s) = sb_hosts s"
  by (simp_all add: set_allow_any_host_def Let_def)

text \<open>Access control. Adding a host allows that host, exactly when the call succeeds, and no
  other; removing it takes the right away from that host, unless any host is allowed, and from
  no other, and succeeds exactly when the host was listed; a connection without a host name is
  never allowed.\<close>

theorem host_access_control:
  assumes "subsys_inv s"
  shows "(host_allowed (snd (add_host utf8 parse mem h s)) (Some x) \<longleftrightarrow>
      host_allowed s (Some x) \<or> x = h \<and> fst (add_host utf8 parse mem h s) = 0) \<and>
    (host_allowed (snd (remove_host h s)) (Some x) \<longleftrightarrow>
      host_allowed s (Some x) \<and> (x \<noteq> h \<or> sb_allow_any_host s)) \<and>
    (fst (remove_host h s) = 0 \<longleftrightarrow> h \<in> set (sb_hosts s)) \<and>
    (host_allowed (set_allow_any_host b s) (Some x) \<longleftrightarrow> b \<or> x \<in> set (sb_hosts s)) \<and>
    \<not> host_allowed s None"
proof -
  have "distinct (sb_hosts s)" using assms by (simp add: subsys_inv_def hosts_ok_def)
  then show ?thesis
    by (auto simp: host_allowed_Some add_host_parts remove_host_parts set_allow_any_host_parts host_allowed_def)
qed

section \<open>Controller ids\<close>

text \<open>A controller that asks for any id gets one that is in the range and not in use,
  whenever there is one, and joins the subsystem with it; only when all ids of the range are in
  use it is refused, with EBUSY. A controller with a static id is refused exactly when the id is
  in use. The loop, which goes on from the last id given out, misses no id.\<close>

theorem controller_id_choice:
  assumes "subsys_inv s"
  shows "let (rc, s') = add_ctrlr c s;
      free = (\<lambda>v. get_ctrlr (sb_ctrlrs s) v = None)
    in if ct_dynamic c then
         (if \<exists>v. sb_min_cntlid s \<le> v \<and> v \<le> sb_max_cntlid s \<and> free v
          then rc = 0 \<and> (\<exists>v. sb_min_cntlid s \<le> v \<and> v \<le> sb_max_cntlid s \<and> free v \<and>
                 sb_ctrlrs s' = sb_ctrlrs s @ [c\<lparr>ct_cntlid := v\<rparr>])
          else rc = - 16 \<and> sb_ctrlrs s' = sb_ctrlrs s)
       else if free (ct_cntlid c) then rc = 0 \<and> sb_ctrlrs s' = sb_ctrlrs s @ [c]
       else rc = - 17 \<and> s' = s"
proof -
  have ck: "cntlids_ok (sb_min_cntlid s) (sb_max_cntlid s) (sb_next_cntlid s)"
    using assms by (simp add: subsys_inv_def)
  then have "sb_max_cntlid s \<le> MAX_CNTLID" by (simp add: cntlids_ok_def)
  then have mx: "v \<noteq> 0xFFFF" if "v \<le> sb_max_cntlid s" for v
    using order_trans [OF that, of MAX_CNTLID] by (intro notI) simp
  from gen_cntlid_spec [OF ck] obtain v nx where g: "gen_cntlid s = (v, s\<lparr>sb_next_cntlid := nx\<rparr>)"
    and d: "sb_min_cntlid s \<le> v \<and> v \<le> sb_max_cntlid s \<and> get_ctrlr (sb_ctrlrs s) v = None \<or>
     v = 0xFFFF \<and> (\<forall>x. sb_min_cntlid s \<le> x \<and> x \<le> sb_max_cntlid s \<longrightarrow> get_ctrlr (sb_ctrlrs s) x \<noteq> None)"
    by blast
  define free where "free = (\<lambda>v. sb_min_cntlid s \<le> v \<and> v \<le> sb_max_cntlid s \<and> get_ctrlr (sb_ctrlrs s) v = None)"
  have d': "free v \<and> v \<noteq> 0xFFFF \<or> v = 0xFFFF \<and> (\<nexists>x. free x)"
    using d mx [of v] unfolding free_def by blast
  have dyn: "ct_dynamic c \<Longrightarrow> add_ctrlr c s =
      (if v = 0xFFFF then (- 16, s\<lparr>sb_next_cntlid := nx\<rparr>)
       else (0, s\<lparr>sb_next_cntlid := nx, sb_ctrlrs := sb_ctrlrs s @ [c\<lparr>ct_cntlid := v\<rparr>]\<rparr>))"
    by (simp add: add_ctrlr_def g)
  show ?thesis
  proof (cases "ct_dynamic c")
    case True
    from d' have "(if \<exists>v. free v
          then fst (add_ctrlr c s) = 0 \<and> (\<exists>v. free v \<and>
                 sb_ctrlrs (snd (add_ctrlr c s)) = sb_ctrlrs s @ [c\<lparr>ct_cntlid := v\<rparr>])
          else fst (add_ctrlr c s) = - 16 \<and> sb_ctrlrs (snd (add_ctrlr c s)) = sb_ctrlrs s)"
      unfolding dyn [OF True] by auto
    with True show ?thesis by (simp add: free_def split_beta Let_def conj_assoc cong: if_cong)
  next
    case False
    then show ?thesis by (simp add: add_ctrlr_def)
  qed
qed

section \<open>Listener ids\<close>

definition clear_ids :: "bool list \<Rightarrow> nat" where
  "clear_ids bits = length (filter Not bits)"

lemma clear_ids_mark: "find_first_clear bits = Some i \<Longrightarrow> clear_ids (bits[i := True]) = clear_ids bits - 1"
proof -
  assume "find_first_clear bits = Some i"
  then have i: "i < length bits" "\<not> bits ! i" using find_first_clear_Some by blast+
  then show ?thesis
    by (simp add: clear_ids_def upd_conv_take_nth_drop id_take_nth_drop [of i bits, THEN arg_cong [where f = "\<lambda>x. length (filter Not x)"]])
qed

lemma clear_ids_None: "find_first_clear bits = None \<longleftrightarrow> clear_ids bits = 0"
  by (simp add: find_first_clear_None clear_ids_def filter_empty_conv list_all_iff)

lemma failed_listen:
  assumes "may_change s" and "find_listener (sb_listeners s) t = None" and "rc \<noteq> 0"
  shows "\<exists>used. snd (add_listener True True True rc a t s) = s\<lparr>sb_used_listener_ids := used\<rparr> \<and>
    clear_ids used = clear_ids (sb_used_listener_ids s) - 1"
proof (cases "find_first_clear (sb_used_listener_ids s)")
  case None
  then have "clear_ids (sb_used_listener_ids s) = 0" by (simp add: clear_ids_None)
  then show ?thesis
    using assms None by (intro exI [of _ "sb_used_listener_ids s"]) (simp add: add_listener_def)
next
  case (Some i)
  then show ?thesis
    using assms clear_ids_mark [OF Some]
    by (intro exI [of _ "(sb_used_listener_ids s)[i := True]"]) (simp add: add_listener_def Let_def)
qed

lemma failed_listens:
  assumes "may_change s" and "find_listener (sb_listeners s) t = None" and "rc \<noteq> 0"
  shows "\<exists>used. ((\<lambda>s. snd (add_listener True True True rc a t s)) ^^ n) s = s\<lparr>sb_used_listener_ids := used\<rparr> \<and>
    clear_ids used = clear_ids (sb_used_listener_ids s) - n"
proof (induction n)
  case 0
  then show ?case by (intro exI [of _ "sb_used_listener_ids s"]) simp
next
  case (Suc n)
  then obtain used where u: "((\<lambda>s. snd (add_listener True True True rc a t s)) ^^ n) s = s\<lparr>sb_used_listener_ids := used\<rparr>"
    "clear_ids used = clear_ids (sb_used_listener_ids s) - n" by blast
  with failed_listen [of "s\<lparr>sb_used_listener_ids := used\<rparr>" t rc a] assms show ?case
    by (auto simp: may_change_def)
qed

text \<open>An attempt to add a listener that fails in the transport keeps its listener id marked
  as used: after as many such failures as there are ids (16) the subsystem, still with the
  listeners it had, refuses every new listener, whatever the transport says.\<close>

theorem failed_listens_exhaust_ids:
  assumes "subsys_inv s" and "may_change s" and "find_listener (sb_listeners s) t = None" and "rc \<noteq> 0"
    and "s' = ((\<lambda>s. snd (add_listener True True True rc a t s)) ^^ MAX_LISTENERS_PER_SUBSYSTEM) s"
    and "find_listener (sb_listeners s) t' = None"
  shows "sb_listeners s' = sb_listeners s \<and> fst (add_listener True True True rc' a' t' s') = - 22"
proof -
  have "clear_ids (sb_used_listener_ids s) \<le> 16"
    using assms(1) length_filter_le [of Not "sb_used_listener_ids s"]
    by (simp add: clear_ids_def subsys_inv_def listeners_ok_def)
  then obtain used where "s' = s\<lparr>sb_used_listener_ids := used\<rparr>" "clear_ids used = 0"
    using failed_listens [OF assms(2-4), of MAX_LISTENERS_PER_SUBSYSTEM a] assms(5) by auto
  moreover from this(2) have "find_first_clear used = None" by (simp add: clear_ids_None)
  ultimately show ?thesis
    using assms(2,6) by (simp add: add_listener_def may_change_def)
qed

section \<open>Namespaces\<close>

lemma add_ns_may_change: "add_ns env opts s = (rc, s') \<Longrightarrow> rc \<noteq> 0 \<Longrightarrow> may_change s"
  by (simp add: add_ns_def split: if_splits)

lemma dec_inc_group: "g < length gs \<Longrightarrow> dec_group g (inc_group g gs) = gs"
  by (simp add: dec_group_def inc_group_def list_update_same_conv)

text \<open>C39. Adding a namespace and removing it again restores the subsystem: the slots, the counts
  of the ANA groups, the open block devices, hosts, listeners and controller ids are as before.
  The id returned is that of a slot that was free.\<close>

theorem add_remove_ns_roundtrip:
  assumes "subsys_inv s" and "add_ns env opts s = (nsid, s1)" and "nsid \<noteq> 0"
  shows "get_ns s nsid = None \<and> (\<exists>ns. get_ns s1 nsid = Some ns \<and> ns_nsid (sn_ns ns) = nsid) \<and>
    (\<exists>s2. remove_ns nsid s1 = Inr (0, s2) \<and> sb_ns s2 = sb_ns s \<and> sb_ana_group s2 = sb_ana_group s \<and>
       sb_open s2 = sb_open s \<and> ns_frame s s2)"
proof -
  have fr: "ns_frame s s1" and "ns_added nsid s s1"
    using add_ns_cases [OF assms(1,2)] assms(3) by (auto simp: ns_not_added_def)
  then obtain ns u where ns: "unat (nsid - 1) < length (sb_ns s)" "sb_ns s ! unat (nsid - 1) = None"
      "sb_ns s1 = (sb_ns s)[unat (nsid - 1) := Some ns]" "sb_open s1 = u # sb_open s"
      "ns_nsid (sn_ns ns) = nsid" "ns_bdev (sn_ns ns) = Some u"
      "sn_anagrpid ns \<noteq> 0" "unat (sn_anagrpid ns) \<le> length (sb_ns s)"
      "sb_ana_group s1 = inc_group (unat (sn_anagrpid ns - 1)) (sb_ana_group s)"
    unfolding ns_added_def by (elim exE conjE) (rule that)
  have inv1: "subsys_inv s1" using add_ns_inv [OF assms(1), of env opts] assms(2) by simp
  have mc: "may_change s1" using add_ns_may_change [OF assms(2,3)] fr by (simp add: may_change_def ns_frame_def)
  have g: "unat (sn_anagrpid ns - 1) < length (sb_ana_group s)"
    using ns(7,8) assms(1) by (simp add: unat_minus_one_less subsys_inv_def namespaces_ok_def)
  have "unat nsid = unat (nsid - 1) + 1" using assms(3) by (simp add: unat_minus_one unat_gt_0)
  then have le: "unat nsid \<le> max_nsid s1" using ns(1,3) by (simp add: max_nsid_def)
  have sl: "sb_ns s1 ! unat (nsid - 1) = Some ns" using ns(1,3) by simp
  have restored: "(sb_ns s)[unat (nsid - 1) := Some ns, unat (nsid - 1) := None] = sb_ns s"
    using ns(1,2) by (simp add: list_update_same_conv)
  from remove_ns_cases [OF inv1, of nsid]
  have "\<exists>s2. remove_ns nsid s1 = Inr (0, s2) \<and> ns_frame s1 s2 \<and> sb_ns s2 = (sb_ns s1)[unat (nsid - 1) := None] \<and>
      sb_open s2 = remove1 u (sb_open s1) \<and>
      sb_ana_group s2 = dec_group (unat (sn_anagrpid ns - 1)) (sb_ana_group s1)"
  proof (elim disjE exE conjE)
    assume "remove_ns nsid s1 = Inr (- 1, s1)"
    moreover have "\<not> unat (sn_anagrpid ns - 1) \<ge> length (sb_ana_group s1)" using g ns(9) by simp
    ultimately show ?thesis using mc le sl assms(3) ns(6) by (simp add: remove_ns_def Let_def)
  qed (use sl ns(6) in auto)
  then show ?thesis
    using ns(1-5,9) g restored sl fr by (auto simp: get_ns_def max_nsid_def dec_inc_group ns_frame_def)
qed

section \<open>ANA states\<close>

lemma find_listener_update:
  assumes "distinct (map sl_trid ls)" and "distinct (map sl_addr ls)" and "find_listener ls t = Some l"
    and "\<And>x. sl_trid (f x) = sl_trid x"
  shows "find_listener (update_by sl_addr (sl_addr l) f ls) t' = (if t' = t then Some (f l) else find_listener ls t')"
proof -
  have l: "l \<in> set ls" "sl_trid l = t" using listeners.lookup_SomeD [OF assms(3)] by auto
  have key: "sl_addr x = sl_addr l \<longleftrightarrow> sl_trid x = t" if "x \<in> set ls" for x
  proof -
    have "x = l" if "sl_addr x = sl_addr l" using assms(2) that l \<open>x \<in> set ls\<close> by (auto simp: distinct_map inj_on_def)
    moreover have "x = l" if "sl_trid x = t" using assms(1) that l \<open>x \<in> set ls\<close> by (auto simp: distinct_map inj_on_def)
    ultimately show ?thesis using l(2) by blast
  qed
  then have "update_by sl_addr (sl_addr l) f ls = update_by sl_trid t f ls"
    by (simp add: update_by_def)
  then show ?thesis
    using assms(3,4) unfolding find_listener_def by (simp add: find_key_update_by option.map_ident)
qed

text \<open>Setting an ANA state. When it succeeds, the listener is in the new state for the given
  group, for all groups if the group is 0, and as before for the others; every other listener
  is as it was. Either all that was so before and nothing changes, or the listener counts a
  change and exactly the controllers that came in through it, and whose admin queue is
  connected, are sent the notice. When it fails, nothing has changed.\<close>

theorem ana_state_change:
  assumes "subsys_inv s" and "set_ana_state mem admin mem_ev t st g s = Inr (rc, s')"
  shows "if rc \<noteq> 0 then s' = s else
    \<exists>l l'. find_listener (sb_listeners s) t = Some l \<and> find_listener (sb_listeners s') t = Some l' \<and>
      (\<forall>i < max_nsid s. sl_ana_state l' ! i = (if g = 0 \<or> unat g = i + 1 then st else sl_ana_state l ! i)) \<and>
      (\<forall>t'. t' \<noteq> t \<longrightarrow> find_listener (sb_listeners s') t' = find_listener (sb_listeners s) t') \<and>
      (s' = s \<or> sl_ana_state_change_count l' = sl_ana_state_change_count l + 1 \<and>
        sb_ctrlrs s' = map (\<lambda>c. if admin (ct_addr c) \<and> ct_listener c = Some (sl_addr l)
                             then async_event_ana_change_notice (mem_ev (ct_addr c)) c else c) (sb_ctrlrs s))"
proof (cases "rc = 0")
  case False
  then show ?thesis using assms(2) by (auto simp: set_ana_state_def Let_def split: if_splits option.splits)
next
  case True
  define ok where "ok \<longleftrightarrow> st \<in> {ANA_OPTIMIZED, ANA_NON_OPTIMIZED, ANA_INACCESSIBLE}"
  from assms(2) True obtain l where l: "find_listener (sb_listeners s) t = Some l" and g: "unat g \<le> max_nsid s"
    unfolding set_ana_state_def ok_def [symmetric] by (auto split: if_splits option.splits)
  have len: "length (sl_ana_state l) = max_nsid s"
    using assms(1) listeners.lookup_SomeD [OF l] by (simp add: subsys_inv_def listeners_ok_def max_nsid_def)
  have gi: "unat (g - 1) = i \<longleftrightarrow> unat g = i + 1" if "g \<noteq> 0" for i
    using that unat_gt_0 [of g] by (auto simp: unat_minus_one)
  define states where "states = (if g = 0 then replicate (max_nsid s) st else (sl_ana_state l)[unat (g - 1) := st])"
  define f where "f = (\<lambda>l :: subsys_listener. l\<lparr>sl_ana_state := states, sl_ana_state_change_count := sl_ana_state_change_count l + 1\<rparr>)"
  have states: "states ! i = (if g = 0 \<or> unat g = i + 1 then st else sl_ana_state l ! i)" if "i < max_nsid s" for i
    using that len gi [of i] by (auto simp: states_def nth_list_update)
  have cases: "s' = s \<and> g \<noteq> 0 \<and> sl_ana_state l ! unat (g - 1) = st \<or>
      s' = listener_update admin mem_ev (sl_addr l) (s\<lparr>sb_listeners := update_by sl_addr (sl_addr l) f (sb_listeners s)\<rparr>)"
    using assms(2) True l unfolding set_ana_state_def ok_def [symmetric] f_def states_def Let_def
    by (simp split: if_splits)
  then show ?thesis
  proof (elim disjE conjE)
    assume "s' = s" "g \<noteq> 0" "sl_ana_state l ! unat (g - 1) = st"
    then show ?thesis using True l unat_minus_one [of g] by auto
  next
    assume s': "s' = listener_update admin mem_ev (sl_addr l)
      (s\<lparr>sb_listeners := update_by sl_addr (sl_addr l) f (sb_listeners s)\<rparr>)"
    have "find_listener (sb_listeners s') t' = (if t' = t then Some (f l) else find_listener (sb_listeners s) t')" for t'
      using assms(1) l find_listener_update [of "sb_listeners s" t l f t']
      by (simp add: s' listener_update_def subsys_inv_def listeners_ok_def f_def)
    moreover have "sl_ana_state (f l) = states" "sl_ana_state_change_count (f l) = sl_ana_state_change_count l + 1"
      by (simp_all add: f_def)
    ultimately show ?thesis using True l states by (simp add: s' listener_update_def)
  qed
qed

section \<open>Destruction\<close>

lemma remove_all_ns_spec:
  assumes "subsys_inv s" and "may_change s" and "\<forall>i \<in> set is. i < max_nsid s"
  shows "\<exists>s'. remove_all_ns is s = Inr s' \<and> subsys_inv s' \<and> ns_frame s s' \<and>
    (\<forall>j < max_nsid s. sb_ns s' ! j = (if j \<in> set is then None else sb_ns s ! j))"
  using assms
proof (induction "is" arbitrary: s)
  case Nil
  then show ?case by (simp add: ns_frame_refl)
next
  case (Cons i js)
  show ?case
  proof (cases "sb_ns s ! i")
    case None
    with Cons.IH [OF Cons.prems(1,2)] Cons.prems(3) show ?thesis by auto
  next
    case (Some ns)
    have i: "i < max_nsid s" using Cons.prems(3) by simp
    have "max_nsid s < 2 ^ 32 - 1" using Cons.prems(1) by (simp add: subsys_inv_def namespaces_ok_def max_nsid_def)
    then have "i + 1 < 2 ^ 32" using i by simp
    note w = unat_of_nat_slot [OF this] and u = unat_of_nat_u32 [OF this]
    have e: "ns_entry_ok (max_nsid s) i ns" "length (sb_ana_group s) = max_nsid s"
      using Cons.prems(1) i Some by (simp_all add: subsys_inv_def namespaces_ok_def max_nsid_def)
    then have g: "\<not> unat (sn_anagrpid ns - 1) \<ge> length (sb_ana_group s)"
      using unat_minus_one_less by (simp add: ns_entry_ok_def not_le)
    from remove_ns_cases [OF Cons.prems(1), of "of_nat (i + 1)"]
    obtain s1 where s1: "remove_ns (of_nat (i + 1)) s = Inr (0, s1)" "ns_frame s s1" "sb_ns s1 = (sb_ns s)[i := None]"
    proof (elim disjE exE conjE)
      assume "remove_ns (of_nat (i + 1)) s = Inr (- 1, s)"
      then have False
        using Cons.prems(2) w u i Some g e(1) by (auto simp: remove_ns_def Let_def ns_entry_ok_def split: if_splits)
      then show thesis ..
    qed (use w that in auto)
    have inv1: "subsys_inv s1" using remove_ns_inv [OF Cons.prems(1) s1(1)] .
    have "may_change s1" "max_nsid s1 = max_nsid s"
      using Cons.prems(2) s1(2) by (simp_all add: may_change_def ns_frame_def max_nsid_def)
    with Cons.IH [OF inv1] Cons.prems(3) obtain s2 where
      s2: "remove_all_ns js s1 = Inr s2" "subsys_inv s2" "ns_frame s1 s2"
        "\<forall>j < max_nsid s. sb_ns s2 ! j = (if j \<in> set js then None else sb_ns s1 ! j)" by auto
    have "ns_frame s s2" using s1(2) s2(3) by (simp add: ns_frame_def)
    with s1 s2 Some i show ?thesis by (simp add: nth_list_update max_nsid_def)
  qed
qed

lemma fold_drop_listener:
  "subsys_inv s \<Longrightarrow> sb_listeners s = ls @ rest \<Longrightarrow>
     \<exists>s'. fold drop_listener ls s = s' \<and> subsys_inv s' \<and> sb_listeners s' = rest \<and> sb_ns s' = sb_ns s \<and>
       sb_state s' = sb_state s \<and> map ct_addr (sb_ctrlrs s') = map ct_addr (sb_ctrlrs s) \<and>
       sb_destroying s' = sb_destroying s \<and> sb_async_destroy s' = sb_async_destroy s"
proof (induction ls arbitrary: s)
  case Nil
  then show ?case by simp
next
  case (Cons l ls)
  have d: "distinct (map sl_addr (l # ls @ rest))"
    using Cons.prems by (simp add: subsys_inv_def listeners_ok_def)
  have "sb_listeners (drop_listener l s) = remove_by sl_addr (sl_addr l) (l # ls @ rest)"
    using Cons.prems(2) by (simp add: drop_listener_def update_discovery_log_def)
  also have "\<dots> = ls @ rest" using d by (simp add: remove_by_notin)
  finally have ls: "sb_listeners (drop_listener l s) = ls @ rest" .
  have "subsys_inv (drop_listener l s)" using drop_listener_inv [OF Cons.prems(1)] Cons.prems(2) by simp
  from Cons.IH [OF this ls] show ?case
    by (simp add: drop_listener_def update_discovery_log_def comp_def if_distrib cong: if_cong)
qed

lemma remove_all_listeners_spec:
  assumes "subsys_inv s"
  shows "subsys_inv (remove_all_listeners s)" "sb_listeners (remove_all_listeners s) = []"
    "sb_ns (remove_all_listeners s) = sb_ns s" "sb_state (remove_all_listeners s) = sb_state s"
    "sb_ctrlrs (remove_all_listeners s) = [] \<longleftrightarrow> sb_ctrlrs s = []"
    "sb_destroying (remove_all_listeners s) = sb_destroying s"
  using fold_drop_listener [OF assms, of "sb_listeners s" "[]"]
  by (simp_all add: remove_all_listeners_def) (metis map_is_Nil_conv)

definition closed :: "spdk_nvmf_subsystem \<Rightarrow> bool" where
  "closed s \<longleftrightarrow> sb_open s = [] \<and> sb_listeners s = [] \<and> sb_hosts s = [] \<and> (\<forall>n \<in> set (sb_ns s). n = None)"

lemma destroy_now_closed:
  assumes "subsys_inv s" and "may_change s" and "sb_ctrlrs s = []" and "sb_listeners s = []" and "sb_hosts s = []"
  shows "\<exists>s'. destroy_now send s = Inr (0, s', True) \<and> closed s'"
proof -
  from remove_all_ns_spec [OF assms(1,2), of "[0..<max_nsid s]"] obtain s' where
    s': "remove_all_ns [0..<max_nsid s] s = Inr s'" "subsys_inv s'" "ns_frame s s'"
      "\<forall>j < max_nsid s. sb_ns s' ! j = None" by auto
  then have n: "\<forall>n \<in> set (sb_ns s'). n = None"
    by (auto simp: ns_frame_def max_nsid_def in_set_conv_nth)
  then have "ns_bdevs (sb_ns s') = []"
    by (auto simp: ns_bdevs_def List.map_filter_def filter_empty_conv split: option.splits)
  moreover have "mset (sb_open s') = mset (ns_bdevs (sb_ns s'))"
    using s'(2) by (simp add: subsys_inv_def namespaces_ok_def)
  ultimately have "sb_open s' = []" by simp
  with s' n assms show ?thesis by (simp add: destroy_now_def closed_def ns_frame_def)
qed

text \<open>Destroying an inactive subsystem. Without controllers it ends at once with every
  namespace removed, every block device closed and no listener or host left. With controllers
  it reports that it is in progress (or that the message could not be sent), keeps the
  namespaces, refuses to be destroyed again, and ends in the same way when it is called back
  after the last controller has gone. A subsystem that is not inactive is left alone.\<close>

theorem subsystem_destruction:
  assumes "subsys_inv s" and "\<not> sb_destroying s"
  shows "if sb_state s \<noteq> SUBSYSTEM_INACTIVE then subsystem_destroy send s = Inr (- 11, s, False)
    else if sb_ctrlrs s = [] then \<exists>s'. subsystem_destroy send s = Inr (0, s', True) \<and> closed s'
    else \<exists>rc s1. subsystem_destroy send s = Inr (rc, s1, False) \<and> rc \<noteq> 0 \<and> sb_ns s1 = sb_ns s \<and>
           sb_listeners s1 = [] \<and> subsystem_destroy send s1 = Inr (- 114, s1, False) \<and>
           (\<forall>a. sb_ctrlrs (remove_ctrlr a s1) = [] \<longrightarrow>
              (\<exists>s'. destroy_now send (remove_ctrlr a s1) = Inr (0, s', True) \<and> closed s'))"
proof -
  let ?d = "remove_all_listeners (s\<lparr>sb_destroying := True\<rparr>)\<lparr>sb_hosts := []\<rparr>"
  have "subsys_inv (s\<lparr>sb_destroying := True\<rparr>)" using assms(1) by (simp add: subsys_inv_def)
  note ral = remove_all_listeners_spec [OF this]
  have inv: "subsys_inv ?d" using ral(1) by (simp add: subsys_inv_def hosts_ok_def)
  have sd: "subsystem_destroy send s = destroy_now send ?d" if "sb_state s = SUBSYSTEM_INACTIVE"
    using assms(2) that by (simp add: subsystem_destroy_def)
  show ?thesis
  proof (cases "sb_state s = SUBSYSTEM_INACTIVE")
    case False
    then show ?thesis by (simp add: subsystem_destroy_def)
  next
    case st: True
    have mc: "may_change ?d" using st ral(4) by (simp add: may_change_def)
    show ?thesis
    proof (cases "sb_ctrlrs s = []")
      case True
      then have "sb_ctrlrs ?d = []" using ral(5) by simp
      with destroy_now_closed [OF inv mc, of send] True st sd ral(2) show ?thesis by simp
    next
      case False
      let ?s1 = "?d\<lparr>sb_async_destroy := True\<rparr>"
      have c: "sb_ctrlrs ?d \<noteq> []" using False ral(5) by simp
      have "subsystem_destroy send s = Inr (if send \<noteq> 0 then send else - 115, ?s1, False)"
        using c st by (simp add: sd destroy_now_def)
      moreover have "subsystem_destroy send ?s1 = Inr (- 114, ?s1, False)"
        using st ral(4,6) by (simp add: subsystem_destroy_def)
      moreover have "\<exists>s'. destroy_now send (remove_ctrlr a ?s1) = Inr (0, s', True) \<and> closed s'"
        if "sb_ctrlrs (remove_ctrlr a ?s1) = []" for a
      proof (rule destroy_now_closed)
        show "subsys_inv (remove_ctrlr a ?s1)"
          using inv by (intro remove_ctrlr_inv) (simp add: subsys_inv_def)
      qed (use mc ral(2) that in \<open>simp_all add: remove_ctrlr_def may_change_def\<close>)
      ultimately show ?thesis using False st ral(2,3) by simp
    qed
  qed
qed

section \<open>A refused namespace\<close>

lemma attach_refused:
  "\<exists>rc \<in> set rcs. rc \<noteq> 0 \<Longrightarrow> fst (attach_ns (env\<lparr>ne_transports := rcs\<rparr>) nsid ns u s) = 0"
  by (simp add: attach_ns_def add_ns_err_def Let_def split: option.split prod.split)

text \<open>Whether a namespace gets as far as the array does not depend on the transports.\<close>

lemma claim_to_attach:
  "\<exists>ns t refused. sb_ana_group t = sb_ana_group s \<and> sb_ns t = sb_ns s \<and> ns_nsid (sn_ns ns) = nsid \<and>
     ns_bdev (sn_ns ns) = Some (bi_uuid b) \<and> sb_open t = bi_uuid b # sb_open s \<and>
     (\<forall>rcs. if refused then fst (claim_ns (env\<lparr>ne_transports := rcs\<rparr>) opts nsid grp b s) = 0
            else claim_ns (env\<lparr>ne_transports := rcs\<rparr>) opts nsid grp b s =
                 attach_ns (env\<lparr>ne_transports := rcs\<rparr>) nsid ns (bi_uuid b) t)"
proof -
  let ?u = "bi_uuid b"
  define ns where "ns = \<lparr>sn_ns = new_ns nsid ?u, sn_anagrpid = grp,
    sn_nguid = (if no_nguid opts = 0 then ?u else no_nguid opts), sn_eui64 = no_eui64 opts,
    sn_uuid = (if no_uuid opts = 0 then ?u else no_uuid opts), sn_zcopy = bi_zcopy b, sn_zns = bi_zoned b\<rparr>"
  define k where "k = (ucast (bi_max_zone_append_size b * bi_block_size b) :: u64)"
  define s1 where "s1 = s\<lparr>sb_open := ?u # sb_open s\<rparr>"
  define s2 where "s2 = s1\<lparr>sb_zone_append_supported := bi_zone_append b, sb_max_zone_append_size_kib := k\<rparr>"
  define early where "early \<longleftrightarrow> bi_md_size b \<noteq> 0 \<and> (\<not> bi_md_interleaved b \<or> bi_md_size b > ne_max_md_size env) \<or> ne_claim env \<noteq> 0"
  define zoned where "zoned \<longleftrightarrow> bi_zoned b \<and> has_zoned_ns s \<and>
    (sb_zone_append_supported s \<noteq> bi_zone_append b \<or> sb_max_zone_append_size_kib s \<noteq> k)"
  have "fst (claim_ns (env\<lparr>ne_transports := rcs\<rparr>) opts nsid grp b s) = 0" if "early \<or> zoned" for rcs
    using that unfolding claim_ns_def Let_def s1_def [symmetric] k_def [symmetric] ns_def [symmetric] s2_def [symmetric]
    by (auto simp: early_def zoned_def add_ns_err_def)
  moreover have "claim_ns (env\<lparr>ne_transports := rcs\<rparr>) opts nsid grp b s =
      attach_ns (env\<lparr>ne_transports := rcs\<rparr>) nsid ns ?u (if bi_zoned b then s2 else s1)"
    if "\<not> (early \<or> zoned)" for rcs
    using that unfolding claim_ns_def Let_def s1_def [symmetric] k_def [symmetric] ns_def [symmetric] s2_def [symmetric]
    by (auto simp: early_def zoned_def)
  ultimately show ?thesis
    by (intro exI [of _ ns] exI [of _ "if bi_zoned b then s2 else s1"] exI [of _ "early \<or> zoned"])
      (simp add: ns_def new_ns_def s1_def s2_def)
qed

lemma add_ns_to_claim:
  assumes "subsys_inv s" and "fst (add_ns env opts s) \<noteq> 0"
  shows "\<exists>op nsid grp b. nsid \<noteq> 0 \<and> unat (nsid - 1) < length (sb_ns s) \<and> sb_ns s ! unat (nsid - 1) = None \<and>
    (\<forall>rcs. add_ns (env\<lparr>ne_transports := rcs\<rparr>) opts s = claim_ns (env\<lparr>ne_transports := rcs\<rparr>) op nsid grp b s)"
proof -
  obtain nsid s1 where a: "add_ns env opts s = (nsid, s1)" by (rule prod.exhaust)
  with assms have n: "nsid \<noteq> 0" by simp
  define op where "op = (case opts of None \<Rightarrow> ns_opts_defaults | Some o' \<Rightarrow> o')"
  define id where "id = (if no_nsid op = 0 then first_free_nsid s else no_nsid op)"
  define grp where "grp = (if no_anagrpid op = 0 then id else no_anagrpid op)"
  note def = add_ns_def Let_def op_def [symmetric] id_def [symmetric] grp_def [symmetric]
  from a n obtain b where g: "may_change s" "no_nsid op \<noteq> 0xFFFFFFFF" "get_ns s id = None" "unat id \<le> max_nsid s"
      "unat grp \<le> max_nsid s" "ne_mem env" "ne_bdev env = Some b"
    unfolding def by (auto split: if_splits option.splits)
  have l: "length (sb_ns s) < 2 ^ 32 - 1" using assms(1) by (simp add: subsys_inv_def namespaces_ok_def)
  have "first_free_nsid s \<noteq> 0" using first_free_nsid_pos [OF l] by (metis Suc_eq_plus1 nat.simps(3) unat_0)
  then have id0: "id \<noteq> 0" by (simp add: id_def)
  have "add_ns (env\<lparr>ne_transports := rcs\<rparr>) opts s = claim_ns (env\<lparr>ne_transports := rcs\<rparr>) op id grp b s" for rcs
    unfolding def using g by simp
  then show ?thesis using get_ns_slot [OF g(3) id0] g(4) id0 by (auto simp: max_nsid_def)
qed

text \<open>When a transport refuses a namespace that would otherwise be added, the call fails with 0,
  the slot is empty and the block device closed again, but the count of the ANA group is as if
  the namespace had been added: it stays one too high from then on.\<close>

theorem refused_ns_leaks_group_count:
  assumes "subsys_inv s" and "add_ns env opts s = (nsid, s1)" and "nsid \<noteq> 0" and "\<exists>rc \<in> set rcs. rc \<noteq> 0"
  shows "\<exists>s' g. add_ns (env\<lparr>ne_transports := rcs\<rparr>) opts s = (0, s') \<and> sb_ns s' = sb_ns s \<and>
    sb_open s' = sb_open s \<and> sb_ana_group s' = sb_ana_group s1 \<and>
    g < length (sb_ana_group s) \<and> sb_ana_group s' = (sb_ana_group s)[g := sb_ana_group s ! g + 1]"
proof -
  from add_ns_to_claim [OF assms(1), of env opts] assms(2,3) obtain op id grp b where
    id: "id \<noteq> 0" "unat (id - 1) < length (sb_ns s)" "sb_ns s ! unat (id - 1) = None"
    and cl: "\<And>rcs. add_ns (env\<lparr>ne_transports := rcs\<rparr>) opts s = claim_ns (env\<lparr>ne_transports := rcs\<rparr>) op id grp b s"
    by auto
  have env: "env\<lparr>ne_transports := ne_transports env\<rparr> = env" by simp
  from claim_to_attach [of s id b env op grp] obtain ns t refused where
    t: "sb_ana_group t = sb_ana_group s" "sb_ns t = sb_ns s" "ns_nsid (sn_ns ns) = id"
      "ns_bdev (sn_ns ns) = Some (bi_uuid b)" "sb_open t = bi_uuid b # sb_open s"
    and at: "\<And>rcs. if refused then fst (claim_ns (env\<lparr>ne_transports := rcs\<rparr>) op id grp b s) = 0
            else claim_ns (env\<lparr>ne_transports := rcs\<rparr>) op id grp b s =
                 attach_ns (env\<lparr>ne_transports := rcs\<rparr>) id ns (bi_uuid b) t"
    by (elim exE conjE) (rule that, assumption+, blast)
  have nr: "\<not> refused"
    using at [of "ne_transports env"] cl [of "ne_transports env"] assms(2,3) unfolding env by (metis fst_conv)
  have a1: "attach_ns env id ns (bi_uuid b) t = (nsid, s1)"
    using at [of "ne_transports env"] cl [of "ne_transports env"] assms(2) nr unfolding env by simp
  obtain rc s' where a2: "attach_ns (env\<lparr>ne_transports := rcs\<rparr>) id ns (bi_uuid b) t = (rc, s')" by (rule prod.exhaust)
  have free: "sb_ns t ! unat (id - 1) = None" "unat (id - 1) < length (sb_ns t)" using id t(2) by simp_all
  note c1 = attach_ns_cases [OF refl free t(3,4) a1] and c2 = attach_ns_cases [OF refl free t(3,4) a2]
  have rc: "rc = 0" using attach_refused [OF assms(4), of env id ns "bi_uuid b" t] a2 by simp
  have "ns_added nsid s s1" using add_ns_cases [OF assms(1,2)] assms(3) by (auto simp: ns_not_added_def)
  then obtain g where "g < length (sb_ns s)" "sb_ana_group s1 = inc_group g (sb_ana_group s)"
    unfolding ns_added_def using unat_minus_one_less by blast
  moreover have "length (sb_ana_group s) = length (sb_ns s)" using assms(1) by (simp add: subsys_inv_def namespaces_ok_def)
  ultimately show ?thesis
    using c1 c2 rc id(1) t(1,2,5) at [of rcs] cl [of rcs] nr a2
    by (intro exI [of _ s'] exI [of _ g]) (auto simp: inc_group_def)
qed

section \<open>The properties at concrete inputs\<close>

definition demo_env :: ns_env where
  "demo_env = \<lparr>ne_mem = True,
     ne_bdev = Some \<lparr>bi_uuid = 77, bi_md_size = 0, bi_md_interleaved = False, bi_zcopy = False, bi_zoned = False,
       bi_zone_append = False, bi_max_zone_append_size = 0, bi_block_size = 512\<rparr>,
     ne_max_md_size = 64, ne_claim = 0, ne_ptpl_file = None, ne_load = None, ne_parse = (\<lambda>_. None),
     ne_junk1 = 0, ne_junk2 = 0, ne_resv_mem = [], ne_strdup = True, ne_transports = [0, 0]\<rparr>"

definition demo_new_ctrlr :: "addr \<Rightarrow> addr option \<Rightarrow> spdk_nvmf_ctrlr" where
  "demo_new_ctrlr a l = \<lparr>ct_addr = a, ct_cntlid = 0, ct_hostnqn = ''nqn.2016-06.io.spdk:h'', ct_dynamic = True,
     ct_listener = l, ct_aec = 0x900, ct_aer_req = [(31, 1)], ct_async_events = [], ct_notice_aen_mask = 0,
     ct_changed_ns_list = replicate 4 0, ct_changed_ns_list_count = 0, ct_log_page_count = 0,
     ct_num_avail_log_pages = 0, ct_log_head = [], ct_sent = [], ct_freed = []\<rparr>"

abbreviation demo_utf8 :: "string \<Rightarrow> int" where "demo_utf8 \<equiv> (\<lambda>_. 1)"
abbreviation demo_parse :: "string \<Rightarrow> uuid option" where "demo_parse \<equiv> (\<lambda>_. None)"

definition demo_fresh :: spdk_nvmf_subsystem where
  "demo_fresh = new_subsystem 0 ''nqn.2016-06.io.spdk:s'' False 4"

definition demo_events :: "subsys_event list" where
  "demo_events = [SetAnaReporting True, SetCntlidRange 1 2, AddHost True ''nqn.2016-06.io.spdk:h'', AddListener True True True 0 10 7,
     AddNs demo_env None, AddCtrlr (demo_new_ctrlr 20 (Some 10)), AddCtrlr (demo_new_ctrlr 21 None)]"

definition demo_run :: "subsys_event list \<Rightarrow> spdk_nvmf_subsystem option" where
  "demo_run = run_guarded (subsys_step demo_utf8 demo_parse) subsys_ok demo_fresh"

definition demo_subsys :: spdk_nvmf_subsystem where
  "demo_subsys = the (demo_run demo_events)"

lemma demo_run_some: "demo_run demo_events \<noteq> None"
  by code_simp

lemma demo_subsys_reach:
  "guarded_reach (subsys_step demo_utf8 demo_parse) subsys_ok (new_subsystem 0 ''nqn.2016-06.io.spdk:s'' False 4) demo_subsys"
  using demo_run_some unfolding demo_run_def demo_subsys_def demo_fresh_def by (auto intro: run_guarded_start)

lemma demo_subsys_inv: "subsys_inv demo_subsys"
  using subsys_ops.reach_inv [OF demo_subsys_reach new_subsystem_inv] by simp

theorem subsystem_operations_total_witness:
  "\<exists>s'. subsys_step demo_utf8 demo_parse demo_subsys (RemoveNs 1) = Inr s' \<and> subsys_inv s'"
  using subsystem_operations_total [OF _ demo_subsys_reach, of "RemoveNs 1"] by simp

theorem host_access_control_witness:
  "host_allowed demo_subsys (Some ''nqn.2016-06.io.spdk:h'') \<and>
   \<not> host_allowed (snd (remove_host ''nqn.2016-06.io.spdk:h'' demo_subsys)) (Some ''nqn.2016-06.io.spdk:h'')"
proof -
  have "\<not> sb_allow_any_host demo_subsys" "host_allowed demo_subsys (Some ''nqn.2016-06.io.spdk:h'')" by code_simp+
  with host_access_control [OF demo_subsys_inv, where h = "''nqn.2016-06.io.spdk:h''" and x = "''nqn.2016-06.io.spdk:h''"]
  show ?thesis by blast
qed

theorem controller_id_choice_witness:
  "fst (add_ctrlr (demo_new_ctrlr 22 None) demo_subsys) = - 16 \<and>
   get_ctrlr (sb_ctrlrs demo_subsys) 2 \<noteq> None"
proof -
  have a: "ct_dynamic (demo_new_ctrlr 22 None)" "sb_min_cntlid demo_subsys = 1" "sb_max_cntlid demo_subsys = 2"
    "fst (add_ctrlr (demo_new_ctrlr 22 None) demo_subsys) \<noteq> 0" by code_simp+
  with controller_id_choice [OF demo_subsys_inv, of "demo_new_ctrlr 22 None"]
  have "fst (add_ctrlr (demo_new_ctrlr 22 None) demo_subsys) = - 16"
    and "\<forall>v. 1 \<le> v \<and> v \<le> 2 \<longrightarrow> get_ctrlr (sb_ctrlrs demo_subsys) v \<noteq> None"
    by (auto simp: split_beta Let_def split: if_splits)
  then show ?thesis by simp
qed

theorem failed_listens_exhaust_ids_witness:
  "let s' = ((\<lambda>s. snd (add_listener True True True (- 5) 11 8 s)) ^^ MAX_LISTENERS_PER_SUBSYSTEM) demo_subsys in
     sb_listeners s' \<noteq> [] \<and> fst (add_listener True True True 0 12 9 s') = - 22"
proof -
  have f: "may_change demo_subsys" "find_listener (sb_listeners demo_subsys) 8 = None"
    "find_listener (sb_listeners demo_subsys) 9 = None" "sb_listeners demo_subsys \<noteq> []" by code_simp+
  show ?thesis
    using failed_listens_exhaust_ids [OF demo_subsys_inv f(1,2) _ refl f(3), of "- 5" 11 0 12] f(4)
    by (simp add: Let_def)
qed

theorem add_remove_ns_roundtrip_witness:
  "\<exists>s1 s2. add_ns demo_env None demo_subsys = (2, s1) \<and> remove_ns 2 s1 = Inr (0, s2) \<and>
     sb_ana_group s2 = sb_ana_group demo_subsys"
proof -
  obtain nsid s1 where a: "add_ns demo_env None demo_subsys = (nsid, s1)" by (rule prod.exhaust)
  moreover have "fst (add_ns demo_env None demo_subsys) = 2" by code_simp
  ultimately show ?thesis using add_remove_ns_roundtrip [OF demo_subsys_inv a] by auto
qed

theorem refused_ns_leaks_group_count_witness:
  "\<exists>s'. add_ns (demo_env\<lparr>ne_transports := [0, - 1]\<rparr>) None demo_subsys = (0, s') \<and> sb_ns s' = sb_ns demo_subsys \<and>
     sb_ana_group s' \<noteq> sb_ana_group demo_subsys"
proof -
  obtain nsid s1 where a: "add_ns demo_env None demo_subsys = (nsid, s1)" by (rule prod.exhaust)
  moreover have "fst (add_ns demo_env None demo_subsys) = 2"
    "sb_ana_group (snd (add_ns demo_env None demo_subsys)) \<noteq> sb_ana_group demo_subsys" by code_simp+
  ultimately show ?thesis using refused_ns_leaks_group_count [OF demo_subsys_inv a, of "[0, - 1]"] by auto
qed

theorem ana_state_change_witness:
  "\<exists>s'. set_ana_state True (\<lambda>_. True) (\<lambda>_. True) 7 ANA_INACCESSIBLE 2 demo_subsys = Inr (0, s') \<and>
     map ct_sent (sb_ctrlrs s') = [[(31, AerEvent event_ana_change)], []] \<and>
     (\<exists>l. find_listener (sb_listeners s') 7 = Some l \<and> sl_ana_state l ! 1 = ANA_INACCESSIBLE)"
proof -
  let ?r = "set_ana_state True (\<lambda>_. True) (\<lambda>_. True) 7 ANA_INACCESSIBLE 2 demo_subsys"
  have "case ?r of Inl _ \<Rightarrow> False | Inr (rc, s') \<Rightarrow> rc = 0 \<and> map ct_sent (sb_ctrlrs s') = [[(31, AerEvent event_ana_change)], []]"
    "max_nsid demo_subsys = 4" by code_simp+
  then obtain s' where a: "?r = Inr (0, s')" "map ct_sent (sb_ctrlrs s') = [[(31, AerEvent event_ana_change)], []]"
    by (auto split: sum.splits)
  from ana_state_change [OF demo_subsys_inv a(1)] obtain l l' where
    "find_listener (sb_listeners demo_subsys) 7 = Some l" and f: "find_listener (sb_listeners s') 7 = Some l'" and n: "\<forall>i < max_nsid demo_subsys.
      sl_ana_state l' ! i = (if (2 :: u32) = 0 \<or> unat (2 :: u32) = i + 1 then ANA_INACCESSIBLE else sl_ana_state l ! i)"
    by (simp only: simp_thms if_False) (elim exE conjE, rule that, assumption+)
  have "1 < max_nsid demo_subsys" using \<open>max_nsid demo_subsys = 4\<close> by simp
  then have "sl_ana_state l' ! 1 = (if (2 :: u32) = 0 \<or> unat (2 :: u32) = 1 + 1 then ANA_INACCESSIBLE else sl_ana_state l ! 1)"
    by (rule n [rule_format])
  moreover have "unat (2 :: u32) = 1 + 1" by simp
  ultimately have "sl_ana_state l' ! 1 = ANA_INACCESSIBLE" by (simp only: simp_thms if_True)
  with f a show ?thesis by (intro exI [of _ s'] conjI exI [of _ l'])
qed

theorem subsystem_destruction_witness:
  "\<exists>rc s1. subsystem_destroy 0 demo_subsys = Inr (rc, s1, False) \<and> rc \<noteq> 0 \<and> sb_listeners s1 = [] \<and> sb_ns s1 = sb_ns demo_subsys"
proof -
  have "\<not> sb_destroying demo_subsys" "sb_state demo_subsys = SUBSYSTEM_INACTIVE" "sb_ctrlrs demo_subsys \<noteq> []" by code_simp+
  with subsystem_destruction [OF demo_subsys_inv, of 0] show ?thesis by auto
qed

end
