(* ===== verification/Iovs.thy ===== *)
theory Iovs
  imports Prelude
begin

text \<open>
  Copying into the scattered buffer of a request (\<open>_copy_buf_to_iovs\<close> of
  \<^verbatim>\<open>src/nvmf/ctrlr.c\<close>): a list of segments and a cursor, an index of a segment and an offset
  in it. \<open>iov_written\<close> is the flat view: the bytes behind the cursor are overwritten by
  what is copied, and nothing else changes; \<open>copy_buf_to_iovs_flat\<close> shows that the loop over
  the segments implements it.
\<close>

record copy_iovs_ctx =
  cc_iovs :: "u8 list list"
  cc_idx :: nat
  cc_off :: nat

definition init_copy_iovs_ctx :: "u8 list list \<Rightarrow> copy_iovs_ctx" where
  "init_copy_iovs_ctx iovs = \<lparr>cc_iovs = iovs, cc_idx = 0, cc_off = 0\<rparr>"

text \<open>The loop; the result is the context and what has not been copied.\<close>

function copy_loop :: "copy_iovs_ctx \<Rightarrow> u8 list \<Rightarrow> copy_iovs_ctx \<times> u8 list" where
  "copy_loop ctx buf =
     (if cc_idx ctx \<ge> length (cc_iovs ctx) then (ctx, buf)
      else
        let iov = cc_iovs ctx ! cc_idx ctx;
            remain = length iov - cc_off ctx
        in if remain = 0 then copy_loop (ctx\<lparr>cc_idx := cc_idx ctx + 1, cc_off := 0\<rparr>) buf
           else
             let len = min remain (length buf);
                 iov' = take (cc_off ctx) iov @ take len buf @ drop (cc_off ctx + len) iov;
                 ctx' = ctx\<lparr>cc_iovs := (cc_iovs ctx)[cc_idx ctx := iov'], cc_off := cc_off ctx + len\<rparr>
             in if len = length buf then (ctx', []) else copy_loop ctx' (drop len buf))"
  by pat_completeness auto
termination
  by (relation "measures [\<lambda>(ctx, buf). length (cc_iovs ctx) - cc_idx ctx, \<lambda>(ctx, buf). length buf]") auto

declare copy_loop.simps [simp del]

definition copy_buf_to_iovs :: "copy_iovs_ctx \<Rightarrow> u8 list \<Rightarrow> copy_iovs_ctx \<times> nat" where
  "copy_buf_to_iovs ctx buf =
     (if buf = [] then (ctx, 0)
      else let (ctx', left) = copy_loop ctx buf in (ctx', length buf - length left))"

section \<open>The flat view\<close>

definition iov_pos :: "copy_iovs_ctx \<Rightarrow> nat" where
  "iov_pos ctx = length (concat (take (cc_idx ctx) (cc_iovs ctx))) + cc_off ctx"

definition iov_flat :: "copy_iovs_ctx \<Rightarrow> u8 list" where
  "iov_flat ctx = concat (cc_iovs ctx)"

definition iov_room :: "copy_iovs_ctx \<Rightarrow> nat" where
  "iov_room ctx = length (iov_flat ctx) - iov_pos ctx"

definition iov_wf :: "copy_iovs_ctx \<Rightarrow> bool" where
  "iov_wf ctx \<longleftrightarrow> cc_idx ctx \<le> length (cc_iovs ctx) \<and>
     (if cc_idx ctx < length (cc_iovs ctx) then cc_off ctx \<le> length (cc_iovs ctx ! cc_idx ctx)
      else cc_off ctx = 0)"

definition overwrite :: "nat \<Rightarrow> 'a list \<Rightarrow> 'a list \<Rightarrow> 'a list" where
  "overwrite p bs xs = take p xs @ bs @ drop (p + length bs) xs"

lemma overwrite_Nil [simp]: "overwrite p [] xs = xs"
  by (simp add: overwrite_def)

lemma length_overwrite [simp]: "p + length bs \<le> length xs \<Longrightarrow> length (overwrite p bs xs) = length xs"
  by (simp add: overwrite_def)

lemma overwrite_append:
  "p + length as + length bs \<le> length xs \<Longrightarrow>
     overwrite (p + length as) bs (overwrite p as xs) = overwrite p (as @ bs) xs"
  by (cases as) (auto simp: overwrite_def min_def ac_simps)

text \<open>\<open>ctx'\<close> is \<open>ctx\<close> after the bytes \<open>bs\<close> have been written at the cursor.\<close>

definition iov_written :: "copy_iovs_ctx \<Rightarrow> u8 list \<Rightarrow> copy_iovs_ctx \<Rightarrow> bool" where
  "iov_written ctx bs ctx' \<longleftrightarrow> iov_wf ctx' \<and> iov_flat ctx' = overwrite (iov_pos ctx) bs (iov_flat ctx) \<and>
     iov_pos ctx' = iov_pos ctx + length bs \<and> length bs \<le> iov_room ctx \<and>
     map length (cc_iovs ctx') = map length (cc_iovs ctx)"

lemma iov_split:
  assumes "cc_idx ctx < length (cc_iovs ctx)"
  shows "iov_flat ctx = concat (take (cc_idx ctx) (cc_iovs ctx)) @ cc_iovs ctx ! cc_idx ctx @
    concat (drop (Suc (cc_idx ctx)) (cc_iovs ctx))"
  using id_take_nth_drop [OF assms] by (metis iov_flat_def concat.simps(2) concat_append)

lemma iov_pos_le: "iov_wf ctx \<Longrightarrow> iov_pos ctx \<le> length (iov_flat ctx)"
  using iov_split [of ctx]
  by (cases "cc_idx ctx < length (cc_iovs ctx)") (auto simp: iov_wf_def iov_pos_def iov_flat_def)

lemma iov_written_refl: "iov_wf ctx \<Longrightarrow> iov_written ctx [] ctx"
  by (simp add: iov_written_def)

lemma iov_written_length: "iov_written ctx bs ctx' \<Longrightarrow> length (iov_flat ctx') = length (iov_flat ctx)"
proof -
  assume "iov_written ctx bs ctx'"
  then have "sum_list (map length (cc_iovs ctx')) = sum_list (map length (cc_iovs ctx))"
    by (simp add: iov_written_def)
  then show ?thesis by (simp only: iov_flat_def length_concat)
qed

lemma iov_written_trans:
  assumes "iov_wf ctx" and 1: "iov_written ctx as ctx1" and 2: "iov_written ctx1 bs ctx2"
  shows "iov_written ctx (as @ bs) ctx2"
proof -
  have l: "length (iov_flat ctx1) = length (iov_flat ctx)"
    by (rule iov_written_length [OF 1])
  have "iov_pos ctx \<le> length (iov_flat ctx)" by (rule iov_pos_le [OF assms(1)])
  then show ?thesis
    using 1 2 l by (auto simp: iov_written_def iov_room_def overwrite_append)
qed

lemma iov_written_room:
  "iov_written ctx bs ctx' \<Longrightarrow> iov_room ctx' = iov_room ctx - length bs"
  using iov_written_length [of ctx bs ctx'] by (simp add: iov_written_def iov_room_def)

lemma init_ctx_simps [simp]:
  "iov_flat (init_copy_iovs_ctx iovs) = concat iovs" "iov_pos (init_copy_iovs_ctx iovs) = 0"
  "iov_wf (init_copy_iovs_ctx iovs)" "iov_room (init_copy_iovs_ctx iovs) = length (concat iovs)"
  by (simp_all add: init_copy_iovs_ctx_def iov_flat_def iov_pos_def iov_wf_def iov_room_def)

lemma copy_step_written:
  assumes wf: "iov_wf ctx" and i: "cc_idx ctx < length (cc_iovs ctx)"
    and len: "len = min (length (cc_iovs ctx ! cc_idx ctx) - cc_off ctx) (length buf)"
  shows "iov_written ctx (take len buf) (ctx\<lparr>cc_iovs := (cc_iovs ctx)[cc_idx ctx :=
    take (cc_off ctx) (cc_iovs ctx ! cc_idx ctx) @ take len buf @
    drop (cc_off ctx + len) (cc_iovs ctx ! cc_idx ctx)], cc_off := cc_off ctx + len\<rparr>)"
proof -
  let ?iov = "cc_iovs ctx ! cc_idx ctx"
  let ?iov' = "take (cc_off ctx) ?iov @ take len buf @ drop (cc_off ctx + len) ?iov"
  let ?ctx = "ctx\<lparr>cc_iovs := (cc_iovs ctx)[cc_idx ctx := ?iov'], cc_off := cc_off ctx + len\<rparr>"
  define A where "A = concat (take (cc_idx ctx) (cc_iovs ctx))"
  define B where "B = concat (drop (Suc (cc_idx ctx)) (cc_iovs ctx))"
  have off: "cc_off ctx + len \<le> length ?iov" using wf i len by (auto simp: iov_wf_def)
  have tl: "length (take len buf) = len" using len by simp
  have f: "iov_flat ctx = A @ ?iov @ B" using iov_split [OF i] by (simp add: A_def B_def)
  have "iov_flat ?ctx = A @ ?iov' @ B"
    using iov_split [of ?ctx] i by (simp add: A_def B_def)
  also have "\<dots> = overwrite (iov_pos ctx) (take len buf) (iov_flat ctx)"
    unfolding f overwrite_def iov_pos_def A_def [symmetric] using off tl by simp
  finally have fl: "iov_flat ?ctx = overwrite (iov_pos ctx) (take len buf) (iov_flat ctx)" .
  have "length ?iov' = length ?iov" using off tl by simp
  then have ml: "map length (cc_iovs ?ctx) = map length (cc_iovs ctx)"
    by (simp add: map_update list_update_same_conv i)
  have "length (iov_flat ctx) \<ge> iov_pos ctx + len"
    using f off by (simp add: iov_pos_def A_def)
  then show ?thesis
    using fl ml tl off i \<open>length ?iov' = length ?iov\<close> wf
    by (simp add: iov_written_def iov_room_def iov_wf_def iov_pos_def)
qed

text \<open>The loop writes as much as there is room for and returns the rest.\<close>

lemma copy_loop_written:
  assumes "iov_wf ctx" and "buf \<noteq> []"
  shows "iov_written ctx (take (iov_room ctx) buf) (fst (copy_loop ctx buf)) \<and>
    snd (copy_loop ctx buf) = drop (iov_room ctx) buf"
  using assms
proof (induction ctx buf rule: copy_loop.induct)
  case (1 ctx buf)
  let ?iov = "cc_iovs ctx ! cc_idx ctx"
  let ?r = "length ?iov - cc_off ctx"
  note wf = "1.prems"(1)
  show ?case
  proof (cases "cc_idx ctx \<ge> length (cc_iovs ctx)")
    case True
    then have "iov_room ctx = 0" using wf by (simp add: iov_room_def iov_pos_def iov_flat_def)
    with True wf show ?thesis by (simp add: copy_loop.simps [of ctx buf] iov_written_refl)
  next
    case i: False
    show ?thesis
    proof (cases "?r = 0")
      case True
      let ?ctx = "ctx\<lparr>cc_idx := cc_idx ctx + 1, cc_off := 0\<rparr>"
      have "cc_off ctx = length ?iov" using wf True i by (simp add: iov_wf_def)
      then have e: "iov_pos ?ctx = iov_pos ctx" "iov_flat ?ctx = iov_flat ctx" "iov_wf ?ctx"
        using i by (simp_all add: iov_pos_def iov_flat_def iov_wf_def take_Suc_conv_app_nth)
      have "iov_written ?ctx bs c \<longleftrightarrow> iov_written ctx bs c" for bs c
        unfolding iov_written_def iov_room_def e by simp
      then show ?thesis
        using "1.IH"(1) [OF i refl refl True e(3)] "1.prems"(2) True i e
        by (simp add: copy_loop.simps [of ctx buf] Let_def iov_room_def)
    next
      case False
      define len where "len = min ?r (length buf)"
      define ctx' where "ctx' = ctx\<lparr>cc_iovs := (cc_iovs ctx)[cc_idx ctx :=
          take (cc_off ctx) ?iov @ take len buf @ drop (cc_off ctx + len) ?iov], cc_off := cc_off ctx + len\<rparr>"
      have w: "iov_written ctx (take len buf) ctx'"
        unfolding ctx'_def using copy_step_written [OF wf _ len_def] i by simp
      have room: "len \<le> iov_room ctx" "iov_room ctx' = iov_room ctx - len"
        using w iov_written_room [OF w] by (simp_all add: iov_written_def len_def)
      have loop: "copy_loop ctx buf = (if len = length buf then (ctx', []) else copy_loop ctx' (drop len buf))"
        using i False by (simp add: copy_loop.simps [of ctx buf] Let_def len_def ctx'_def)
      show ?thesis
      proof (cases "len = length buf")
        case True
        with w room loop show ?thesis by simp
      next
        case ne: False
        have wf': "iov_wf ctx'" using w by (simp add: iov_written_def)
        have "drop len buf \<noteq> []" using ne by (simp add: len_def)
        then have IH: "iov_written ctx' (take (iov_room ctx') (drop len buf)) (fst (copy_loop ctx' (drop len buf)))"
          "snd (copy_loop ctx' (drop len buf)) = drop (iov_room ctx') (drop len buf)"
          using "1.IH"(2) [OF i refl refl False len_def refl ctx'_def ne wf'] by simp_all
        have "take len buf @ take (iov_room ctx - len) (drop len buf) = take (iov_room ctx) buf"
          using room(1) by (metis le_add_diff_inverse take_add)
        then show ?thesis
          using IH iov_written_trans [OF wf w IH(1)] ne room loop by simp
      qed
    qed
  qed
qed

theorem copy_buf_to_iovs_flat:
  assumes "iov_wf ctx"
  shows "iov_written ctx (take (iov_room ctx) buf) (fst (copy_buf_to_iovs ctx buf)) \<and>
    snd (copy_buf_to_iovs ctx buf) = min (length buf) (iov_room ctx)"
  using copy_loop_written [OF assms, of buf] iov_written_refl [OF assms]
  by (cases "buf = []") (auto simp: copy_buf_to_iovs_def split_beta min_def)

end
