(* ===== verification/Log_Pages.thy ===== *)
theory Log_Pages
  imports Subsys Iovs
begin

text \<open>
  The log pages of a controller (\<^verbatim>\<open>src/nvmf/ctrlr.c\<close>): which part of a page is copied into the
  buffer of the request, and what reading a page does to the state of the controller.

  How the structures of a page are laid out in bytes is defined in headers of the library that
  the repository does not contain; \<open>page_layout\<close> stands for it. Lengths and offsets are natural
  numbers: every subtraction in the code is guarded by a comparison.
\<close>

section \<open>Layout\<close>

record page_layout =
  ly_ana_hdr_size :: nat
  ly_ana_desc_size :: nat
  ly_nsid_size :: nat
  ly_resv_size :: nat
  ly_ana_hdr :: "u16 \<Rightarrow> u8 list" \<comment> \<open>from the number of groups\<close>
  ly_ana_desc :: "u32 \<Rightarrow> u32 \<Rightarrow> ana_state \<Rightarrow> u8 list" \<comment> \<open>group, number of namespaces, state\<close>
  ly_nsid :: "u32 \<Rightarrow> u8 list"
  ly_resv :: "reservation_log \<Rightarrow> u8 list"
  ly_firmware :: "u8 list"
  ly_effects :: "bool \<Rightarrow> u8 list" \<comment> \<open>whether zone append is supported\<close>

section \<open>Copying a piece of a page\<close>

text \<open>The state of a copy: the buffer, what is left of the offset and of the length. A piece of
  \<open>sz\<close> bytes is skipped while the offset reaches behind it.\<close>

type_synonym copy_state = "copy_iovs_ctx \<times> nat \<times> nat"

definition copy_piece :: "nat \<Rightarrow> u8 list \<Rightarrow> copy_state \<Rightarrow> copy_state" where
  "copy_piece sz bytes st =
     (let (ctx, off, len) = st in
      if off \<ge> sz then (ctx, off - sz, len)
      else
        let copy_len = min (sz - off) len;
            (ctx', copied_len) = copy_buf_to_iovs ctx (take copy_len (drop off bytes))
        in (ctx', 0, len - copied_len))"

section \<open>The ANA page\<close>

definition find_listener_at :: "subsys_listener list \<Rightarrow> addr \<Rightarrow> subsys_listener option" where
  "find_listener_at ls a = List.find (\<lambda>l. sl_addr l = a) ls"

definition get_ana_state :: "spdk_nvmf_subsystem \<Rightarrow> spdk_nvmf_ctrlr \<Rightarrow> u32 \<Rightarrow> fault + ana_state" where
  "get_ana_state s c anagrpid =
     (if \<not> sb_ana_reporting s then Inr ANA_OPTIMIZED
      else case ct_listener c of
        None \<Rightarrow> Inr ANA_INACCESSIBLE
      | Some la \<Rightarrow>
          (case find_listener_at (sb_listeners s) la of
             None \<Rightarrow> Inl UseAfterFree
           | Some l \<Rightarrow>
               let i = unat (anagrpid - 1)
               in if i \<ge> length (sl_ana_state l) then Inl OutOfBounds else Inr (sl_ana_state l ! i)))"

definition get_ana_state_from_nsid :: "spdk_nvmf_subsystem \<Rightarrow> spdk_nvmf_ctrlr \<Rightarrow> u32 \<Rightarrow> fault + ana_state" where
  "get_ana_state_from_nsid s c nsid =
     (case get_ns s nsid of None \<Rightarrow> Inr ANA_OPTIMIZED | Some ns \<Rightarrow> get_ana_state s c (sn_anagrpid ns))"

definition num_anagrp :: "spdk_nvmf_subsystem \<Rightarrow> nat" where
  "num_anagrp s = length (filter (\<lambda>n. n > 0) (sb_ana_group s))"

text \<open>The namespaces of the subsystem in the order of their ids.\<close>

definition ns_list :: "spdk_nvmf_subsystem \<Rightarrow> subsys_ns list" where
  "ns_list s = List.map_filter id (sb_ns s)"

fun ana_nsids :: "page_layout \<Rightarrow> u32 \<Rightarrow> subsys_ns list \<Rightarrow> copy_state \<Rightarrow> copy_state" where
  "ana_nsids ly g [] st = st"
| "ana_nsids ly g (ns # nss) st =
     (if sn_anagrpid ns \<noteq> g then ana_nsids ly g nss st
      else let (ctx, off, len) = copy_piece (ly_nsid_size ly) (ly_nsid ly (ns_nsid (sn_ns ns))) st
           in if len = 0 then (ctx, off, len) else ana_nsids ly g nss (ctx, off, len))"

text \<open>The loop over the groups, given by their ids.\<close>

fun ana_groups ::
    "page_layout \<Rightarrow> spdk_nvmf_subsystem \<Rightarrow> spdk_nvmf_ctrlr \<Rightarrow> nat list \<Rightarrow> copy_state \<Rightarrow> fault + copy_state" where
  "ana_groups ly s c [] st = Inr st"
| "ana_groups ly s c (g # gs) st =
     (if sb_ana_group s ! (g - 1) = 0 then ana_groups ly s c gs st
      else
        bindR (if fst (snd st) \<ge> ly_ana_desc_size ly
               then Inr (fst st, fst (snd st) - ly_ana_desc_size ly, snd (snd st))
               else bindR (get_ana_state s c (of_nat g)) (\<lambda>ast.
                      Inr (copy_piece (ly_ana_desc_size ly)
                        (ly_ana_desc ly (of_nat g) (sb_ana_group s ! (g - 1)) ast) st))) (\<lambda>st1.
        if snd (snd st1) = 0 then Inr st1
        else let st2 = ana_nsids ly (of_nat g) (ns_list s) st1
             in if snd (snd st2) = 0 then Inr st2 else ana_groups ly s c gs st2))"

definition ana_page_copy ::
    "page_layout \<Rightarrow> spdk_nvmf_subsystem \<Rightarrow> spdk_nvmf_ctrlr \<Rightarrow> copy_state \<Rightarrow> fault + copy_state" where
  "ana_page_copy ly s c st =
     (if snd (snd st) = 0 then Inr st
      else
        let st1 = copy_piece (ly_ana_hdr_size ly) (ly_ana_hdr ly (of_nat (num_anagrp s))) st
        in if snd (snd st1) = 0 then Inr st1
           else ana_groups ly s c [1 ..< max_nsid s + 1] st1)"

definition get_ana_log_page ::
    "page_layout \<Rightarrow> spdk_nvmf_subsystem \<Rightarrow> u8 list list \<Rightarrow> nat \<Rightarrow> nat \<Rightarrow> bool \<Rightarrow> spdk_nvmf_ctrlr \<Rightarrow>
       fault + u8 list list \<times> spdk_nvmf_ctrlr" where
  "get_ana_log_page ly s iovs offset len rae c =
     bindR (ana_page_copy ly s c (init_copy_iovs_ctx iovs, offset, len)) (\<lambda>(ctx, _).
     Inr (cc_iovs ctx, if rae then c else unmask_aen ANA_CHANGE_MASK_BIT c))"

section \<open>The other pages\<close>

definition copy_page :: "u8 list \<Rightarrow> u8 list list \<Rightarrow> nat \<Rightarrow> nat \<Rightarrow> u8 list list" where
  "copy_page page iovs offset len =
     (if offset < length page
      then cc_iovs (fst (copy_buf_to_iovs (init_copy_iovs_ctx iovs)
             (take (min (length page - offset) len) (drop offset page))))
      else iovs)"

definition get_firmware_slot_log_page :: "page_layout \<Rightarrow> u8 list list \<Rightarrow> nat \<Rightarrow> nat \<Rightarrow> u8 list list" where
  "get_firmware_slot_log_page ly iovs offset len = copy_page (ly_firmware ly) iovs offset len"

definition get_error_log_page :: "bool \<Rightarrow> spdk_nvmf_ctrlr \<Rightarrow> spdk_nvmf_ctrlr" where
  "get_error_log_page rae c = (if rae then c else unmask_aen ERROR_MASK_BIT c)"

definition get_cmds_and_effects_log_page ::
    "page_layout \<Rightarrow> spdk_nvmf_subsystem \<Rightarrow> u8 list list \<Rightarrow> nat \<Rightarrow> nat \<Rightarrow> u8 list list" where
  "get_cmds_and_effects_log_page ly s iovs offset len =
     copy_page (ly_effects ly (sb_zone_append_supported s)) iovs offset len"

definition get_changed_ns_list_log_page ::
    "page_layout \<Rightarrow> u8 list list \<Rightarrow> nat \<Rightarrow> nat \<Rightarrow> bool \<Rightarrow> spdk_nvmf_ctrlr \<Rightarrow> u8 list list \<times> spdk_nvmf_ctrlr" where
  "get_changed_ns_list_log_page ly iovs offset len rae c =
     (let iovs' = copy_page (concat (map (ly_nsid ly) (ct_changed_ns_list c))) iovs offset len;
          c1 = c\<lparr>ct_changed_ns_list_count := 0,
                 ct_changed_ns_list := replicate (length (ct_changed_ns_list c)) 0\<rparr>
      in (iovs', if rae then c1 else unmask_aen NS_ATTR_CHANGE_MASK_BIT c1))"

text \<open>The loop over the queued reservation log pages: each entry it takes leaves the queue;
  \<open>next\<close> is the position behind the entries taken so far.\<close>

fun resv_log_loop ::
    "page_layout \<Rightarrow> nat \<Rightarrow> copy_state \<Rightarrow> reservation_log list \<Rightarrow> copy_iovs_ctx \<times> reservation_log list" where
  "resv_log_loop ly next (ctx, off, len) [] = (ctx, [])"
| "resv_log_loop ly next (ctx, off, len) (lg # lgs) =
     (let next' = next + ly_resv_size ly;
          (ctx', off', len') =
            (if next' > off then
               let copy_len = min (next' - off) len
               in (fst (copy_buf_to_iovs ctx (take copy_len (ly_resv ly lg))), off + copy_len, len - copy_len)
             else (ctx, off, len))
      in if len' = 0 then (ctx', lgs) else resv_log_loop ly next' (ctx', off', len') lgs)"

definition get_reservation_notification_log_page ::
    "page_layout \<Rightarrow> u8 list list \<Rightarrow> nat \<Rightarrow> nat \<Rightarrow> bool \<Rightarrow> spdk_nvmf_ctrlr \<Rightarrow> u8 list list \<times> spdk_nvmf_ctrlr" where
  "get_reservation_notification_log_page ly iovs offset len rae c =
     (if ct_num_avail_log_pages c = 0 then (iovs, c)
      else if offset \<ge> unat (ct_num_avail_log_pages c) * ly_resv_size ly then (iovs, c)
      else
        let (ctx, lgs) = resv_log_loop ly 0 (init_copy_iovs_ctx iovs, offset, len) (ct_log_head c);
            c1 = c\<lparr>ct_log_head := lgs,
                   ct_num_avail_log_pages := ct_num_avail_log_pages c -
                     of_nat (length (ct_log_head c) - length lgs)\<rparr>
        in (cc_iovs ctx, if rae then c1 else unmask_aen RESERVATION_LOG_AVAIL_MASK_BIT c1))"

section \<open>Get Log Page\<close>

abbreviation LOG_ERROR :: u8 where "LOG_ERROR \<equiv> 0x01"
abbreviation LOG_HEALTH_INFORMATION :: u8 where "LOG_HEALTH_INFORMATION \<equiv> 0x02"
abbreviation LOG_FIRMWARE_SLOT :: u8 where "LOG_FIRMWARE_SLOT \<equiv> 0x03"
abbreviation LOG_CHANGED_NS_LIST :: u8 where "LOG_CHANGED_NS_LIST \<equiv> 0x04"
abbreviation LOG_COMMAND_EFFECTS_LOG :: u8 where "LOG_COMMAND_EFFECTS_LOG \<equiv> 0x05"
abbreviation LOG_ASYMMETRIC_NAMESPACE_ACCESS :: u8 where "LOG_ASYMMETRIC_NAMESPACE_ACCESS \<equiv> 0x0c"
abbreviation LOG_DISCOVERY :: u8 where "LOG_DISCOVERY \<equiv> 0x70"
abbreviation LOG_RESERVATION_NOTIFICATION :: u8 where "LOG_RESERVATION_NOTIFICATION \<equiv> 0x80"

record get_log_page_cmd =
  gl_offset :: u64
  gl_numdl :: u16
  gl_numdu :: u16
  gl_rae :: bool
  gl_lid :: u8
  gl_length :: u32 \<comment> \<open>of the buffer of the request\<close>
  gl_iovs :: "u8 list list option" \<comment> \<open>the buffer, if there is one\<close>

datatype log_status = LOG_OK | LOG_INVALID_FIELD | LOG_INTERNAL_ERROR

definition log_page_len :: "get_log_page_cmd \<Rightarrow> nat" where
  "log_page_len cmd = (unat (gl_numdu cmd) * 2 ^ 16 + unat (gl_numdl cmd) + 1) * 4"

text \<open>\<open>discovery\<close>: what \<open>nvmf_get_discovery_log_page\<close> does to the buffer for an offset and a
  length; \<open>None\<close>: the transport id the command came in through cannot be determined.\<close>

definition get_log_page ::
    "page_layout \<Rightarrow> (nat \<Rightarrow> nat \<Rightarrow> u8 list list \<Rightarrow> fault + u8 list list) option \<Rightarrow> spdk_nvmf_subsystem \<Rightarrow>
       get_log_page_cmd \<Rightarrow> spdk_nvmf_ctrlr \<Rightarrow> fault + log_status \<times> u8 list list option \<times> spdk_nvmf_ctrlr" where
  "get_log_page ly discovery s cmd c =
     (let off = unat (gl_offset cmd); len = log_page_len cmd; rae = gl_rae cmd; lid = gl_lid cmd;
          invalid = Inr (LOG_INVALID_FIELD, gl_iovs cmd, c)
      in case gl_iovs cmd of
        None \<Rightarrow> invalid
      | Some iovs \<Rightarrow>
          if gl_offset cmd AND 3 \<noteq> 0 then invalid
          else if len > unat (gl_length cmd) then invalid
          else if sb_discovery s then
            (if lid = LOG_DISCOVERY then
               (case discovery of
                  None \<Rightarrow> Inr (LOG_INTERNAL_ERROR, Some iovs, c)
                | Some f \<Rightarrow> bindR (f off len iovs) (\<lambda>iovs'.
                    Inr (LOG_OK, Some iovs', if rae then c else unmask_aen DISCOVERY_LOG_CHANGE_MASK_BIT c)))
             else invalid)
          else if off > len then invalid
          else if lid = LOG_ERROR then Inr (LOG_OK, Some iovs, get_error_log_page rae c)
          else if lid = LOG_HEALTH_INFORMATION then Inr (LOG_OK, Some iovs, c)
          else if lid = LOG_FIRMWARE_SLOT then
            Inr (LOG_OK, Some (get_firmware_slot_log_page ly iovs off len), c)
          else if lid = LOG_ASYMMETRIC_NAMESPACE_ACCESS then
            (if sb_ana_reporting s then
               bindR (get_ana_log_page ly s iovs off len rae c) (\<lambda>(iovs', c'). Inr (LOG_OK, Some iovs', c'))
             else invalid)
          else if lid = LOG_COMMAND_EFFECTS_LOG then
            Inr (LOG_OK, Some (get_cmds_and_effects_log_page ly s iovs off len), c)
          else if lid = LOG_CHANGED_NS_LIST then
            (let (iovs', c') = get_changed_ns_list_log_page ly iovs off len rae c in Inr (LOG_OK, Some iovs', c'))
          else if lid = LOG_RESERVATION_NOTIFICATION then
            (let (iovs', c') = get_reservation_notification_log_page ly iovs off len rae c
             in Inr (LOG_OK, Some iovs', c'))
          else invalid)"

text \<open>A small layout on which the examples are evaluated.\<close>

definition demo_ly :: page_layout where
  "demo_ly = \<lparr>ly_ana_hdr_size = 2, ly_ana_desc_size = 3, ly_nsid_size = 1, ly_resv_size = 4,
     ly_ana_hdr = (\<lambda>n. [0, ucast n]), ly_ana_desc = (\<lambda>g n st. [ucast g, ucast n, if st = ANA_OPTIMIZED then 1 else 3]),
     ly_nsid = (\<lambda>n. [ucast n]), ly_resv = (\<lambda>lg. [1, 2, 3, ucast (lg_nsid lg)]),
     ly_firmware = [], ly_effects = (\<lambda>_. [])\<rparr>"

end
