(* ===== verification/Discovery.thy ===== *)
theory Discovery
  imports Log_Pages
begin

text \<open>
  The discovery log page (\<^verbatim>\<open>src/nvmf/ctrlr_discovery.c\<close>): which listeners it lists for a host,
  how it is copied into the buffer of the request, who is told when it changes.

  \<open>tid\<close> gives the fields of a transport id that the filters compare; \<open>entry_layout\<close> the bytes
  of the header and of an entry. \<open>mem\<close> says which allocations succeed: the first for the
  header, the others for the entries in the order in which they are made; all that are not
  listed succeed.
\<close>

section \<open>Transport ids\<close>

record transport_id =
  ti_trtype :: nat
  ti_trstring :: string
  ti_adrfam :: nat
  ti_traddr :: string
  ti_trsvcid :: string

abbreviation TRANSPORT_CUSTOM :: nat where "TRANSPORT_CUSTOM \<equiv> 4096"

definition tolower :: "char \<Rightarrow> char" where
  "tolower c = (let n = (of_char c :: nat) in if 65 \<le> n \<and> n \<le> 90 then char_of (n + 32) else c)"

definition strcaseeq :: "string \<Rightarrow> string \<Rightarrow> bool" where
  "strcaseeq a b \<longleftrightarrow> map tolower a = map tolower b"

definition compare_trtype :: "transport_id \<Rightarrow> transport_id \<Rightarrow> bool" where
  "compare_trtype a b =
     (if ti_trtype a = TRANSPORT_CUSTOM then strcaseeq (ti_trstring a) (ti_trstring b)
      else ti_trtype a = ti_trtype b)"

definition compare_tr_addr :: "transport_id \<Rightarrow> transport_id \<Rightarrow> bool" where
  "compare_tr_addr a b \<longleftrightarrow> ti_adrfam a = ti_adrfam b \<and> strcaseeq (ti_traddr a) (ti_traddr b)"

definition compare_tr_svcid :: "transport_id \<Rightarrow> transport_id \<Rightarrow> bool" where
  "compare_tr_svcid a b \<longleftrightarrow> strcaseeq (ti_trsvcid a) (ti_trsvcid b)"

section \<open>Changes\<close>

text \<open>The controllers that are sent a message to give the notice.\<close>

definition nvmf_update_discovery_log :: "string option \<Rightarrow> spdk_nvmf_tgt \<Rightarrow> addr list \<times> spdk_nvmf_tgt" where
  "nvmf_update_discovery_log hostnqn t =
     (let t1 = t\<lparr>tg_discovery_genctr := tg_discovery_genctr t + 1\<rparr>
      in case tgt_find_subsystem t1 DISCOVERY_NQN of
        None \<Rightarrow> ([], t1)
      | Some s \<Rightarrow>
          (map ct_addr (filter (\<lambda>c. hostnqn = None \<or> hostnqn = Some (ct_hostnqn c)) (sb_ctrlrs s)), t1))"

section \<open>The page\<close>

record discovery_entry =
  de_portid :: nat
  de_asqsz :: u16
  de_discovery :: bool
  de_subnqn :: string
  de_trid :: trid

record entry_layout =
  el_hdr :: "u64 \<Rightarrow> u64 \<Rightarrow> u8 list" \<comment> \<open>generation counter, number of records\<close>
  el_entry :: "discovery_entry \<Rightarrow> u8 list"

text \<open>The listeners that a subsystem does not list: the one the command came in through, for a
  discovery subsystem, and those the filters of the target exclude.\<close>

definition skip_listener ::
    "(trid \<Rightarrow> transport_id) \<Rightarrow> u32 \<Rightarrow> trid \<Rightarrow> spdk_nvmf_subsystem \<Rightarrow> subsys_listener \<Rightarrow> bool" where
  "skip_listener tid flt src s l \<longleftrightarrow>
     (sb_discovery s \<and> sl_trid l = src) \<or>
     (bit flt 0 \<and> \<not> compare_trtype (tid (sl_trid l)) (tid src)) \<or>
     (bit flt 1 \<and> \<not> compare_tr_addr (tid (sl_trid l)) (tid src)) \<or>
     (bit flt 2 \<and> \<not> compare_tr_svcid (tid (sl_trid l)) (tid src))"

definition disc_entry :: "(trid \<Rightarrow> u16) \<Rightarrow> spdk_nvmf_subsystem \<Rightarrow> subsys_listener \<Rightarrow> discovery_entry" where
  "disc_entry aq_depth s l = \<lparr>de_portid = sl_id l, de_asqsz = aq_depth (sl_trid l), de_discovery = sb_discovery s,
     de_subnqn = sb_subnqn s, de_trid = sl_trid l\<rparr>"

text \<open>The loops over the listeners of a subsystem and over the subsystems. An allocation that fails
  ends the loop over the listeners only.\<close>

fun disc_listeners ::
    "(subsys_listener \<Rightarrow> bool) \<Rightarrow> (subsys_listener \<Rightarrow> discovery_entry) \<Rightarrow> bool list \<Rightarrow> discovery_entry list \<Rightarrow>
       subsys_listener list \<Rightarrow> bool list \<times> discovery_entry list" where
  "disc_listeners skip ent mem acc [] = (mem, acc)"
| "disc_listeners skip ent mem acc (l # ls) =
     (if skip l then disc_listeners skip ent mem acc ls
      else case mem of
        False # mem' \<Rightarrow> (mem', acc)
      | True # mem' \<Rightarrow> disc_listeners skip ent mem' (acc @ [ent l]) ls
      | [] \<Rightarrow> disc_listeners skip ent [] (acc @ [ent l]) ls)"

definition skip_subsystem :: "string option \<Rightarrow> spdk_nvmf_subsystem option \<Rightarrow> bool" where
  "skip_subsystem hostnqn os =
     (case os of
        None \<Rightarrow> True
      | Some s \<Rightarrow> sb_state s = SUBSYSTEM_INACTIVE \<or> sb_state s = SUBSYSTEM_DEACTIVATING \<or>
          \<not> host_allowed s hostnqn)"

fun disc_subsystems ::
    "(trid \<Rightarrow> transport_id) \<Rightarrow> (trid \<Rightarrow> u16) \<Rightarrow> u32 \<Rightarrow> trid \<Rightarrow> string option \<Rightarrow> bool list \<Rightarrow> discovery_entry list \<Rightarrow>
       spdk_nvmf_subsystem option list \<Rightarrow> bool list \<times> discovery_entry list" where
  "disc_subsystems tid aq flt src host mem acc [] = (mem, acc)"
| "disc_subsystems tid aq flt src host mem acc (os # oss) =
     (if skip_subsystem host os then disc_subsystems tid aq flt src host mem acc oss
      else let s = the os;
               (mem', acc') = disc_listeners (skip_listener tid flt src s) (disc_entry aq s) mem acc (sb_listeners s)
           in disc_subsystems tid aq flt src host mem' acc' oss)"

definition discovery_page :: "entry_layout \<Rightarrow> u64 \<Rightarrow> discovery_entry list \<Rightarrow> u8 list" where
  "discovery_page el genctr es = el_hdr el genctr (of_nat (length es)) @ concat (map (el_entry el) es)"

definition generate_discovery_log ::
    "entry_layout \<Rightarrow> (trid \<Rightarrow> transport_id) \<Rightarrow> (trid \<Rightarrow> u16) \<Rightarrow> bool list \<Rightarrow> spdk_nvmf_tgt \<Rightarrow> string option \<Rightarrow> trid \<Rightarrow>
       u8 list option" where
  "generate_discovery_log el tid aq mem t host src =
     (let build = (\<lambda>mem'. Some (discovery_page el (tg_discovery_genctr t)
            (snd (disc_subsystems tid aq (tg_discovery_filter t) src host mem' [] (tg_subsystems t)))))
      in case mem of False # _ \<Rightarrow> None | True # mem' \<Rightarrow> build mem' | [] \<Rightarrow> build [])"

section \<open>Copying\<close>

text \<open>The subtraction of the offset from the size of the page is unsigned: behind the end of the
  page it wraps around, and what is copied lies outside the page.\<close>

primrec disc_copy :: "u8 list \<Rightarrow> nat \<Rightarrow> nat \<Rightarrow> u8 list list \<Rightarrow> fault + u8 list list" where
  "disc_copy page off len [] = Inr []"
| "disc_copy page off len (v # vs) =
     (let avail = (if off \<le> length page then length page - off else 2 ^ 64 - (off - length page));
          copy_len = min avail (min (length v) len)
      in if off > length page \<and> copy_len > 0 then Inl OutOfBounds
         else
           let data = take copy_len (drop off page); off' = off + copy_len; len' = len - copy_len
           in if length page \<le> off' \<or> len' = 0
              then Inr ((data @ replicate (length v - copy_len) 0) # map (\<lambda>w. replicate (length w) 0) vs)
              else bindR (disc_copy page off' len' vs) (\<lambda>vs'. Inr ((data @ drop copy_len v) # vs')))"

definition get_discovery_log_page ::
    "entry_layout \<Rightarrow> (trid \<Rightarrow> transport_id) \<Rightarrow> (trid \<Rightarrow> u16) \<Rightarrow> bool list \<Rightarrow> spdk_nvmf_tgt \<Rightarrow> string option \<Rightarrow> trid \<Rightarrow>
       nat \<Rightarrow> nat \<Rightarrow> u8 list list \<Rightarrow> fault + u8 list list" where
  "get_discovery_log_page el tid aq mem t host src off len iovs =
     (case generate_discovery_log el tid aq mem t host src of
        None \<Rightarrow> Inr iovs
      | Some page \<Rightarrow> disc_copy page off len iovs)"

section \<open>What the page lists\<close>

text \<open>Every listener, by subsystem, that the host may see.\<close>

definition visible_entries ::
    "(trid \<Rightarrow> transport_id) \<Rightarrow> (trid \<Rightarrow> u16) \<Rightarrow> u32 \<Rightarrow> trid \<Rightarrow> string option \<Rightarrow> spdk_nvmf_subsystem option list \<Rightarrow>
       discovery_entry list" where
  "visible_entries tid aq flt src host oss =
     concat (map (\<lambda>s. map (disc_entry aq s) (filter (\<lambda>l. \<not> skip_listener tid flt src s l) (sb_listeners s)))
       (filter (\<lambda>s. sb_state s \<notin> {SUBSYSTEM_INACTIVE, SUBSYSTEM_DEACTIVATING} \<and> host_allowed s host)
          (List.map_filter id oss)))"

lemma disc_listeners_all: "disc_listeners skip ent [] acc ls = ([], acc @ map ent (filter (\<lambda>l. \<not> skip l) ls))"
  by (induction ls arbitrary: acc) auto

lemma disc_subsystems_all:
  "disc_subsystems tid aq flt src host [] acc oss = ([], acc @ visible_entries tid aq flt src host oss)"
proof (induction oss arbitrary: acc)
  case Nil
  then show ?case by (simp add: visible_entries_def map_filter_simps)
next
  case (Cons os oss)
  then show ?case
    by (cases os) (simp_all add: skip_subsystem_def visible_entries_def map_filter_simps disc_listeners_all)
qed

lemma take_split: "c \<le> k \<Longrightarrow> take k xs = take c xs @ take (k - c) (drop c xs)"
  by (metis le_add_diff_inverse take_add)

lemma last_piece:
  "p \<le> f + c \<or> n - c = 0 \<Longrightarrow> c = min (p - f) (min v n) \<Longrightarrow> min (min (v + k) n) (p - f) = (c :: nat)"
  by (auto simp: min_def split: if_splits)

text \<open>Inside the page the buffer gets the asked part of it, and zeros behind.\<close>

lemma disc_copy_inside:
  "off \<le> length page \<Longrightarrow> \<exists>vs'. disc_copy page off len vs = Inr vs' \<and> map length vs' = map length vs \<and>
     (let data = take (length (concat vs)) (take len (drop off page))
      in concat vs' = data @ replicate (length (concat vs) - length data) 0)"
proof (induction vs arbitrary: off len)
  case Nil
  then show ?case by simp
next
  case (Cons v vs)
  define cl where "cl = min (length page - off) (min (length v) len)"
  have le: "cl \<le> length v" "cl \<le> len" "off + cl \<le> length page" using Cons.prems by (simp_all add: cl_def)
  have step: "disc_copy page off len (v # vs) =
      (if length page \<le> off + cl \<or> len - cl = 0
       then Inr ((take cl (drop off page) @ replicate (length v - cl) 0) # map (\<lambda>w. replicate (length w) 0) vs)
       else bindR (disc_copy page (off + cl) (len - cl) vs) (\<lambda>vs'. Inr ((take cl (drop off page) @ drop cl v) # vs')))"
    using Cons.prems unfolding cl_def by (simp add: Let_def)
  note [simp del] = disc_copy.simps(2)
  show ?case
  proof (cases "length page \<le> off + cl \<or> len - cl = 0")
    case True
    have m: "min (min (length v + length (concat vs)) len) (length page - off) = cl"
      using True Cons.prems cl_def by (intro last_piece)
    have "take n (drop off page) = take (min n (length page - off)) (drop off page)" for n
      by (simp add: min_def)
    then have "take (length v + length (concat vs)) (take len (drop off page)) = take cl (drop off page)"
      unfolding take_take m [symmetric] .
    moreover have "map (length \<circ> (\<lambda>w. replicate (length w) (0 :: u8))) vs = map length vs" by simp
    moreover have "concat (map (\<lambda>w. replicate (length w) 0) vs) = replicate (length (concat vs)) (0 :: u8)"
      by (induction vs) (simp_all add: replicate_add)
    ultimately show ?thesis
      using True le Cons.prems
      by (simp add: step Let_def min_absorb2 replicate_add [symmetric])
  next
    case False
    then have cl: "cl = length v" using le by (auto simp: cl_def min_def split: if_splits)
    from Cons.IH [OF le(3), of "len - cl"] obtain vs' where
      vs': "disc_copy page (off + cl) (len - cl) vs = Inr vs'" "map length vs' = map length vs"
        "concat vs' = take (length (concat vs)) (take (len - cl) (drop (off + cl) page)) @
           replicate (length (concat vs) - length (take (length (concat vs)) (take (len - cl) (drop (off + cl) page)))) 0"
      by (auto simp: Let_def)
    have "take (length v + length (concat vs)) (take len (drop off page)) =
        take cl (drop off page) @ take (length (concat vs)) (take (len - cl) (drop (off + cl) page))"
      using take_split [of cl "min (length v + length (concat vs)) len" "drop off page"] cl le(2)
      by (simp add: min_diff [symmetric] ac_simps)
    with vs' show ?thesis
      using False cl le Cons.prems
      by (auto simp: step Let_def)
  qed
qed

text \<open>Reading the discovery log page inside the page. The buffer gets, from its start, the bytes
  of the page from the offset on, as many as were asked for and there are, and zeros behind
  them; it keeps its segments. The page is the header with the generation counter and the
  number of records, and then one entry for every listener that the host may see: those of the
  subsystems that are neither inactive nor being deactivated and allow the host, in order,
  less the listener a discovery controller was reached through and those that the filters of
  the target exclude.\<close>

theorem discovery_page_read:
  assumes "page = discovery_page el (tg_discovery_genctr t)
      (visible_entries tid aq (tg_discovery_filter t) src host (tg_subsystems t))"
    and "off \<le> length page"
  shows "\<exists>iovs'. get_discovery_log_page el tid aq [] t host src off len iovs = Inr iovs' \<and>
    map length iovs' = map length iovs \<and>
    (let data = take (length (concat iovs)) (take len (drop off page))
     in concat iovs' = data @ replicate (length (concat iovs) - length data) 0)"
  using disc_copy_inside [OF assms(2), of len iovs]
  by (simp add: get_discovery_log_page_def generate_discovery_log_def disc_subsystems_all assms(1) Let_def)

text \<open>Reading the discovery log page behind its end. The offset is not checked against the size
  of the page, and the subtraction wraps around: whatever host is connected to the discovery
  subsystem makes the target copy memory behind the page into the buffer it reads.\<close>

theorem discovery_offset_reads_outside:
  assumes "sb_discovery s" and "gl_lid cmd = LOG_DISCOVERY" and "gl_iovs cmd = Some (v # vs)" and "v \<noteq> []"
    and "gl_offset cmd AND 3 = 0" and "log_page_len cmd \<le> unat (gl_length cmd)"
    and "generate_discovery_log el tid aq mem t (Some (ct_hostnqn c)) src = Some page"
    and "length page < unat (gl_offset cmd)"
  shows "get_log_page ly (Some (get_discovery_log_page el tid aq mem t (Some (ct_hostnqn c)) src)) s cmd c = Inl OutOfBounds"
proof -
  have "unat (gl_offset cmd) < 2 ^ 64" by (rule unat_u64_less)
  moreover have "0 < log_page_len cmd" by (simp add: log_page_len_def)
  ultimately have "0 < min (2 ^ 64 - (unat (gl_offset cmd) - length page)) (min (length v) (log_page_len cmd))"
    using assms(4) by simp
  then have "get_discovery_log_page el tid aq mem t (Some (ct_hostnqn c)) src (unat (gl_offset cmd))
      (log_page_len cmd) (v # vs) = Inl OutOfBounds"
    unfolding get_discovery_log_page_def assms(7) option.case disc_copy.simps Let_def using assms(8) by simp
  then show ?thesis
    using assms by (simp add: get_log_page_def Let_def)
qed

section \<open>The properties at concrete inputs\<close>

definition demo_el :: entry_layout where
  "demo_el = \<lparr>el_hdr = (\<lambda>g n. [ucast g, ucast n, 0, 0]), el_entry = (\<lambda>e. [of_nat (de_portid e), 1, 2, 3])\<rparr>"

definition demo_listener :: "nat \<Rightarrow> subsys_listener" where
  "demo_listener i = \<lparr>sl_addr = i, sl_trid = i, sl_id = i, sl_ana_state = [], sl_ana_state_change_count = 0\<rparr>"

definition demo_disc :: spdk_nvmf_subsystem where
  "demo_disc = (new_subsystem 0 DISCOVERY_NQN True 0)\<lparr>sb_state := SUBSYSTEM_ACTIVE, sb_allow_any_host := True,
     sb_listeners := [demo_listener 5, demo_listener 6]\<rparr>"

definition demo_tgt :: spdk_nvmf_tgt where
  "demo_tgt = \<lparr>tg_subsystems = [Some demo_disc, None], tg_discovery_genctr = 9, tg_discovery_filter = 0\<rparr>"

definition demo_tid :: "trid \<Rightarrow> transport_id" where
  "demo_tid t = \<lparr>ti_trtype = 3, ti_trstring = ''TCP'', ti_adrfam = 1, ti_traddr = ''10.0.0.1'', ti_trsvcid = ''4420''\<rparr>"

definition demo_host_ctrlr :: spdk_nvmf_ctrlr where
  "demo_host_ctrlr = \<lparr>ct_addr = 1, ct_cntlid = 1, ct_hostnqn = ''nqn.h'', ct_dynamic = True, ct_listener = None,
     ct_aec = 0, ct_aer_req = [], ct_async_events = [], ct_notice_aen_mask = 0, ct_changed_ns_list = [],
     ct_changed_ns_list_count = 0, ct_log_page_count = 0, ct_num_avail_log_pages = 0, ct_log_head = [],
     ct_sent = [], ct_freed = []\<rparr>"

theorem discovery_page_read_witness:
  "\<exists>iovs'. get_discovery_log_page demo_el demo_tid (\<lambda>_. 32) [] demo_tgt (Some ''nqn.h'') 6 4 8 [[7, 7], [7, 7, 7, 7]] = Inr iovs' \<and>
     concat iovs' = [5, 1, 2, 3, 0, 0]"
proof -
  define page where "page = discovery_page demo_el 9 (visible_entries demo_tid (\<lambda>_. 32) 0 6 (Some ''nqn.h'') (tg_subsystems demo_tgt))"
  have "page = [9, 1, 0, 0, 5, 1, 2, 3]" unfolding page_def by code_simp
  with discovery_page_read [of page demo_el demo_tgt demo_tid "\<lambda>_. 32" 6 "Some ''nqn.h''" 4 8 "[[7, 7], [7, 7, 7, 7]]"]
  show ?thesis by (auto simp: page_def demo_tgt_def eval_nat_numeral)
qed

theorem discovery_offset_reads_outside_witness:
  "get_log_page demo_ly (Some (get_discovery_log_page demo_el demo_tid (\<lambda>_. 32) [] demo_tgt (Some (ct_hostnqn demo_host_ctrlr)) 6))
     demo_disc \<lparr>gl_offset = 4096, gl_numdl = 0, gl_numdu = 0, gl_rae = False, gl_lid = LOG_DISCOVERY, gl_length = 4,
       gl_iovs = Some [[0, 0, 0, 0]]\<rparr> demo_host_ctrlr = Inl OutOfBounds"
proof -
  have g: "generate_discovery_log demo_el demo_tid (\<lambda>_. 32) [] demo_tgt (Some (ct_hostnqn demo_host_ctrlr)) 6 =
      Some [9, 1, 0, 0, 5, 1, 2, 3]" by code_simp
  have d: "sb_discovery demo_disc" by code_simp
  show ?thesis
    by (rule discovery_offset_reads_outside [OF d _ _ _ _ _ g, where v = "[0, 0, 0, 0]" and vs = "[]"]) (simp_all add: log_page_len_def)
qed

end
