(* ===== verification/Ctrlr_Events_Props.thy ===== *)
theory Ctrlr_Events_Props
  imports Log_Pages "HOL-Library.Multiset"
begin

text \<open>
  The controller as a state machine of requests, events and log pages: no request is lost or
  answered twice, events are delivered in order and once, an event that is lost blocks its
  kind.
\<close>

section \<open>The state machine\<close>

datatype ctrlr_event =
    Aer addr u16
  | NsNotice bool
  | AnaNotice bool
  | DiscNotice bool
  | ErrorEvent bool async_event
  | ResvLog bool reservation_log
  | AbortAers
  | AbortCid bool u16
  | FreeAers
  | SetAec u32 u32
  | NsChanged u32
  | GetLogPage page_layout "(nat \<Rightarrow> nat \<Rightarrow> u8 list list \<Rightarrow> fault + u8 list list) option" spdk_nvmf_subsystem get_log_page_cmd

fun ctrlr_step :: "spdk_nvmf_ctrlr \<Rightarrow> ctrlr_event \<Rightarrow> fault + spdk_nvmf_ctrlr" where
  "ctrlr_step c (Aer a cid) = Inr (async_event_request a cid c)"
| "ctrlr_step c (NsNotice mem) = Inr (async_event_ns_notice mem c)"
| "ctrlr_step c (AnaNotice mem) = Inr (async_event_ana_change_notice mem c)"
| "ctrlr_step c (DiscNotice mem) = Inr (async_event_discovery_log_change_notice mem c)"
| "ctrlr_step c (ErrorEvent mem ev) = Inr (async_event_error_event mem ev c)"
| "ctrlr_step c (ResvLog mem lg) = add_reservation_log mem lg c"
| "ctrlr_step c AbortAers = Inr (ctrlr_abort_aer c)"
| "ctrlr_step c (AbortCid admin cid) = Inr (snd (qpair_abort_aer admin cid c))"
| "ctrlr_step c FreeAers = Inr (free_aer c)"
| "ctrlr_step c (SetAec reserved cdw11) = Inr (set_features_async_event_configuration reserved cdw11 c)"
| "ctrlr_step c (NsChanged nsid) = Inr (ctrlr_ns_changed nsid c)"
| "ctrlr_step c (GetLogPage ly disc s cmd) = bindR (get_log_page ly disc s cmd c) (\<lambda>(_, _, c'). Inr c')"

definition ctrlr_inv :: "spdk_nvmf_ctrlr \<Rightarrow> bool" where
  "ctrlr_inv c \<longleftrightarrow> (ct_aer_req c = [] \<or> ct_async_events c = []) \<and> length (ct_aer_req c) \<le> MAX_ASYNC_EVENTS \<and>
     unat (ct_num_avail_log_pages c) = length (ct_log_head c)"

text \<open>The requests in the hands of the controller, answered and freed.\<close>

definition aers :: "spdk_nvmf_ctrlr \<Rightarrow> addr multiset" where
  "aers c = mset (map fst (ct_aer_req c)) + mset (map fst (ct_sent c)) + mset (ct_freed c)"

definition aers_of :: "ctrlr_event \<Rightarrow> addr multiset" where
  "aers_of e = (case e of Aer a _ \<Rightarrow> {#a#} | _ \<Rightarrow> {#})"

text \<open>The events delivered and those waiting, in order.\<close>

definition delivered :: "spdk_nvmf_ctrlr \<Rightarrow> async_event list" where
  "delivered c = List.map_filter (\<lambda>(_, r). case r of AerEvent ev \<Rightarrow> Some ev | _ \<Rightarrow> None) (ct_sent c)"

definition events :: "spdk_nvmf_ctrlr \<Rightarrow> async_event list" where
  "events c = delivered c @ ct_async_events c"

text \<open>The events that a step raises: those that are enabled and not masked.\<close>

definition raise_if :: "bool \<Rightarrow> nat \<Rightarrow> async_event \<Rightarrow> spdk_nvmf_ctrlr \<Rightarrow> async_event list" where
  "raise_if enabled m ev c = (if enabled \<and> \<not> bit (ct_notice_aen_mask c) m then [ev] else [])"

fun raises :: "spdk_nvmf_ctrlr \<Rightarrow> ctrlr_event \<Rightarrow> async_event list" where
  "raises c (NsNotice _) = raise_if (ns_attr_notice c) NS_ATTR_CHANGE_MASK_BIT event_ns_attr_changed c"
| "raises c (AnaNotice _) = raise_if (ana_change_notice c) ANA_CHANGE_MASK_BIT event_ana_change c"
| "raises c (DiscNotice _) = raise_if (discovery_log_change_notice c) DISCOVERY_LOG_CHANGE_MASK_BIT event_discovery_log_change c"
| "raises c (ErrorEvent _ ev) =
     raise_if (ae_type ev = EVENT_TYPE_ERROR \<and> ae_info ev \<le> EVENT_FW_IMAGE_LOAD) ERROR_MASK_BIT ev c"
| "raises c (ResvLog _ _) =
     raise_if (ct_num_avail_log_pages c \<noteq> 0xff) RESERVATION_LOG_AVAIL_MASK_BIT event_reservation_log c"
| "raises c _ = []"

text \<open>Whether an event can be stored: there is memory for it or a request to answer with it.\<close>

fun has_memory :: "ctrlr_event \<Rightarrow> bool" where
  "has_memory (NsNotice mem) \<longleftrightarrow> mem"
| "has_memory (AnaNotice mem) \<longleftrightarrow> mem"
| "has_memory (DiscNotice mem) \<longleftrightarrow> mem"
| "has_memory (ErrorEvent mem _) \<longleftrightarrow> mem"
| "has_memory (ResvLog mem _) \<longleftrightarrow> mem"
| "has_memory _ \<longleftrightarrow> True"

section \<open>Masks\<close>

lemma mask_bit: "w AND push_bit m 1 = 0 \<longleftrightarrow> \<not> bit (w :: u64) m"
  by (simp add: bit_iff_and_push_bit_not_eq_0)

lemma mask_aen_bit: "mask_aen m c = (\<not> bit (ct_notice_aen_mask c) m,
    if bit (ct_notice_aen_mask c) m then c else c\<lparr>ct_notice_aen_mask := ct_notice_aen_mask c OR push_bit m 1\<rparr>)"
  by (cases "bit (ct_notice_aen_mask c) m") (simp_all only: mask_aen_def mask_bit not_True_eq_False not_False_eq_True if_True if_False simp_thms)

lemma bit_mask_set: "m < 64 \<Longrightarrow> bit ((w :: u64) OR push_bit m 1) m"
  by (simp add: bit_simps)

lemma bit_mask_mono: "bit (w :: u64) n \<Longrightarrow> bit (w OR push_bit m 1) n"
  by (simp add: bit_simps)

section \<open>What a step does\<close>

text \<open>The parts of the state the requests and events live in.\<close>

definition same_io :: "spdk_nvmf_ctrlr \<Rightarrow> spdk_nvmf_ctrlr \<Rightarrow> bool" where
  "same_io c c' \<longleftrightarrow> ct_aer_req c' = ct_aer_req c \<and> ct_async_events c' = ct_async_events c \<and>
     ct_sent c' = ct_sent c \<and> ct_freed c' = ct_freed c"

lemma same_io_facts: "same_io c c' \<Longrightarrow> aers c' = aers c \<and> events c' = events c"
  by (simp add: same_io_def aers_def events_def delivered_def)

lemma delivered_append: "List.map_filter f (xs @ ys) = List.map_filter f xs @ List.map_filter f ys"
  by (simp add: List.map_filter_def)

lemma notification_cases:
  assumes "ct_aer_req c = [] \<or> ct_async_events c = []" and "c' = async_event_notification mem ev c"
  shows "aers c' = aers c" and "events c' = events c @ (if mem \<or> ct_aer_req c \<noteq> [] then [ev] else [])"
    and "ct_aer_req c' = [] \<or> ct_async_events c' = []" and "length (ct_aer_req c') \<le> length (ct_aer_req c)"
    and "ct_log_head c' = ct_log_head c" and "ct_num_avail_log_pages c' = ct_num_avail_log_pages c"
    and "ct_notice_aen_mask c' = ct_notice_aen_mask c"
proof -
  have m: "ct_aer_req c \<noteq> [] \<Longrightarrow> mset (map fst (ct_aer_req c)) = add_mset (fst (last (ct_aer_req c))) (mset (map fst (butlast (ct_aer_req c))))"
    by (cases "ct_aer_req c" rule: rev_cases) auto
  show "aers c' = aers c" "events c' = events c @ (if mem \<or> ct_aer_req c \<noteq> [] then [ev] else [])"
    "ct_aer_req c' = [] \<or> ct_async_events c' = []" "length (ct_aer_req c') \<le> length (ct_aer_req c)"
    "ct_log_head c' = ct_log_head c" "ct_num_avail_log_pages c' = ct_num_avail_log_pages c"
    "ct_notice_aen_mask c' = ct_notice_aen_mask c"
    using assms m
    by (auto simp: async_event_notification_def queue_pending_async_event_def reply_aer_def aers_def events_def
        delivered_def delivered_append map_filter_simps)
qed

definition kept :: "spdk_nvmf_ctrlr \<Rightarrow> spdk_nvmf_ctrlr \<Rightarrow> bool" where
  "kept c c' \<longleftrightarrow> aers c' = aers c \<and> (ct_aer_req c' = [] \<or> ct_async_events c' = []) \<and>
     length (ct_aer_req c') \<le> length (ct_aer_req c) \<and> ct_log_head c' = ct_log_head c \<and>
     ct_num_avail_log_pages c' = ct_num_avail_log_pages c"

lemma notify_masked_cases:
  assumes "ct_aer_req c = [] \<or> ct_async_events c = []" and "m < 64" and "c' = notify_masked m mem ev c"
  shows "kept c c'" and "events c' = events c @ (if mem \<or> ct_aer_req c \<noteq> [] then raise_if True m ev c else [])"
    and "bit (ct_notice_aen_mask c') n \<longleftrightarrow> bit (ct_notice_aen_mask c) n \<or> n = m"
proof -
  define c1 where "c1 = c\<lparr>ct_notice_aen_mask := ct_notice_aen_mask c OR push_bit m 1\<rparr>"
  have s: "same_io c c1" by (simp add: c1_def same_io_def)
  have c1: "ct_aer_req c1 = [] \<or> ct_async_events c1 = []" "ct_aer_req c1 = ct_aer_req c" "ct_log_head c1 = ct_log_head c"
    "ct_num_avail_log_pages c1 = ct_num_avail_log_pages c" using assms(1) by (simp_all add: c1_def)
  note n = notification_cases [OF c1(1) refl, of mem ev]
  have c': "c' = (if bit (ct_notice_aen_mask c) m then c else async_event_notification mem ev c1)"
    by (simp add: assms(3) notify_masked_def mask_aen_bit c1_def)
  show "kept c c'" using assms(1) n c1 same_io_facts [OF s] by (auto simp: c' kept_def)
  show "events c' = events c @ (if mem \<or> ct_aer_req c \<noteq> [] then raise_if True m ev c else [])"
    using n(2) c1(2) same_io_facts [OF s] by (cases mem) (simp_all add: c' raise_if_def)
  have mk: "ct_notice_aen_mask (async_event_notification mem ev c1) = ct_notice_aen_mask c OR push_bit m 1"
    unfolding n(7) by (simp only: c1_def) simp
  show "bit (ct_notice_aen_mask c') n \<longleftrightarrow> bit (ct_notice_aen_mask c) n \<or> n = m"
    using assms(2) unfolding c' by (cases "bit (ct_notice_aen_mask c) m") (auto simp: mk bit_simps)
qed

text \<open>Every step: the invariant, the requests, the events, the masks.\<close>

definition step_ok :: "spdk_nvmf_ctrlr \<Rightarrow> ctrlr_event \<Rightarrow> spdk_nvmf_ctrlr \<Rightarrow> bool" where
  "step_ok c e c' \<longleftrightarrow> ctrlr_inv c' \<and> aers c' = aers c + aers_of e \<and>
     events c' = events c @ (if has_memory e \<or> ct_aer_req c \<noteq> [] then raises c e else [])"

lemma kept_inv: "ctrlr_inv c \<Longrightarrow> kept c c' \<Longrightarrow> ctrlr_inv c'"
  by (simp add: ctrlr_inv_def kept_def)

lemma same_io_inv: "ctrlr_inv c \<Longrightarrow> same_io c c' \<Longrightarrow> unat (ct_num_avail_log_pages c') = length (ct_log_head c') \<Longrightarrow> ctrlr_inv c'"
  by (auto simp: ctrlr_inv_def same_io_def)

lemma notice_ok:
  assumes "ctrlr_inv c" and "m < 64" and "c' = (if \<not> enabled then c else notify_masked m mem ev c)"
    and "raises c e = raise_if enabled m ev c" and "has_memory e = mem" and "aers_of e = {#}"
  shows "step_ok c e c'"
proof (cases enabled)
  case True
  have i: "ct_aer_req c = [] \<or> ct_async_events c = []" using assms(1) by (simp add: ctrlr_inv_def)
  note n = notify_masked_cases [OF i assms(2) refl, of mem ev]
  from True assms(3-6) n(2) kept_inv [OF assms(1) n(1)] n(1) show ?thesis
    by (simp add: step_ok_def kept_def)
next
  case False
  with assms show ?thesis by (simp add: step_ok_def raise_if_def)
qed

lemma error_event_ok:
  assumes "ctrlr_inv c"
  shows "step_ok c (ErrorEvent mem ev) (async_event_error_event mem ev c)"
proof (cases "ae_type ev \<noteq> EVENT_TYPE_ERROR \<or> ae_info ev > EVENT_FW_IMAGE_LOAD")
  case True
  then have "same_io c (async_event_error_event mem ev c)" "raises c (ErrorEvent mem ev) = []"
    by (auto simp: async_event_error_event_def mask_aen_bit same_io_def raise_if_def)
  moreover have "ct_num_avail_log_pages (async_event_error_event mem ev c) = ct_num_avail_log_pages c"
      "ct_log_head (async_event_error_event mem ev c) = ct_log_head c"
    using True by (auto simp: async_event_error_event_def mask_aen_bit)
  ultimately show ?thesis
    using assms same_io_inv [OF assms] same_io_facts by (auto simp: step_ok_def aers_of_def ctrlr_inv_def)
next
  case False
  then have "async_event_error_event mem ev c = notify_masked ERROR_MASK_BIT mem ev c"
    by (auto simp: async_event_error_event_def notify_masked_def split_beta)
  with False show ?thesis
    by (intro notice_ok [where m = ERROR_MASK_BIT and enabled = True and ev = ev and mem = mem, OF assms])
      (auto simp: aers_of_def not_less)
qed

lemma add_log_ok:
  assumes inv: "ctrlr_inv c" and r: "add_reservation_log mem lg c = Inr c'"
  shows "step_ok c (ResvLog mem lg) c'"
proof (cases "ct_num_avail_log_pages c = 0xff")
  case True
  with r have "same_io c c'" "ct_num_avail_log_pages c' = ct_num_avail_log_pages c" "length (ct_log_head c') = length (ct_log_head c)"
    by (auto simp: add_reservation_log_def same_io_def Let_def split: if_splits)
  then show ?thesis
    using True inv same_io_facts same_io_inv [OF inv]
    by (auto simp: step_ok_def raise_if_def aers_of_def ctrlr_inv_def)
next
  case False
  define c1 where "c1 = c\<lparr>ct_log_page_count := ct_log_page_count c + 1,
     ct_num_avail_log_pages := ct_num_avail_log_pages c + 1,
     ct_log_head := ct_log_head c @ [lg\<lparr>lg_log_page_count := ct_log_page_count c + 1,
       lg_num_avail_log_pages := ct_num_avail_log_pages c\<rparr>]\<rparr>"
  have n: "unat (ct_num_avail_log_pages c + 1) = unat (ct_num_avail_log_pages c) + 1"
  proof -
    have "unat (ct_num_avail_log_pages c) \<noteq> unat (0xff :: u8)" using False by (simp only: word_unat_eq_iff not_False_eq_True)
    moreover have "unat (ct_num_avail_log_pages c) < 2 ^ 8" by (rule unat_u8_less)
    ultimately show ?thesis by (subst unat_add_lem [THEN iffD1]) simp_all
  qed
  have nz: "ct_num_avail_log_pages c1 \<noteq> 0" using n by (auto simp: c1_def)
  have c': "c' = notify_masked RESERVATION_LOG_AVAIL_MASK_BIT mem event_reservation_log c1"
    using r False nz by (simp add: add_reservation_log_def async_event_reservation_notification_def c1_def Let_def)
  have s: "same_io c c1" by (simp add: c1_def same_io_def)
  have i1: "ctrlr_inv c1" using same_io_inv [OF inv s] n inv by (simp add: c1_def ctrlr_inv_def)
  have i: "ct_aer_req c1 = [] \<or> ct_async_events c1 = []" using i1 by (simp add: ctrlr_inv_def)
  note k = notify_masked_cases [OF i _ c', simplified]
  have "raise_if True RESERVATION_LOG_AVAIL_MASK_BIT event_reservation_log c1 = raises c (ResvLog mem lg)"
    using False by (simp add: raise_if_def c1_def)
  moreover have "ct_aer_req c1 = ct_aer_req c" by (simp add: c1_def)
  ultimately show ?thesis
    using k kept_inv [OF i1 k(1)] same_io_facts [OF s] by (simp add: step_ok_def kept_def aers_of_def)
qed

lemma aer_ok: "ctrlr_inv c \<Longrightarrow> step_ok c (Aer a cid) (async_event_request a cid c)"
  by (auto simp: step_ok_def ctrlr_inv_def async_event_request_def reply_aer_def aers_def aers_of_def events_def
      delivered_def delivered_append map_filter_simps split: list.splits)

lemma free_aers_ok: "ctrlr_inv c \<Longrightarrow> step_ok c FreeAers (free_aer c)"
  by (simp add: step_ok_def ctrlr_inv_def free_aer_def aers_def aers_of_def events_def delivered_def)

lemma abort_fold:
  "fold (\<lambda>(a, _). reply_aer a AerAborted) rs c = c\<lparr>ct_sent := ct_sent c @ map (\<lambda>r. (fst r, AerAborted)) rs\<rparr>"
  by (induction rs arbitrary: c) (auto simp: reply_aer_def)

lemma map_filter_None: "(\<And>x. x \<in> set xs \<Longrightarrow> f x = None) \<Longrightarrow> List.map_filter f xs = []"
  by (auto simp: List.map_filter_def filter_empty_conv)

lemma delivered_aborted:
  "List.map_filter (\<lambda>(_, r). case r of AerEvent ev \<Rightarrow> Some ev | _ \<Rightarrow> None) (map (\<lambda>r. (fst r, AerAborted)) rs) = []"
  by (rule map_filter_None) auto

lemma abort_aers_ok: "ctrlr_inv c \<Longrightarrow> step_ok c AbortAers (ctrlr_abort_aer c)"
  by (auto simp: step_ok_def ctrlr_inv_def ctrlr_abort_aer_def abort_fold aers_def aers_of_def events_def delivered_def
      delivered_append delivered_aborted comp_def)

lemma mset_move_last:
  assumes "i < length rs"
  shows "add_mset (rs ! i) (mset (if i < length rs - 1 then (butlast rs)[i := last rs] else butlast rs)) = mset rs"
proof -
  obtain xs x where rs: "rs = xs @ [x]" using assms by (cases rs rule: rev_cases) auto
  show ?thesis
  proof (cases "i < length xs")
    case True
    then have "mset (xs[i := x]) = add_mset x (mset xs - {#xs ! i#})" by (rule mset_update)
    moreover have "xs ! i \<in># mset xs" using True by simp
    ultimately show ?thesis using True by (simp add: rs nth_append)
  next
    case False
    then show ?thesis using assms by (simp add: rs nth_append)
  qed
qed

lemma abort_cid_ok:
  assumes "ctrlr_inv c"
  shows "step_ok c (AbortCid admin cid) (snd (qpair_abort_aer admin cid c))"
proof (cases "admin \<and> find_cid cid (ct_aer_req c) \<noteq> None")
  case True
  then obtain i where i: "find_cid cid (ct_aer_req c) = Some i" "i < length (ct_aer_req c)"
    by (auto simp: find_cid_def Let_def split: if_splits)
  define rs where "rs = (if i < length (ct_aer_req c) - 1 then (butlast (ct_aer_req c))[i := last (ct_aer_req c)] else butlast (ct_aer_req c))"
  have c': "snd (qpair_abort_aer admin cid c) =
      c\<lparr>ct_aer_req := rs, ct_sent := ct_sent c @ [(fst (ct_aer_req c ! i), AerAborted)]\<rparr>"
    using True i by (simp add: qpair_abort_aer_def reply_aer_def rs_def Let_def)
  have "image_mset fst (mset (ct_aer_req c)) = add_mset (fst (ct_aer_req c ! i)) (image_mset fst (mset rs))"
    using mset_move_last [OF i(2), folded rs_def] by (metis image_mset_add_mset)
  moreover have "length rs \<le> length (ct_aer_req c)" "ct_async_events c = []"
    using assms i(2) by (auto simp: rs_def ctrlr_inv_def)
  ultimately show ?thesis
    using assms unfolding c'
    by (simp add: step_ok_def ctrlr_inv_def aers_def aers_of_def events_def delivered_def delivered_append map_filter_simps)
next
  case False
  then have "snd (qpair_abort_aer admin cid c) = c" by (auto simp: qpair_abort_aer_def)
  with assms show ?thesis by (simp add: step_ok_def aers_of_def)
qed

text \<open>Reading a log page.\<close>

lemma resv_loop_drop:
  "\<exists>ctx' k. resv_log_loop ly next st lgs = (ctx', drop k lgs) \<and> k \<le> length lgs"
proof (induction lgs arbitrary: "next" st)
  case Nil
  then show ?case by (cases st) auto
next
  case (Cons lg lgs)
  obtain ctx off len where st: "st = (ctx, off, len)" by (cases st)
  obtain ctx' off' len' where p: "(if next + ly_resv_size ly > off then
        let copy_len = min (next + ly_resv_size ly - off) len
        in (fst (copy_buf_to_iovs ctx (take copy_len (ly_resv ly lg))), off + copy_len, len - copy_len)
      else (ctx, off, len)) = (ctx', off', len')" by (rule prod_cases3)
  from Cons.IH [of "next + ly_resv_size ly" "(ctx', off', len')"] obtain ctx2 k where
    "resv_log_loop ly (next + ly_resv_size ly) (ctx', off', len') lgs = (ctx2, drop k lgs)" "k \<le> length lgs" by blast
  then show ?case
    unfolding st resv_log_loop.simps Let_def [of "next + ly_resv_size ly"] p
    by (cases "len' = 0") (auto intro: exI [of _ "Suc 0"] exI [of _ "Suc k"])
qed

lemma log_page_keeps:
  assumes "ctrlr_inv c" and "get_log_page ly disc s cmd c = Inr (st, iovs, c')"
  shows "same_io c c' \<and> unat (ct_num_avail_log_pages c') = length (ct_log_head c')"
proof -
  have u [simp]: "same_io c (unmask_aen m d) \<longleftrightarrow> same_io c d" "ct_num_avail_log_pages (unmask_aen m d) = ct_num_avail_log_pages d"
    "ct_log_head (unmask_aen m d) = ct_log_head d" for m d
    by (simp_all add: unmask_aen_def same_io_def)
  have r: "same_io c c" "unat (ct_num_avail_log_pages c) = length (ct_log_head c)"
    using assms(1) by (simp_all add: same_io_def ctrlr_inv_def)
  have resv: "same_io c d \<and> unat (ct_num_avail_log_pages d) = length (ct_log_head d)"
    if "get_reservation_notification_log_page ly iv off len rae c = (iv', d)" for iv off len rae iv' d
  proof -
    obtain ctx k where k: "resv_log_loop ly 0 (init_copy_iovs_ctx iv, off, len) (ct_log_head c) = (ctx, drop k (ct_log_head c))"
      "k \<le> length (ct_log_head c)" using resv_loop_drop by blast
    have "k < 2 ^ 8" using k(2) r(2) unat_u8_less [of "ct_num_avail_log_pages c"] by linarith
    then have "unat (of_nat k :: u8) = k" by (simp add: unat_of_nat)
    then have "unat (ct_num_avail_log_pages c - of_nat k) = length (ct_log_head c) - k"
      using k(2) r(2) by (subst unat_sub) (simp_all add: word_le_nat_alt)
    with k that r show ?thesis
      by (auto simp: get_reservation_notification_log_page_def same_io_def unmask_aen_def Let_def split: if_splits)
  qed
  have chg: "same_io c d \<and> unat (ct_num_avail_log_pages d) = length (ct_log_head d)"
    if "get_changed_ns_list_log_page ly iv off len rae c = (iv', d)" for iv off len rae iv' d
    using that r by (auto simp: get_changed_ns_list_log_page_def Let_def same_io_def unmask_aen_def split: if_splits)
  have ana: "same_io c d \<and> unat (ct_num_avail_log_pages d) = length (ct_log_head d)"
    if "get_ana_log_page ly s iv off len rae c = Inr (iv', d)" for iv off len rae iv' d
    using that r by (auto simp: get_ana_log_page_def bindR_eq_Inr split: if_splits prod.splits)
  show ?thesis
    using assms(2) r resv chg ana
    by (auto simp: get_log_page_def Let_def get_error_log_page_def bindR_eq_Inr split: if_splits option.splits prod.splits)
qed

lemma step_ok:
  assumes "ctrlr_inv c" and "ctrlr_step c e = Inr c'"
  shows "step_ok c e c'"
proof (cases e)
  case (NsNotice mem)
  then show ?thesis using assms
    by (intro notice_ok [OF assms(1), where m = NS_ATTR_CHANGE_MASK_BIT and mem = mem]) (auto simp: async_event_ns_notice_def aers_of_def)
next
  case (AnaNotice mem)
  then show ?thesis using assms
    by (intro notice_ok [OF assms(1), where m = ANA_CHANGE_MASK_BIT and mem = mem]) (auto simp: async_event_ana_change_notice_def aers_of_def)
next
  case (DiscNotice mem)
  then show ?thesis using assms
    by (intro notice_ok [OF assms(1), where m = DISCOVERY_LOG_CHANGE_MASK_BIT and mem = mem]) (auto simp: async_event_discovery_log_change_notice_def aers_of_def)
next
  case (SetAec reserved cdw11)
  then have "same_io c c'" "ct_num_avail_log_pages c' = ct_num_avail_log_pages c" "ct_log_head c' = ct_log_head c"
    using assms(2) by (auto simp: set_features_async_event_configuration_def same_io_def)
  then show ?thesis using SetAec assms(1) same_io_inv [OF assms(1)] same_io_facts
    by (simp add: step_ok_def aers_of_def ctrlr_inv_def)
next
  case (NsChanged nsid)
  then have "same_io c c'" "ct_num_avail_log_pages c' = ct_num_avail_log_pages c" "ct_log_head c' = ct_log_head c"
    using assms(2) by (auto simp: ctrlr_ns_changed_def same_io_def)
  then show ?thesis using NsChanged assms(1) same_io_inv [OF assms(1)] same_io_facts
    by (simp add: step_ok_def aers_of_def ctrlr_inv_def)
next
  case (GetLogPage ly disc s cmd)
  then obtain st iovs where "get_log_page ly disc s cmd c = Inr (st, iovs, c')"
    using assms(2) by (auto simp: bindR_eq_Inr)
  from log_page_keeps [OF assms(1) this] show ?thesis
    using GetLogPage same_io_inv [OF assms(1)] same_io_facts by (simp add: step_ok_def aers_of_def)
qed (use assms aer_ok free_aers_ok abort_aers_ok abort_cid_ok error_event_ok add_log_ok in auto)

section \<open>Runs\<close>

lemma ctrlr_step_inv: "ctrlr_inv c \<Longrightarrow> ctrlr_step c e = Inr c' \<Longrightarrow> ctrlr_inv c'"
  using step_ok by (simp add: step_ok_def)

lemma ctrlr_step_aers: "ctrlr_inv c \<Longrightarrow> ctrlr_step c e = Inr c' \<Longrightarrow> aers c' = aers c + aers_of e"
  using step_ok by (simp add: step_ok_def)

interpretation ctrlr_requests: weighted_stepper ctrlr_step ctrlr_inv aers aers_of
  by unfold_locales (blast intro: ctrlr_step_inv ctrlr_step_aers)+

text \<open>C31. In every state that a run of the controller reaches, every asynchronous event request that
  was submitted is in exactly one place: it waits, or it has been answered once (with an event,
  as aborted, or because the limit was exceeded), or it has been freed. Requests and events
  never wait at the same time, at most four requests wait, and the count of the reservation
  log pages is the length of their queue.\<close>

theorem event_requests_conserved:
  assumes "ctrlr_inv c" and "runR ctrlr_step c es = Inr c'"
  shows "mset (map fst (ct_aer_req c')) + mset (map fst (ct_sent c')) + mset (ct_freed c') =
      aers c + sum_list (map aers_of es) \<and>
    (ct_aer_req c' = [] \<or> ct_async_events c' = []) \<and> length (ct_aer_req c') \<le> MAX_ASYNC_EVENTS \<and>
    unat (ct_num_avail_log_pages c') = length (ct_log_head c')"
  using ctrlr_requests.run_quantity [OF assms] ctrlr_requests.run_inv [OF assms]
  by (simp add: aers_def ctrlr_inv_def)

text \<open>The events raised in the course of a run.\<close>

fun run_raises :: "spdk_nvmf_ctrlr \<Rightarrow> ctrlr_event list \<Rightarrow> async_event list" where
  "run_raises c [] = []"
| "run_raises c (e # es) = raises c e @ (case ctrlr_step c e of Inl _ \<Rightarrow> [] | Inr c' \<Rightarrow> run_raises c' es)"

text \<open>C32. Events are delivered in the order in which they are raised, each once: over any run in
  which memory for them can be allocated, what has been delivered together with what waits
  grows by exactly the events raised. An event is raised when it happens while its kind is
  enabled and not masked.\<close>

theorem events_in_order_once:
  assumes "ctrlr_inv c" and "runR ctrlr_step c es = Inr c'" and "list_all has_memory es"
  shows "delivered c' @ ct_async_events c' = delivered c @ ct_async_events c @ run_raises c es"
  using assms
proof (induction es arbitrary: c)
  case Nil
  then show ?case by simp
next
  case (Cons e es)
  then obtain c1 where c1: "ctrlr_step c e = Inr c1" "runR ctrlr_step c1 es = Inr c'" by (auto simp: bindR_eq_Inr)
  have "step_ok c e c1" by (rule step_ok [OF Cons.prems(1) c1(1)])
  with Cons.IH [OF ctrlr_step_inv [OF Cons.prems(1) c1(1)] c1(2)] Cons.prems(3) c1(1)
  show ?case by (simp add: step_ok_def events_def)
qed

lemma mask_until_read:
  assumes "ctrlr_inv c" and "ctrlr_step c e = Inr c'" and "\<forall>ly d s cmd. e \<noteq> GetLogPage ly d s cmd"
    and "bit (ct_notice_aen_mask c) n"
  shows "bit (ct_notice_aen_mask c') n"
proof -
  have i: "ct_aer_req c = [] \<or> ct_async_events c = []" using assms(1) by (simp add: ctrlr_inv_def)
  note nm = notify_masked_cases(3) [OF i _ refl, of _ _ _ n]
  show ?thesis
  proof (cases e)
    case (ErrorEvent mem ev)
    then show ?thesis
      using assms(2,4) nm [of ERROR_MASK_BIT mem ev]
      by (auto simp: async_event_error_event_def notify_masked_def mask_aen_bit bit_or_iff split: if_splits)
  next
    case (ResvLog mem lg)
    have "ct_notice_aen_mask d = ct_notice_aen_mask c \<Longrightarrow> ct_aer_req d = ct_aer_req c \<Longrightarrow> ct_async_events d = ct_async_events c \<Longrightarrow>
        bit (ct_notice_aen_mask (async_event_reservation_notification mem d)) n" for d
      using i assms(4) notify_masked_cases(3) [of d RESERVATION_LOG_AVAIL_MASK_BIT _ mem event_reservation_log n]
      by (simp add: async_event_reservation_notification_def)
    then show ?thesis
      using ResvLog assms(2,4) by (auto simp: add_reservation_log_def Let_def split: if_splits)
  qed (use assms nm in \<open>auto simp: async_event_request_def reply_aer_def async_event_ns_notice_def
      async_event_ana_change_notice_def async_event_discovery_log_change_notice_def ctrlr_abort_aer_def abort_fold
      qpair_abort_aer_def free_aer_def set_features_async_event_configuration_def ctrlr_ns_changed_def Let_def
      split: list.splits option.splits if_splits\<close>)
qed

lemma raises_masked:
  "bit (ct_notice_aen_mask c) NS_ATTR_CHANGE_MASK_BIT \<Longrightarrow> event_ns_attr_changed \<notin> set (raises c e)"
  by (cases e) (auto simp: raise_if_def)

text \<open>A change of namespaces whose event cannot be stored, because no request waits and the
  allocation fails, is never reported: the kind of the event has been masked before, and
  whatever happens afterwards, as long as the host does not read a log page (and nothing
  tells it to), no event for a change of namespaces is delivered or queued.\<close>

theorem lost_event_blocks_its_kind:
  assumes "ctrlr_inv c" and "ct_aer_req c = []" and "ns_attr_notice c" and "c1 = async_event_ns_notice False c"
    and "runR ctrlr_step c1 es = Inr c'" and "\<forall>e \<in> set es. \<forall>ly d s cmd. e \<noteq> GetLogPage ly d s cmd"
  shows "filter (\<lambda>ev. ev = event_ns_attr_changed) (delivered c' @ ct_async_events c') =
    filter (\<lambda>ev. ev = event_ns_attr_changed) (delivered c @ ct_async_events c)"
proof -
  have i: "ct_aer_req c = [] \<or> ct_async_events c = []" using assms(2) by simp
  have c1: "c1 = notify_masked NS_ATTR_CHANGE_MASK_BIT False event_ns_attr_changed c"
    using assms(3,4) by (simp add: async_event_ns_notice_def)
  note n = notify_masked_cases [OF i _ c1, simplified]
  have e1: "events c1 = events c" using n(2) assms(2) by simp
  have "ctrlr_inv c1" "bit (ct_notice_aen_mask c1) NS_ATTR_CHANGE_MASK_BIT" using kept_inv [OF assms(1) n(1)] n(3) by simp_all
  with assms(5,6) have "filter (\<lambda>ev. ev = event_ns_attr_changed) (events c') = filter (\<lambda>ev. ev = event_ns_attr_changed) (events c1)"
  proof (induction es arbitrary: c1)
    case Nil
    then show ?case by simp
  next
    case (Cons e es)
    then obtain c2 where c2: "ctrlr_step c1 e = Inr c2" "runR ctrlr_step c2 es = Inr c'" by (auto simp: bindR_eq_Inr)
    have ok: "step_ok c1 e c2" by (rule step_ok [OF Cons.prems(3) c2(1)])
    have "filter (\<lambda>ev. ev = event_ns_attr_changed) (events c2) = filter (\<lambda>ev. ev = event_ns_attr_changed) (events c1)"
      using ok raises_masked [OF Cons.prems(4), of e] by (auto simp: step_ok_def filter_empty_conv)
    moreover have "bit (ct_notice_aen_mask c2) NS_ATTR_CHANGE_MASK_BIT"
      using mask_until_read [OF Cons.prems(3) c2(1)] Cons.prems(2,4) by simp
    ultimately show ?case
      using Cons.IH [OF c2(2)] Cons.prems(2) ctrlr_step_inv [OF Cons.prems(3) c2(1)] by simp
  qed
  with e1 show ?thesis by (simp add: events_def)
qed

section \<open>The properties at concrete inputs\<close>

definition idle_ctrlr :: spdk_nvmf_ctrlr where
  "idle_ctrlr = \<lparr>ct_addr = 1, ct_cntlid = 1, ct_hostnqn = ''nqn.h'', ct_dynamic = True, ct_listener = None,
     ct_aec = 0x900, ct_aer_req = [], ct_async_events = [], ct_notice_aen_mask = 0,
     ct_changed_ns_list = replicate 8 0, ct_changed_ns_list_count = 0, ct_log_page_count = 0,
     ct_num_avail_log_pages = 0, ct_log_head = [], ct_sent = [], ct_freed = []\<rparr>"

definition idle_run :: "ctrlr_event list" where
  "idle_run = [NsNotice True, Aer 40 1, Aer 41 2, AnaNotice True,
     ResvLog True \<lparr>lg_log_page_count = 0, lg_type = 1, lg_num_avail_log_pages = 0, lg_nsid = 1\<rparr>]"

lemma idle_inv: "ctrlr_inv idle_ctrlr"
  by (simp add: ctrlr_inv_def idle_ctrlr_def)

lemma idle_end: "\<exists>c'. runR ctrlr_step idle_ctrlr idle_run = Inr c'"
proof -
  have "case runR ctrlr_step idle_ctrlr idle_run of Inl _ \<Rightarrow> False | Inr _ \<Rightarrow> True" by code_simp
  then show ?thesis by (simp split: sum.splits)
qed

theorem event_requests_conserved_witness:
  "\<exists>c'. runR ctrlr_step idle_ctrlr idle_run = Inr c' \<and>
     mset (map fst (ct_aer_req c')) + mset (map fst (ct_sent c')) + mset (ct_freed c') = {#40, 41#}"
proof -
  from idle_end obtain c' where c': "runR ctrlr_step idle_ctrlr idle_run = Inr c'" by blast
  with event_requests_conserved [OF idle_inv c'] show ?thesis
    by (auto simp: idle_run_def aers_of_def aers_def idle_ctrlr_def)
qed

theorem events_in_order_once_witness:
  "\<exists>c'. runR ctrlr_step idle_ctrlr idle_run = Inr c' \<and>
     delivered c' @ ct_async_events c' = [event_ns_attr_changed, event_ana_change, event_reservation_log]"
proof -
  from idle_end obtain c' where c': "runR ctrlr_step idle_ctrlr idle_run = Inr c'" by blast
  have "run_raises idle_ctrlr idle_run = [event_ns_attr_changed, event_ana_change, event_reservation_log]" by code_simp
  with events_in_order_once [OF idle_inv c'] c' show ?thesis
    by (auto simp: idle_run_def delivered_def map_filter_simps idle_ctrlr_def)
qed

theorem lost_event_blocks_its_kind_witness:
  "\<exists>c'. runR ctrlr_step (async_event_ns_notice False idle_ctrlr) idle_run = Inr c' \<and>
     event_ns_attr_changed \<notin> set (delivered c' @ ct_async_events c')"
proof -
  let ?c1 = "async_event_ns_notice False idle_ctrlr"
  have "case runR ctrlr_step ?c1 idle_run of Inl _ \<Rightarrow> False | Inr _ \<Rightarrow> True" by code_simp
  then obtain c' where c': "runR ctrlr_step ?c1 idle_run = Inr c'" by (auto split: sum.splits)
  have f: "ct_aer_req idle_ctrlr = []" "ns_attr_notice idle_ctrlr" by (simp_all add: idle_ctrlr_def ns_attr_notice_def)
  have g: "\<forall>e \<in> set idle_run. \<forall>ly d s cmd. e \<noteq> GetLogPage ly d s cmd" by (simp add: idle_run_def)
  have "filter (\<lambda>ev. ev = event_ns_attr_changed) (delivered c' @ ct_async_events c') = []"
    unfolding lost_event_blocks_its_kind [OF idle_inv f refl c' g] by (simp add: delivered_def map_filter_simps idle_ctrlr_def)
  then show ?thesis using c' by (auto simp: filter_empty_conv)
qed

end
