(* ===== verification/Log_Pages_Props.thy ===== *)
theory Log_Pages_Props
  imports Ctrlr_Events_Props Subsys_Inv
begin

text \<open>
  What a host reads: any piece of the ANA page is the piece of one fixed sequence of bytes; the
  page of changed namespaces lists each of them once; the reservation log page loses and
  misplaces entries when it is read from an offset.
\<close>

section \<open>Copying piece by piece\<close>

definition copy_ok :: "copy_state \<Rightarrow> bool" where
  "copy_ok st \<longleftrightarrow> iov_wf (fst st) \<and> snd (snd st) \<le> iov_room (fst st)"

text \<open>\<open>st'\<close> is \<open>st\<close> after the stream \<open>bs\<close> has passed by.\<close>

definition emitted :: "copy_state \<Rightarrow> u8 list \<Rightarrow> copy_state \<Rightarrow> bool" where
  "emitted st bs st' \<longleftrightarrow>
     (let data = take (snd (snd st)) (drop (fst (snd st)) bs)
      in iov_written (fst st) data (fst st') \<and> snd (snd st') = snd (snd st) - length data \<and>
         (snd (snd st') \<noteq> 0 \<longrightarrow> fst (snd st') = fst (snd st) - length bs))"

lemma emitted_Nil: "copy_ok st \<Longrightarrow> emitted st [] st"
  by (simp add: emitted_def copy_ok_def iov_written_refl)

lemma emitted_ok:
  assumes "copy_ok st" and "emitted st bs st'"
  shows "copy_ok st'"
proof -
  define data where "data = take (snd (snd st)) (drop (fst (snd st)) bs)"
  have w: "iov_written (fst st) data (fst st')" and l: "snd (snd st') = snd (snd st) - length data"
    using assms(2) by (simp_all add: emitted_def data_def Let_def)
  have "iov_wf (fst st')" using w by (simp add: iov_written_def)
  moreover have "iov_room (fst st') = iov_room (fst st) - length data" by (rule iov_written_room [OF w])
  ultimately show ?thesis using assms(1) l unfolding copy_ok_def by linarith
qed

lemma take_drop_append:
  "take n (drop k (as @ bs)) =
     take n (drop k as) @ take (n - length (take n (drop k as))) (drop (k - length as) bs)"
  by (simp add: min_def)

lemma emitted_append:
  assumes "copy_ok st" and "emitted st as st1" and "snd (snd st1) \<noteq> 0" and "emitted st1 bs st2"
  shows "emitted st (as @ bs) st2"
proof -
  have w: "iov_wf (fst st)" using assms(1) by (simp add: copy_ok_def)
  from assms(2-4) show ?thesis
    unfolding emitted_def Let_def take_drop_append [of _ _ as bs]
    using iov_written_trans [OF w] by auto
qed

lemma emitted_stop: "emitted st as st1 \<Longrightarrow> snd (snd st1) = 0 \<Longrightarrow> emitted st (as @ bs) st1"
  unfolding emitted_def Let_def take_drop_append [of _ _ as bs] by simp

lemma copy_piece_emitted:
  assumes "copy_ok st" and "length bytes = sz"
  shows "emitted st bytes (copy_piece sz bytes st)"
proof -
  obtain ctx off len where st: "st = (ctx, off, len)" by (cases st)
  show ?thesis
  proof (cases "off \<ge> sz")
    case True
    then show ?thesis using assms by (simp add: st copy_piece_def emitted_def copy_ok_def iov_written_refl)
  next
    case False
    define data where "data = take (min (sz - off) len) (drop off bytes)"
    have d: "data = take len (drop off bytes)" "length data = min (sz - off) len"
      using assms(2) by (simp_all add: data_def min_def)
    have "iov_wf ctx" "len \<le> iov_room ctx" using assms(1) by (simp_all add: copy_ok_def st)
    moreover from this(2) have "length data \<le> iov_room ctx" using d(2) by linarith
    ultimately have
      "iov_written ctx data (fst (copy_buf_to_iovs ctx data))" "snd (copy_buf_to_iovs ctx data) = length data"
      using copy_buf_to_iovs_flat [of ctx data] by simp_all
    then show ?thesis
      using False d assms(2)
      by (auto simp: st copy_piece_def emitted_def data_def [symmetric] split_beta Let_def)
  qed
qed

section \<open>The ANA page\<close>

definition layout_ok :: "page_layout \<Rightarrow> bool" where
  "layout_ok ly \<longleftrightarrow> (\<forall>n. length (ly_ana_hdr ly n) = ly_ana_hdr_size ly) \<and>
     (\<forall>g n st. length (ly_ana_desc ly g n st) = ly_ana_desc_size ly) \<and>
     (\<forall>n. length (ly_nsid ly n) = ly_nsid_size ly)"

definition ana_state_of :: "spdk_nvmf_subsystem \<Rightarrow> spdk_nvmf_ctrlr \<Rightarrow> u32 \<Rightarrow> ana_state" where
  "ana_state_of s c g = (case get_ana_state s c g of Inl _ \<Rightarrow> ANA_OPTIMIZED | Inr st \<Rightarrow> st)"

definition group_nsids :: "page_layout \<Rightarrow> subsys_ns list \<Rightarrow> u32 \<Rightarrow> u8 list" where
  "group_nsids ly nss g = concat (map (\<lambda>ns. ly_nsid ly (ns_nsid (sn_ns ns))) (filter (\<lambda>ns. sn_anagrpid ns = g) nss))"

text \<open>A group without namespaces is left out; the others are a descriptor and the ids of the
  namespaces in the group.\<close>

definition group_bytes :: "page_layout \<Rightarrow> spdk_nvmf_subsystem \<Rightarrow> spdk_nvmf_ctrlr \<Rightarrow> nat \<Rightarrow> u8 list" where
  "group_bytes ly s c g =
     (if sb_ana_group s ! (g - 1) = 0 then []
      else ly_ana_desc ly (of_nat g) (sb_ana_group s ! (g - 1)) (ana_state_of s c (of_nat g)) @
           group_nsids ly (ns_list s) (of_nat g))"

definition ana_page :: "page_layout \<Rightarrow> spdk_nvmf_subsystem \<Rightarrow> spdk_nvmf_ctrlr \<Rightarrow> u8 list" where
  "ana_page ly s c = ly_ana_hdr ly (of_nat (num_anagrp s)) @ concat (map (group_bytes ly s c) [1 ..< max_nsid s + 1])"

lemma ana_nsids_emitted:
  "layout_ok ly \<Longrightarrow> copy_ok st \<Longrightarrow> snd (snd st) \<noteq> 0 \<Longrightarrow> emitted st (group_nsids ly nss g) (ana_nsids ly g nss st)"
proof (induction nss arbitrary: st)
  case Nil
  then show ?case by (simp add: group_nsids_def emitted_Nil)
next
  case (Cons ns nss)
  show ?case
  proof (cases "sn_anagrpid ns = g")
    case False
    then show ?thesis using Cons by (simp add: group_nsids_def)
  next
    case True
    let ?b = "ly_nsid ly (ns_nsid (sn_ns ns))"
    let ?st1 = "copy_piece (ly_nsid_size ly) ?b st"
    have e: "emitted st ?b ?st1" using Cons.prems by (intro copy_piece_emitted) (simp_all add: layout_ok_def)
    have g: "group_nsids ly (ns # nss) g = ?b @ group_nsids ly nss g" using True by (simp add: group_nsids_def)
    obtain ctx off len where st1: "?st1 = (ctx, off, len)" by (rule prod_cases3)
    show ?thesis
    proof (cases "len = 0")
      case True
      with emitted_stop [OF e] \<open>sn_anagrpid ns = g\<close> st1 show ?thesis by (simp add: g)
    next
      case False
      with emitted_append [OF Cons.prems(2) e _ Cons.IH [OF Cons.prems(1) emitted_ok [OF Cons.prems(2) e]]]
        \<open>sn_anagrpid ns = g\<close> st1 show ?thesis by (simp add: g)
    qed
  qed
qed

text \<open>The listener of the controller, if it has one, is a listener of the subsystem.\<close>

definition ctrlr_listener_ok :: "spdk_nvmf_subsystem \<Rightarrow> spdk_nvmf_ctrlr \<Rightarrow> bool" where
  "ctrlr_listener_ok s c \<longleftrightarrow> (case ct_listener c of None \<Rightarrow> True | Some la \<Rightarrow> la \<in> sl_addr ` set (sb_listeners s))"

lemma find_listener_at_Some: "la \<in> sl_addr ` set ls \<Longrightarrow> \<exists>l \<in> set ls. find_listener_at ls la = Some l"
  by (induction ls) (auto simp: find_listener_at_def)

lemma get_ana_state_total:
  assumes "subsys_inv s" and "ctrlr_listener_ok s c" and "1 \<le> g" and "g \<le> max_nsid s"
  shows "get_ana_state s c (of_nat g) = Inr (ana_state_of s c (of_nat g))"
proof -
  have "max_nsid s < 2 ^ 32 - 1" using assms(1) by (simp add: subsys_inv_def namespaces_ok_def max_nsid_def)
  then have "g - 1 + 1 < 2 ^ 32" using assms(4) by simp
  from unat_of_nat_slot [OF this] have u: "unat (of_nat g - 1 :: u32) = g - 1" using assms(3) by simp
  have "\<exists>st. get_ana_state s c (of_nat g) = Inr st"
  proof (cases "sb_ana_reporting s \<and> ct_listener c \<noteq> None")
    case False
    then show ?thesis by (auto simp: get_ana_state_def)
  next
    case True
    then obtain la where la: "ct_listener c = Some la" "la \<in> sl_addr ` set (sb_listeners s)"
      using assms(2) by (auto simp: ctrlr_listener_ok_def)
    then obtain l where l: "find_listener_at (sb_listeners s) la = Some l" "l \<in> set (sb_listeners s)"
      using find_listener_at_Some by blast
    then have "length (sl_ana_state l) = max_nsid s"
      using assms(1) by (simp add: subsys_inv_def listeners_ok_def max_nsid_def)
    then have "g - 1 < length (sl_ana_state l)" using assms(3,4) by linarith
    moreover have "sb_ana_reporting s" using True by simp
    ultimately show ?thesis
      unfolding get_ana_state_def la(1) option.case l(1) Let_def u by auto
  qed
  then show ?thesis by (auto simp: ana_state_of_def)
qed

lemma ana_groups_emitted:
  assumes "layout_ok ly" and "subsys_inv s" and "ctrlr_listener_ok s c"
  shows "copy_ok st \<Longrightarrow> snd (snd st) \<noteq> 0 \<Longrightarrow> \<forall>g \<in> set gs. 1 \<le> g \<and> g \<le> max_nsid s \<Longrightarrow>
    \<exists>st'. ana_groups ly s c gs st = Inr st' \<and> emitted st (concat (map (group_bytes ly s c) gs)) st'"
proof (induction gs arbitrary: st)
  case Nil
  then show ?case by (simp add: emitted_Nil)
next
  case (Cons g gs)
  show ?case
  proof (cases "sb_ana_group s ! (g - 1) = 0")
    case True
    with Cons show ?thesis by (simp add: group_bytes_def)
  next
    case False
    define desc where "desc = ly_ana_desc ly (of_nat g) (sb_ana_group s ! (g - 1)) (ana_state_of s c (of_nat g))"
    define ids where "ids = group_nsids ly (ns_list s) (of_nat g)"
    define st1 where "st1 = copy_piece (ly_ana_desc_size ly) desc st"
    have e1: "emitted st desc st1"
      unfolding st1_def using assms(1) Cons.prems(1) by (intro copy_piece_emitted) (simp_all add: desc_def layout_ok_def)
    have b: "concat (map (group_bytes ly s c) (g # gs)) = desc @ (ids @ concat (map (group_bytes ly s c) gs))"
      using False by (simp add: group_bytes_def desc_def ids_def)
    have first: "(if fst (snd st) \<ge> ly_ana_desc_size ly
               then Inr (fst st, fst (snd st) - ly_ana_desc_size ly, snd (snd st))
               else bindR (get_ana_state s c (of_nat g)) (\<lambda>ast.
                      Inr (copy_piece (ly_ana_desc_size ly)
                        (ly_ana_desc ly (of_nat g) (sb_ana_group s ! (g - 1)) ast) st))) = Inr st1"
      using get_ana_state_total [OF assms(2,3), of g] Cons.prems(3)
      by (cases st) (simp add: st1_def desc_def copy_piece_def)
    show ?thesis
    proof (cases "snd (snd st1) = 0")
      case True
      with emitted_stop [OF e1] False show ?thesis unfolding b ana_groups.simps first by simp
    next
      case ne1: False
      define st2 where "st2 = ana_nsids ly (of_nat g) (ns_list s) st1"
      have ok1: "copy_ok st1" by (rule emitted_ok [OF Cons.prems(1) e1])
      have e2: "emitted st1 ids st2" unfolding ids_def st2_def by (rule ana_nsids_emitted [OF assms(1) ok1 ne1])
      show ?thesis
      proof (cases "snd (snd st2) = 0")
        case True
        have "emitted st (desc @ (ids @ concat (map (group_bytes ly s c) gs))) st2"
          by (rule emitted_append [OF Cons.prems(1) e1 ne1 emitted_stop [OF e2 True]])
        then show ?thesis
          unfolding b ana_groups.simps first using False ne1 True by (simp add: st2_def [symmetric])
      next
        case ne2: False
        from Cons.IH [OF emitted_ok [OF ok1 e2] ne2] Cons.prems(3) obtain st3 where
          st3: "ana_groups ly s c gs st2 = Inr st3" "emitted st2 (concat (map (group_bytes ly s c) gs)) st3" by auto
        have "emitted st (desc @ (ids @ concat (map (group_bytes ly s c) gs))) st3"
          by (rule emitted_append [OF Cons.prems(1) e1 ne1 emitted_append [OF ok1 e2 ne2 st3(2)]])
        then show ?thesis
          unfolding b ana_groups.simps first using False ne1 ne2 st3(1) by (simp add: st2_def [symmetric])
      qed
    qed
  qed
qed

lemma ana_page_emitted:
  assumes "layout_ok ly" and "subsys_inv s" and "ctrlr_listener_ok s c" and "copy_ok st"
  shows "\<exists>st'. ana_page_copy ly s c st = Inr st' \<and> emitted st (ana_page ly s c) st'"
proof (cases "snd (snd st) = 0")
  case True
  then show ?thesis using assms(4) by (auto simp: ana_page_copy_def emitted_def copy_ok_def iov_written_refl)
next
  case False
  let ?hdr = "ly_ana_hdr ly (of_nat (num_anagrp s))"
  define st1 where "st1 = copy_piece (ly_ana_hdr_size ly) ?hdr st"
  have e1: "emitted st ?hdr st1"
    unfolding st1_def using assms(1,4) by (intro copy_piece_emitted) (simp_all add: layout_ok_def)
  show ?thesis
  proof (cases "snd (snd st1) = 0")
    case True
    with emitted_stop [OF e1] False show ?thesis by (simp add: ana_page_copy_def st1_def [symmetric] ana_page_def Let_def)
  next
    case ne1: False
    have gs: "\<forall>g \<in> set [1 ..< max_nsid s + 1]. 1 \<le> g \<and> g \<le> max_nsid s" by auto
    from ana_groups_emitted [OF assms(1-3) emitted_ok [OF assms(4) e1] ne1 gs] obtain st2 where
      st2: "ana_groups ly s c [1 ..< max_nsid s + 1] st1 = Inr st2"
        "emitted st1 (concat (map (group_bytes ly s c) [1 ..< max_nsid s + 1])) st2" by blast
    have "emitted st (ana_page ly s c) st2"
      unfolding ana_page_def by (rule emitted_append [OF assms(4) e1 ne1 st2(2)])
    with st2(1) False ne1 show ?thesis
      by (simp only: ana_page_copy_def st1_def [symmetric] Let_def if_False) blast
  qed
qed

lemma init_copy: "iov_wf (init_copy_iovs_ctx iovs)" "iov_pos (init_copy_iovs_ctx iovs) = 0"
  "iov_flat (init_copy_iovs_ctx iovs) = concat iovs" "iov_room (init_copy_iovs_ctx iovs) = length (concat iovs)"
  by (simp_all add: iov_wf_def init_copy_iovs_ctx_def iov_pos_def iov_flat_def iov_room_def)

text \<open>C33. The ANA page. Whatever offset and length a host reads, the buffer receives at its start
  exactly that piece of one sequence of bytes: the header with the number of groups, then for
  each group that counts a namespace its descriptor, with the state the controller's listener
  has for it, and the ids of the namespaces in it. Nothing else in the buffer changes, no
  access is out of bounds, and the notice is unmasked unless the host asked to retain it.\<close>

theorem ana_log_page_is_slice:
  assumes "layout_ok ly" and "subsys_inv s" and "ctrlr_listener_ok s c" and "len \<le> length (concat iovs)"
  shows "\<exists>iovs'. get_ana_log_page ly s iovs off len rae c =
      Inr (iovs', if rae then c else unmask_aen ANA_CHANGE_MASK_BIT c) \<and>
    map length iovs' = map length iovs \<and>
    concat iovs' = overwrite 0 (take len (drop off (ana_page ly s c))) (concat iovs)"
proof -
  have "copy_ok (init_copy_iovs_ctx iovs, off, len)" using assms(4) by (simp add: copy_ok_def init_copy)
  from ana_page_emitted [OF assms(1-3) this] obtain st' where
    st': "ana_page_copy ly s c (init_copy_iovs_ctx iovs, off, len) = Inr st'"
      "emitted (init_copy_iovs_ctx iovs, off, len) (ana_page ly s c) st'" by blast
  obtain ctx o' l' where p: "st' = (ctx, o', l')" by (rule prod_cases3)
  have w: "iov_written (init_copy_iovs_ctx iovs) (take len (drop off (ana_page ly s c))) ctx"
    using st'(2) by (simp add: emitted_def p Let_def)
  have "get_ana_log_page ly s iovs off len rae c = Inr (cc_iovs ctx, if rae then c else unmask_aen ANA_CHANGE_MASK_BIT c)"
    using st'(1) by (simp add: get_ana_log_page_def p)
  moreover have "concat (cc_iovs ctx) = overwrite 0 (take len (drop off (ana_page ly s c))) (concat iovs)"
    using w init_copy by (simp add: iov_written_def iov_flat_def)
  moreover have "map length (cc_iovs ctx) = map length iovs"
    using w by (simp add: iov_written_def init_copy_iovs_ctx_def)
  ultimately show ?thesis by blast
qed

section \<open>The page of changed namespaces\<close>

text \<open>Each id once, in the order of its first occurrence.\<close>

definition firsts :: "'a list \<Rightarrow> 'a list" where
  "firsts xs = rev (remdups (rev xs))"

lemma firsts_snoc: "firsts (xs @ [x]) = (if x \<in> set xs then firsts xs else firsts xs @ [x])"
  by (simp add: firsts_def)

lemma set_firsts [simp]: "set (firsts xs) = set xs"
  by (simp add: firsts_def)

definition changed_list :: "u32 list \<Rightarrow> u32 list" where
  "changed_list ds = (if length ds \<le> NS_LIST_MAX then ds @ replicate (NS_LIST_MAX - length ds) 0
     else 0xFFFFFFFF # replicate (NS_LIST_MAX - 1) 0)"

definition no_changes :: "spdk_nvmf_ctrlr \<Rightarrow> bool" where
  "no_changes c \<longleftrightarrow> ct_changed_ns_list c = replicate NS_LIST_MAX 0 \<and> ct_changed_ns_list_count c = 0"

lemma replicate_step: "0 < n \<Longrightarrow> replicate n x = x # replicate (n - 1) x"
  by (cases n) auto

lemma ns_changed_step:
  assumes "ct_changed_ns_list c = changed_list ds" and "ct_changed_ns_list_count c = min (length ds) NS_LIST_MAX"
    and "n \<noteq> 0" and "n \<noteq> 0xFFFFFFFF"
  defines "ds' \<equiv> (if n \<in> set ds then ds else ds @ [n])"
  shows "ct_changed_ns_list (ctrlr_ns_changed n c) = changed_list ds' \<and>
    ct_changed_ns_list_count (ctrlr_ns_changed n c) = min (length ds') NS_LIST_MAX"
proof -
  consider "length ds < NS_LIST_MAX" | "length ds = NS_LIST_MAX" | "length ds > NS_LIST_MAX" by linarith
  then show ?thesis
  proof cases
    case 1
    then have t: "take (min (length ds) NS_LIST_MAX) (changed_list ds) = ds" by (simp add: changed_list_def)
    have "(ds @ replicate (NS_LIST_MAX - length ds) 0)[length ds := n] = ds @ n # replicate (NS_LIST_MAX - length ds - 1) 0"
      using replicate_step [of "NS_LIST_MAX - length ds" "0 :: u32"] 1 by simp
    then show ?thesis
      using 1 t assms(1,2) by (simp add: ctrlr_ns_changed_def ds'_def changed_list_def)
  next
    case 2
    then have t: "take (min (length ds) NS_LIST_MAX) (changed_list ds) = ds" by (simp add: changed_list_def)
    then show ?thesis
      using 2 assms(1,2) by (simp add: ctrlr_ns_changed_def ds'_def changed_list_def)
  next
    case 3
    then have c: "changed_list ds = 0xFFFFFFFF # replicate (NS_LIST_MAX - 1) 0" "changed_list ds' = changed_list ds"
      by (simp_all add: changed_list_def ds'_def)
    have "n \<notin> set (take (min (length ds) NS_LIST_MAX) (changed_list ds))"
      using assms(3,4) by (auto simp: c(1) dest: in_set_takeD)
    then show ?thesis
      using 3 c assms(1,2) by (auto simp: ctrlr_ns_changed_def ds'_def)
  qed
qed

text \<open>The page of changed namespaces. After any changes since the page was last read it holds
  each changed namespace once, in the order of the first changes, then zeros; if more than 1024
  namespaces have changed it holds FFFFFFFFh and zeros. Reading the page, or any part of it,
  empties it.\<close>

theorem changed_namespaces_page:
  assumes "no_changes c" and "0 \<notin> set ns" and "0xFFFFFFFF \<notin> set ns"
  shows "ct_changed_ns_list (fold ctrlr_ns_changed ns c) = changed_list (firsts ns) \<and>
    no_changes (snd (get_changed_ns_list_log_page ly iovs off len rae (fold ctrlr_ns_changed ns c)))"
proof -
  have "ct_changed_ns_list (fold ctrlr_ns_changed ns c) = changed_list (firsts ns) \<and>
      ct_changed_ns_list_count (fold ctrlr_ns_changed ns c) = min (length (firsts ns)) NS_LIST_MAX"
    using assms(2,3)
  proof (induction ns rule: rev_induct)
    case Nil
    then show ?case using assms(1) by (simp add: no_changes_def changed_list_def firsts_def)
  next
    case (snoc n ns)
    then show ?case
      using ns_changed_step [of "fold ctrlr_ns_changed ns c" "firsts ns" n] by (simp add: firsts_snoc)
  qed
  moreover have "length (changed_list ds) = NS_LIST_MAX" for ds
    by (simp add: changed_list_def)
  ultimately show ?thesis
    by (simp add: get_changed_ns_list_log_page_def no_changes_def unmask_aen_def Let_def)
qed

section \<open>The reservation log page\<close>

lemma resv_loop_at:
  assumes "0 < ly_resv_size ly" and "0 < len"
  shows "next + k * ly_resv_size ly \<le> off \<Longrightarrow> off + len \<le> next + (k + 1) * ly_resv_size ly \<Longrightarrow> k < length lgs \<Longrightarrow>
    resv_log_loop ly next (ctx, off, len) lgs =
      (fst (copy_buf_to_iovs ctx (take len (ly_resv ly (lgs ! k)))), drop (k + 1) lgs)"
proof (induction k arbitrary: "next" lgs)
  case 0
  then obtain lg lgs' where lgs: "lgs = lg # lgs'" by (cases lgs) auto
  have "min (next + ly_resv_size ly - off) len = len" using 0 by simp
  moreover have "next + ly_resv_size ly > off" using 0 assms by simp
  ultimately show ?case by (simp add: lgs Let_def)
next
  case (Suc k)
  then obtain lg lgs' where lgs: "lgs = lg # lgs'" by (cases lgs) auto
  have "\<not> next + ly_resv_size ly > off" using Suc.prems(1) by simp
  moreover have "resv_log_loop ly (next + ly_resv_size ly) (ctx, off, len) lgs' =
      (fst (copy_buf_to_iovs ctx (take len (ly_resv ly (lgs' ! k)))), drop (k + 1) lgs')"
    using Suc.prems by (intro Suc.IH) (simp_all add: lgs algebra_simps)
  ultimately show ?case using assms(2) by (simp add: lgs Let_def)
qed

text \<open>Reading the reservation log page from an offset. The host gets the wrong bytes and loses
  entries: a read that lies inside the entry \<open>k\<close> is answered with the bytes from the start of
  that entry, wherever in the entry the offset points, and the entries before it, of which
  nothing has been copied, leave the queue with it.\<close>

theorem reservation_log_offset:
  assumes "ctrlr_inv c" and "k < length (ct_log_head c)" and "0 < len" and "0 < ly_resv_size ly"
    and "k * ly_resv_size ly \<le> off" and "off + len \<le> (k + 1) * ly_resv_size ly"
    and "length (ly_resv ly (ct_log_head c ! k)) = ly_resv_size ly" and "len \<le> length (concat iovs)"
  shows "let (iovs', c') = get_reservation_notification_log_page ly iovs off len rae c in
    concat iovs' = overwrite 0 (take len (ly_resv ly (ct_log_head c ! k))) (concat iovs) \<and>
    ct_log_head c' = drop (k + 1) (ct_log_head c)"
proof -
  have num: "unat (ct_num_avail_log_pages c) = length (ct_log_head c)" using assms(1) by (simp add: ctrlr_inv_def)
  have "off < (k + 1) * ly_resv_size ly" using assms(3,6) by linarith
  also have "\<dots> \<le> length (ct_log_head c) * ly_resv_size ly" using assms(2) by (intro mult_le_mono1) simp
  finally have off: "\<not> off \<ge> unat (ct_num_avail_log_pages c) * ly_resv_size ly" using num by simp
  have n0: "ct_num_avail_log_pages c \<noteq> 0" using num assms(2) by auto
  have loop: "resv_log_loop ly 0 (init_copy_iovs_ctx iovs, off, len) (ct_log_head c) =
      (fst (copy_buf_to_iovs (init_copy_iovs_ctx iovs) (take len (ly_resv ly (ct_log_head c ! k)))), drop (k + 1) (ct_log_head c))"
    using resv_loop_at [OF assms(4,3), of 0 k off "ct_log_head c"] assms(2,5,6) by simp
  have "iov_written (init_copy_iovs_ctx iovs) (take len (ly_resv ly (ct_log_head c ! k)))
      (fst (copy_buf_to_iovs (init_copy_iovs_ctx iovs) (take len (ly_resv ly (ct_log_head c ! k)))))"
    using copy_buf_to_iovs_flat [OF init_copy(1), of iovs "take len (ly_resv ly (ct_log_head c ! k))"] assms(8)
    by (simp add: init_copy)
  then have w: "concat (cc_iovs (fst (copy_buf_to_iovs (init_copy_iovs_ctx iovs) (take len (ly_resv ly (ct_log_head c ! k)))))) =
      overwrite 0 (take len (ly_resv ly (ct_log_head c ! k))) (concat iovs)"
    using init_copy by (simp add: iov_written_def iov_flat_def)
  have u: "ct_log_head (unmask_aen m d) = ct_log_head d" for m d by (simp add: unmask_aen_def)
  show ?thesis
    unfolding get_reservation_notification_log_page_def loop using n0 off w by (simp add: u Let_def)
qed

section \<open>The properties at concrete inputs\<close>

definition demo_two :: spdk_nvmf_subsystem where
  "demo_two = (new_subsystem 0 ''nqn.2016-06.io.spdk:s'' False 2)\<lparr>sb_ana_reporting := True, sb_ana_group := [1, 0], sb_open := [77],
     sb_ns := [None, Some \<lparr>sn_ns = new_ns 2 77, sn_anagrpid = 1, sn_nguid = 77, sn_eui64 = 0, sn_uuid = 77,
                sn_zcopy = False, sn_zns = False\<rparr>]\<rparr>"

lemma demo_two_inv: "subsys_inv demo_two"
proof -
  have "ns_bdevs (sb_ns demo_two) = [77]" by (simp add: demo_two_def new_ns_def ns_bdevs_Cons) (simp add: ns_bdevs_def List.map_filter_def)
  moreover have "\<forall>i < length (sb_ns demo_two). \<forall>ns. sb_ns demo_two ! i = Some ns \<longrightarrow> ns_entry_ok (length (sb_ns demo_two)) i ns"
    by (auto simp: demo_two_def new_ns_def ns_entry_ok_def less_Suc_eq nth_Cons')
  ultimately show ?thesis
    by (simp add: subsys_inv_def namespaces_ok_def) (simp add: demo_two_def new_subsystem_def hosts_ok_def listeners_ok_def
        ctrlrs_ok_def cntlids_ok_def)
qed

theorem ana_log_page_is_slice_witness:
  "\<exists>iovs'. get_ana_log_page demo_ly demo_two [[9], [9, 9, 9]] 2 4 True idle_ctrlr = Inr (iovs', idle_ctrlr) \<and>
     concat iovs' = [1, 1, 3, 2]"
proof -
  have ly: "layout_ok demo_ly" by (simp add: layout_ok_def demo_ly_def)
  have l: "ctrlr_listener_ok demo_two idle_ctrlr" by (simp add: ctrlr_listener_ok_def idle_ctrlr_def)
  have "overwrite 0 (take 4 (drop 2 (ana_page demo_ly demo_two idle_ctrlr))) (concat [[9], [9, 9, 9]]) = [1, 1, 3, 2]"
    by code_simp
  with ana_log_page_is_slice [OF ly demo_two_inv l, of 4 "[[9], [9, 9, 9]]" 2 True] show ?thesis by auto
qed

definition unread_ctrlr :: spdk_nvmf_ctrlr where
  "unread_ctrlr = idle_ctrlr\<lparr>ct_changed_ns_list := replicate NS_LIST_MAX 0, ct_num_avail_log_pages := 2,
     ct_log_head := [\<lparr>lg_log_page_count = 1, lg_type = 1, lg_num_avail_log_pages = 0, lg_nsid = 7\<rparr>,
       \<lparr>lg_log_page_count = 2, lg_type = 1, lg_num_avail_log_pages = 1, lg_nsid = 8\<rparr>]\<rparr>"

theorem changed_namespaces_page_witness:
  "take 3 (ct_changed_ns_list (fold ctrlr_ns_changed [5, 3, 5] unread_ctrlr)) = [5, 3, 0] \<and>
   no_changes (snd (get_changed_ns_list_log_page demo_ly [[9]] 0 1 True (fold ctrlr_ns_changed [5, 3, 5] unread_ctrlr)))"
proof -
  have n: "no_changes unread_ctrlr" by (simp add: no_changes_def unread_ctrlr_def idle_ctrlr_def)
  have "firsts [5, 3, 5 :: u32] = [5, 3]" by (simp add: firsts_def)
  then have "take 3 (changed_list (firsts [5, 3, 5])) = [5, 3, 0]"
    using replicate_step [of 1022 "0 :: u32"] by (simp add: changed_list_def)
  then show ?thesis
    using changed_namespaces_page [OF n, of "[5, 3, 5]" demo_ly "[[9]]" 0 1 True] by simp
qed

theorem reservation_log_offset_witness:
  "let (iovs', c') = get_reservation_notification_log_page demo_ly [[0], [0]] 6 2 False unread_ctrlr in
     concat iovs' = [1, 2] \<and> ct_log_head c' = []"
proof -
  have i: "ctrlr_inv unread_ctrlr" by (simp add: ctrlr_inv_def unread_ctrlr_def idle_ctrlr_def)
  have k: "1 < length (ct_log_head unread_ctrlr)" "length (ct_log_head unread_ctrlr) = 2" by (simp_all add: unread_ctrlr_def)
  have ly: "ly_resv_size demo_ly = 4" "\<And>lg. ly_resv demo_ly lg = [1, 2, 3, ucast (lg_nsid lg)]" by (simp_all add: demo_ly_def)
  from reservation_log_offset [OF i k(1), of 2 demo_ly 6 "[[0], [0]]" False] k(2)
  show ?thesis by (simp add: ly overwrite_def split_beta Let_def)
qed

end
