(* ===== verification/Io_Cmd.thy ===== *)
theory Io_Cmd
  imports Log_Pages
begin

text \<open>
  I/O commands of a connected queue pair: \<^verbatim>\<open>nvmf_ctrlr_process_io_cmd\<close> and the fused commands in
  \<^verbatim>\<open>src/nvmf/ctrlr.c\<close>, and the functions of \<^verbatim>\<open>src/nvmf/ctrlr_bdev.c\<close> that hand each command to
  the block device and finish it.

  The block device layer is outside the repository. What the model keeps of it is the list of
  the I/Os it has accepted and not yet finished (\<open>iq_inflight\<close>), each with its callback, and the
  queue of those who wait for memory (\<open>iq_waiting\<close>); the return codes of its submission
  functions are the argument \<open>rc\<close>, which gives the one for the i-th range of a Dataset
  Management command and, at 0, the one for every other command. \<open>iq_received\<close> and \<open>iq_sent\<close> log
  the requests that arrive and those that are completed.
\<close>

section \<open>Data\<close>

abbreviation IO_FLUSH :: u8 where "IO_FLUSH \<equiv> 0x00"
abbreviation IO_WRITE :: u8 where "IO_WRITE \<equiv> 0x01"
abbreviation IO_READ :: u8 where "IO_READ \<equiv> 0x02"
abbreviation IO_WRITE_UNCORRECTABLE :: u8 where "IO_WRITE_UNCORRECTABLE \<equiv> 0x04"
abbreviation IO_COMPARE :: u8 where "IO_COMPARE \<equiv> 0x05"
abbreviation IO_WRITE_ZEROES :: u8 where "IO_WRITE_ZEROES \<equiv> 0x08"
abbreviation IO_DATASET_MANAGEMENT :: u8 where "IO_DATASET_MANAGEMENT \<equiv> 0x09"
abbreviation IO_RESERVATION_REGISTER :: u8 where "IO_RESERVATION_REGISTER \<equiv> 0x0d"
abbreviation IO_RESERVATION_REPORT :: u8 where "IO_RESERVATION_REPORT \<equiv> 0x0e"
abbreviation IO_RESERVATION_ACQUIRE :: u8 where "IO_RESERVATION_ACQUIRE \<equiv> 0x11"
abbreviation IO_RESERVATION_RELEASE :: u8 where "IO_RESERVATION_RELEASE \<equiv> 0x15"
abbreviation IO_COPY :: u8 where "IO_COPY \<equiv> 0x19"

abbreviation FUSE_NONE :: u8 where "FUSE_NONE \<equiv> 0"
abbreviation FUSE_FIRST :: u8 where "FUSE_FIRST \<equiv> 1"
abbreviation FUSE_SECOND :: u8 where "FUSE_SECOND \<equiv> 2"
abbreviation FUSE_MASK :: u8 where "FUSE_MASK \<equiv> 3"

abbreviation ENOMEM_RC :: int where "ENOMEM_RC \<equiv> - 12"
abbreviation SIZEOF_DSM_RANGE :: nat where "SIZEOF_DSM_RANGE \<equiv> 16"
abbreviation SIZEOF_SCC_RANGE :: nat where "SIZEOF_SCC_RANGE \<equiv> 32"

abbreviation generic_status :: "u8 \<Rightarrow> spdk_nvme_status" where
  "generic_status sc \<equiv> \<lparr>st_sct = 0, st_sc = sc, st_dnr = False, st_crd = 0\<rparr>"

abbreviation SC_INVALID_OPCODE :: u8 where "SC_INVALID_OPCODE \<equiv> 0x01"
abbreviation SC_INVALID_FIELD_IN_CMD :: u8 where "SC_INVALID_FIELD_IN_CMD \<equiv> 0x02"
abbreviation SC_INTERNAL_ERROR :: u8 where "SC_INTERNAL_ERROR \<equiv> 0x06"
abbreviation SC_ABORTED_FAILED_FUSED :: u8 where "SC_ABORTED_FAILED_FUSED \<equiv> 0x09"
abbreviation SC_ABORTED_MISSING_FUSED :: u8 where "SC_ABORTED_MISSING_FUSED \<equiv> 0x0a"
abbreviation SC_DATA_SGL_LENGTH_INVALID :: u8 where "SC_DATA_SGL_LENGTH_INVALID \<equiv> 0x0f"
abbreviation SC_LBA_OUT_OF_RANGE :: u8 where "SC_LBA_OUT_OF_RANGE \<equiv> 0x80"
abbreviation SC_CONFLICT :: u8 where "SC_CONFLICT \<equiv> 0x83"

record nvme_cmd =
  nc_opc :: u8
  nc_fuse :: u8
  nc_nsid :: u32
  nc_cdw10 :: u32
  nc_cdw11 :: u32
  nc_cdw12 :: u32

text \<open>A request; \<open>ir_ranges\<close> is its buffer read as ranges of Dataset Management, \<open>ir_source\<close> its
  buffer read as the first source range of Copy (first block and 0-based number).\<close>

record io_request =
  ir_addr :: addr
  ir_cmd :: nvme_cmd
  ir_length :: u32
  ir_ranges :: "(u64 \<times> u32) list"
  ir_source :: "u64 \<times> u16"
  ir_zcopy :: bool \<comment> \<open>uses zero copy\<close>

record io_bdev =
  bd_num_blocks :: u64
  bd_block_size :: u32
  bd_flush :: bool \<comment> \<open>supports flush\<close>
  bd_copy :: bool \<comment> \<open>supports copy\<close>

datatype bdev_op =
    BdevReadv u64 u64
  | BdevWritev u64 u64
  | BdevComparev u64 u64
  | BdevComparevAndWritev io_request u64 u64 \<comment> \<open>the buffer to compare with is the one of this request\<close>
  | BdevWriteZeroes u64 u64
  | BdevFlush u64 u64
  | BdevUnmap u64 u64
  | BdevCopy u64 u64 u64 \<comment> \<open>destination, source, number of blocks\<close>
  | BdevZcopyStart u64 u64 bool
  | BdevZcopyEnd bool
  | BdevPassthru

datatype bdev_cb =
    CompleteCmd io_request "io_request option" \<comment> \<open>of a compare-and-write: whose buffer is compared with\<close>
  | UnmapCpl addr
  | ZcopyStartComplete io_request
  | ZcopyEndComplete io_request

record bdev_io =
  bi_op :: bdev_op
  bi_cb :: bdev_cb

datatype io_wait = WaitIo io_request | WaitUnmap addr

text \<open>The context of a Dataset Management command; it carries the address of its request and the
  status collected so far.\<close>

record unmap_ctx =
  um_req :: io_request
  um_count :: u32
  um_range_index :: nat
  um_status :: spdk_nvme_status
  um_cdw0 :: u32

record io_qpair =
  iq_first_fused :: "io_request option"
  iq_first_of :: "addr \<Rightarrow> io_request option" \<comment> \<open>\<open>first_fused_req\<close> of a request, which outlives the command in it\<close>
  iq_inflight :: "bdev_io list"
  iq_waiting :: "io_wait list"
  iq_unmaps :: "unmap_ctx list"
  iq_reservations :: "io_request list" \<comment> \<open>sent to the thread of the subsystem\<close>
  iq_zcopy :: "io_request list" \<comment> \<open>zero-copy requests whose buffer the transport holds\<close>
  iq_pending_bdev_io :: u64
  iq_received :: "addr list"
  iq_sent :: "(addr \<times> u32 \<times> spdk_nvme_status) list"

definition send_cpl :: "addr \<Rightarrow> u32 \<Rightarrow> spdk_nvme_status \<Rightarrow> io_qpair \<Rightarrow> io_qpair" where
  "send_cpl a cdw0 st q = q\<lparr>iq_sent := iq_sent q @ [(a, cdw0, st)]\<rparr>"

section \<open>Handing a command to the block device\<close>

definition get_rw_params :: "nvme_cmd \<Rightarrow> u64 \<times> u64" where
  "get_rw_params cmd =
     (push_bit 32 (ucast (nc_cdw11 cmd)) OR ucast (nc_cdw10 cmd), ucast (nc_cdw12 cmd AND 0xFFFF) + 1)"

definition lba_in_range :: "u64 \<Rightarrow> u64 \<Rightarrow> u64 \<Rightarrow> bool" where
  "lba_in_range bdev_num_blocks io_start_lba io_num_blocks \<longleftrightarrow>
     \<not> (io_start_lba + io_num_blocks > bdev_num_blocks \<or> io_start_lba + io_num_blocks < io_start_lba)"

definition queue_io :: "io_wait \<Rightarrow> io_qpair \<Rightarrow> io_qpair" where
  "queue_io w q = q\<lparr>iq_waiting := iq_waiting q @ [w], iq_pending_bdev_io := iq_pending_bdev_io q + 1\<rparr>"

text \<open>What every command does with the return code of the block device.\<close>

definition submit ::
    "int \<Rightarrow> bdev_op \<Rightarrow> bdev_cb \<Rightarrow> io_wait list \<Rightarrow> spdk_nvme_status \<Rightarrow> io_qpair \<Rightarrow> exec_status \<times> io_qpair" where
  "submit rc op cb waits err q =
     (if rc = 0 then (EXEC_ASYNCHRONOUS, q\<lparr>iq_inflight := iq_inflight q @ [\<lparr>bi_op = op, bi_cb = cb\<rparr>]\<rparr>)
      else if rc = ENOMEM_RC then (EXEC_ASYNCHRONOUS, fold queue_io waits q)
      else (EXEC_COMPLETE err, q))"

definition submit_cmd :: "int \<Rightarrow> bdev_op \<Rightarrow> io_request \<Rightarrow> io_qpair \<Rightarrow> exec_status \<times> io_qpair" where
  "submit_cmd rc op r q = submit rc op (CompleteCmd r None) [WaitIo r] (generic_status SC_INTERNAL_ERROR) q"

text \<open>The checks of the commands that move data: \<open>None\<close>, or the status of the refusal.\<close>

definition rw_check :: "io_bdev \<Rightarrow> nvme_cmd \<Rightarrow> u32 \<Rightarrow> spdk_nvme_status option" where
  "rw_check bd cmd len =
     (let (lba, n) = get_rw_params cmd in
      if \<not> lba_in_range (bd_num_blocks bd) lba n then Some (generic_status SC_LBA_OUT_OF_RANGE)
      else if n * ucast (bd_block_size bd) > ucast len then Some (generic_status SC_DATA_SGL_LENGTH_INVALID)
      else None)"

definition rw_cmd ::
    "(u64 \<Rightarrow> u64 \<Rightarrow> bdev_op) \<Rightarrow> io_bdev \<Rightarrow> int \<Rightarrow> io_request \<Rightarrow> io_qpair \<Rightarrow> exec_status \<times> io_qpair" where
  "rw_cmd op bd rc r q =
     (case rw_check bd (ir_cmd r) (ir_length r) of
        Some st \<Rightarrow> (EXEC_COMPLETE st, q)
      | None \<Rightarrow> let (lba, n) = get_rw_params (ir_cmd r) in submit_cmd rc (op lba n) r q)"

definition read_cmd :: "io_bdev \<Rightarrow> int \<Rightarrow> io_request \<Rightarrow> io_qpair \<Rightarrow> exec_status \<times> io_qpair" where
  "read_cmd = rw_cmd BdevReadv"

definition write_cmd :: "io_bdev \<Rightarrow> int \<Rightarrow> io_request \<Rightarrow> io_qpair \<Rightarrow> exec_status \<times> io_qpair" where
  "write_cmd = rw_cmd BdevWritev"

definition compare_cmd :: "io_bdev \<Rightarrow> int \<Rightarrow> io_request \<Rightarrow> io_qpair \<Rightarrow> exec_status \<times> io_qpair" where
  "compare_cmd = rw_cmd BdevComparev"

definition compare_and_write_cmd ::
    "io_bdev \<Rightarrow> int \<Rightarrow> io_request \<Rightarrow> io_request \<Rightarrow> io_qpair \<Rightarrow> exec_status \<times> io_qpair" where
  "compare_and_write_cmd bd rc cmp wr q =
     (let (cmp_lba, cmp_n) = get_rw_params (ir_cmd cmp); (lba, n) = get_rw_params (ir_cmd wr) in
      if lba \<noteq> cmp_lba \<or> n \<noteq> cmp_n then (EXEC_COMPLETE (generic_status SC_INVALID_FIELD_IN_CMD), q)
      else case rw_check bd (ir_cmd wr) (ir_length wr) of
             Some st \<Rightarrow> (EXEC_COMPLETE st, q)
           | None \<Rightarrow> submit rc (BdevComparevAndWritev cmp lba n) (CompleteCmd wr (Some cmp))
                      [WaitIo cmp, WaitIo wr] (generic_status SC_INTERNAL_ERROR) q)"

definition write_zeroes_cmd :: "io_bdev \<Rightarrow> int \<Rightarrow> io_request \<Rightarrow> io_qpair \<Rightarrow> exec_status \<times> io_qpair" where
  "write_zeroes_cmd bd rc r q =
     (let (lba, n) = get_rw_params (ir_cmd r) in
      if \<not> lba_in_range (bd_num_blocks bd) lba n
      then (EXEC_COMPLETE (generic_status SC_LBA_OUT_OF_RANGE), q)
      else submit_cmd rc (BdevWriteZeroes lba n) r q)"

definition flush_cmd :: "io_bdev \<Rightarrow> int \<Rightarrow> io_request \<Rightarrow> io_qpair \<Rightarrow> exec_status \<times> io_qpair" where
  "flush_cmd bd rc r q =
     (if \<not> bd_flush bd then (EXEC_COMPLETE st_success, q)
      else submit_cmd rc (BdevFlush 0 (bd_num_blocks bd)) r q)"

definition copy_cmd :: "io_bdev \<Rightarrow> int \<Rightarrow> io_request \<Rightarrow> io_qpair \<Rightarrow> exec_status \<times> io_qpair" where
  "copy_cmd bd rc r q =
     (let cmd = ir_cmd r; nr = unat (nc_cdw12 cmd AND 0xFF); df = unat (drop_bit 8 (nc_cdw12 cmd) AND 0xF);
          sdlba = push_bit 32 (ucast (nc_cdw11 cmd)) + ucast (nc_cdw10 cmd)
      in if unat (ir_length r) \<noteq> (nr + 1) * SIZEOF_SCC_RANGE
         then (EXEC_COMPLETE (generic_status SC_DATA_SGL_LENGTH_INVALID), q)
         else if \<not> bd_copy bd then (EXEC_COMPLETE (generic_status SC_INVALID_OPCODE), q)
         else if nr > 0 then
           (EXEC_COMPLETE \<lparr>st_sct = 1, st_sc = 0x83, st_dnr = False, st_crd = 0\<rparr>, q)
         else if df \<noteq> 0 then (EXEC_COMPLETE (generic_status SC_INVALID_FIELD_IN_CMD), q)
         else submit_cmd rc (BdevCopy sdlba (fst (ir_source r)) (ucast (snd (ir_source r)) + 1)) r q)"

definition passthru_io :: "int \<Rightarrow> io_request \<Rightarrow> io_qpair \<Rightarrow> exec_status \<times> io_qpair" where
  "passthru_io rc r q =
     submit rc BdevPassthru (CompleteCmd r None) [WaitIo r]
       \<lparr>st_sct = 0, st_sc = SC_INVALID_OPCODE, st_dnr = True, st_crd = 0\<rparr> q"

definition zcopy_start :: "io_bdev \<Rightarrow> int \<Rightarrow> io_request \<Rightarrow> io_qpair \<Rightarrow> exec_status \<times> io_qpair" where
  "zcopy_start bd rc r q =
     (case rw_check bd (ir_cmd r) (ir_length r) of
        Some st \<Rightarrow> (EXEC_COMPLETE st, q)
      | None \<Rightarrow>
          let (lba, n) = get_rw_params (ir_cmd r)
          in submit rc (BdevZcopyStart lba n (nc_opc (ir_cmd r) = IO_READ)) (ZcopyStartComplete r) [WaitIo r]
               (generic_status SC_INTERNAL_ERROR) q)"

section \<open>Dataset Management\<close>

definition find_unmap :: "addr \<Rightarrow> io_qpair \<Rightarrow> unmap_ctx option" where
  "find_unmap a q = List.find (\<lambda>um. ir_addr (um_req um) = a) (iq_unmaps q)"

definition put_unmap :: "unmap_ctx \<Rightarrow> io_qpair \<Rightarrow> io_qpair" where
  "put_unmap um q =
     q\<lparr>iq_unmaps := update_by (\<lambda>u. ir_addr (um_req u)) (ir_addr (um_req um)) (\<lambda>_. um) (iq_unmaps q)\<rparr>"

definition free_unmap :: "addr \<Rightarrow> io_qpair \<Rightarrow> io_qpair" where
  "free_unmap a q = q\<lparr>iq_unmaps := remove_by (\<lambda>u. ir_addr (um_req u)) a (iq_unmaps q)\<rparr>"

definition num_ranges :: "nvme_cmd \<Rightarrow> nat" where
  "num_ranges cmd = unat (nc_cdw10 cmd AND 0xFF) + 1"

text \<open>The loop over the ranges that are left; the first component tells whether the command waits
  for memory.\<close>

primrec unmap_loop ::
    "(nat \<Rightarrow> int) \<Rightarrow> (u64 \<times> u32) list \<Rightarrow> unmap_ctx \<Rightarrow> io_qpair \<Rightarrow> bool \<times> unmap_ctx \<times> io_qpair" where
  "unmap_loop rc [] um q = (False, um, q)"
| "unmap_loop rc (rg # rgs) um q =
     (let i = um_range_index um; um1 = um\<lparr>um_count := um_count um + 1\<rparr>; a = ir_addr (um_req um) in
      if rc i = 0 then
        unmap_loop rc rgs (um1\<lparr>um_range_index := i + 1\<rparr>)
          (q\<lparr>iq_inflight := iq_inflight q @ [\<lparr>bi_op = BdevUnmap (fst rg) (ucast (snd rg)), bi_cb = UnmapCpl a\<rparr>]\<rparr>)
      else if rc i = ENOMEM_RC then (True, um1, queue_io (WaitUnmap a) q)
      else (False, um1\<lparr>um_status := (um_status um)\<lparr>st_sc := SC_INTERNAL_ERROR\<rparr>, um_count := um_count um\<rparr>, q))"

text \<open>The part after the context is there; the context is in \<open>iq_unmaps\<close>.\<close>

definition unmap_submit ::
    "(nat \<Rightarrow> int) \<Rightarrow> unmap_ctx \<Rightarrow> io_qpair \<Rightarrow> exec_status \<times> io_qpair" where
  "unmap_submit rc um q =
     (let r = um_req um; nr = num_ranges (ir_cmd r);
          (wait, um1, q1) = unmap_loop rc (drop (um_range_index um) (take nr (ir_ranges r))) um q;
          q2 = put_unmap um1 q1
      in if wait then (EXEC_ASYNCHRONOUS, q2)
         else if um_count um1 = 0 then (EXEC_COMPLETE (um_status um1), free_unmap (ir_addr r) q2)
         else (EXEC_ASYNCHRONOUS, q2))"

definition unmap_cmd :: "bool \<Rightarrow> (nat \<Rightarrow> int) \<Rightarrow> io_request \<Rightarrow> io_qpair \<Rightarrow> fault + exec_status \<times> io_qpair" where
  "unmap_cmd mem rc r q =
     (let nr = num_ranges (ir_cmd r) in
      if nr * SIZEOF_DSM_RANGE > unat (ir_length r)
      then Inr (EXEC_COMPLETE (generic_status SC_DATA_SGL_LENGTH_INVALID), q)
      else if \<not> mem then Inr (EXEC_COMPLETE (generic_status SC_INTERNAL_ERROR), q)
      else if length (ir_ranges r) < nr then Inl OutOfBounds
      else
        let um = \<lparr>um_req = r, um_count = 0, um_range_index = 0, um_status = st_success, um_cdw0 = 0\<rparr>
        in Inr (unmap_submit rc um (q\<lparr>iq_unmaps := iq_unmaps q @ [um]\<rparr>)))"

text \<open>\<open>nvmf_bdev_ctrlr_unmap_resubmit\<close>: what \<open>nvmf_bdev_ctrlr_unmap\<close> returns is ignored. The length
  was checked when the command arrived and does not change.\<close>

definition unmap_resubmit :: "(nat \<Rightarrow> int) \<Rightarrow> addr \<Rightarrow> io_qpair \<Rightarrow> fault + io_qpair" where
  "unmap_resubmit rc a q =
     (case find_unmap a q of
        None \<Rightarrow> Inl UseAfterFree
      | Some um \<Rightarrow> Inr (snd (unmap_submit rc (um\<lparr>um_count := um_count um - 1\<rparr>) q)))"

definition dsm_cmd :: "bool \<Rightarrow> (nat \<Rightarrow> int) \<Rightarrow> io_request \<Rightarrow> io_qpair \<Rightarrow> fault + exec_status \<times> io_qpair" where
  "dsm_cmd mem rc r q =
     (if bit (nc_cdw11 (ir_cmd r)) 2 then unmap_cmd mem rc r q else Inr (EXEC_COMPLETE st_success, q))"

text \<open>A range is done: the first error is the status of the command.\<close>

definition unmap_cpl :: "u32 \<Rightarrow> u8 \<Rightarrow> u8 \<Rightarrow> addr \<Rightarrow> io_qpair \<Rightarrow> fault + io_qpair" where
  "unmap_cpl cdw0 sct sc a q =
     (case find_unmap a q of
        None \<Rightarrow> Inl UseAfterFree
      | Some um \<Rightarrow>
          let um1 = um\<lparr>um_count := um_count um - 1\<rparr>;
              um2 = (if cpl_is_error (um_status um1) then um1
                     else um1\<lparr>um_status := (um_status um1)\<lparr>st_sct := sct, st_sc := sc\<rparr>, um_cdw0 := cdw0\<rparr>)
          in Inr (if um_count um2 = 0 then send_cpl a (um_cdw0 um2) (um_status um2) (free_unmap a q)
                  else put_unmap um2 q))"

section \<open>Fused commands\<close>

definition abort_first_fused :: "io_request \<Rightarrow> io_qpair \<Rightarrow> io_qpair" where
  "abort_first_fused f q = send_cpl (ir_addr f) 0 (generic_status SC_ABORTED_MISSING_FUSED) q"

definition process_io_fused_cmd :: "io_bdev \<Rightarrow> int \<Rightarrow> io_request \<Rightarrow> io_qpair \<Rightarrow> exec_status \<times> io_qpair" where
  "process_io_fused_cmd bd rc r q =
     (let cmd = ir_cmd r in
      if nc_fuse cmd = FUSE_FIRST then
        (case iq_first_fused q of
           Some f \<Rightarrow> (EXEC_ASYNCHRONOUS, (abort_first_fused f q)\<lparr>iq_first_fused := Some r\<rparr>)
         | None \<Rightarrow>
             if nc_opc cmd \<noteq> IO_COMPARE then (EXEC_COMPLETE (generic_status SC_INVALID_OPCODE), q)
             else (EXEC_ASYNCHRONOUS, q\<lparr>iq_first_fused := Some r\<rparr>))
      else if nc_fuse cmd = FUSE_SECOND then
        (case iq_first_fused q of
           None \<Rightarrow> (EXEC_COMPLETE (generic_status SC_ABORTED_MISSING_FUSED), q)
         | Some f \<Rightarrow>
             if nc_opc cmd \<noteq> IO_WRITE then
               (EXEC_COMPLETE (generic_status SC_INVALID_OPCODE), (abort_first_fused f q)\<lparr>iq_first_fused := None\<rparr>)
             else
               let (ex, q1) = compare_and_write_cmd bd rc f r
                     (q\<lparr>iq_first_fused := None, iq_first_of := (iq_first_of q)(ir_addr r := Some f)\<rparr>)
               in case ex of
                    EXEC_COMPLETE st \<Rightarrow>
                      if cpl_is_error st
                      then (EXEC_COMPLETE (st\<lparr>st_sct := 0, st_sc := SC_ABORTED_FAILED_FUSED\<rparr>),
                            (send_cpl (ir_addr f) 0 st q1)\<lparr>iq_first_of := (iq_first_of q1)(ir_addr r := None)\<rparr>)
                      else (ex, q1)
                  | EXEC_ASYNCHRONOUS \<Rightarrow> (ex, q1))
      else (EXEC_COMPLETE (generic_status SC_INVALID_FIELD_IN_CMD), q))"

section \<open>Processing a command\<close>

text \<open>What a command meets: the controller of the queue pair with its host id, whether it is
  enabled (\<open>CC.EN\<close>), its subsystem, the namespaces of the poll group and the block devices, given
  by the uuid of the device of the namespace.\<close>

record io_env =
  ie_ctrlr :: "(spdk_nvmf_ctrlr \<times> uuid) option"
  ie_enabled :: bool
  ie_subsys :: spdk_nvmf_subsystem
  ie_ns_info :: "spdk_nvmf_subsystem_pg_ns_info list"
  ie_bdev :: "uuid \<Rightarrow> io_bdev"
  ie_mem :: bool
  ie_rc :: "nat \<Rightarrow> int"

definition ana_path_status :: "ana_state \<Rightarrow> u8" where
  "ana_path_status st =
     (case st of ANA_INACCESSIBLE \<Rightarrow> 0x02 | ANA_PERSISTENT_LOSS \<Rightarrow> 0x01 | ANA_CHANGE \<Rightarrow> 0x03 | _ \<Rightarrow> 0x00)"

definition nvm_opc_of :: "u8 \<Rightarrow> nvm_opc" where
  "nvm_opc_of opc =
     (if opc = IO_FLUSH then OPC_FLUSH else if opc = IO_WRITE then OPC_WRITE else if opc = IO_READ then OPC_READ
      else if opc = IO_WRITE_UNCORRECTABLE then OPC_WRITE_UNCORRECTABLE else if opc = IO_COMPARE then OPC_COMPARE
      else if opc = IO_WRITE_ZEROES then OPC_WRITE_ZEROES
      else if opc = IO_DATASET_MANAGEMENT then OPC_DATASET_MANAGEMENT
      else if opc = IO_RESERVATION_REGISTER then OPC_RESERVATION_REGISTER
      else if opc = IO_RESERVATION_REPORT then OPC_RESERVATION_REPORT
      else if opc = IO_RESERVATION_ACQUIRE then OPC_RESERVATION_ACQUIRE
      else if opc = IO_RESERVATION_RELEASE then OPC_RESERVATION_RELEASE else OPC_OTHER opc)"

definition dispatch_io ::
    "io_env \<Rightarrow> io_bdev \<Rightarrow> io_request \<Rightarrow> io_qpair \<Rightarrow> fault + exec_status \<times> io_qpair" where
  "dispatch_io env bd r q =
     (let opc = nc_opc (ir_cmd r); rc = ie_rc env 0 in
      if ir_zcopy r then Inr (zcopy_start bd rc r q)
      else if opc = IO_READ then Inr (read_cmd bd rc r q)
      else if opc = IO_WRITE then Inr (write_cmd bd rc r q)
      else if opc = IO_COMPARE then Inr (compare_cmd bd rc r q)
      else if opc = IO_WRITE_ZEROES then Inr (write_zeroes_cmd bd rc r q)
      else if opc = IO_FLUSH then Inr (flush_cmd bd rc r q)
      else if opc = IO_DATASET_MANAGEMENT then dsm_cmd (ie_mem env) (ie_rc env) r q
      else if opc \<in> {IO_RESERVATION_REGISTER, IO_RESERVATION_ACQUIRE, IO_RESERVATION_RELEASE, IO_RESERVATION_REPORT}
      then Inr (EXEC_ASYNCHRONOUS, q\<lparr>iq_reservations := iq_reservations q @ [r]\<rparr>)
      else if opc = IO_COPY then Inr (copy_cmd bd rc r q)
      else Inr (passthru_io rc r q))"

text \<open>The checks in front of the block device: the namespace's device, or the status of the
  refusal.\<close>

definition io_admission :: "io_env \<Rightarrow> nvme_cmd \<Rightarrow> fault + (spdk_nvme_status + io_bdev)" where
  "io_admission env cmd =
     (case ie_ctrlr env of
        None \<Rightarrow> Inr (Inl st_command_sequence_error)
      | Some (c, hostid) \<Rightarrow>
          if \<not> ie_enabled env then Inr (Inl st_command_sequence_error)
          else case get_ns (ie_subsys env) (nc_nsid cmd) of
            None \<Rightarrow> Inr (Inl st_invalid_namespace)
          | Some ns \<Rightarrow>
              (case ns_bdev (sn_ns ns) of
                 None \<Rightarrow> Inr (Inl st_invalid_namespace)
               | Some b \<Rightarrow>
                   bindR (get_ana_state (ie_subsys env) c (sn_anagrpid ns)) (\<lambda>ast.
                     if ast \<noteq> ANA_OPTIMIZED \<and> ast \<noteq> ANA_NON_OPTIMIZED then
                       Inr (Inl \<lparr>st_sct = 3, st_sc = ana_path_status ast, st_dnr = False, st_crd = 0\<rparr>)
                     else
                       let i = unat (nc_nsid cmd - 1) in
                       if i \<ge> length (ie_ns_info env) then Inl OutOfBounds
                       else case reservation_request_check (ie_ns_info env ! i) hostid (nvm_opc_of (nc_opc cmd))
                                   (ucast (nc_cdw10 cmd AND 7)) of
                              Some _ \<Rightarrow> Inr (Inl (generic_status SC_CONFLICT))
                            | None \<Rightarrow> Inr (Inr (ie_bdev env b)))))"

definition process_io_cmd :: "io_env \<Rightarrow> io_request \<Rightarrow> io_qpair \<Rightarrow> fault + exec_status \<times> io_qpair" where
  "process_io_cmd env r q =
     bindR (io_admission env (ir_cmd r)) (\<lambda>adm.
       case adm of
         Inl st \<Rightarrow> Inr (EXEC_COMPLETE st, q)
       | Inr bd \<Rightarrow>
           if nc_fuse (ir_cmd r) AND FUSE_MASK \<noteq> 0 then Inr (process_io_fused_cmd bd (ie_rc env 0) r q)
           else dispatch_io env bd r
                  (case iq_first_fused q of
                     Some f \<Rightarrow> (abort_first_fused f q)\<lparr>iq_first_fused := None\<rparr>
                   | None \<Rightarrow> q))"

section \<open>Steps of a queue pair\<close>

text \<open>The requests that are not finished.\<close>

definition cb_requests :: "bdev_cb \<Rightarrow> addr list" where
  "cb_requests cb =
     (case cb of CompleteCmd r f \<Rightarrow> ir_addr r # (case f of Some g \<Rightarrow> [ir_addr g] | None \<Rightarrow> [])
      | UnmapCpl a \<Rightarrow> [] | ZcopyStartComplete r \<Rightarrow> [ir_addr r] | ZcopyEndComplete r \<Rightarrow> [ir_addr r])"

definition wait_requests :: "io_wait \<Rightarrow> addr list" where
  "wait_requests w = (case w of WaitIo r \<Rightarrow> [ir_addr r] | WaitUnmap a \<Rightarrow> [])"

definition held :: "io_qpair \<Rightarrow> addr list" where
  "held q = (case iq_first_fused q of Some f \<Rightarrow> [ir_addr f] | None \<Rightarrow> []) @
     concat (map (\<lambda>b. cb_requests (bi_cb b)) (iq_inflight q)) @ concat (map wait_requests (iq_waiting q)) @
     map (\<lambda>um. ir_addr (um_req um)) (iq_unmaps q) @ map ir_addr (iq_reservations q) @ map ir_addr (iq_zcopy q)"

text \<open>The block device finishes an I/O; \<open>first\<close> is what it reports of the first of two fused
  commands.\<close>

record bdev_result =
  br_success :: bool
  br_cdw0 :: u32
  br_first :: "u8 \<times> u8" \<comment> \<open>status code type and status code\<close>
  br_status :: "u8 \<times> u8"

definition status_of :: "u8 \<times> u8 \<Rightarrow> spdk_nvme_status" where
  "status_of s = \<lparr>st_sct = fst s, st_sc = snd s, st_dnr = False, st_crd = 0\<rparr>"

text \<open>The request tells whether there is a first command to complete, not the I/O: what an earlier
  command has left in \<open>first_fused_req\<close> is completed too.\<close>

definition complete_cmd :: "bdev_result \<Rightarrow> io_request \<Rightarrow> io_qpair \<Rightarrow> io_qpair" where
  "complete_cmd res r q =
     send_cpl (ir_addr r) (br_cdw0 res) (status_of (br_status res))
       (case iq_first_of q (ir_addr r) of None \<Rightarrow> q
        | Some f \<Rightarrow> (send_cpl (ir_addr f) (br_cdw0 res) (status_of (br_first res)) q)
                      \<lparr>iq_first_of := (iq_first_of q)(ir_addr r := None)\<rparr>)"

definition zcopy_start_complete :: "bdev_result \<Rightarrow> io_request \<Rightarrow> io_qpair \<Rightarrow> io_qpair" where
  "zcopy_start_complete res r q =
     (if \<not> br_success res then send_cpl (ir_addr r) (br_cdw0 res) (status_of (br_status res)) q
      else q\<lparr>iq_zcopy := iq_zcopy q @ [r]\<rparr>)"

definition zcopy_end_complete :: "bdev_result \<Rightarrow> io_request \<Rightarrow> io_qpair \<Rightarrow> io_qpair" where
  "zcopy_end_complete res r q =
     (if \<not> br_success res then send_cpl (ir_addr r) (br_cdw0 res) (status_of (br_status res)) q
      else send_cpl (ir_addr r) 0 st_success q)"

definition bdev_done :: "bdev_result \<Rightarrow> bdev_cb \<Rightarrow> io_qpair \<Rightarrow> fault + io_qpair" where
  "bdev_done res cb q =
     (case cb of
        CompleteCmd r _ \<Rightarrow> Inr (complete_cmd res r q)
      | UnmapCpl a \<Rightarrow> unmap_cpl (br_cdw0 res) (fst (br_status res)) (snd (br_status res)) a q
      | ZcopyStartComplete r \<Rightarrow> Inr (zcopy_start_complete res r q)
      | ZcopyEndComplete r \<Rightarrow> Inr (zcopy_end_complete res r q))"

definition finish_exec :: "io_request \<Rightarrow> fault + exec_status \<times> io_qpair \<Rightarrow> fault + io_qpair" where
  "finish_exec r res =
     bindR res (\<lambda>(ex, q).
       case ex of EXEC_COMPLETE st \<Rightarrow> Inr (send_cpl (ir_addr r) 0 st q) | EXEC_ASYNCHRONOUS \<Rightarrow> Inr q)"

datatype io_event =
    IoArrives io_env io_request
  | IoDone nat bdev_result \<comment> \<open>the n-th I/O of those the block device works on\<close>
  | IoRetry io_env \<comment> \<open>memory is available for the first that waits\<close>
  | IoReservationDone nat spdk_nvme_status
  | IoZcopyEnd nat bool

definition io_step :: "io_qpair \<Rightarrow> io_event \<Rightarrow> fault + io_qpair" where
  "io_step q e =
     (case e of
        IoArrives env r \<Rightarrow>
          finish_exec r (process_io_cmd env r (q\<lparr>iq_received := iq_received q @ [ir_addr r]\<rparr>))
      | IoDone n res \<Rightarrow>
          (if n < length (iq_inflight q)
           then bdev_done res (bi_cb (iq_inflight q ! n)) (q\<lparr>iq_inflight := remove_nth n (iq_inflight q)\<rparr>)
           else Inr q)
      | IoRetry env \<Rightarrow>
          (case iq_waiting q of
             [] \<Rightarrow> Inr q
           | WaitIo r # ws \<Rightarrow> finish_exec r (process_io_cmd env r (q\<lparr>iq_waiting := ws\<rparr>))
           | WaitUnmap a # ws \<Rightarrow> unmap_resubmit (ie_rc env) a (q\<lparr>iq_waiting := ws\<rparr>))
      | IoReservationDone n st \<Rightarrow>
          (if n < length (iq_reservations q)
           then Inr (send_cpl (ir_addr (iq_reservations q ! n)) 0 st
                  (q\<lparr>iq_reservations := remove_nth n (iq_reservations q)\<rparr>))
           else Inr q)
      | IoZcopyEnd n commit \<Rightarrow>
          (if n < length (iq_zcopy q)
           then Inr (q\<lparr>iq_zcopy := remove_nth n (iq_zcopy q),
                       iq_inflight := iq_inflight q @
                         [\<lparr>bi_op = BdevZcopyEnd commit, bi_cb = ZcopyEndComplete (iq_zcopy q ! n)\<rparr>]\<rparr>)
           else Inr q))"

definition empty_io_qpair :: io_qpair where
  "empty_io_qpair = \<lparr>iq_first_fused = None, iq_first_of = Map.empty, iq_inflight = [], iq_waiting = [], iq_unmaps = [], iq_reservations = [],
     iq_zcopy = [], iq_pending_bdev_io = 0, iq_received = [], iq_sent = []\<rparr>"

end
