(* ===== verification/Io_Cmd_Props.thy ===== *)
theory Io_Cmd_Props
  imports Io_Cmd "HOL-Library.Multiset"
begin

text \<open>
  What holds of the I/O commands of a queue pair: what is handed to the block device lies inside
  the device and inside the buffer of the request, for the commands whose ranges the code checks; under what
  conditions every request that arrives is finished once or still held; and the cases in which
  the code fails at that.
\<close>

section \<open>Ranges of blocks\<close>

lemma lba_in_range_exact: "lba_in_range nb l n \<longleftrightarrow> unat l + unat n \<le> unat nb"
proof (cases "unat l + unat n < 2 ^ 64")
  case True
  then have u: "unat (l + n) = unat l + unat n" by (simp add: unat_word_ariths)
  show ?thesis unfolding lba_in_range_def word_less_nat_alt u by linarith
next
  case False
  have "unat l < 2 ^ 64" "unat n < 2 ^ 64" "unat nb < 2 ^ 64" by (rule unat_u64_less)+
  then have u: "unat (l + n) = unat l + unat n - 2 ^ 64"
    using False by (simp add: unat_word_ariths) (simp add: mod_if)
  show ?thesis
    unfolding lba_in_range_def word_less_nat_alt u using False \<open>unat n < 2 ^ 64\<close> \<open>unat nb < 2 ^ 64\<close> by linarith
qed

lemma rw_blocks: "snd (get_rw_params cmd) = n \<Longrightarrow> unat n = unat (nc_cdw12 cmd AND 0xFFFF) + 1 \<and> unat n \<le> 65536"
proof -
  assume n: "snd (get_rw_params cmd) = n"
  have "nc_cdw12 cmd AND 0xFFFF \<le> 0xFFFF" by (rule word_and_le1)
  then have le: "unat (nc_cdw12 cmd AND 0xFFFF) \<le> 65535" by (simp add: word_le_nat_alt)
  then have "unat (ucast (nc_cdw12 cmd AND 0xFFFF) :: u64) = unat (nc_cdw12 cmd AND 0xFFFF)"
    by (simp add: unsigned_ucast_eq unsigned_take_bit_eq take_bit_nat_eq_self)
  then show ?thesis using n le by (auto simp: get_rw_params_def unat_word_ariths)
qed

lemma rw_check_None:
  assumes "rw_check bd cmd len = None" and p: "get_rw_params cmd = (lba, n)"
  shows "unat lba + unat n \<le> unat (bd_num_blocks bd)" and "unat n * unat (bd_block_size bd) \<le> unat len"
proof -
  from assms have r: "lba_in_range (bd_num_blocks bd) lba n" and l: "\<not> n * ucast (bd_block_size bd) > ucast len"
    by (simp_all add: rw_check_def split: if_splits)
  from r show "unat lba + unat n \<le> unat (bd_num_blocks bd)" by (simp add: lba_in_range_exact)
  have n: "unat n \<le> 65536" using rw_blocks [of cmd n] p by simp
  have b: "unat (bd_block_size bd) < 2 ^ 32" by (rule unat_u32_less)
  have m: "unat n * unat (bd_block_size bd) < 2 ^ 64"
    by (rule order.strict_trans1 [OF mult_le_mono [OF n order.strict_implies_order [OF b]]]) simp
  have u: "unat (ucast w :: u64) = unat w" for w :: u32
    using unat_u32_less [of w] by (simp add: unsigned_ucast_eq unsigned_take_bit_eq take_bit_nat_eq_self)
  have "unat (n * ucast (bd_block_size bd)) = unat n * unat (bd_block_size bd)"
    using m by (simp add: unat_word_ariths u)
  then show "unat n * unat (bd_block_size bd) \<le> unat len" using l by (simp add: word_less_nat_alt u not_less)
qed

section \<open>What is handed to the block device\<close>

text \<open>An I/O is inside the device and inside the buffer it works on.\<close>

fun bdev_io_ok :: "io_bdev \<Rightarrow> bdev_io \<Rightarrow> bool" where
  "bdev_io_ok bd \<lparr>bi_op = op, bi_cb = CompleteCmd r f\<rparr> =
     (case op of
        BdevReadv l n \<Rightarrow> f = None \<and> unat l + unat n \<le> unat (bd_num_blocks bd) \<and>
          unat n * unat (bd_block_size bd) \<le> unat (ir_length r)
      | BdevWritev l n \<Rightarrow> f = None \<and> unat l + unat n \<le> unat (bd_num_blocks bd) \<and>
          unat n * unat (bd_block_size bd) \<le> unat (ir_length r)
      | BdevComparev l n \<Rightarrow> f = None \<and> unat l + unat n \<le> unat (bd_num_blocks bd) \<and>
          unat n * unat (bd_block_size bd) \<le> unat (ir_length r)
      | BdevComparevAndWritev c l n \<Rightarrow> f = Some c \<and> get_rw_params (ir_cmd c) = (l, n) \<and>
          unat l + unat n \<le> unat (bd_num_blocks bd) \<and> unat n * unat (bd_block_size bd) \<le> unat (ir_length r)
      | BdevWriteZeroes l n \<Rightarrow> f = None \<and> unat l + unat n \<le> unat (bd_num_blocks bd)
      | BdevFlush l n \<Rightarrow> f = None \<and> l = 0 \<and> n = bd_num_blocks bd
      | BdevCopy d s n \<Rightarrow> f = None \<and> 0 < unat n \<and> unat n \<le> 65536
      | BdevPassthru \<Rightarrow> f = None
      | _ \<Rightarrow> False)"
| "bdev_io_ok bd \<lparr>bi_op = op, bi_cb = UnmapCpl a\<rparr> = (case op of BdevUnmap l n \<Rightarrow> True | _ \<Rightarrow> False)"
| "bdev_io_ok bd \<lparr>bi_op = op, bi_cb = ZcopyStartComplete r\<rparr> =
     (case op of BdevZcopyStart l n populate \<Rightarrow> unat l + unat n \<le> unat (bd_num_blocks bd) \<and>
          unat n * unat (bd_block_size bd) \<le> unat (ir_length r) \<and> populate = (nc_opc (ir_cmd r) = IO_READ)
      | _ \<Rightarrow> False)"
| "bdev_io_ok bd \<lparr>bi_op = op, bi_cb = ZcopyEndComplete r\<rparr> = (case op of BdevZcopyEnd c \<Rightarrow> True | _ \<Rightarrow> False)"

definition added :: "(bdev_io \<Rightarrow> bool) \<Rightarrow> io_qpair \<Rightarrow> io_qpair \<Rightarrow> bool" where
  "added P q q' \<longleftrightarrow> (\<exists>new. iq_inflight q' = iq_inflight q @ new \<and> list_all P new)"

lemma added_refl: "iq_inflight q' = iq_inflight q \<Longrightarrow> added P q q'"
  by (auto simp: added_def intro: exI [of _ "[]"])

lemma added_one: "iq_inflight q' = iq_inflight q @ [b] \<Longrightarrow> P b \<Longrightarrow> added P q q'"
  by (auto simp: added_def)

lemma added_trans: "added P q q1 \<Longrightarrow> added P q1 q2 \<Longrightarrow> added P q q2"
  by (auto simp: added_def)

lemma inflight_queue_io [simp]: "iq_inflight (fold queue_io ws q) = iq_inflight q"
  by (induction ws arbitrary: q) (auto simp: queue_io_def)

lemma inflight_send [simp]: "iq_inflight (send_cpl a c st q) = iq_inflight q"
  by (simp add: send_cpl_def)

lemma inflight_abort [simp]: "iq_inflight (abort_first_fused f q) = iq_inflight q"
  by (simp add: abort_first_fused_def)

lemma submit_added:
  "P \<lparr>bi_op = op, bi_cb = cb\<rparr> \<Longrightarrow> submit rc op cb ws err q = (ex, q') \<Longrightarrow> added P q q'"
  by (auto simp: submit_def split: if_splits intro: added_refl added_one)

lemma submit_cmd_added:
  "P \<lparr>bi_op = op, bi_cb = CompleteCmd r None\<rparr> \<Longrightarrow> submit_cmd rc op r q = (ex, q') \<Longrightarrow> added P q q'"
  unfolding submit_cmd_def by (rule submit_added)

lemma rw_cmd_added:
  assumes "rw_cmd op bd rc r q = (ex, q')" and "op \<in> {BdevReadv, BdevWritev, BdevComparev}"
  shows "added (bdev_io_ok bd) q q'"
proof (cases "rw_check bd (ir_cmd r) (ir_length r)")
  case (Some st)
  with assms(1) show ?thesis by (auto simp: rw_cmd_def intro: added_refl)
next
  case None
  obtain l n where p: "get_rw_params (ir_cmd r) = (l, n)" by (metis surj_pair)
  note ok = rw_check_None [OF None p]
  show ?thesis
    by (rule submit_cmd_added [of _ "op l n" r rc q ex]) (use assms None p ok in \<open>auto simp: rw_cmd_def\<close>)
qed

lemma compare_and_write_added:
  assumes "compare_and_write_cmd bd rc c w q = (ex, q')"
  shows "added (bdev_io_ok bd) q q'"
proof -
  obtain l n where p: "get_rw_params (ir_cmd w) = (l, n)" by (metis surj_pair)
  obtain l' n' where p': "get_rw_params (ir_cmd c) = (l', n')" by (metis surj_pair)
  show ?thesis
  proof (cases "l = l' \<and> n = n' \<and> rw_check bd (ir_cmd w) (ir_length w) = None")
    case True
    note ok = rw_check_None [OF _ p, of bd "ir_length w"]
    from True show ?thesis
      by (intro submit_added [of _ "BdevComparevAndWritev c l n" "CompleteCmd w (Some c)" rc
             "[WaitIo c, WaitIo w]" "generic_status SC_INTERNAL_ERROR" q ex])
        (use assms p p' ok in \<open>auto simp: compare_and_write_cmd_def\<close>)
  next
    case False
    then show ?thesis
      using assms p p' by (auto simp: compare_and_write_cmd_def split: option.splits if_splits intro: added_refl)
  qed
qed

lemma write_zeroes_added: "write_zeroes_cmd bd rc r q = (ex, q') \<Longrightarrow> added (bdev_io_ok bd) q q'"
  by (auto simp: write_zeroes_cmd_def lba_in_range_exact split: prod.splits if_splits
      intro: added_refl elim!: submit_cmd_added [rotated])

lemma flush_added: "flush_cmd bd rc r q = (ex, q') \<Longrightarrow> added (bdev_io_ok bd) q q'"
  by (auto simp: flush_cmd_def split: if_splits intro: added_refl elim!: submit_cmd_added [rotated])

lemma nlb_bound: "0 < unat (ucast (w :: u16) + 1 :: u64) \<and> unat (ucast (w :: u16) + 1 :: u64) \<le> 65536"
proof -
  have l: "unat w < 2 ^ 16" using unsigned_less [of w] by simp
  then have "unat (ucast w :: u64) = unat w"
    by (simp add: unsigned_ucast_eq unsigned_take_bit_eq take_bit_nat_eq_self)
  then have "unat (ucast w + 1 :: u64) = unat w + 1" using l by (simp add: unat_word_ariths)
  then show ?thesis using l by simp
qed

lemma copy_added: "copy_cmd bd rc r q = (ex, q') \<Longrightarrow> added (bdev_io_ok bd) q q'"
  using nlb_bound [of "snd (ir_source r)"]
  by (auto simp: copy_cmd_def Let_def split: if_splits intro: added_refl elim!: submit_cmd_added [rotated])

lemma passthru_added: "passthru_io rc r q = (ex, q') \<Longrightarrow> added (bdev_io_ok bd) q q'"
  unfolding passthru_io_def by (erule submit_added [rotated]) simp

lemma zcopy_start_added:
  assumes "zcopy_start bd rc r q = (ex, q')"
  shows "added (bdev_io_ok bd) q q'"
proof (cases "rw_check bd (ir_cmd r) (ir_length r)")
  case (Some st)
  with assms show ?thesis by (auto simp: zcopy_start_def intro: added_refl)
next
  case None
  obtain l n where p: "get_rw_params (ir_cmd r) = (l, n)" by (metis surj_pair)
  note ok = rw_check_None [OF None p]
  show ?thesis
    by (rule submit_added [of _ "BdevZcopyStart l n (nc_opc (ir_cmd r) = IO_READ)" "ZcopyStartComplete r"
          rc "[WaitIo r]" "generic_status SC_INTERNAL_ERROR" q ex])
      (use assms None p ok in \<open>auto simp: zcopy_start_def\<close>)
qed

lemma unmap_loop_added:
  "unmap_loop rc rgs um q = (w, um1, q1) \<Longrightarrow> added (bdev_io_ok bd) q q1"
proof (induction rgs arbitrary: um q)
  case Nil
  then show ?case by (auto intro: added_refl)
next
  case (Cons rg rgs)
  let ?b = "\<lparr>bi_op = BdevUnmap (fst rg) (ucast (snd rg)), bi_cb = UnmapCpl (ir_addr (um_req um))\<rparr>"
  show ?case
  proof (cases "rc (um_range_index um) = 0")
    case True
    have "added (bdev_io_ok bd) q (q\<lparr>iq_inflight := iq_inflight q @ [?b]\<rparr>)" by (rule added_one [where b = ?b]) simp_all
    with True Cons show ?thesis by (auto simp: Let_def intro: added_trans)
  next
    case False
    with Cons.prems show ?thesis
      by (auto simp: Let_def queue_io_def split: if_splits intro: added_refl)
  qed
qed

lemma unmap_cmd_added: "unmap_cmd mem rc r q = Inr (ex, q') \<Longrightarrow> added (bdev_io_ok bd) q q'"
  by (auto simp: unmap_cmd_def unmap_submit_def put_unmap_def free_unmap_def Let_def
      split: if_splits prod.splits intro: added_refl dest!: unmap_loop_added [of _ _ _ _ _ _ _ bd]
      simp: added_def)

lemma dispatch_added: "dispatch_io env bd r q = Inr (ex, q') \<Longrightarrow> added (bdev_io_ok bd) q q'"
  unfolding dispatch_io_def read_cmd_def write_cmd_def compare_cmd_def dsm_cmd_def Let_def
  by (auto split: if_splits intro: added_refl zcopy_start_added write_zeroes_added flush_added copy_added
      passthru_added unmap_cmd_added elim: rw_cmd_added)

lemma fused_added:
  assumes "process_io_fused_cmd bd rc r q = (ex, q')"
  shows "added (bdev_io_ok bd) q q'"
proof (cases "\<exists>f. iq_first_fused q = Some f \<and> nc_fuse (ir_cmd r) = FUSE_SECOND \<and> nc_opc (ir_cmd r) = IO_WRITE")
  case True
  then obtain f where f: "iq_first_fused q = Some f" "nc_fuse (ir_cmd r) = FUSE_SECOND" "nc_opc (ir_cmd r) = IO_WRITE"
    by blast
  obtain ex1 q1 where c: "compare_and_write_cmd bd rc f r
      (q\<lparr>iq_first_fused := None, iq_first_of := (iq_first_of q)(ir_addr r := Some f)\<rparr>) = (ex1, q1)"
    by (metis surj_pair)
  have "iq_inflight q' = iq_inflight q1"
    using assms f c by (auto simp: process_io_fused_cmd_def split: exec_status.splits if_splits)
  with compare_and_write_added [OF c] show ?thesis by (auto simp: added_def)
next
  case False
  with assms show ?thesis
    by (auto simp: process_io_fused_cmd_def Let_def split: option.splits if_splits intro: added_refl)
qed

text \<open>C30. What a command hands to the block device: the blocks of Read, Write, Compare, a fused Compare and
  Write, Write Zeroes and the start of a zero-copy I/O lie inside the device, and for those of them that move data
  the buffer of the request (of the write command of a fused pair) is at least as long as the
  blocks; Flush names the whole device. A command that is not admitted hands over nothing. Nothing is said
  here of the blocks of Dataset Management and Copy and of commands that are passed through, which are left to the block
  device to check, nor of the buffer that a fused Compare reads, which nobody checks
  (\<open>fused_compare_unchecked\<close>).\<close>

theorem io_submissions_in_range:
  assumes "process_io_cmd env r q = Inr (ex, q')"
  shows "(\<exists>bd new. io_admission env (ir_cmd r) = Inr (Inr bd) \<and> iq_inflight q' = iq_inflight q @ new \<and>
            list_all (bdev_io_ok bd) new) \<or>
         (\<exists>st. io_admission env (ir_cmd r) = Inr (Inl st) \<and> ex = EXEC_COMPLETE st \<and> q' = q)"
proof -
  from assms obtain adm where adm: "io_admission env (ir_cmd r) = Inr adm"
    by (auto simp: process_io_cmd_def bindR_eq_Inr)
  show ?thesis
  proof (cases adm)
    case (Inl st)
    with adm assms show ?thesis by (simp add: process_io_cmd_def)
  next
    case (Inr bd)
    have "added (bdev_io_ok bd) q q'"
    proof (cases "nc_fuse (ir_cmd r) AND FUSE_MASK = 0")
      case True
      let ?q = "case iq_first_fused q of Some f \<Rightarrow> (abort_first_fused f q)\<lparr>iq_first_fused := None\<rparr> | None \<Rightarrow> q"
      from True assms adm Inr have "dispatch_io env bd r ?q = Inr (ex, q')" by (simp add: process_io_cmd_def)
      then have "added (bdev_io_ok bd) ?q q'" by (rule dispatch_added)
      moreover have "iq_inflight ?q = iq_inflight q" by (simp split: option.split)
      ultimately show ?thesis by (simp add: added_def)
    next
      case False
      with assms adm Inr show ?thesis by (auto simp: process_io_cmd_def intro: fused_added)
    qed
    with adm Inr show ?thesis by (auto simp: added_def)
  qed
qed

lemma mset_remove_nth: "n < length xs \<Longrightarrow> mset xs = add_mset (xs ! n) (mset (remove_nth n xs))"
proof -
  assume "n < length xs"
  then have "xs = take n xs @ xs ! n # drop (Suc n) xs" by (rule id_take_nth_drop)
  then have "mset xs = mset (take n xs @ xs ! n # drop (Suc n) xs)" by simp
  then show ?thesis by (simp add: remove_nth_def)
qed

lemma mset_concat_remove_nth:
  "n < length xs \<Longrightarrow> mset (concat (map f xs)) = mset (f (xs ! n)) + mset (concat (map f (remove_nth n xs)))"
  by (subst id_take_nth_drop [of n xs], simp) (simp add: remove_nth_def)

section \<open>Contexts of Dataset Management\<close>

abbreviation um_addr :: "unmap_ctx \<Rightarrow> addr" where "um_addr um \<equiv> ir_addr (um_req um)"

definition cb_unmaps :: "bdev_cb \<Rightarrow> addr list" where
  "cb_unmaps cb = (case cb of UnmapCpl a \<Rightarrow> [a] | _ \<Rightarrow> [])"

definition wait_unmaps :: "io_wait \<Rightarrow> addr list" where
  "wait_unmaps w = (case w of WaitUnmap a \<Rightarrow> [a] | _ \<Rightarrow> [])"

lemma cb_unmaps_simps [simp]:
  "cb_unmaps (UnmapCpl a) = [a]" "cb_unmaps (CompleteCmd r f) = []"
  "cb_unmaps (ZcopyStartComplete r) = []" "cb_unmaps (ZcopyEndComplete r) = []"
  by (simp_all add: cb_unmaps_def)

lemma wait_unmaps_simps [simp]: "wait_unmaps (WaitUnmap a) = [a]" "wait_unmaps (WaitIo r) = []"
  by (simp_all add: wait_unmaps_def)

lemma cb_requests_simps [simp]:
  "cb_requests (UnmapCpl a) = []"
  "cb_requests (CompleteCmd r f) = ir_addr r # (case f of Some g \<Rightarrow> [ir_addr g] | None \<Rightarrow> [])"
  "cb_requests (ZcopyStartComplete r) = [ir_addr r]" "cb_requests (ZcopyEndComplete r) = [ir_addr r]"
  by (simp_all add: cb_requests_def)

lemma wait_requests_simps [simp]: "wait_requests (WaitUnmap a) = []" "wait_requests (WaitIo r) = [ir_addr r]"
  by (simp_all add: wait_requests_def)

definition unmap_cbs :: "io_qpair \<Rightarrow> addr multiset" where
  "unmap_cbs q = mset (concat (map (\<lambda>b. cb_unmaps (bi_cb b)) (iq_inflight q)))"

definition unmap_waits :: "io_qpair \<Rightarrow> addr multiset" where
  "unmap_waits q = mset (concat (map wait_unmaps (iq_waiting q)))"

text \<open>A context is good for a number of ranges in the block device and of entries that wait.\<close>

definition um_good :: "unmap_ctx \<Rightarrow> nat \<Rightarrow> nat \<Rightarrow> bool" where
  "um_good um n w \<longleftrightarrow> um_count um = of_nat (n + w) \<and> w \<le> 1 \<and> n \<le> um_range_index um \<and>
     um_range_index um \<le> num_ranges (ir_cmd (um_req um)) \<and>
     (w = 1 \<longrightarrow> um_range_index um < num_ranges (ir_cmd (um_req um))) \<and>
     num_ranges (ir_cmd (um_req um)) \<le> length (ir_ranges (um_req um))"

definition unmaps_ok :: "unmap_ctx list \<Rightarrow> addr multiset \<Rightarrow> addr multiset \<Rightarrow> bool" where
  "unmaps_ok us cbs ws \<longleftrightarrow> distinct (map um_addr us) \<and> set_mset (cbs + ws) = um_addr ` set us \<and>
     (\<forall>um\<in>set us. um_good um (count cbs (um_addr um)) (count ws (um_addr um)))"

definition io_inv :: "io_qpair \<Rightarrow> bool" where
  "io_inv q \<longleftrightarrow> unmaps_ok (iq_unmaps q) (unmap_cbs q) (unmap_waits q)"

definition ledger :: "io_qpair \<Rightarrow> addr multiset" where
  "ledger q = mset (map fst (iq_sent q)) + mset (held q)"

lemma num_ranges_bound: "num_ranges cmd \<le> 256"
proof -
  have "nc_cdw10 cmd AND 0xFF \<le> 0xFF" by (rule word_and_le1)
  then show ?thesis by (simp add: num_ranges_def word_le_nat_alt)
qed

lemma um_good_count:
  assumes "um_good um n w" and "k \<le> 257"
  shows "um_count um = of_nat k \<longleftrightarrow> n + w = k"
proof -
  have "n + w \<le> 257" using assms(1) num_ranges_bound [of "ir_cmd (um_req um)"] by (auto simp: um_good_def)
  then have "(of_nat (n + w) :: u32) = of_nat k \<longleftrightarrow> n + w = k"
    using assms(2) by (intro word_of_nat_inject) simp_all
  then show ?thesis using assms(1) by (simp add: um_good_def)
qed

section \<open>Commands that do not wait for others\<close>

text \<open>What a command does to the books: finished at once, it leaves them as they are; otherwise
  the request is held.\<close>

definition booked :: "io_request \<Rightarrow> io_qpair \<Rightarrow> exec_status \<Rightarrow> io_qpair \<Rightarrow> bool" where
  "booked r q ex q' \<longleftrightarrow> iq_received q' = iq_received q \<and>
     ledger q' = (case ex of EXEC_COMPLETE _ \<Rightarrow> ledger q | EXEC_ASYNCHRONOUS \<Rightarrow> add_mset (ir_addr r) (ledger q))"

definition same_unmaps :: "io_qpair \<Rightarrow> io_qpair \<Rightarrow> bool" where
  "same_unmaps q q' \<longleftrightarrow> iq_unmaps q' = iq_unmaps q \<and> unmap_cbs q' = unmap_cbs q \<and> unmap_waits q' = unmap_waits q"

lemma same_unmaps_inv: "same_unmaps q q' \<Longrightarrow> io_inv q \<Longrightarrow> io_inv q'"
  by (simp add: same_unmaps_def io_inv_def)

lemma same_unmaps_refl [simp]: "same_unmaps q q"
  by (simp add: same_unmaps_def)

lemma same_unmaps_trans: "same_unmaps q q1 \<Longrightarrow> same_unmaps q1 q2 \<Longrightarrow> same_unmaps q q2"
  by (simp add: same_unmaps_def)

lemmas book_defs = booked_def same_unmaps_def ledger_def held_def unmap_cbs_def unmap_waits_def send_cpl_def
  queue_io_def

lemma submit_booked:
  assumes "submit rc op cb ws err q = (ex, q')" and "cb_requests cb = ir_addr r # as"
    and "mset (concat (map wait_requests ws)) = mset (ir_addr r # as)" and "length ws = length (ir_addr r # as)"
    and "cb_unmaps cb = []" and "ws \<in> {[WaitIo x], [WaitIo x, WaitIo y]}"
  shows "same_unmaps q q'" and "iq_received q' = iq_received q"
    and "ledger q' = (case ex of EXEC_COMPLETE _ \<Rightarrow> ledger q | EXEC_ASYNCHRONOUS \<Rightarrow> mset (ir_addr r # as) + ledger q)"
  using assms by (auto simp: submit_def book_defs split: if_splits)

lemma submit_one:
  assumes "submit rc op cb [WaitIo r] err q = (ex, q')" and "cb_requests cb = [ir_addr r]" and "cb_unmaps cb = []"
  shows "same_unmaps q q' \<and> booked r q ex q'"
  using submit_booked [of rc op cb "[WaitIo r]" err q ex q' r "[]" r r] assms
  by (auto simp: booked_def split: exec_status.splits)

lemma submit_cmd_booked: "submit_cmd rc op r q = (ex, q') \<Longrightarrow> same_unmaps q q' \<and> booked r q ex q'"
  unfolding submit_cmd_def by (erule submit_one) simp_all

lemma refused_booked: "same_unmaps q q \<and> booked r q (EXEC_COMPLETE st) q"
  by (simp add: same_unmaps_def booked_def)

lemma rw_cmd_booked: "rw_cmd op bd rc r q = (ex, q') \<Longrightarrow> same_unmaps q q' \<and> booked r q ex q'"
  by (auto simp: rw_cmd_def refused_booked split: option.splits prod.splits dest: submit_cmd_booked)

lemma simple_cmds_booked:
  "write_zeroes_cmd bd rc r q = (ex, q') \<Longrightarrow> same_unmaps q q' \<and> booked r q ex q'"
  "flush_cmd bd rc r q = (ex, q') \<Longrightarrow> same_unmaps q q' \<and> booked r q ex q'"
  "copy_cmd bd rc r q = (ex, q') \<Longrightarrow> same_unmaps q q' \<and> booked r q ex q'"
  "passthru_io rc r q = (ex, q') \<Longrightarrow> same_unmaps q q' \<and> booked r q ex q'"
  "zcopy_start bd rc r q = (ex, q') \<Longrightarrow> same_unmaps q q' \<and> booked r q ex q'"
  by (auto simp: write_zeroes_cmd_def flush_cmd_def copy_cmd_def passthru_io_def zcopy_start_def Let_def refused_booked
      split: option.splits prod.splits if_splits dest: submit_cmd_booked submit_one)

lemma sent_booked: "ledger (send_cpl a c st q) = add_mset a (ledger q)"
  by (simp add: ledger_def held_def send_cpl_def)

lemma received_send [simp]: "iq_received (send_cpl a c st q) = iq_received q"
  by (simp add: send_cpl_def)

lemma same_unmaps_send [simp]: "same_unmaps q (send_cpl a c st q)"
  by (simp add: book_defs)

section \<open>Fused commands\<close>

lemma rw_check_error: "rw_check bd cmd len = Some st \<Longrightarrow> cpl_is_error st"
  by (auto simp: rw_check_def cpl_is_error_def split: prod.splits if_splits)

lemma compare_and_write_booked:
  assumes "compare_and_write_cmd bd rc f r q = (ex, q')"
  shows "same_unmaps q q' \<and> iq_received q' = iq_received q \<and>
    (case ex of EXEC_COMPLETE st \<Rightarrow> cpl_is_error st \<and> ledger q' = ledger q
     | EXEC_ASYNCHRONOUS \<Rightarrow> ledger q' = {#ir_addr r, ir_addr f#} + ledger q)"
proof -
  have sub: "same_unmaps q q' \<and> iq_received q' = iq_received q \<and>
    (case ex of EXEC_COMPLETE st \<Rightarrow> cpl_is_error st \<and> ledger q' = ledger q
     | EXEC_ASYNCHRONOUS \<Rightarrow> ledger q' = {#ir_addr r, ir_addr f#} + ledger q)"
    if "submit rc (BdevComparevAndWritev f l n) (CompleteCmd r (Some f)) [WaitIo f, WaitIo r]
      (generic_status SC_INTERNAL_ERROR) q = (ex, q')" for l n
  proof -
    have "cpl_is_error st" if "ex = EXEC_COMPLETE st" for st
      using \<open>submit _ _ _ _ _ _ = _\<close> that by (auto simp: submit_def cpl_is_error_def split: if_splits)
    moreover note submit_booked [OF that, of r "[ir_addr f]" f r]
    ultimately show ?thesis by (auto split: exec_status.splits)
  qed
  show ?thesis
    using assms by (auto simp: compare_and_write_cmd_def same_unmaps_def cpl_is_error_def
        split: prod.splits option.splits if_splits dest: rw_check_error dest!: sub)
qed

lemma first_fused_split:
  "iq_first_fused q = Some f \<Longrightarrow> ledger q = add_mset (ir_addr f) (ledger (q\<lparr>iq_first_fused := None\<rparr>))"
  by (simp add: ledger_def held_def)

lemma first_fused_unmaps [simp]: "same_unmaps q (q\<lparr>iq_first_fused := f\<rparr>)"
  by (simp add: book_defs)

lemma first_of_books [simp]:
  "ledger (q\<lparr>iq_first_of := m\<rparr>) = ledger q" "same_unmaps q1 (q\<lparr>iq_first_of := m\<rparr>) = same_unmaps q1 q"
  "iq_received (q\<lparr>iq_first_of := m\<rparr>) = iq_received q"
  by (simp_all add: book_defs)

lemma abort_first_booked:
  assumes "iq_first_fused q = Some f"
  shows "same_unmaps q ((abort_first_fused f q)\<lparr>iq_first_fused := None\<rparr>)"
    and "ledger ((abort_first_fused f q)\<lparr>iq_first_fused := None\<rparr>) = ledger q"
    and "iq_received ((abort_first_fused f q)\<lparr>iq_first_fused := None\<rparr>) = iq_received q"
  using assms by (simp_all add: book_defs abort_first_fused_def)

lemma hold_first_booked:
  "iq_first_fused q = None \<Longrightarrow> ledger (q\<lparr>iq_first_fused := Some r\<rparr>) = add_mset (ir_addr r) (ledger q)"
  by (simp add: ledger_def held_def)

lemma replace_first_booked:
  assumes "iq_first_fused q = Some f"
  shows "same_unmaps q ((abort_first_fused f q)\<lparr>iq_first_fused := Some r\<rparr>)"
    and "booked r q EXEC_ASYNCHRONOUS ((abort_first_fused f q)\<lparr>iq_first_fused := Some r\<rparr>)"
  using assms by (simp_all add: book_defs abort_first_fused_def)

lemma fused_booked:
  assumes "process_io_fused_cmd bd rc r q = (ex, q')"
  shows "same_unmaps q q' \<and> booked r q ex q'"
proof (cases "\<exists>f. iq_first_fused q = Some f \<and> nc_fuse (ir_cmd r) = FUSE_SECOND \<and> nc_opc (ir_cmd r) = IO_WRITE")
  case True
  then obtain f where f: "iq_first_fused q = Some f" "nc_fuse (ir_cmd r) = FUSE_SECOND" "nc_opc (ir_cmd r) = IO_WRITE"
    by blast
  let ?q = "q\<lparr>iq_first_fused := None, iq_first_of := (iq_first_of q)(ir_addr r := Some f)\<rparr>"
  obtain ex1 q1 where c: "compare_and_write_cmd bd rc f r ?q = (ex1, q1)" by (metis surj_pair)
  note b = compare_and_write_booked [OF c]
  have "same_unmaps q ?q" by simp
  with b have u: "same_unmaps q q1" using same_unmaps_trans by blast
  show ?thesis
  proof (cases ex1)
    case (EXEC_COMPLETE st)
    with b have "cpl_is_error st" by simp
    with assms f c EXEC_COMPLETE have
      q': "ex = EXEC_COMPLETE (st\<lparr>st_sct := 0, st_sc := SC_ABORTED_FAILED_FUSED\<rparr>)" "q' = (send_cpl (ir_addr f) 0 st q1)\<lparr>iq_first_of := (iq_first_of q1)(ir_addr r := None)\<rparr>"
      by (auto simp: process_io_fused_cmd_def)
    have "ledger q' = ledger q" using b EXEC_COMPLETE first_fused_split [OF f(1)] by (simp add: q'(2) sent_booked)
    moreover have "same_unmaps q q'" using same_unmaps_trans [OF u same_unmaps_send] by (simp add: q'(2))
    moreover have "iq_received q' = iq_received q" using b by (simp add: q'(2) send_cpl_def)
    ultimately show ?thesis by (simp add: booked_def q'(1))
  next
    case EXEC_ASYNCHRONOUS
    with assms f c have "ex = EXEC_ASYNCHRONOUS" "q' = q1" by (auto simp: process_io_fused_cmd_def)
    with b EXEC_ASYNCHRONOUS first_fused_split [OF f(1)] u show ?thesis by (simp add: booked_def)
  qed
next
  case False
  with assms show ?thesis
    by (auto simp: process_io_fused_cmd_def Let_def refused_booked booked_def hold_first_booked
        abort_first_booked replace_first_booked split: option.splits if_splits)
      (auto simp: book_defs abort_first_fused_def)
qed

section \<open>The ranges of Dataset Management\<close>

lemma unmap_loop_result:
  "unmap_loop rc rgs um q = (w, um1, q1) \<Longrightarrow>
   \<exists>k \<le> length rgs. (w \<longrightarrow> k < length rgs) \<and> um_req um1 = um_req um \<and>
     um_range_index um1 = um_range_index um + k \<and>
     um_count um1 = um_count um + of_nat (k + (if w then 1 else 0)) \<and>
     unmap_cbs q1 = unmap_cbs q + replicate_mset k (um_addr um) \<and>
     unmap_waits q1 = unmap_waits q + (if w then {#um_addr um#} else {#}) \<and>
     iq_unmaps q1 = iq_unmaps q \<and> ledger q1 = ledger q \<and> iq_received q1 = iq_received q \<and>
     (k = 0 \<and> \<not> w \<longrightarrow> rgs = [] \<or> rc (um_range_index um) \<notin> {0, ENOMEM_RC})"
proof (induction rgs arbitrary: um q)
  case Nil
  then show ?case by simp
next
  case (Cons rg rgs)
  show ?case
  proof (cases "rc (um_range_index um) = 0")
    case True
    let ?um = "um\<lparr>um_count := um_count um + 1, um_range_index := um_range_index um + 1\<rparr>"
    let ?q = "q\<lparr>iq_inflight := iq_inflight q @
      [\<lparr>bi_op = BdevUnmap (fst rg) (ucast (snd rg)), bi_cb = UnmapCpl (um_addr um)\<rparr>]\<rparr>"
    have q: "unmap_cbs ?q = add_mset (um_addr um) (unmap_cbs q)" "unmap_waits ?q = unmap_waits q"
      "ledger ?q = ledger q" by (simp_all add: book_defs)
    from Cons.prems True have "unmap_loop rc rgs ?um ?q = (w, um1, q1)" by (simp add: Let_def)
    from Cons.IH [OF this] obtain k where k: "k \<le> length rgs" "w \<longrightarrow> k < length rgs" "um_req um1 = um_req um"
      "um_range_index um1 = um_range_index um + 1 + k"
      "um_count um1 = um_count um + 1 + of_nat (k + (if w then 1 else 0))"
      "unmap_cbs q1 = add_mset (um_addr um) (unmap_cbs q) + replicate_mset k (um_addr um)"
      "unmap_waits q1 = unmap_waits q + (if w then {#um_addr um#} else {#})"
      "iq_unmaps q1 = iq_unmaps q" "ledger q1 = ledger q" "iq_received q1 = iq_received q"
      unfolding q by (auto split: if_splits)
    show ?thesis by (rule exI [of _ "Suc k"]) (use k in \<open>simp add: algebra_simps\<close>)
  next
    case False
    with Cons.prems show ?thesis by (intro exI [of _ 0]) (auto simp: Let_def book_defs split: if_splits)
  qed
qed

lemma put_unmap_books:
  assumes "um \<in> set us" and "distinct (map um_addr us)" and "iq_unmaps q = us" and "um_req um1 = um_req um"
  shows "ledger (put_unmap um1 q) = ledger q" and "map um_addr (iq_unmaps (put_unmap um1 q)) = map um_addr us"
    and "set (iq_unmaps (put_unmap um1 q)) = insert um1 (set us - {um})"
    and "unmap_cbs (put_unmap um1 q) = unmap_cbs q" and "unmap_waits (put_unmap um1 q) = unmap_waits q"
    and "iq_received (put_unmap um1 q) = iq_received q" and "iq_sent (put_unmap um1 q) = iq_sent q"
proof -
  have m: "map um_addr (iq_unmaps (put_unmap um1 q)) = map um_addr us"
    using assms by (auto simp: put_unmap_def update_by_def)
  then show "map um_addr (iq_unmaps (put_unmap um1 q)) = map um_addr us" .
  have l: "map (\<lambda>u. um_addr u) (iq_unmaps (put_unmap um1 q)) = map um_addr (iq_unmaps q)" using m assms(3) by simp
  show "ledger (put_unmap um1 q) = ledger q"
    using l by (simp add: ledger_def held_def put_unmap_def)
  show "set (iq_unmaps (put_unmap um1 q)) = insert um1 (set us - {um})"
    using assms by (auto simp: put_unmap_def update_by_def inj_on_def distinct_map)
qed (simp_all add: book_defs put_unmap_def)

lemma free_unmap_books:
  assumes "um \<in> set (iq_unmaps q)" and "distinct (map um_addr (iq_unmaps q))"
  shows "ledger q = add_mset (um_addr um) (ledger (free_unmap (um_addr um) q))"
    and "set (iq_unmaps (free_unmap (um_addr um) q)) = set (iq_unmaps q) - {um}"
    and "distinct (map um_addr (iq_unmaps (free_unmap (um_addr um) q)))"
    and "unmap_cbs (free_unmap (um_addr um) q) = unmap_cbs q" and "unmap_waits (free_unmap (um_addr um) q) = unmap_waits q"
    and "iq_received (free_unmap (um_addr um) q) = iq_received q"
proof -
  from assms(1) obtain us vs where s: "iq_unmaps q = us @ um # vs" by (meson split_list)
  have r: "remove_by um_addr (um_addr um) (iq_unmaps q) = us @ vs"
    using assms(2) unfolding s remove_by_def
    by (simp, subst (1 2) filter_True) (auto simp: image_iff)
  show "ledger q = add_mset (um_addr um) (ledger (free_unmap (um_addr um) q))"
    using r s by (simp add: ledger_def held_def free_unmap_def)
  show "set (iq_unmaps (free_unmap (um_addr um) q)) = set (iq_unmaps q) - {um}"
    using r s assms(2) by (auto simp: free_unmap_def)
  show "distinct (map um_addr (iq_unmaps (free_unmap (um_addr um) q)))"
    using r s assms(2) by (auto simp: free_unmap_def)
qed (simp_all add: book_defs free_unmap_def)

lemma io_invD:
  assumes "io_inv q"
  shows "distinct (map um_addr (iq_unmaps q))" and "set_mset (unmap_cbs q + unmap_waits q) = um_addr ` set (iq_unmaps q)"
    and "um \<in> set (iq_unmaps q) \<Longrightarrow> um_good um (count (unmap_cbs q) (um_addr um)) (count (unmap_waits q) (um_addr um))"
  using assms by (auto simp: io_inv_def unmaps_ok_def)

text \<open>When one context is replaced, or freed because nothing refers to it any more.\<close>

lemma io_inv_put:
  assumes d: "distinct (map um_addr (iq_unmaps q))" and m: "um \<in> set (iq_unmaps q)" and r: "um_req um1 = um_req um"
    and s: "set_mset (unmap_cbs q + unmap_waits q) = um_addr ` set (iq_unmaps q)"
    and g: "um_good um1 (count (unmap_cbs q) (um_addr um)) (count (unmap_waits q) (um_addr um))"
    and others: "\<And>v. v \<in> set (iq_unmaps q) \<Longrightarrow> v \<noteq> um \<Longrightarrow>
      um_good v (count (unmap_cbs q) (um_addr v)) (count (unmap_waits q) (um_addr v))"
  shows "io_inv (put_unmap um1 q)"
proof -
  note put = put_unmap_books [OF m d refl r]
  have "distinct (map um_addr (iq_unmaps (put_unmap um1 q)))" using d put(2) by simp
  moreover have "um_addr ` set (iq_unmaps (put_unmap um1 q)) = um_addr ` set (iq_unmaps q)"
    using put(2) by (metis list.set_map)
  moreover have "\<forall>v\<in>set (iq_unmaps (put_unmap um1 q)).
      um_good v (count (unmap_cbs q) (um_addr v)) (count (unmap_waits q) (um_addr v))"
    unfolding put(3) using g others r by auto
  ultimately show ?thesis using s by (simp add: io_inv_def unmaps_ok_def put(4,5))
qed

lemma io_inv_free:
  assumes d: "distinct (map um_addr (iq_unmaps q))" and m: "um \<in> set (iq_unmaps q)" and a: "um_addr um = a"
    and s: "insert a (set_mset (unmap_cbs q + unmap_waits q)) = um_addr ` set (iq_unmaps q)"
    and z: "count (unmap_cbs q) a = 0" "count (unmap_waits q) a = 0"
    and others: "\<And>v. v \<in> set (iq_unmaps q) \<Longrightarrow> v \<noteq> um \<Longrightarrow>
      um_good v (count (unmap_cbs q) (um_addr v)) (count (unmap_waits q) (um_addr v))"
  shows "io_inv (free_unmap a q)"
proof -
  note free = free_unmap_books [OF m d, unfolded a]
  have "um_addr ` (set (iq_unmaps q) - {um}) = um_addr ` set (iq_unmaps q) - {a}"
    using d m a by (auto simp: distinct_map inj_on_def)
  moreover have "a \<notin># unmap_cbs q + unmap_waits q" using z by (simp add: not_in_iff)
  ultimately have "set_mset (unmap_cbs q + unmap_waits q) = um_addr ` set (iq_unmaps (free_unmap a q))"
    unfolding free(2) using s by auto
  then show ?thesis using free others by (auto simp: io_inv_def unmaps_ok_def)
qed

lemma unmap_submit_ok:
  assumes s: "unmap_submit rc um q = (ex, q')" and d: "distinct (map um_addr (iq_unmaps q))"
    and u0: "u0 \<in> set (iq_unmaps q)" and req: "um_req um = um_req u0"
    and addrs: "insert (um_addr um) (set_mset (unmap_cbs q + unmap_waits q)) = um_addr ` set (iq_unmaps q)"
    and others: "\<And>v. v \<in> set (iq_unmaps q) \<Longrightarrow> v \<noteq> u0 \<Longrightarrow>
      um_good v (count (unmap_cbs q) (um_addr v)) (count (unmap_waits q) (um_addr v))"
    and c: "um_count um = of_nat (count (unmap_cbs q) (um_addr um))" and w0: "count (unmap_waits q) (um_addr um) = 0"
    and i: "count (unmap_cbs q) (um_addr um) \<le> um_range_index um" "um_range_index um \<le> num_ranges (ir_cmd (um_req um))"
      "num_ranges (ir_cmd (um_req um)) \<le> length (ir_ranges (um_req um))"
  shows "io_inv q' \<and> iq_received q' = iq_received q \<and>
    (case ex of EXEC_ASYNCHRONOUS \<Rightarrow> ledger q' = ledger q
     | EXEC_COMPLETE st \<Rightarrow> ledger q = add_mset (um_addr um) (ledger q') \<and> count (unmap_cbs q) (um_addr um) = 0 \<and>
         (um_range_index um = num_ranges (ir_cmd (um_req um)) \<or> rc (um_range_index um) \<notin> {0, ENOMEM_RC}))"
proof -
  let ?a = "um_addr um" and ?nr = "num_ranges (ir_cmd (um_req um))"
  let ?rgs = "drop (um_range_index um) (take ?nr (ir_ranges (um_req um)))"
  let ?c = "count (unmap_cbs q) ?a"
  have len: "length ?rgs = ?nr - um_range_index um" using i by simp
  obtain w um1 q1 where loop: "unmap_loop rc ?rgs um q = (w, um1, q1)" by (metis surj_pair)
  from unmap_loop_result [OF this] obtain k where k: "k \<le> length ?rgs" "w \<longrightarrow> k < length ?rgs" "um_req um1 = um_req um"
    "um_range_index um1 = um_range_index um + k" "um_count um1 = um_count um + of_nat (k + (if w then 1 else 0))"
    "unmap_cbs q1 = unmap_cbs q + replicate_mset k ?a" "unmap_waits q1 = unmap_waits q + (if w then {#?a#} else {#})"
    "iq_unmaps q1 = iq_unmaps q" "ledger q1 = ledger q" "iq_received q1 = iq_received q"
    and stop: "k = 0 \<and> \<not> w \<longrightarrow> ?rgs = [] \<or> rc (um_range_index um) \<notin> {0, ENOMEM_RC}" by blast
  have req1: "um_req um1 = um_req u0" and d1: "distinct (map um_addr (iq_unmaps q1))" and u1: "u0 \<in> set (iq_unmaps q1)"
    using k(3,8) req d u0 by simp_all
  note put = put_unmap_books [OF u1 d1 refl req1]
  have good1: "um_good um1 (?c + k) (if w then 1 else 0)"
    using k i len by (auto simp: um_good_def c split: if_splits)
  have zero: "um_count um1 = 0 \<longleftrightarrow> ?c + k + (if w then 1 else 0) = 0"
    using um_good_count [OF good1, of 0] by simp
  have cnt: "count (unmap_cbs q1) b = count (unmap_cbs q) b + (if b = ?a then k else 0)"
      "count (unmap_waits q1) b = count (unmap_waits q) b + (if w \<and> b = ?a then 1 else 0)" for b
    using k(6,7) by auto
  have others1: "um_good v (count (unmap_cbs q1) (um_addr v)) (count (unmap_waits q1) (um_addr v))"
    if "v \<in> set (iq_unmaps q1)" "v \<noteq> u0" for v
  proof -
    have "um_addr v \<noteq> ?a" using that d1 u1 req by (auto simp: distinct_map inj_on_def)
    with others [of v] that k(8) show ?thesis by (simp add: cnt)
  qed
  have addrs1: "insert ?a (set_mset (unmap_cbs q1 + unmap_waits q1)) = um_addr ` set (iq_unmaps q1)"
    using addrs k(1,2,6,7,8) by (auto split: if_splits)
  have put_inv: "io_inv (put_unmap um1 q1)" if "?c + k + (if w then 1 else 0) \<noteq> 0"
  proof (rule io_inv_put [OF d1 u1 req1 _ _ others1])
    have "0 < count (unmap_cbs q1 + unmap_waits q1) ?a" using that by (auto simp: cnt split: if_splits)
    then have "?a \<in># unmap_cbs q1 + unmap_waits q1" by (simp only: count_greater_zero_iff)
    then show "set_mset (unmap_cbs q1 + unmap_waits q1) = um_addr ` set (iq_unmaps q1)"
      unfolding addrs1 [symmetric] by (rule insert_absorb [symmetric])
    show "um_good um1 (count (unmap_cbs q1) (um_addr u0)) (count (unmap_waits q1) (um_addr u0))"
      using good1 w0 by (simp add: cnt flip: req)
  qed
  show ?thesis
  proof (cases "?c + k + (if w then 1 else 0) = 0")
    case False
    with zero have "w \<or> um_count um1 \<noteq> 0" by blast
    with loop s have "ex = EXEC_ASYNCHRONOUS" "q' = put_unmap um1 q1"
      by (simp_all add: unmap_submit_def Let_def split: if_splits)
    then show ?thesis using put_inv [OF False] put k(9,10) by simp
  next
    case True
    then have nw: "\<not> w" "k = 0" "?c = 0" by (auto split: if_splits)
    with loop zero s True have e: "ex = EXEC_COMPLETE (um_status um1)" "q' = free_unmap ?a (put_unmap um1 q1)"
      by (auto simp: unmap_submit_def Let_def)
    let ?q2 = "put_unmap um1 q1"
    have d2: "distinct (map um_addr (iq_unmaps ?q2))" and m: "um1 \<in> set (iq_unmaps ?q2)" and a1: "um_addr um1 = ?a"
      using put(2,3) d1 k(3) by simp_all
    have "um_addr ` set (iq_unmaps ?q2) = um_addr ` set (iq_unmaps q1)" using put(2) by (metis list.set_map)
    then have s2: "insert ?a (set_mset (unmap_cbs ?q2 + unmap_waits ?q2)) = um_addr ` set (iq_unmaps ?q2)"
      using addrs1 put(4,5) by simp
    have "io_inv q'"
      unfolding e(2)
    proof (rule io_inv_free [OF d2 m a1 s2])
      show "um_good v (count (unmap_cbs ?q2) (um_addr v)) (count (unmap_waits ?q2) (um_addr v))"
        if "v \<in> set (iq_unmaps ?q2)" "v \<noteq> um1" for v
        using others1 [of v] that put(3-5) by auto
    qed (use nw w0 put(4,5) in \<open>simp_all add: cnt\<close>)
    moreover note free_unmap_books(1,6) [OF m d2, unfolded a1]
    ultimately show ?thesis using e stop nw len put(1,6) k(4,9,10) i by auto
  qed
qed

lemma unmap_cmd_booked:
  assumes inv: "io_inv q" and fresh: "ir_addr r \<notin> um_addr ` set (iq_unmaps q)"
    and c: "unmap_cmd mem rc r q = Inr (ex, q')"
  shows "io_inv q' \<and> booked r q ex q'"
proof (cases "num_ranges (ir_cmd r) * SIZEOF_DSM_RANGE > unat (ir_length r) \<or> \<not> mem")
  case True
  with c inv show ?thesis by (auto simp: unmap_cmd_def Let_def refused_booked split: if_splits)
next
  case False
  let ?um = "\<lparr>um_req = r, um_count = 0, um_range_index = 0, um_status = st_success, um_cdw0 = 0\<rparr>"
  let ?q = "q\<lparr>iq_unmaps := iq_unmaps q @ [?um]\<rparr>"
  from False c have s: "unmap_submit rc ?um ?q = (ex, q')" and l: "num_ranges (ir_cmd r) \<le> length (ir_ranges r)"
    by (auto simp: unmap_cmd_def Let_def split: if_splits)
  have same: "unmap_cbs ?q = unmap_cbs q" "unmap_waits ?q = unmap_waits q"
    "ledger ?q = add_mset (ir_addr r) (ledger q)" by (simp_all add: book_defs)
  have n: "ir_addr r \<notin># unmap_cbs q" "ir_addr r \<notin># unmap_waits q"
    using io_invD(2) [OF inv] fresh by auto
  have "io_inv q' \<and> iq_received q' = iq_received ?q \<and>
    (case ex of EXEC_ASYNCHRONOUS \<Rightarrow> ledger q' = ledger ?q
     | EXEC_COMPLETE st \<Rightarrow> ledger ?q = add_mset (um_addr ?um) (ledger q') \<and> count (unmap_cbs ?q) (um_addr ?um) = 0 \<and>
         (um_range_index ?um = num_ranges (ir_cmd (um_req ?um)) \<or> rc (um_range_index ?um) \<notin> {0, ENOMEM_RC}))"
  proof (rule unmap_submit_ok [OF s, of ?um])
    show "insert (um_addr ?um) (set_mset (unmap_cbs ?q + unmap_waits ?q)) = um_addr ` set (iq_unmaps ?q)"
      using io_invD(2) [OF inv] by (simp add: same)
    show "um_good v (count (unmap_cbs ?q) (um_addr v)) (count (unmap_waits ?q) (um_addr v))"
      if "v \<in> set (iq_unmaps ?q)" "v \<noteq> ?um" for v
      using io_invD(3) [OF inv, of v] that by (simp add: same)
    show "distinct (map um_addr (iq_unmaps ?q))" using io_invD(1) [OF inv] fresh by auto
  qed (use l n in \<open>simp_all add: same not_in_iff\<close>)
  then show ?thesis by (auto simp: booked_def same split: exec_status.splits)
qed

lemma same_unmaps_booked: "io_inv q \<Longrightarrow> same_unmaps q q' \<and> booked r q ex q' \<Longrightarrow> io_inv q' \<and> booked r q ex q'"
  using same_unmaps_inv by blast

lemma reservation_booked:
  "same_unmaps q (q\<lparr>iq_reservations := iq_reservations q @ [r]\<rparr>) \<and>
   booked r q EXEC_ASYNCHRONOUS (q\<lparr>iq_reservations := iq_reservations q @ [r]\<rparr>)"
  by (simp add: book_defs)

lemma dispatch_booked:
  assumes inv: "io_inv q" and fresh: "ir_addr r \<notin> um_addr ` set (iq_unmaps q)"
    and d: "dispatch_io env bd r q = Inr (ex, q')"
  shows "io_inv q' \<and> booked r q ex q'"
proof (cases "nc_opc (ir_cmd r) = IO_DATASET_MANAGEMENT \<and> \<not> ir_zcopy r \<and> bit (nc_cdw11 (ir_cmd r)) 2")
  case True
  with d have "unmap_cmd (ie_mem env) (ie_rc env) r q = Inr (ex, q')" by (simp add: dispatch_io_def dsm_cmd_def)
  with inv fresh show ?thesis by (rule unmap_cmd_booked)
next
  case False
  with d have "same_unmaps q q' \<and> booked r q ex q'"
    unfolding dispatch_io_def dsm_cmd_def read_cmd_def write_cmd_def compare_cmd_def Let_def
    by (auto simp: refused_booked reservation_booked split: if_splits dest: rw_cmd_booked simple_cmds_booked)
  with inv show ?thesis by (rule same_unmaps_booked)
qed

lemma process_io_booked:
  assumes inv: "io_inv q" and fresh: "ir_addr r \<notin> um_addr ` set (iq_unmaps q)"
    and p: "process_io_cmd env r q = Inr (ex, q')"
  shows "io_inv q' \<and> booked r q ex q'"
proof -
  from p obtain adm where adm: "io_admission env (ir_cmd r) = Inr adm" by (auto simp: process_io_cmd_def bindR_eq_Inr)
  show ?thesis
  proof (cases adm)
    case (Inl st)
    with p adm inv show ?thesis using refused_booked [of q r st] by (auto simp: process_io_cmd_def)
  next
    case (Inr bd)
    show ?thesis
    proof (cases "nc_fuse (ir_cmd r) AND FUSE_MASK = 0")
      case True
      let ?q = "case iq_first_fused q of Some f \<Rightarrow> (abort_first_fused f q)\<lparr>iq_first_fused := None\<rparr> | None \<Rightarrow> q"
      have b: "same_unmaps q ?q" "ledger ?q = ledger q" "iq_received ?q = iq_received q"
        by (auto simp: abort_first_booked split: option.split)
      from True p adm Inr have "dispatch_io env bd r ?q = Inr (ex, q')" by (simp add: process_io_cmd_def)
      moreover have "ir_addr r \<notin> um_addr ` set (iq_unmaps ?q)" using fresh b(1) by (simp add: same_unmaps_def)
      ultimately have "io_inv q' \<and> booked r ?q ex q'" using dispatch_booked same_unmaps_inv [OF b(1) inv] by blast
      then show ?thesis unfolding booked_def b(2,3) by simp
    next
      case False
      with p adm Inr have "process_io_fused_cmd bd (ie_rc env 0) r q = (ex, q')" by (simp add: process_io_cmd_def)
      then show ?thesis by (intro same_unmaps_booked [OF inv] fused_booked)
    qed
  qed
qed

lemma finish_exec_books:
  assumes "finish_exec r res = Inr q'" and "\<And>ex q1. res = Inr (ex, q1) \<Longrightarrow> io_inv q1 \<and> booked r q ex q1"
  shows "io_inv q' \<and> ledger q' = add_mset (ir_addr r) (ledger q) \<and> iq_received q' = iq_received q"
proof -
  from assms(1) obtain ex q1 where r: "res = Inr (ex, q1)" by (auto simp: finish_exec_def bindR_eq_Inr)
  have inv: "io_inv (send_cpl a c st q1)" if "io_inv q1" for a c st
    using same_unmaps_inv [OF same_unmaps_send that] .
  from assms(2) [OF r] show ?thesis
    using assms(1) r inv by (auto simp: finish_exec_def booked_def sent_booked split: exec_status.splits)
qed

section \<open>The first command of a fused pair\<close>

text \<open>What a command leaves of the rest: it completes requests, hands I/Os of its own to the block
  device, and, unless it is the second of a fused pair, touches no \<open>first_fused_req\<close>.\<close>

definition own_io :: "io_request \<Rightarrow> bdev_io \<Rightarrow> bool" where
  "own_io r b \<longleftrightarrow> (case bi_cb b of CompleteCmd x f \<Rightarrow> x = r \<and> f = None | _ \<Rightarrow> True)"

definition plain :: "io_request \<Rightarrow> io_qpair \<Rightarrow> io_qpair \<Rightarrow> bool" where
  "plain r q q' \<longleftrightarrow> iq_first_of q' = iq_first_of q \<and> added (own_io r) q q' \<and> (\<exists>new. iq_sent q' = iq_sent q @ new)"

lemma plain_refl: "iq_first_of q' = iq_first_of q \<Longrightarrow> iq_inflight q' = iq_inflight q \<Longrightarrow> iq_sent q' = iq_sent q @ new \<Longrightarrow>
   plain r q q'"
  by (simp add: plain_def added_refl)

lemma plain_same [simp]: "plain r q q"
  by (simp add: plain_def added_refl)

lemma plain_trans: "plain r q q1 \<Longrightarrow> plain r q1 q2 \<Longrightarrow> plain r q q2"
  unfolding plain_def by (metis added_trans append.assoc)

lemma plain_one:
  "own_io r b \<Longrightarrow> plain r q (q\<lparr>iq_inflight := iq_inflight q @ [b]\<rparr>)"
  by (simp add: plain_def added_one)

lemma queue_io_frame [simp]:
  "iq_first_of (fold queue_io ws q) = iq_first_of q" "iq_sent (fold queue_io ws q) = iq_sent q"
  by (induction ws arbitrary: q) (auto simp: queue_io_def)

lemma submit_plain: "own_io r \<lparr>bi_op = op, bi_cb = cb\<rparr> \<Longrightarrow> submit rc op cb ws err q = (ex, q') \<Longrightarrow> plain r q q'"
  by (auto simp: submit_def plain_one split: if_splits intro: plain_refl [where new = "[]"])

lemma submit_cmd_plain: "submit_cmd rc op r q = (ex, q') \<Longrightarrow> plain r q q'"
  unfolding submit_cmd_def by (rule submit_plain [of r op "CompleteCmd r None"]) (simp_all add: own_io_def)

lemma passthru_plain: "passthru_io rc r q = (ex, q') \<Longrightarrow> plain r q q'"
  unfolding passthru_io_def by (rule submit_plain [of r BdevPassthru "CompleteCmd r None"]) (simp_all add: own_io_def)

lemma simple_cmds_plain:
  "rw_cmd op bd rc r q = (ex, q') \<Longrightarrow> plain r q q'"
  "write_zeroes_cmd bd rc r q = (ex, q') \<Longrightarrow> plain r q q'"
  "flush_cmd bd rc r q = (ex, q') \<Longrightarrow> plain r q q'"
  "copy_cmd bd rc r q = (ex, q') \<Longrightarrow> plain r q q'"
  by (auto simp: rw_cmd_def write_zeroes_cmd_def flush_cmd_def copy_cmd_def Let_def
      split: option.splits prod.splits if_splits dest: submit_cmd_plain)

lemma zcopy_start_plain: "zcopy_start bd rc r q = (ex, q') \<Longrightarrow> plain r q q'"
  by (auto simp: zcopy_start_def own_io_def split: option.splits prod.splits
      intro: submit_plain [where cb = "ZcopyStartComplete r", rotated])

lemma unmap_loop_plain:
  "unmap_loop rc rgs um q = (w, um', q') \<Longrightarrow> plain r q q'"
proof (induction rgs arbitrary: um q)
  case (Cons rg rgs)
  let ?b = "\<lparr>bi_op = BdevUnmap (fst rg) (ucast (snd rg)), bi_cb = UnmapCpl (ir_addr (um_req um))\<rparr>"
  show ?case
  proof (cases "rc (um_range_index um) = 0")
    case True
    have "plain r (q\<lparr>iq_inflight := iq_inflight q @ [?b]\<rparr>) q'"
      using Cons.prems True by (intro Cons.IH) (simp add: Let_def)
    moreover have "plain r q (q\<lparr>iq_inflight := iq_inflight q @ [?b]\<rparr>)" by (rule plain_one) (simp add: own_io_def)
    ultimately show ?thesis using plain_trans by blast
  next
    case False
    with Cons.prems show ?thesis
      by (auto simp: Let_def queue_io_def split: if_splits intro: plain_refl [where new = "[]"])
  qed
qed simp

lemma unmap_submit_plain: "unmap_submit rc um q = (ex, q') \<Longrightarrow> plain r q q'"
proof -
  assume s: "unmap_submit rc um q = (ex, q')"
  obtain w um1 q1 where l: "unmap_loop rc (drop (um_range_index um) (take (num_ranges (ir_cmd (um_req um)))
      (ir_ranges (um_req um)))) um q = (w, um1, q1)" by (metis surj_pair)
  have "iq_first_of q' = iq_first_of q1" "iq_inflight q' = iq_inflight q1" "iq_sent q' = iq_sent q1 @ []"
    using s l by (auto simp: unmap_submit_def Let_def put_unmap_def free_unmap_def split: if_splits)
  from plain_trans [OF unmap_loop_plain [OF l] plain_refl [OF this]] show ?thesis .
qed

lemma dispatch_plain:
  assumes "dispatch_io env bd r q = Inr (ex, q')"
  shows "plain r q q'"
proof -
  have u: "plain r q q'" if "unmap_submit rc um (q\<lparr>iq_unmaps := us\<rparr>) = (ex, q')" for rc um us
    using plain_trans [OF plain_refl [of "q\<lparr>iq_unmaps := us\<rparr>" q "[]"] unmap_submit_plain [OF that]] by simp
  show ?thesis
    using assms unfolding dispatch_io_def dsm_cmd_def unmap_cmd_def read_cmd_def write_cmd_def compare_cmd_def Let_def
    by (auto split: if_splits simp: u dest: simple_cmds_plain zcopy_start_plain passthru_plain intro: plain_refl [where new = "[]"])
qed

text \<open>While an I/O is in the block device \<open>first_fused_req\<close> of its request is the first command of its pair,
  if it has one, and of no other request it is set.\<close>

definition firsts_ok :: "io_qpair \<Rightarrow> bool" where
  "firsts_ok q \<longleftrightarrow>
     (\<forall>b\<in>set (iq_inflight q). \<forall>x f. bi_cb b = CompleteCmd x f \<longrightarrow> iq_first_of q (ir_addr x) = f) \<and>
     (\<forall>a f. iq_first_of q a = Some f \<longrightarrow> (\<exists>b\<in>set (iq_inflight q). \<exists>x. bi_cb b = CompleteCmd x (Some f) \<and> ir_addr x = a))"

lemma firsts_ok_frame:
  "iq_first_of q' = iq_first_of q \<Longrightarrow> iq_inflight q' = iq_inflight q \<Longrightarrow> firsts_ok q' = firsts_ok q"
  by (simp add: firsts_ok_def)

lemma inflight_held: "b \<in> set (iq_inflight q) \<Longrightarrow> bi_cb b = CompleteCmd x f \<Longrightarrow> ir_addr x \<in> set (held q)"
  by (force simp: held_def)

lemma firsts_ok_fresh:
  assumes "firsts_ok q" and "a \<notin> set (held q)"
  shows "iq_first_of q a = None"
proof (rule ccontr)
  assume "iq_first_of q a \<noteq> None"
  then obtain f where "iq_first_of q a = Some f" by blast
  with assms(1) obtain b x where "b \<in> set (iq_inflight q)" "bi_cb b = CompleteCmd x (Some f)" "ir_addr x = a"
    unfolding firsts_ok_def by blast
  with inflight_held assms(2) show False by blast
qed

lemma firsts_ok_plain:
  assumes p: "plain r q q'" and ok: "firsts_ok q" and fresh: "ir_addr r \<notin> set (held q)"
  shows "firsts_ok q'"
proof -
  obtain new where new: "iq_inflight q' = iq_inflight q @ new" "list_all (own_io r) new"
    using p by (auto simp: plain_def added_def)
  have "iq_first_of q (ir_addr x) = f" if "b \<in> set new" "bi_cb b = CompleteCmd x f" for b x f
    using new(2) that firsts_ok_fresh [OF ok fresh] by (auto simp: list_all_iff own_io_def)
  moreover have "iq_first_of q' = iq_first_of q" using p by (simp add: plain_def)
  ultimately show ?thesis using ok new(1) unfolding firsts_ok_def by (metis Un_iff set_append)
qed

lemma compare_and_write_frame:
  assumes "compare_and_write_cmd bd rc f r q = (ex, q')" and "rc \<noteq> ENOMEM_RC"
  shows "iq_first_of q' = iq_first_of q \<and> iq_sent q' = iq_sent q \<and>
    (case ex of EXEC_COMPLETE st \<Rightarrow> cpl_is_error st \<and> iq_inflight q' = iq_inflight q
     | EXEC_ASYNCHRONOUS \<Rightarrow> \<exists>op. iq_inflight q' = iq_inflight q @ [\<lparr>bi_op = op, bi_cb = CompleteCmd r (Some f)\<rparr>])"
  using assms
  by (auto simp: compare_and_write_cmd_def submit_def cpl_is_error_def split: prod.splits option.splits if_splits
      dest: rw_check_error)

definition grows :: "io_qpair \<Rightarrow> io_qpair \<Rightarrow> bool" where
  "grows q q' \<longleftrightarrow> (\<exists>new. iq_sent q' = iq_sent q @ new)"

lemma growsI: "iq_sent q' = iq_sent q @ new \<Longrightarrow> grows q q'"
  by (auto simp: grows_def)

lemma grows_trans: "grows q q1 \<Longrightarrow> grows q1 q2 \<Longrightarrow> grows q q2"
  unfolding grows_def by (metis append.assoc)

lemma plain_grows: "plain r q q' \<Longrightarrow> grows q q'"
  by (simp add: plain_def grows_def)

lemma fused_firsts:
  assumes p: "process_io_fused_cmd bd rc r q = (ex, q')" and ok: "firsts_ok q" and fresh: "ir_addr r \<notin> set (held q)"
    and rc: "nc_fuse (ir_cmd r) = FUSE_SECOND \<Longrightarrow> rc \<noteq> ENOMEM_RC"
  shows "firsts_ok q' \<and> grows q q'"
proof (cases "\<exists>f. iq_first_fused q = Some f \<and> nc_fuse (ir_cmd r) = FUSE_SECOND \<and> nc_opc (ir_cmd r) = IO_WRITE")
  case True
  then obtain f where f: "iq_first_fused q = Some f" "nc_fuse (ir_cmd r) = FUSE_SECOND" "nc_opc (ir_cmd r) = IO_WRITE"
    by blast
  obtain ex1 q1 where c: "compare_and_write_cmd bd rc f r
      (q\<lparr>iq_first_fused := None, iq_first_of := (iq_first_of q)(ir_addr r := Some f)\<rparr>) = (ex1, q1)"
    by (metis surj_pair)
  note w = compare_and_write_frame [OF c rc [OF f(2)]]
  have none: "iq_first_of q (ir_addr r) = None" by (rule firsts_ok_fresh [OF ok fresh])
  show ?thesis
  proof (cases ex1)
    case (EXEC_COMPLETE st)
    with p f c w have q': "q' = (send_cpl (ir_addr f) 0 st q1)\<lparr>iq_first_of := (iq_first_of q1)(ir_addr r := None)\<rparr>"
      by (auto simp: process_io_fused_cmd_def)
    have "iq_first_of q' = iq_first_of q" using w none by (simp add: q' fun_upd_idem)
    moreover have "iq_inflight q' = iq_inflight q" using w EXEC_COMPLETE by (simp add: q')
    moreover have "grows q q'" using w by (simp add: q' grows_def send_cpl_def)
    ultimately show ?thesis using firsts_ok_frame ok by blast
  next
    case EXEC_ASYNCHRONOUS
    with p f c have q': "q' = q1" by (auto simp: process_io_fused_cmd_def)
    from w EXEC_ASYNCHRONOUS obtain op where
      i: "iq_inflight q' = iq_inflight q @ [\<lparr>bi_op = op, bi_cb = CompleteCmd r (Some f)\<rparr>]" by (auto simp: q')
    have fo: "iq_first_of q' = (iq_first_of q)(ir_addr r := Some f)" using w by (simp add: q')
    have other: "ir_addr x \<noteq> ir_addr r" if "b \<in> set (iq_inflight q)" "bi_cb b = CompleteCmd x g" for b x g
      using inflight_held [OF that] fresh by auto
    have "firsts_ok q'"
      unfolding firsts_ok_def i fo
    proof (intro conjI ballI allI impI)
      fix b x g assume b: "b \<in> set (iq_inflight q @ [\<lparr>bi_op = op, bi_cb = CompleteCmd r (Some f)\<rparr>])" "bi_cb b = CompleteCmd x g"
      show "((iq_first_of q)(ir_addr r := Some f)) (ir_addr x) = g"
      proof (cases "b \<in> set (iq_inflight q)")
        case True
        then have "iq_first_of q (ir_addr x) = g" using ok b(2) unfolding firsts_ok_def by blast
        then show ?thesis using other [OF True b(2)] by simp
      next
        case False
        with b show ?thesis by simp
      qed
    next
      fix a g assume g: "((iq_first_of q)(ir_addr r := Some f)) a = Some g"
      let ?P = "\<lambda>b. \<exists>x. bi_cb b = CompleteCmd x (Some g) \<and> ir_addr x = a"
      have "\<exists>b\<in>set (iq_inflight q). ?P b" if "a \<noteq> ir_addr r"
        using ok g that unfolding firsts_ok_def by simp
      moreover have "?P \<lparr>bi_op = op, bi_cb = CompleteCmd r (Some f)\<rparr>" if "a = ir_addr r" using g that by simp
      ultimately show "\<exists>b\<in>set (iq_inflight q @ [\<lparr>bi_op = op, bi_cb = CompleteCmd r (Some f)\<rparr>]). ?P b" by auto
    qed
    moreover have "grows q q'" using w by (simp add: q' grows_def)
    ultimately show ?thesis by simp
  qed
next
  case False
  have frame: "iq_first_of q' = iq_first_of q \<and> iq_inflight q' = iq_inflight q \<and>
      (iq_sent q' = iq_sent q @ [] \<or> (\<exists>x. iq_sent q' = iq_sent q @ [x]))"
    using p False
    by (auto simp: process_io_fused_cmd_def Let_def abort_first_fused_def send_cpl_def split: option.splits if_splits)
  then have "grows q q'" using growsI by blast
  with frame show ?thesis using firsts_ok_frame ok by blast
qed

lemma process_io_firsts:
  assumes p: "process_io_cmd env r q = Inr (ex, q')" and ok: "firsts_ok q" and fresh: "ir_addr r \<notin> set (held q)"
    and rc: "nc_fuse (ir_cmd r) = FUSE_SECOND \<Longrightarrow> ie_rc env 0 \<noteq> ENOMEM_RC"
  shows "firsts_ok q' \<and> grows q q'"
proof -
  from p obtain adm where adm: "io_admission env (ir_cmd r) = Inr adm" by (auto simp: process_io_cmd_def bindR_eq_Inr)
  show ?thesis
  proof (cases adm)
    case (Inl st)
    with p adm ok show ?thesis by (simp add: process_io_cmd_def grows_def)
  next
    case (Inr bd)
    show ?thesis
    proof (cases "nc_fuse (ir_cmd r) AND FUSE_MASK = 0")
      case True
      let ?q = "case iq_first_fused q of Some f \<Rightarrow> (abort_first_fused f q)\<lparr>iq_first_fused := None\<rparr> | None \<Rightarrow> q"
      have fr: "iq_first_of ?q = iq_first_of q" "iq_inflight ?q = iq_inflight q" "grows q ?q" "set (held ?q) \<subseteq> set (held q)"
        by (auto simp: abort_first_fused_def send_cpl_def grows_def held_def split: option.split)
      from True p adm Inr have "plain r ?q q'" by (intro dispatch_plain) (simp add: process_io_cmd_def)
      moreover have "firsts_ok ?q" using ok firsts_ok_frame [OF fr(1,2)] by simp
      moreover have "ir_addr r \<notin> set (held ?q)" using fresh fr(4) by blast
      ultimately show ?thesis using firsts_ok_plain plain_grows grows_trans [OF fr(3)] by blast
    next
      case False
      with p adm Inr have "process_io_fused_cmd bd (ie_rc env 0) r q = (ex, q')" by (simp add: process_io_cmd_def)
      then show ?thesis using ok fresh rc by (rule fused_firsts)
    qed
  qed
qed

lemma finish_exec_firsts:
  assumes "finish_exec r res = Inr q'" and "\<And>ex q1. res = Inr (ex, q1) \<Longrightarrow> firsts_ok q1 \<and> grows q q1"
  shows "firsts_ok q' \<and> grows q q'"
proof -
  from assms(1) obtain ex q1 where r: "res = Inr (ex, q1)" by (auto simp: finish_exec_def bindR_eq_Inr)
  have "firsts_ok (send_cpl a c st q1) = firsts_ok q1" "grows q1 (send_cpl a c st q1)" for a c st
    by (rule firsts_ok_frame) (simp_all add: send_cpl_def grows_def)
  then show ?thesis
    using assms(1) r assms(2) [OF r] grows_trans by (auto simp: finish_exec_def split: exec_status.splits)
qed

section \<open>Every step\<close>

text \<open>What the environment keeps to: a request that arrives is none of those that are still held; the
  block device does not run out of memory for the second command of a fused pair; and a
  range that is submitted again, with no other range of its command in the block device, is not
  refused for another reason than memory.\<close>

definition fused_has_memory :: "io_env \<Rightarrow> io_request \<Rightarrow> bool" where
  "fused_has_memory env r \<longleftrightarrow> nc_fuse (ir_cmd r) = FUSE_SECOND \<longrightarrow> ie_rc env 0 \<noteq> ENOMEM_RC"

definition io_ok :: "io_qpair \<Rightarrow> io_event \<Rightarrow> bool" where
  "io_ok q e =
     (case e of
        IoArrives env r \<Rightarrow> ir_addr r \<notin> set (held q) \<and> fused_has_memory env r
      | IoRetry env \<Rightarrow>
          (case iq_waiting q of
             WaitUnmap a # _ \<Rightarrow>
               (case find_unmap a q of
                  Some um \<Rightarrow> um_count um \<noteq> 1 \<or> ie_rc env (um_range_index um) = 0 \<or>
                    ie_rc env (um_range_index um) = ENOMEM_RC
                | None \<Rightarrow> True)
           | WaitIo r # _ \<Rightarrow> fused_has_memory env r
           | [] \<Rightarrow> True)
      | _ \<Rightarrow> True)"

definition qpair_inv :: "io_qpair \<Rightarrow> bool" where
  "qpair_inv q \<longleftrightarrow> io_inv q \<and> firsts_ok q \<and> distinct (held q) \<and> ledger q = mset (iq_received q)"

lemma find_unmap_iff:
  assumes "io_inv q"
  shows "find_unmap a q = Some um \<longleftrightarrow> um \<in> set (iq_unmaps q) \<and> um_addr um = a"
  unfolding find_unmap_def using find_Some_iff_distinct [OF io_invD(1) [OF assms]] by blast

lemma unmap_resubmit_books:
  assumes inv: "io_inv q" and w: "iq_waiting q = WaitUnmap a # ws"
    and s: "unmap_resubmit rc a (q\<lparr>iq_waiting := ws\<rparr>) = Inr q'"
    and ok: "\<And>um. find_unmap a q = Some um \<Longrightarrow> um_count um \<noteq> 1 \<or> rc (um_range_index um) \<in> {0, ENOMEM_RC}"
  shows "io_inv q' \<and> ledger q' = ledger q \<and> iq_received q' = iq_received q"
proof -
  let ?q = "q\<lparr>iq_waiting := ws\<rparr>"
  have f: "find_unmap a ?q = find_unmap a q" by (simp add: find_unmap_def)
  from s obtain um ex where u: "find_unmap a q = Some um"
    and sub: "unmap_submit rc (um\<lparr>um_count := um_count um - 1\<rparr>) ?q = (ex, q')"
    by (auto simp: unmap_resubmit_def f prod_eq_iff split: option.splits)
  let ?um = "um\<lparr>um_count := um_count um - 1\<rparr>"
  from u inv have m: "um \<in> set (iq_unmaps q)" and a: "um_addr um = a" by (simp_all add: find_unmap_iff)
  have same: "unmap_cbs ?q = unmap_cbs q" "unmap_waits q = add_mset a (unmap_waits ?q)" "ledger ?q = ledger q"
    using w by (simp_all add: book_defs)
  have g: "um_good um (count (unmap_cbs q) a) (Suc (count (unmap_waits ?q) a))"
    using io_invD(3) [OF inv m] a same(2) by simp
  then have w0: "count (unmap_waits ?q) a = 0" by (simp add: um_good_def)
  have one: "um_count um = of_nat (count (unmap_cbs q) a + 1)" using g w0 by (simp add: um_good_def)
  have idx: "count (unmap_cbs q) a \<le> um_range_index um" "um_range_index um < num_ranges (ir_cmd (um_req um))"
    "num_ranges (ir_cmd (um_req um)) \<le> length (ir_ranges (um_req um))"
    using g w0 by (simp_all add: um_good_def)
  have "io_inv q' \<and> iq_received q' = iq_received ?q \<and>
    (case ex of EXEC_ASYNCHRONOUS \<Rightarrow> ledger q' = ledger ?q
     | EXEC_COMPLETE st \<Rightarrow> ledger ?q = add_mset (um_addr ?um) (ledger q') \<and> count (unmap_cbs ?q) (um_addr ?um) = 0 \<and>
         (um_range_index ?um = num_ranges (ir_cmd (um_req ?um)) \<or> rc (um_range_index ?um) \<notin> {0, ENOMEM_RC}))"
  proof (rule unmap_submit_ok [OF sub, of um])
    show "distinct (map um_addr (iq_unmaps ?q))" using io_invD(1) [OF inv] by simp
    show "insert (um_addr ?um) (set_mset (unmap_cbs ?q + unmap_waits ?q)) = um_addr ` set (iq_unmaps ?q)"
      using io_invD(2) [OF inv] a by (simp add: same(1,2))
    show "um_good v (count (unmap_cbs ?q) (um_addr v)) (count (unmap_waits ?q) (um_addr v))"
      if "v \<in> set (iq_unmaps ?q)" "v \<noteq> um" for v
    proof -
      have "um_addr v \<noteq> a" using that m a io_invD(1) [OF inv] by (auto simp: distinct_map inj_on_def)
      then show ?thesis using io_invD(3) [OF inv, of v] that by (simp add: same)
    qed
  qed (use m a one w0 idx in \<open>simp_all add: same(1)\<close>)
  moreover have False if "ex = EXEC_COMPLETE st" for st
    using calculation ok [OF u] one idx a that by (auto simp: same(1))
  ultimately show ?thesis using same(3) by (cases ex) auto
qed

lemma unmap_cpl_books:
  assumes inv: "io_inv q" and n: "n < length (iq_inflight q)" and cb: "bi_cb (iq_inflight q ! n) = UnmapCpl a"
  shows "\<exists>q'. unmap_cpl cdw0 sct sc a (q\<lparr>iq_inflight := remove_nth n (iq_inflight q)\<rparr>) = Inr q' \<and>
    io_inv q' \<and> ledger q' = ledger q \<and> iq_received q' = iq_received q"
proof -
  let ?q = "q\<lparr>iq_inflight := remove_nth n (iq_inflight q)\<rparr>"
  note split = mset_concat_remove_nth [OF n]
  have cbs: "unmap_cbs q = add_mset a (unmap_cbs ?q)" and led: "ledger ?q = ledger q" and ws: "unmap_waits ?q = unmap_waits q"
    using split [of "\<lambda>b. cb_unmaps (bi_cb b)"] split [of "\<lambda>b. cb_requests (bi_cb b)"] cb
    by (simp_all add: book_defs)
  have "a \<in> um_addr ` set (iq_unmaps q)" using io_invD(2) [OF inv] cbs by auto
  then obtain um where m: "um \<in> set (iq_unmaps q)" and a: "um_addr um = a" by blast
  have f: "find_unmap a ?q = Some um" using m a find_unmap_iff [OF inv, of a um] by (simp add: find_unmap_def)
  let ?n = "count (unmap_cbs ?q) a" and ?w = "count (unmap_waits q) a"
  have g: "um_good um (Suc ?n) ?w" using io_invD(3) [OF inv m] a cbs by simp
  define um2 where "um2 = (let um1 = um\<lparr>um_count := um_count um - 1\<rparr> in
    if cpl_is_error (um_status um1) then um1
    else um1\<lparr>um_status := (um_status um1)\<lparr>st_sct := sct, st_sc := sc\<rparr>, um_cdw0 := cdw0\<rparr>)"
  have um2: "um_req um2 = um_req um" "um_count um2 = um_count um - 1" "um_range_index um2 = um_range_index um"
    by (simp_all add: um2_def Let_def)
  have g2: "um_good um2 ?n ?w" using g by (auto simp: um_good_def um2)
  have zero: "um_count um2 = 0 \<longleftrightarrow> ?n + ?w = 0" using um_good_count [OF g2, of 0] by simp
  have others: "um_good v (count (unmap_cbs ?q) (um_addr v)) (count (unmap_waits ?q) (um_addr v))"
    if "v \<in> set (iq_unmaps ?q)" "v \<noteq> um" for v
  proof -
    have "um_addr v \<noteq> a" using that m a io_invD(1) [OF inv] by (auto simp: distinct_map inj_on_def)
    then show ?thesis using io_invD(3) [OF inv, of v] that cbs ws by simp
  qed
  have d: "distinct (map um_addr (iq_unmaps ?q))" and mq: "um \<in> set (iq_unmaps ?q)"
    using io_invD(1) [OF inv] m by simp_all
  have s: "insert a (set_mset (unmap_cbs ?q + unmap_waits ?q)) = um_addr ` set (iq_unmaps ?q)"
    using io_invD(2) [OF inv] cbs ws by simp
  show ?thesis
  proof (cases "um_count um2 = 0")
    case True
    with zero have z: "count (unmap_cbs ?q) a = 0" "count (unmap_waits ?q) a = 0" using ws by simp_all
    have "io_inv (free_unmap a ?q)" by (rule io_inv_free [OF d mq a s z others])
    then have "io_inv (send_cpl a c st (free_unmap a ?q))" for c st by (rule same_unmaps_inv [OF same_unmaps_send])
    moreover have "ledger (send_cpl a c st (free_unmap a ?q)) = ledger q" for c st
      using free_unmap_books(1) [OF mq d] a led by (simp add: sent_booked)
    ultimately show ?thesis
      using f True free_unmap_books(6) [OF mq d] a by (simp add: unmap_cpl_def um2_def Let_def)
  next
    case False
    note put = put_unmap_books [OF mq d refl um2(1)]
    have "0 < count (unmap_cbs ?q + unmap_waits ?q) a" using False zero ws by auto
    then have "a \<in># unmap_cbs ?q + unmap_waits ?q" by (simp only: count_greater_zero_iff)
    then have s': "set_mset (unmap_cbs ?q + unmap_waits ?q) = um_addr ` set (iq_unmaps ?q)"
      unfolding s [symmetric] by (rule insert_absorb [symmetric])
    have "io_inv (put_unmap um2 ?q)" by (rule io_inv_put [OF d mq um2(1) s' _ others]) (use g2 a ws in simp_all)
    then show ?thesis using f False put led by (simp add: unmap_cpl_def um2_def Let_def)
  qed
qed

lemma take_inflight:
  assumes "n < length (iq_inflight q)"
  shows "ledger q = mset (cb_requests (bi_cb (iq_inflight q ! n))) + ledger (q\<lparr>iq_inflight := remove_nth n (iq_inflight q)\<rparr>)"
    and "cb_unmaps (bi_cb (iq_inflight q ! n)) = [] \<Longrightarrow> same_unmaps q (q\<lparr>iq_inflight := remove_nth n (iq_inflight q)\<rparr>)"
  using mset_concat_remove_nth [OF assms, of "\<lambda>b. cb_requests (bi_cb b)"]
    mset_concat_remove_nth [OF assms, of "\<lambda>b. cb_unmaps (bi_cb b)"]
  by (simp_all add: book_defs)

lemma take_held:
  "n < length (iq_inflight q) \<Longrightarrow> mset (held q) =
     mset (cb_requests (bi_cb (iq_inflight q ! n))) + mset (held (q\<lparr>iq_inflight := remove_nth n (iq_inflight q)\<rparr>))"
  using take_inflight(1) [of n q] by (simp add: ledger_def)

lemma bdev_done_books:
  assumes inv: "io_inv q" and fo: "firsts_ok q" and n: "n < length (iq_inflight q)"
  shows "\<exists>q'. bdev_done res (bi_cb (iq_inflight q ! n)) (q\<lparr>iq_inflight := remove_nth n (iq_inflight q)\<rparr>) = Inr q' \<and>
    io_inv q' \<and> ledger q' = ledger q \<and> iq_received q' = iq_received q"
proof -
  let ?q = "q\<lparr>iq_inflight := remove_nth n (iq_inflight q)\<rparr>"
  note take = take_inflight [OF n]
  have send: "io_inv (send_cpl a c st q1)" if "io_inv q1" for a c st q1
    using same_unmaps_inv [OF same_unmaps_send that] .
  have zc: "same_unmaps q1 (q1\<lparr>iq_zcopy := zs\<rparr>)" for q1 zs by (simp add: book_defs)
  have zl: "ledger (q1\<lparr>iq_zcopy := iq_zcopy q1 @ [r]\<rparr>) = add_mset (ir_addr r) (ledger q1)" for q1 r
    by (simp add: book_defs)
  show ?thesis
  proof (cases "bi_cb (iq_inflight q ! n)")
    case (UnmapCpl a)
    with unmap_cpl_books [OF inv n] show ?thesis by (simp add: bdev_done_def)
  next
    case (CompleteCmd r f)
    have "iq_first_of q (ir_addr r) = f" using fo CompleteCmd nth_mem [OF n] unfolding firsts_ok_def by blast
    moreover have "io_inv (q1\<lparr>iq_first_of := m\<rparr>)" if "io_inv q1" for q1 m
      using same_unmaps_inv [OF _ that, of "q1\<lparr>iq_first_of := m\<rparr>"] by simp
    ultimately show ?thesis
      using CompleteCmd take same_unmaps_inv [OF _ inv, of ?q]
      by (cases f) (simp_all add: bdev_done_def complete_cmd_def sent_booked send)
  next
    case (ZcopyStartComplete r)
    with take same_unmaps_inv [OF _ inv, of ?q] show ?thesis
      using zl [of ?q r] same_unmaps_inv [OF zc, of ?q]
      by (simp add: bdev_done_def zcopy_start_complete_def sent_booked send)
  next
    case (ZcopyEndComplete r)
    with take same_unmaps_inv [OF _ inv, of ?q] show ?thesis
      by (simp add: bdev_done_def zcopy_end_complete_def sent_booked send)
  qed
qed

lemma unmap_cpl_frame:
  "unmap_cpl cdw0 sct sc a q = Inr q' \<Longrightarrow>
     iq_first_of q' = iq_first_of q \<and> iq_inflight q' = iq_inflight q \<and> grows q q'"
  by (auto simp: unmap_cpl_def Let_def send_cpl_def free_unmap_def put_unmap_def grows_def
      split: option.splits if_splits)

lemma set_split_nth: "n < length xs \<Longrightarrow> set xs = insert (xs ! n) (set (remove_nth n xs))"
  using arg_cong [OF mset_remove_nth, of n xs set_mset] by simp

lemma drop_other_firsts:
  assumes n: "n < length (iq_inflight q)" and o: "\<And>x f. bi_cb (iq_inflight q ! n) \<noteq> CompleteCmd x f" and ok: "firsts_ok q"
  shows "firsts_ok (q\<lparr>iq_inflight := remove_nth n (iq_inflight q)\<rparr>)"
  using ok o set_split_nth [OF n] unfolding firsts_ok_def by simp

lemma complete_firsts:
  assumes n: "n < length (iq_inflight q)" and cb: "bi_cb (iq_inflight q ! n) = CompleteCmd r f"
    and ok: "firsts_ok q" and d: "distinct (held q)"
    and q': "iq_inflight q' = remove_nth n (iq_inflight q)" "iq_first_of q' = (iq_first_of q)(ir_addr r := None)"
  shows "firsts_ok q'"
proof -
  let ?q = "q\<lparr>iq_inflight := remove_nth n (iq_inflight q)\<rparr>"
  have "mset (held q) = mset (cb_requests (CompleteCmd r f) @ held ?q)" using take_held [OF n] cb by simp
  then have "distinct (cb_requests (CompleteCmd r f) @ held ?q)" using d mset_eq_imp_distinct_iff by blast
  then have rest: "ir_addr r \<notin> set (held ?q)" by auto
  have other: "ir_addr x \<noteq> ir_addr r" if "b \<in> set (remove_nth n (iq_inflight q))" "bi_cb b = CompleteCmd x g" for b x g
    using inflight_held [of b ?q x g] that rest by auto
  show ?thesis
    unfolding firsts_ok_def q'
  proof (intro conjI ballI allI impI)
    fix b x g assume b: "b \<in> set (remove_nth n (iq_inflight q))" "bi_cb b = CompleteCmd x g"
    then have "b \<in> set (iq_inflight q)" using set_split_nth [OF n] by blast
    then have "iq_first_of q (ir_addr x) = g" using ok b(2) unfolding firsts_ok_def by blast
    then show "((iq_first_of q)(ir_addr r := None)) (ir_addr x) = g" using other [OF b] by simp
  next
    fix a g assume g: "((iq_first_of q)(ir_addr r := None)) a = Some g"
    then have a: "a \<noteq> ir_addr r" "iq_first_of q a = Some g" by (simp_all split: if_splits)
    with ok obtain b x where b: "b \<in> set (iq_inflight q)" "bi_cb b = CompleteCmd x (Some g)" "ir_addr x = a"
      unfolding firsts_ok_def by blast
    then have "b \<noteq> iq_inflight q ! n" using cb a(1) by auto
    then have "b \<in> set (remove_nth n (iq_inflight q))" using b(1) set_split_nth [OF n] by blast
    with b show "\<exists>b\<in>set (remove_nth n (iq_inflight q)). \<exists>x. bi_cb b = CompleteCmd x (Some g) \<and> ir_addr x = a" by blast
  qed
qed

lemma bdev_done_firsts:
  assumes n: "n < length (iq_inflight q)" and ok: "firsts_ok q" and d: "distinct (held q)"
    and s: "bdev_done res (bi_cb (iq_inflight q ! n)) (q\<lparr>iq_inflight := remove_nth n (iq_inflight q)\<rparr>) = Inr q'"
  shows "firsts_ok q' \<and> grows q q'"
proof (cases "bi_cb (iq_inflight q ! n)")
  case (CompleteCmd r f)
  have fr: "iq_inflight q' = remove_nth n (iq_inflight q)" "iq_first_of q' = (iq_first_of q)(ir_addr r := None)" "grows q q'"
    using s CompleteCmd by (auto simp: bdev_done_def complete_cmd_def send_cpl_def grows_def fun_upd_idem split: option.splits)
  with complete_firsts [OF n CompleteCmd ok d fr(1,2)] show ?thesis by simp
next
  case (UnmapCpl a)
  have f: "firsts_ok (q\<lparr>iq_inflight := remove_nth n (iq_inflight q)\<rparr>)"
    by (rule drop_other_firsts [OF n _ ok]) (simp add: UnmapCpl)
  from s UnmapCpl have "unmap_cpl (br_cdw0 res) (fst (br_status res)) (snd (br_status res)) a
      (q\<lparr>iq_inflight := remove_nth n (iq_inflight q)\<rparr>) = Inr q'" by (simp add: bdev_done_def)
  from unmap_cpl_frame [OF this] f firsts_ok_frame [of q' "q\<lparr>iq_inflight := remove_nth n (iq_inflight q)\<rparr>"]
  show ?thesis by (simp add: grows_def)
next
  case (ZcopyStartComplete r)
  have f: "firsts_ok (q\<lparr>iq_inflight := remove_nth n (iq_inflight q)\<rparr>)"
    by (rule drop_other_firsts [OF n _ ok]) (simp add: ZcopyStartComplete)
  have "iq_first_of q' = iq_first_of q" "iq_inflight q' = remove_nth n (iq_inflight q)" "grows q q'"
    using s ZcopyStartComplete by (auto simp: bdev_done_def zcopy_start_complete_def send_cpl_def grows_def split: if_splits)
  then show ?thesis using f firsts_ok_frame [of q' "q\<lparr>iq_inflight := remove_nth n (iq_inflight q)\<rparr>"] by simp
next
  case (ZcopyEndComplete r)
  have f: "firsts_ok (q\<lparr>iq_inflight := remove_nth n (iq_inflight q)\<rparr>)"
    by (rule drop_other_firsts [OF n _ ok]) (simp add: ZcopyEndComplete)
  have "iq_first_of q' = iq_first_of q" "iq_inflight q' = remove_nth n (iq_inflight q)" "grows q q'"
    using s ZcopyEndComplete by (auto simp: bdev_done_def zcopy_end_complete_def send_cpl_def grows_def split: if_splits)
  then show ?thesis using f firsts_ok_frame [of q' "q\<lparr>iq_inflight := remove_nth n (iq_inflight q)\<rparr>"] by simp
qed

text \<open>No request is held twice after a step that only completes requests and holds the new ones \<open>w\<close>.\<close>

lemma held_distinct:
  assumes d: "distinct (w @ held q)" and g: "grows q q'" and l: "ledger q' = mset w + ledger q"
  shows "distinct (held q')"
proof -
  obtain new where new: "iq_sent q' = iq_sent q @ new" using g by (auto simp: grows_def)
  have "mset (w @ held q) = mset (map fst new @ held q')" using l by (simp add: ledger_def new)
  then have "distinct (map fst new @ held q')" using d mset_eq_imp_distinct_iff by blast
  then show ?thesis by simp
qed

lemma unmaps_held: "a \<in> um_addr ` set (iq_unmaps q) \<Longrightarrow> a \<in> set (held q)"
  by (auto simp: held_def)

lemma unmap_resubmit_firsts:
  assumes "unmap_resubmit rc a q = Inr q'" and ok: "firsts_ok q"
  shows "firsts_ok q' \<and> grows q q'"
proof -
  from assms(1) obtain um ex where s: "unmap_submit rc um q = (ex, q')"
    by (auto simp: unmap_resubmit_def prod_eq_iff split: option.splits)
  obtain b where b: "b \<notin> set (held q)" using ex_new_if_finite [OF infinite_UNIV_nat, of "set (held q)"] by auto
  have p: "plain ((um_req um)\<lparr>ir_addr := b\<rparr>) q q'" by (rule unmap_submit_plain [OF s])
  show ?thesis using firsts_ok_plain [OF p ok] plain_grows [OF p] b by simp
qed

lemma execution_inv:
  assumes inv: "io_inv q" "firsts_ok q" "distinct (ir_addr r # held q)" and fin: "finish_exec r (process_io_cmd env r q) = Inr q'"
    and rc: "fused_has_memory env r"
  shows "io_inv q' \<and> firsts_ok q' \<and> distinct (held q') \<and> ledger q' = add_mset (ir_addr r) (ledger q) \<and>
    iq_received q' = iq_received q"
proof -
  have fresh: "ir_addr r \<notin> set (held q)" using inv(3) by simp
  then have u: "ir_addr r \<notin> um_addr ` set (iq_unmaps q)" using unmaps_held by blast
  have b: "io_inv q' \<and> ledger q' = add_mset (ir_addr r) (ledger q) \<and> iq_received q' = iq_received q"
    by (rule finish_exec_books [OF fin process_io_booked [OF inv(1) u]])
  have f: "firsts_ok q' \<and> grows q q'"
    by (rule finish_exec_firsts [OF fin process_io_firsts [OF _ inv(2) fresh]]) (use rc in \<open>auto simp: fused_has_memory_def\<close>)
  from b f show ?thesis using held_distinct [of "[ir_addr r]" q q'] inv(3) by simp
qed

lemma io_step_inv:
  assumes inv: "qpair_inv q" and ok: "io_ok q e" and s: "io_step q e = Inr q'"
  shows "qpair_inv q'"
proof (cases e)
  case (IoArrives env r)
  let ?q = "q\<lparr>iq_received := iq_received q @ [ir_addr r]\<rparr>"
  have b: "same_unmaps q ?q" "ledger ?q = ledger q" "held ?q = held q" by (simp_all add: book_defs)
  have i: "io_inv ?q" "firsts_ok ?q" "distinct (ir_addr r # held ?q)"
    using inv b ok IoArrives firsts_ok_frame [of ?q q] by (simp_all add: qpair_inv_def same_unmaps_inv io_ok_def)
  have "finish_exec r (process_io_cmd env r ?q) = Inr q'" "fused_has_memory env r"
    using s ok IoArrives by (simp_all add: io_step_def io_ok_def)
  from execution_inv [OF i this] inv b show ?thesis by (simp add: qpair_inv_def)
next
  case (IoDone n res)
  show ?thesis
  proof (cases "n < length (iq_inflight q)")
    case True
    have i: "io_inv q" "firsts_ok q" "distinct (held q)" using inv by (simp_all add: qpair_inv_def)
    have d: "bdev_done res (bi_cb (iq_inflight q ! n)) (q\<lparr>iq_inflight := remove_nth n (iq_inflight q)\<rparr>) = Inr q'"
      using s IoDone True by (simp add: io_step_def)
    from bdev_done_books [OF i(1,2) True, of res] bdev_done_firsts [OF True i(2,3) d] d
      held_distinct [of "[]" q q'] inv
    show ?thesis by (auto simp: qpair_inv_def)
  next
    case False
    with s inv IoDone show ?thesis by (simp add: io_step_def)
  qed
next
  case (IoRetry env)
  show ?thesis
  proof (cases "iq_waiting q")
    case Nil
    with s inv IoRetry show ?thesis by (simp add: io_step_def)
  next
    case (Cons w ws)
    let ?q = "q\<lparr>iq_waiting := ws\<rparr>"
    have fo: "firsts_ok ?q" using inv firsts_ok_frame [of ?q q] by (simp add: qpair_inv_def)
    show ?thesis
    proof (cases w)
      case (WaitUnmap a)
      have r: "unmap_resubmit (ie_rc env) a ?q = Inr q'" using s IoRetry Cons WaitUnmap by (simp add: io_step_def)
      have "um_count um \<noteq> 1 \<or> ie_rc env (um_range_index um) \<in> {0, ENOMEM_RC}" if "find_unmap a q = Some um" for um
        using ok IoRetry Cons WaitUnmap that by (simp add: io_ok_def)
      then have b: "io_inv q' \<and> ledger q' = ledger q \<and> iq_received q' = iq_received q"
        using inv Cons WaitUnmap by (intro unmap_resubmit_books [OF _ _ r]) (auto simp: qpair_inv_def)
      moreover have "grows q q'" using unmap_resubmit_firsts [OF r fo] by (simp add: grows_def)
      ultimately show ?thesis
        using inv unmap_resubmit_firsts [OF r fo] held_distinct [of "[]" q q'] by (simp add: qpair_inv_def)
    next
      case (WaitIo r)
      have b: "same_unmaps q ?q" "ledger q = add_mset (ir_addr r) (ledger ?q)" "iq_received ?q = iq_received q"
        "mset (held q) = mset (ir_addr r # held ?q)"
        using Cons WaitIo by (simp_all add: book_defs)
      have i: "io_inv ?q" "distinct (ir_addr r # held ?q)"
        using inv same_unmaps_inv [OF b(1)] mset_eq_imp_distinct_iff [OF b(4)] by (simp_all add: qpair_inv_def)
      have "finish_exec r (process_io_cmd env r ?q) = Inr q'" "fused_has_memory env r"
        using s ok IoRetry Cons WaitIo by (simp_all add: io_step_def io_ok_def)
      from execution_inv [OF i(1) fo i(2) this] inv b(2,3) show ?thesis by (simp add: qpair_inv_def)
    qed
  qed
next
  case (IoReservationDone n st)
  show ?thesis
  proof (cases "n < length (iq_reservations q)")
    case True
    from mset_remove_nth [OF True] s inv IoReservationDone True
    have b: "io_inv q' \<and> ledger q' = ledger q \<and> iq_received q' = iq_received q"
      by (auto simp: io_step_def qpair_inv_def io_inv_def book_defs)
    have f: "iq_first_of q' = iq_first_of q" "iq_inflight q' = iq_inflight q" "grows q q'"
      using s IoReservationDone True by (auto simp: io_step_def send_cpl_def grows_def)
    show ?thesis using b inv firsts_ok_frame [OF f(1,2)] held_distinct [OF _ f(3), of "[]"] by (simp add: qpair_inv_def)
  next
    case False
    with s inv IoReservationDone show ?thesis by (simp add: io_step_def)
  qed
next
  case (IoZcopyEnd n commit)
  show ?thesis
  proof (cases "n < length (iq_zcopy q)")
    case True
    from mset_remove_nth [OF True] s inv IoZcopyEnd True
    have b: "io_inv q' \<and> ledger q' = ledger q \<and> iq_received q' = iq_received q"
      by (auto simp: io_step_def qpair_inv_def io_inv_def book_defs)
    have f: "iq_first_of q' = iq_first_of q" "grows q q'"
      "iq_inflight q' = iq_inflight q @ [\<lparr>bi_op = BdevZcopyEnd commit, bi_cb = ZcopyEndComplete (iq_zcopy q ! n)\<rparr>]"
      using s IoZcopyEnd True by (auto simp: io_step_def grows_def)
    have "firsts_ok q'" using inv unfolding qpair_inv_def firsts_ok_def f(1,3) by auto
    then show ?thesis using b inv held_distinct [OF _ f(2), of "[]"] by (simp add: qpair_inv_def)
  next
    case False
    with s inv IoZcopyEnd show ?thesis by (simp add: io_step_def)
  qed
qed

interpretation io: guarded_stepper io_step io_ok qpair_inv
  by unfold_locales (rule io_step_inv)

lemma qpair_inv_empty: "qpair_inv empty_io_qpair"
  by (simp add: qpair_inv_def io_inv_def unmaps_ok_def empty_io_qpair_def book_defs firsts_ok_def)

section \<open>The properties\<close>

text \<open>C29. Every request that arrives is completed once or still held, in one place, as many times as it arrives;
  no request is held twice; and when the block device finishes an I/O, the context it refers to is
  still there. Three things the environment has to keep to (\<open>io_ok\<close>): a request that arrives is none of those
  that are still held (a completed one may be used again); the block device does not run
  out of memory for the second command of a fused pair; and a range of Dataset Management that is
  submitted again while no other one of its command is outstanding is not refused for another
  reason than memory. Without the second and the third it does not hold: see
  \<open>stale_fused_request_completed_twice\<close> and \<open>unmap_resubmit_loses_request\<close>.\<close>

theorem io_requests_conserved:
  assumes "guarded_reach io_step io_ok empty_io_qpair q"
  shows "mset (map fst (iq_sent q)) + mset (held q) = mset (iq_received q) \<and> distinct (held q) \<and>
    (\<exists>q'. io_step q (IoDone n res) = Inr q')"
proof -
  have inv: "qpair_inv q" using io.reach_inv [OF assms qpair_inv_empty] .
  then have "\<exists>q'. io_step q (IoDone n res) = Inr q'"
    using bdev_done_books [of q n res] by (auto simp: io_step_def qpair_inv_def)
  with inv show ?thesis by (simp add: qpair_inv_def ledger_def)
qed

text \<open>When that range is refused for another reason, the request is neither completed nor held any
  more: what \<open>nvmf_bdev_ctrlr_unmap\<close> returns to \<open>nvmf_bdev_ctrlr_unmap_resubmit\<close> is ignored.\<close>

theorem unmap_resubmit_loses_request:
  assumes "guarded_reach io_step io_ok empty_io_qpair q" and "iq_waiting q = WaitUnmap a # ws"
    and "find_unmap a q = Some um" and "um_count um = 1"
    and "ie_rc env (um_range_index um) \<noteq> 0" and "ie_rc env (um_range_index um) \<noteq> ENOMEM_RC"
  shows "\<exists>q'. io_step q (IoRetry env) = Inr q' \<and> a \<in> set (held q) \<and> a \<notin> set (held q') \<and> iq_sent q' = iq_sent q"
proof -
  have inv: "qpair_inv q" using io.reach_inv [OF assms(1) qpair_inv_empty] .
  then have i: "io_inv q" by (simp add: qpair_inv_def)
  from assms(3) i have m: "um \<in> set (iq_unmaps q)" and a: "um_addr um = a" by (simp_all add: find_unmap_iff)
  have g: "um_good um (count (unmap_cbs q) a) (count (unmap_waits q) a)" using io_invD(3) [OF i m] a by simp
  have "0 < count (unmap_waits q) a" using assms(2) by (simp add: unmap_waits_def)
  moreover have "count (unmap_waits q) a \<le> 1" using g by (simp add: um_good_def)
  ultimately have z: "count (unmap_waits q) a = 1" by linarith
  let ?q = "q\<lparr>iq_waiting := ws\<rparr>" and ?r = "um_req um"
  have f: "find_unmap a ?q = Some um" using assms(3) by (simp add: find_unmap_def)
  have idx: "um_range_index um < num_ranges (ir_cmd ?r)" "num_ranges (ir_cmd ?r) \<le> length (ir_ranges ?r)"
    using g z by (simp_all add: um_good_def)
  then obtain rg rgs where rgs: "drop (um_range_index um) (take (num_ranges (ir_cmd ?r)) (ir_ranges ?r)) = rg # rgs"
    by (metis Cons_nth_drop_Suc length_take min_absorb2)
  define q' where "q' = snd (unmap_submit (ie_rc env) (um\<lparr>um_count := um_count um - 1\<rparr>) ?q)"
  have step: "io_step q (IoRetry env) = Inr q'"
    by (simp add: io_step_def assms(2) unmap_resubmit_def f q'_def)
  have loop: "unmap_loop (ie_rc env) (rg # rgs) (um\<lparr>um_count := 0\<rparr>) ?q =
      (False, um\<lparr>um_count := 0, um_status := (um_status um)\<lparr>st_sc := SC_INTERNAL_ERROR\<rparr>\<rparr>, ?q)"
    using assms(5,6) by (simp add: Let_def)
  define um1 where "um1 = um\<lparr>um_count := 0, um_status := (um_status um)\<lparr>st_sc := SC_INTERNAL_ERROR\<rparr>\<rparr>"
  have q': "q' = free_unmap a (put_unmap um1 ?q)"
    unfolding q'_def using rgs loop assms(4) a by (simp add: unmap_submit_def Let_def um1_def)
  have d: "distinct (map um_addr (iq_unmaps ?q))" and mq: "um \<in> set (iq_unmaps ?q)" using io_invD(1) [OF i] m by simp_all
  have r1: "um_req um1 = um_req um" by (simp add: um1_def)
  note put = put_unmap_books [OF mq d refl r1]
  have d2: "distinct (map um_addr (iq_unmaps (put_unmap um1 ?q)))" and m1: "um1 \<in> set (iq_unmaps (put_unmap um1 ?q))"
    using put(2,3) d by simp_all
  note free = free_unmap_books [OF m1 d2]
  have led: "ledger q = add_mset a (ledger q')"
    using free(1) put(1) a r1 assms(2) by (simp add: q') (simp add: book_defs)
  moreover have sent: "iq_sent q' = iq_sent q" using put(7) by (simp add: q' free_unmap_def)
  ultimately have h: "mset (held q) = mset (a # held q')" by (simp add: ledger_def)
  have "distinct (a # held q')" using inv mset_eq_imp_distinct_iff [OF h] by (simp add: qpair_inv_def)
  moreover have "a \<in> set (held q)" using mset_eq_setD [OF h] by simp
  ultimately show ?thesis using step sent by simp
qed

text \<open>A command that is marked as the first of a fused pair, while another first one is waiting, is
  taken as the compare command whatever its opcode is and however short its buffer: together with
  a write command for the same blocks, whose own buffer is long enough, the two are handed to the
  block device as a compare-and-write.\<close>

theorem fused_compare_unchecked:
  assumes "iq_first_fused q = Some f" and "nc_fuse (ir_cmd r) = FUSE_FIRST"
    and "nc_fuse (ir_cmd w) = FUSE_SECOND" and "nc_opc (ir_cmd w) = IO_WRITE"
    and "get_rw_params (ir_cmd r) = (lba, n)" and "get_rw_params (ir_cmd w) = (lba, n)"
    and "rw_check bd (ir_cmd w) (ir_length w) = None"
    and "process_io_fused_cmd bd 0 r q = (ex1, q1)" and "process_io_fused_cmd bd 0 w q1 = (ex2, q2)"
  shows "iq_inflight q2 = iq_inflight q @ [\<lparr>bi_op = BdevComparevAndWritev r lba n, bi_cb = CompleteCmd w (Some r)\<rparr>]"
proof -
  have q1: "q1 = (abort_first_fused f q)\<lparr>iq_first_fused := Some r\<rparr>"
    using assms(1,2,8) by (simp add: process_io_fused_cmd_def)
  then show ?thesis
    using assms(3-7,9) by (auto simp: process_io_fused_cmd_def compare_and_write_cmd_def submit_def)
qed

section \<open>The properties at concrete inputs\<close>

definition demo_io_ns :: subsys_ns where
  "demo_io_ns = \<lparr>sn_ns = new_ns 1 7, sn_anagrpid = 1, sn_nguid = 0, sn_eui64 = 0, sn_uuid = 7, sn_zcopy = False, sn_zns = False\<rparr>"

definition demo_io_ctrlr :: spdk_nvmf_ctrlr where
  "demo_io_ctrlr = \<lparr>ct_addr = 1, ct_cntlid = 1, ct_hostnqn = ''nqn.h'', ct_dynamic = True, ct_listener = None,
     ct_aec = 0, ct_aer_req = [], ct_async_events = [], ct_notice_aen_mask = 0, ct_changed_ns_list = [],
     ct_changed_ns_list_count = 0, ct_log_page_count = 0, ct_num_avail_log_pages = 0, ct_log_head = [],
     ct_sent = [], ct_freed = []\<rparr>"

definition demo_io_env :: "(nat \<Rightarrow> int) \<Rightarrow> io_env" where
  "demo_io_env rc = \<lparr>ie_ctrlr = Some (demo_io_ctrlr, 3), ie_enabled = True,
     ie_subsys = (new_subsystem 0 ''nqn.s'' False 1)\<lparr>sb_ns := [Some demo_io_ns]\<rparr>,
     ie_ns_info = [\<lparr>pgn_crkey = 0, pgn_rtype = 0, pgn_holder_id = 0, pgn_reg_hostid = []\<rparr>],
     ie_bdev = (\<lambda>_. \<lparr>bd_num_blocks = 100, bd_block_size = 512, bd_flush = True, bd_copy = True\<rparr>),
     ie_mem = True, ie_rc = rc\<rparr>"

definition demo_read :: io_request where
  "demo_read = \<lparr>ir_addr = 1, ir_cmd = \<lparr>nc_opc = IO_READ, nc_fuse = 0, nc_nsid = 1, nc_cdw10 = 92, nc_cdw11 = 0, nc_cdw12 = 7\<rparr>,
     ir_length = 4096, ir_ranges = [], ir_source = (0, 0), ir_zcopy = False\<rparr>"

definition demo_dsm :: io_request where
  "demo_dsm = \<lparr>ir_addr = 2, ir_cmd = \<lparr>nc_opc = IO_DATASET_MANAGEMENT, nc_fuse = 0, nc_nsid = 1, nc_cdw10 = 1, nc_cdw11 = 4, nc_cdw12 = 0\<rparr>,
     ir_length = 32, ir_ranges = [(5, 1), (9, 2)], ir_source = (0, 0), ir_zcopy = False\<rparr>"

definition demo_unmap_run :: "io_event list" where
  "demo_unmap_run = [IoArrives (demo_io_env (\<lambda>i. if i = 0 then 0 else - 12)) demo_dsm,
     IoDone 0 \<lparr>br_success = True, br_cdw0 = 0, br_first = (0, 0), br_status = (0, 0)\<rparr>]"

lemma demo_admission:
  "io_admission (demo_io_env rc) (ir_cmd demo_read) = Inr (Inr \<lparr>bd_num_blocks = 100, bd_block_size = 512, bd_flush = True, bd_copy = True\<rparr>)"
  by code_simp

lemma demo_read_exec:
  "\<exists>q'. process_io_cmd (demo_io_env (\<lambda>_. 0)) demo_read empty_io_qpair = Inr (EXEC_ASYNCHRONOUS, q') \<and>
     iq_inflight q' = [\<lparr>bi_op = BdevReadv 92 8, bi_cb = CompleteCmd demo_read None\<rparr>]"
proof -
  have "case process_io_cmd (demo_io_env (\<lambda>_. 0)) demo_read empty_io_qpair of Inl _ \<Rightarrow> False
    | Inr (ex, q') \<Rightarrow> ex = EXEC_ASYNCHRONOUS \<and>
        iq_inflight q' = [\<lparr>bi_op = BdevReadv 92 8, bi_cb = CompleteCmd demo_read None\<rparr>]" by code_simp
  then show ?thesis by (auto split: sum.splits prod.splits)
qed

theorem io_submissions_in_range_witness:
  "list_all (bdev_io_ok \<lparr>bd_num_blocks = 100, bd_block_size = 512, bd_flush = True, bd_copy = True\<rparr>)
     [\<lparr>bi_op = BdevReadv 92 8, bi_cb = CompleteCmd demo_read None\<rparr>]"
proof -
  obtain q' where q': "process_io_cmd (demo_io_env (\<lambda>_. 0)) demo_read empty_io_qpair = Inr (EXEC_ASYNCHRONOUS, q')"
    "iq_inflight q' = [\<lparr>bi_op = BdevReadv 92 8, bi_cb = CompleteCmd demo_read None\<rparr>]" using demo_read_exec by blast
  from io_submissions_in_range [OF q'(1)] q'(2) show ?thesis by (simp add: demo_admission empty_io_qpair_def)
qed

lemma demo_unmap_reach:
  "\<exists>q. run_guarded io_step io_ok empty_io_qpair demo_unmap_run = Some q \<and> iq_waiting q = [WaitUnmap 2] \<and>
     map_option um_count (find_unmap 2 q) = Some 1 \<and> map_option um_range_index (find_unmap 2 q) = Some 1"
proof -
  have "case run_guarded io_step io_ok empty_io_qpair demo_unmap_run of None \<Rightarrow> False
    | Some q \<Rightarrow> iq_waiting q = [WaitUnmap 2] \<and>
     map_option um_count (find_unmap 2 q) = Some 1 \<and> map_option um_range_index (find_unmap 2 q) = Some 1" by code_simp
  then show ?thesis by (auto split: option.splits)
qed

lemma demo_unmap_done:
  "\<exists>q. run_guarded io_step io_ok empty_io_qpair
      (demo_unmap_run @ [IoRetry (demo_io_env (\<lambda>_. 0)),
        IoDone 0 \<lparr>br_success = True, br_cdw0 = 0, br_first = (0, 0), br_status = (0, 0)\<rparr>]) = Some q \<and>
      iq_sent q = [(2, 0, st_success)]"
proof -
  have "case run_guarded io_step io_ok empty_io_qpair
      (demo_unmap_run @ [IoRetry (demo_io_env (\<lambda>_. 0)),
        IoDone 0 \<lparr>br_success = True, br_cdw0 = 0, br_first = (0, 0), br_status = (0, 0)\<rparr>]) of None \<Rightarrow> False
    | Some q \<Rightarrow> iq_sent q = [(2, 0, st_success)]" by code_simp
  then show ?thesis by (auto split: option.splits)
qed

theorem io_requests_conserved_witness:
  "\<exists>q. run_guarded io_step io_ok empty_io_qpair
      (demo_unmap_run @ [IoRetry (demo_io_env (\<lambda>_. 0)),
        IoDone 0 \<lparr>br_success = True, br_cdw0 = 0, br_first = (0, 0), br_status = (0, 0)\<rparr>]) = Some q \<and>
      iq_sent q = [(2, 0, st_success)] \<and> mset (map fst (iq_sent q)) + mset (held q) = mset (iq_received q)"
  using demo_unmap_done io_requests_conserved [OF run_guarded_start] by blast

theorem unmap_resubmit_loses_request_witness:
  "\<exists>q q'. run_guarded io_step io_ok empty_io_qpair demo_unmap_run = Some q \<and>
     io_step q (IoRetry (demo_io_env (\<lambda>_. - 5))) = Inr q' \<and> 2 \<in> set (held q) \<and> 2 \<notin> set (held q') \<and>
     iq_sent q' = iq_sent q"
proof -
  obtain q where q: "run_guarded io_step io_ok empty_io_qpair demo_unmap_run = Some q" "iq_waiting q = [WaitUnmap 2]"
    "map_option um_count (find_unmap 2 q) = Some 1" using demo_unmap_reach by blast
  then obtain um where um: "find_unmap 2 q = Some um" "um_count um = 1" by auto
  have rc: "ie_rc (demo_io_env (\<lambda>_. - 5)) i \<noteq> 0" "ie_rc (demo_io_env (\<lambda>_. - 5)) i \<noteq> ENOMEM_RC" for i
    by (simp_all add: demo_io_env_def)
  from unmap_resubmit_loses_request [OF run_guarded_start [OF q(1)] q(2) um rc] q(1) show ?thesis by blast
qed

definition demo_fused :: "addr \<Rightarrow> u8 \<Rightarrow> u8 \<Rightarrow> u32 \<Rightarrow> io_request" where
  "demo_fused a opc fuse len = \<lparr>ir_addr = a, ir_cmd = \<lparr>nc_opc = opc, nc_fuse = fuse, nc_nsid = 1, nc_cdw10 = 3, nc_cdw11 = 0, nc_cdw12 = 0\<rparr>,
     ir_length = len, ir_ranges = [], ir_source = (0, 0), ir_zcopy = False\<rparr>"

definition demo_bd :: io_bdev where
  "demo_bd = \<lparr>bd_num_blocks = 100, bd_block_size = 512, bd_flush = True, bd_copy = True\<rparr>"

text \<open>When the block device has no memory for a compare-and-write, the write command keeps the compare command
  in its \<open>first_fused_req\<close> while both wait. Here another command comes between their resubmissions:
  it aborts the compare command (1), so that the write command (2) is refused. The next read that uses the
  request structure 2 completes the compare command once more.\<close>

definition stale_run :: "io_event list" where
  "stale_run = [IoArrives (demo_io_env (\<lambda>_. 0)) (demo_fused 1 IO_COMPARE FUSE_FIRST 512),
     IoArrives (demo_io_env (\<lambda>_. - 12)) (demo_fused 2 IO_WRITE FUSE_SECOND 512),
     IoRetry (demo_io_env (\<lambda>_. 0)), IoArrives (demo_io_env (\<lambda>_. 0)) (demo_read\<lparr>ir_addr := 3\<rparr>),
     IoRetry (demo_io_env (\<lambda>_. 0)), IoArrives (demo_io_env (\<lambda>_. 0)) (demo_read\<lparr>ir_addr := 2\<rparr>),
     IoDone 1 \<lparr>br_success = True, br_cdw0 = 0, br_first = (0, 0), br_status = (0, 0)\<rparr>]"

lemma stale_fused_request_completed_twice:
  "\<exists>q. runR io_step empty_io_qpair stale_run = Inr q \<and> iq_received q = [1, 2, 3, 2] \<and>
     map fst (iq_sent q) = [1, 2, 1, 2]"
proof -
  have "case runR io_step empty_io_qpair stale_run of Inl _ \<Rightarrow> False
    | Inr q \<Rightarrow> iq_received q = [1, 2, 3, 2] \<and> map fst (iq_sent q) = [1, 2, 1, 2]" by code_simp
  then show ?thesis by (auto split: sum.splits)
qed

text \<open>The second request is a read with no buffer at all.\<close>

theorem fused_compare_unchecked_witness:
  "iq_inflight (snd (process_io_fused_cmd demo_bd 0 (demo_fused 3 IO_WRITE FUSE_SECOND 512)
      (snd (process_io_fused_cmd demo_bd 0 (demo_fused 2 IO_READ FUSE_FIRST 0)
        (empty_io_qpair\<lparr>iq_first_fused := Some (demo_fused 1 IO_COMPARE FUSE_FIRST 512)\<rparr>))))) =
   [\<lparr>bi_op = BdevComparevAndWritev (demo_fused 2 IO_READ FUSE_FIRST 0) 3 1,
     bi_cb = CompleteCmd (demo_fused 3 IO_WRITE FUSE_SECOND 512) (Some (demo_fused 2 IO_READ FUSE_FIRST 0))\<rparr>]"
proof -
  let ?f = "demo_fused 1 IO_COMPARE FUSE_FIRST 512" and ?r = "demo_fused 2 IO_READ FUSE_FIRST 0"
    and ?w = "demo_fused 3 IO_WRITE FUSE_SECOND 512"
  let ?q = "empty_io_qpair\<lparr>iq_first_fused := Some ?f\<rparr>"
  let ?p1 = "process_io_fused_cmd demo_bd 0 ?r ?q"
  let ?p2 = "process_io_fused_cmd demo_bd 0 ?w (snd ?p1)"
  have c: "get_rw_params (ir_cmd ?r) = (3, 1)" "get_rw_params (ir_cmd ?w) = (3, 1)"
    "rw_check demo_bd (ir_cmd ?w) (ir_length ?w) = None" by code_simp+
  have "iq_inflight (snd ?p2) = iq_inflight ?q @ [\<lparr>bi_op = BdevComparevAndWritev ?r 3 1, bi_cb = CompleteCmd ?w (Some ?r)\<rparr>]"
    by (rule fused_compare_unchecked [of ?q ?f ?r ?w 3 1 demo_bd "fst ?p1" "snd ?p1" "fst ?p2"])
      (simp_all add: c, simp_all add: demo_fused_def)
  then show ?thesis by (simp add: empty_io_qpair_def)
qed

end
