(* ===== verification/Ctrlr_Life.thy ===== *)
theory Ctrlr_Life
  imports Poll_Group
begin

unbundle bit_operations_syntax

text \<open>
  The life of a controller (\<^verbatim>\<open>src/nvmf/ctrlr.c\<close>, \<^verbatim>\<open>src/nvmf/nvmf.c\<close>): the registers a host reads and
  writes as properties, enabling, reset and shutdown, the keep-alive and association timers, the
  queue pairs that belong to it, and its destruction.

  A timer is a boolean: registered or not. Starting an iteration over all poll groups with
  \<open>spdk_for_each_channel\<close> is the flag \<open>nv_iter\<close>; its end is an event. The messages to the thread of
  the controller are the queue \<open>nv_msgs\<close>. \<open>now\<close> is the clock, \<open>hz\<close> its rate.
\<close>

section \<open>Bit fields\<close>

definition get_bits :: "nat \<Rightarrow> nat \<Rightarrow> u32 \<Rightarrow> u32" where
  "get_bits lo n w = take_bit n (drop_bit lo w)"

definition put_bits :: "nat \<Rightarrow> nat \<Rightarrow> u32 \<Rightarrow> u32 \<Rightarrow> u32" where
  "put_bits lo n v w = (w AND NOT (push_bit lo (mask n))) OR push_bit lo (take_bit n v)"

abbreviation cc_en :: "u32 \<Rightarrow> u32" where "cc_en w \<equiv> get_bits 0 1 w"
abbreviation cc_css :: "u32 \<Rightarrow> u32" where "cc_css w \<equiv> get_bits 4 3 w"
abbreviation cc_mps :: "u32 \<Rightarrow> u32" where "cc_mps w \<equiv> get_bits 7 4 w"
abbreviation cc_ams :: "u32 \<Rightarrow> u32" where "cc_ams w \<equiv> get_bits 11 3 w"
abbreviation cc_shn :: "u32 \<Rightarrow> u32" where "cc_shn w \<equiv> get_bits 14 2 w"
abbreviation cc_iosqes :: "u32 \<Rightarrow> u32" where "cc_iosqes w \<equiv> get_bits 16 4 w"
abbreviation cc_iocqes :: "u32 \<Rightarrow> u32" where "cc_iocqes w \<equiv> get_bits 20 4 w"

abbreviation csts_rdy :: "u32 \<Rightarrow> u32" where "csts_rdy w \<equiv> get_bits 0 1 w"
abbreviation csts_cfs :: "u32 \<Rightarrow> u32" where "csts_cfs w \<equiv> get_bits 1 1 w"
abbreviation csts_shst :: "u32 \<Rightarrow> u32" where "csts_shst w \<equiv> get_bits 2 2 w"

abbreviation SHN_NORMAL :: u32 where "SHN_NORMAL \<equiv> 1"
abbreviation SHN_ABRUPT :: u32 where "SHN_ABRUPT \<equiv> 2"
abbreviation SHST_COMPLETE :: u32 where "SHST_COMPLETE \<equiv> 2"
abbreviation CSS_IOCS :: u32 where "CSS_IOCS \<equiv> 6"

section \<open>Data\<close>

datatype ctrlr_msg =
    MsgAddIoQpair u16
  | MsgFreeFromQpair u16
  | MsgDestruct

text \<open>What the controller asks of the poll groups and of its subsystem, and how the connections of
  I/O queue pairs end.\<close>

datatype ctrlr_note =
    NoteDisconnectAll
  | NoteDisconnectAdmin
  | NoteResetNamespaces
  | NoteConnected u16
  | NoteRefused u16

record nvmf_ctrlr =
  nv_cap :: u64
  nv_vs :: u32
  nv_cc :: u32
  nv_csts :: u32
  nv_aqa :: u32
  nv_asq :: u64
  nv_acq :: u64
  nv_kato :: u32
  nv_last_keep_alive :: u64
  nv_keep_alive_poller :: bool
  nv_association_timer :: bool
  nv_association_timeout :: u32
  nv_cc_timer :: bool
  nv_cc_timeout_timer :: bool
  nv_cc_timeout_tsc :: u64
  nv_disconnect_in_progress :: bool
  nv_disconnect_is_shn :: bool
  nv_in_destruct :: bool
  nv_qpair_mask :: "bool list"
  nv_admin_qpair :: "spdk_nvmf_qpair_state option" \<comment> \<open>\<open>None\<close>: \<open>ctrlr->admin_qpair\<close> is null\<close>
  nv_discovery :: bool
  nv_iter :: bool
  nv_listed :: bool \<comment> \<open>in the list of its subsystem\<close>
  nv_msgs :: "ctrlr_msg list"
  nv_notes :: "ctrlr_note list"
  nv_freed :: bool

definition take_note :: "ctrlr_note \<Rightarrow> nvmf_ctrlr \<Rightarrow> nvmf_ctrlr" where
  "take_note n c = c\<lparr>nv_notes := nv_notes c @ [n]\<rparr>"

definition count_set :: "bool list \<Rightarrow> nat" where
  "count_set bs = length (filter id bs)"

section \<open>Timers\<close>

definition stop_keep_alive_timer :: "nvmf_ctrlr \<Rightarrow> nvmf_ctrlr" where
  "stop_keep_alive_timer c = c\<lparr>nv_keep_alive_poller := False\<rparr>"

definition stop_association_timer :: "nvmf_ctrlr \<Rightarrow> nvmf_ctrlr" where
  "stop_association_timer c = c\<lparr>nv_association_timer := False\<rparr>"

definition start_keep_alive_timer :: "u64 \<Rightarrow> nvmf_ctrlr \<Rightarrow> nvmf_ctrlr" where
  "start_keep_alive_timer now c =
     (if nv_kato c \<noteq> 0 then c\<lparr>nv_last_keep_alive := now, nv_keep_alive_poller := True\<rparr> else c)"

definition set_fatal_status :: "nvmf_ctrlr \<Rightarrow> nvmf_ctrlr" where
  "set_fatal_status c = c\<lparr>nv_csts := put_bits 1 1 1 (nv_csts c)\<rparr>"

definition keep_alive_poll :: "u64 \<Rightarrow> u64 \<Rightarrow> nvmf_ctrlr \<Rightarrow> nvmf_ctrlr" where
  "keep_alive_poll now hz c =
     (if nv_in_destruct c then stop_keep_alive_timer c
      else
        let tick = nv_last_keep_alive c + ucast (nv_kato c) * hz div 1000
        in if now > tick \<and> csts_cfs (nv_csts c) = 0 then take_note NoteDisconnectAll (set_fatal_status c) else c)"

definition keep_alive :: "u64 \<Rightarrow> nvmf_ctrlr \<Rightarrow> nvmf_ctrlr" where
  "keep_alive now c = c\<lparr>nv_last_keep_alive := now\<rparr>"

definition association_remove :: "nvmf_ctrlr \<Rightarrow> nvmf_ctrlr" where
  "association_remove c =
     (let c1 = stop_association_timer c in
      if nv_in_destruct c1 then c1
      else case nv_admin_qpair c1 of None \<Rightarrow> c1 | Some _ \<Rightarrow> take_note NoteDisconnectAdmin c1)"

text \<open>The end of a reset or shutdown: the I/O queue pairs have been asked to disconnect.\<close>

definition cc_reset_shn_done :: "u64 \<Rightarrow> nvmf_ctrlr \<Rightarrow> nvmf_ctrlr" where
  "cc_reset_shn_done now c =
     (let c1 = c\<lparr>nv_cc_timer := False\<rparr>; many = count_set (nv_qpair_mask c1) > 1 in
      if many \<and> now < nv_cc_timeout_tsc c1 then c1\<lparr>nv_cc_timer := True\<rparr>
      else
        let c2 = (if many then set_fatal_status c1 else c1)\<lparr>nv_cc_timeout_timer := False\<rparr>;
            c3 = (if nv_disconnect_is_shn c2
                  then c2\<lparr>nv_csts := put_bits 2 2 SHST_COMPLETE (nv_csts c2), nv_disconnect_is_shn := False\<rparr>
                  else c2\<lparr>nv_cc := 0, nv_csts := 0\<rparr>);
            c4 = (if nv_association_timer c3 then stop_association_timer c3 else c3);
            c5 = (if nv_association_timeout c4 \<noteq> 0 then c4\<lparr>nv_association_timer := True\<rparr> else c4)
        in c5\<lparr>nv_disconnect_in_progress := False\<rparr>)"

text \<open>A reset or shutdown that takes too long: the namespaces are reset through the channels of the
  poll group of the admin queue pair.\<close>

definition cc_timeout :: "nvmf_ctrlr \<Rightarrow> fault + nvmf_ctrlr" where
  "cc_timeout c =
     (case nv_admin_qpair c of
        None \<Rightarrow> Inl NullDeref
      | Some _ \<Rightarrow> Inr (take_note NoteResetNamespaces (c\<lparr>nv_cc_timeout_timer := False\<rparr>)))"

section \<open>Registers\<close>

definition start_disconnect :: "bool \<Rightarrow> u64 \<Rightarrow> u64 \<Rightarrow> nvmf_ctrlr \<Rightarrow> nvmf_ctrlr" where
  "start_disconnect shn now hz c =
     c\<lparr>nv_cc_timeout_timer := True, nv_cc_timeout_tsc := now + 12500 * hz div 1000,
       nv_disconnect_in_progress := True, nv_disconnect_is_shn := shn, nv_iter := True\<rparr>"

text \<open>The steps of \<open>nvmf_prop_set_cc\<close>; \<open>Inl\<close>: the function returns at this point.\<close>

definition set_cc_en :: "u64 \<Rightarrow> u64 \<Rightarrow> u32 \<Rightarrow> u32 \<Rightarrow> nvmf_ctrlr \<Rightarrow> bool \<times> nvmf_ctrlr + nvmf_ctrlr" where
  "set_cc_en now hz v diff c =
     (if cc_en diff = 0 then Inr c
      else if cc_en v \<noteq> 0 then
        Inr ((stop_association_timer c)\<lparr>nv_cc := put_bits 0 1 1 (nv_cc c), nv_csts := put_bits 0 1 1 (nv_csts c)\<rparr>)
      else if nv_disconnect_in_progress c then Inl (True, c)
      else Inr ((start_disconnect False now hz c)\<lparr>nv_cc := put_bits 0 1 0 (nv_cc c)\<rparr>))"

definition set_cc_shn :: "u64 \<Rightarrow> u64 \<Rightarrow> u32 \<Rightarrow> u32 \<Rightarrow> nvmf_ctrlr \<Rightarrow> bool \<times> nvmf_ctrlr + nvmf_ctrlr" where
  "set_cc_shn now hz v diff c =
     (if cc_shn diff = 0 then Inr c
      else if cc_shn v = SHN_NORMAL \<or> cc_shn v = SHN_ABRUPT then
        (if nv_disconnect_in_progress c then Inl (True, c)
         else Inr (stop_keep_alive_timer
                ((start_disconnect True now hz c)\<lparr>nv_cc := put_bits 14 2 (cc_shn v) (nv_cc c)\<rparr>)))
      else if cc_shn v = 0 then Inr (c\<lparr>nv_cc := put_bits 14 2 0 (nv_cc c)\<rparr>)
      else Inl (False, c))"

definition prop_set_cc :: "u64 \<Rightarrow> u64 \<Rightarrow> u32 \<Rightarrow> nvmf_ctrlr \<Rightarrow> bool \<times> nvmf_ctrlr" where
  "prop_set_cc now hz v c =
     (let diff = v XOR nv_cc c in
      case bindR (set_cc_en now hz v diff c) (set_cc_shn now hz v diff) of
        Inl r \<Rightarrow> r
      | Inr c1 \<Rightarrow>
          let c2 = (if cc_iosqes diff \<noteq> 0 then c1\<lparr>nv_cc := put_bits 16 4 (cc_iosqes v) (nv_cc c1)\<rparr> else c1);
              c3 = (if cc_iocqes diff \<noteq> 0 then c2\<lparr>nv_cc := put_bits 20 4 (cc_iocqes v) (nv_cc c2)\<rparr> else c2)
          in if cc_ams diff \<noteq> 0 then (False, c3)
             else if cc_mps diff \<noteq> 0 then (False, c3)
             else if cc_css diff \<noteq> 0 \<and> cc_css v > CSS_IOCS then (False, c3)
             else (True, c3))"

definition prop_set_aqa :: "u32 \<Rightarrow> nvmf_ctrlr \<Rightarrow> bool \<times> nvmf_ctrlr" where
  "prop_set_aqa v c =
     (if get_bits 0 12 v < 1 \<or> get_bits 16 12 v < 1 \<or> get_bits 12 4 v \<noteq> 0 \<or> get_bits 28 4 v \<noteq> 0
      then (False, c) else (True, c\<lparr>nv_aqa := v\<rparr>))"

definition lower_half :: "u64 \<Rightarrow> u32 \<Rightarrow> u64" where
  "lower_half old v = (old AND push_bit 32 0xFFFFFFFF) OR ucast v"

definition upper_half :: "u64 \<Rightarrow> u32 \<Rightarrow> u64" where
  "upper_half old v = (old AND 0xFFFFFFFF) OR push_bit 32 (ucast v)"

datatype nvmf_prop = PropCap | PropVs | PropCc | PropCsts | PropAqa | PropAsq | PropAcq

definition nvmf_props :: "nvmf_prop list" where
  "nvmf_props = [PropCap, PropVs, PropCc, PropCsts, PropAqa, PropAsq, PropAcq]"

fun prop_ofst :: "nvmf_prop \<Rightarrow> u32" where
  "prop_ofst PropCap = 0x00"
| "prop_ofst PropVs = 0x08"
| "prop_ofst PropCc = 0x14"
| "prop_ofst PropCsts = 0x1c"
| "prop_ofst PropAqa = 0x24"
| "prop_ofst PropAsq = 0x28"
| "prop_ofst PropAcq = 0x30"

definition prop_size :: "nvmf_prop \<Rightarrow> u32" where
  "prop_size p = (if p \<in> {PropCap, PropAsq, PropAcq} then 8 else 4)"

fun prop_get :: "nvmf_prop \<Rightarrow> nvmf_ctrlr \<Rightarrow> u64" where
  "prop_get PropCap c = nv_cap c"
| "prop_get PropVs c = ucast (nv_vs c)"
| "prop_get PropCc c = ucast (nv_cc c)"
| "prop_get PropCsts c = ucast (nv_csts c)"
| "prop_get PropAqa c = ucast (nv_aqa c)"
| "prop_get PropAsq c = nv_asq c"
| "prop_get PropAcq c = nv_acq c"

text \<open>\<open>None\<close>: the property cannot be set.\<close>

fun prop_set :: "u64 \<Rightarrow> u64 \<Rightarrow> nvmf_prop \<Rightarrow> (u32 \<Rightarrow> nvmf_ctrlr \<Rightarrow> bool \<times> nvmf_ctrlr) option" where
  "prop_set now hz PropCc = Some (prop_set_cc now hz)"
| "prop_set now hz PropAqa = Some prop_set_aqa"
| "prop_set now hz PropAsq = Some (\<lambda>v c. (True, c\<lparr>nv_asq := lower_half (nv_asq c) v\<rparr>))"
| "prop_set now hz PropAcq = Some (\<lambda>v c. (True, c\<lparr>nv_acq := lower_half (nv_acq c) v\<rparr>))"
| "prop_set now hz _ = None"

fun prop_set_upper :: "nvmf_prop \<Rightarrow> (u32 \<Rightarrow> nvmf_ctrlr \<Rightarrow> bool \<times> nvmf_ctrlr) option" where
  "prop_set_upper PropAsq = Some (\<lambda>v c. (True, c\<lparr>nv_asq := upper_half (nv_asq c) v\<rparr>))"
| "prop_set_upper PropAcq = Some (\<lambda>v c. (True, c\<lparr>nv_acq := upper_half (nv_acq c) v\<rparr>))"
| "prop_set_upper _ = None"

text \<open>The sums are taken in 32 bits.\<close>

definition find_prop :: "u32 \<Rightarrow> u32 \<Rightarrow> nvmf_prop option" where
  "find_prop ofst sz =
     List.find (\<lambda>p. ofst \<ge> prop_ofst p \<and> ofst + sz \<le> prop_ofst p + prop_size p) nvmf_props"

definition attrib_size :: "u8 \<Rightarrow> u32 option" where
  "attrib_size a = (if a = 0 then Some 4 else if a = 1 then Some 8 else None)"

abbreviation st_fabric :: "u8 \<Rightarrow> spdk_nvme_status" where
  "st_fabric sc \<equiv> \<lparr>st_sct = 1, st_sc = sc, st_dnr = False, st_crd = 0\<rparr>"
abbreviation st_invalid_param :: spdk_nvme_status where "st_invalid_param \<equiv> st_fabric 0x82"

definition property_get :: "u8 \<Rightarrow> u32 \<Rightarrow> nvmf_ctrlr \<Rightarrow> spdk_nvme_status \<times> u64" where
  "property_get attrib ofst c =
     (case attrib_size attrib of
        None \<Rightarrow> (st_invalid_param, 0)
      | Some sz \<Rightarrow>
          (case find_prop ofst sz of
             None \<Rightarrow> (st_invalid_param, 0)
           | Some p \<Rightarrow>
               let v = prop_get p c
               in (st_success,
                   if sz \<noteq> prop_size p
                   then (if ofst = prop_ofst p then v AND 0xFFFFFFFF else drop_bit 32 v)
                   else v)))"

text \<open>\<open>Inl\<close>: a null function pointer is called.\<close>

definition property_set ::
    "u64 \<Rightarrow> u64 \<Rightarrow> u8 \<Rightarrow> u32 \<Rightarrow> u64 \<Rightarrow> nvmf_ctrlr \<Rightarrow> fault + spdk_nvme_status \<times> nvmf_ctrlr" where
  "property_set now hz attrib ofst v c =
     (let answer = (\<lambda>(ok, c'). (if ok then st_success else st_invalid_param, c')) in
      case attrib_size attrib of
        None \<Rightarrow> Inr (st_invalid_param, c)
      | Some sz \<Rightarrow>
          (case find_prop ofst sz of
             None \<Rightarrow> Inr (st_invalid_param, c)
           | Some p \<Rightarrow>
               (case prop_set now hz p of
                  None \<Rightarrow> Inr (st_invalid_param, c)
                | Some f \<Rightarrow>
                    if prop_size p = 4 then Inr (answer (f (ucast v) c))
                    else if sz \<noteq> prop_size p then
                      (if ofst = prop_ofst p then Inr (answer (f (ucast v) c))
                       else case prop_set_upper p of
                              None \<Rightarrow> Inl NullDeref
                            | Some up \<Rightarrow> Inr (answer (up (ucast v) c)))
                    else
                      let (ok, c1) = f (ucast v) c
                      in if \<not> ok then Inr (answer (ok, c1))
                         else case prop_set_upper p of
                                None \<Rightarrow> Inl NullDeref
                              | Some up \<Rightarrow> Inr (answer (up (ucast (drop_bit 32 v)) c1)))))"

section \<open>Queue pairs of the controller\<close>

definition set_qid :: "u16 \<Rightarrow> bool \<Rightarrow> nvmf_ctrlr \<Rightarrow> nvmf_ctrlr" where
  "set_qid qid b c = c\<lparr>nv_qpair_mask := (nv_qpair_mask c)[unat qid := b]\<rparr>"

definition qid_used :: "u16 \<Rightarrow> nvmf_ctrlr \<Rightarrow> bool" where
  "qid_used qid c \<longleftrightarrow> unat qid < length (nv_qpair_mask c) \<and> nv_qpair_mask c ! unat qid"

abbreviation st_invalid_queue_id :: spdk_nvme_status where "st_invalid_queue_id \<equiv> st_fabric 0x01"

definition add_qpair_and_update_rsp :: "u16 \<Rightarrow> nvmf_ctrlr \<Rightarrow> spdk_nvme_status \<times> nvmf_ctrlr" where
  "add_qpair_and_update_rsp qid c =
     (if unat qid \<ge> length (nv_qpair_mask c) then (st_invalid_queue_id, c)
      else if qid_used qid c then (st_invalid_queue_id, c)
      else (st_success, set_qid qid True c))"

text \<open>\<open>_nvmf_ctrlr_add_admin_qpair\<close>, on the thread of the controller.\<close>

definition add_admin_qpair :: "u64 \<Rightarrow> u32 \<Rightarrow> nvmf_ctrlr \<Rightarrow> spdk_nvme_status \<times> nvmf_ctrlr" where
  "add_admin_qpair now timeout c =
     add_qpair_and_update_rsp 0
       (start_keep_alive_timer now (c\<lparr>nv_admin_qpair := Some QPAIR_ACTIVE, nv_association_timeout := timeout\<rparr>))"

text \<open>The sizes of a command and of a completion are 64 and 16 bytes. \<open>group\<close> of the code is null
  once the queue pair has left its poll group, in the state \<open>QPAIR_ERROR\<close>.\<close>

definition add_io_qpair :: "u16 \<Rightarrow> nvmf_ctrlr \<Rightarrow> fault + spdk_nvme_status \<times> nvmf_ctrlr" where
  "add_io_qpair qid c =
     (if nv_in_destruct c then Inr (st_invalid_param, c)
      else if nv_discovery c then Inr (st_invalid_param, c)
      else if cc_en (nv_cc c) = 0 then Inr (st_invalid_param, c)
      else if (2::nat) ^ unat (cc_iosqes (nv_cc c)) \<noteq> 64 then Inr (st_invalid_param, c)
      else if (2::nat) ^ unat (cc_iocqes (nv_cc c)) \<noteq> 16 then Inr (st_invalid_param, c)
      else case nv_admin_qpair c of
             None \<Rightarrow> Inl NullDeref
           | Some st \<Rightarrow>
               if st \<noteq> QPAIR_ACTIVE then Inr (st_invalid_param, c)
               else Inr (add_qpair_and_update_rsp qid c))"

text \<open>\<open>_nvmf_ctrlr_add_io_qpair\<close>, on the thread of the subsystem, for a controller it has found;
  \<open>same\<close>: the listeners agree, where that is checked.\<close>

definition subsys_add_io_qpair :: "bool \<Rightarrow> u16 \<Rightarrow> nvmf_ctrlr \<Rightarrow> fault + nvmf_ctrlr" where
  "subsys_add_io_qpair same qid c =
     (if nv_in_destruct c then Inr (take_note (NoteRefused qid) c)
      else if \<not> same then Inr (take_note (NoteRefused qid) c)
      else case nv_admin_qpair c of
             None \<Rightarrow> Inl NullDeref
           | Some st \<Rightarrow>
               if st \<noteq> QPAIR_ACTIVE then Inr (take_note (NoteRefused qid) c)
               else Inr (c\<lparr>nv_msgs := nv_msgs c @ [MsgAddIoQpair qid]\<rparr>))"

text \<open>\<open>_nvmf_ctrlr_free_from_qpair\<close>: the last queue pair takes the controller with it. Its message
  to the thread of the subsystem is the flag \<open>nv_in_destruct\<close> of a controller that is still in the
  list.\<close>

definition free_from_qpair :: "u16 \<Rightarrow> nvmf_ctrlr \<Rightarrow> nvmf_ctrlr" where
  "free_from_qpair qid c =
     (let c1 = set_qid qid False c in
      if count_set (nv_qpair_mask c1) = 0 then c1\<lparr>nv_in_destruct := True\<rparr> else c1)"

text \<open>\<open>nvmf_ctrlr_destruct\<close>, on the thread of the subsystem.\<close>

definition ctrlr_destruct :: "nvmf_ctrlr \<Rightarrow> nvmf_ctrlr" where
  "ctrlr_destruct c = c\<lparr>nv_listed := False, nv_msgs := nv_msgs c @ [MsgDestruct]\<rparr>"

text \<open>\<open>_nvmf_ctrlr_destruct\<close>, on the thread of the controller: it is put off while a reset is going
  on.\<close>

definition ctrlr_free :: "nvmf_ctrlr \<Rightarrow> nvmf_ctrlr" where
  "ctrlr_free c =
     (if nv_disconnect_in_progress c then c\<lparr>nv_msgs := nv_msgs c @ [MsgDestruct]\<rparr>
      else (stop_association_timer (stop_keep_alive_timer c))\<lparr>nv_freed := True\<rparr>)"

section \<open>Steps\<close>

datatype life_event =
    LfPropertySet u64 u64 u8 u32 u64 \<comment> \<open>clock, its rate, attributes, offset, value\<close>
  | LfKeepAlive u64
  | LfKeepAlivePoll u64 u64
  | LfIterDone u64
  | LfCcTimer u64
  | LfCcTimeout
  | LfAssociationTimer
  | LfConnectIo bool u16
  | LfAdminState spdk_nvmf_qpair_state
  | LfQpairGone u16 \<comment> \<open>the transport has torn the queue pair down\<close>
  | LfSubsystemDestructs
  | LfMessage

definition take_msg :: "ctrlr_msg \<Rightarrow> nvmf_ctrlr \<Rightarrow> fault + nvmf_ctrlr" where
  "take_msg m c =
     (if nv_freed c then Inl UseAfterFree
      else case m of
        MsgAddIoQpair qid \<Rightarrow>
          bindR (add_io_qpair qid c) (\<lambda>(st, c1).
            Inr (take_note (if st = st_success then NoteConnected qid else NoteRefused qid) c1))
      | MsgFreeFromQpair qid \<Rightarrow> Inr (free_from_qpair qid c)
      | MsgDestruct \<Rightarrow> Inr (ctrlr_free c))"

text \<open>An event that cannot happen leaves the controller as it is: a timer that is not registered, a
  command without an admin queue pair, a queue pair that is not connected, an empty queue of
  messages.\<close>

definition happens :: "bool \<Rightarrow> nvmf_ctrlr \<Rightarrow> fault + nvmf_ctrlr \<Rightarrow> fault + nvmf_ctrlr" where
  "happens b c r = (if b then (if nv_freed c then Inl UseAfterFree else r) else Inr c)"

definition life_step :: "nvmf_ctrlr \<Rightarrow> life_event \<Rightarrow> fault + nvmf_ctrlr" where
  "life_step c e =
     (case e of
        LfPropertySet now hz attrib ofst v \<Rightarrow>
          happens (nv_admin_qpair c \<noteq> None) c (bindR (property_set now hz attrib ofst v c) (\<lambda>(_, c'). Inr c'))
      | LfKeepAlive now \<Rightarrow> happens (nv_admin_qpair c \<noteq> None) c (Inr (keep_alive now c))
      | LfKeepAlivePoll now hz \<Rightarrow> happens (nv_keep_alive_poller c) c (Inr (keep_alive_poll now hz c))
      | LfIterDone now \<Rightarrow> happens (nv_iter c) c (Inr (cc_reset_shn_done now (c\<lparr>nv_iter := False\<rparr>)))
      | LfCcTimer now \<Rightarrow> happens (nv_cc_timer c) c (Inr (cc_reset_shn_done now c))
      | LfCcTimeout \<Rightarrow> happens (nv_cc_timeout_timer c) c (cc_timeout c)
      | LfAssociationTimer \<Rightarrow> happens (nv_association_timer c) c (Inr (association_remove c))
      | LfConnectIo same qid \<Rightarrow> happens (nv_listed c) c (subsys_add_io_qpair same qid c)
      | LfAdminState st \<Rightarrow> happens (nv_admin_qpair c \<noteq> None) c (Inr (c\<lparr>nv_admin_qpair := Some st\<rparr>))
      | LfQpairGone qid \<Rightarrow>
          happens (qid_used qid c \<and> MsgFreeFromQpair qid \<notin> set (nv_msgs c)) c
            (Inr (c\<lparr>nv_admin_qpair := if qid = 0 then None else nv_admin_qpair c,
                    nv_msgs := nv_msgs c @ [MsgFreeFromQpair qid]\<rparr>))
      | LfSubsystemDestructs \<Rightarrow> happens (nv_in_destruct c \<and> nv_listed c) c (Inr (ctrlr_destruct c))
      | LfMessage \<Rightarrow>
          (case nv_msgs c of [] \<Rightarrow> Inr c | m # ms \<Rightarrow> take_msg m (c\<lparr>nv_msgs := ms\<rparr>)))"

section \<open>Creation\<close>

text \<open>What a new controller depends on: the options of its transport, its subsystem, the keep-alive
  time-out of the command, and the library function that divides and rounds up.\<close>

record ctrlr_cfg =
  cf_max_qpairs :: u16
  cf_max_queue_depth :: u16
  cf_association_timeout :: u32
  cf_discovery :: bool
  cf_multi_iocs :: bool
  cf_kato :: u32
  cf_round_up :: "u64 \<Rightarrow> u64 \<Rightarrow> u64" \<comment> \<open>\<open>spdk_divide_round_up\<close>\<close>

abbreviation KAS_GRANULE :: u64 where "KAS_GRANULE \<equiv> 10000"
abbreviation NVMF_DISC_KATO_IN_MS :: u32 where "NVMF_DISC_KATO_IN_MS \<equiv> 120000"

text \<open>The time-out is kept in a field of 32 bits.\<close>

definition round_kato :: "(u64 \<Rightarrow> u64 \<Rightarrow> u64) \<Rightarrow> u32 \<Rightarrow> u32" where
  "round_kato round_up kato = ucast (round_up (ucast kato) KAS_GRANULE * KAS_GRANULE)"

definition initial_kato :: "ctrlr_cfg \<Rightarrow> u32" where
  "initial_kato cf =
     (let k = round_kato (cf_round_up cf) (cf_kato cf)
      in if cf_discovery cf \<and> k = 0 then NVMF_DISC_KATO_IN_MS else k)"

text \<open>The capabilities: the depth of a queue, contiguous queues, the time to become ready in units of
  500 ms, and the command sets.\<close>

definition initial_cap :: "ctrlr_cfg \<Rightarrow> u64" where
  "initial_cap cf =
     ucast (cf_max_queue_depth cf - 1) OR push_bit 16 1 OR push_bit 24 30 OR
     push_bit 37 (if cf_multi_iocs cf then 0x40 else 1)"

text \<open>\<open>nvmf_ctrlr_create\<close>, up to the message that adds the controller to its subsystem.\<close>

definition ctrlr_create :: "ctrlr_cfg \<Rightarrow> nvmf_ctrlr" where
  "ctrlr_create cf =
     \<lparr>nv_cap = initial_cap cf, nv_vs = 0x00010300, nv_cc = (if cf_multi_iocs cf then put_bits 4 3 CSS_IOCS 0 else 0),
      nv_csts = 0, nv_aqa = 0, nv_asq = 0, nv_acq = 0, nv_kato = initial_kato cf,
      nv_last_keep_alive = 0, nv_keep_alive_poller = False, nv_association_timer = False,
      nv_association_timeout = 0, nv_cc_timer = False, nv_cc_timeout_timer = False, nv_cc_timeout_tsc = 0,
      nv_disconnect_in_progress = False, nv_disconnect_is_shn = False, nv_in_destruct = False,
      nv_qpair_mask = replicate (unat (cf_max_qpairs cf)) False, nv_admin_qpair = None, nv_discovery = cf_discovery cf,
      nv_iter = False, nv_listed = False, nv_msgs = [], nv_notes = [], nv_freed = False\<rparr>"

text \<open>A controller whose subsystem has taken it up and whose admin queue pair has been connected.\<close>

definition new_ctrlr :: "ctrlr_cfg \<Rightarrow> u64 \<Rightarrow> nvmf_ctrlr" where
  "new_ctrlr cf now =
     snd (add_admin_qpair now (cf_association_timeout cf) ((ctrlr_create cf)\<lparr>nv_listed := True\<rparr>))"

end
