(* ===== verification/Ctrlr_Life_Props.thy ===== *)
theory Ctrlr_Life_Props
  imports Ctrlr_Life
begin

unbundle bit_operations_syntax

text \<open>
  What holds of a controller over its whole life: the properties a host reads and writes, how a
  reset or shutdown ends, and that no timer and no message ever reaches a controller that has been
  freed; and where the code fails.
\<close>

section \<open>Bit fields\<close>

lemma bit_get_bits: "bit (get_bits lo n w) i \<longleftrightarrow> i < n \<and> bit w (lo + i)"
  by (auto simp: get_bits_def bit_take_bit_iff bit_drop_bit_eq dest: bit_imp_le_length)

lemma bit_put_bits:
  "bit (put_bits lo n v w) i \<longleftrightarrow> (if lo \<le> i \<and> i < lo + n then i < 32 \<and> bit v (i - lo) else bit w i)"
  by (auto simp: put_bits_def bit_and_iff bit_or_iff bit_not_iff bit_push_bit_iff bit_take_bit_iff bit_mask_iff
      dest: bit_imp_le_length)

lemma get_put_same: "lo + n \<le> 32 \<Longrightarrow> get_bits lo n (put_bits lo n v w) = take_bit n v"
  by (rule bit_word_eqI) (auto simp: bit_get_bits bit_put_bits bit_take_bit_iff)

lemma get_put_other: "lo' + n' \<le> lo \<or> lo + n \<le> lo' \<Longrightarrow> get_bits lo' n' (put_bits lo n v w) = get_bits lo' n' w"
  by (rule bit_word_eqI) (auto simp: bit_get_bits bit_put_bits)

lemma get_bits_xor: "get_bits lo n (v XOR w) = get_bits lo n v XOR get_bits lo n w"
  by (rule bit_word_eqI) (auto simp: bit_get_bits bit_xor_iff)

lemma get_bits_diff: "get_bits lo n (v XOR w) = 0 \<longleftrightarrow> get_bits lo n v = get_bits lo n w"
proof -
  have "a XOR b = 0 \<longleftrightarrow> a = b" for a b :: u32
    by (metis bit.xor_left_self bit.xor_self xor.right_neutral)
  then show ?thesis by (simp add: get_bits_xor)
qed

lemma one_bit: "get_bits lo 1 w = (if bit w lo then 1 else 0)"
  by (rule bit_word_eqI) (auto simp: bit_get_bits bit_1_iff)

section \<open>Properties\<close>

lemma word_sum_le:
  assumes "unat a + unat b < 2 ^ 32"
  shows "(a :: u32) + b \<le> c \<longleftrightarrow> unat a + unat b \<le> unat c"
proof -
  have "unat (a + b) = unat a + unat b" using assms by (simp add: unat_word_ariths)
  then show ?thesis by (simp add: word_le_nat_alt)
qed

lemma prop_numbers: "unat (prop_ofst p + prop_size p) = unat (prop_ofst p) + unat (prop_size p)"
  by (cases p) (simp_all add: prop_size_def)

lemma find_prop_exact:
  assumes "sz = 4 \<or> sz = 8" and "unat ofst + unat sz < 2 ^ 32"
  shows "find_prop ofst sz = Some p \<longleftrightarrow>
    unat (prop_ofst p) \<le> unat ofst \<and> unat ofst + unat sz \<le> unat (prop_ofst p) + unat (prop_size p)"
proof -
  have e: "ofst \<ge> prop_ofst p \<and> ofst + sz \<le> prop_ofst p + prop_size p \<longleftrightarrow>
      unat (prop_ofst p) \<le> unat ofst \<and> unat ofst + unat sz \<le> unat (prop_ofst p) + unat (prop_size p)" for p
    unfolding word_sum_le [OF assms(2)] prop_numbers by (simp add: word_le_nat_alt)
  have s: "unat sz = 4 \<or> unat sz = 8" using assms(1) by auto
  show ?thesis unfolding find_prop_def e nvmf_props_def
    by (cases p) (use s in \<open>auto simp: prop_size_def\<close>)
qed

lemma mask_32: "(0xFFFFFFFF :: u64) = mask 32"
  by (simp add: mask_eq_exp_minus_1)

lemma halves:
  shows "lower_half (upper_half old v) w = push_bit 32 (ucast v) OR ucast w"
    and "upper_half (lower_half old w) v = push_bit 32 (ucast v) OR ucast w"
proof -
  show "lower_half (upper_half old v) w = push_bit 32 (ucast v) OR ucast w"
    unfolding lower_half_def upper_half_def mask_32 by (rule bit_word_eqI) (auto simp: bit_simps dest: bit_imp_le_length)
  show "upper_half (lower_half old w) v = push_bit 32 (ucast v) OR ucast w"
    unfolding lower_half_def upper_half_def mask_32 by (rule bit_word_eqI) (auto simp: bit_simps dest: bit_imp_le_length)
qed

lemma join_halves: "push_bit 32 (ucast (ucast (drop_bit 32 v) :: u32)) OR ucast (ucast v :: u32) = (v :: u64)"
  by (rule bit_word_eqI) (auto simp: bit_simps)

lemma asq_access: "find_prop 0x28 8 = Some PropAsq" "find_prop 0x28 4 = Some PropAsq" "find_prop 0x2c 4 = Some PropAsq"
  by code_simp+

text \<open>The 64-bit address of the admin submission queue is read back as it was written, whether it is
  written at once or in two halves, in either order, and each half can be read alone.\<close>

theorem queue_address_roundtrip:
  "(\<exists>c'. property_set now hz 1 0x28 v c = Inr (st_success, c') \<and> property_get 1 0x28 c' = (st_success, v) \<and>
      property_get 0 0x28 c' = (st_success, v AND 0xFFFFFFFF) \<and> property_get 0 0x2c c' = (st_success, drop_bit 32 v)) \<and>
   (\<exists>c1 c2. property_set now hz 0 0x28 v c = Inr (st_success, c1) \<and>
      property_set now hz 0 0x2c (drop_bit 32 v) c1 = Inr (st_success, c2) \<and> property_get 1 0x28 c2 = (st_success, v)) \<and>
   (\<exists>c1 c2. property_set now hz 0 0x2c (drop_bit 32 v) c = Inr (st_success, c1) \<and>
      property_set now hz 0 0x28 v c1 = Inr (st_success, c2) \<and> property_get 1 0x28 c2 = (st_success, v))"
  by (simp add: property_set_def property_get_def attrib_size_def asq_access prop_size_def halves join_halves)

text \<open>At the end of the address space the sum of offset and size wraps around: a read there is not
  refused, but answered with the capabilities of the controller. Everywhere else a property is
  found exactly when the range that is read lies in it.\<close>

theorem property_offset_wraps:
  assumes "ofst \<ge> 0xFFFFFFFC"
  shows "property_get 0 ofst c = (st_success, drop_bit 32 (nv_cap c))"
proof -
  have o: "4294967292 \<le> unat ofst" using assms by (simp add: word_le_nat_alt)
  have "unat ofst < 2 ^ 32" by (rule unat_u32_less)
  then have "unat (ofst + 4) = unat ofst + 4 - 2 ^ 32"
    using o by (simp add: unat_word_ariths mod_if)
  then have "ofst + 4 \<le> 8" using \<open>unat ofst < 2 ^ 32\<close> by (simp add: word_le_nat_alt)
  then have "find_prop ofst 4 = Some PropCap" by (simp add: find_prop_def nvmf_props_def prop_size_def)
  moreover have "ofst \<noteq> 0" using o by auto
  ultimately show ?thesis by (simp add: property_get_def attrib_size_def prop_size_def)
qed

text \<open>The configuration that the examples use.\<close>

definition life_cfg :: ctrlr_cfg where
  "life_cfg = \<lparr>cf_max_qpairs = 2, cf_max_queue_depth = 128, cf_association_timeout = 60, cf_discovery = False,
     cf_multi_iocs = False, cf_kato = 1000, cf_round_up = \<lambda>a b. (a + b - 1) div b\<rparr>"

theorem property_offset_wraps_witness:
  "property_get 0 0xFFFFFFFE (new_ctrlr life_cfg 0) = (st_success, 0x20)"
proof -
  have "drop_bit 32 (nv_cap (new_ctrlr life_cfg 0)) = 0x20" by code_simp
  then show ?thesis
    using property_offset_wraps [where ofst = "0xFFFFFFFE" and c = "new_ctrlr life_cfg 0"] by simp
qed

section \<open>Setting a property\<close>

text \<open>What setting a property can change besides the registers: timers are stopped, and a reset or
  shutdown is started when none is going on.\<close>

definition prop_frame :: "nvmf_ctrlr \<Rightarrow> nvmf_ctrlr \<Rightarrow> bool" where
  "prop_frame c c' \<longleftrightarrow>
     nv_qpair_mask c' = nv_qpair_mask c \<and> nv_admin_qpair c' = nv_admin_qpair c \<and> nv_msgs c' = nv_msgs c \<and>
     nv_listed c' = nv_listed c \<and> nv_freed c' = nv_freed c \<and> nv_in_destruct c' = nv_in_destruct c \<and>
     nv_cc_timer c' = nv_cc_timer c \<and> nv_association_timeout c' = nv_association_timeout c \<and>
     (nv_keep_alive_poller c' \<longrightarrow> nv_keep_alive_poller c) \<and> (nv_association_timer c' \<longrightarrow> nv_association_timer c) \<and>
     ((nv_disconnect_in_progress c' = nv_disconnect_in_progress c \<and> nv_iter c' = nv_iter c \<and>
       nv_cc_timeout_timer c' = nv_cc_timeout_timer c) \<or>
      (\<not> nv_disconnect_in_progress c \<and> nv_disconnect_in_progress c' \<and> nv_iter c' \<and> nv_cc_timeout_timer c'))"

lemma set_cc_en_frame:
  "set_cc_en now hz v diff c = Inr c' \<Longrightarrow> prop_frame c c'"
  "set_cc_en now hz v diff c = Inl (b, c') \<Longrightarrow> prop_frame c c'"
  by (auto simp: set_cc_en_def prop_frame_def stop_association_timer_def start_disconnect_def split: if_splits)

lemma set_cc_shn_frame:
  "set_cc_shn now hz v diff c = Inr c' \<Longrightarrow> prop_frame c c'"
  "set_cc_shn now hz v diff c = Inl (b, c') \<Longrightarrow> prop_frame c c'"
  by (auto simp: set_cc_shn_def prop_frame_def stop_keep_alive_timer_def start_disconnect_def split: if_splits)

lemma prop_frame_refl [simp]: "prop_frame c c"
  by (simp add: prop_frame_def)

lemma prop_frame_trans: "prop_frame c c1 \<Longrightarrow> prop_frame c1 c2 \<Longrightarrow> prop_frame c c2"
  unfolding prop_frame_def by argo

lemma prop_frame_regs:
  "prop_frame c c1 \<Longrightarrow> prop_frame c (c1\<lparr>nv_cc := a\<rparr>)"
  "prop_frame c (c\<lparr>nv_asq := x\<rparr>)" "prop_frame c (c\<lparr>nv_acq := x\<rparr>)" "prop_frame c (c\<lparr>nv_aqa := y\<rparr>)"
  by (simp_all add: prop_frame_def)

lemma prop_set_cc_frame: "prop_set_cc now hz v c = (ok, c') \<Longrightarrow> prop_frame c c'"
proof (cases "bindR (set_cc_en now hz v (v XOR nv_cc c) c) (set_cc_shn now hz v (v XOR nv_cc c))")
  case (Inl r)
  assume "prop_set_cc now hz v c = (ok, c')"
  with Inl show ?thesis
    by (auto simp: prop_set_cc_def bindR_eq_Inl Let_def
        intro: set_cc_en_frame(2) prop_frame_trans [OF set_cc_en_frame(1) set_cc_shn_frame(2)])
next
  case (Inr c1)
  then have f: "prop_frame c c1"
    by (auto simp: bindR_eq_Inr intro: prop_frame_trans [OF set_cc_en_frame(1) set_cc_shn_frame(1)])
  assume "prop_set_cc now hz v c = (ok, c')"
  with Inr f show ?thesis
    by (auto simp: prop_set_cc_def Let_def split: if_splits intro!: prop_frame_regs)
qed

lemma prop_set_frame:
  assumes "prop_set now hz p = Some f" and "f v c = (ok, c')"
  shows "prop_frame c c'"
  using assms by (cases p) (auto simp: prop_set_aqa_def prop_frame_regs dest: prop_set_cc_frame split: if_splits)

lemma prop_set_upper_frame:
  assumes "prop_set_upper p = Some f" and "f v c = (ok, c')"
  shows "prop_frame c c'"
  using assms by (cases p) (auto simp: prop_frame_regs)

lemma prop_set_upper_some: "prop_set now hz p = Some f \<Longrightarrow> prop_size p \<noteq> 4 \<Longrightarrow> \<exists>g. prop_set_upper p = Some g"
  by (cases p) (auto simp: prop_size_def)

text \<open>Setting a property never faults: every property of eight bytes that can be set has both of its
  functions.\<close>

lemma property_set_total: "\<exists>st c'. property_set now hz attrib ofst v c = Inr (st, c') \<and> prop_frame c c'"
proof (cases "attrib_size attrib")
  case None
  then show ?thesis by (simp add: property_set_def)
next
  case (Some sz)
  show ?thesis
  proof (cases "find_prop ofst sz")
    case None
    with Some show ?thesis by (simp add: property_set_def)
  next
    case p: (Some p)
    show ?thesis
    proof (cases "prop_set now hz p")
      case None
      with Some p show ?thesis by (simp add: property_set_def)
    next
      case f: (Some f)
      obtain ok c1 where r: "f (ucast v) c = (ok, c1)" by (metis surj_pair)
      note fr = prop_set_frame [OF f r]
      show ?thesis
      proof (cases "prop_size p = 4")
        case True
        with Some p f r fr show ?thesis by (auto simp: property_set_def)
      next
        case False
        then obtain g where g: "prop_set_upper p = Some g" using prop_set_upper_some [OF f] by blast
        obtain ok2 c2 where r2: "g (ucast v) c = (ok2, c2)" by (metis surj_pair)
        obtain ok3 c3 where r3: "g (ucast (drop_bit 32 v)) c1 = (ok3, c3)" by (metis surj_pair)
        show ?thesis
          using Some p f r fr g r2 r3 False prop_set_upper_frame [OF g r2]
            prop_frame_trans [OF fr prop_set_upper_frame [OF g r3]]
          by (simp add: property_set_def Let_def)
      qed
    qed
  qed
qed

section \<open>The life of a controller\<close>

definition life_inv :: "nvmf_ctrlr \<Rightarrow> bool" where
  "life_inv c \<longleftrightarrow>
     (nv_disconnect_in_progress c \<longleftrightarrow> nv_iter c \<or> nv_cc_timer c) \<and> \<not> (nv_iter c \<and> nv_cc_timer c) \<and>
     (nv_cc_timeout_timer c \<longrightarrow> nv_iter c \<or> nv_cc_timer c) \<and>
     (nv_in_destruct c \<longrightarrow> True \<notin> set (nv_qpair_mask c)) \<and>
     (nv_admin_qpair c \<noteq> None \<longrightarrow> qid_used 0 c \<and> MsgFreeFromQpair 0 \<notin> set (nv_msgs c)) \<and>
     (\<forall>qid. MsgFreeFromQpair qid \<in> set (nv_msgs c) \<longrightarrow> qid_used qid c) \<and>
     (\<forall>qid. count_list (nv_msgs c) (MsgFreeFromQpair qid) \<le> 1) \<and>
     (\<not> nv_listed c \<longrightarrow> nv_in_destruct c) \<and>
     (if nv_listed c then MsgDestruct \<notin> set (nv_msgs c)
      else if nv_freed c then nv_msgs c = []
      else \<exists>ms. nv_msgs c = ms @ [MsgDestruct] \<and> MsgDestruct \<notin> set ms) \<and>
     (nv_freed c \<longrightarrow> \<not> nv_listed c \<and> \<not> nv_disconnect_in_progress c \<and> \<not> nv_keep_alive_poller c \<and>
        \<not> nv_association_timer c)"

lemma qid_used_set: "qid_used qid c \<Longrightarrow> True \<in> set (nv_qpair_mask c)"
  by (auto simp: qid_used_def in_set_conv_nth)

lemma count_set_zero: "count_set bs = 0 \<longleftrightarrow> True \<notin> set bs"
  by (auto simp: count_set_def filter_empty_conv)

lemma qid_used_set_qid:
  "qid_used q (set_qid qid b c) \<longleftrightarrow> (if q = qid then unat q < length (nv_qpair_mask c) \<and> b else qid_used q c)"
  by (cases "q = qid") (auto simp: qid_used_def set_qid_def nth_list_update word_unat_eq_iff)

text \<open>Once freed, a controller is left alone.\<close>

lemma freed_step:
  assumes inv: "life_inv c" and f: "nv_freed c"
  shows "life_step c e = Inr c"
proof -
  have n: "\<not> nv_listed c" "\<not> nv_disconnect_in_progress c" "\<not> nv_keep_alive_poller c" "\<not> nv_association_timer c"
    using inv f by (auto simp: life_inv_def)
  then have t: "\<not> nv_iter c" "\<not> nv_cc_timer c" "\<not> nv_cc_timeout_timer c" "nv_in_destruct c" "nv_msgs c = []"
    using inv f by (auto simp: life_inv_def)
  then have m: "\<not> qid_used qid c" for qid using inv qid_used_set [of qid c] by (auto simp: life_inv_def)
  have "nv_admin_qpair c = None" using inv m [of 0] by (auto simp: life_inv_def)
  with n t m show ?thesis by (cases e) (simp_all add: life_step_def happens_def)
qed

lemma life_inv_frame:
  assumes "life_inv c" and "\<not> nv_freed c" and "prop_frame c c'"
  shows "life_inv c'"
proof -
  have q: "qid_used qid c' = qid_used qid c" for qid using assms(3) by (simp add: qid_used_def prop_frame_def)
  have e: "nv_qpair_mask c' = nv_qpair_mask c" "nv_admin_qpair c' = nv_admin_qpair c" "nv_msgs c' = nv_msgs c"
     "nv_listed c' = nv_listed c" "nv_freed c' = nv_freed c" "nv_in_destruct c' = nv_in_destruct c"
     "nv_cc_timer c' = nv_cc_timer c" using assms(3) by (simp_all add: prop_frame_def)
  have t: "(nv_disconnect_in_progress c' = nv_disconnect_in_progress c \<and> nv_iter c' = nv_iter c \<and>
       nv_cc_timeout_timer c' = nv_cc_timeout_timer c) \<or>
      (\<not> nv_disconnect_in_progress c \<and> nv_disconnect_in_progress c' \<and> nv_iter c' \<and> nv_cc_timeout_timer c')"
    using assms(3) by (simp add: prop_frame_def)
  show ?thesis
    using assms(1,2) t unfolding life_inv_def q e by argo
qed

text \<open>Steps that only touch registers, notes and timers that are no part of the invariant.\<close>

definition quiet :: "nvmf_ctrlr \<Rightarrow> nvmf_ctrlr \<Rightarrow> bool" where
  "quiet c c' \<longleftrightarrow> nv_qpair_mask c' = nv_qpair_mask c \<and> nv_admin_qpair c' = nv_admin_qpair c \<and> nv_msgs c' = nv_msgs c \<and>
     nv_listed c' = nv_listed c \<and> nv_freed c' = nv_freed c \<and> nv_in_destruct c' = nv_in_destruct c \<and>
     nv_cc_timer c' = nv_cc_timer c \<and> nv_iter c' = nv_iter c \<and>
     nv_disconnect_in_progress c' = nv_disconnect_in_progress c \<and>
     (nv_cc_timeout_timer c' \<longrightarrow> nv_cc_timeout_timer c)"

lemma life_inv_quiet:
  assumes "life_inv c" and "\<not> nv_freed c" and "quiet c c'"
  shows "life_inv c'"
proof -
  have q: "qid_used qid c' = qid_used qid c" for qid using assms(3) by (simp add: qid_used_def quiet_def)
  have e: "nv_qpair_mask c' = nv_qpair_mask c" "nv_admin_qpair c' = nv_admin_qpair c" "nv_msgs c' = nv_msgs c"
     "nv_listed c' = nv_listed c" "nv_freed c' = nv_freed c" "nv_in_destruct c' = nv_in_destruct c"
     "nv_cc_timer c' = nv_cc_timer c" "nv_iter c' = nv_iter c"
     "nv_disconnect_in_progress c' = nv_disconnect_in_progress c"
    and t: "nv_cc_timeout_timer c' \<longrightarrow> nv_cc_timeout_timer c" using assms(3) by (simp_all add: quiet_def)
  show ?thesis
    using assms(1,2) t unfolding life_inv_def q e by argo
qed

lemma reset_done_inv:
  assumes inv: "life_inv c" and f: "\<not> nv_freed c" and s: "nv_iter c \<or> nv_cc_timer c"
  shows "life_inv (cc_reset_shn_done now (c\<lparr>nv_iter := False\<rparr>))"
proof -
  let ?c = "cc_reset_shn_done now (c\<lparr>nv_iter := False\<rparr>)"
  have e: "nv_qpair_mask ?c = nv_qpair_mask c" "nv_admin_qpair ?c = nv_admin_qpair c" "nv_msgs ?c = nv_msgs c"
     "nv_listed ?c = nv_listed c" "nv_freed ?c = nv_freed c" "nv_in_destruct ?c = nv_in_destruct c" "nv_iter ?c = False"
    by (simp_all add: cc_reset_shn_done_def Let_def stop_association_timer_def set_fatal_status_def)
  have q: "qid_used qid ?c = qid_used qid c" for qid by (simp add: qid_used_def e(1))
  have t: "(nv_cc_timer ?c \<and> nv_disconnect_in_progress ?c = nv_disconnect_in_progress c \<and>
        nv_cc_timeout_timer ?c = nv_cc_timeout_timer c) \<or>
      (\<not> nv_cc_timer ?c \<and> \<not> nv_disconnect_in_progress ?c \<and> \<not> nv_cc_timeout_timer ?c)"
    by (simp add: cc_reset_shn_done_def Let_def stop_association_timer_def set_fatal_status_def)
  show ?thesis using inv f s t unfolding life_inv_def q e by argo
qed

lemma gone_inv:
  assumes inv: "life_inv c" and f: "\<not> nv_freed c" and q: "qid_used qid c" and m: "MsgFreeFromQpair qid \<notin> set (nv_msgs c)"
  shows "life_inv (c\<lparr>nv_admin_qpair := if qid = 0 then None else nv_admin_qpair c,
    nv_msgs := nv_msgs c @ [MsgFreeFromQpair qid]\<rparr>)" (is "life_inv ?c")
proof -
  have d: "\<not> nv_in_destruct c" using inv qid_used_set [OF q] by (auto simp: life_inv_def)
  then have l: "nv_listed c" using inv by (auto simp: life_inv_def)
  have u: "qid_used x ?c = qid_used x c" for x by (simp add: qid_used_def)
  show ?thesis
    using inv f q m l d unfolding life_inv_def u by (auto simp: count_list_0_iff [THEN iffD2])
qed

lemma free_from_qpair_inv:
  assumes inv: "life_inv c" and f: "\<not> nv_freed c" and m: "nv_msgs c = MsgFreeFromQpair qid # ms"
  shows "life_inv (free_from_qpair qid (c\<lparr>nv_msgs := ms\<rparr>))"
proof -
  let ?c = "c\<lparr>nv_msgs := ms\<rparr>" and ?d = "free_from_qpair qid (c\<lparr>nv_msgs := ms\<rparr>)"
  have q: "qid_used qid c" and once: "MsgFreeFromQpair qid \<notin> set ms"
    using inv m by (auto simp: life_inv_def count_list_0_iff dest: spec [of _ qid])
  have nd: "\<not> nv_in_destruct c" using inv qid_used_set [OF q] by (auto simp: life_inv_def)
  then have l: "nv_listed c" using inv by (auto simp: life_inv_def)
  have u: "qid_used x ?d \<longleftrightarrow> x \<noteq> qid \<and> qid_used x c" for x
    using qid_used_set_qid [of x qid False ?c] by (simp add: free_from_qpair_def Let_def qid_used_def)
  have e: "nv_msgs ?d = ms" "nv_admin_qpair ?d = nv_admin_qpair c" "nv_listed ?d = nv_listed c" "nv_freed ?d = nv_freed c"
    "nv_iter ?d = nv_iter c" "nv_cc_timer ?d = nv_cc_timer c" "nv_disconnect_in_progress ?d = nv_disconnect_in_progress c"
    "nv_cc_timeout_timer ?d = nv_cc_timeout_timer c"
    by (simp_all add: free_from_qpair_def Let_def set_qid_def)
  have dd: "nv_in_destruct ?d \<longrightarrow> True \<notin> set (nv_qpair_mask ?d)"
    using nd by (simp add: free_from_qpair_def Let_def set_qid_def count_set_zero)
  have one: "count_list ms (MsgFreeFromQpair x) \<le> 1" for x
  proof -
    have "count_list (nv_msgs c) (MsgFreeFromQpair x) \<le> 1" using inv by (simp add: life_inv_def)
    then show ?thesis using m by (simp split: if_splits)
  qed
  have admin: "nv_admin_qpair c \<noteq> None \<longrightarrow> (0 \<noteq> qid \<and> qid_used 0 c) \<and> MsgFreeFromQpair 0 \<notin> set ms"
    using inv m by (auto simp: life_inv_def)
  have frees: "\<forall>x. MsgFreeFromQpair x \<in> set ms \<longrightarrow> x \<noteq> qid \<and> qid_used x c"
    using inv m once by (auto simp: life_inv_def)
  have prog: "(nv_disconnect_in_progress c \<longleftrightarrow> nv_iter c \<or> nv_cc_timer c) \<and> \<not> (nv_iter c \<and> nv_cc_timer c) \<and>
     (nv_cc_timeout_timer c \<longrightarrow> nv_iter c \<or> nv_cc_timer c)" using inv unfolding life_inv_def by argo
  have nm: "MsgDestruct \<notin> set ms" using inv m l by (simp add: life_inv_def)
  show ?thesis
    unfolding life_inv_def u e using prog admin frees dd one l f nm by simp
qed

lemma add_io_inv:
  assumes inv: "life_inv c" and f: "\<not> nv_freed c" and m: "nv_msgs c = MsgAddIoQpair qid # ms"
    and a: "add_io_qpair qid (c\<lparr>nv_msgs := ms\<rparr>) = Inr (st, d)"
  shows "life_inv (take_note n d)"
proof -
  let ?c = "c\<lparr>nv_msgs := ms\<rparr>"
  have c: "life_inv ?c"
  proof -
    have u: "qid_used x ?c = qid_used x c" for x by (simp add: qid_used_def)
    have one: "count_list ms (MsgFreeFromQpair x) \<le> 1" for x
      using inv m by (auto simp: life_inv_def dest: spec [of _ x])
    have "\<exists>ms'. ms = ms' @ [MsgDestruct] \<and> MsgDestruct \<notin> set ms'" if "\<not> nv_listed c"
      using inv f m that by (auto simp: life_inv_def Cons_eq_append_conv)
    then show ?thesis using inv f m one unfolding life_inv_def u by auto
  qed
  show ?thesis
  proof (cases "d = ?c")
    case True
    have "quiet ?c (take_note n d)" using True by (simp add: quiet_def take_note_def)
    then show ?thesis using life_inv_quiet [OF c] f by simp
  next
    case False
    with a have d: "d = set_qid qid True ?c" and nd: "\<not> nv_in_destruct c"
      by (auto simp: add_io_qpair_def add_qpair_and_update_rsp_def split: if_splits option.splits)
    have u: "qid_used x (take_note n d) \<longleftrightarrow> x = qid \<and> unat qid < length (nv_qpair_mask c) \<or> x \<noteq> qid \<and> qid_used x ?c" for x
      using qid_used_set_qid [of x qid True ?c] by (auto simp: d take_note_def qid_used_def)
    have lt: "qid_used qid ?c \<Longrightarrow> unat qid < length (nv_qpair_mask c)" by (simp add: qid_used_def)
    have mono: "qid_used x ?c \<Longrightarrow> qid_used x (take_note n d)" for x using u lt by blast
    have e: "nv_msgs (take_note n d) = ms" "nv_admin_qpair (take_note n d) = nv_admin_qpair c"
      "nv_listed (take_note n d) = nv_listed c" "nv_freed (take_note n d) = nv_freed c"
      "nv_iter (take_note n d) = nv_iter c" "nv_cc_timer (take_note n d) = nv_cc_timer c"
      "nv_disconnect_in_progress (take_note n d) = nv_disconnect_in_progress c"
      "nv_cc_timeout_timer (take_note n d) = nv_cc_timeout_timer c" "nv_in_destruct (take_note n d) = nv_in_destruct c"
      by (simp_all add: d take_note_def set_qid_def)
    show ?thesis using c f nd mono unfolding life_inv_def e by auto
  qed
qed

lemma destruct_inv:
  assumes inv: "life_inv c" and f: "\<not> nv_freed c" and d: "nv_in_destruct c" and l: "nv_listed c"
  shows "life_inv (ctrlr_destruct c)"
proof -
  have u: "qid_used x (ctrlr_destruct c) = qid_used x c" for x by (simp add: qid_used_def ctrlr_destruct_def)
  show ?thesis using inv f d l unfolding life_inv_def u by (auto simp: ctrlr_destruct_def)
qed

lemma ctrlr_free_inv:
  assumes inv: "life_inv c" and f: "\<not> nv_freed c" and m: "nv_msgs c = MsgDestruct # ms"
  shows "life_inv (ctrlr_free (c\<lparr>nv_msgs := ms\<rparr>))"
proof -
  let ?d = "ctrlr_free (c\<lparr>nv_msgs := ms\<rparr>)"
  have l: "\<not> nv_listed c" using inv m by (auto simp: life_inv_def split: if_splits)
  then have ms: "ms = []" using inv f m by (auto simp: life_inv_def Cons_eq_append_conv)
  have u: "qid_used x ?d = qid_used x c" for x
    by (simp add: qid_used_def ctrlr_free_def stop_association_timer_def stop_keep_alive_timer_def)
  have d: "nv_in_destruct c" "True \<notin> set (nv_qpair_mask c)" using inv l by (auto simp: life_inv_def)
  then have "nv_admin_qpair c = None" using inv qid_used_set [of 0 c] by (auto simp: life_inv_def)
  then show ?thesis
    using inv f m l d unfolding life_inv_def u ms
    by (auto simp: ctrlr_free_def stop_association_timer_def stop_keep_alive_timer_def)
qed

lemma take_msg_inv:
  assumes inv: "life_inv c" and m: "nv_msgs c = m # ms" and s: "take_msg m (c\<lparr>nv_msgs := ms\<rparr>) = Inr c'"
  shows "life_inv c'"
proof -
  have f: "\<not> nv_freed c" using s by (auto simp: take_msg_def split: if_splits)
  show ?thesis
  proof (cases m)
    case (MsgAddIoQpair qid)
    from s f MsgAddIoQpair obtain st d where a: "add_io_qpair qid (c\<lparr>nv_msgs := ms\<rparr>) = Inr (st, d)"
      and c': "c' = take_note (if st = st_success then NoteConnected qid else NoteRefused qid) d"
      by (auto simp: take_msg_def bindR_eq_Inr)
    from m MsgAddIoQpair have "nv_msgs c = MsgAddIoQpair qid # ms" by simp
    from add_io_inv [OF inv f this a] show ?thesis by (simp add: c')
  next
    case (MsgFreeFromQpair qid)
    with s f m free_from_qpair_inv [OF inv f] show ?thesis by (auto simp: take_msg_def)
  next
    case MsgDestruct
    with s f m ctrlr_free_inv [OF inv f] show ?thesis by (auto simp: take_msg_def)
  qed
qed

lemma subsys_add_inv:
  assumes inv: "life_inv c" and f: "\<not> nv_freed c" and l: "nv_listed c" and s: "subsys_add_io_qpair same qid c = Inr c'"
  shows "life_inv c'"
proof (cases "c' = c\<lparr>nv_msgs := nv_msgs c @ [MsgAddIoQpair qid]\<rparr>")
  case True
  have u: "qid_used x c' = qid_used x c" for x by (simp add: qid_used_def True)
  show ?thesis using inv f l unfolding life_inv_def u by (simp add: True)
next
  case False
  with s have "quiet c c'"
    by (auto simp: subsys_add_io_qpair_def quiet_def take_note_def split: if_splits option.splits)
  with inv f show ?thesis by (rule life_inv_quiet)
qed

lemma admin_state_inv:
  assumes inv: "life_inv c" and f: "\<not> nv_freed c" and a: "nv_admin_qpair c \<noteq> None"
  shows "life_inv (c\<lparr>nv_admin_qpair := Some st\<rparr>)"
proof -
  have u: "qid_used x (c\<lparr>nv_admin_qpair := Some st\<rparr>) = qid_used x c" for x by (simp add: qid_used_def)
  show ?thesis using inv a f unfolding life_inv_def u by simp
qed

lemma life_step_inv:
  assumes inv: "life_inv c" and s: "life_step c e = Inr c'"
  shows "life_inv c'"
proof (cases "nv_freed c")
  case True
  with freed_step [OF inv True, of e] s inv show ?thesis by simp
next
  case f: False
  show ?thesis
  proof (cases e)
    case (LfPropertySet now hz attrib ofst v)
    obtain st d where "property_set now hz attrib ofst v c = Inr (st, d)" "prop_frame c d"
      using property_set_total by blast
    with s inv f LfPropertySet life_inv_frame [OF inv f] show ?thesis
      by (auto simp: life_step_def happens_def split: if_splits)
  next
    case (LfKeepAlive now)
    have "quiet c (keep_alive now c)" by (simp add: quiet_def keep_alive_def)
    with s inv f LfKeepAlive life_inv_quiet [OF inv f] show ?thesis
      by (auto simp: life_step_def happens_def split: if_splits)
  next
    case (LfKeepAlivePoll now hz)
    have "quiet c (keep_alive_poll now hz c)"
      by (simp add: quiet_def keep_alive_poll_def stop_keep_alive_timer_def set_fatal_status_def take_note_def Let_def)
    with s inv f LfKeepAlivePoll life_inv_quiet [OF inv f] show ?thesis
      by (auto simp: life_step_def happens_def split: if_splits)
  next
    case (LfIterDone now)
    with s inv f reset_done_inv [OF inv f] show ?thesis by (auto simp: life_step_def happens_def split: if_splits)
  next
    case (LfCcTimer now)
    have "life_inv (cc_reset_shn_done now c)" if t: "nv_cc_timer c"
    proof -
      have "\<not> nv_iter c" using inv t by (simp add: life_inv_def)
      then have "c\<lparr>nv_iter := False\<rparr> = c" by simp
      then show ?thesis using reset_done_inv [OF inv f, of now] t by metis
    qed
    with s inv f LfCcTimer show ?thesis by (auto simp: life_step_def happens_def split: if_splits)
  next
    case LfCcTimeout
    have "quiet c d" if "cc_timeout c = Inr d" for d
      using that by (auto simp: cc_timeout_def quiet_def take_note_def split: option.splits)
    with s inv f LfCcTimeout life_inv_quiet [OF inv f] show ?thesis
      by (auto simp: life_step_def happens_def split: if_splits)
  next
    case LfAssociationTimer
    have "quiet c (association_remove c)"
      by (simp add: quiet_def association_remove_def stop_association_timer_def take_note_def Let_def split: option.split)
    with s inv f LfAssociationTimer life_inv_quiet [OF inv f] show ?thesis
      by (auto simp: life_step_def happens_def split: if_splits)
  next
    case (LfConnectIo same qid)
    with s inv f subsys_add_inv [OF inv f] show ?thesis by (auto simp: life_step_def happens_def split: if_splits)
  next
    case (LfAdminState st)
    with s inv f admin_state_inv [OF inv f] show ?thesis by (auto simp: life_step_def happens_def split: if_splits)
  next
    case (LfQpairGone qid)
    with s inv f gone_inv [OF inv f, of qid] show ?thesis
      by (simp add: life_step_def happens_def split: if_split_asm)
  next
    case LfSubsystemDestructs
    with s inv f destruct_inv [OF inv f] show ?thesis by (auto simp: life_step_def happens_def split: if_splits)
  next
    case LfMessage
    with s inv show ?thesis by (auto simp: life_step_def split: list.splits intro: take_msg_inv)
  qed
qed

interpretation life: stepper life_step life_inv
  by unfold_locales (rule life_step_inv)

lemma life_inv_new:
  assumes "0 < cf_max_qpairs cf"
  shows "life_inv (new_ctrlr cf now)"
proof -
  have m: "(replicate (unat (cf_max_qpairs cf)) False) ! 0 = False" using assms by (simp add: word_less_nat_alt)
  let ?c = "new_ctrlr cf now"
  have u: "qid_used 0 ?c"
    using assms by (simp add: new_ctrlr_def ctrlr_create_def add_admin_qpair_def add_qpair_and_update_rsp_def qid_used_def
        word_less_nat_alt start_keep_alive_timer_def set_qid_def)
  have "\<not> nv_in_destruct ?c" "nv_msgs ?c = []" "nv_listed ?c" "\<not> nv_freed ?c" "\<not> nv_iter ?c" "\<not> nv_cc_timer ?c"
    "\<not> nv_disconnect_in_progress ?c" "\<not> nv_cc_timeout_timer ?c"
    by (simp_all add: new_ctrlr_def ctrlr_create_def add_admin_qpair_def add_qpair_and_update_rsp_def start_keep_alive_timer_def set_qid_def)
  with u show ?thesis by (simp add: life_inv_def)
qed

section \<open>What follows\<close>

lemma life_reach_inv:
  assumes "0 < cf_max_qpairs cf" and "runR life_step (new_ctrlr cf now) es = Inr c"
  shows "life_inv c"
  using life.run_inv [OF life_inv_new [OF assms(1)] assms(2)] .

lemma property_set_never_faults: "property_set now hz attrib ofst v c \<noteq> Inl f"
  using property_set_total [of now hz attrib ofst v c] by auto

text \<open>A new controller, and the one that some events make of it.\<close>

lemma life_cfg_qpairs: "0 < cf_max_qpairs life_cfg"
  by code_simp

definition life_demo :: nvmf_ctrlr where
  "life_demo = new_ctrlr life_cfg 0"

definition life_after :: "life_event list \<Rightarrow> nvmf_ctrlr" where
  "life_after es = (case runR life_step life_demo es of Inr c \<Rightarrow> c | Inl _ \<Rightarrow> life_demo)"

lemma life_after_run:
  assumes "\<not> isl (runR life_step life_demo es)"
  shows "runR life_step (new_ctrlr life_cfg 0) es = Inr (life_after es)"
  using assms by (auto simp: life_after_def life_demo_def split: sum.splits)

text \<open>C25. Whatever happens to a controller, no timer, command or message reaches it after it has been
  freed, and then none of its timers is registered; the only fault there is, is that the admin
  queue pair is gone when the code needs it: when a reset takes too long, and when an I/O queue
  pair is connected.\<close>

theorem controller_not_used_after_free:
  assumes "0 < cf_max_qpairs cf" and "runR life_step (new_ctrlr cf now) es = Inr c"
  shows "(life_step c e = Inl f \<longrightarrow> f = NullDeref \<and> nv_admin_qpair c = None \<and>
            (e = LfCcTimeout \<or> e = LfMessage \<or> (\<exists>same qid. e = LfConnectIo same qid))) \<and>
    (nv_freed c \<longrightarrow> \<not> nv_keep_alive_poller c \<and> \<not> nv_association_timer c \<and> \<not> nv_cc_timer c \<and>
       \<not> nv_cc_timeout_timer c \<and> \<not> nv_iter c \<and> nv_msgs c = [] \<and> nv_admin_qpair c = None)"
proof -
  have inv: "life_inv c" using life_reach_inv [OF assms] .
  have a: "nv_admin_qpair c = None" if "nv_freed c"
    using inv that qid_used_set [of 0 c] by (auto simp: life_inv_def)
  have freed: "nv_freed c \<longrightarrow> \<not> nv_keep_alive_poller c \<and> \<not> nv_association_timer c \<and> \<not> nv_cc_timer c \<and>
       \<not> nv_cc_timeout_timer c \<and> \<not> nv_iter c \<and> nv_msgs c = [] \<and> nv_admin_qpair c = None"
    using inv a by (auto simp: life_inv_def)
  have "f = NullDeref \<and> nv_admin_qpair c = None \<and>
            (e = LfCcTimeout \<or> e = LfMessage \<or> (\<exists>same qid. e = LfConnectIo same qid))" if s: "life_step c e = Inl f"
  proof -
    have nf: "\<not> nv_freed c" using freed_step [OF inv, of e] s by auto
    show ?thesis
    proof (cases e)
      case LfMessage
      then obtain m ms where m: "nv_msgs c = m # ms" and t: "take_msg m (c\<lparr>nv_msgs := ms\<rparr>) = Inl f"
        using s by (auto simp: life_step_def split: list.splits)
      then have "f = NullDeref \<and> nv_admin_qpair c = None"
        using nf by (auto simp: take_msg_def bindR_eq_Inl add_io_qpair_def split: ctrlr_msg.splits if_splits option.splits)
      then show ?thesis using LfMessage by simp
    qed (use s nf property_set_never_faults in
        \<open>auto simp: life_step_def happens_def bindR_eq_Inl cc_timeout_def subsys_add_io_qpair_def
          split: if_splits option.splits\<close>)
  qed
  with freed show ?thesis by blast
qed

lemma controller_not_used_after_free_witness:
  "nv_freed (life_after [LfQpairGone 0, LfMessage, LfSubsystemDestructs, LfMessage]) \<and>
   nv_msgs (life_after [LfQpairGone 0, LfMessage, LfSubsystemDestructs, LfMessage]) = []"
proof -
  have r: "runR life_step (new_ctrlr life_cfg 0) [LfQpairGone 0, LfMessage, LfSubsystemDestructs, LfMessage] =
      Inr (life_after [LfQpairGone 0, LfMessage, LfSubsystemDestructs, LfMessage])"
    by (rule life_after_run) code_simp
  have f: "nv_freed (life_after [LfQpairGone 0, LfMessage, LfSubsystemDestructs, LfMessage])" by code_simp
  show ?thesis using controller_not_used_after_free [OF life_cfg_qpairs r] f by simp
qed

text \<open>C26. A reset or shutdown ends: one of its two events can happen, and once the time limit is over it
  finishes it. The host then reads the end of the shutdown, or cleared registers after a reset;
  after a reset this is so even when I/O queue pairs are still connected, so that the fatal status
  that is set for them is lost.\<close>

theorem reset_ends:
  assumes "0 < cf_max_qpairs cf" and "runR life_step (new_ctrlr cf t0) es = Inr c"
    and "nv_disconnect_in_progress c" and "\<not> now < nv_cc_timeout_tsc c"
  shows "\<exists>e c'. (e = LfIterDone now \<or> e = LfCcTimer now) \<and> life_step c e = Inr c' \<and>
    \<not> nv_disconnect_in_progress c' \<and> \<not> nv_cc_timeout_timer c' \<and>
    (if nv_disconnect_is_shn c then csts_shst (nv_csts c') = SHST_COMPLETE
     else nv_cc c' = 0 \<and> nv_csts c' = 0)"
proof -
  have inv: "life_inv c" using life_reach_inv [OF assms(1,2)] .
  have nf: "\<not> nv_freed c" using inv assms(3) by (auto simp: life_inv_def)
  have ended: "\<not> nv_disconnect_in_progress (cc_reset_shn_done now d) \<and> \<not> nv_cc_timeout_timer (cc_reset_shn_done now d) \<and>
    (if nv_disconnect_is_shn d then csts_shst (nv_csts (cc_reset_shn_done now d)) = SHST_COMPLETE
     else nv_cc (cc_reset_shn_done now d) = 0 \<and> nv_csts (cc_reset_shn_done now d) = 0)"
    if "nv_cc_timeout_tsc d = nv_cc_timeout_tsc c" for d
    using assms(4) that by (simp add: cc_reset_shn_done_def Let_def set_fatal_status_def stop_association_timer_def get_put_same)
  show ?thesis
  proof (cases "nv_iter c")
    case True
    let ?d = "c\<lparr>nv_iter := False\<rparr>"
    have "life_step c (LfIterDone now) = Inr (cc_reset_shn_done now ?d)"
      using True nf by (simp add: life_step_def happens_def)
    with ended [of ?d] show ?thesis by (intro exI [of _ "LfIterDone now"] exI [of _ "cc_reset_shn_done now ?d"]) simp
  next
    case False
    then have "nv_cc_timer c" using inv assms(3) by (simp add: life_inv_def)
    then have "life_step c (LfCcTimer now) = Inr (cc_reset_shn_done now c)"
      using nf by (simp add: life_step_def happens_def)
    with ended [of c] show ?thesis by (intro exI [of _ "LfCcTimer now"] exI [of _ "cc_reset_shn_done now c"]) simp
  qed
qed

lemma reset_ends_witness:
  "\<exists>c'. life_step (life_after [LfPropertySet 5 10 0 0x14 1, LfConnectIo True 1, LfPropertySet 5 10 0 0x14 0])
       (LfIterDone 900) = Inr c' \<and> nv_cc c' = 0 \<and> nv_csts c' = 0
   \<or> life_step (life_after [LfPropertySet 5 10 0 0x14 1, LfConnectIo True 1, LfPropertySet 5 10 0 0x14 0])
       (LfCcTimer 900) = Inr c' \<and> nv_cc c' = 0 \<and> nv_csts c' = 0"
proof -
  let ?es = "[LfPropertySet 5 10 0 0x14 1, LfConnectIo True 1, LfPropertySet 5 10 0 0x14 0]"
  have r: "runR life_step (new_ctrlr life_cfg 0) ?es = Inr (life_after ?es)"
    by (rule life_after_run) code_simp
  have "nv_disconnect_in_progress (life_after ?es)" "\<not> nv_disconnect_is_shn (life_after ?es)"
    "\<not> 900 < nv_cc_timeout_tsc (life_after ?es)"
    by code_simp+
  then show ?thesis using reset_ends [OF life_cfg_qpairs r, of 900] by auto
qed

lemma cc_access: "find_prop 0x14 4 = Some PropCc"
  by code_simp

lemma disable_only:
  assumes "cc_en (nv_cc c) = 1" and "\<not> nv_disconnect_in_progress c"
  shows "prop_set_cc now hz (put_bits 0 1 0 (nv_cc c)) c =
    (True, (start_disconnect False now hz c)\<lparr>nv_cc := put_bits 0 1 0 (nv_cc c)\<rparr>)"
proof -
  have d: "get_bits lo n (put_bits 0 1 0 (nv_cc c) XOR nv_cc c) = 0" if "1 \<le> lo" for lo n
    unfolding get_bits_diff by (rule get_put_other) (use that in simp)
  have z: "cc_en (put_bits 0 1 0 (nv_cc c)) = 0" by (simp add: get_put_same)
  have e: "cc_en (put_bits 0 1 0 (nv_cc c) XOR nv_cc c) \<noteq> 0"
    unfolding get_bits_diff using assms(1) by (simp add: get_put_same)
  show ?thesis
    by (simp add: prop_set_cc_def Let_def set_cc_en_def set_cc_shn_def e z d assms(2) del: One_nat_def)
qed

text \<open>The admin queue pair can go while I/O queue pairs are still there. From then on, connecting
  another I/O queue pair dereferences a null pointer, and so does a reset that the host has
  started before and that takes longer than its time limit.\<close>

theorem lost_admin_qpair_crashes:
  assumes "0 < cf_max_qpairs cf" and "runR life_step (new_ctrlr cf t0) es = Inr c"
    and "nv_admin_qpair c \<noteq> None" and "cc_en (nv_cc c) = 1" and "\<not> nv_disconnect_in_progress c"
  shows "runR life_step c [LfQpairGone 0, LfConnectIo True qid] = Inl NullDeref \<and>
    runR life_step c [LfPropertySet now hz 0 0x14 (ucast (put_bits 0 1 0 (nv_cc c))), LfQpairGone 0, LfCcTimeout] =
      Inl NullDeref"
proof -
  have inv: "life_inv c" using life_reach_inv [OF assms(1,2)] .
  have q: "qid_used 0 c" "MsgFreeFromQpair 0 \<notin> set (nv_msgs c)" using inv assms(3) by (auto simp: life_inv_def)
  have nd: "\<not> nv_in_destruct c" using inv qid_used_set [OF q(1)] by (auto simp: life_inv_def)
  have l: "nv_listed c" "\<not> nv_freed c" using inv nd by (auto simp: life_inv_def)
  have connect: "runR life_step c [LfQpairGone 0, LfConnectIo True qid] = Inl NullDeref"
    using q nd l by (simp add: life_step_def happens_def subsys_add_io_qpair_def)
  have w: "ucast (ucast x :: u64) = x" for x :: u32 by (rule bit_word_eqI) (auto simp: bit_simps)
  let ?d = "(start_disconnect False now hz c)\<lparr>nv_cc := put_bits 0 1 0 (nv_cc c)\<rparr>"
  have "property_set now hz 0 0x14 (ucast (put_bits 0 1 0 (nv_cc c))) c = Inr (st_success, ?d)"
    by (simp add: property_set_def attrib_size_def cc_access prop_size_def w disable_only [OF assms(4,5)]
        del: One_nat_def)
  moreover have "qid_used 0 ?d" "MsgFreeFromQpair 0 \<notin> set (nv_msgs ?d)" "\<not> nv_freed ?d" "nv_cc_timeout_timer ?d"
    using q l by (simp_all add: qid_used_def start_disconnect_def)
  ultimately have "runR life_step c [LfPropertySet now hz 0 0x14 (ucast (put_bits 0 1 0 (nv_cc c))), LfQpairGone 0, LfCcTimeout] =
      Inl NullDeref"
    using assms(3) l by (simp add: life_step_def happens_def cc_timeout_def)
  with connect show ?thesis by blast
qed

lemma lost_admin_qpair_crashes_witness:
  "runR life_step (life_after [LfPropertySet 5 10 0 0x14 1]) [LfQpairGone 0, LfConnectIo True 1] = Inl NullDeref"
proof -
  have r: "runR life_step (new_ctrlr life_cfg 0) [LfPropertySet 5 10 0 0x14 1] =
      Inr (life_after [LfPropertySet 5 10 0 0x14 1])"
    by (rule life_after_run) code_simp
  have "nv_admin_qpair (life_after [LfPropertySet 5 10 0 0x14 1]) \<noteq> None"
    "cc_en (nv_cc (life_after [LfPropertySet 5 10 0 0x14 1])) = 1"
    "\<not> nv_disconnect_in_progress (life_after [LfPropertySet 5 10 0 0x14 1])"
    by code_simp+
  then show ?thesis using lost_admin_qpair_crashes [OF life_cfg_qpairs r, of 1] by simp
qed

lemma put_same: "get_bits lo n v = get_bits lo n w \<Longrightarrow> put_bits lo n (get_bits lo n v) w = w"
proof (rule bit_word_eqI)
  fix i
  assume e: "get_bits lo n v = get_bits lo n w" and "i < LENGTH(32)"
  moreover have "bit (get_bits lo n v) (i - lo) = bit w i" if "lo \<le> i" "i < lo + n"
    unfolding e using that by (auto simp: bit_get_bits)
  ultimately show "bit (put_bits lo n (get_bits lo n v) w) i = bit w i" by (simp add: bit_put_bits)
qed

text \<open>The field of \<open>w\<close> replaced by the one of \<open>v\<close>.\<close>

abbreviation copy_bits :: "nat \<Rightarrow> nat \<Rightarrow> u32 \<Rightarrow> u32 \<Rightarrow> u32" where
  "copy_bits lo n v w \<equiv> put_bits lo n (get_bits lo n v) w"

lemma set_cc_en_word:
  assumes "\<not> nv_disconnect_in_progress c"
  shows "\<exists>c1. set_cc_en now hz v (v XOR nv_cc c) c = Inr c1 \<and> nv_cc c1 = copy_bits 0 1 v (nv_cc c) \<and>
    (cc_en v \<noteq> 0 \<longrightarrow> \<not> nv_disconnect_in_progress c1) \<and>
    (cc_en v \<noteq> cc_en (nv_cc c) \<and> cc_en v \<noteq> 0 \<longrightarrow> csts_rdy (nv_csts c1) = 1)"
proof -
  have one: "cc_en v \<noteq> 0 \<Longrightarrow> cc_en v = 1" by (simp add: one_bit del: One_nat_def split: if_splits)
  show ?thesis
    unfolding set_cc_en_def get_bits_diff
    using assms one put_same [of 0 1 v "nv_cc c"]
    by (auto simp: start_disconnect_def stop_association_timer_def get_put_same simp del: One_nat_def)
qed

lemma set_cc_shn_word:
  assumes "set_cc_shn now hz v (v XOR w) c \<noteq> Inl (False, c)" and "\<not> nv_disconnect_in_progress c \<or> cc_shn v = cc_shn w"
    and "cc_shn (nv_cc c) = cc_shn w"
  shows "\<exists>c1. set_cc_shn now hz v (v XOR w) c = Inr c1 \<and> nv_cc c1 = copy_bits 14 2 v (nv_cc c) \<and> nv_csts c1 = nv_csts c"
  using assms put_same [of 14 2 v "nv_cc c"]
  unfolding set_cc_shn_def get_bits_diff
  by (auto simp: start_disconnect_def stop_keep_alive_timer_def split: if_splits)

text \<open>C27. What writing the configuration register does when it is accepted, outside a reset or shutdown
  and not asking for both at once: the fields that the host reads back are those it has written,
  except the command set, which keeps its old value; enabling makes the controller ready at
  once.\<close>

theorem cc_write_effect:
  assumes "prop_set_cc now hz v c = (True, c')" and "\<not> nv_disconnect_in_progress c"
    and "cc_en v \<noteq> 0 \<or> cc_shn v = cc_shn (nv_cc c)"
  shows "cc_en (nv_cc c') = cc_en v \<and> cc_shn (nv_cc c') = cc_shn v \<and> cc_iosqes (nv_cc c') = cc_iosqes v \<and>
    cc_iocqes (nv_cc c') = cc_iocqes v \<and> cc_ams (nv_cc c') = cc_ams v \<and> cc_mps (nv_cc c') = cc_mps v \<and>
    cc_css (nv_cc c') = cc_css (nv_cc c) \<and>
    (cc_en v \<noteq> cc_en (nv_cc c) \<and> cc_en v \<noteq> 0 \<longrightarrow> csts_rdy (nv_csts c') = 1)"
proof -
  let ?d = "v XOR nv_cc c"
  obtain c1 where c1: "set_cc_en now hz v ?d c = Inr c1" "nv_cc c1 = copy_bits 0 1 v (nv_cc c)"
    "cc_en v \<noteq> 0 \<longrightarrow> \<not> nv_disconnect_in_progress c1"
    "cc_en v \<noteq> cc_en (nv_cc c) \<and> cc_en v \<noteq> 0 \<longrightarrow> csts_rdy (nv_csts c1) = 1"
    using set_cc_en_word [OF assms(2)] by blast
  have shn: "cc_shn (nv_cc c1) = cc_shn (nv_cc c)" unfolding c1(2) by (rule get_put_other) simp
  have "set_cc_shn now hz v ?d c1 \<noteq> Inl (False, c1)" using assms(1) c1(1) by (auto simp: prop_set_cc_def Let_def)
  then obtain c2 where c2: "set_cc_shn now hz v ?d c1 = Inr c2" "nv_cc c2 = copy_bits 14 2 v (nv_cc c1)"
    "nv_csts c2 = nv_csts c1"
    using set_cc_shn_word [of now hz v "nv_cc c" c1] assms(3) c1(3) shn by blast
  have io: "get_bits lo n (nv_cc c2) = get_bits lo n (nv_cc c)" if "16 \<le> lo" for lo n
    unfolding c2(2) c1(2) using that by (simp add: get_put_other del: One_nat_def)
  define w3 where "w3 = copy_bits 16 4 v (nv_cc c2)"
  have w3: "(if cc_iosqes ?d \<noteq> 0 then c2\<lparr>nv_cc := put_bits 16 4 (cc_iosqes v) (nv_cc c2)\<rparr> else c2) = c2\<lparr>nv_cc := w3\<rparr>"
    unfolding get_bits_diff w3_def using put_same [of 16 4 v "nv_cc c2"] io [of 16 4] by simp
  define w4 where "w4 = copy_bits 20 4 v w3"
  have io3: "cc_iocqes w3 = cc_iocqes (nv_cc c)" unfolding w3_def by (simp add: get_put_other io)
  have w4: "(if cc_iocqes ?d \<noteq> 0 then c2\<lparr>nv_cc := put_bits 20 4 (cc_iocqes v) w3\<rparr> else c2\<lparr>nv_cc := w3\<rparr>) = c2\<lparr>nv_cc := w4\<rparr>"
    unfolding get_bits_diff w4_def using put_same [of 20 4 v w3] io3 by simp
  have keep: "copy_bits 20 4 (nv_cc c) w3 = w3" using put_same [of 20 4 "nv_cc c" w3] io3 by simp
  have fin: "c' = c2\<lparr>nv_cc := w4\<rparr>" and ok: "cc_ams v = cc_ams (nv_cc c)" "cc_mps v = cc_mps (nv_cc c)"
    using assms(1) unfolding prop_set_cc_def Let_def c1(1) bindR_simps c2(1) sum.case w3
    by (auto simp: w4_def get_bits_diff keep w3_def [symmetric] io io3 split: if_splits)
  have "nv_cc c' = copy_bits 20 4 v (copy_bits 16 4 v (copy_bits 14 2 v (copy_bits 0 1 v (nv_cc c))))"
    by (simp add: fin w4_def w3_def c2(2) c1(2) del: One_nat_def)
  moreover have idem: "take_bit n (get_bits lo n v) = get_bits lo n v" for lo n by (simp add: get_bits_def)
  ultimately show ?thesis
    using ok c1(4) c2(3) by (simp add: get_put_same get_put_other fin del: One_nat_def)
qed

lemma cc_write_effect_witness:
  "cc_iosqes (nv_cc (snd (prop_set_cc 5 10 0x460001 life_demo))) = 6 \<and>
   csts_rdy (nv_csts (snd (prop_set_cc 5 10 0x460001 life_demo))) = 1"
proof -
  have p: "prop_set_cc 5 10 0x460001 life_demo = (True, snd (prop_set_cc 5 10 0x460001 life_demo))"
    by (rule prod_eqI) (code_simp, simp)
  have "\<not> nv_disconnect_in_progress life_demo" "cc_en 0x460001 \<noteq> 0 \<or> cc_shn 0x460001 = cc_shn (nv_cc life_demo)"
    "cc_iosqes 0x460001 = 6" "cc_en 0x460001 \<noteq> cc_en (nv_cc life_demo) \<and> cc_en 0x460001 \<noteq> 0"
    by code_simp+
  then show ?thesis using cc_write_effect [OF p] by simp
qed

end
