(* ===== verification/Bdev_Path.thy ===== *)
theory Bdev_Path
  imports Subsys Poll_Group
begin

text \<open>
  The I/O channel of a multipath namespace, \<^verbatim>\<open>nvme/bdev_nvme.c\<close>: its paths and the one it has
  cached, how a path is chosen, how an I/O is handed to the chosen path and completed, and the
  I/Os that wait to be retried.

  A path carries its address and what the code reads through its pointers: the state of its queue
  pair, of its controller and of its namespace. These change on other threads, so a step may
  replace the path by any other state of it (\<open>BdPathChanges\<close>). What the NVMe library answers (a
  return code, a completion and what the library's predicates say of it) are parts of the events.
  A pointer to a path that is no longer in the list of the channel is dangling, since removing a
  path frees it.
\<close>

section \<open>Data\<close>

datatype mp_policy = MpActivePassive | MpActiveActive
datatype mp_selector = SelRoundRobin | SelQueueDepth

text \<open>What the code reads of a controller.\<close>

record bdev_ctrlr =
  bt_destruct :: bool
  bt_resetting :: bool
  bt_reconnect_is_delayed :: bool
  bt_failed :: bool \<comment> \<open>\<open>spdk_nvme_ctrlr_is_failed\<close>\<close>
  bt_crdt :: "u16 list" \<comment> \<open>the retry delays of its data\<close>
  bt_ana_log_readable :: bool \<comment> \<open>\<open>nvme_ctrlr_read_ana_log_page\<close> returns 0\<close>
  bt_max_xfer :: u32

record nvme_io_path =
  ip_addr :: addr
  ip_has_qpair :: bool
  ip_qpair_ok :: bool \<comment> \<open>the queue pair has no failure reason\<close>
  ip_reset_iter :: bool
  ip_admin_ok :: bool \<comment> \<open>the admin queue pair has no failure reason\<close>
  ip_ana_state :: ana_state
  ip_ana_updating :: bool
  ip_outstanding :: u32
  ip_ctrlr :: bdev_ctrlr

datatype bdev_io_type =
    BioData \<comment> \<open>a command for the queue pair of the path\<close>
  | BioReadNoBuf \<comment> \<open>a read whose buffer is still to be allocated\<close>
  | BioFlush
  | BioReset
  | BioAdmin u64 \<comment> \<open>the length of its buffer\<close>
  | BioAbort nat
  | BioUnknown

record nvme_bdev_io =
  bi_id :: nat
  bi_type :: bdev_io_type
  bi_path :: "addr option"
  bi_retry_ticks :: u64
  bi_retry_count :: int
  bi_submit_tsc :: u64

datatype bdev_status = BsNvme spdk_nvme_status | BsSuccess | BsNomem | BsFailed | BsAborted

text \<open>A completion, with what the library's predicates answer for it.\<close>

record nvme_cpl =
  cp_status :: spdk_nvme_status
  cp_success :: bool
  cp_path_error :: bool
  cp_aborted_sq :: bool
  cp_by_request :: bool
  cp_ana_error :: bool

record nvme_bdev_channel =
  bc_current :: "addr option"
  bc_policy :: mp_policy
  bc_selector :: mp_selector
  bc_rr_min_io :: u32
  bc_rr_counter :: u32
  bc_paths :: "nvme_io_path list"
  bc_retry :: "nvme_bdev_io list"
  bc_poller :: bool
  bc_buf_wait :: "nvme_bdev_io list" \<comment> \<open>reads that wait for a buffer\<close>
  bc_outstanding :: "nvme_bdev_io list" \<comment> \<open>I/Os at the library or at the reset of the controllers\<close>
  bc_done :: "(nat \<times> bdev_status) list"

section \<open>Availability\<close>

definition io_type_is_admin :: "bdev_io_type \<Rightarrow> bool" where
  "io_type_is_admin t = (case t of BioReset \<Rightarrow> True | BioAdmin _ \<Rightarrow> True | BioAbort _ \<Rightarrow> True | _ \<Rightarrow> False)"

definition ns_is_accessible :: "nvme_io_path \<Rightarrow> bool" where
  "ns_is_accessible p \<longleftrightarrow> \<not> ip_ana_updating p \<and> ip_ana_state p \<in> {ANA_OPTIMIZED, ANA_NON_OPTIMIZED}"

definition path_is_connected :: "nvme_io_path \<Rightarrow> bool" where
  "path_is_connected p \<longleftrightarrow> ip_has_qpair p \<and> ip_qpair_ok p \<and> \<not> ip_reset_iter p \<and> ip_admin_ok p"

definition path_is_available :: "nvme_io_path \<Rightarrow> bool" where
  "path_is_available p \<longleftrightarrow> path_is_connected p \<and> ns_is_accessible p"

definition bctrlr_is_available :: "bdev_ctrlr \<Rightarrow> bool" where
  "bctrlr_is_available c \<longleftrightarrow>
     \<not> bt_destruct c \<and> \<not> bt_failed c \<and> \<not> (bt_resetting c \<or> bt_reconnect_is_delayed c)"

section \<open>Paths of a channel\<close>

definition path_at :: "nvme_bdev_channel \<Rightarrow> addr \<Rightarrow> nvme_io_path option" where
  "path_at ch a = List.find (\<lambda>p. ip_addr p = a) (bc_paths ch)"

definition deref_path :: "nvme_bdev_channel \<Rightarrow> addr option \<Rightarrow> fault + nvme_io_path" where
  "deref_path ch a =
     (case a of None \<Rightarrow> Inl NullDeref
      | Some a \<Rightarrow> (case path_at ch a of None \<Rightarrow> Inl UseAfterFree | Some p \<Rightarrow> Inr p))"

definition clear_current_io_path :: "nvme_bdev_channel \<Rightarrow> nvme_bdev_channel" where
  "clear_current_io_path ch = ch\<lparr>bc_current := None, bc_rr_counter := 0\<rparr>"

definition add_io_path :: "nvme_io_path \<Rightarrow> nvme_bdev_channel \<Rightarrow> nvme_bdev_channel" where
  "add_io_path p ch = clear_current_io_path (ch\<lparr>bc_paths := bc_paths ch @ [p]\<rparr>)"

definition delete_io_path :: "addr \<Rightarrow> nvme_bdev_channel \<Rightarrow> nvme_bdev_channel" where
  "delete_io_path a ch =
     (let c1 = clear_current_io_path ch in c1\<lparr>bc_paths := remove_by ip_addr a (bc_paths c1)\<rparr>)"

section \<open>Choosing a path\<close>

text \<open>The list as a circle; null: the list is empty.\<close>

fun next_in :: "addr \<Rightarrow> nvme_io_path list \<Rightarrow> addr option" where
  "next_in a [] = None"
| "next_in a [p] = None"
| "next_in a (p # q # ps) = (if ip_addr p = a then Some (ip_addr q) else next_in a (q # ps))"

definition first_path :: "nvme_bdev_channel \<Rightarrow> addr option" where
  "first_path ch = (case bc_paths ch of [] \<Rightarrow> None | p # _ \<Rightarrow> Some (ip_addr p))"

definition io_path_get_next :: "nvme_bdev_channel \<Rightarrow> addr option \<Rightarrow> fault + addr option" where
  "io_path_get_next ch prev =
     (case prev of
        None \<Rightarrow> Inr (first_path ch)
      | Some a \<Rightarrow>
          if path_at ch a = None then Inl UseAfterFree
          else Inr (case next_in a (bc_paths ch) of Some n \<Rightarrow> Some n | None \<Rightarrow> first_path ch))"

text \<open>What the search finds: an optimized path ends it, the first non-optimized one is kept.\<close>

datatype found = FoundOptimized addr | FoundOther "addr option"

text \<open>The loop of \<open>_bdev_nvme_find_io_path\<close>; it may run forever if it never comes back to its start.\<close>

partial_function (option) find_loop ::
    "nvme_bdev_channel \<Rightarrow> addr option \<Rightarrow> addr option \<Rightarrow> addr option \<Rightarrow> (fault + found) option" where
  "find_loop ch start here non_opt =
     (case deref_path ch here of
        Inl f \<Rightarrow> Some (Inl f)
      | Inr p \<Rightarrow>
          let usable = path_is_connected p \<and> \<not> ip_ana_updating p in
          if usable \<and> ip_ana_state p = ANA_OPTIMIZED then Some (Inr (FoundOptimized (ip_addr p)))
          else
            let non_opt' = (if usable \<and> ip_ana_state p = ANA_NON_OPTIMIZED \<and> non_opt = None
                            then Some (ip_addr p) else non_opt)
            in case io_path_get_next ch here of
                 Inl f \<Rightarrow> Some (Inl f)
               | Inr here' \<Rightarrow>
                   if here' = start then Some (Inr (FoundOther non_opt')) else find_loop ch start here' non_opt')"

declare find_loop.simps [code]

definition find_io_path_circle :: "nvme_bdev_channel \<Rightarrow> (fault + addr option \<times> nvme_bdev_channel) option" where
  "find_io_path_circle ch =
     (case io_path_get_next ch (bc_current ch) of
        Inl f \<Rightarrow> Some (Inl f)
      | Inr start \<Rightarrow>
          (case find_loop ch start start None of
             None \<Rightarrow> None
           | Some (Inl f) \<Rightarrow> Some (Inl f)
           | Some (Inr (FoundOptimized a)) \<Rightarrow> Some (Inr (Some a, ch\<lparr>bc_current := Some a\<rparr>))
           | Some (Inr (FoundOther a)) \<Rightarrow>
               Some (Inr (a, if bc_policy ch = MpActiveActive then ch\<lparr>bc_current := a\<rparr> else ch))))"

text \<open>The least loaded path: the loads and the paths that the loop has kept so far.\<close>

definition min_qd_step ::
    "(u32 \<times> addr option) \<times> u32 \<times> addr option \<Rightarrow> nvme_io_path \<Rightarrow> (u32 \<times> addr option) \<times> u32 \<times> addr option" where
  "min_qd_step acc p =
     (case acc of (opt, non_opt) \<Rightarrow>
        if \<not> path_is_connected p then acc
        else if ip_ana_updating p then acc
        else case ip_ana_state p of
               ANA_OPTIMIZED \<Rightarrow>
                 (if ip_outstanding p < fst opt then ((ip_outstanding p, Some (ip_addr p)), non_opt) else acc)
             | ANA_NON_OPTIMIZED \<Rightarrow>
                 (if ip_outstanding p < fst non_opt then (opt, (ip_outstanding p, Some (ip_addr p))) else acc)
             | _ \<Rightarrow> acc)"

abbreviation UINT32_MAX :: u32 where "UINT32_MAX \<equiv> - 1"

definition find_io_path_min_qd :: "nvme_bdev_channel \<Rightarrow> addr option" where
  "find_io_path_min_qd ch =
     (let (opt, non_opt) = foldl min_qd_step ((UINT32_MAX, None), (UINT32_MAX, None)) (bc_paths ch)
      in if snd opt \<noteq> None then snd opt else snd non_opt)"

definition find_io_path :: "nvme_bdev_channel \<Rightarrow> (fault + addr option \<times> nvme_bdev_channel) option" where
  "find_io_path ch =
     (let search = (\<lambda>ch. if bc_policy ch = MpActivePassive \<or> bc_selector ch = SelRoundRobin
                         then find_io_path_circle ch
                         else Some (Inr (find_io_path_min_qd ch, ch))) in
      if bc_current ch \<noteq> None then
        if bc_policy ch = MpActivePassive then Some (Inr (bc_current ch, ch))
        else if bc_selector ch = SelRoundRobin then
          let c1 = ch\<lparr>bc_rr_counter := bc_rr_counter ch + 1\<rparr> in
          if bc_rr_counter c1 < bc_rr_min_io c1 then Some (Inr (bc_current c1, c1))
          else search (c1\<lparr>bc_rr_counter := 0\<rparr>)
        else search ch
      else search ch)"

text \<open>\<open>any_io_path_may_become_available\<close>: the search through the paths is commented out.\<close>

definition any_io_path_may_become_available :: "nvme_bdev_channel \<Rightarrow> bool" where
  "any_io_path_may_become_available ch = False"

section \<open>Policy and preferred path\<close>

text \<open>\<open>None\<close>: refused with \<open>-EINVAL\<close>.\<close>

definition checked_rr_min_io :: "mp_policy \<Rightarrow> mp_selector \<Rightarrow> u32 \<Rightarrow> u32 option" where
  "checked_rr_min_io policy selector rr_min_io =
     (if policy = MpActiveActive \<and> selector = SelRoundRobin then
        (if rr_min_io = UINT32_MAX then Some 1 else if rr_min_io = 0 then None else Some rr_min_io)
      else if rr_min_io \<noteq> UINT32_MAX then None else Some rr_min_io)"

definition set_multipath_policy ::
    "mp_policy \<Rightarrow> mp_selector \<Rightarrow> u32 \<Rightarrow> nvme_bdev_channel \<Rightarrow> nvme_bdev_channel" where
  "set_multipath_policy policy selector rr_min_io ch =
     clear_current_io_path (ch\<lparr>bc_policy := policy, bc_selector := selector, bc_rr_min_io := rr_min_io\<rparr>)"

definition set_preferred_path :: "addr \<Rightarrow> nvme_bdev_channel \<Rightarrow> nvme_bdev_channel" where
  "set_preferred_path a ch =
     (case path_at ch a of
        None \<Rightarrow> ch
      | Some p \<Rightarrow> clear_current_io_path (ch\<lparr>bc_paths := p # remove1 p (bc_paths ch)\<rparr>))"

end
