(* ===== verification/Bdev_Io.thy ===== *)
theory Bdev_Io
  imports Bdev_Path
begin

text \<open>
  The I/Os of a channel, \<^verbatim>\<open>nvme/bdev_nvme.c\<close>: handing an I/O to the path that was chosen,
  completing it or putting it among those to be retried, retrying when the time has come, and
  aborting.
\<close>

section \<open>The library and the options\<close>

text \<open>What the NVMe library would answer to a submission at this moment, the clock, and the options.
  Return codes are those of the library: 0, \<open>-ENOMEM\<close> (-12), \<open>-ENXIO\<close> (-6), \<open>-ENOENT\<close> (-2) and
  other negative numbers.\<close>

record bdev_env =
  be_now :: u64
  be_hz :: u64
  be_submit_tsc :: u64
  be_retry_limit :: int \<comment> \<open>\<open>g_opts.bdev_retry_count\<close>\<close>
  be_submit :: "nat \<Rightarrow> int" \<comment> \<open>a command for the queue pair, by the I/O\<close>
  be_admin :: "addr \<Rightarrow> int" \<comment> \<open>an admin command, by the path\<close>
  be_abort :: "addr \<Rightarrow> int" \<comment> \<open>aborting at the I/O queue pair of the path\<close>
  be_abort_admin :: "addr \<Rightarrow> int" \<comment> \<open>aborting at the admin queue pair of its controller\<close>

section \<open>Completion and retry\<close>

definition io_done :: "nvme_bdev_io \<Rightarrow> bdev_status \<Rightarrow> nvme_bdev_channel \<Rightarrow> nvme_bdev_channel" where
  "io_done b st ch = ch\<lparr>bc_done := bc_done ch @ [(bi_id b, st)]\<rparr>"

text \<open>The list is searched from its end for an I/O that is due no later.\<close>

fun insert_from_end :: "nvme_bdev_io \<Rightarrow> nvme_bdev_io list \<Rightarrow> nvme_bdev_io list" where
  "insert_from_end b [] = [b]"
| "insert_from_end b (x # xs) =
     (if bi_retry_ticks x \<le> bi_retry_ticks b then b # x # xs else x # insert_from_end b xs)"

definition queue_retry_io :: "bdev_env \<Rightarrow> nvme_bdev_io \<Rightarrow> u64 \<Rightarrow> nvme_bdev_channel \<Rightarrow> nvme_bdev_channel" where
  "queue_retry_io env b delay_ms ch =
     (let b' = b\<lparr>bi_retry_ticks := be_now env + delay_ms * be_hz env div 1000\<rparr>;
          c1 = ch\<lparr>bc_retry := rev (insert_from_end b' (rev (bc_retry ch)))\<rparr>
      in if \<exists>x \<in> set (bc_retry ch). bi_retry_ticks x \<le> bi_retry_ticks b' then c1 else c1\<lparr>bc_poller := True\<rparr>)"

definition forget_retries :: "nvme_bdev_io \<Rightarrow> nvme_bdev_io" where
  "forget_retries b = b\<lparr>bi_retry_count := 0, bi_submit_tsc := 0\<rparr>"

definition io_complete :: "bdev_env \<Rightarrow> nvme_bdev_io \<Rightarrow> int \<Rightarrow> nvme_bdev_channel \<Rightarrow> nvme_bdev_channel" where
  "io_complete env b rc ch =
     (if rc = 0 then io_done (forget_retries b) BsSuccess ch
      else if rc = - 12 then io_done (forget_retries b) BsNomem ch
      else if rc = - 6 then
        let c1 = clear_current_io_path ch; b1 = b\<lparr>bi_path := None\<rparr> in
        if any_io_path_may_become_available c1 then queue_retry_io env b1 1000 c1
        else io_done (forget_retries b1) BsFailed c1
      else io_done (forget_retries b) BsFailed ch)"

definition set_ana_updating :: "addr \<Rightarrow> nvme_bdev_channel \<Rightarrow> nvme_bdev_channel" where
  "set_ana_updating a ch = ch\<lparr>bc_paths := update_by ip_addr a (\<lambda>p. p\<lparr>ip_ana_updating := True\<rparr>) (bc_paths ch)\<rparr>"

text \<open>The delays are in units of 100 ms. The controller data hold three of them, for the values 1 to 3 of
  the field CRD, which the code takes as index.\<close>

definition retry_delay_ms :: "nvme_cpl \<Rightarrow> nvme_io_path \<Rightarrow> fault + u64" where
  "retry_delay_ms cpl p =
     (let crd = unat (st_crd (cp_status cpl)); crdt = bt_crdt (ip_ctrlr p) in
      if crd = 0 then Inr 0
      else if crd < length crdt then Inr (ucast (crdt ! crd) * 100) else Inl OutOfBounds)"

definition io_complete_nvme_status ::
    "bdev_env \<Rightarrow> nvme_bdev_io \<Rightarrow> nvme_cpl \<Rightarrow> nvme_bdev_channel \<Rightarrow> fault + nvme_bdev_channel" where
  "io_complete_nvme_status env b cpl ch =
     (let complete = (\<lambda>b ch. Inr (io_done (forget_retries b) (BsNvme (cp_status cpl)) ch)) in
      if cp_success cpl then bindR (deref_path ch (bi_path b)) (\<lambda>_. complete b ch)
      else if st_dnr (cp_status cpl) \<or> cp_by_request cpl \<or>
              (be_retry_limit env \<noteq> - 1 \<and> bi_retry_count b \<ge> be_retry_limit env)
      then complete b ch
      else bindR (deref_path ch (bi_path b)) (\<lambda>p.
        if cp_path_error cpl \<or> cp_aborted_sq cpl \<or> \<not> path_is_available p \<or> \<not> bctrlr_is_available (ip_ctrlr p)
        then
          let c1 = clear_current_io_path ch;
              b1 = b\<lparr>bi_path := None\<rparr>;
              c2 = (if cp_ana_error cpl \<and> bt_ana_log_readable (ip_ctrlr p)
                    then set_ana_updating (ip_addr p) c1 else c1)
          in if any_io_path_may_become_available c2 then Inr (queue_retry_io env b1 0 c2)
             else complete b1 c2
        else
          bindR (retry_delay_ms cpl p) (\<lambda>delay.
            Inr (queue_retry_io env (b\<lparr>bi_retry_count := bi_retry_count b + 1\<rparr>) delay ch))))"

section \<open>Submission\<close>

definition take_out :: "nvme_bdev_io \<Rightarrow> nvme_bdev_channel \<Rightarrow> nvme_bdev_channel" where
  "take_out b ch = ch\<lparr>bc_outstanding := bc_outstanding ch @ [b]\<rparr>"

text \<open>Admin commands go to the first controller that takes them. \<open>Inr\<close>: taken.\<close>

fun admin_loop :: "bdev_env \<Rightarrow> u64 \<Rightarrow> int \<Rightarrow> nvme_io_path list \<Rightarrow> int + addr" where
  "admin_loop env nbytes rc [] = Inl rc"
| "admin_loop env nbytes rc (p # ps) =
     (if \<not> bctrlr_is_available (ip_ctrlr p) then admin_loop env nbytes rc ps
      else if nbytes > ucast (bt_max_xfer (ip_ctrlr p)) then Inl (- 22)
      else if be_admin env (ip_addr p) = 0 then Inr (ip_addr p)
      else admin_loop env nbytes (be_admin env (ip_addr p)) ps)"

definition admin_passthru :: "bdev_env \<Rightarrow> u64 \<Rightarrow> nvme_bdev_io \<Rightarrow> nvme_bdev_channel \<Rightarrow> nvme_bdev_channel" where
  "admin_passthru env nbytes b ch =
     (case admin_loop env nbytes (- 6) (bc_paths ch) of
        Inr a \<Rightarrow> take_out (b\<lparr>bi_path := Some a\<rparr>) ch
      | Inl rc \<Rightarrow> io_done b (if rc = 0 then BsSuccess else if rc = - 12 then BsNomem else BsFailed) ch)"

definition abort_retry_io :: "nat \<Rightarrow> nvme_bdev_channel \<Rightarrow> nvme_bdev_channel option" where
  "abort_retry_io i ch =
     (case List.find (\<lambda>b. bi_id b = i) (bc_retry ch) of
        None \<Rightarrow> None
      | Some b \<Rightarrow> Some (io_done b BsAborted (ch\<lparr>bc_retry := remove1 b (bc_retry ch)\<rparr>)))"

definition abort_retry_ios :: "nvme_bdev_channel \<Rightarrow> nvme_bdev_channel" where
  "abort_retry_ios ch = foldl (\<lambda>c b. io_done b BsAborted c) (ch\<lparr>bc_retry := [], bc_poller := False\<rparr>) (bc_retry ch)"

text \<open>The return code of the search for the command to abort; it starts from 0.\<close>

fun abort_loop :: "bdev_env \<Rightarrow> int \<Rightarrow> nvme_io_path list \<Rightarrow> int" where
  "abort_loop env rc [] = rc"
| "abort_loop env rc (p # ps) =
     (let rc1 = be_abort env (ip_addr p);
          rc2 = (if rc1 = - 2 then be_abort_admin env (ip_addr p) else rc1)
      in if rc2 \<noteq> - 2 then rc2 else abort_loop env rc2 ps)"

definition abort_io :: "bdev_env \<Rightarrow> nat \<Rightarrow> nvme_bdev_io \<Rightarrow> nvme_bdev_channel \<Rightarrow> nvme_bdev_channel" where
  "abort_io env i b ch =
     (case abort_retry_io i ch of
        Some c1 \<Rightarrow> io_done b BsSuccess c1
      | None \<Rightarrow>
          if abort_loop env 0 (bc_paths ch) \<noteq> 0 then io_done b BsFailed ch
          else if bc_paths ch = [] then ch \<comment> \<open>nothing has been asked of the library\<close>
          else take_out b ch)"

definition submit_on_path :: "bdev_env \<Rightarrow> nvme_bdev_io \<Rightarrow> nvme_bdev_channel \<Rightarrow> nvme_bdev_channel" where
  "submit_on_path env b ch =
     (case bi_type b of
        BioData \<Rightarrow> if be_submit env (bi_id b) = 0 then take_out b ch else io_complete env b (be_submit env (bi_id b)) ch
      | BioReadNoBuf \<Rightarrow> ch\<lparr>bc_buf_wait := bc_buf_wait ch @ [b]\<rparr>
      | BioFlush \<Rightarrow> io_complete env b 0 ch
      | BioReset \<Rightarrow> take_out (b\<lparr>bi_path := None\<rparr>) ch
      | BioAdmin n \<Rightarrow> admin_passthru env n (b\<lparr>bi_path := None\<rparr>) ch
      | BioAbort i \<Rightarrow> abort_io env i (b\<lparr>bi_path := None\<rparr>) ch
      | BioUnknown \<Rightarrow> io_complete env b (- 22) ch)"

definition submit_request :: "bdev_env \<Rightarrow> nvme_bdev_io \<Rightarrow> nvme_bdev_channel \<Rightarrow> fault + nvme_bdev_channel" where
  "submit_request env b ch =
     (let b1 = b\<lparr>bi_submit_tsc := if bi_submit_tsc b = 0 then be_submit_tsc env else be_now env\<rparr> in
      case find_io_path ch of
        None \<Rightarrow> Inl NoReturn
      | Some (Inl f) \<Rightarrow> Inl f
      | Some (Inr (a, c1)) \<Rightarrow>
          let b2 = b1\<lparr>bi_path := a\<rparr> in
          if a = None \<and> \<not> io_type_is_admin (bi_type b) then Inr (io_complete env b2 (- 6) c1)
          else Inr (submit_on_path env b2 c1))"

text \<open>The buffer of a read has been allocated, or not; from then on the read has its buffer.\<close>

definition get_buf_done :: "bdev_env \<Rightarrow> nvme_bdev_io \<Rightarrow> bool \<Rightarrow> nvme_bdev_channel \<Rightarrow> fault + nvme_bdev_channel" where
  "get_buf_done env b success ch =
     (if \<not> success then Inr (io_complete env b (- 22) ch)
      else bindR (deref_path ch (bi_path b)) (\<lambda>p.
        if \<not> path_is_available p then Inr (io_complete env b (- 6) ch)
        else if be_submit env (bi_id b) = 0 then Inr (take_out (b\<lparr>bi_type := BioData\<rparr>) ch)
        else Inr (io_complete env b (be_submit env (bi_id b)) ch)))"

definition retry_io :: "bdev_env \<Rightarrow> nvme_bdev_io \<Rightarrow> nvme_bdev_channel \<Rightarrow> fault + nvme_bdev_channel" where
  "retry_io env b ch =
     (if bi_path b = None then submit_request env b ch
      else bindR (deref_path ch (bi_path b)) (\<lambda>p.
        if path_is_available p then Inr (submit_on_path env b ch) else submit_request env b ch))"

fun retry_loop :: "bdev_env \<Rightarrow> nvme_bdev_io list \<Rightarrow> nvme_bdev_channel \<Rightarrow> fault + nvme_bdev_channel" where
  "retry_loop env [] ch = Inr ch"
| "retry_loop env (b # bs) ch =
     (if bi_retry_ticks b > be_now env then Inr ch
      else bindR (retry_io env b (ch\<lparr>bc_retry := remove1 b (bc_retry ch)\<rparr>)) (retry_loop env bs))"

definition retry_ios :: "bdev_env \<Rightarrow> nvme_bdev_channel \<Rightarrow> fault + nvme_bdev_channel" where
  "retry_ios env ch =
     bindR (retry_loop env (bc_retry ch) ch) (\<lambda>c1. Inr (c1\<lparr>bc_poller := bc_retry c1 \<noteq> []\<rparr>))"

section \<open>Steps\<close>

datatype bdev_event =
    BdSubmit nat bdev_io_type
  | BdComplete nat nvme_cpl \<comment> \<open>an I/O command at the library\<close>
  | BdAdminDone nat bdev_status \<comment> \<open>a reset, admin or abort command\<close>
  | BdBuffer nat bool
  | BdRetryPoll
  | BdPathChanges nvme_io_path
  | BdAddPath nvme_io_path
  | BdDeletePath addr
  | BdClearCache
  | BdSetPolicy mp_policy mp_selector u32
  | BdPrefer addr
  | BdDestroy \<comment> \<open>the channel is destroyed: the I/Os to be retried are aborted\<close>

definition new_bdev_io :: "nat \<Rightarrow> bdev_io_type \<Rightarrow> nvme_bdev_io" where
  "new_bdev_io i t =
     \<lparr>bi_id = i, bi_type = t, bi_path = None, bi_retry_ticks = 0, bi_retry_count = 0, bi_submit_tsc = 0\<rparr>"

text \<open>An event for an I/O that is not where the event takes it from cannot happen.\<close>

definition bdev_step :: "nvme_bdev_channel \<Rightarrow> bdev_env \<times> bdev_event \<Rightarrow> fault + nvme_bdev_channel" where
  "bdev_step ch ee =
     (case ee of (env, e) \<Rightarrow>
      case e of
        BdSubmit i t \<Rightarrow> submit_request env (new_bdev_io i t) ch
      | BdComplete i cpl \<Rightarrow>
          (case List.find (\<lambda>b. bi_id b = i \<and> \<not> io_type_is_admin (bi_type b)) (bc_outstanding ch) of
             None \<Rightarrow> Inr ch
           | Some b \<Rightarrow> io_complete_nvme_status env b cpl (ch\<lparr>bc_outstanding := remove1 b (bc_outstanding ch)\<rparr>))
      | BdAdminDone i st \<Rightarrow>
          (case List.find (\<lambda>b. bi_id b = i \<and> io_type_is_admin (bi_type b)) (bc_outstanding ch) of
             None \<Rightarrow> Inr ch
           | Some b \<Rightarrow> Inr (io_done b st (ch\<lparr>bc_outstanding := remove1 b (bc_outstanding ch)\<rparr>)))
      | BdBuffer i ok \<Rightarrow>
          (case List.find (\<lambda>b. bi_id b = i) (bc_buf_wait ch) of
             None \<Rightarrow> Inr ch
           | Some b \<Rightarrow> get_buf_done env b ok (ch\<lparr>bc_buf_wait := remove1 b (bc_buf_wait ch)\<rparr>))
      | BdRetryPoll \<Rightarrow> (if bc_poller ch then retry_ios env ch else Inr ch)
      | BdPathChanges p \<Rightarrow> Inr (ch\<lparr>bc_paths := update_by ip_addr (ip_addr p) (\<lambda>_. p) (bc_paths ch)\<rparr>)
      | BdAddPath p \<Rightarrow> Inr (if path_at ch (ip_addr p) = None then add_io_path p ch else ch)
      | BdDeletePath a \<Rightarrow> Inr (delete_io_path a ch)
      | BdClearCache \<Rightarrow> Inr (clear_current_io_path ch)
      | BdSetPolicy policy selector rr \<Rightarrow>
          Inr (case checked_rr_min_io policy selector rr of
                 None \<Rightarrow> ch | Some rr' \<Rightarrow> set_multipath_policy policy selector rr' ch)
      | BdPrefer a \<Rightarrow> Inr (set_preferred_path a ch)
      | BdDestroy \<Rightarrow> Inr (abort_retry_ios ch))"

definition new_bdev_channel :: "mp_policy \<Rightarrow> mp_selector \<Rightarrow> u32 \<Rightarrow> nvme_io_path list \<Rightarrow> nvme_bdev_channel" where
  "new_bdev_channel policy selector rr ps =
     foldl (\<lambda>c p. add_io_path p c)
       \<lparr>bc_current = None, bc_policy = policy, bc_selector = selector, bc_rr_min_io = rr, bc_rr_counter = 0,
        bc_paths = [], bc_retry = [], bc_poller = False, bc_buf_wait = [], bc_outstanding = [], bc_done = []\<rparr> ps"

end
