(* ===== verification/Bdev_Path_Props.thy ===== *)
theory Bdev_Path_Props
  imports Bdev_Path
begin

text \<open>
  How a channel chooses a path: the circular search always comes turn to its start and finds what
  a scan of the list from the cached path on finds; the least loaded path; and the fairness of the
  round robin.
\<close>

section \<open>The circle of paths\<close>

abbreviation path_addrs :: "nvme_bdev_channel \<Rightarrow> addr list" where
  "path_addrs ch \<equiv> map ip_addr (bc_paths ch)"

text \<open>The paths are distinct objects, there is one, and the cached one is in the list.\<close>

definition paths_ok :: "nvme_bdev_channel \<Rightarrow> bool" where
  "paths_ok ch \<longleftrightarrow> distinct (path_addrs ch) \<and> bc_paths ch \<noteq> [] \<and>
     (\<forall>a. bc_current ch = Some a \<longrightarrow> a \<in> set (path_addrs ch))"

lemma path_at_nth:
  assumes "distinct (path_addrs ch)" and "k < length (bc_paths ch)"
  shows "path_at ch (ip_addr (bc_paths ch ! k)) = Some (bc_paths ch ! k)"
  unfolding path_at_def using assms by (intro find_Some_iff_distinct [THEN iffD2]) auto

lemma next_in_nth:
  assumes "distinct (map ip_addr ps)" and "k < length ps"
  shows "next_in (ip_addr (ps ! k)) ps = (if Suc k < length ps then Some (ip_addr (ps ! Suc k)) else None)"
  using assms
proof (induction ps arbitrary: k)
  case (Cons p ps)
  show ?case
  proof (cases ps)
    case (Cons q qs)
    show ?thesis
    proof (cases k)
      case (Suc j)
      have "ip_addr p \<noteq> ip_addr (ps ! j)" using Cons.prems Suc by (metis length_Cons list.simps(9) distinct.simps(2) nth_mem image_eqI list.set_map Suc_less_eq)
      then show ?thesis using Cons.IH [of j] Cons.prems Suc Cons by simp
    qed (use Cons in simp)
  qed (use Cons.prems in simp)
qed simp

lemma io_path_get_next_nth:
  assumes "distinct (path_addrs ch)" and "k < length (bc_paths ch)"
  shows "io_path_get_next ch (Some (ip_addr (bc_paths ch ! k))) =
    Inr (Some (ip_addr (bc_paths ch ! (Suc k mod length (bc_paths ch)))))"
proof (cases "Suc k < length (bc_paths ch)")
  case True
  then show ?thesis using assms by (simp add: io_path_get_next_def path_at_nth next_in_nth)
next
  case False
  then have "Suc k = length (bc_paths ch)" using assms(2) by simp
  moreover have "first_path ch = Some (ip_addr (bc_paths ch ! 0))"
    using assms(2) by (cases "bc_paths ch") (simp_all add: first_path_def)
  ultimately show ?thesis using assms by (simp add: io_path_get_next_def path_at_nth next_in_nth)
qed

section \<open>The search as a scan\<close>

definition usable :: "nvme_io_path \<Rightarrow> bool" where
  "usable p \<longleftrightarrow> path_is_connected p \<and> \<not> ip_ana_updating p"

text \<open>One pass over a list of paths.\<close>

fun scan :: "nvme_io_path list \<Rightarrow> addr option \<Rightarrow> found" where
  "scan [] non_opt = FoundOther non_opt"
| "scan (p # ps) non_opt =
     (if usable p \<and> ip_ana_state p = ANA_OPTIMIZED then FoundOptimized (ip_addr p)
      else scan ps (if usable p \<and> ip_ana_state p = ANA_NON_OPTIMIZED \<and> non_opt = None
                    then Some (ip_addr p) else non_opt))"

lemma find_loop_scan:
  assumes d: "distinct (path_addrs ch)" and "s < length (bc_paths ch)" and "j < length (bc_paths ch)"
  shows "find_loop ch (Some (ip_addr (bc_paths ch ! s)))
      (Some (ip_addr (bc_paths ch ! ((s + j) mod length (bc_paths ch))))) non_opt =
    Some (Inr (scan (drop j (rotate s (bc_paths ch))) non_opt))"
  using assms(3)
proof (induction "length (bc_paths ch) - j" arbitrary: j non_opt)
  case 0
  then show ?case by simp
next
  case (Suc m)
  let ?ps = "bc_paths ch"
  let ?n = "length ?ps"
  let ?k = "(s + j) mod ?n"
  have n: "0 < ?n" and k: "?k < ?n" using Suc.prems by (auto intro: mod_less_divisor)
  have dr: "drop j (rotate s ?ps) = ?ps ! ?k # drop (Suc j) (rotate s ?ps)"
    using Suc.prems by (subst Cons_nth_drop_Suc [symmetric]) (simp_all add: nth_rotate)
  have here: "deref_path ch (Some (ip_addr (?ps ! ?k))) = Inr (?ps ! ?k)"
    by (simp add: deref_path_def path_at_nth [OF d k])
  have nx: "io_path_get_next ch (Some (ip_addr (?ps ! ?k))) = Inr (Some (ip_addr (?ps ! ((s + Suc j) mod ?n))))"
    using io_path_get_next_nth [OF d k] by (simp add: mod_Suc_eq)
  have turn: "ip_addr (?ps ! ((s + Suc j) mod ?n)) = ip_addr (?ps ! s) \<longleftrightarrow> Suc j = ?n"
  proof -
    have "ip_addr (?ps ! ((s + Suc j) mod ?n)) = ip_addr (?ps ! s) \<longleftrightarrow> (s + Suc j) mod ?n = s"
      using nth_eq_iff_index_eq [OF d, of "(s + Suc j) mod ?n" s] assms(2) n by simp
    also have "\<dots> \<longleftrightarrow> Suc j = ?n"
    proof
      assume e: "(s + Suc j) mod ?n = s"
      show "Suc j = ?n"
      proof (rule ccontr)
        assume "Suc j \<noteq> ?n"
        then have "Suc j < ?n" using Suc.prems by simp
        then show False using e assms(2) by (cases "s + Suc j < ?n") (auto simp: mod_if split: if_splits)
      qed
    qed (use assms(2) in simp)
    finally show ?thesis .
  qed
  show ?case
  proof (cases "Suc j = ?n")
    case True
    then have e: "drop (Suc j) (rotate s ?ps) = []" by simp
    show ?thesis using here nx turn True unfolding dr e by (subst find_loop.simps) (simp add: usable_def)
  next
    case False
    then have "find_loop ch (Some (ip_addr (?ps ! s))) (Some (ip_addr (?ps ! ((s + Suc j) mod ?n)))) q =
        Some (Inr (scan (drop (Suc j) (rotate s ?ps)) q))" for q
      using Suc.hyps(1) [of "Suc j" q] Suc.hyps(2) Suc.prems by simp
    then show ?thesis using here nx turn False unfolding dr by (subst find_loop.simps) (simp add: usable_def)
  qed
qed

abbreviation optimized :: "nvme_io_path \<Rightarrow> bool" where
  "optimized p \<equiv> usable p \<and> ip_ana_state p = ANA_OPTIMIZED"

abbreviation non_optimized :: "nvme_io_path \<Rightarrow> bool" where
  "non_optimized p \<equiv> usable p \<and> ip_ana_state p = ANA_NON_OPTIMIZED"

text \<open>The first optimized path of a list, or else the first non-optimized one.\<close>

definition best :: "nvme_io_path list \<Rightarrow> addr option" where
  "best ps = (case List.find optimized ps of
                Some p \<Rightarrow> Some (ip_addr p)
              | None \<Rightarrow> map_option ip_addr (List.find non_optimized ps))"

lemma scan_find:
  "scan ps non_opt =
     (case List.find optimized ps of
        Some p \<Rightarrow> FoundOptimized (ip_addr p)
      | None \<Rightarrow> FoundOther (if non_opt \<noteq> None then non_opt else map_option ip_addr (List.find non_optimized ps)))"
  by (induction ps arbitrary: non_opt) (auto split: option.split)

text \<open>The paths from the one after the cached path on, once around.\<close>

definition ring :: "nvme_bdev_channel \<Rightarrow> nvme_io_path list" where
  "ring ch =
     (case bc_current ch of
        None \<Rightarrow> bc_paths ch
      | Some a \<Rightarrow> rotate (Suc (length (takeWhile (\<lambda>p. ip_addr p \<noteq> a) (bc_paths ch)))) (bc_paths ch))"

lemma index_of_path:
  assumes "distinct (path_addrs ch)" and "k < length (bc_paths ch)"
  shows "length (takeWhile (\<lambda>p. ip_addr p \<noteq> ip_addr (bc_paths ch ! k)) (bc_paths ch)) = k"
proof -
  have "takeWhile (\<lambda>p. ip_addr p \<noteq> ip_addr (bc_paths ch ! k)) (bc_paths ch) = take k (bc_paths ch)"
  proof (rule takeWhile_eq_take_P_nth)
    fix i
    assume "i < k" and "i < length (bc_paths ch)"
    then show "ip_addr (bc_paths ch ! i) \<noteq> ip_addr (bc_paths ch ! k)"
      using nth_eq_iff_index_eq [OF assms(1), of i k] assms(2) by simp
  qed simp
  then show ?thesis using assms(2) by simp
qed

lemma circle_start:
  assumes "paths_ok ch"
  obtains s where "s < length (bc_paths ch)"
    and "io_path_get_next ch (bc_current ch) = Inr (Some (ip_addr (bc_paths ch ! s)))"
    and "ring ch = rotate s (bc_paths ch)"
proof (cases "bc_current ch")
  case None
  have "0 < length (bc_paths ch)" using assms by (simp add: paths_ok_def)
  then have "first_path ch = Some (ip_addr (bc_paths ch ! 0))" by (cases "bc_paths ch") (simp_all add: first_path_def)
  with None \<open>0 < length (bc_paths ch)\<close> show ?thesis
    by (intro that [of 0]) (simp_all add: io_path_get_next_def ring_def)
next
  case (Some a)
  have d: "distinct (path_addrs ch)" using assms by (simp add: paths_ok_def)
  obtain k where k: "k < length (bc_paths ch)" "a = ip_addr (bc_paths ch ! k)"
    using assms Some by (auto simp: paths_ok_def in_set_conv_nth)
  then have "Suc k mod length (bc_paths ch) < length (bc_paths ch)" by (intro mod_less_divisor) linarith
  moreover have "ring ch = rotate (Suc k mod length (bc_paths ch)) (bc_paths ch)"
    using Some k index_of_path [OF d k(1)] by (simp add: ring_def rotate_conv_mod [symmetric])
  ultimately show ?thesis using that Some k io_path_get_next_nth [OF d k(1)] by simp
qed

text \<open>C11. The circular search of \<open>_bdev_nvme_find_io_path\<close> always ends, without touching a path that is
  not there, and finds what a single scan finds, from the path after the cached one on: the first
  optimized path, else the first non-optimized one. The cache takes an optimized path, and for the
  active-active policy whatever was found.\<close>

theorem circular_search_is_scan:
  assumes "distinct (path_addrs ch)" and "bc_paths ch \<noteq> []"
    and "\<forall>a. bc_current ch = Some a \<longrightarrow> a \<in> set (path_addrs ch)"
  shows "find_io_path_circle ch =
    Some (Inr (best (ring ch),
      if List.find optimized (ring ch) \<noteq> None \<or> bc_policy ch = MpActiveActive
      then ch\<lparr>bc_current := best (ring ch)\<rparr> else ch))"
proof -
  have ok: "paths_ok ch" using assms by (simp add: paths_ok_def)
  obtain s where s: "s < length (bc_paths ch)"
    "io_path_get_next ch (bc_current ch) = Inr (Some (ip_addr (bc_paths ch ! s)))" "ring ch = rotate s (bc_paths ch)"
    using circle_start [OF ok] .
  have "find_loop ch (Some (ip_addr (bc_paths ch ! s))) (Some (ip_addr (bc_paths ch ! s))) None =
      Some (Inr (scan (ring ch) None))"
    using find_loop_scan [OF assms(1) s(1), of 0 None] s assms(2) by simp
  then show ?thesis
    using s(2) by (auto simp: find_io_path_circle_def scan_find best_def split: option.splits)
qed

section \<open>The round robin\<close>

text \<open>A number of choices one after the other.\<close>

fun picks :: "nat \<Rightarrow> nvme_bdev_channel \<Rightarrow> (addr option list \<times> nvme_bdev_channel) option" where
  "picks 0 ch = Some ([], ch)"
| "picks (Suc t) ch =
     (case picks t ch of
        None \<Rightarrow> None
      | Some (as, c) \<Rightarrow> (case find_io_path c of Some (Inr (a, c')) \<Rightarrow> Some (as @ [a], c') | _ \<Rightarrow> None))"

lemma best_all_optimized:
  assumes "\<forall>p \<in> set ps. optimized p" and "ps \<noteq> []"
  shows "best ps = Some (ip_addr (hd ps))" and "List.find optimized ps \<noteq> None"
  using assms by (cases ps; simp add: best_def)+

lemma circle_all_optimized:
  assumes "paths_ok ch" and "\<forall>p \<in> set (bc_paths ch). optimized p"
  shows "find_io_path_circle ch = Some (Inr (Some (ip_addr (hd (ring ch))), ch\<lparr>bc_current := Some (ip_addr (hd (ring ch)))\<rparr>))"
proof -
  have ne: "bc_paths ch \<noteq> []" using assms(1) by (simp add: paths_ok_def)
  have r: "\<forall>p \<in> set (ring ch). optimized p" "ring ch \<noteq> []"
    using assms(2) ne by (auto simp: ring_def split: option.splits)
  show ?thesis
    using circular_search_is_scan [of ch] assms(1) best_all_optimized [OF r] by (simp add: paths_ok_def)
qed

lemma u32_succ: "unat (c :: u32) < unat (m :: u32) \<Longrightarrow> unat (c + 1) = unat c + 1"
  using unat_u32_less [of m] by (simp add: unat_word_ariths)

text \<open>The channel after \<open>t\<close> choices of the round robin.\<close>

definition after_picks :: "nvme_bdev_channel \<Rightarrow> nat \<Rightarrow> nvme_bdev_channel \<Rightarrow> bool" where
  "after_picks ch t c \<longleftrightarrow>
     (if t = 0 then c = ch
      else \<exists>r. c = ch\<lparr>bc_current := Some (ip_addr (bc_paths ch ! ((t - 1) div unat (bc_rr_min_io ch) mod length (bc_paths ch)))),
                    bc_rr_counter := r\<rparr> \<and> unat r = (t - 1) mod unat (bc_rr_min_io ch))"

lemma next_pick:
  assumes ok: "paths_ok ch" and opt: "\<forall>p \<in> set (bc_paths ch). optimized p"
    and pol: "bc_policy ch = MpActiveActive" "bc_selector ch = SelRoundRobin" "0 < bc_rr_min_io ch"
    and fresh: "bc_current ch = None" "bc_rr_counter ch = 0" and c: "after_picks ch t c"
  shows "\<exists>c'. find_io_path c =
      Some (Inr (Some (ip_addr (bc_paths ch ! (t div unat (bc_rr_min_io ch) mod length (bc_paths ch)))), c')) \<and>
    after_picks ch (Suc t) c'"
proof (cases t)
  case 0
  have ne: "bc_paths ch \<noteq> []" using ok by (simp add: paths_ok_def)
  let ?c = "ch\<lparr>bc_current := Some (ip_addr (bc_paths ch ! 0))\<rparr>"
  have "after_picks ch (Suc 0) ?c"
    using fresh unfolding after_picks_def by (cases ch) (auto intro: exI [of _ 0])
  then show ?thesis
    using 0 c fresh pol ne circle_all_optimized [OF ok opt]
    by (auto simp: after_picks_def [of ch 0] find_io_path_def ring_def hd_conv_nth)
next
  case (Suc u)
  let ?m = "unat (bc_rr_min_io ch)" and ?n = "length (bc_paths ch)"
  let ?k = "u div ?m mod ?n"
  have m: "0 < ?m" using pol(3) by (simp add: word_less_nat_alt)
  have ne: "bc_paths ch \<noteq> []" and n: "0 < ?n" using ok by (simp_all add: paths_ok_def)
  have k: "?k < ?n" using n by simp
  obtain r where r: "c = ch\<lparr>bc_current := Some (ip_addr (bc_paths ch ! ?k)), bc_rr_counter := r\<rparr>" "unat r = u mod ?m"
    using c Suc by (auto simp: after_picks_def)
  have less: "unat r < ?m" using r(2) m by simp
  have r1: "unat (r + 1) = u mod ?m + 1" using u32_succ [OF less] r(2) by simp
  show ?thesis
  proof (cases "Suc (u mod ?m) < ?m")
    case True
    then have "Suc u div ?m = u div ?m" "Suc u mod ?m = Suc (u mod ?m)" by (simp_all add: div_Suc mod_Suc)
    then show ?thesis using True r r1 pol Suc
      by (auto simp: find_io_path_def after_picks_def word_less_nat_alt)
  next
    case False
    then have l: "Suc (u mod ?m) = ?m" using less r(2) by simp
    then have d: "Suc u div ?m = Suc (u div ?m)" "Suc u mod ?m = 0" by (simp_all add: div_Suc mod_Suc)
    let ?c = "c\<lparr>bc_rr_counter := 0\<rparr>"
    have okc: "paths_ok ?c" using ok k r(1) by (auto simp: paths_ok_def)
    have "ring ?c = rotate (Suc ?k) (bc_paths ch)"
      using r(1) index_of_path [of ch ?k] ok k by (simp add: ring_def paths_ok_def)
    then have h: "hd (ring ?c) = bc_paths ch ! (Suc u div ?m mod ?n)"
      using hd_rotate_conv_nth [OF ne, of "Suc ?k"] by (simp add: d mod_Suc_eq del: rotate_Suc)
    have "find_io_path c = find_io_path_circle ?c"
      using r pol l r1 by (auto simp: find_io_path_def word_less_nat_alt)
    also have "\<dots> = Some (Inr (Some (ip_addr (hd (ring ?c))), ?c\<lparr>bc_current := Some (ip_addr (hd (ring ?c)))\<rparr>))"
      by (rule circle_all_optimized [OF okc]) (use opt r(1) in simp)
    finally have f: "find_io_path c = Some (Inr (Some (ip_addr (bc_paths ch ! (Suc u div ?m mod ?n))),
        ?c\<lparr>bc_current := Some (ip_addr (bc_paths ch ! (Suc u div ?m mod ?n)))\<rparr>))" unfolding h .
    moreover have "after_picks ch (Suc t) (?c\<lparr>bc_current := Some (ip_addr (bc_paths ch ! (Suc u div ?m mod ?n)))\<rparr>)"
      using Suc r(1) d by (auto simp: after_picks_def intro: exI [of _ 0])
    ultimately show ?thesis using Suc by blast
  qed
qed

text \<open>C12. The active-active round robin is fair: with every path optimized it stays on a path for
  \<open>rr_min_io\<close> I/Os and then goes on to the next, around the list.\<close>

theorem round_robin_fair:
  assumes "distinct (path_addrs ch)" and "bc_paths ch \<noteq> []"
    and "\<forall>p \<in> set (bc_paths ch). path_is_connected p \<and> \<not> ip_ana_updating p \<and> ip_ana_state p = ANA_OPTIMIZED"
    and "bc_policy ch = MpActiveActive" and "bc_selector ch = SelRoundRobin" and "0 < bc_rr_min_io ch"
    and "bc_current ch = None" and "bc_rr_counter ch = 0"
  shows "map_option fst (picks t ch) =
    Some (map (\<lambda>i. Some (ip_addr (bc_paths ch ! (i div unat (bc_rr_min_io ch) mod length (bc_paths ch))))) [0..<t])"
proof -
  have ok: "paths_ok ch" using assms by (simp add: paths_ok_def)
  have opt: "\<forall>p \<in> set (bc_paths ch). optimized p" using assms(3) by (simp add: usable_def)
  have "\<exists>c. picks t ch = Some (map (\<lambda>i. Some (ip_addr (bc_paths ch !
      (i div unat (bc_rr_min_io ch) mod length (bc_paths ch))))) [0..<t], c) \<and> after_picks ch t c"
  proof (induction t)
    case (Suc t)
    then obtain c where c: "after_picks ch t c"
      "picks t ch = Some (map (\<lambda>i. Some (ip_addr (bc_paths ch !
        (i div unat (bc_rr_min_io ch) mod length (bc_paths ch))))) [0..<t], c)" by blast
    from next_pick [OF ok opt assms(4-8) c(1)] c(2) show ?case by auto
  qed (simp add: after_picks_def)
  then show ?thesis by auto
qed

section \<open>The least loaded path\<close>

definition min_scan_step :: "u32 \<times> addr option \<Rightarrow> nvme_io_path \<Rightarrow> u32 \<times> addr option" where
  "min_scan_step acc p = (if ip_outstanding p < fst acc then (ip_outstanding p, Some (ip_addr p)) else acc)"

lemma min_qd_split:
  "foldl min_qd_step (a, b) ps =
     (foldl min_scan_step a (filter optimized ps), foldl min_scan_step b (filter non_optimized ps))"
proof (induction ps arbitrary: a b)
  case (Cons p ps)
  have "min_qd_step (a, b) p =
      (if optimized p then (min_scan_step a p, b) else if non_optimized p then (a, min_scan_step b p) else (a, b))"
    by (cases "ip_ana_state p") (auto simp: min_qd_step_def min_scan_step_def usable_def)
  then show ?case using Cons.IH by simp
qed simp

text \<open>The first of the least loaded paths of a list.\<close>

definition least_split :: "nvme_io_path list \<Rightarrow> nvme_io_path \<Rightarrow> bool" where
  "least_split ps p \<longleftrightarrow>
     (\<exists>xs ys. ps = xs @ p # ys \<and> (\<forall>x \<in> set xs. ip_outstanding p < ip_outstanding x) \<and>
        (\<forall>y \<in> set ys. ip_outstanding p \<le> ip_outstanding y))"

definition first_least :: "nvme_io_path list \<Rightarrow> addr option \<Rightarrow> bool" where
  "first_least ps a \<longleftrightarrow> (\<exists>p. a = Some (ip_addr p) \<and> least_split ps p)"

lemma not_first_least_None [simp]: "\<not> first_least ps None"
  by (simp add: first_least_def)

lemma first_leastD: "first_least ps a \<Longrightarrow> \<exists>y. a = Some y"
  by (auto simp: first_least_def)

lemma least_split_head: "\<forall>y \<in> set ps. ip_outstanding x \<le> ip_outstanding y \<Longrightarrow> least_split (x # ps) x"
  unfolding least_split_def by (intro exI [of _ "[]"] exI [of _ ps]) simp

lemma least_split_Cons:
  assumes "least_split ps p" and "ip_outstanding p < ip_outstanding x"
  shows "least_split (x # ps) p"
proof -
  obtain xs ys where "ps = xs @ p # ys" "\<forall>x \<in> set xs. ip_outstanding p < ip_outstanding x"
    "\<forall>y \<in> set ys. ip_outstanding p \<le> ip_outstanding y"
    using assms(1) by (auto simp: least_split_def)
  with assms(2) show ?thesis unfolding least_split_def by (intro exI [of _ "x # xs"] exI [of _ ys]) simp
qed

lemma min_scan_cases:
  "(foldl min_scan_step (q, a) ps = (q, a) \<and> (\<forall>p \<in> set ps. q \<le> ip_outstanding p)) \<or>
   (\<exists>p. foldl min_scan_step (q, a) ps = (ip_outstanding p, Some (ip_addr p)) \<and> ip_outstanding p < q \<and> least_split ps p)"
proof (induction ps arbitrary: q a)
  case (Cons x ps)
  show ?case
  proof (cases "ip_outstanding x < q")
    case True
    then have f: "foldl min_scan_step (q, a) (x # ps) = foldl min_scan_step (ip_outstanding x, Some (ip_addr x)) ps"
      by (simp add: min_scan_step_def)
    show ?thesis unfolding f
      using Cons.IH [of "ip_outstanding x" "Some (ip_addr x)"] True
      by (blast intro: least_split_head least_split_Cons less_trans)
  next
    case False
    then have f: "foldl min_scan_step (q, a) (x # ps) = foldl min_scan_step (q, a) ps" by (simp add: min_scan_step_def)
    from False have le: "q \<le> ip_outstanding x" by simp
    show ?thesis unfolding f
      using Cons.IH [of q a] le by (auto intro: least_split_Cons dest: less_le_trans)
  qed
qed simp

lemma min_scan_first_least:
  assumes "\<forall>p \<in> set ps. ip_outstanding p < UINT32_MAX"
  shows "if ps = [] then snd (foldl min_scan_step (UINT32_MAX, None) ps) = None
    else first_least ps (snd (foldl min_scan_step (UINT32_MAX, None) ps))"
proof (cases ps)
  case (Cons p qs)
  then have "\<not> (\<forall>p \<in> set ps. UINT32_MAX \<le> ip_outstanding p)" using assms by auto
  then obtain p where "foldl min_scan_step (UINT32_MAX, None) ps = (ip_outstanding p, Some (ip_addr p))" "least_split ps p"
    using min_scan_cases [of UINT32_MAX None ps] by blast
  then show ?thesis using Cons by (simp only: first_least_def snd_conv) auto
qed simp

text \<open>The queue-depth selector returns the first least loaded of the usable optimized paths, or else
  the first least loaded of the usable non-optimized ones.\<close>

theorem queue_depth_choice:
  assumes "\<forall>p \<in> set (bc_paths ch). ip_outstanding p < UINT32_MAX"
  shows "let opt = filter (\<lambda>p. path_is_connected p \<and> \<not> ip_ana_updating p \<and> ip_ana_state p = ANA_OPTIMIZED) (bc_paths ch);
             oth = filter (\<lambda>p. path_is_connected p \<and> \<not> ip_ana_updating p \<and> ip_ana_state p = ANA_NON_OPTIMIZED) (bc_paths ch)
         in if opt \<noteq> [] then first_least opt (find_io_path_min_qd ch)
            else if oth \<noteq> [] then first_least oth (find_io_path_min_qd ch)
            else find_io_path_min_qd ch = None"
proof -
  let ?o = "filter optimized (bc_paths ch)" and ?n = "filter non_optimized (bc_paths ch)"
  have o: "if ?o = [] then snd (foldl min_scan_step (UINT32_MAX, None) ?o) = None
    else first_least ?o (snd (foldl min_scan_step (UINT32_MAX, None) ?o))"
    by (rule min_scan_first_least) (use assms in auto)
  have n: "if ?n = [] then snd (foldl min_scan_step (UINT32_MAX, None) ?n) = None
    else first_least ?n (snd (foldl min_scan_step (UINT32_MAX, None) ?n))"
    by (rule min_scan_first_least) (use assms in auto)
  show ?thesis
    unfolding Let_def usable_def [symmetric] conj_assoc [symmetric]
    using o n by (auto dest: first_leastD simp: find_io_path_min_qd_def min_qd_split usable_def split: if_splits)
qed

section \<open>Examples\<close>

definition demo_bctrlr :: bdev_ctrlr where
  "demo_bctrlr = \<lparr>bt_destruct = False, bt_resetting = False, bt_reconnect_is_delayed = False, bt_failed = False,
     bt_crdt = [5, 10, 20], bt_ana_log_readable = True, bt_max_xfer = 4096\<rparr>"

definition demo_path :: "addr \<Rightarrow> ana_state \<Rightarrow> u32 \<Rightarrow> nvme_io_path" where
  "demo_path a st load =
     \<lparr>ip_addr = a, ip_has_qpair = True, ip_qpair_ok = True, ip_reset_iter = False, ip_admin_ok = True,
      ip_ana_state = st, ip_ana_updating = False, ip_outstanding = load, ip_ctrlr = demo_bctrlr\<rparr>"

definition demo_bdev_channel :: "mp_policy \<Rightarrow> mp_selector \<Rightarrow> u32 \<Rightarrow> addr option \<Rightarrow> nvme_io_path list \<Rightarrow> nvme_bdev_channel" where
  "demo_bdev_channel policy selector rr current ps =
     \<lparr>bc_current = current, bc_policy = policy, bc_selector = selector, bc_rr_min_io = rr, bc_rr_counter = 0,
      bc_paths = ps, bc_retry = [], bc_poller = False, bc_buf_wait = [], bc_outstanding = [], bc_done = []\<rparr>"

lemma circular_search_is_scan_witness:
  "map_option (map_sum id fst) (find_io_path_circle (demo_bdev_channel MpActivePassive SelRoundRobin 1 (Some 2)
     [demo_path 1 ANA_OPTIMIZED 0, demo_path 2 ANA_NON_OPTIMIZED 0, demo_path 3 ANA_INACCESSIBLE 0])) =
   Some (Inr (Some 1))"
proof -
  let ?ch = "demo_bdev_channel MpActivePassive SelRoundRobin 1 (Some 2)
     [demo_path 1 ANA_OPTIMIZED 0, demo_path 2 ANA_NON_OPTIMIZED 0, demo_path 3 ANA_INACCESSIBLE 0]"
  have "distinct (path_addrs ?ch)" "bc_paths ?ch \<noteq> []"
    "\<forall>a. bc_current ?ch = Some a \<longrightarrow> a \<in> set (path_addrs ?ch)"
    by (simp_all add: demo_bdev_channel_def demo_path_def)
  from circular_search_is_scan [OF this] have "map_option (map_sum id fst) (find_io_path_circle ?ch) = Some (Inr (best (ring ?ch)))"
    by simp
  moreover have "best (ring ?ch) = Some 1" by code_simp
  ultimately show ?thesis by simp
qed

lemma round_robin_fair_witness:
  "map_option fst (picks 5 (demo_bdev_channel MpActiveActive SelRoundRobin 2 None
     [demo_path 1 ANA_OPTIMIZED 0, demo_path 2 ANA_OPTIMIZED 0])) =
   Some [Some 1, Some 1, Some 2, Some 2, Some 1]"
proof -
  let ?ch = "demo_bdev_channel MpActiveActive SelRoundRobin 2 None [demo_path 1 ANA_OPTIMIZED 0, demo_path 2 ANA_OPTIMIZED 0]"
  have "distinct (path_addrs ?ch)" "bc_paths ?ch \<noteq> []"
    "\<forall>p \<in> set (bc_paths ?ch). path_is_connected p \<and> \<not> ip_ana_updating p \<and> ip_ana_state p = ANA_OPTIMIZED"
    "bc_policy ?ch = MpActiveActive" "bc_selector ?ch = SelRoundRobin" "0 < bc_rr_min_io ?ch"
    "bc_current ?ch = None" "bc_rr_counter ?ch = 0"
    by (simp_all add: demo_bdev_channel_def demo_path_def path_is_connected_def)
  from round_robin_fair [OF this, of 5] show ?thesis
    by (simp add: demo_bdev_channel_def demo_path_def upt_rec)
qed

lemma queue_depth_choice_witness:
  "first_least [demo_path 1 ANA_OPTIMIZED 7, demo_path 3 ANA_OPTIMIZED 4]
     (find_io_path_min_qd (demo_bdev_channel MpActiveActive SelQueueDepth 1 None
       [demo_path 1 ANA_OPTIMIZED 7, demo_path 2 ANA_NON_OPTIMIZED 0, demo_path 3 ANA_OPTIMIZED 4]))"
proof -
  let ?ch = "demo_bdev_channel MpActiveActive SelQueueDepth 1 None
       [demo_path 1 ANA_OPTIMIZED 7, demo_path 2 ANA_NON_OPTIMIZED 0, demo_path 3 ANA_OPTIMIZED 4]"
  have "\<forall>p \<in> set (bc_paths ?ch). ip_outstanding p < UINT32_MAX" by code_simp
  from queue_depth_choice [OF this] show ?thesis
    by (simp add: demo_bdev_channel_def demo_path_def path_is_connected_def)
qed

end
