(* ===== verification/Bdev_Io_Props.thy ===== *)
theory Bdev_Io_Props
  imports Bdev_Io Bdev_Path_Props "HOL-Library.Multiset"
begin

text \<open>
  The I/Os of a channel over its whole life: as long as no path is removed the only fault is a read
  outside the retry delays of the controller data (\<open>crd_hazard\<close>), every I/O is completed once or
  held in one place, the list of retries is in the order of time and
  watched by a poller, and no I/O is retried more often than the option allows. And what goes
  wrong: a path that is removed is still used by its I/Os, and no failure of a path is retried.
\<close>

section \<open>Invariant\<close>

definition pending :: "nvme_bdev_channel \<Rightarrow> nat multiset" where
  "pending ch = mset (map bi_id (bc_retry ch)) + mset (map bi_id (bc_buf_wait ch)) +
     mset (map bi_id (bc_outstanding ch)) + mset (map fst (bc_done ch))"

abbreviation is_admin :: "nvme_bdev_io \<Rightarrow> bool" where
  "is_admin b \<equiv> io_type_is_admin (bi_type b)"

text \<open>An I/O that is held: the number of its retries is within the limit, and an I/O command has a
  path of the channel.\<close>

definition count_ok :: "int \<Rightarrow> nvme_bdev_io \<Rightarrow> bool" where
  "count_ok L b \<longleftrightarrow> 0 \<le> bi_retry_count b \<and> (0 \<le> L \<longrightarrow> bi_retry_count b \<le> L)"

definition has_path :: "nvme_bdev_channel \<Rightarrow> nvme_bdev_io \<Rightarrow> bool" where
  "has_path ch b \<longleftrightarrow> (\<exists>a. bi_path b = Some a \<and> a \<in> set (path_addrs ch))"

definition bdev_inv :: "int \<Rightarrow> nvme_bdev_channel \<Rightarrow> bool" where
  "bdev_inv L ch \<longleftrightarrow> paths_ok ch \<and> (\<forall>p \<in> set (bc_paths ch). length (bt_crdt (ip_ctrlr p)) = 3) \<and>
     sorted (map bi_retry_ticks (bc_retry ch)) \<and> (bc_retry ch \<noteq> [] \<longrightarrow> bc_poller ch) \<and>
     (\<forall>b \<in> set (bc_retry ch). count_ok L b \<and> \<not> is_admin b \<and> has_path ch b) \<and>
     (\<forall>b \<in> set (bc_buf_wait ch). count_ok L b \<and> \<not> is_admin b \<and> has_path ch b) \<and>
     (\<forall>b \<in> set (bc_outstanding ch). count_ok L b \<and> (\<not> is_admin b \<longrightarrow> has_path ch b))"

text \<open>The result of an operation on an I/O that is not held.\<close>

definition keeps :: "int \<Rightarrow> nvme_bdev_channel \<Rightarrow> nat multiset \<Rightarrow> nvme_bdev_channel \<Rightarrow> bool" where
  "keeps L ch q ch' \<longleftrightarrow> bdev_inv L ch' \<and> pending ch' = pending ch + q \<and> path_addrs ch' = path_addrs ch \<and>
     (bc_retry ch' = bc_retry ch \<or> q \<noteq> {#})"

lemma has_path_deref:
  assumes "bdev_inv L ch" and "has_path ch b"
  obtains p where "deref_path ch (bi_path b) = Inr p" and "p \<in> set (bc_paths ch)" and "bi_path b = Some (ip_addr p)"
proof -
  obtain a where a: "bi_path b = Some a" "a \<in> set (path_addrs ch)" using assms(2) by (auto simp: has_path_def)
  have d: "distinct (path_addrs ch)" using assms(1) by (simp add: bdev_inv_def paths_ok_def)
  obtain k where k: "k < length (bc_paths ch)" "a = ip_addr (bc_paths ch ! k)" using a(2) by (auto simp: in_set_conv_nth)
  with that [of "bc_paths ch ! k"] a(1) path_at_nth [OF d k(1)] show ?thesis by (simp add: deref_path_def)
qed

section \<open>Operations\<close>

lemma has_path_cong [simp]:
  "has_path (ch\<lparr>bc_current := x\<rparr>) = has_path ch" "has_path (ch\<lparr>bc_rr_counter := r\<rparr>) = has_path ch"
  "has_path (ch\<lparr>bc_retry := l\<rparr>) = has_path ch" "has_path (ch\<lparr>bc_poller := w\<rparr>) = has_path ch"
  "has_path (ch\<lparr>bc_buf_wait := l\<rparr>) = has_path ch" "has_path (ch\<lparr>bc_outstanding := l\<rparr>) = has_path ch"
  "has_path (ch\<lparr>bc_done := d\<rparr>) = has_path ch"
  by (auto simp: has_path_def fun_eq_iff)

lemma paths_ok_cong [simp]:
  "paths_ok (ch\<lparr>bc_rr_counter := r\<rparr>) = paths_ok ch" "paths_ok (ch\<lparr>bc_retry := l\<rparr>) = paths_ok ch"
  "paths_ok (ch\<lparr>bc_poller := w\<rparr>) = paths_ok ch" "paths_ok (ch\<lparr>bc_buf_wait := l\<rparr>) = paths_ok ch"
  "paths_ok (ch\<lparr>bc_outstanding := l\<rparr>) = paths_ok ch" "paths_ok (ch\<lparr>bc_done := d\<rparr>) = paths_ok ch"
  by (auto simp: paths_ok_def)

lemma io_done_inv [simp]: "bdev_inv L (io_done b st ch) = bdev_inv L ch"
  by (simp add: bdev_inv_def io_done_def)

lemma io_done_pending [simp]: "pending (io_done b st ch) = pending ch + {#bi_id b#}"
  by (simp add: pending_def io_done_def)

lemma io_done_same [simp]:
  "bc_paths (io_done b st ch) = bc_paths ch" "bc_retry (io_done b st ch) = bc_retry ch"
  "bc_current (io_done b st ch) = bc_current ch"
  by (simp_all add: io_done_def)

lemma clear_current_inv: "bdev_inv L ch \<Longrightarrow> bdev_inv L (clear_current_io_path ch)"
  by (simp add: bdev_inv_def clear_current_io_path_def paths_ok_def)

lemma clear_current_same [simp]:
  "pending (clear_current_io_path ch) = pending ch" "bc_paths (clear_current_io_path ch) = bc_paths ch"
  "bc_retry (clear_current_io_path ch) = bc_retry ch"
  by (simp_all add: pending_def clear_current_io_path_def)

lemma forget_retries_id [simp]: "bi_id (forget_retries b) = bi_id b"
  by (simp add: forget_retries_def)

lemma io_complete_keeps: "bdev_inv L ch \<Longrightarrow> keeps L ch {#bi_id b#} (io_complete env b rc ch)"
  by (simp add: keeps_def io_complete_def Let_def any_io_path_may_become_available_def clear_current_inv)

lemma io_complete_retry [simp]: "bc_retry (io_complete env b rc ch) = bc_retry ch"
  by (simp add: io_complete_def Let_def any_io_path_may_become_available_def)

lemma take_out_keeps:
  assumes "bdev_inv L ch" and "count_ok L b" and "\<not> is_admin b \<Longrightarrow> has_path ch b"
  shows "keeps L ch {#bi_id b#} (take_out b ch)"
  using assms by (auto simp: keeps_def take_out_def bdev_inv_def pending_def)

lemma take_out_retry [simp]: "bc_retry (take_out b ch) = bc_retry ch"
  by (simp add: take_out_def)

lemma admin_passthru_keeps:
  assumes "bdev_inv L ch" and "count_ok L b" and "is_admin b"
  shows "keeps L ch {#bi_id b#} (admin_passthru env n b ch)"
proof (cases "admin_loop env n (- 6) (bc_paths ch)")
  case (Inl rc)
  then show ?thesis using assms(1) by (simp add: admin_passthru_def keeps_def)
next
  case (Inr a)
  then show ?thesis
    using take_out_keeps [of L ch "b\<lparr>bi_path := Some a\<rparr>"] assms by (simp add: admin_passthru_def count_ok_def)
qed

lemma mset_find_remove1:
  assumes "List.find P bs = Some b"
  shows "mset (map bi_id (remove1 b bs)) + {#bi_id b#} = mset (map bi_id bs)"
proof -
  have "b \<in> set bs" using find_SomeD [OF assms] by simp
  then have "mset (remove1 b bs) + {#b#} = mset bs" by simp
  then have "image_mset bi_id (mset (remove1 b bs) + {#b#}) = image_mset bi_id (mset bs)" by (simp only:)
  then show ?thesis by simp
qed

lemma bdev_inv_remove:
  assumes "bdev_inv L ch"
  shows "bdev_inv L (ch\<lparr>bc_retry := remove1 b (bc_retry ch)\<rparr>)"
    and "bdev_inv L (ch\<lparr>bc_buf_wait := remove1 b (bc_buf_wait ch)\<rparr>)"
    and "bdev_inv L (ch\<lparr>bc_outstanding := remove1 b (bc_outstanding ch)\<rparr>)"
  using assms by (auto simp: bdev_inv_def sorted_map_remove1 dest: notin_set_remove1)

lemma pending_with:
  "pending (ch\<lparr>bc_retry := l\<rparr>) = mset (map bi_id l) + mset (map bi_id (bc_buf_wait ch)) +
     mset (map bi_id (bc_outstanding ch)) + mset (map fst (bc_done ch))"
  "pending (ch\<lparr>bc_buf_wait := l\<rparr>) = mset (map bi_id (bc_retry ch)) + mset (map bi_id l) +
     mset (map bi_id (bc_outstanding ch)) + mset (map fst (bc_done ch))"
  "pending (ch\<lparr>bc_outstanding := l\<rparr>) = mset (map bi_id (bc_retry ch)) + mset (map bi_id (bc_buf_wait ch)) +
     mset (map bi_id l) + mset (map fst (bc_done ch))"
  by (simp_all add: pending_def)

lemma add_out:
  fixes x :: "nat multiset"
  shows "r + x = r' \<Longrightarrow> r + b + c + d + x = r' + b + c + d"
    and "r + x = r' \<Longrightarrow> b + r + c + d + x = b + r' + c + d"
    and "r + x = r' \<Longrightarrow> b + c + r + d + x = b + c + r' + d"
  by (auto simp: ac_simps)

lemma pending_remove:
  "List.find P (bc_retry ch) = Some b \<Longrightarrow> pending (ch\<lparr>bc_retry := remove1 b (bc_retry ch)\<rparr>) + {#bi_id b#} = pending ch"
  "List.find P (bc_buf_wait ch) = Some b \<Longrightarrow> pending (ch\<lparr>bc_buf_wait := remove1 b (bc_buf_wait ch)\<rparr>) + {#bi_id b#} = pending ch"
  "List.find P (bc_outstanding ch) = Some b \<Longrightarrow> pending (ch\<lparr>bc_outstanding := remove1 b (bc_outstanding ch)\<rparr>) + {#bi_id b#} = pending ch"
  unfolding pending_with pending_def [of ch] by (rule add_out, erule mset_find_remove1)+

lemma abort_io_keeps:
  assumes "bdev_inv L ch" and "count_ok L b" and "is_admin b"
  shows "keeps L ch {#bi_id b#} (abort_io env i b ch)"
proof (cases "abort_retry_io i ch")
  case None
  have "bc_paths ch \<noteq> []" using assms(1) by (simp add: bdev_inv_def paths_ok_def)
  then show ?thesis
    using None take_out_keeps [OF assms(1,2)] assms by (simp add: abort_io_def keeps_def)
next
  case (Some c)
  then obtain x where x: "List.find (\<lambda>b. bi_id b = i) (bc_retry ch) = Some x"
    and c: "c = io_done x BsAborted (ch\<lparr>bc_retry := remove1 x (bc_retry ch)\<rparr>)"
    by (auto simp: abort_retry_io_def split: option.splits)
  have "bdev_inv L c"
    using bdev_inv_remove(1) [OF assms(1)] by (simp add: c)
  moreover have "pending c = pending ch"
    using pending_remove(1) [OF x] by (simp add: c)
  moreover have "path_addrs c = path_addrs ch" by (simp add: c)
  ultimately show ?thesis using Some by (simp add: abort_io_def keeps_def)
qed

lemma submit_on_path_keeps:
  assumes "bdev_inv L ch" and "count_ok L b" and "\<not> is_admin b \<Longrightarrow> has_path ch b"
  shows "keeps L ch {#bi_id b#} (submit_on_path env b ch)"
proof (cases "bi_type b")
  case BioReadNoBuf
  then show ?thesis using assms
    by (auto simp: submit_on_path_def keeps_def bdev_inv_def pending_def io_type_is_admin_def)
next
  case (BioAdmin n)
  then have "is_admin (b\<lparr>bi_path := None\<rparr>)" "count_ok L (b\<lparr>bi_path := None\<rparr>)"
    using assms(2) by (simp_all add: io_type_is_admin_def count_ok_def)
  from admin_passthru_keeps [OF assms(1) this(2,1)] BioAdmin show ?thesis by (simp add: submit_on_path_def)
next
  case (BioAbort i)
  then have "is_admin (b\<lparr>bi_path := None\<rparr>)" "count_ok L (b\<lparr>bi_path := None\<rparr>)"
    using assms(2) by (simp_all add: io_type_is_admin_def count_ok_def)
  from abort_io_keeps [OF assms(1) this(2,1)] BioAbort show ?thesis by (simp add: submit_on_path_def)
next
  case BioReset
  then show ?thesis using assms take_out_keeps [OF assms(1), of "b\<lparr>bi_path := None\<rparr>"]
    by (simp add: submit_on_path_def count_ok_def io_type_is_admin_def)
next
  case BioData
  then show ?thesis
    using io_complete_keeps [OF assms(1)] take_out_keeps [OF assms] by (simp add: submit_on_path_def)
qed (use assms(1) io_complete_keeps in \<open>simp_all add: submit_on_path_def\<close>)

lemma submit_on_path_retry:
  "\<not> is_admin b \<Longrightarrow> bc_retry (submit_on_path env b ch) = bc_retry ch"
  by (cases "bi_type b") (simp_all add: submit_on_path_def io_type_is_admin_def)

lemma find_io_path_ok:
  assumes "paths_ok ch"
  shows "\<exists>a x r. find_io_path ch = Some (Inr (a, ch\<lparr>bc_current := x, bc_rr_counter := r\<rparr>)) \<and>
    paths_ok (ch\<lparr>bc_current := x, bc_rr_counter := r\<rparr>) \<and> (\<forall>b. a = Some b \<longrightarrow> b \<in> set (path_addrs ch))"
proof -
  have best_in: "best (ring c) = Some b \<Longrightarrow> b \<in> set (path_addrs c)" for b and c :: nvme_bdev_channel
    by (auto simp: best_def ring_def dest!: find_SomeD split: option.splits)
  have id: "ch = ch\<lparr>bc_current := bc_current ch, bc_rr_counter := bc_rr_counter ch\<rparr>" by simp
  have circle: "\<exists>a x r. find_io_path_circle (ch\<lparr>bc_rr_counter := k\<rparr>) = Some (Inr (a, ch\<lparr>bc_current := x, bc_rr_counter := r\<rparr>)) \<and>
    paths_ok (ch\<lparr>bc_current := x, bc_rr_counter := r\<rparr>) \<and> (\<forall>b. a = Some b \<longrightarrow> b \<in> set (path_addrs ch))" for k
  proof -
    let ?c = "ch\<lparr>bc_rr_counter := k\<rparr>"
    have "paths_ok ?c" using assms by simp
    then have "find_io_path_circle ?c = Some (Inr (best (ring ?c),
        ch\<lparr>bc_current := if List.find optimized (ring ?c) \<noteq> None \<or> bc_policy ch = MpActiveActive
                       then best (ring ?c) else bc_current ch, bc_rr_counter := k\<rparr>))"
      using circular_search_is_scan [of ?c] by (simp add: paths_ok_def)
    moreover have "paths_ok (ch\<lparr>bc_current := if List.find optimized (ring ?c) \<noteq> None \<or> bc_policy ch = MpActiveActive
                       then best (ring ?c) else bc_current ch, bc_rr_counter := k\<rparr>)"
      using assms best_in [of ?c] by (auto simp: paths_ok_def)
    ultimately show ?thesis using best_in [of ?c]
      by (intro exI [of _ "best (ring ?c)"] exI [of _ "if List.find optimized (ring ?c) \<noteq> None \<or>
        bc_policy ch = MpActiveActive then best (ring ?c) else bc_current ch"] exI [of _ k]) simp
  qed
  have least: "find_io_path_min_qd ch = Some b \<Longrightarrow> b \<in> set (path_addrs ch)" for b
  proof -
    have kept: "(case foldl min_scan_step (q, None) ps of (_, Some a) \<Rightarrow> a \<in> ip_addr ` set ps | _ \<Rightarrow> True)" for q ps
      using min_scan_cases [of q None ps] by (auto simp: least_split_def)
    from kept [where q = UINT32_MAX and ps = "filter optimized (bc_paths ch)"]
      kept [where q = UINT32_MAX and ps = "filter non_optimized (bc_paths ch)"]
    show "find_io_path_min_qd ch = Some b \<Longrightarrow> b \<in> set (path_addrs ch)"
      by (auto simp: find_io_path_min_qd_def min_qd_split split: prod.splits if_splits)
  qed
  have here: "\<exists>a' x r. Some (Inr (a, ch\<lparr>bc_rr_counter := k\<rparr>)) = Some (Inr (a', ch\<lparr>bc_current := x, bc_rr_counter := r\<rparr>)) \<and>
    paths_ok (ch\<lparr>bc_current := x, bc_rr_counter := r\<rparr>) \<and> (\<forall>b. a' = Some b \<longrightarrow> b \<in> set (path_addrs ch))"
    if "\<forall>b. a = Some b \<longrightarrow> b \<in> set (path_addrs ch)" for a k
    using assms that by (intro exI [of _ a] exI [of _ "bc_current ch"] exI [of _ k]) (simp add: paths_ok_def)
  have cur: "\<forall>b. bc_current ch = Some b \<longrightarrow> b \<in> set (path_addrs ch)" using assms by (simp add: paths_ok_def)
  have least': "\<forall>b. find_io_path_min_qd ch = Some b \<longrightarrow> b \<in> set (path_addrs ch)" using least by blast
  show ?thesis
    using circle [of "bc_rr_counter ch"] circle [of 0] here [OF cur, of "bc_rr_counter ch"]
      here [OF cur, of "bc_rr_counter ch + 1"] here [OF least', of "bc_rr_counter ch"]
    by (auto simp: find_io_path_def Let_def)
qed

lemma submit_request_keeps:
  assumes "bdev_inv L ch" and "count_ok L b"
  shows "\<exists>ch'. submit_request env b ch = Inr ch' \<and> keeps L ch {#bi_id b#} ch' \<and>
    (\<not> is_admin b \<longrightarrow> bc_retry ch' = bc_retry ch)"
proof -
  obtain a x r where f: "find_io_path ch = Some (Inr (a, ch\<lparr>bc_current := x, bc_rr_counter := r\<rparr>))"
    and ok: "paths_ok (ch\<lparr>bc_current := x, bc_rr_counter := r\<rparr>)" and a: "\<forall>b. a = Some b \<longrightarrow> b \<in> set (path_addrs ch)"
    using find_io_path_ok [of ch] assms(1) by (auto simp: bdev_inv_def)
  let ?c = "ch\<lparr>bc_current := x, bc_rr_counter := r\<rparr>"
  let ?b = "b\<lparr>bi_submit_tsc := if bi_submit_tsc b = 0 then be_submit_tsc env else be_now env, bi_path := a\<rparr>"
  have i: "bdev_inv L ?c" using assms(1) ok by (simp add: bdev_inv_def)
  have same: "keeps L ?c q d \<longleftrightarrow> keeps L ch q d" for q d by (simp add: keeps_def pending_def)
  have b: "count_ok L ?b" "is_admin ?b = is_admin b" "bi_id ?b = bi_id b" using assms(2) by (simp_all add: count_ok_def)
  show ?thesis
  proof (cases "a = None \<and> \<not> is_admin b")
    case True
    then show ?thesis using f io_complete_keeps [OF i, of ?b env "- 6"] by (simp add: submit_request_def same)
  next
    case False
    then have "has_path ?c ?b" if "\<not> is_admin ?b" using a that by (auto simp: has_path_def)
    from submit_on_path_keeps [OF i b(1) this, of env] False f submit_on_path_retry [of ?b env ?c]
    show ?thesis by (auto simp: submit_request_def same)
  qed
qed

lemma retry_io_keeps:
  assumes "bdev_inv L ch" and "count_ok L b" and "\<not> is_admin b" and "has_path ch b"
  shows "\<exists>ch'. retry_io env b ch = Inr ch' \<and> keeps L ch {#bi_id b#} ch' \<and> bc_retry ch' = bc_retry ch"
proof -
  obtain p where p: "deref_path ch (bi_path b) = Inr p" "p \<in> set (bc_paths ch)" "bi_path b = Some (ip_addr p)"
    using has_path_deref [OF assms(1,4)] .
  then show ?thesis
    using submit_request_keeps [OF assms(1,2), of env] submit_on_path_keeps [OF assms(1,2), of env]
      submit_on_path_retry [of b env ch] assms(3,4)
    by (simp add: retry_io_def)
qed

text \<open>The retries that are due leave the list; nothing else is added to it.\<close>

lemma retry_loop_keeps:
  assumes "bdev_inv L ch" and "bc_retry ch = bs"
  shows "\<exists>ch'. retry_loop env bs ch = Inr ch' \<and> bdev_inv L ch' \<and> pending ch' = pending ch \<and>
    bc_retry ch' = dropWhile (\<lambda>b. bi_retry_ticks b \<le> be_now env) bs"
  using assms
proof (induction bs arbitrary: ch)
  case Nil
  then show ?case by simp
next
  case (Cons b bs)
  show ?case
  proof (cases "bi_retry_ticks b > be_now env")
    case True
    then show ?thesis using Cons.prems by (intro exI [of _ ch]) simp
  next
    case False
    let ?c = "ch\<lparr>bc_retry := remove1 b (bc_retry ch)\<rparr>"
    have i: "bdev_inv L ?c" by (rule bdev_inv_remove(1) [OF Cons.prems(1)])
    have b: "count_ok L b" "\<not> is_admin b" "has_path ?c b" using Cons.prems by (auto simp: bdev_inv_def)
    obtain d where d: "retry_io env b ?c = Inr d" "keeps L ?c {#bi_id b#} d" "bc_retry d = bc_retry ?c"
      using retry_io_keeps [OF i b, of env] by auto
    have "List.find ((=) b) (bc_retry ch) = Some b" using Cons.prems(2) by simp
    from pending_remove(1) [OF this] d(2) have q: "pending d = pending ch" "bdev_inv L d" by (simp_all add: keeps_def)
    have "bc_retry d = bs" using d(3) Cons.prems(2) by simp
    from Cons.IH [OF q(2) this] False d(1) q(1) show ?thesis by (auto simp: linorder_not_less)
  qed
qed

lemma retry_ios_keeps:
  assumes "bdev_inv L ch"
  shows "\<exists>ch'. retry_ios env ch = Inr ch' \<and> bdev_inv L ch' \<and> pending ch' = pending ch \<and>
    bc_retry ch' = dropWhile (\<lambda>b. bi_retry_ticks b \<le> be_now env) (bc_retry ch)"
proof -
  obtain c where c: "retry_loop env (bc_retry ch) ch = Inr c" "bdev_inv L c" "pending c = pending ch"
    "bc_retry c = dropWhile (\<lambda>b. bi_retry_ticks b \<le> be_now env) (bc_retry ch)"
    using retry_loop_keeps [OF assms refl, of env] by blast
  then show ?thesis by (simp add: retry_ios_def bdev_inv_def pending_def)
qed

lemma insert_from_end_sorted:
  "sorted_wrt (\<lambda>x y. bi_retry_ticks y \<le> bi_retry_ticks x) xs \<Longrightarrow>
   sorted_wrt (\<lambda>x y. bi_retry_ticks y \<le> bi_retry_ticks x) (insert_from_end b xs)"
proof (induction xs)
  case (Cons x xs)
  have "set (insert_from_end b xs) = insert b (set xs)" for xs by (induction xs) auto
  with Cons show ?case by (auto intro: order_trans)
qed simp

lemma mset_insert_from_end [simp]: "mset (insert_from_end b xs) = add_mset b (mset xs)"
  by (induction xs) auto

lemma set_insert_from_end [simp]: "set (insert_from_end b xs) = insert b (set xs)"
  by (induction xs) auto

lemma queue_retry_keeps:
  assumes "bdev_inv L ch" and "count_ok L b" and "\<not> is_admin b" and "has_path ch b"
  shows "keeps L ch {#bi_id b#} (queue_retry_io env b delay ch)"
proof -
  let ?b = "b\<lparr>bi_retry_ticks := be_now env + delay * be_hz env div 1000\<rparr>"
  let ?l = "rev (insert_from_end ?b (rev (bc_retry ch)))"
  have "sorted (map bi_retry_ticks ?l)"
    using assms(1) insert_from_end_sorted [of "rev (bc_retry ch)" ?b]
    by (simp add: bdev_inv_def sorted_wrt_rev sorted_map)
  moreover have "set ?l = insert ?b (set (bc_retry ch))" by simp
  moreover have "count_ok L ?b" "\<not> is_admin ?b" "has_path ch ?b"
    using assms(2-4) by (simp_all add: count_ok_def has_path_def)
  moreover have "mset (map bi_id ?l) = mset (map bi_id (bc_retry ch)) + {#bi_id b#}" by simp
  ultimately show ?thesis
    using assms(1) by (auto simp: keeps_def bdev_inv_def queue_retry_io_def pending_def Let_def)
qed

lemma paths_replaced:
  assumes "bdev_inv L ch" and "set (path_addrs ch) \<subseteq> ip_addr ` set ps" and "distinct (map ip_addr ps)"
    and "\<forall>p \<in> set ps. length (bt_crdt (ip_ctrlr p)) = 3"
  shows "bdev_inv L (ch\<lparr>bc_paths := ps\<rparr>)" and "pending (ch\<lparr>bc_paths := ps\<rparr>) = pending ch"
proof -
  have "ps \<noteq> []" using assms(1,2) by (auto simp: bdev_inv_def paths_ok_def)
  moreover have "has_path (ch\<lparr>bc_paths := ps\<rparr>) b" if "has_path ch b" for b
    using assms(2) that by (auto simp: has_path_def)
  moreover have "a \<in> ip_addr ` set ps" if "bc_current ch = Some a" for a
    using assms(1,2) that by (simp add: bdev_inv_def paths_ok_def subset_iff)
  ultimately have "paths_ok (ch\<lparr>bc_paths := ps\<rparr>)" "\<And>b. has_path ch b \<Longrightarrow> has_path (ch\<lparr>bc_paths := ps\<rparr>) b"
    using assms(3) by (simp_all add: paths_ok_def)
  then show "bdev_inv L (ch\<lparr>bc_paths := ps\<rparr>)"
    using assms(1,4) by (auto simp: bdev_inv_def)
qed (simp add: pending_def)

lemma set_ana_updating_same:
  "bdev_inv L ch \<Longrightarrow> bdev_inv L (set_ana_updating a ch)" "pending (set_ana_updating a ch) = pending ch"
  "path_addrs (set_ana_updating a ch) = path_addrs ch"
proof -
  let ?ps = "update_by ip_addr a (\<lambda>p. p\<lparr>ip_ana_updating := True\<rparr>) (bc_paths ch)"
  have m: "map ip_addr ?ps = path_addrs ch" by (rule update_by_map_same) simp
  then show "path_addrs (set_ana_updating a ch) = path_addrs ch" by (simp add: set_ana_updating_def)
  have len: "\<forall>p \<in> set ?ps. length (bt_crdt (ip_ctrlr p)) = 3" if "\<forall>p \<in> set (bc_paths ch). length (bt_crdt (ip_ctrlr p)) = 3"
    using that by (auto simp: update_by_def)
  show "bdev_inv L (set_ana_updating a ch)" if i: "bdev_inv L ch"
    using paths_replaced(1) [OF i, of ?ps] m len i
    by (simp add: set_ana_updating_def bdev_inv_def paths_ok_def flip: set_map)
qed (simp add: pending_def set_ana_updating_def)

lemma io_complete_nvme_status_keeps:
  assumes i: "bdev_inv L ch" and b: "count_ok L b" "\<not> is_admin b" "has_path ch b"
    and e: "be_retry_limit env = L"
  shows "(\<exists>ch'. io_complete_nvme_status env b cpl ch = Inr ch' \<and> keeps L ch {#bi_id b#} ch') \<or>
    io_complete_nvme_status env b cpl ch = Inl OutOfBounds \<and> 3 \<le> unat (st_crd (cp_status cpl))"
proof -
  obtain p where p: "deref_path ch (bi_path b) = Inr p" "p \<in> set (bc_paths ch)" "bi_path b = Some (ip_addr p)"
    using has_path_deref [OF i b(3)] .
  have len: "length (bt_crdt (ip_ctrlr p)) = 3" using i p(2) by (auto simp: bdev_inv_def)
  have delay: "(\<exists>delay. retry_delay_ms cpl p = Inr delay) \<or>
      retry_delay_ms cpl p = Inl OutOfBounds \<and> 3 \<le> unat (st_crd (cp_status cpl))"
    using len by (simp add: retry_delay_ms_def Let_def)
  let ?c = "clear_current_io_path ch"
  have c: "bdev_inv L ?c" by (rule clear_current_inv [OF i])
  have ended: "keeps L ch {#bi_id b#} (io_done b' st d)" if "bdev_inv L d" "pending d = pending ch" "path_addrs d = path_addrs ch"
      "bi_id b' = bi_id b" for b' st d
    using that by (simp add: keeps_def)
  have retry: "keeps L ch {#bi_id b#} (queue_retry_io env (b\<lparr>bi_retry_count := bi_retry_count b + 1\<rparr>) delay ch)"
    if "\<not> (L \<noteq> - 1 \<and> bi_retry_count b \<ge> L)" for delay
  proof -
    have "count_ok L (b\<lparr>bi_retry_count := bi_retry_count b + 1\<rparr>)" using b(1) that by (auto simp: count_ok_def)
    from queue_retry_keeps [OF i this] b show ?thesis by (simp add: has_path_def)
  qed
  show ?thesis
    using p(1) delay retry e ended [OF i] ended [OF c] ended [OF set_ana_updating_same(1) [OF c]]
    by (auto simp: io_complete_nvme_status_def any_io_path_may_become_available_def set_ana_updating_same Let_def)
qed

section \<open>Steps\<close>

text \<open>The option does not change and no path is removed; the data of a controller has three delays.\<close>

definition bd_ok :: "int \<Rightarrow> bdev_env \<times> bdev_event \<Rightarrow> bool" where
  "bd_ok L ee \<longleftrightarrow>
     be_retry_limit (fst ee) = L \<and>
     (case snd ee of
        BdDeletePath _ \<Rightarrow> False
      | BdPathChanges p \<Rightarrow> length (bt_crdt (ip_ctrlr p)) = 3
      | BdAddPath p \<Rightarrow> length (bt_crdt (ip_ctrlr p)) = 3
      | _ \<Rightarrow> True)"

definition bd_weight :: "bdev_env \<times> bdev_event \<Rightarrow> nat multiset" where
  "bd_weight ee = (case snd ee of BdSubmit i t \<Rightarrow> {#i#} | _ \<Rightarrow> {#})"

lemma abort_retry_ios_result:
  "abort_retry_ios ch = ch\<lparr>bc_retry := [], bc_poller := False,
     bc_done := bc_done ch @ map (\<lambda>b. (bi_id b, BsAborted)) (bc_retry ch)\<rparr>"
proof -
  have "foldl (\<lambda>c b. io_done b BsAborted c) d bs = d\<lparr>bc_done := bc_done d @ map (\<lambda>b. (bi_id b, BsAborted)) bs\<rparr>" for d bs
    by (induction bs arbitrary: d) (simp_all add: io_done_def)
  then show ?thesis by (simp add: abort_retry_ios_def)
qed

lemma path_at_None: "path_at ch a = None \<longleftrightarrow> a \<notin> set (path_addrs ch)"
  by (auto simp: path_at_def find_None_iff')

lemma map_addr_replaced: "map ip_addr (update_by ip_addr (ip_addr p) (\<lambda>_. p) ps) = map ip_addr ps"
  by (induction ps) simp_all

lemma bdev_step_total:
  assumes i: "bdev_inv L ch" and ok: "bd_ok L ee" and nc: "\<And>j cpl. snd ee \<noteq> BdComplete j cpl"
  shows "\<exists>ch'. bdev_step ch ee = Inr ch' \<and> bdev_inv L ch' \<and> pending ch' = pending ch + bd_weight ee"
proof -
  obtain env e where ee: "ee = (env, e)" by (cases ee)
  have L: "be_retry_limit env = L" using ok ee by (simp add: bd_ok_def)
  have d: "distinct (path_addrs ch)" using i by (simp add: bdev_inv_def paths_ok_def)
  show ?thesis
  proof (cases e)
    case (BdSubmit j t)
    have "count_ok L (new_bdev_io j t)" by (simp add: count_ok_def new_bdev_io_def)
    from submit_request_keeps [OF i this, of env] show ?thesis
      by (auto simp: ee BdSubmit bdev_step_def keeps_def bd_weight_def new_bdev_io_def)
  next
    case (BdComplete j cpl)
    have "snd ee = BdComplete j cpl" by (simp add: ee BdComplete)
    with nc show ?thesis by blast
  next
    case (BdAdminDone j st)
    show ?thesis
    proof (cases "List.find (\<lambda>b. bi_id b = j \<and> is_admin b) (bc_outstanding ch)")
      case (Some b)
      from pending_remove(3) [OF Some] bdev_inv_remove(3) [OF i] Some show ?thesis
        by (simp add: ee BdAdminDone bdev_step_def bd_weight_def)
    qed (use i in \<open>simp add: ee BdAdminDone bdev_step_def bd_weight_def\<close>)
  next
    case (BdBuffer j success)
    show ?thesis
    proof (cases "List.find (\<lambda>b. bi_id b = j) (bc_buf_wait ch)")
      case (Some b)
      let ?c = "ch\<lparr>bc_buf_wait := remove1 b (bc_buf_wait ch)\<rparr>"
      have b: "count_ok L b" "\<not> is_admin b" "has_path ?c b"
        using find_SomeD [OF Some] i by (auto simp: bdev_inv_def)
      have i': "bdev_inv L ?c" by (rule bdev_inv_remove(2) [OF i])
      obtain p where p: "deref_path ?c (bi_path b) = Inr p" "p \<in> set (bc_paths ?c)" "bi_path b = Some (ip_addr p)"
        using has_path_deref [OF i' b(3)] .
      have t: "keeps L ?c {#bi_id b#} (take_out (b\<lparr>bi_type := BioData\<rparr>) ?c)"
        using take_out_keeps [OF i', of "b\<lparr>bi_type := BioData\<rparr>"] b by (simp add: count_ok_def has_path_def)
      have "\<exists>ch'. get_buf_done env b success ?c = Inr ch' \<and> keeps L ?c {#bi_id b#} ch'"
        using p(1) t io_complete_keeps [OF i'] by (simp add: get_buf_done_def)
      with pending_remove(2) [OF Some] Some show ?thesis
        by (auto simp: ee BdBuffer bdev_step_def keeps_def bd_weight_def)
    qed (use i in \<open>simp add: ee BdBuffer bdev_step_def bd_weight_def\<close>)
  next
    case BdRetryPoll
    then show ?thesis using retry_ios_keeps [OF i, of env] i by (auto simp: ee bdev_step_def bd_weight_def)
  next
    case (BdPathChanges p)
    let ?ps = "update_by ip_addr (ip_addr p) (\<lambda>_. p) (bc_paths ch)"
    have m: "map ip_addr ?ps = path_addrs ch" by (rule map_addr_replaced)
    have "set (path_addrs ch) \<subseteq> ip_addr ` set ?ps" by (simp flip: set_map add: m)
    moreover have "distinct (map ip_addr ?ps)" using m d by simp
    moreover have "\<forall>q \<in> set ?ps. length (bt_crdt (ip_ctrlr q)) = 3"
      using i ok by (auto simp: update_by_def bdev_inv_def bd_ok_def ee BdPathChanges)
    ultimately have "bdev_inv L (ch\<lparr>bc_paths := ?ps\<rparr>)" "pending (ch\<lparr>bc_paths := ?ps\<rparr>) = pending ch"
      by (rule paths_replaced [OF i])+
    then show ?thesis by (simp add: ee BdPathChanges bdev_step_def bd_weight_def)
  next
    case (BdAddPath p)
    show ?thesis
    proof (cases "path_at ch (ip_addr p) = None")
      case True
      have "bdev_inv L (ch\<lparr>bc_paths := bc_paths ch @ [p]\<rparr>)" "pending (ch\<lparr>bc_paths := bc_paths ch @ [p]\<rparr>) = pending ch"
        using paths_replaced [OF i, of "bc_paths ch @ [p]"] True d ok i
        by (auto simp: path_at_None bd_ok_def ee BdAddPath bdev_inv_def)
      then show ?thesis using True by (simp add: ee BdAddPath bdev_step_def bd_weight_def add_io_path_def clear_current_inv)
    next
      case False
      then show ?thesis using i by (auto simp: ee BdAddPath bdev_step_def bd_weight_def)
    qed
  next
    case (BdDeletePath a)
    then show ?thesis using ok by (simp add: ee bd_ok_def)
  next
    case BdClearCache
    then show ?thesis using clear_current_inv [OF i] by (simp add: ee bdev_step_def bd_weight_def)
  next
    case (BdSetPolicy policy selector rr)
    have "bdev_inv L (ch\<lparr>bc_policy := policy, bc_selector := selector, bc_rr_min_io := k\<rparr>)"
      "pending (ch\<lparr>bc_policy := policy, bc_selector := selector, bc_rr_min_io := k\<rparr>) = pending ch" for k
      using i by (auto simp: bdev_inv_def paths_ok_def has_path_def pending_def)
    then show ?thesis using i
      by (auto simp: ee BdSetPolicy bdev_step_def bd_weight_def set_multipath_policy_def clear_current_inv split: option.split)
  next
    case (BdPrefer a)
    show ?thesis
    proof (cases "path_at ch a")
      case (Some p)
      then have p: "p \<in> set (bc_paths ch)" by (auto simp: path_at_def dest: find_SomeD)
      then have s: "set (p # remove1 p (bc_paths ch)) = set (bc_paths ch)" using d by (auto simp: distinct_map)
      have "mset (p # remove1 p (bc_paths ch)) = mset (bc_paths ch)" using p by simp
      then have "image_mset ip_addr (mset (p # remove1 p (bc_paths ch))) = image_mset ip_addr (mset (bc_paths ch))"
        by (simp only:)
      then have "mset (map ip_addr (p # remove1 p (bc_paths ch))) = mset (path_addrs ch)" by (simp only: mset_map)
      then have "distinct (map ip_addr (p # remove1 p (bc_paths ch)))" using d mset_eq_imp_distinct_iff by blast
      moreover have "set (path_addrs ch) \<subseteq> ip_addr ` set (p # remove1 p (bc_paths ch))" unfolding s by simp
      moreover have "\<forall>q \<in> set (p # remove1 p (bc_paths ch)). length (bt_crdt (ip_ctrlr q)) = 3"
        unfolding s using i by (simp add: bdev_inv_def)
      ultimately have "bdev_inv L (ch\<lparr>bc_paths := p # remove1 p (bc_paths ch)\<rparr>)"
        "pending (ch\<lparr>bc_paths := p # remove1 p (bc_paths ch)\<rparr>) = pending ch"
        using paths_replaced [OF i, of "p # remove1 p (bc_paths ch)"] by blast+
      then show ?thesis using Some
        by (simp add: ee BdPrefer bdev_step_def bd_weight_def set_preferred_path_def clear_current_inv)
    qed (use i in \<open>simp add: ee BdPrefer bdev_step_def bd_weight_def set_preferred_path_def\<close>)
  next
    case BdDestroy
    have "bdev_inv L (abort_retry_ios ch)" using i by (simp add: abort_retry_ios_result bdev_inv_def)
    moreover have "pending (abort_retry_ios ch) = pending ch"
      by (simp add: abort_retry_ios_result pending_def comp_def ac_simps)
    ultimately show ?thesis by (simp add: ee BdDestroy bdev_step_def bd_weight_def)
  qed
qed

text \<open>A status that names the third delay is the only reason for a fault.\<close>

definition crd_hazard :: "bdev_env \<times> bdev_event \<Rightarrow> fault \<Rightarrow> bool" where
  "crd_hazard ee f \<longleftrightarrow> f = OutOfBounds \<and> (case snd ee of BdComplete _ cpl \<Rightarrow> 3 \<le> unat (st_crd (cp_status cpl)) | _ \<Rightarrow> False)"

lemma bdev_step_checked:
  assumes i: "bdev_inv L ch" and ok: "bd_ok L ee"
  shows "(\<exists>ch'. bdev_step ch ee = Inr ch' \<and> bdev_inv L ch' \<and> pending ch' = pending ch + bd_weight ee) \<or>
    (\<exists>f. bdev_step ch ee = Inl f \<and> crd_hazard ee f)"
proof (cases "\<exists>j cpl. snd ee = BdComplete j cpl")
  case True
  then obtain env j cpl where ee: "ee = (env, BdComplete j cpl)" by (cases ee) auto
  have L: "be_retry_limit env = L" using ok ee by (simp add: bd_ok_def)
  show ?thesis
  proof (cases "List.find (\<lambda>b. bi_id b = j \<and> \<not> is_admin b) (bc_outstanding ch)")
    case None
    then show ?thesis using i by (simp add: ee bdev_step_def bd_weight_def)
  next
    case (Some b)
    let ?c = "ch\<lparr>bc_outstanding := remove1 b (bc_outstanding ch)\<rparr>"
    have b: "count_ok L b" "\<not> is_admin b" "has_path ?c b"
      using find_SomeD [OF Some] i by (auto simp: bdev_inv_def)
    from io_complete_nvme_status_keeps [OF bdev_inv_remove(3) [OF i] b L, of cpl] pending_remove(3) [OF Some]
    show ?thesis using Some by (auto simp: ee bdev_step_def keeps_def bd_weight_def crd_hazard_def)
  qed
next
  case False
  then show ?thesis using bdev_step_total [OF i ok] by blast
qed

interpretation bdev: checked_stepper bdev_step "bd_ok L" "bdev_inv L" pending bd_weight crd_hazard
  by unfold_locales (rule bdev_step_checked)

section \<open>What follows\<close>

lemma new_bdev_channel_inv:
  assumes "ps \<noteq> []" and "distinct (map ip_addr ps)" and "\<forall>p \<in> set ps. length (bt_crdt (ip_ctrlr p)) = 3"
  shows "bdev_inv L (new_bdev_channel policy selector rr ps) \<and> pending (new_bdev_channel policy selector rr ps) = {#}"
proof -
  have add: "foldl (\<lambda>c p. add_io_path p c) c ps = c\<lparr>bc_paths := bc_paths c @ ps\<rparr>"
    if "bc_current c = None" "bc_rr_counter c = 0" for c :: nvme_bdev_channel and ps
    using that
  proof (induction ps arbitrary: c)
    case (Cons p ps)
    have "add_io_path p c = c\<lparr>bc_paths := bc_paths c @ [p]\<rparr>"
      using Cons.prems by (cases c) (simp add: add_io_path_def clear_current_io_path_def)
    then show ?case using Cons by simp
  qed simp
  show ?thesis using assms by (simp add: new_bdev_channel_def add bdev_inv_def paths_ok_def pending_def)
qed

text \<open>C10. From a new channel on, as long as no path is removed and the option of the number of retries does not
  change: every I/O that was submitted is completed once or held in one place, at the library, waiting for a
  buffer or for its retry; the retries are in the order of time, watched by a poller, and each I/O
  has been retried at most as often as the option says. No event runs forever, and the only fault is a read
  beyond the three retry delays of the controller data, which a failed completion can cause whose status names
  the third of them.\<close>

theorem bdev_io_conservation:
  assumes "ps \<noteq> []" and "distinct (map ip_addr ps)" and "\<forall>p \<in> set ps. length (bt_crdt (ip_ctrlr p)) = 3"
    and "list_all (bd_ok L) es"
  shows "case runR bdev_step (new_bdev_channel policy selector rr ps) es of
     Inl f \<Rightarrow> f = OutOfBounds \<and> (\<exists>env i cpl. (env, BdComplete i cpl) \<in> set es \<and> 3 \<le> unat (st_crd (cp_status cpl)))
   | Inr ch \<Rightarrow>
    mset (map bi_id (bc_retry ch)) + mset (map bi_id (bc_buf_wait ch)) + mset (map bi_id (bc_outstanding ch)) +
      mset (map fst (bc_done ch)) = sum_list (map bd_weight es) \<and>
    sorted (map bi_retry_ticks (bc_retry ch)) \<and> (bc_retry ch \<noteq> [] \<longrightarrow> bc_poller ch) \<and>
    (\<forall>b \<in> set (bc_retry ch) \<union> set (bc_buf_wait ch) \<union> set (bc_outstanding ch).
       0 \<le> bi_retry_count b \<and> (0 \<le> L \<longrightarrow> bi_retry_count b \<le> L))"
proof -
  let ?run = "runR bdev_step (new_bdev_channel policy selector rr ps) es"
  consider (ok) ch where "?run = Inr ch" "bdev_inv L ch" "pending ch = sum_list (map bd_weight es)"
    | (bad) f ee where "?run = Inl f" "ee \<in> set es" "crd_hazard ee f"
    using bdev.run_checked [OF conjunct1 [OF new_bdev_channel_inv [OF assms(1-3)]] assms(4), of policy selector rr]
      new_bdev_channel_inv [OF assms(1-3)] by force
  then show ?thesis
  proof cases
    case ok
    then show ?thesis by (auto simp: bdev_inv_def pending_def count_ok_def)
  next
    case bad
    then show ?thesis by (cases ee) (auto simp: crd_hazard_def split: bdev_event.splits)
  qed
qed

text \<open>The status names the delays from 1 on, the code takes the name as index: the second delay is used for the
  first, the third for the second, and for the third what lies behind the array.\<close>

lemma retry_delay_shifted:
  assumes "bt_crdt (ip_ctrlr p) = [d1, d2, d3]"
  shows "st_crd (cp_status cpl) = 1 \<Longrightarrow> retry_delay_ms cpl p = Inr (ucast d2 * 100)"
    and "st_crd (cp_status cpl) = 2 \<Longrightarrow> retry_delay_ms cpl p = Inr (ucast d3 * 100)"
    and "st_crd (cp_status cpl) = 3 \<Longrightarrow> retry_delay_ms cpl p = Inl OutOfBounds"
  using assms by (simp_all add: retry_delay_ms_def)

text \<open>When the poller fires, exactly the I/Os that are due leave the list of retries, none is lost, and
  the poller stays for those that are left.\<close>

theorem retry_poll_takes_due:
  assumes "ps \<noteq> []" and "distinct (map ip_addr ps)" and "\<forall>p \<in> set ps. length (bt_crdt (ip_ctrlr p)) = 3"
    and "list_all (bd_ok L) es" and "runR bdev_step (new_bdev_channel policy selector rr ps) es = Inr ch"
  shows "\<exists>ch'. retry_ios env ch = Inr ch' \<and> pending ch' = pending ch \<and>
    bc_retry ch' = filter (\<lambda>b. bi_retry_ticks b > be_now env) (bc_retry ch) \<and>
    (bc_poller ch' \<longleftrightarrow> bc_retry ch' \<noteq> [])"
proof -
  have inv: "bdev_inv L ch"
    using bdev.run_checked [OF conjunct1 [OF new_bdev_channel_inv [OF assms(1-3)]] assms(4), of policy selector rr] assms(5)
    by auto
  have drop: "dropWhile (\<lambda>b. bi_retry_ticks b \<le> t) bs = filter (\<lambda>b. bi_retry_ticks b > t) bs"
    if "sorted (map bi_retry_ticks bs)" for t bs
    using that by (induction bs) (auto simp: filter_id_conv linorder_not_le intro!: filter_True [symmetric] dest: less_le_trans)
  obtain c where c: "retry_ios env ch = Inr c" "pending c = pending ch"
    "bc_retry c = dropWhile (\<lambda>b. bi_retry_ticks b \<le> be_now env) (bc_retry ch)"
    using retry_ios_keeps [OF inv] by blast
  moreover have "bc_poller c \<longleftrightarrow> bc_retry c \<noteq> []" using c(1) by (auto simp: retry_ios_def bindR_eq_Inr)
  moreover have "sorted (map bi_retry_ticks (bc_retry ch))" using inv by (simp add: bdev_inv_def)
  ultimately show ?thesis using drop by simp
qed

text \<open>A failure of the path is never retried, on this path or on another one: the I/O is completed at
  once with the status of the path, and the cached path is forgotten.\<close>

theorem path_error_never_retried:
  assumes "deref_path ch (bi_path b) = Inr p" and "\<not> cp_success cpl"
    and "cp_path_error cpl \<or> cp_aborted_sq cpl \<or> \<not> path_is_available p \<or> \<not> bctrlr_is_available (ip_ctrlr p)"
  shows "\<exists>ch'. io_complete_nvme_status env b cpl ch = Inr ch' \<and>
    bc_retry ch' = bc_retry ch \<and> bc_done ch' = bc_done ch @ [(bi_id b, BsNvme (cp_status cpl))] \<and>
    (st_dnr (cp_status cpl) \<or> cp_by_request cpl \<or> be_retry_limit env \<noteq> - 1 \<and> bi_retry_count b \<ge> be_retry_limit env
     \<or> bc_current ch' = None)"
  using assms
  by (auto simp: io_complete_nvme_status_def any_io_path_may_become_available_def Let_def io_done_def
      clear_current_io_path_def set_ana_updating_def)

text \<open>Removing a path frees it, but the I/Os that were submitted on it keep their pointer to it: the next
  of them to be completed, successfully or not, uses the freed path.\<close>

theorem deleted_path_used_after_free:
  assumes "List.find (\<lambda>b. bi_id b = i \<and> \<not> io_type_is_admin (bi_type b)) (bc_outstanding ch) = Some b"
    and "bi_path b = Some a" and "cp_success cpl"
  shows "runR bdev_step ch [(env, BdDeletePath a), (env, BdComplete i cpl)] = Inl UseAfterFree"
proof -
  have "List.find (\<lambda>p. ip_addr p = a) (remove_by ip_addr a (bc_paths ch)) = None" by (simp add: find_None_iff')
  then show ?thesis
    using assms by (simp add: bdev_step_def delete_io_path_def clear_current_io_path_def io_complete_nvme_status_def
        deref_path_def path_at_def Let_def)
qed

section \<open>Examples\<close>

definition demo_bdev_env :: "u64 \<Rightarrow> bdev_env" where
  "demo_bdev_env now =
     \<lparr>be_now = now, be_hz = 1000, be_submit_tsc = now, be_retry_limit = 3, be_submit = \<lambda>_. 0, be_admin = \<lambda>_. 0,
      be_abort = \<lambda>_. - 2, be_abort_admin = \<lambda>_. - 2\<rparr>"

definition demo_cpl :: "bool \<Rightarrow> bool \<Rightarrow> u8 \<Rightarrow> nvme_cpl" where
  "demo_cpl success path_error crd =
     \<lparr>cp_status = \<lparr>st_sct = if path_error then 3 else 0, st_sc = if success then 0 else 6, st_dnr = False, st_crd = crd\<rparr>,
      cp_success = success, cp_path_error = path_error, cp_aborted_sq = False, cp_by_request = False, cp_ana_error = False\<rparr>"

definition demo_paths :: "nvme_io_path list" where
  "demo_paths = [demo_path 1 ANA_OPTIMIZED 0, demo_path 2 ANA_OPTIMIZED 0]"

definition demo_bdev_run :: "(bdev_env \<times> bdev_event) list" where
  "demo_bdev_run =
     [(demo_bdev_env 5, BdSubmit 10 BioData), (demo_bdev_env 6, BdSubmit 11 BioData),
      (demo_bdev_env 7, BdComplete 10 (demo_cpl False False 1)), (demo_bdev_env 8, BdComplete 11 (demo_cpl True False 0))]"

definition demo_bdev_ch :: nvme_bdev_channel where
  "demo_bdev_ch = (case runR bdev_step (new_bdev_channel MpActivePassive SelRoundRobin 1 demo_paths) demo_bdev_run of
     Inr ch \<Rightarrow> ch | Inl _ \<Rightarrow> new_bdev_channel MpActivePassive SelRoundRobin 1 demo_paths)"

lemma demo_paths_ok:
  "demo_paths \<noteq> []" "distinct (map ip_addr demo_paths)" "\<forall>p \<in> set demo_paths. length (bt_crdt (ip_ctrlr p)) = 3"
  by (simp_all add: demo_paths_def demo_path_def demo_bctrlr_def)

lemma demo_bdev_run_ok: "list_all (bd_ok 3) demo_bdev_run"
  by (simp add: demo_bdev_run_def bd_ok_def demo_bdev_env_def demo_cpl_def)

lemma demo_bdev_run_ends: "\<not> isl (runR bdev_step (new_bdev_channel MpActivePassive SelRoundRobin 1 demo_paths) demo_bdev_run)"
  by code_simp

lemma demo_bdev_ch_run:
  "runR bdev_step (new_bdev_channel MpActivePassive SelRoundRobin 1 demo_paths) demo_bdev_run = Inr demo_bdev_ch"
  using demo_bdev_run_ends by (auto simp: demo_bdev_ch_def split: sum.splits)

lemma demo_bdev_ch_held: "map bi_id (bc_retry demo_bdev_ch) = [10]" "map bi_retry_ticks (bc_retry demo_bdev_ch) = [1007]"
  by code_simp+

lemma bdev_io_conservation_witness:
  "mset (map bi_id (bc_retry demo_bdev_ch)) + mset (map bi_id (bc_buf_wait demo_bdev_ch)) +
     mset (map bi_id (bc_outstanding demo_bdev_ch)) + mset (map fst (bc_done demo_bdev_ch)) = {#10, 11#}"
proof -
  have "sum_list (map bd_weight demo_bdev_run) = {#10, 11#}" by (simp add: demo_bdev_run_def bd_weight_def)
  with bdev_io_conservation [OF demo_paths_ok demo_bdev_run_ok, of MpActivePassive SelRoundRobin 1]
  show ?thesis by (simp add: demo_bdev_ch_run)
qed

lemma retry_poll_takes_due_witness:
  "\<exists>ch'. retry_ios (demo_bdev_env 1007) demo_bdev_ch = Inr ch' \<and> bc_retry ch' = [] \<and> \<not> bc_poller ch'"
proof -
  have "filter (\<lambda>b. bi_retry_ticks b > be_now (demo_bdev_env 1007)) (bc_retry demo_bdev_ch) = []"
    using demo_bdev_ch_held(2) by (auto simp: filter_empty_conv demo_bdev_env_def)
  with retry_poll_takes_due [OF demo_paths_ok demo_bdev_run_ok demo_bdev_ch_run, of "demo_bdev_env 1007"]
  show ?thesis by auto
qed

definition demo_io :: nvme_bdev_io where
  "demo_io = (new_bdev_io 12 BioData)\<lparr>bi_path := Some 1\<rparr>"

lemma path_error_never_retried_witness:
  "path_is_available (demo_path 2 ANA_OPTIMIZED 0) \<and>
   (\<exists>ch'. io_complete_nvme_status (demo_bdev_env 9) demo_io (demo_cpl False True 0) demo_bdev_ch = Inr ch' \<and>
     bc_retry ch' = bc_retry demo_bdev_ch)"
proof -
  have p: "deref_path demo_bdev_ch (bi_path demo_io) = Inr (demo_path 1 ANA_OPTIMIZED 0)" by code_simp
  have c: "\<not> cp_success (demo_cpl False True 0)" "cp_path_error (demo_cpl False True 0)" by (simp_all add: demo_cpl_def)
  have "path_is_available (demo_path 2 ANA_OPTIMIZED 0)" by code_simp
  moreover have "\<exists>ch'. io_complete_nvme_status (demo_bdev_env 9) demo_io (demo_cpl False True 0) demo_bdev_ch = Inr ch' \<and>
     bc_retry ch' = bc_retry demo_bdev_ch"
    using path_error_never_retried [OF p c(1), of "demo_bdev_env 9"] c(2) by blast
  ultimately show ?thesis ..
qed

lemma deleted_path_used_after_free_witness:
  "runR bdev_step (take_out demo_io demo_bdev_ch)
     [(demo_bdev_env 9, BdDeletePath 1), (demo_bdev_env 9, BdComplete 12 (demo_cpl True False 0))] = Inl UseAfterFree"
proof -
  have f: "List.find (\<lambda>b. bi_id b = 12 \<and> \<not> io_type_is_admin (bi_type b)) (bc_outstanding (take_out demo_io demo_bdev_ch)) =
      Some demo_io" by code_simp
  show ?thesis
    by (rule deleted_path_used_after_free [OF f]) (simp_all add: demo_io_def demo_cpl_def)
qed

end
