(* ===== verification/Bdev_Reset.thy ===== *)
theory Bdev_Reset
  imports Prelude
begin

text \<open>
  Resetting a controller, \<^verbatim>\<open>nvme/bdev_nvme.c\<close>: the sequence of a reset over all channels, failing over
  to the next transport address, reconnecting after a delay, giving up, and taking the controller
  away when nothing refers to it any more.

  What is done on several threads one after the other (a message, an iteration over the channels,
  a callback of the NVMe library, a poller) is a piece of work that a later event carries on, so
  that other events can come in between. The channels are in the order of the iteration.
\<close>

section \<open>Data\<close>

record path_id =
  pi_trid :: addr
  pi_failed :: bool

record reset_channel =
  rh_qpair :: bool
  rh_reset_iter :: bool
  rh_pending :: "nat list" \<comment> \<open>the reset requests that wait for the one in progress\<close>

datatype after_destroy = ThenReset | ThenFail

text \<open>The message that starts a reset, and the iterations, with the channel they visit next. A
  \<open>WkDestroyWait\<close> waits for the disconnection of the queue pair of its channel.\<close>

datatype reset_work =
    WkReset
  | WkDestroy nat after_destroy
  | WkDestroyWait nat after_destroy
  | WkCreate nat
  | WkPending nat bool

datatype disconnected_cb = CbDestroyQpairs | CbReconnect | CbStartDelay

record reset_ctrlr =
  rz_resetting :: bool
  rz_delayed :: bool \<comment> \<open>\<open>reconnect_is_delayed\<close>\<close>
  rz_fast_io_fail_timedout :: bool
  rz_destruct :: bool
  rz_ana_updating :: bool
  rz_cache_clearing :: bool
  rz_ref :: nat
  rz_loss_timeout :: int
  rz_reconnect_delay :: u32
  rz_fast_io_fail :: u32
  rz_fabrics :: bool
  rz_start_tsc :: u64
  rz_trids :: "path_id list"
  rz_active :: addr
  rz_cb :: "nat option" \<comment> \<open>the request that started the reset\<close>
  rz_disc_cb :: "disconnected_cb option"
  rz_poller :: bool \<comment> \<open>\<open>reset_detach_poller\<close> waits for the reconnection\<close>
  rz_delay_timer :: bool
  rz_adminq_paused :: bool
  rz_work :: "reset_work list"
  rz_chans :: "reset_channel list"
  rz_done :: "(nat \<times> bool) list"
  rz_unregistered :: bool

text \<open>The clock and what the NVMe library answers.\<close>

record reset_env =
  rv_now :: u64
  rv_hz :: u64
  rv_disconnect :: int
  rv_reconnect :: int
  rv_create :: int
  rv_failed :: bool \<comment> \<open>\<open>spdk_nvme_ctrlr_is_failed\<close>\<close>

section \<open>References\<close>

definition can_be_unregistered :: "reset_ctrlr \<Rightarrow> bool" where
  "can_be_unregistered c \<longleftrightarrow>
     rz_destruct c \<and> rz_ref c = 0 \<and> \<not> rz_resetting c \<and> \<not> rz_ana_updating c \<and> \<not> rz_cache_clearing c"

text \<open>\<open>nvme_ctrlr_unregister\<close>: the controller is detached and freed, its timer and its admin poller go
  with it. Doing so twice uses it after it was freed.\<close>

definition unregister_ctrlr :: "reset_ctrlr \<Rightarrow> fault + reset_ctrlr" where
  "unregister_ctrlr c =
     (if rz_unregistered c then Inl UseAfterFree
      else Inr (c\<lparr>rz_unregistered := True, rz_delay_timer := False\<rparr>))"

definition release_ctrlr :: "reset_ctrlr \<Rightarrow> fault + reset_ctrlr" where
  "release_ctrlr c =
     (let c1 = c\<lparr>rz_ref := rz_ref c - 1\<rparr> in if can_be_unregistered c1 then unregister_ctrlr c1 else Inr c1)"

text \<open>\<open>_bdev_nvme_delete\<close>: the namespaces are depopulated, which releases their references later, and
  the reference of the creation is released.\<close>

definition delete_ctrlr :: "reset_ctrlr \<Rightarrow> fault + reset_ctrlr" where
  "delete_ctrlr c = (if rz_destruct c then Inr c else release_ctrlr (c\<lparr>rz_destruct := True\<rparr>))"

section \<open>Transport addresses\<close>

definition failover_trid :: "bool \<Rightarrow> reset_ctrlr \<Rightarrow> fault + reset_ctrlr" where
  "failover_trid remove c =
     (case rz_trids c of
        [] \<Rightarrow> Inl NullDeref
      | p # rest \<Rightarrow>
          let p' = p\<lparr>pi_failed := True\<rparr> in
          Inr (case rest of
                 [] \<Rightarrow> c\<lparr>rz_trids := [p']\<rparr>
               | q # _ \<Rightarrow> c\<lparr>rz_active := pi_trid q, rz_trids := if remove then rest else rest @ [p']\<rparr>))"

section \<open>Time limits\<close>

text \<open>The seconds since the first reset; the code puts them into a signed and into an unsigned integer
  of 32 bits.\<close>

definition elapsed_secs :: "reset_env \<Rightarrow> reset_ctrlr \<Rightarrow> u64" where
  "elapsed_secs env c = (rv_now env - rz_start_tsc c) div rv_hz env"

definition loss_timedout :: "reset_env \<Rightarrow> reset_ctrlr \<Rightarrow> bool" where
  "loss_timedout env c =
     (if rz_loss_timeout c = 0 \<or> rz_loss_timeout c = - 1 then False
      else sint (ucast (elapsed_secs env c) :: u32) \<ge> rz_loss_timeout c)"

definition fast_io_fail_timedout :: "reset_env \<Rightarrow> reset_ctrlr \<Rightarrow> bool" where
  "fast_io_fail_timedout env c =
     (if rz_fast_io_fail c = 0 then False else (ucast (elapsed_secs env c) :: u32) \<ge> rz_fast_io_fail c)"

section \<open>The sequence of a reset\<close>

definition add_work :: "reset_work \<Rightarrow> reset_ctrlr \<Rightarrow> reset_ctrlr" where
  "add_work w c = c\<lparr>rz_work := rz_work c @ [w]\<rparr>"

definition reset_complete :: "bool \<Rightarrow> reset_ctrlr \<Rightarrow> reset_ctrlr" where
  "reset_complete success c = add_work (WkPending 0 success) c"

definition disconnect_ctrlr :: "reset_env \<Rightarrow> disconnected_cb \<Rightarrow> reset_ctrlr \<Rightarrow> reset_ctrlr" where
  "disconnect_ctrlr env cb c =
     (if rv_disconnect env \<noteq> 0 then reset_complete False c
      else c\<lparr>rz_disc_cb := Some cb, rz_adminq_paused := False\<rparr>)"

definition reconnect_ctrlr :: "reset_ctrlr \<Rightarrow> reset_ctrlr" where
  "reconnect_ctrlr c = c\<lparr>rz_poller := True\<rparr>"

definition start_delay_timer :: "reset_ctrlr \<Rightarrow> reset_ctrlr" where
  "start_delay_timer c = c\<lparr>rz_adminq_paused := True, rz_delayed := True, rz_delay_timer := True\<rparr>"

definition reset_destroy_qpairs :: "reset_ctrlr \<Rightarrow> reset_ctrlr" where
  "reset_destroy_qpairs c = add_work (WkDestroy 0 ThenReset) c"

definition qpairs_destroyed :: "reset_env \<Rightarrow> reset_ctrlr \<Rightarrow> reset_ctrlr" where
  "qpairs_destroyed env c =
     (if \<not> rz_fabrics c then reconnect_ctrlr c else disconnect_ctrlr env CbReconnect c)"

definition do_reset :: "reset_env \<Rightarrow> reset_ctrlr \<Rightarrow> reset_ctrlr" where
  "do_reset env c = (if \<not> rz_fabrics c then disconnect_ctrlr env CbDestroyQpairs c else reset_destroy_qpairs c)"

datatype op_after_reset = OpNone | OpCompletePendingDestruct | OpDestruct | OpDelayedReconnect

definition check_op_after_reset :: "reset_env \<Rightarrow> bool \<Rightarrow> reset_ctrlr \<Rightarrow> fault + op_after_reset \<times> reset_ctrlr" where
  "check_op_after_reset env success c =
     (if can_be_unregistered c then Inr (OpCompletePendingDestruct, c)
      else if success \<or> rz_reconnect_delay c = 0 then Inr (OpNone, c\<lparr>rz_start_tsc := 0\<rparr>)
      else if loss_timedout env c then Inr (OpDestruct, c)
      else
        let c1 = (if fast_io_fail_timedout env c then c\<lparr>rz_fast_io_fail_timedout := True\<rparr> else c)
        in bindR (failover_trid False c1) (\<lambda>c2. Inr (OpDelayedReconnect, c2)))"

definition reset_done :: "nat option \<Rightarrow> bool \<Rightarrow> reset_ctrlr \<Rightarrow> reset_ctrlr" where
  "reset_done cb success c = (case cb of None \<Rightarrow> c | Some i \<Rightarrow> c\<lparr>rz_done := rz_done c @ [(i, success)]\<rparr>)"

text \<open>\<open>_bdev_nvme_reset_complete\<close>, after the waiting requests of all channels have been completed.\<close>

definition finish_reset :: "reset_env \<Rightarrow> bool \<Rightarrow> reset_ctrlr \<Rightarrow> fault + reset_ctrlr" where
  "finish_reset env success c =
     (let c1 = c\<lparr>rz_cb := None, rz_resetting := False\<rparr> in
      case rz_trids c1 of
        [] \<Rightarrow> Inl NullDeref
      | p # rest \<Rightarrow>
          bindR (check_op_after_reset env success (c1\<lparr>rz_trids := p\<lparr>pi_failed := \<not> success\<rparr> # rest\<rparr>)) (\<lambda>(op, c2).
            let c3 = reset_done (rz_cb c) success c2 in
            case op of
              OpCompletePendingDestruct \<Rightarrow> unregister_ctrlr c3
            | OpDestruct \<Rightarrow> delete_ctrlr c3
            | OpDelayedReconnect \<Rightarrow> Inr (disconnect_ctrlr env CbStartDelay c3)
            | OpNone \<Rightarrow> Inr c3))"

text \<open>One step of an iteration: the next channel, or the end. Creating a queue pair that fails ends the
  iteration at once.\<close>

definition work_step :: "reset_env \<Rightarrow> reset_work \<Rightarrow> reset_ctrlr \<Rightarrow> fault + reset_ctrlr" where
  "work_step env w c =
     (case w of
        WkReset \<Rightarrow> Inr (do_reset env c)
      | WkDestroy k a \<Rightarrow>
          if k \<ge> length (rz_chans c) then
            Inr (case a of ThenReset \<Rightarrow> qpairs_destroyed env c | ThenFail \<Rightarrow> reset_complete False c)
          else if rh_qpair (rz_chans c ! k) then
            Inr (add_work (WkDestroyWait k a)
              (c\<lparr>rz_chans := (rz_chans c)[k := (rz_chans c ! k)\<lparr>rh_reset_iter := True\<rparr>]\<rparr>))
          else Inr (add_work (WkDestroy (Suc k) a) c)
      | WkDestroyWait k a \<Rightarrow> Inr (add_work w c)
      | WkCreate k \<Rightarrow>
          if k \<ge> length (rz_chans c) then Inr (reset_complete True c)
          else if rv_create env \<noteq> 0 then Inr (add_work (WkDestroy 0 ThenFail) c)
          else Inr (add_work (WkCreate (Suc k)) (c\<lparr>rz_chans := (rz_chans c)[k := (rz_chans c ! k)\<lparr>rh_qpair := True\<rparr>]\<rparr>))
      | WkPending k success \<Rightarrow>
          if k \<ge> length (rz_chans c) then finish_reset env success c
          else Inr (add_work (WkPending (Suc k) success)
            (c\<lparr>rz_done := rz_done c @ map (\<lambda>i. (i, success)) (rh_pending (rz_chans c ! k)),
               rz_chans := (rz_chans c)[k := (rz_chans c ! k)\<lparr>rh_pending := []\<rparr>]\<rparr>)))"

section \<open>Requests\<close>

datatype reset_rc = RcOk | RcEnxio | RcEbusy

definition start_reset :: "reset_env \<Rightarrow> reset_ctrlr \<Rightarrow> reset_ctrlr" where
  "start_reset env c = add_work WkReset (c\<lparr>rz_resetting := True, rz_start_tsc := rv_now env\<rparr>)"

text \<open>\<open>bdev_nvme_reset\<close>\<close>

definition request_reset :: "reset_env \<Rightarrow> reset_ctrlr \<Rightarrow> reset_rc \<times> reset_ctrlr" where
  "request_reset env c =
     (if rz_destruct c then (RcEnxio, c)
      else if rz_resetting c then (RcEbusy, c)
      else if rz_delayed c then (RcEbusy, c)
      else (RcOk, start_reset env c))"

definition reset_rpc :: "reset_env \<Rightarrow> nat \<Rightarrow> reset_ctrlr \<Rightarrow> reset_ctrlr" where
  "reset_rpc env i c =
     (case request_reset env c of
        (RcOk, c1) \<Rightarrow> c1\<lparr>rz_cb := Some i\<rparr>
      | (_, c1) \<Rightarrow> c1\<lparr>rz_done := rz_done c1 @ [(i, False)]\<rparr>)"

definition add_pending :: "nat \<Rightarrow> nat \<Rightarrow> reset_ctrlr \<Rightarrow> reset_ctrlr" where
  "add_pending k i c =
     c\<lparr>rz_chans := (rz_chans c)[k := (rz_chans c ! k)\<lparr>rh_pending := rh_pending (rz_chans c ! k) @ [i]\<rparr>]\<rparr>"

text \<open>A reset request of the application on a channel.\<close>

definition reset_io :: "reset_env \<Rightarrow> nat \<Rightarrow> nat \<Rightarrow> reset_ctrlr \<Rightarrow> reset_ctrlr" where
  "reset_io env k i c =
     (case request_reset env c of
        (RcOk, c1) \<Rightarrow> c1\<lparr>rz_cb := Some i\<rparr>
      | (RcEbusy, c1) \<Rightarrow> add_pending k i c1
      | (RcEnxio, c1) \<Rightarrow> c1\<lparr>rz_done := rz_done c1 @ [(i, False)]\<rparr>)"

definition failover :: "reset_env \<Rightarrow> bool \<Rightarrow> reset_ctrlr \<Rightarrow> fault + reset_ctrlr" where
  "failover env remove c =
     (if rz_destruct c then Inr c
      else if rz_resetting c then Inr c
      else bindR (failover_trid remove c) (\<lambda>c1.
        if rz_delayed c1 then Inr c1 else Inr (start_reset env c1)))"

section \<open>Events of the library\<close>

definition disconnected :: "reset_env \<Rightarrow> disconnected_cb \<Rightarrow> reset_ctrlr \<Rightarrow> reset_ctrlr" where
  "disconnected env cb c =
     (case cb of
        CbDestroyQpairs \<Rightarrow> reset_destroy_qpairs c
      | CbReconnect \<Rightarrow> reconnect_ctrlr c
      | CbStartDelay \<Rightarrow> start_delay_timer c)"

text \<open>The admin queue is polled; \<open>enxio\<close>: the poll fails because the controller is disconnected, and
  not for another reason.\<close>

definition admin_poll_failed :: "reset_env \<Rightarrow> bool \<Rightarrow> reset_ctrlr \<Rightarrow> fault + reset_ctrlr" where
  "admin_poll_failed env enxio c =
     (let c1 = c\<lparr>rz_disc_cb := None\<rparr> in
      case rz_disc_cb c of
        Some cb \<Rightarrow> if enxio then Inr (disconnected env cb c1) else failover env False c1
      | None \<Rightarrow> failover env False c1)"

definition waits_for :: "nat \<Rightarrow> reset_work \<Rightarrow> bool" where
  "waits_for k w = (case w of WkDestroyWait j _ \<Rightarrow> j = k | _ \<Rightarrow> False)"

definition go_on :: "reset_work \<Rightarrow> reset_work" where
  "go_on w = (case w of WkDestroyWait k a \<Rightarrow> WkDestroy (Suc k) a | _ \<Rightarrow> w)"

text \<open>\<open>bdev_nvme_disconnected_qpair_cb\<close>\<close>

definition qpair_disconnected :: "reset_env \<Rightarrow> nat \<Rightarrow> reset_ctrlr \<Rightarrow> fault + reset_ctrlr" where
  "qpair_disconnected env k c =
     (let h = rz_chans c ! k; c1 = c\<lparr>rz_chans := (rz_chans c)[k := h\<lparr>rh_qpair := False, rh_reset_iter := False\<rparr>]\<rparr> in
      if rh_reset_iter h
      then Inr (c1\<lparr>rz_work := map (\<lambda>w. if waits_for k w then go_on w else w) (rz_work c1)\<rparr>)
      else failover env False c1)"

text \<open>The poller of the reconnection. It first clears the option for the loss of the controller.\<close>

definition reconnect_poll :: "reset_env \<Rightarrow> reset_ctrlr \<Rightarrow> reset_ctrlr" where
  "reconnect_poll env c =
     (let c1 = c\<lparr>rz_loss_timeout := 0\<rparr>;
          rc = (if \<not> loss_timedout env c1 then rv_reconnect env else - 110)
      in if \<not> loss_timedout env c1 \<and> rc = - 11 then c1
         else
           let c2 = c1\<lparr>rz_poller := False\<rparr>
           in if rc = 0 then add_work (WkCreate 0) c2 else reset_complete False c2)"

definition delay_expired :: "reset_ctrlr \<Rightarrow> reset_ctrlr" where
  "delay_expired c =
     (let c1 = c\<lparr>rz_delay_timer := False, rz_delayed := False\<rparr> in
      if rz_destruct c1 then c1
      else reconnect_ctrlr (c1\<lparr>rz_resetting := True, rz_adminq_paused := False\<rparr>))"

definition rctrlr_available :: "reset_env \<Rightarrow> reset_ctrlr \<Rightarrow> bool" where
  "rctrlr_available env c \<longleftrightarrow> \<not> rz_destruct c \<and> \<not> rv_failed env \<and> \<not> (rz_resetting c \<or> rz_delayed c)"

definition clear_io_path_caches :: "reset_env \<Rightarrow> reset_ctrlr \<Rightarrow> reset_ctrlr" where
  "clear_io_path_caches env c =
     (if \<not> rctrlr_available env c \<or> rz_cache_clearing c then c else c\<lparr>rz_cache_clearing := True\<rparr>)"

definition cache_clearing_done :: "reset_ctrlr \<Rightarrow> fault + reset_ctrlr" where
  "cache_clearing_done c =
     (let c1 = c\<lparr>rz_cache_clearing := False\<rparr> in if can_be_unregistered c1 then unregister_ctrlr c1 else Inr c1)"

definition read_ana_log :: "reset_env \<Rightarrow> reset_ctrlr \<Rightarrow> reset_ctrlr" where
  "read_ana_log env c =
     (if \<not> rctrlr_available env c \<or> rz_ana_updating c then c else c\<lparr>rz_ana_updating := True\<rparr>)"

definition ana_log_done :: "reset_env \<Rightarrow> reset_ctrlr \<Rightarrow> fault + reset_ctrlr" where
  "ana_log_done env c =
     (let c1 = c\<lparr>rz_ana_updating := False\<rparr> in
      if can_be_unregistered c1 then unregister_ctrlr c1 else Inr (clear_io_path_caches env c1))"

section \<open>Steps\<close>

datatype reset_event =
    RsResetIo nat nat \<comment> \<open>channel, request\<close>
  | RsResetRpc nat
  | RsFailover bool
  | RsWork nat \<comment> \<open>a piece of work goes on\<close>
  | RsQpairGone nat
  | RsAdminFails bool
  | RsReconnectPoll
  | RsDelayTimer
  | RsDelete
  | RsGet
  | RsRelease
  | RsReadAna
  | RsAnaDone
  | RsClearCaches
  | RsCachesDone

definition when_it_can :: "bool \<Rightarrow> reset_ctrlr \<Rightarrow> fault + reset_ctrlr \<Rightarrow> fault + reset_ctrlr" where
  "when_it_can b c r = (if b then r else Inr c)"

text \<open>Once the controller is unregistered its pollers and timers are gone and nobody refers to it; work
  and callbacks that are still under way would use it.\<close>

definition reset_step :: "reset_ctrlr \<Rightarrow> reset_env \<times> reset_event \<Rightarrow> fault + reset_ctrlr" where
  "reset_step c ee =
     (case ee of (env, e) \<Rightarrow>
      let live = \<not> rz_unregistered c in
      case e of
        RsResetIo k i \<Rightarrow> when_it_can (live \<and> k < length (rz_chans c)) c (Inr (reset_io env k i c))
      | RsResetRpc i \<Rightarrow> when_it_can live c (Inr (reset_rpc env i c))
      | RsFailover remove \<Rightarrow> when_it_can live c (failover env remove c)
      | RsWork n \<Rightarrow>
          when_it_can (n < length (rz_work c)) c
            (if rz_unregistered c then Inl UseAfterFree
             else work_step env (rz_work c ! n) (c\<lparr>rz_work := remove_nth n (rz_work c)\<rparr>))
      | RsQpairGone k \<Rightarrow>
          when_it_can (live \<and> k < length (rz_chans c) \<and> rh_qpair (rz_chans c ! k)) c (qpair_disconnected env k c)
      | RsAdminFails enxio \<Rightarrow> when_it_can (live \<and> \<not> rz_adminq_paused c) c (admin_poll_failed env enxio c)
      | RsReconnectPoll \<Rightarrow>
          when_it_can (rz_poller c) c
            (if rz_unregistered c then Inl UseAfterFree else Inr (reconnect_poll env c))
      | RsDelayTimer \<Rightarrow> when_it_can (rz_delay_timer c) c (Inr (delay_expired c))
      | RsDelete \<Rightarrow> when_it_can live c (delete_ctrlr c)
      | RsGet \<Rightarrow> when_it_can (live \<and> rz_ref c > 0) c (Inr (c\<lparr>rz_ref := rz_ref c + 1\<rparr>))
      | RsRelease \<Rightarrow> when_it_can (rz_ref c > (if rz_destruct c then 0 else 1)) c (release_ctrlr c)
      | RsReadAna \<Rightarrow> when_it_can live c (Inr (read_ana_log env c))
      | RsAnaDone \<Rightarrow> when_it_can (rz_ana_updating c) c (ana_log_done env c)
      | RsClearCaches \<Rightarrow> when_it_can live c (Inr (clear_io_path_caches env c))
      | RsCachesDone \<Rightarrow> when_it_can (rz_cache_clearing c) c (cache_clearing_done c))"

definition new_reset_ctrlr :: "path_id list \<Rightarrow> bool \<Rightarrow> int \<Rightarrow> u32 \<Rightarrow> u32 \<Rightarrow> nat \<Rightarrow> reset_ctrlr" where
  "new_reset_ctrlr trids fabrics loss delay fast n =
     \<lparr>rz_resetting = False, rz_delayed = False, rz_fast_io_fail_timedout = False, rz_destruct = False,
      rz_ana_updating = False, rz_cache_clearing = False, rz_ref = 1, rz_loss_timeout = loss,
      rz_reconnect_delay = delay, rz_fast_io_fail = fast, rz_fabrics = fabrics, rz_start_tsc = 0,
      rz_trids = trids, rz_active = (case trids of [] \<Rightarrow> 0 | p # _ \<Rightarrow> pi_trid p), rz_cb = None, rz_disc_cb = None,
      rz_poller = False, rz_delay_timer = False, rz_adminq_paused = False, rz_work = [],
      rz_chans = replicate n \<lparr>rh_qpair = True, rh_reset_iter = False, rh_pending = []\<rparr>, rz_done = [],
      rz_unregistered = False\<rparr>"

end
