(* ===== verification/Bdev_Reset_Props.thy ===== *)
theory Bdev_Reset_Props
  imports Bdev_Reset "HOL-Library.Multiset"
begin

text \<open>
  What holds of a controller of \<^verbatim>\<open>bdev_nvme\<close> that is reset, fails over and reconnects: one reset at a time,
  every request answered once, the controller taken away exactly when nothing needs it; that a reset
  ends; and the orders of events in which the code fails.
\<close>

section \<open>The invariant\<close>

definition awaits_disconnect :: "reset_ctrlr \<Rightarrow> bool" where
  "awaits_disconnect c \<longleftrightarrow> (case rz_disc_cb c of Some CbDestroyQpairs \<Rightarrow> True | Some CbReconnect \<Rightarrow> True | _ \<Rightarrow> False)"

text \<open>What carries the sequence of a reset on: a piece of work, the poller, or a disconnection.\<close>

definition carriers :: "reset_ctrlr \<Rightarrow> nat" where
  "carriers c = length (rz_work c) + of_bool (rz_poller c) + of_bool (awaits_disconnect c)"

definition frame_inv :: "reset_ctrlr \<Rightarrow> bool" where
  "frame_inv c \<longleftrightarrow>
     rz_trids c \<noteq> [] \<and> rz_active c = pi_trid (hd (rz_trids c)) \<and>
     (rz_resetting c \<longrightarrow> \<not> rz_delayed c \<and> \<not> rz_adminq_paused c \<and> rz_disc_cb c \<noteq> Some CbStartDelay) \<and>
     (rz_disc_cb c = Some CbStartDelay \<longrightarrow> \<not> rz_delayed c) \<and>
     (rz_adminq_paused c \<longrightarrow> rz_delayed c \<or> rz_destruct c) \<and>
     (rz_delay_timer c \<longleftrightarrow> rz_delayed c \<and> \<not> rz_unregistered c) \<and>
     (rz_unregistered c \<longleftrightarrow> can_be_unregistered c) \<and>
     (rz_destruct c \<or> rz_ref c > 0) \<and>
     (rz_cb c \<noteq> None \<longrightarrow> rz_resetting c)"

definition work_ok :: "reset_ctrlr \<Rightarrow> bool" where
  "work_ok c \<longleftrightarrow>
     (\<forall>k < length (rz_chans c). rh_reset_iter (rz_chans c ! k) \<longleftrightarrow> (\<exists>a. rz_work c = [WkDestroyWait k a])) \<and>
     (\<forall>k < length (rz_chans c). rh_reset_iter (rz_chans c ! k) \<longrightarrow> rh_qpair (rz_chans c ! k)) \<and>
     (\<forall>k a. rz_work c = [WkDestroyWait k a] \<longrightarrow> k < length (rz_chans c))"

definition reset_inv :: "reset_ctrlr \<Rightarrow> bool" where
  "reset_inv c \<longleftrightarrow> frame_inv c \<and> work_ok c \<and> carriers c = of_bool (rz_resetting c)"

text \<open>In the middle of a step of a reset nothing carries it on yet.\<close>

definition moving :: "reset_ctrlr \<Rightarrow> bool" where
  "moving c \<longleftrightarrow> frame_inv c \<and> rz_resetting c \<and> carriers c = 0 \<and>
     (\<forall>k < length (rz_chans c). \<not> rh_reset_iter (rz_chans c ! k))"

lemmas reset_defs = frame_inv_def carriers_def awaits_disconnect_def can_be_unregistered_def

lemma moving_not_unregistered: "moving c \<Longrightarrow> \<not> rz_unregistered c"
  by (simp add: moving_def frame_inv_def can_be_unregistered_def)

lemma can_be_unregistered_frame [simp]:
  "can_be_unregistered (c\<lparr>rz_work := ws\<rparr>) = can_be_unregistered c"
  "can_be_unregistered (c\<lparr>rz_poller := b\<rparr>) = can_be_unregistered c"
  "can_be_unregistered (c\<lparr>rz_chans := hs\<rparr>) = can_be_unregistered c"
  "can_be_unregistered (c\<lparr>rz_done := ds\<rparr>) = can_be_unregistered c"
  "can_be_unregistered (c\<lparr>rz_disc_cb := cb\<rparr>) = can_be_unregistered c"
  "can_be_unregistered (c\<lparr>rz_loss_timeout := i\<rparr>) = can_be_unregistered c"
  "can_be_unregistered (c\<lparr>rz_trids := ps\<rparr>) = can_be_unregistered c"
  "can_be_unregistered (c\<lparr>rz_active := a\<rparr>) = can_be_unregistered c"
  "can_be_unregistered (c\<lparr>rz_start_tsc := t\<rparr>) = can_be_unregistered c"
  "can_be_unregistered (c\<lparr>rz_cb := q\<rparr>) = can_be_unregistered c"
  "can_be_unregistered (c\<lparr>rz_delayed := b\<rparr>) = can_be_unregistered c"
  "can_be_unregistered (c\<lparr>rz_delay_timer := b\<rparr>) = can_be_unregistered c"
  "can_be_unregistered (c\<lparr>rz_adminq_paused := b\<rparr>) = can_be_unregistered c"
  "can_be_unregistered (c\<lparr>rz_fast_io_fail_timedout := b\<rparr>) = can_be_unregistered c"
  "can_be_unregistered (c\<lparr>rz_unregistered := b\<rparr>) = can_be_unregistered c"
  by (simp_all add: can_be_unregistered_def)

lemma frame_inv_frame [simp]:
  "frame_inv (c\<lparr>rz_work := ws\<rparr>) = frame_inv c"
  "frame_inv (c\<lparr>rz_poller := b\<rparr>) = frame_inv c"
  "frame_inv (c\<lparr>rz_chans := hs\<rparr>) = frame_inv c"
  "frame_inv (c\<lparr>rz_done := ds\<rparr>) = frame_inv c"
  "frame_inv (c\<lparr>rz_loss_timeout := i\<rparr>) = frame_inv c"
  "frame_inv (c\<lparr>rz_start_tsc := t\<rparr>) = frame_inv c"
  "frame_inv (c\<lparr>rz_fast_io_fail_timedout := b\<rparr>) = frame_inv c"
  by (simp_all add: frame_inv_def)

lemma frame_inv_cb:
  "frame_inv c \<Longrightarrow> cb \<noteq> Some CbStartDelay \<Longrightarrow> frame_inv (c\<lparr>rz_disc_cb := cb\<rparr>)"
  by (simp add: frame_inv_def)

lemma moving_cb:
  assumes "moving c"
  shows "rz_disc_cb c = None" "rz_work c = []" "\<not> rz_poller c" "frame_inv c" "rz_resetting c"
    and "k < length (rz_chans c) \<Longrightarrow> \<not> rh_reset_iter (rz_chans c ! k)"
proof -
  have c: "carriers c = 0" and f: "frame_inv c" and r: "rz_resetting c" using assms by (simp_all add: moving_def)
  show "rz_work c = []" "\<not> rz_poller c" "frame_inv c" "rz_resetting c"
    "k < length (rz_chans c) \<Longrightarrow> \<not> rh_reset_iter (rz_chans c ! k)"
    using c f r assms by (simp_all add: carriers_def moving_def)
  have "rz_disc_cb c \<noteq> Some CbStartDelay" using f r by (simp add: frame_inv_def)
  moreover have "\<not> awaits_disconnect c" using c by (simp add: carriers_def)
  ultimately show "rz_disc_cb c = None"
    by (simp add: awaits_disconnect_def split: option.splits disconnected_cb.splits)
qed

definition is_wait :: "reset_work \<Rightarrow> bool" where
  "is_wait w \<longleftrightarrow> (case w of WkDestroyWait _ _ \<Rightarrow> True | _ \<Rightarrow> False)"

lemma moving_add_work: "moving c \<Longrightarrow> \<not> is_wait w \<Longrightarrow> reset_inv (add_work w c)"
  by (cases w) (simp_all add: moving_cb reset_inv_def work_ok_def add_work_def carriers_def awaits_disconnect_def is_wait_def)

lemma moving_reconnect: "moving c \<Longrightarrow> reset_inv (reconnect_ctrlr c)"
  by (simp add: moving_cb reset_inv_def work_ok_def reconnect_ctrlr_def carriers_def awaits_disconnect_def)

lemma moving_complete: "moving c \<Longrightarrow> reset_inv (reset_complete s c)"
  by (simp add: reset_complete_def moving_add_work is_wait_def)

lemma moving_set_cb: "moving c \<Longrightarrow> cb \<noteq> CbStartDelay \<Longrightarrow> reset_inv (c\<lparr>rz_disc_cb := Some cb\<rparr>)"
  by (cases cb) (simp_all add: moving_cb reset_inv_def work_ok_def carriers_def awaits_disconnect_def frame_inv_cb)

lemma reset_inv_resume: "reset_inv c \<Longrightarrow> reset_inv (c\<lparr>rz_adminq_paused := False\<rparr>)"
  by (simp add: reset_inv_def frame_inv_def work_ok_def carriers_def awaits_disconnect_def)

lemma moving_disconnect: "moving c \<Longrightarrow> cb \<noteq> CbStartDelay \<Longrightarrow> reset_inv (disconnect_ctrlr env cb c)"
  using reset_inv_resume [OF moving_set_cb [of c cb]] by (simp add: disconnect_ctrlr_def moving_complete)

lemma moving_do_reset: "moving c \<Longrightarrow> reset_inv (do_reset env c)"
  by (simp add: do_reset_def reset_destroy_qpairs_def moving_disconnect moving_add_work is_wait_def)

lemma moving_destroyed: "moving c \<Longrightarrow> reset_inv (qpairs_destroyed env c)"
  by (simp add: qpairs_destroyed_def moving_disconnect moving_reconnect)

lemma moving_chans:
  "moving c \<Longrightarrow> list_all (\<lambda>h. \<not> rh_reset_iter h) hs \<Longrightarrow> moving (c\<lparr>rz_chans := hs\<rparr>)"
  by (simp add: moving_def carriers_def awaits_disconnect_def list_all_length)

lemma moving_done: "moving c \<Longrightarrow> moving (c\<lparr>rz_done := ds\<rparr>)"
  by (simp add: moving_def carriers_def awaits_disconnect_def)

section \<open>Each operation\<close>

text \<open>A controller on which nothing carries on, and no reset is in progress.\<close>

definition resting :: "reset_ctrlr \<Rightarrow> bool" where
  "resting c \<longleftrightarrow>
     rz_trids c \<noteq> [] \<and> rz_active c = pi_trid (hd (rz_trids c)) \<and> \<not> rz_resetting c \<and> rz_cb c = None \<and>
     (rz_disc_cb c = Some CbStartDelay \<longrightarrow> \<not> rz_delayed c) \<and>
     (rz_adminq_paused c \<longrightarrow> rz_delayed c \<or> rz_destruct c) \<and>
     (rz_delay_timer c \<longleftrightarrow> rz_delayed c) \<and> \<not> rz_unregistered c \<and>
     (rz_destruct c \<or> rz_ref c > 0) \<and>
     rz_work c = [] \<and> \<not> rz_poller c \<and> \<not> awaits_disconnect c \<and>
     (\<forall>k < length (rz_chans c). \<not> rh_reset_iter (rz_chans c ! k))"

lemma awaits_frame [simp]:
  "awaits_disconnect (c\<lparr>rz_work := ws\<rparr>) = awaits_disconnect c"
  "awaits_disconnect (c\<lparr>rz_chans := hs\<rparr>) = awaits_disconnect c"
  "awaits_disconnect (c\<lparr>rz_done := ds\<rparr>) = awaits_disconnect c"
  "awaits_disconnect (c\<lparr>rz_trids := ps\<rparr>) = awaits_disconnect c"
  "awaits_disconnect (c\<lparr>rz_active := a\<rparr>) = awaits_disconnect c"
  "awaits_disconnect (c\<lparr>rz_start_tsc := t\<rparr>) = awaits_disconnect c"
  "awaits_disconnect (c\<lparr>rz_cb := q\<rparr>) = awaits_disconnect c"
  "awaits_disconnect (c\<lparr>rz_destruct := b\<rparr>) = awaits_disconnect c"
  "awaits_disconnect (c\<lparr>rz_resetting := b\<rparr>) = awaits_disconnect c"
  "awaits_disconnect (c\<lparr>rz_unregistered := b\<rparr>) = awaits_disconnect c"
  "awaits_disconnect (c\<lparr>rz_delay_timer := b\<rparr>) = awaits_disconnect c"
  "awaits_disconnect (c\<lparr>rz_fast_io_fail_timedout := b\<rparr>) = awaits_disconnect c"
  "awaits_disconnect (c\<lparr>rz_ref := r\<rparr>) = awaits_disconnect c"
  by (simp_all add: awaits_disconnect_def)

lemma resting_inv: "resting c \<Longrightarrow> \<not> can_be_unregistered c \<Longrightarrow> reset_inv c"
  by (simp add: resting_def reset_inv_def frame_inv_def work_ok_def carriers_def)

lemma resting_unregister:
  "resting c \<Longrightarrow> can_be_unregistered c \<Longrightarrow> \<exists>c'. unregister_ctrlr c = Inr c' \<and> reset_inv c'"
  by (simp add: unregister_ctrlr_def resting_def reset_inv_def frame_inv_def work_ok_def carriers_def)

lemma resting_release:
  assumes "resting c" and "rz_destruct c"
  shows "\<exists>c'. release_ctrlr c = Inr c' \<and> reset_inv c'"
proof -
  have r: "resting (c\<lparr>rz_ref := rz_ref c - 1\<rparr>)" using assms by (simp add: resting_def)
  show ?thesis
    unfolding release_ctrlr_def Let_def
    using resting_unregister [OF r] resting_inv [OF r] by simp
qed

lemma resting_delete: "resting c \<Longrightarrow> \<not> can_be_unregistered c \<Longrightarrow> \<exists>c'. delete_ctrlr c = Inr c' \<and> reset_inv c'"
  unfolding delete_ctrlr_def
  using resting_inv [of c] resting_release [of "c\<lparr>rz_destruct := True\<rparr>"] by (simp add: resting_def)

lemma failover_trid_eq:
  "rz_trids c \<noteq> [] \<Longrightarrow> failover_trid remove c =
     Inr (c\<lparr>rz_active := if tl (rz_trids c) = [] then rz_active c else pi_trid (hd (tl (rz_trids c))),
            rz_trids :=
              (let p' = (hd (rz_trids c))\<lparr>pi_failed := True\<rparr>
               in if tl (rz_trids c) = [] then [p'] else if remove then tl (rz_trids c) else tl (rz_trids c) @ [p'])\<rparr>)"
  by (cases "rz_trids c"; cases "tl (rz_trids c)") (simp_all add: failover_trid_def Let_def)

lemma resting_failover:
  assumes "resting c"
  shows "\<exists>c'. failover_trid remove c = Inr c' \<and> resting c' \<and> can_be_unregistered c' = can_be_unregistered c \<and>
    rz_disc_cb c' = rz_disc_cb c \<and> rz_delayed c' = rz_delayed c \<and> rz_destruct c' = rz_destruct c \<and> rz_chans c' = rz_chans c \<and>
    rz_adminq_paused c' = rz_adminq_paused c \<and> rz_ref c' = rz_ref c \<and> rz_work c' = rz_work c"
proof -
  have "rz_trids c \<noteq> []" "rz_active c = pi_trid (hd (rz_trids c))" using assms by (simp_all add: resting_def)
  then show ?thesis
    using assms by (simp add: failover_trid_eq resting_def Let_def hd_append)
qed

lemma moving_finish:
  assumes m: "moving c" and d: "rv_disconnect env = 0"
  shows "\<exists>c'. finish_reset env s c = Inr c' \<and> reset_inv c'"
proof -
  obtain p rest where t: "rz_trids c = p # rest" using m by (cases "rz_trids c") (simp_all add: moving_def frame_inv_def)
  define c1 where "c1 = c\<lparr>rz_cb := None, rz_resetting := False, rz_trids := p\<lparr>pi_failed := \<not> s\<rparr> # rest\<rparr>"
  have f: "frame_inv c" by (rule moving_cb [OF m])
  have a: "\<not> awaits_disconnect c" and u: "\<not> rz_unregistered c"
    using moving_cb(1) [OF m] moving_not_unregistered [OF m] by (simp_all add: awaits_disconnect_def)
  have r1: "resting c1"
    using f moving_cb [OF m] t a u by (auto simp: c1_def resting_def frame_inv_def)
  have dn: "resting (reset_done q s c') = resting c'" "can_be_unregistered (reset_done q s c') = can_be_unregistered c'"
    "rz_disc_cb (reset_done q s c') = rz_disc_cb c'" "rz_delayed (reset_done q s c') = rz_delayed c'" for q s c'
    by (simp_all add: reset_done_def resting_def split: option.splits)
  have tsc: "resting (c1\<lparr>rz_start_tsc := 0\<rparr>)" using r1 by (simp add: resting_def)
  have eq: "finish_reset env s c = bindR (check_op_after_reset env s c1) (\<lambda>(op, c2).
      let c3 = reset_done (rz_cb c) s c2 in
      case op of OpCompletePendingDestruct \<Rightarrow> unregister_ctrlr c3 | OpDestruct \<Rightarrow> delete_ctrlr c3
      | OpDelayedReconnect \<Rightarrow> Inr (disconnect_ctrlr env CbStartDelay c3) | OpNone \<Rightarrow> Inr c3)"
    using t by (simp add: finish_reset_def c1_def Let_def)
  have n: "rz_disc_cb c1 = None" "\<not> rz_delayed c1"
    using moving_cb [OF m] f by (simp_all add: c1_def frame_inv_def)
  show ?thesis
  proof (cases "can_be_unregistered c1")
    case True
    then show ?thesis
      using resting_unregister [of "reset_done (rz_cb c) s c1"] r1
      by (simp add: eq check_op_after_reset_def dn)
  next
    case False
    define c2 where "c2 = (if fast_io_fail_timedout env c1 then c1\<lparr>rz_fast_io_fail_timedout := True\<rparr> else c1)"
    have r2: "resting c2" and u2: "\<not> can_be_unregistered c2" and n2: "rz_disc_cb c2 = None" "\<not> rz_delayed c2"
      using r1 False n by (simp_all add: c2_def resting_def)
    obtain c3 where c3: "failover_trid False c2 = Inr c3" "resting c3" "\<not> can_be_unregistered c3"
      "rz_disc_cb c3 = None" "\<not> rz_delayed c3"
      using resting_failover [OF r2, of False] u2 n2 by metis
    have "reset_inv (c4\<lparr>rz_disc_cb := Some CbStartDelay\<rparr>)"
      if "resting c4" "\<not> can_be_unregistered c4" "\<not> rz_delayed c4" for c4
      using that by (simp add: reset_inv_def resting_def frame_inv_def work_ok_def carriers_def awaits_disconnect_def)
    then have "reset_inv ((reset_done q s' c3)\<lparr>rz_disc_cb := Some CbStartDelay, rz_adminq_paused := False\<rparr>)" for q s'
      using c3 reset_inv_resume by (simp add: dn)
    moreover have "reset_inv (reset_done q s' (c1\<lparr>rz_start_tsc := 0\<rparr>))" for q s'
      by (rule resting_inv) (use tsc False in \<open>simp_all add: dn\<close>)
    moreover have "\<exists>c'. delete_ctrlr (reset_done q s' c1) = Inr c' \<and> reset_inv c'" for q s'
      by (rule resting_delete) (use r1 False in \<open>simp_all add: dn\<close>)
    ultimately show ?thesis
      using False d c3(1) by (simp add: eq check_op_after_reset_def disconnect_ctrlr_def c2_def [symmetric] Let_def)
  qed
qed

section \<open>One step\<close>

text \<open>No reset is asked for while the controller is disconnected in order to reconnect later, that
  disconnection is not refused, and the admin queue does not fail for another reason than the
  disconnection while a reset waits for it.\<close>

definition calm :: "reset_ctrlr \<Rightarrow> reset_env \<times> reset_event \<Rightarrow> bool" where
  "calm c ee = (case ee of (env, e) \<Rightarrow>
     (case e of
        RsResetIo _ _ \<Rightarrow> rz_disc_cb c \<noteq> Some CbStartDelay
      | RsResetRpc _ \<Rightarrow> rz_disc_cb c \<noteq> Some CbStartDelay
      | RsFailover _ \<Rightarrow> rz_disc_cb c \<noteq> Some CbStartDelay
      | RsQpairGone _ \<Rightarrow> rz_disc_cb c \<noteq> Some CbStartDelay
      | RsAdminFails enxio \<Rightarrow> enxio \<or> \<not> awaits_disconnect c
      | RsWork n \<Rightarrow> (case rz_work c ! n of WkPending _ _ \<Rightarrow> rv_disconnect env = 0 | _ \<Rightarrow> True)
      | _ \<Rightarrow> True))"

lemma resetting_one:
  assumes "reset_inv c"
  shows "length (rz_work c) \<le> 1" "rz_work c \<noteq> [] \<or> rz_poller c \<or> awaits_disconnect c \<longleftrightarrow> rz_resetting c"
    "rz_work c \<noteq> [] \<Longrightarrow> \<not> rz_poller c \<and> \<not> awaits_disconnect c" "rz_poller c \<Longrightarrow> \<not> awaits_disconnect c"
  using assms by (auto simp: reset_inv_def carriers_def of_bool_def split: if_splits)

lemma inv_not_resetting:
  assumes "reset_inv c" and "\<not> rz_resetting c" and "\<not> rz_unregistered c"
  shows "resting c" and "\<not> can_be_unregistered c"
proof -
  have "rz_work c = []" "\<not> rz_poller c" "\<not> awaits_disconnect c" using resetting_one [OF assms(1)] assms(2) by auto
  then show "resting c" using assms by (auto simp: reset_inv_def resting_def frame_inv_def work_ok_def)
  show "\<not> can_be_unregistered c" using assms by (simp add: reset_inv_def frame_inv_def)
qed

lemma work_moving:
  assumes "reset_inv c" and "n < length (rz_work c)"
  shows "n = 0" and "rz_work c = [rz_work c ! 0]" and "\<not> rz_unregistered c"
    and "\<not> is_wait (rz_work c ! 0) \<Longrightarrow> moving (c\<lparr>rz_work := remove_nth n (rz_work c)\<rparr>)"
proof -
  have l: "length (rz_work c) = 1" using resetting_one(1) [OF assms(1)] assms(2) by linarith
  then show n: "n = 0" using assms(2) by simp
  show w: "rz_work c = [rz_work c ! 0]" using l by (cases "rz_work c") simp_all
  have r: "rz_resetting c" using resetting_one(2) [OF assms(1)] l by auto
  then show "\<not> rz_unregistered c" using assms(1) by (simp add: reset_inv_def frame_inv_def can_be_unregistered_def)
  have rm: "remove_nth n (rz_work c) = []" using l n by (simp add: remove_nth_def)
  have "\<not> rz_poller c \<and> \<not> awaits_disconnect c" using resetting_one(3) [OF assms(1)] l by fastforce
  then show "moving (c\<lparr>rz_work := remove_nth n (rz_work c)\<rparr>)" if "\<not> is_wait (rz_work c ! 0)"
    using that r w assms(1)
    unfolding moving_def rm
    by (simp add: reset_inv_def carriers_def) (auto simp: work_ok_def is_wait_def)
qed

lemma start_reset_cb: "start_reset env (c\<lparr>rz_cb := q\<rparr>) = (start_reset env c)\<lparr>rz_cb := q\<rparr>"
  by (rule reset_ctrlr.equality) (simp_all add: start_reset_def add_work_def)

lemma start_reset_inv:
  assumes "resting c" and "\<not> rz_destruct c" and "\<not> rz_delayed c" and "rz_disc_cb c \<noteq> Some CbStartDelay"
  shows "reset_inv (start_reset env (c\<lparr>rz_cb := q\<rparr>))"
proof -
  have "moving (c\<lparr>rz_cb := q, rz_resetting := True, rz_start_tsc := rv_now env\<rparr>)"
    using assms by (auto simp: moving_def resting_def frame_inv_def carriers_def can_be_unregistered_def)
  from moving_add_work [OF this, of WkReset] show ?thesis
    by (simp add: start_reset_def add_work_def is_wait_def)
qed

lemma failover_inv:
  assumes "reset_inv c" and "\<not> rz_unregistered c" and "rz_disc_cb c \<noteq> Some CbStartDelay"
  shows "\<exists>c'. failover env remove c = Inr c' \<and> reset_inv c'"
proof (cases "rz_destruct c \<or> rz_resetting c")
  case True
  then show ?thesis using assms(1) by (auto simp: failover_def)
next
  case False
  from inv_not_resetting [OF assms(1) _ assms(2)] False have r: "resting c" and u: "\<not> can_be_unregistered c" by simp_all
  from resting_failover [OF r, of remove] obtain c2 where
    c2: "failover_trid remove c = Inr c2" "resting c2" "\<not> can_be_unregistered c2" "rz_disc_cb c2 = rz_disc_cb c"
      "rz_destruct c2 = rz_destruct c" using u by metis
  have "reset_inv c2" by (rule resting_inv [OF c2(2,3)])
  moreover have "reset_inv (start_reset env c2)" if "\<not> rz_delayed c2"
  proof -
    have cb: "rz_cb c2 = None" using c2(2) by (simp add: resting_def)
    have "reset_inv (start_reset env (c2\<lparr>rz_cb := rz_cb c2\<rparr>))"
      by (rule start_reset_inv) (use c2 that False assms(3) in simp_all)
    then show ?thesis by simp
  qed
  ultimately show ?thesis using False c2 by (simp add: failover_def)
qed

lemma pending_inv:
  assumes "reset_inv c" and "k < length (rz_chans c)"
  shows "reset_inv (add_pending k i c)"
  using assms unfolding reset_inv_def add_pending_def
  by (simp add: carriers_def work_ok_def nth_list_update)

lemma request_inv:
  assumes "reset_inv c" and "\<not> rz_unregistered c" and "rz_disc_cb c \<noteq> Some CbStartDelay"
  shows "k < length (rz_chans c) \<Longrightarrow> reset_inv (reset_io env k i c)" and "reset_inv (reset_rpc env i c)"
proof -
  have done_inv: "reset_inv (c\<lparr>rz_done := ds\<rparr>)" for ds
    using assms(1) by (simp add: reset_inv_def work_ok_def carriers_def)
  have start: "reset_inv ((start_reset env c)\<lparr>rz_cb := Some i\<rparr>)"
    if "\<not> rz_destruct c" "\<not> rz_resetting c" "\<not> rz_delayed c"
    using start_reset_inv [OF inv_not_resetting(1) [OF assms(1) that(2) assms(2)] that(1,3) assms(3), of env "Some i"]
    unfolding start_reset_cb .
  show "k < length (rz_chans c) \<Longrightarrow> reset_inv (reset_io env k i c)" and "reset_inv (reset_rpc env i c)"
    using start done_inv pending_inv [OF assms(1), of k i]
    by (simp_all add: reset_io_def reset_rpc_def request_reset_def)
qed

lemma moving_work:
  assumes m: "moving c" and w: "\<not> is_wait w"
    and d: "case w of WkPending _ _ \<Rightarrow> rv_disconnect env = 0 | _ \<Rightarrow> True"
  shows "\<exists>c'. work_step env w c = Inr c' \<and> reset_inv c'"
proof (cases w)
  case WkReset
  then show ?thesis by (simp add: work_step_def moving_do_reset [OF m])
next
  case (WkDestroy k a)
  have "reset_inv (add_work (WkDestroyWait k a)
      (c\<lparr>rz_chans := (rz_chans c)[k := (rz_chans c ! k)\<lparr>rh_reset_iter := True\<rparr>]\<rparr>))"
    if "k < length (rz_chans c)" "rh_qpair (rz_chans c ! k)"
    using that moving_cb [OF m]
    by (simp add: reset_inv_def add_work_def work_ok_def carriers_def awaits_disconnect_def nth_list_update)
  then show ?thesis
    using WkDestroy
    by (simp add: work_step_def moving_destroyed [OF m] moving_complete [OF m] moving_add_work [OF m] is_wait_def
        split: after_destroy.split)
next
  case (WkDestroyWait k a)
  then show ?thesis using w by (simp add: is_wait_def)
next
  case (WkCreate k)
  have "moving (c\<lparr>rz_chans := (rz_chans c)[k := (rz_chans c ! k)\<lparr>rh_qpair := True\<rparr>]\<rparr>)"
    if "k < length (rz_chans c)"
    by (rule moving_chans [OF m])
       (use moving_cb(6) [OF m] that in \<open>simp add: list_all_length nth_list_update\<close>)
  then show ?thesis
    using WkCreate by (simp add: work_step_def moving_complete [OF m] moving_add_work m is_wait_def)
next
  case (WkPending k s)
  have "moving (c\<lparr>rz_done := ds, rz_chans := (rz_chans c)[k := (rz_chans c ! k)\<lparr>rh_pending := []\<rparr>]\<rparr>)"
    if "k < length (rz_chans c)" for ds
    by (rule moving_chans [OF moving_done [OF m]])
       (use moving_cb(6) [OF m] that in \<open>simp add: list_all_length nth_list_update\<close>)
  then show ?thesis
    using WkPending d by (simp add: work_step_def moving_finish [OF m] moving_add_work is_wait_def)
qed

lemma admin_inv:
  assumes i: "reset_inv c" and u: "\<not> rz_unregistered c" and p: "\<not> rz_adminq_paused c"
    and a: "enxio \<or> \<not> awaits_disconnect c"
  shows "\<exists>c'. admin_poll_failed env enxio c = Inr c' \<and> reset_inv c'"
proof (cases "awaits_disconnect c")
  case True
  then have r: "rz_resetting c" using resetting_one(2) [OF i] by simp
  have "rz_work c = []" "\<not> rz_poller c" using resetting_one(3,4) [OF i] True by auto
  then have "moving (c\<lparr>rz_disc_cb := None\<rparr>)"
    using i r by (simp add: moving_def reset_inv_def frame_inv_cb carriers_def work_ok_def awaits_disconnect_def)
  then show ?thesis
    using True a
    by (auto simp: admin_poll_failed_def awaits_disconnect_def disconnected_def reset_destroy_qpairs_def is_wait_def
        moving_add_work moving_reconnect split: option.splits disconnected_cb.splits)
next
  case False
  then have n: "\<not> awaits_disconnect (c\<lparr>rz_disc_cb := None\<rparr>)" "rz_disc_cb c = None \<or> rz_disc_cb c = Some CbStartDelay"
    by (auto simp: awaits_disconnect_def split: option.splits disconnected_cb.splits)
  then have i1: "reset_inv (c\<lparr>rz_disc_cb := None\<rparr>)"
    using i False by (simp add: reset_inv_def frame_inv_cb carriers_def work_ok_def)
  have f: "\<exists>c'. failover env False (c\<lparr>rz_disc_cb := None\<rparr>) = Inr c' \<and> reset_inv c'"
    by (rule failover_inv [OF i1]) (simp_all add: u)
  have "reset_inv (start_delay_timer (c\<lparr>rz_disc_cb := None\<rparr>))" if "rz_disc_cb c = Some CbStartDelay"
  proof -
    have nr: "\<not> rz_resetting c" using i that by (auto simp: reset_inv_def frame_inv_def)
    show ?thesis
      using inv_not_resetting [OF i nr u] n(1)
      by (simp add: start_delay_timer_def reset_inv_def resting_def frame_inv_def carriers_def work_ok_def
          awaits_disconnect_def)
  qed
  then show ?thesis
    using n(2) f by (auto simp: admin_poll_failed_def disconnected_def Let_def)
qed

lemma qpair_gone_inv:
  assumes i: "reset_inv c" and u: "\<not> rz_unregistered c" and k: "k < length (rz_chans c)"
    and cb: "rz_disc_cb c \<noteq> Some CbStartDelay"
  shows "\<exists>c'. qpair_disconnected env k c = Inr c' \<and> reset_inv c'"
proof (cases "rh_reset_iter (rz_chans c ! k)")
  case True
  then obtain a where w: "rz_work c = [WkDestroyWait k a]" using i k by (auto simp: reset_inv_def work_ok_def)
  have others: "\<not> rh_reset_iter (rz_chans c ! j)" if "j < length (rz_chans c)" "j \<noteq> k" for j
    using i w that by (auto simp: reset_inv_def work_ok_def)
  show ?thesis
    using i True w k others
    by (simp add: qpair_disconnected_def reset_inv_def waits_for_def go_on_def work_ok_def carriers_def nth_list_update)
next
  case False
  have "reset_inv (c\<lparr>rz_chans := (rz_chans c)[k := (rz_chans c ! k)\<lparr>rh_qpair := False, rh_reset_iter := False\<rparr>]\<rparr>)"
    using i False k by (auto simp: reset_inv_def work_ok_def carriers_def nth_list_update)
  from failover_inv [OF this] u cb show ?thesis
    using False by (simp add: qpair_disconnected_def)
qed

lemma flag_inv:
  assumes i: "reset_inv c" and u: "\<not> rz_unregistered c"
    and c': "c' = c\<lparr>rz_ref := r, rz_destruct := b, rz_ana_updating := an, rz_cache_clearing := cc\<rparr>"
    and b: "b \<or> r > 0" "rz_destruct c \<longrightarrow> b"
  shows "\<exists>c''. (if can_be_unregistered c' then unregister_ctrlr c' else Inr c') = Inr c'' \<and> reset_inv c''"
proof (cases "rz_resetting c")
  case True
  then have "\<not> can_be_unregistered c'" by (simp add: c' can_be_unregistered_def)
  moreover have "reset_inv c'"
    using i True b u unfolding c'
    by (simp add: reset_inv_def frame_inv_def can_be_unregistered_def work_ok_def carriers_def awaits_disconnect_def)
  ultimately show ?thesis by simp
next
  case False
  from inv_not_resetting(1) [OF i False u] have "resting c'"
    using b unfolding c' by (auto simp: resting_def awaits_disconnect_def)
  then show ?thesis using resting_unregister [of c'] resting_inv [of c'] by auto
qed

lemma delay_inv:
  assumes i: "reset_inv c" and t: "rz_delay_timer c"
  shows "reset_inv (delay_expired c)"
proof -
  have u: "\<not> rz_unregistered c" and d: "rz_delayed c" using i t by (simp_all add: reset_inv_def frame_inv_def)
  have nr: "\<not> rz_resetting c" using i d by (auto simp: reset_inv_def frame_inv_def)
  note rest = inv_not_resetting [OF i nr u]
  have cb: "rz_disc_cb c \<noteq> Some CbStartDelay" using rest(1) d by (auto simp: resting_def)
  show ?thesis
  proof (cases "rz_destruct c")
    case True
    then show ?thesis
      using rest i nr unfolding delay_expired_def Let_def
      by (simp add: reset_inv_def resting_def frame_inv_def carriers_def work_ok_def awaits_disconnect_def)
  next
    case False
    have "moving (c\<lparr>rz_delay_timer := False, rz_delayed := False, rz_resetting := True, rz_adminq_paused := False\<rparr>)"
      using rest(1) False cb
      by (simp add: moving_def resting_def frame_inv_def carriers_def can_be_unregistered_def awaits_disconnect_def)
    from moving_reconnect [OF this] show ?thesis using False by (simp add: delay_expired_def)
  qed
qed

lemma poll_inv:
  assumes i: "reset_inv c" and p: "rz_poller c"
  shows "reset_inv (reconnect_poll env c)"
proof -
  have r: "rz_resetting c" "rz_work c = []" "\<not> awaits_disconnect c"
    using resetting_one [OF i] p by auto
  have m: "moving (c\<lparr>rz_loss_timeout := 0, rz_poller := False\<rparr>)"
    using i r by (simp add: moving_def reset_inv_def carriers_def work_ok_def awaits_disconnect_def)
  have "reset_inv (c\<lparr>rz_loss_timeout := 0\<rparr>)"
    using i by (simp add: reset_inv_def carriers_def work_ok_def awaits_disconnect_def)
  then show ?thesis
    using moving_complete [OF m] moving_add_work [OF m] by (simp add: reconnect_poll_def Let_def is_wait_def)
qed

lemma flags_frame [simp]:
  "carriers (c\<lparr>rz_cache_clearing := b\<rparr>) = carriers c" "work_ok (c\<lparr>rz_cache_clearing := b\<rparr>) = work_ok c"
  "carriers (c\<lparr>rz_ana_updating := b\<rparr>) = carriers c" "work_ok (c\<lparr>rz_ana_updating := b\<rparr>) = work_ok c"
  by (simp_all add: carriers_def work_ok_def awaits_disconnect_def)

lemma flags_live:
  assumes i: "reset_inv c" and d: "\<not> rz_destruct c"
  shows "reset_inv (c\<lparr>rz_cache_clearing := b\<rparr>)" and "reset_inv (c\<lparr>rz_ana_updating := b\<rparr>)"
  using i d by (simp_all add: reset_inv_def frame_inv_def can_be_unregistered_def)

lemma caches_inv: "reset_inv c \<Longrightarrow> reset_inv (clear_io_path_caches env c)"
  by (simp add: clear_io_path_caches_def rctrlr_available_def flags_live)

lemma ana_read_inv: "reset_inv c \<Longrightarrow> reset_inv (read_ana_log env c)"
  by (simp add: read_ana_log_def rctrlr_available_def flags_live)

lemma unregistered_flags:
  assumes i: "reset_inv c" and u: "rz_unregistered c"
  shows "rz_destruct c \<and> rz_ref c = 0 \<and> \<not> rz_resetting c \<and> \<not> rz_ana_updating c \<and> \<not> rz_cache_clearing c \<and>
     \<not> rz_delay_timer c \<and> rz_work c = [] \<and> \<not> rz_poller c"
proof -
  have "\<not> rz_resetting c" using i u by (simp add: reset_inv_def frame_inv_def can_be_unregistered_def)
  then show ?thesis
    using resetting_one(2) [OF i] i u by (simp add: reset_inv_def frame_inv_def can_be_unregistered_def)
qed

lemma release_inv:
  assumes i: "reset_inv c" and r: "rz_ref c > (if rz_destruct c then 0 else 1)"
  shows "\<exists>c'. release_ctrlr c = Inr c' \<and> reset_inv c'"
proof -
  have u: "\<not> rz_unregistered c" using unregistered_flags [OF i] r by auto
  show ?thesis
    unfolding release_ctrlr_def Let_def
    by (rule flag_inv [where r = "rz_ref c - 1" and b = "rz_destruct c" and an = "rz_ana_updating c"
          and cc = "rz_cache_clearing c", OF i u]) (use r in \<open>auto split: if_splits\<close>)
qed

lemma delete_inv:
  assumes i: "reset_inv c" and u: "\<not> rz_unregistered c"
  shows "\<exists>c'. delete_ctrlr c = Inr c' \<and> reset_inv c'"
proof (cases "rz_destruct c")
  case True
  then show ?thesis using i by (simp add: delete_ctrlr_def)
next
  case False
  let ?c = "c\<lparr>rz_destruct := True, rz_ref := rz_ref c - 1\<rparr>"
  have "\<exists>c'. (if can_be_unregistered ?c then unregister_ctrlr ?c else Inr ?c) = Inr c' \<and> reset_inv c'"
    by (rule flag_inv [where r = "rz_ref c - 1" and b = True and an = "rz_ana_updating c"
          and cc = "rz_cache_clearing c", OF i u], rule reset_ctrlr.equality) simp_all
  then show ?thesis
    using False by (auto simp: delete_ctrlr_def release_ctrlr_def Let_def simp del: One_nat_def split: if_splits)
qed

lemma ana_done_inv:
  assumes i: "reset_inv c" and a: "rz_ana_updating c"
  shows "\<exists>c'. ana_log_done env c = Inr c' \<and> reset_inv c'"
proof -
  have u: "\<not> rz_unregistered c" using unregistered_flags [OF i] a by auto
  let ?c = "c\<lparr>rz_ana_updating := False\<rparr>"
  have "\<exists>c''. (if can_be_unregistered ?c then unregister_ctrlr ?c else Inr ?c) = Inr c'' \<and> reset_inv c''"
    by (rule flag_inv [where r = "rz_ref c" and b = "rz_destruct c" and an = False
          and cc = "rz_cache_clearing c", OF i u]) (use i in \<open>auto simp: reset_inv_def frame_inv_def\<close>)
  then show ?thesis
    using caches_inv [of ?c env] by (auto simp: ana_log_done_def Let_def split: if_splits)
qed

lemma caches_done_inv:
  assumes i: "reset_inv c" and a: "rz_cache_clearing c"
  shows "\<exists>c'. cache_clearing_done c = Inr c' \<and> reset_inv c'"
proof -
  have u: "\<not> rz_unregistered c" using unregistered_flags [OF i] a by auto
  show ?thesis
    unfolding cache_clearing_done_def Let_def
    by (rule flag_inv [where r = "rz_ref c" and b = "rz_destruct c" and an = "rz_ana_updating c"
          and cc = False, OF i u]) (use i in \<open>auto simp: reset_inv_def frame_inv_def\<close>)
qed

lemma get_inv: "reset_inv c \<Longrightarrow> \<not> rz_unregistered c \<Longrightarrow> rz_ref c > 0 \<Longrightarrow> reset_inv (c\<lparr>rz_ref := rz_ref c + 1\<rparr>)"
  by (simp add: reset_inv_def frame_inv_def carriers_def work_ok_def awaits_disconnect_def can_be_unregistered_def)

lemma when_it_can_inv:
  "reset_inv c \<Longrightarrow> (b \<Longrightarrow> \<exists>c'. r = Inr c' \<and> reset_inv c') \<Longrightarrow> \<exists>c'. when_it_can b c r = Inr c' \<and> reset_inv c'"
  by (cases b) (simp_all add: when_it_can_def)

lemma work_inv:
  assumes i: "reset_inv c" and n: "n < length (rz_work c)"
    and d: "case rz_work c ! n of WkPending _ _ \<Rightarrow> rv_disconnect env = 0 | _ \<Rightarrow> True"
  shows "\<exists>c'. work_step env (rz_work c ! n) (c\<lparr>rz_work := remove_nth n (rz_work c)\<rparr>) = Inr c' \<and> reset_inv c'"
proof (cases "is_wait (rz_work c ! 0)")
  case True
  then obtain k a where w: "rz_work c ! 0 = WkDestroyWait k a" by (auto simp: is_wait_def split: reset_work.splits)
  have e: "rz_work c = [WkDestroyWait k a]" and z: "n = 0" using work_moving(1,2) [OF i n] w by simp_all
  have "add_work (WkDestroyWait k a) (c\<lparr>rz_work := []\<rparr>) = c"
    by (rule reset_ctrlr.equality) (simp_all add: add_work_def e)
  then show ?thesis using i by (simp add: e z remove_nth_def work_step_def)
next
  case False
  show ?thesis
    by (rule moving_work [OF work_moving(4) [OF i n False]]) (use False d work_moving(1) [OF i n] in simp_all)
qed

lemma reset_step_inv:
  assumes i: "reset_inv c" and k: "calm c ee"
  shows "\<exists>c'. reset_step c ee = Inr c' \<and> reset_inv c'"
proof -
  obtain env e where ee: "ee = (env, e)" by (cases ee)
  note one [simp] = ee reset_step_def Let_def
  note rule = when_it_can_inv [OF i]
  show ?thesis
  proof (cases e)
    case (RsResetIo h q)
    show ?thesis by (simp add: RsResetIo) (rule rule, use i k RsResetIo request_inv(1) in \<open>simp add: calm_def\<close>)
  next
    case (RsResetRpc q)
    show ?thesis by (simp add: RsResetRpc) (rule rule, use i k RsResetRpc request_inv(2) in \<open>simp add: calm_def\<close>)
  next
    case (RsFailover r)
    show ?thesis by (simp add: RsFailover) (rule rule, use i k RsFailover failover_inv in \<open>simp add: calm_def\<close>)
  next
    case (RsWork n)
    show ?thesis
    proof (cases "rz_unregistered c")
      case True
      then show ?thesis using i unregistered_flags [OF i] by (simp add: RsWork when_it_can_def)
    next
      case False
      then show ?thesis
        by (simp add: RsWork) (rule rule, use i k RsWork work_inv in \<open>simp add: calm_def\<close>)
    qed
  next
    case (RsQpairGone h)
    show ?thesis by (simp add: RsQpairGone) (rule rule, use i k RsQpairGone qpair_gone_inv in \<open>simp add: calm_def\<close>)
  next
    case (RsAdminFails x)
    show ?thesis by (simp add: RsAdminFails) (rule rule, use i k RsAdminFails admin_inv in \<open>simp add: calm_def\<close>)
  next
    case RsReconnectPoll
    show ?thesis
      using i unregistered_flags [OF i] poll_inv [OF i] by (auto simp: RsReconnectPoll when_it_can_def)
  next
    case RsDelayTimer
    show ?thesis by (simp add: RsDelayTimer) (rule rule, use i delay_inv in simp)
  next
    case RsDelete
    show ?thesis by (simp add: RsDelete) (rule rule, use i delete_inv in simp)
  next
    case RsGet
    show ?thesis by (simp add: RsGet) (rule rule, use i get_inv in simp)
  next
    case RsRelease
    show ?thesis
      unfolding one RsRelease prod.case reset_event.case by (rule rule) (rule release_inv [OF i])
  next
    case RsReadAna
    show ?thesis by (simp add: RsReadAna) (rule rule, use i ana_read_inv in simp)
  next
    case RsAnaDone
    show ?thesis by (simp add: RsAnaDone) (rule rule, use i ana_done_inv in simp)
  next
    case RsClearCaches
    show ?thesis by (simp add: RsClearCaches) (rule rule, use i caches_inv in simp)
  next
    case RsCachesDone
    show ?thesis by (simp add: RsCachesDone) (rule rule, use i caches_done_inv in simp)
  qed
qed

interpretation resets: guarded_stepper reset_step calm reset_inv
proof
  fix c c' :: reset_ctrlr and ee
  assume "reset_inv c" "calm c ee" "reset_step c ee = Inr c'"
  with reset_step_inv [of c ee] show "reset_inv c'" by auto
qed

lemma new_reset_inv: "trids \<noteq> [] \<Longrightarrow> reset_inv (new_reset_ctrlr trids fabrics loss delay fast n)"
  by (cases trids)
     (simp_all add: new_reset_ctrlr_def reset_inv_def frame_inv_def work_ok_def carriers_def awaits_disconnect_def
      can_be_unregistered_def)

text \<open>C3. Under three conditions on what comes from outside (\<open>calm\<close>): no reset or failover is asked for in the
  middle of the disconnection that precedes a delayed reconnection, the NVMe library does not refuse that
  disconnection, and while a reset waits for a disconnection the admin queue fails only because of it (with
  \<open>-ENXIO\<close>). Then exactly one thing carries a reset on as long as one is in progress, and nothing otherwise; a reset and a delayed reconnection exclude each other; the timer
  runs exactly while the reconnection is delayed; the controller is connected to the first of its
  addresses; it is taken away exactly when it is to be destroyed, nothing refers to it and no reset,
  no reading of the ANA log page and no clearing of caches is going on; and no next event finds it freed or without address.\<close>

theorem one_reset_at_a_time:
  assumes "trids \<noteq> []"
    and "guarded_reach reset_step calm (new_reset_ctrlr trids fabrics loss delay fast n) c"
  shows "length (rz_work c) + of_bool (rz_poller c) + of_bool (awaits_disconnect c) = (of_bool (rz_resetting c) :: nat) \<and>
    \<not> (rz_resetting c \<and> rz_delayed c) \<and>
    (rz_delay_timer c \<longleftrightarrow> rz_delayed c \<and> \<not> rz_unregistered c) \<and>
    rz_trids c \<noteq> [] \<and> rz_active c = pi_trid (hd (rz_trids c)) \<and>
    (rz_unregistered c \<longleftrightarrow> rz_destruct c \<and> rz_ref c = 0 \<and> \<not> rz_resetting c \<and> \<not> rz_ana_updating c \<and> \<not> rz_cache_clearing c) \<and>
    (\<forall>ee. calm c ee \<longrightarrow> (\<exists>c'. reset_step c ee = Inr c'))"
proof -
  have i: "reset_inv c" by (rule resets.reach_inv [OF assms(2) new_reset_inv [OF assms(1)]])
  then have s: "\<forall>ee. calm c ee \<longrightarrow> (\<exists>c'. reset_step c ee = Inr c')" using reset_step_inv [OF i] by blast
  have f: "frame_inv c" and n: "carriers c = of_bool (rz_resetting c)" using i by (simp_all add: reset_inv_def)
  show ?thesis
    using f n s unfolding frame_inv_def carriers_def can_be_unregistered_def by blast
qed

section \<open>Requests are answered once\<close>

definition requests_of :: "reset_ctrlr \<Rightarrow> nat multiset" where
  "requests_of c = mset (map fst (rz_done c)) + (\<Sum>h\<leftarrow>rz_chans c. mset (rh_pending h)) +
     (case rz_cb c of None \<Rightarrow> {#} | Some i \<Rightarrow> {#i#})"

text \<open>The requests that a list of events brings in.\<close>

definition request_of :: "reset_ctrlr \<Rightarrow> reset_env \<times> reset_event \<Rightarrow> nat multiset" where
  "request_of c ee =
     (case snd ee of
        RsResetIo k i \<Rightarrow> if \<not> rz_unregistered c \<and> k < length (rz_chans c) then {#i#} else {#}
      | RsResetRpc i \<Rightarrow> if \<not> rz_unregistered c then {#i#} else {#}
      | _ \<Rightarrow> {#})"

fun requests_in :: "reset_ctrlr \<Rightarrow> (reset_env \<times> reset_event) list \<Rightarrow> nat multiset" where
  "requests_in c [] = {#}"
| "requests_in c (ee # es) =
     request_of c ee + (case reset_step c ee of Inl _ \<Rightarrow> {#} | Inr c' \<Rightarrow> requests_in c' es)"

definition cb_ok :: "reset_ctrlr \<Rightarrow> bool" where
  "cb_ok c \<longleftrightarrow> (rz_resetting c \<or> rz_cb c = None)"

definition same_requests :: "reset_ctrlr \<Rightarrow> reset_ctrlr \<Rightarrow> bool" where
  "same_requests c c' \<longleftrightarrow> requests_of c' = requests_of c \<and> (cb_ok c \<longrightarrow> cb_ok c')"

lemma pending_update:
  "k < length hs \<Longrightarrow> (\<Sum>h\<leftarrow>hs[k := h']. mset (rh_pending h)) + mset (rh_pending (hs ! k)) =
     (\<Sum>h\<leftarrow>hs. mset (rh_pending h)) + mset (rh_pending h')"
  by (induction hs arbitrary: k) (auto simp: less_Suc_eq_0_disj ac_simps)

lemma pending_update_same:
  "rh_pending h' = rh_pending (hs ! k) \<Longrightarrow>
     (\<Sum>h\<leftarrow>hs[k := h']. mset (rh_pending h)) = (\<Sum>h\<leftarrow>hs. mset (rh_pending h))"
  using pending_update [of k hs h'] by (cases "k < length hs") (auto simp: list_update_beyond)

lemma fields_same:
  "rz_done c' = rz_done c \<Longrightarrow> rz_chans c' = rz_chans c \<Longrightarrow> rz_cb c' = rz_cb c \<Longrightarrow>
   rz_resetting c \<longrightarrow> rz_resetting c' \<Longrightarrow> same_requests c c'"
  by (auto simp: same_requests_def requests_of_def cb_ok_def)

lemma unregister_same: "unregister_ctrlr c = Inr c' \<Longrightarrow> same_requests c c'"
  by (auto simp: unregister_ctrlr_def split: if_splits intro!: fields_same)

lemma same_trans: "same_requests a b \<Longrightarrow> same_requests b c \<Longrightarrow> same_requests a c"
  by (auto simp: same_requests_def)

lemma release_same: "release_ctrlr c = Inr c' \<Longrightarrow> same_requests c c'"
  using same_trans [OF fields_same unregister_same, of "c\<lparr>rz_ref := rz_ref c - 1\<rparr>" c c']
  by (auto simp: release_ctrlr_def Let_def split: if_splits intro!: fields_same)

lemma delete_same: "delete_ctrlr c = Inr c' \<Longrightarrow> same_requests c c'"
  using same_trans [OF fields_same release_same, of "c\<lparr>rz_destruct := True\<rparr>" c c']
  by (auto simp: delete_ctrlr_def split: if_splits intro!: fields_same)

lemma failover_trid_fields:
  "failover_trid remove c = Inr c' \<Longrightarrow>
     rz_done c' = rz_done c \<and> rz_chans c' = rz_chans c \<and> rz_cb c' = rz_cb c \<and> rz_resetting c' = rz_resetting c"
  by (auto simp: failover_trid_def Let_def split: list.splits)

lemma disconnect_fields [simp]:
  "rz_done (disconnect_ctrlr env cb c) = rz_done c" "rz_chans (disconnect_ctrlr env cb c) = rz_chans c"
  "rz_cb (disconnect_ctrlr env cb c) = rz_cb c" "rz_resetting (disconnect_ctrlr env cb c) = rz_resetting c"
  by (simp_all add: disconnect_ctrlr_def reset_complete_def add_work_def)

lemma disconnect_same: "same_requests c (disconnect_ctrlr env cb c)"
  by (rule fields_same) simp_all

lemma failover_same: "failover env remove c = Inr c' \<Longrightarrow> same_requests c c'"
  by (rule fields_same)
     (auto simp: failover_def start_reset_def add_work_def bindR_eq_Inr dest!: failover_trid_fields split: if_splits)

lemma finish_same:
  assumes "finish_reset env s c = Inr c'"
  shows "same_requests c c'"
proof -
  obtain p rest where t: "rz_trids c = p # rest" using assms by (cases "rz_trids c") (simp_all add: finish_reset_def)
  define c1 where "c1 = c\<lparr>rz_cb := None, rz_resetting := False, rz_trids := p\<lparr>pi_failed := \<not> s\<rparr> # rest\<rparr>"
  obtain op c2 where k: "check_op_after_reset env s c1 = Inr (op, c2)"
    and r: "(case op of OpCompletePendingDestruct \<Rightarrow> unregister_ctrlr (reset_done (rz_cb c) s c2)
        | OpDestruct \<Rightarrow> delete_ctrlr (reset_done (rz_cb c) s c2)
        | OpDelayedReconnect \<Rightarrow> Inr (disconnect_ctrlr env CbStartDelay (reset_done (rz_cb c) s c2))
        | OpNone \<Rightarrow> Inr (reset_done (rz_cb c) s c2)) = Inr c'"
    using assms t by (auto simp: finish_reset_def c1_def [symmetric] Let_def bindR_eq_Inr)
  have "rz_done c2 = rz_done c1 \<and> rz_chans c2 = rz_chans c1 \<and> rz_cb c2 = rz_cb c1 \<and> rz_resetting c2 = rz_resetting c1"
    using k by (auto simp: check_op_after_reset_def Let_def bindR_eq_Inr dest!: failover_trid_fields split: if_splits)
  then have "same_requests c (reset_done (rz_cb c) s c2)"
    by (auto simp: same_requests_def requests_of_def cb_ok_def c1_def reset_done_def split: option.splits)
  moreover have "same_requests (reset_done (rz_cb c) s c2) c'"
    using r by (auto simp: disconnect_same dest: unregister_same delete_same split: op_after_reset.splits intro: fields_same)
  ultimately show ?thesis by (rule same_trans)
qed

lemma work_same:
  assumes "work_step env w c = Inr c'"
  shows "same_requests c c'"
proof (cases w)
  case (WkPending k s)
  let ?c = "c\<lparr>rz_done := rz_done c @ map (\<lambda>i. (i, s)) (rh_pending (rz_chans c ! k)),
               rz_chans := (rz_chans c)[k := (rz_chans c ! k)\<lparr>rh_pending := []\<rparr>]\<rparr>"
  have "same_requests c (add_work (WkPending (Suc k) s) ?c)" if "k < length (rz_chans c)"
    using pending_update [OF that, of "(rz_chans c ! k)\<lparr>rh_pending := []\<rparr>"]
    by (simp add: same_requests_def requests_of_def cb_ok_def add_work_def comp_def ac_simps)
  then show ?thesis
    using assms WkPending finish_same by (auto simp: work_step_def split: if_splits)
next
  case (WkDestroyWait k a)
  then show ?thesis using assms by (auto simp: work_step_def add_work_def intro!: fields_same)
next
  case WkReset
  then show ?thesis
    using assms
    by (auto simp: work_step_def do_reset_def reset_destroy_qpairs_def add_work_def intro!: fields_same)
next
  case (WkDestroy k a)
  then show ?thesis
    using assms
    by (auto simp: work_step_def qpairs_destroyed_def reconnect_ctrlr_def add_work_def reset_complete_def
        same_requests_def requests_of_def cb_ok_def pending_update_same split: if_splits after_destroy.splits)
next
  case (WkCreate k)
  then show ?thesis
    using assms
    by (auto simp: work_step_def add_work_def reset_complete_def same_requests_def requests_of_def cb_ok_def
        pending_update_same split: if_splits)
qed

lemma qpair_gone_same: "qpair_disconnected env k c = Inr c' \<Longrightarrow> same_requests c c'"
proof -
  assume r: "qpair_disconnected env k c = Inr c'"
  let ?c = "c\<lparr>rz_chans := (rz_chans c)[k := (rz_chans c ! k)\<lparr>rh_qpair := False, rh_reset_iter := False\<rparr>]\<rparr>"
  have "same_requests c ?c"
    by (simp add: same_requests_def requests_of_def cb_ok_def pending_update_same)
  moreover have "same_requests ?c c'"
    using r failover_same [of env False ?c c'] by (auto simp: qpair_disconnected_def Let_def split: if_splits intro: fields_same)
  ultimately show ?thesis by (rule same_trans)
qed

lemma admin_same: "admin_poll_failed env x c = Inr c' \<Longrightarrow> same_requests c c'"
proof -
  assume r: "admin_poll_failed env x c = Inr c'"
  have d: "same_requests c1 (disconnected env cb c1)" for cb c1
    by (cases cb) (auto simp: disconnected_def reset_destroy_qpairs_def add_work_def reconnect_ctrlr_def
        start_delay_timer_def intro!: fields_same)
  have "same_requests c (c\<lparr>rz_disc_cb := None\<rparr>)" by (rule fields_same) simp_all
  moreover have "same_requests (c\<lparr>rz_disc_cb := None\<rparr>) c'"
    using r d failover_same [of env False "c\<lparr>rz_disc_cb := None\<rparr>" c']
    by (auto simp: admin_poll_failed_def Let_def split: option.splits if_splits)
  ultimately show ?thesis by (rule same_trans)
qed

lemma flags_same:
  shows "ana_log_done env c = Inr c' \<Longrightarrow> same_requests c c'" and "cache_clearing_done c = Inr c' \<Longrightarrow> same_requests c c'"
proof -
  have a: "same_requests c (c\<lparr>rz_ana_updating := False\<rparr>)" "same_requests c (c\<lparr>rz_cache_clearing := False\<rparr>)"
    by (rule fields_same; simp)+
  have k: "same_requests c1 (clear_io_path_caches env c1)" for c1
    by (auto simp: clear_io_path_caches_def intro!: fields_same)
  show "ana_log_done env c = Inr c' \<Longrightarrow> same_requests c c'"
    by (rule same_trans [OF a(1)]) (auto simp: ana_log_done_def Let_def k split: if_splits dest: unregister_same)
  show "cache_clearing_done c = Inr c' \<Longrightarrow> same_requests c c'"
    by (rule same_trans [OF a(2)])
       (auto simp: cache_clearing_done_def Let_def split: if_splits dest: unregister_same intro: fields_same)
qed

lemma request_adds:
  assumes "cb_ok c"
  shows "k < length (rz_chans c) \<Longrightarrow> requests_of (reset_io env k i c) = requests_of c + {#i#} \<and> cb_ok (reset_io env k i c)"
    and "requests_of (reset_rpc env i c) = requests_of c + {#i#} \<and> cb_ok (reset_rpc env i c)"
proof -
  show "requests_of (reset_io env k i c) = requests_of c + {#i#} \<and> cb_ok (reset_io env k i c)"
    if "k < length (rz_chans c)"
    using assms pending_update [OF that, of "(rz_chans c ! k)\<lparr>rh_pending := rh_pending (rz_chans c ! k) @ [i]\<rparr>"]
    by (cases "rz_resetting c")
       (simp_all add: reset_io_def request_reset_def start_reset_def add_work_def add_pending_def requests_of_def cb_ok_def)
  show "requests_of (reset_rpc env i c) = requests_of c + {#i#} \<and> cb_ok (reset_rpc env i c)"
    using assms by (auto simp: reset_rpc_def request_reset_def start_reset_def add_work_def requests_of_def cb_ok_def)
qed

lemma when_it_can_same:
  "when_it_can b c r = Inr c' \<Longrightarrow> (b \<Longrightarrow> r = Inr c' \<Longrightarrow> same_requests c c') \<Longrightarrow> same_requests c c'"
  by (cases b) (auto simp: when_it_can_def intro: fields_same)

lemma step_same:
  assumes "reset_step c (env, e) = Inr c'" and "\<And>k i. e \<noteq> RsResetIo k i" and "\<And>i. e \<noteq> RsResetRpc i"
  shows "same_requests c c'"
proof (cases e)
  case (RsWork n)
  have "same_requests c (c\<lparr>rz_work := remove_nth n (rz_work c)\<rparr>)" by (rule fields_same) simp_all
  then show ?thesis
    using assms(1) RsWork
    by (auto simp: reset_step_def Let_def elim!: when_it_can_same split: if_splits dest!: work_same intro: same_trans)
next
  case RsReconnectPoll
  have "same_requests c (reconnect_poll env c)"
    by (rule fields_same) (simp_all add: reconnect_poll_def Let_def add_work_def reset_complete_def)
  then show ?thesis
    using assms(1) RsReconnectPoll by (auto simp: reset_step_def elim!: when_it_can_same split: if_splits)
next
  case RsDelayTimer
  have "same_requests c (delay_expired c)"
    by (rule fields_same) (simp_all add: delay_expired_def Let_def reconnect_ctrlr_def)
  then show ?thesis
    using assms(1) RsDelayTimer by (auto simp: reset_step_def elim!: when_it_can_same)
qed (use assms in \<open>auto simp: reset_step_def read_ana_log_def clear_io_path_caches_def
      elim!: when_it_can_same intro: failover_same qpair_gone_same admin_same delete_same release_same flags_same fields_same\<close>)

lemma step_requests:
  assumes "reset_step c ee = Inr c'" and "cb_ok c"
  shows "requests_of c' = requests_of c + request_of c ee \<and> cb_ok c'"
proof -
  obtain env e where ee: "ee = (env, e)" by (cases ee)
  show ?thesis
  proof (cases "(\<exists>k i. e = RsResetIo k i) \<or> (\<exists>i. e = RsResetRpc i)")
    case True
    then consider (io) k i where "e = RsResetIo k i" | (rpc) i where "e = RsResetRpc i" by blast
    then show ?thesis
    proof cases
      case io
      then show ?thesis
        using assms request_adds(1) [OF assms(2), of k env i]
        by (cases "\<not> rz_unregistered c \<and> k < length (rz_chans c)")
           (simp_all add: ee reset_step_def request_of_def when_it_can_def Let_def split: if_splits)
    next
      case rpc
      then show ?thesis
        using assms request_adds(2) [OF assms(2), of env i]
        by (cases "rz_unregistered c") (simp_all add: ee reset_step_def request_of_def when_it_can_def Let_def)
    qed
  next
    case False
    then have "request_of c ee = {#}" by (auto simp: request_of_def ee split: reset_event.split)
    then show ?thesis using step_same [of c env e c'] assms False by (auto simp: ee same_requests_def)
  qed
qed

text \<open>C5. In every order of events, even those in which the code goes wrong otherwise, each request to
  reset is kept in exactly one place: answered, waiting on its channel, or with the reset that it started.\<close>

theorem reset_requests_conserved:
  assumes "runR reset_step (new_reset_ctrlr trids fabrics loss delay fast n) es = Inr c"
  shows "mset (map fst (rz_done c)) + (\<Sum>h\<leftarrow>rz_chans c. mset (rh_pending h)) +
      (case rz_cb c of None \<Rightarrow> {#} | Some i \<Rightarrow> {#i#}) = requests_in (new_reset_ctrlr trids fabrics loss delay fast n) es \<and>
    (rz_resetting c \<or> rz_cb c = None)"
proof -
  have "requests_of t = requests_of s + requests_in s fs \<and> cb_ok t" if "runR reset_step s fs = Inr t" "cb_ok s" for s fs t
    using that
  proof (induction fs arbitrary: s)
    case Nil
    then show ?case by simp
  next
    case (Cons ee fs)
    from Cons.prems(1) obtain u where u: "reset_step s ee = Inr u" and r: "runR reset_step u fs = Inr t"
      by (auto simp: bindR_eq_Inr)
    from step_requests [OF u Cons.prems(2)] Cons.IH [OF r] u show ?case by (simp add: ac_simps)
  qed
  from this [OF assms] have "requests_of c = requests_of (new_reset_ctrlr trids fabrics loss delay fast n) +
      requests_in (new_reset_ctrlr trids fabrics loss delay fast n) es \<and> cb_ok c"
    by (simp add: cb_ok_def new_reset_ctrlr_def)
  moreover have "requests_of (new_reset_ctrlr trids fabrics loss delay fast n) = {#}"
    by (induction n) (simp_all add: requests_of_def new_reset_ctrlr_def)
  ultimately show ?thesis by (simp add: requests_of_def cb_ok_def)
qed

section \<open>A reset ends\<close>

text \<open>The steps that are left, at most, when the queue pairs disconnect and the controller comes back.\<close>

definition steps_left :: "reset_ctrlr \<Rightarrow> nat" where
  "steps_left c =
     (let n = length (rz_chans c) in
      case rz_work c of
        w # _ \<Rightarrow>
          (case w of
             WkReset \<Rightarrow> 4 * n + 9
           | WkDestroy k ThenReset \<Rightarrow> 2 * n + 7 + 2 * (n - k)
           | WkDestroyWait k ThenReset \<Rightarrow> 2 * n + 6 + 2 * (n - k)
           | WkDestroy k ThenFail \<Rightarrow> n + 2 + 2 * (n - k)
           | WkDestroyWait k ThenFail \<Rightarrow> n + 1 + 2 * (n - k)
           | WkCreate k \<Rightarrow> n + 2 + (n - k)
           | WkPending k _ \<Rightarrow> 1 + (n - k))
      | [] \<Rightarrow> if rz_poller c then 2 * n + 4 else if rz_disc_cb c = Some CbDestroyQpairs then 4 * n + 8 else 2 * n + 5)"

definition next_event :: "reset_ctrlr \<Rightarrow> reset_event" where
  "next_event c =
     (case rz_work c of
        WkDestroyWait k _ # _ \<Rightarrow> RsQpairGone k
      | _ # _ \<Rightarrow> RsWork 0
      | [] \<Rightarrow> if rz_poller c then RsReconnectPoll else RsAdminFails True)"

definition answers_well :: "reset_env \<Rightarrow> bool" where
  "answers_well env \<longleftrightarrow> rv_disconnect env = 0 \<and> rv_reconnect env = 0 \<and> rv_create env = 0"

lemma taken_away_fields:
  "unregister_ctrlr c = Inr c' \<Longrightarrow> rz_chans c' = rz_chans c \<and> rz_resetting c' = rz_resetting c"
  "release_ctrlr c = Inr c' \<Longrightarrow> rz_chans c' = rz_chans c \<and> rz_resetting c' = rz_resetting c"
  "delete_ctrlr c = Inr c' \<Longrightarrow> rz_chans c' = rz_chans c \<and> rz_resetting c' = rz_resetting c"
  by (auto simp: unregister_ctrlr_def release_ctrlr_def delete_ctrlr_def Let_def split: if_splits)

lemma finish_ends:
  assumes "finish_reset env s c = Inr c'"
  shows "rz_chans c' = rz_chans c \<and> \<not> rz_resetting c'"
proof -
  obtain p rest where t: "rz_trids c = p # rest" using assms by (cases "rz_trids c") (simp_all add: finish_reset_def)
  define c1 where "c1 = c\<lparr>rz_cb := None, rz_resetting := False, rz_trids := p\<lparr>pi_failed := \<not> s\<rparr> # rest\<rparr>"
  obtain op c2 where k: "check_op_after_reset env s c1 = Inr (op, c2)"
    and r: "(case op of OpCompletePendingDestruct \<Rightarrow> unregister_ctrlr (reset_done (rz_cb c) s c2)
        | OpDestruct \<Rightarrow> delete_ctrlr (reset_done (rz_cb c) s c2)
        | OpDelayedReconnect \<Rightarrow> Inr (disconnect_ctrlr env CbStartDelay (reset_done (rz_cb c) s c2))
        | OpNone \<Rightarrow> Inr (reset_done (rz_cb c) s c2)) = Inr c'"
    using assms t by (auto simp: finish_reset_def c1_def [symmetric] Let_def bindR_eq_Inr)
  have "rz_chans c2 = rz_chans c1 \<and> rz_resetting c2 = rz_resetting c1"
    using k by (auto simp: check_op_after_reset_def Let_def bindR_eq_Inr dest!: failover_trid_fields split: if_splits)
  moreover have "rz_chans (reset_done q s c2) = rz_chans c2 \<and> rz_resetting (reset_done q s c2) = rz_resetting c2" for q
    by (simp add: reset_done_def split: option.split)
  moreover have "rz_chans c1 = rz_chans c" "\<not> rz_resetting c1" by (simp_all add: c1_def)
  ultimately show ?thesis
    using r by (auto dest: taken_away_fields split: op_after_reset.splits)
qed

lemma next_work:
  assumes g: "answers_well env" and r: "rz_work c = []" "\<not> rz_poller c" and w: "\<not> is_wait w"
    and s: "work_step env w c = Inr c'"
  shows "length (rz_chans c') = length (rz_chans c) \<and>
    (rz_resetting c' \<longrightarrow> steps_left c' < steps_left (c\<lparr>rz_work := [w]\<rparr>))"
proof (cases w)
  case (WkDestroy k a)
  then show ?thesis
    using g r s
    by (cases a) (auto simp: work_step_def answers_well_def steps_left_def qpairs_destroyed_def reconnect_ctrlr_def
        disconnect_ctrlr_def reset_complete_def add_work_def Let_def split: if_splits)
next
  case (WkPending k v)
  then show ?thesis
    using g r s finish_ends [of env v c c']
    by (auto simp: work_step_def steps_left_def add_work_def Let_def split: if_splits)
qed (use assms in \<open>auto simp: work_step_def answers_well_def steps_left_def do_reset_def reset_destroy_qpairs_def is_wait_def
    disconnect_ctrlr_def reset_complete_def add_work_def Let_def split: if_splits\<close>)

lemma next_progress:
  assumes i: "reset_inv c" and r: "rz_resetting c" and g: "answers_well env"
  shows "calm c (env, next_event c) \<and> (\<exists>c'. reset_step c (env, next_event c) = Inr c' \<and> reset_inv c' \<and>
    length (rz_chans c') = length (rz_chans c) \<and> (rz_resetting c' \<longrightarrow> steps_left c' < steps_left c))"
proof -
  have u: "\<not> rz_unregistered c" and np: "\<not> rz_adminq_paused c" and ns: "rz_disc_cb c \<noteq> Some CbStartDelay"
    using i r by (auto simp: reset_inv_def frame_inv_def can_be_unregistered_def)
  have k: "calm c (env, next_event c)"
    using ns g by (auto simp: calm_def next_event_def answers_well_def split: list.split reset_work.split)
  obtain c' where c': "reset_step c (env, next_event c) = Inr c'" "reset_inv c'" using reset_step_inv [OF i k] by blast
  have "length (rz_chans c') = length (rz_chans c) \<and> (rz_resetting c' \<longrightarrow> steps_left c' < steps_left c)"
  proof (cases "rz_work c")
    case (Cons w ws)
    have n0: "0 < length (rz_work c)" using Cons by simp
    have w: "rz_work c = [w]" and np: "\<not> rz_poller c"
      using work_moving(2) [OF i n0] resetting_one(3) [OF i] Cons by auto
    show ?thesis
    proof (cases "is_wait w")
      case False
      then have "next_event c = RsWork 0" using w by (auto simp: next_event_def is_wait_def split: reset_work.splits)
      then have "work_step env w (c\<lparr>rz_work := []\<rparr>) = Inr c'"
        using c'(1) u w by (simp add: reset_step_def when_it_can_def remove_nth_def)
      moreover have "c\<lparr>rz_work := [w]\<rparr> = c" by (rule reset_ctrlr.equality) (simp_all add: w)
      ultimately show ?thesis using next_work [OF g, of "c\<lparr>rz_work := []\<rparr>" w c'] False np by simp
    next
      case True
      then obtain j a where wj: "w = WkDestroyWait j a" by (auto simp: is_wait_def split: reset_work.splits)
      then have j: "j < length (rz_chans c)" "rh_reset_iter (rz_chans c ! j)" "rh_qpair (rz_chans c ! j)"
        using i w by (auto simp: reset_inv_def work_ok_def)
      then show ?thesis
        using c'(1) u w wj
        by (cases a) (auto simp: next_event_def reset_step_def when_it_can_def qpair_disconnected_def Let_def
            waits_for_def go_on_def steps_left_def)
    qed
  next
    case Nil
    show ?thesis
    proof (cases "rz_poller c")
      case True
      then show ?thesis
        using c'(1) u Nil g
        by (auto simp: next_event_def reset_step_def when_it_can_def reconnect_poll_def loss_timedout_def answers_well_def
            Let_def add_work_def steps_left_def)
    next
      case False
      then have "awaits_disconnect c" using resetting_one(2) [OF i] r Nil by simp
      then show ?thesis
        using c'(1) u np Nil False
        by (auto simp: next_event_def reset_step_def when_it_can_def admin_poll_failed_def awaits_disconnect_def
            disconnected_def reset_destroy_qpairs_def reconnect_ctrlr_def Let_def add_work_def steps_left_def
            split: option.splits disconnected_cb.splits)
    qed
  qed
  then show ?thesis using k c' by blast
qed

lemma steps_left_bound: "reset_inv c \<Longrightarrow> rz_resetting c \<Longrightarrow> steps_left c \<le> 4 * length (rz_chans c) + 9"
  by (auto simp: steps_left_def Let_def split: list.splits reset_work.splits after_destroy.splits)

lemma reset_runs_to_end:
  assumes "reset_inv c" and "rz_resetting c" and g: "answers_well env"
  shows "\<exists>es c'. length es \<le> steps_left c \<and> list_all (\<lambda>ee. fst ee = env) es \<and>
    run_guarded reset_step calm c es = Some c' \<and> \<not> rz_resetting c'"
  using assms(1,2)
proof (induction "steps_left c" arbitrary: c rule: less_induct)
  case less
  obtain c1 where k: "calm c (env, next_event c)" and s: "reset_step c (env, next_event c) = Inr c1" and i: "reset_inv c1"
    and d: "rz_resetting c1 \<Longrightarrow> steps_left c1 < steps_left c"
    using next_progress [OF less.prems g] by blast
  have pos: "steps_left c > 0"
    by (auto simp: steps_left_def Let_def split: list.split reset_work.split after_destroy.split)
  show ?case
  proof (cases "rz_resetting c1")
    case True
    from less.hyps [OF d [OF True] i True] obtain es c' where
      "length es \<le> steps_left c1" "list_all (\<lambda>ee. fst ee = env) es" "run_guarded reset_step calm c1 es = Some c'"
      "\<not> rz_resetting c'" by blast
    then show ?thesis
      using k s d [OF True] by (intro exI [of _ "(env, next_event c) # es"] exI [of _ c']) simp
  next
    case False
    then show ?thesis
      using k s pos by (intro exI [of _ "[(env, next_event c)]"] exI [of _ c1]) simp
  qed
qed

text \<open>C4. A reset that is in progress in a state reached under the conditions of \<open>calm\<close> can always be brought to its
  end, again under \<open>calm\<close>: with at most four steps for each channel and nine more, when the library answers well
  (\<open>answers_well\<close>: the disconnections are not refused, the controller comes back and its queue pairs can be
  created) and the queue pairs and the controller do disconnect, which are events of the run. Without \<open>calm\<close> it need not end: see \<open>lost_callback_hangs_reset\<close>.\<close>

theorem bdev_reset_ends:
  assumes "trids \<noteq> []"
    and "guarded_reach reset_step calm (new_reset_ctrlr trids fabrics loss delay fast n) c"
    and "rz_resetting c" and "answers_well env"
  shows "\<exists>es c'. length es \<le> 4 * length (rz_chans c) + 9 \<and> list_all (\<lambda>ee. fst ee = env) es \<and>
    run_guarded reset_step calm c es = Some c' \<and> \<not> rz_resetting c'"
proof -
  have i: "reset_inv c" by (rule resets.reach_inv [OF assms(2) new_reset_inv [OF assms(1)]])
  from reset_runs_to_end [OF i assms(3,4)] steps_left_bound [OF i assms(3)] show ?thesis
    by (meson order_trans)
qed

section \<open>An example\<close>

definition demo_env :: "u64 \<Rightarrow> int \<Rightarrow> reset_env" where
  "demo_env t rc = \<lparr>rv_now = t, rv_hz = 1, rv_disconnect = 0, rv_reconnect = rc, rv_create = 0, rv_failed = False\<rparr>"

definition demo_reset :: reset_ctrlr where
  "demo_reset = new_reset_ctrlr [\<lparr>pi_trid = 1, pi_failed = False\<rparr>, \<lparr>pi_trid = 2, pi_failed = False\<rparr>] True 10 2 0 2"

definition demo_run :: "(reset_env \<times> reset_event) list \<Rightarrow> reset_ctrlr" where
  "demo_run es = (case run_guarded reset_step calm demo_reset es of Some c \<Rightarrow> c | None \<Rightarrow> demo_reset)"

text \<open>From the request to the poller of the reconnection; the failure of the reconnection; and the waiting
  requests of both channels.\<close>

definition to_poller :: "(reset_env \<times> reset_event) list" where
  "to_poller = map (Pair (demo_env 5 0)) [RsResetIo 0 7, RsWork 0, RsWork 0, RsQpairGone 0, RsWork 0, RsQpairGone 1, RsWork 0, RsAdminFails True]"

definition to_pending :: "(reset_env \<times> reset_event) list" where
  "to_pending = to_poller @ map (Pair (demo_env 5 (- 6))) [RsReconnectPoll, RsWork 0, RsWork 0]"

definition to_delay_start :: "(reset_env \<times> reset_event) list" where
  "to_delay_start = to_pending @ [(demo_env 5 (- 6), RsWork 0)]"

lemma reset_demo_runs:
  "run_guarded reset_step calm demo_reset to_poller = Some (demo_run to_poller)"
  "run_guarded reset_step calm demo_reset to_pending = Some (demo_run to_pending)"
  "run_guarded reset_step calm demo_reset to_delay_start = Some (demo_run to_delay_start)"
proof -
  have "run_guarded reset_step calm demo_reset es \<noteq> None \<Longrightarrow>
      run_guarded reset_step calm demo_reset es = Some (demo_run es)" for es
    by (auto simp: demo_run_def)
  moreover have "run_guarded reset_step calm demo_reset to_poller \<noteq> None"
    "run_guarded reset_step calm demo_reset to_pending \<noteq> None"
    "run_guarded reset_step calm demo_reset to_delay_start \<noteq> None" by code_simp+
  ultimately show
    "run_guarded reset_step calm demo_reset to_poller = Some (demo_run to_poller)"
    "run_guarded reset_step calm demo_reset to_pending = Some (demo_run to_pending)"
    "run_guarded reset_step calm demo_reset to_delay_start = Some (demo_run to_delay_start)" by blast+
qed

lemmas reset_demo_reached = reset_demo_runs [THEN run_guarded_start, unfolded demo_reset_def]

theorem one_reset_at_a_time_witness:
  "rz_poller (demo_run to_poller) \<and> rz_work (demo_run to_poller) = [] \<and> \<not> rz_delayed (demo_run to_poller)"
proof -
  have "rz_poller (demo_run to_poller)" "rz_resetting (demo_run to_poller)" by code_simp+
  then show ?thesis using one_reset_at_a_time [OF _ reset_demo_reached(1)] by simp
qed

theorem bdev_reset_ends_witness:
  "\<exists>es c'. length es \<le> 17 \<and> run_guarded reset_step calm (demo_run to_poller) es = Some c' \<and> \<not> rz_resetting c'"
proof -
  have "rz_resetting (demo_run to_poller)" "length (rz_chans (demo_run to_poller)) = 2" by code_simp+
  moreover have "answers_well (demo_env 5 0)" by code_simp
  ultimately show ?thesis using bdev_reset_ends [OF _ reset_demo_reached(1)] by force
qed

theorem reset_requests_conserved_witness:
  "mset (map fst (rz_done (demo_run to_delay_start))) = {#7#}"
proof -
  have r: "runR reset_step demo_reset to_delay_start = Inr (demo_run to_delay_start)" by code_simp
  have "requests_in demo_reset to_delay_start = {#7#}" "(\<Sum>h\<leftarrow>rz_chans (demo_run to_delay_start). mset (rh_pending h)) = {#}"
    "\<not> rz_resetting (demo_run to_delay_start)"
    by code_simp+
  then show ?thesis
    using reset_requests_conserved [OF r [unfolded demo_reset_def]]
    by (simp add: demo_reset_def split: option.splits)
qed

section \<open>Where it fails\<close>

text \<open>Nothing but a request deletes the controller when the option for its loss is cleared.\<close>

definition kept :: "reset_ctrlr \<Rightarrow> bool" where
  "kept c \<longleftrightarrow> rz_loss_timeout c = 0 \<and> \<not> rz_destruct c"

lemma failover_trid_kept: "failover_trid remove c = Inr c' \<Longrightarrow> kept c' = kept c"
  by (auto simp: failover_trid_def kept_def Let_def split: list.splits)

lemma kept_disconnect [simp]: "kept (disconnect_ctrlr env cb c) = kept c"
  by (simp add: kept_def disconnect_ctrlr_def reset_complete_def add_work_def)

lemma kept_ops:
  assumes "kept c"
  shows "failover env remove c = Inr c' \<Longrightarrow> kept c'" and "release_ctrlr c = Inr c' \<Longrightarrow> kept c'" and "kept (reset_io env k i c)" and "kept (reset_rpc env i c)"
    and "kept (clear_io_path_caches env c)" and "kept (disconnected env cb c)" and "kept (reconnect_poll env c)"
    and "kept (delay_expired c)"
proof -
  show "failover env remove c = Inr c' \<Longrightarrow> kept c'"
    using assms by (auto simp: failover_def bindR_eq_Inr kept_def start_reset_def add_work_def
        dest!: failover_trid_kept split: if_splits)
  show "release_ctrlr c = Inr c' \<Longrightarrow> kept c'"
    using assms by (auto simp: release_ctrlr_def unregister_ctrlr_def kept_def Let_def split: if_splits)
qed (use assms in \<open>auto simp: kept_def reset_complete_def add_work_def reset_io_def reset_rpc_def
    request_reset_def start_reset_def add_pending_def clear_io_path_caches_def disconnected_def reset_destroy_qpairs_def
    reconnect_ctrlr_def start_delay_timer_def reconnect_poll_def Let_def delay_expired_def split: disconnected_cb.split\<close>)

lemma kept_finish:
  assumes "finish_reset env s c = Inr c'" and "kept c"
  shows "kept c'"
proof -
  obtain p rest where t: "rz_trids c = p # rest" using assms by (cases "rz_trids c") (simp_all add: finish_reset_def)
  define c1 where "c1 = c\<lparr>rz_cb := None, rz_resetting := False, rz_trids := p\<lparr>pi_failed := \<not> s\<rparr> # rest\<rparr>"
  have k1: "kept c1" using assms(2) by (simp add: kept_def c1_def)
  then have "check_op_after_reset env s c1 = Inr (op, c2) \<Longrightarrow>
      kept c2 \<and> (op = OpNone \<or> op = OpDelayedReconnect)" for op c2
    by (auto simp: check_op_after_reset_def can_be_unregistered_def loss_timedout_def kept_def bindR_eq_Inr Let_def
        dest!: failover_trid_kept split: if_splits)
  moreover have "kept (reset_done q s c2) = kept c2" for q c2 by (simp add: reset_done_def kept_def split: option.split)
  ultimately show ?thesis
    using assms(1) t
    by (auto simp: finish_reset_def c1_def [symmetric] bindR_eq_Inr Let_def)
qed

lemma kept_work: "work_step env w c = Inr c' \<Longrightarrow> kept c \<Longrightarrow> kept c'"
  by (cases w)
     (auto simp: work_step_def do_reset_def reset_destroy_qpairs_def qpairs_destroyed_def reconnect_ctrlr_def
      disconnect_ctrlr_def reset_complete_def add_work_def kept_def split: if_splits after_destroy.splits
      dest: kept_finish [unfolded kept_def])

lemma kept_step:
  assumes "reset_step c (env, e) = Inr c'" and "kept c" and "e \<noteq> RsDelete"
  shows "kept c'"
proof (cases e)
  case (RsWork n)
  then show ?thesis
    using assms kept_work [of env "rz_work c ! n" "c\<lparr>rz_work := remove_nth n (rz_work c)\<rparr>" c']
    by (auto simp: reset_step_def when_it_can_def kept_def split: if_splits)
next
  case (RsQpairGone k)
  then show ?thesis
    using assms kept_ops(1) [of "c\<lparr>rz_chans := (rz_chans c)[k := (rz_chans c ! k)\<lparr>rh_qpair := False, rh_reset_iter := False\<rparr>]\<rparr>"
        env False c']
    by (auto simp: reset_step_def when_it_can_def qpair_disconnected_def kept_def Let_def split: if_splits)
next
  case (RsAdminFails x)
  have "kept (c\<lparr>rz_disc_cb := None\<rparr>)" using assms(2) by (simp add: kept_def)
  from kept_ops(1,6) [OF this] show ?thesis
    using assms RsAdminFails
    by (auto simp: reset_step_def when_it_can_def admin_poll_failed_def Let_def split: if_splits option.splits)
next
  case (RsFailover r)
  then show ?thesis
    using assms kept_ops(1) [OF assms(2), of env r] by (auto simp: reset_step_def when_it_can_def split: if_splits)
next
  case RsRelease
  have "release_ctrlr c = Inr c' \<Longrightarrow> kept c'" by (rule kept_ops(2) [OF assms(2)])
  moreover have "c' = c \<or> release_ctrlr c = Inr c'"
    using assms(1) RsRelease by (auto simp: reset_step_def when_it_can_def split: if_splits)
  ultimately show ?thesis using assms(2) by auto
next
  case RsAnaDone
  have "kept (c\<lparr>rz_ana_updating := False\<rparr>)" using assms(2) by (simp add: kept_def)
  from kept_ops(5) [OF this, of env] assms RsAnaDone show ?thesis
    by (auto simp: reset_step_def when_it_can_def ana_log_done_def can_be_unregistered_def kept_def Let_def split: if_splits)
next
  case RsCachesDone
  then show ?thesis
    using assms
    by (auto simp: reset_step_def when_it_can_def cache_clearing_done_def can_be_unregistered_def kept_def Let_def split: if_splits)
next
  case RsReconnectPoll
  then show ?thesis
    using assms kept_ops(7) [OF assms(2), of env] by (auto simp: reset_step_def when_it_can_def split: if_splits)
next
  case (RsResetIo k i)
  then show ?thesis
    using assms kept_ops(3) [OF assms(2), of env k i] by (auto simp: reset_step_def when_it_can_def split: if_splits)
next
  case (RsResetRpc i)
  then show ?thesis
    using assms kept_ops(4) [OF assms(2), of env i] by (auto simp: reset_step_def when_it_can_def split: if_splits)
next
  case RsClearCaches
  then show ?thesis
    using assms kept_ops(5) [OF assms(2), of env] by (auto simp: reset_step_def when_it_can_def split: if_splits)
next
  case RsDelayTimer
  then show ?thesis
    using assms kept_ops(8) [OF assms(2)] by (auto simp: reset_step_def when_it_can_def split: if_splits)
next
  case RsReadAna
  then show ?thesis using assms by (auto simp: reset_step_def when_it_can_def read_ana_log_def kept_def split: if_splits)
next
  case RsGet
  then show ?thesis using assms by (auto simp: reset_step_def when_it_can_def kept_def split: if_splits)
qed (use assms in simp)

text \<open>C18. The poller of a reconnection clears the limit on the time without a connection
  (\<open>ctrlr_loss_timeout_sec\<close>): however long the controller stays away after that, it is never deleted for it.\<close>

theorem controller_loss_ignored:
  assumes "rz_poller c" and "\<not> rz_destruct c"
    and "runR reset_step c ((env, RsReconnectPoll) # es) = Inr c'"
    and "\<forall>ee \<in> set es. snd ee \<noteq> RsDelete"
  shows "rz_loss_timeout c' = 0 \<and> \<not> rz_destruct c'"
proof -
  have k: "runR reset_step s fs = Inr s' \<Longrightarrow> \<forall>ee \<in> set fs. snd ee \<noteq> RsDelete \<Longrightarrow> kept s \<Longrightarrow> kept s'" for s s' fs
  proof (induction fs arbitrary: s)
    case Nil
    then show ?case by simp
  next
    case (Cons ee fs)
    then obtain u where u: "reset_step s ee = Inr u" "runR reset_step u fs = Inr s'" by (auto simp: bindR_eq_Inr)
    then show ?case using Cons kept_step [of s "fst ee" "snd ee" u] by simp
  qed
  obtain c1 where c1: "reset_step c (env, RsReconnectPoll) = Inr c1" "runR reset_step c1 es = Inr c'"
    using assms(3) by (auto simp: bindR_eq_Inr)
  then have "c1 = reconnect_poll env c" using assms(1) by (auto simp: reset_step_def when_it_can_def split: if_splits)
  then have "kept c1" using assms(2) by (simp add: kept_def reconnect_poll_def Let_def add_work_def reset_complete_def)
  from k [OF c1(2) assms(4) this] show ?thesis by (simp add: kept_def)
qed

text \<open>A million seconds later, with a limit of ten.\<close>

definition long_after :: "(reset_env \<times> reset_event) list" where
  "long_after = map (Pair (demo_env 1000000 (- 6))) [RsWork 0, RsWork 0, RsWork 0, RsAdminFails True, RsDelayTimer, RsReconnectPoll]"

theorem controller_loss_ignored_witness:
  "rz_loss_timeout demo_reset = 10 \<and>
   (\<exists>c'. runR reset_step (demo_run to_poller) ((demo_env 5 (- 6), RsReconnectPoll) # long_after) = Inr c' \<and>
      \<not> rz_destruct c' \<and> rz_resetting c')"
proof -
  define c' where "c' = (case runR reset_step (demo_run to_poller) ((demo_env 5 (- 6), RsReconnectPoll) # long_after) of Inr c \<Rightarrow> c)"
  have d: "case runR reset_step (demo_run to_poller) ((demo_env 5 (- 6), RsReconnectPoll) # long_after) of
      Inl _ \<Rightarrow> False | Inr c \<Rightarrow> rz_resetting c" by code_simp
  have r: "runR reset_step (demo_run to_poller) ((demo_env 5 (- 6), RsReconnectPoll) # long_after) = Inr c'" "rz_resetting c'"
    using d by (auto simp: c'_def split: sum.splits)
  have "\<not> rz_destruct c'"
  proof -
    have "rz_poller (demo_run to_poller)" "\<not> rz_destruct (demo_run to_poller)" by code_simp+
    moreover have "\<forall>ee \<in> set long_after. snd ee \<noteq> RsDelete" by (simp add: long_after_def)
    ultimately show ?thesis using controller_loss_ignored [OF _ _ r(1)] by blast
  qed
  moreover have "rz_loss_timeout demo_reset = 10" by (simp add: demo_reset_def new_reset_ctrlr_def)
  ultimately show ?thesis using r by blast
qed

text \<open>A reset that nothing carries on any more.\<close>

definition hung :: "reset_ctrlr \<Rightarrow> bool" where
  "hung c \<longleftrightarrow> rz_resetting c \<and> rz_work c = [] \<and> \<not> rz_poller c \<and> rz_disc_cb c = None \<and> \<not> rz_delay_timer c \<and> \<not> rz_unregistered c"

lemma hung_failover: "hung c \<Longrightarrow> failover env remove c = Inr c"
  by (simp add: hung_def failover_def)

lemma hung_stays: "hung c \<Longrightarrow> \<not> can_be_unregistered c"
  by (simp add: hung_def can_be_unregistered_def)

lemma hung_release: "hung c \<Longrightarrow> release_ctrlr c = Inr (c\<lparr>rz_ref := rz_ref c - 1\<rparr>)"
  by (simp add: hung_def release_ctrlr_def can_be_unregistered_def Let_def)

lemma hung_step: "hung c \<Longrightarrow> \<exists>c'. reset_step c (env, e) = Inr c' \<and> hung c'"
proof (cases e)
  case (RsQpairGone k)
  assume h: "hung c"
  have q: "hung (c\<lparr>rz_chans := hs\<rparr>)" for hs using h by (simp add: hung_def)
  have "hung (c\<lparr>rz_chans := hs, rz_work := []\<rparr>)" for hs using h by (simp add: hung_def)
  then show ?thesis
    using h RsQpairGone hung_failover [OF q] q
    by (simp add: reset_step_def when_it_can_def qpair_disconnected_def Let_def) (simp add: hung_def)
next
  case (RsAdminFails x)
  assume h: "hung c"
  then have e: "c\<lparr>rz_disc_cb := None\<rparr> = c" by (intro reset_ctrlr.equality) (simp_all add: hung_def)
  then show ?thesis
    using h RsAdminFails hung_failover [OF h]
    by (simp add: reset_step_def when_it_can_def admin_poll_failed_def Let_def) (simp add: hung_def)
next
  case RsDelete
  assume h: "hung c"
  then have "hung (c\<lparr>rz_destruct := True\<rparr>)" by (simp add: hung_def)
  from hung_release [OF this] this h RsDelete show ?thesis
    by (simp add: reset_step_def when_it_can_def delete_ctrlr_def) (simp add: hung_def)
next
  case RsRelease
  assume h: "hung c"
  from hung_release [OF h] h RsRelease show ?thesis
    by (simp add: reset_step_def when_it_can_def) (simp add: hung_def)
next
  case RsAnaDone
  assume h: "hung c"
  then have "hung (c\<lparr>rz_ana_updating := False\<rparr>)" by (simp add: hung_def)
  from hung_stays [OF this] this h RsAnaDone show ?thesis
    by (simp add: reset_step_def when_it_can_def ana_log_done_def clear_io_path_caches_def Let_def) (simp add: hung_def)
next
  case RsCachesDone
  assume h: "hung c"
  then have "hung (c\<lparr>rz_cache_clearing := False\<rparr>)" by (simp add: hung_def)
  from hung_stays [OF this] this h RsCachesDone show ?thesis
    by (simp add: reset_step_def when_it_can_def cache_clearing_done_def Let_def)
qed (simp_all add: reset_step_def when_it_can_def hung_def reset_io_def reset_rpc_def request_reset_def add_pending_def
    failover_def clear_io_path_caches_def read_ana_log_def rctrlr_available_def Let_def)

text \<open>C17. When the admin queue fails for another reason than the disconnection (not \<open>-ENXIO\<close>) while a reset waits
  for the disconnection, the callback that would carry the reset on is dropped: the reset never ends,
  whatever comes, and the controller can never be taken away, even when it is deleted.\<close>

theorem lost_callback_hangs_reset:
  assumes "trids \<noteq> []"
    and "guarded_reach reset_step calm (new_reset_ctrlr trids fabrics loss delay fast n) c"
    and "rz_disc_cb c = Some CbDestroyQpairs \<or> rz_disc_cb c = Some CbReconnect"
  shows "\<exists>c'. runR reset_step c ((env, RsAdminFails False) # es) = Inr c' \<and> rz_resetting c' \<and> \<not> rz_unregistered c'"
proof -
  have i: "reset_inv c" by (rule resets.reach_inv [OF assms(2) new_reset_inv [OF assms(1)]])
  have a: "awaits_disconnect c" using assms(3) by (auto simp: awaits_disconnect_def)
  have r: "rz_resetting c" and q: "rz_work c = []" "\<not> rz_poller c" using resetting_one [OF i] a by auto
  have f: "frame_inv c" using i by (simp add: reset_inv_def)
  have u: "\<not> rz_unregistered c" "\<not> rz_adminq_paused c" "\<not> rz_delay_timer c"
    using f r by (simp_all add: frame_inv_def can_be_unregistered_def)
  have h: "hung (c\<lparr>rz_disc_cb := None\<rparr>)" using r q u by (simp add: hung_def)
  have s: "reset_step c (env, RsAdminFails False) = Inr (c\<lparr>rz_disc_cb := None\<rparr>)"
    using u assms(3) hung_failover [OF h] by (auto simp: reset_step_def when_it_can_def admin_poll_failed_def Let_def)
  have "hung t \<Longrightarrow> \<exists>t'. runR reset_step t es = Inr t' \<and> hung t'" for t
  proof (induction es arbitrary: t)
    case Nil
    then show ?case by simp
  next
    case (Cons ee es)
    from hung_step [OF Cons.prems, of "fst ee" "snd ee"] Cons.IH show ?case by auto
  qed
  from this [OF h] s show ?thesis by (auto simp: hung_def)
qed

theorem lost_callback_hangs_reset_witness:
  "\<exists>c'. runR reset_step (demo_run (butlast to_poller))
      [(demo_env 5 0, RsAdminFails False), (demo_env 5 0, RsDelete), (demo_env 5 0, RsAdminFails True)] = Inr c' \<and>
    rz_resetting c' \<and> \<not> rz_unregistered c'"
proof -
  have "run_guarded reset_step calm demo_reset (butlast to_poller) \<noteq> None" by code_simp
  then have "run_guarded reset_step calm demo_reset (butlast to_poller) = Some (demo_run (butlast to_poller))"
    by (auto simp: demo_run_def)
  note r = this [THEN run_guarded_start, unfolded demo_reset_def]
  have "rz_disc_cb (demo_run (butlast to_poller)) = Some CbReconnect" by code_simp
  then show ?thesis using lost_callback_hangs_reset [OF _ r] by blast
qed

text \<open>A reset that is asked for while the controller is being disconnected for a delayed reconnection starts at
  once. When the disconnection is done the timer is started beside it: a reset is in progress and the
  reconnection is delayed, the admin queue is no longer polled, so that a disconnection which the reset waits for is not
  noticed, and the timer will start a second reconnection. The code asserts that neither can be.\<close>

theorem reset_while_delay_starts:
  assumes "trids \<noteq> []"
    and "guarded_reach reset_step calm (new_reset_ctrlr trids fabrics loss delay fast n) c"
    and "rz_disc_cb c = Some CbStartDelay" and "\<not> rz_destruct c" and "k < length (rz_chans c)"
  shows "\<exists>c'. runR reset_step c [(env, RsResetIo k i), (env, RsAdminFails True)] = Inr c' \<and>
    rz_resetting c' \<and> rz_delayed c' \<and> rz_delay_timer c' \<and> rz_adminq_paused c' \<and> rz_cb c' = Some i"
proof -
  have i: "reset_inv c" by (rule resets.reach_inv [OF assms(2) new_reset_inv [OF assms(1)]])
  have f: "frame_inv c" using i by (simp add: reset_inv_def)
  have u: "\<not> rz_resetting c" "\<not> rz_delayed c" "\<not> rz_adminq_paused c" "\<not> rz_unregistered c"
    using f assms(3,4) by (auto simp: frame_inv_def can_be_unregistered_def)
  then show ?thesis
    using assms(3-5)
    by (simp add: reset_step_def when_it_can_def reset_io_def request_reset_def start_reset_def add_work_def
        admin_poll_failed_def disconnected_def start_delay_timer_def)
qed

theorem reset_while_delay_starts_witness:
  "\<exists>c'. runR reset_step (demo_run to_delay_start) [(demo_env 6 0, RsResetIo 1 8), (demo_env 6 0, RsAdminFails True)] = Inr c' \<and>
    rz_resetting c' \<and> rz_delayed c'"
proof -
  have "rz_disc_cb (demo_run to_delay_start) = Some CbStartDelay" "\<not> rz_destruct (demo_run to_delay_start)"
    "1 < length (rz_chans (demo_run to_delay_start))" by code_simp+
  then show ?thesis using reset_while_delay_starts [OF _ reset_demo_reached(3)] by blast
qed

text \<open>A reset request that comes when the waiting requests of all channels have been completed, but the end of the
  reset has not been reached yet, is put on the list of its channel all the same. The reset ends and
  the request is not answered; it waits until another reset happens to end.\<close>

theorem late_request_left_waiting:
  assumes "trids \<noteq> []"
    and "guarded_reach reset_step calm (new_reset_ctrlr trids fabrics loss delay fast n) c"
    and "rz_work c = [WkPending m s]" and "length (rz_chans c) \<le> m"
    and "k < length (rz_chans c)" and "\<not> rz_destruct c" and "rv_disconnect env = 0"
  shows "\<exists>c'. runR reset_step c [(env, RsResetIo k i), (env, RsWork 0)] = Inr c' \<and>
    \<not> rz_resetting c' \<and> i \<in> set (rh_pending (rz_chans c' ! k))"
proof -
  have i: "reset_inv c" by (rule resets.reach_inv [OF assms(2) new_reset_inv [OF assms(1)]])
  have r: "rz_resetting c" using resetting_one(2) [OF i] assms(3) by simp
  have u: "\<not> rz_unregistered c" "rz_disc_cb c \<noteq> Some CbStartDelay"
    using i r by (auto simp: reset_inv_def frame_inv_def can_be_unregistered_def)
  define c1 where "c1 = add_pending k i c"
  have i1: "reset_inv c1" unfolding c1_def by (rule pending_inv [OF i assms(5)])
  have s1: "reset_step c (env, RsResetIo k i) = Inr c1"
    using u r assms by (simp add: reset_step_def when_it_can_def reset_io_def request_reset_def c1_def)
  have w1: "rz_work c1 = [WkPending m s]" "\<not> rz_unregistered c1" "length (rz_chans c1) = length (rz_chans c)"
    using assms(3) u by (simp_all add: c1_def add_pending_def)
  have "calm c1 (env, RsWork 0)" using w1 assms(7) by (simp add: calm_def)
  then obtain c' where s2: "reset_step c1 (env, RsWork 0) = Inr c'" using reset_step_inv [OF i1] by blast
  then have "finish_reset env s (c1\<lparr>rz_work := []\<rparr>) = Inr c'"
    using w1 assms(4) by (simp add: reset_step_def when_it_can_def work_step_def remove_nth_def)
  from finish_ends [OF this] have "rz_chans c' = rz_chans c1" "\<not> rz_resetting c'" by simp_all
  moreover have "i \<in> set (rh_pending (rz_chans c1 ! k))" using assms(5) by (simp add: c1_def add_pending_def)
  ultimately show ?thesis using s1 s2 by simp
qed

theorem late_request_left_waiting_witness:
  "\<exists>c'. runR reset_step (demo_run to_pending) [(demo_env 5 0, RsResetIo 0 8), (demo_env 5 0, RsWork 0)] = Inr c' \<and>
    \<not> rz_resetting c' \<and> 8 \<in> set (rh_pending (rz_chans c' ! 0))"
proof -
  have "rz_work (demo_run to_pending) = [WkPending 2 False]" "length (rz_chans (demo_run to_pending)) = 2"
    "\<not> rz_destruct (demo_run to_pending)" by code_simp+
  moreover have "rv_disconnect (demo_env 5 0) = 0" by code_simp
  ultimately show ?thesis using late_request_left_waiting [OF _ reset_demo_reached(2)] by simp
qed

end
