(* ===== verification/Tcp.thy ===== *)
theory Tcp
  imports Poll_Group
begin

text \<open>
  A queue pair of the TCP transport, \<^verbatim>\<open>nvmf/tcp.c\<close>: receiving PDUs, the checks of their headers, the
  state machine of a request from its command to its response, data buffers, fused commands,
  abort, disconnection.

  The bytes of the socket are not modelled: that the common header, the rest of a header or the
  data of a PDU has arrived is an event, which carries what the NVMe/TCP library finds in it. The
  slots of the queue pair are numbered from 0; the transfer tag of a slot is its number plus one. A
  request that the target executes and a PDU that is written complete in later events. The error offset that a termination
  request carries, protection information (DIF) and the size of the receive buffer are not modelled.
\<close>

section \<open>Data\<close>

datatype tcp_req_state =
    TrFree | TrNew | TrNeedBuffer | TrAwaitZcopyStart | TrZcopyStartCompleted | TrTransferH2C | TrAwaitR2tAck
  | TrReadyToExecute | TrExecuting | TrAwaitZcopyCommit | TrExecuted | TrReadyToComplete | TrTransferC2H
  | TrAwaitZcopyRelease | TrCompleted

datatype tcp_recv_state = RecvReady | RecvCh | RecvPsh | RecvReq | RecvPayload | RecvError

datatype tcp_qpair_state = TqInvalid | TqInitializing | TqRunning | TqExiting | TqExited

datatype tcp_pdu_type = PduIcReq | PduCapsuleCmd | PduH2cData | PduH2cTermReq | PduOther

datatype tcp_fuse = FuseNone | FuseFirst | FuseSecond | FuseReserved

datatype tcp_xfer = XferNone | XferH2C | XferC2H | XferBidirectional

datatype tcp_sgl_type = SglTransport | SglOffset | SglOther

datatype tcp_fes = FesHeader | FesSequence | FesHdgst | FesRange | FesLimit | FesUnsupported

record tcp_cmd =
  tc_opc :: u8
  tc_cid :: u16
  tc_fuse :: tcp_fuse
  tc_xfer :: tcp_xfer
  tc_sgl_type :: tcp_sgl_type
  tc_sgl_length :: u32
  tc_sgl_address :: u64

definition no_cmd :: tcp_cmd where
  "no_cmd = \<lparr>tc_opc = 0, tc_cid = 0, tc_fuse = FuseNone, tc_xfer = XferNone, tc_sgl_type = SglTransport, tc_sgl_length = 0,
     tc_sgl_address = 0\<rparr>"

text \<open>A received PDU; \<open>pd_psh_len\<close> and \<open>pd_has_hdgst\<close> are computed by the NVMe/TCP library, and so is
  whether the digest of the header is right.\<close>

record tcp_pdu =
  pd_type :: tcp_pdu_type
  pd_hlen :: u8
  pd_pdo :: u8
  pd_plen :: u32
  pd_psh_len :: u32
  pd_has_hdgst :: bool
  pd_hdgst_ok :: bool
  pd_pfv :: u16
  pd_hpda :: u8
  pd_hdgst_enable :: bool
  pd_ddgst_enable :: bool
  pd_cmd :: tcp_cmd
  pd_cccid :: u16
  pd_ttag :: u16
  pd_datao :: u32
  pd_datal :: u32
  pd_fes :: u16

text \<open>Where the data of a request are: in buffers of the pool, in a buffer for control messages or in the
  buffer of its slot.\<close>

datatype tcp_buf = BufPool | BufControl | BufCapsule

datatype tcp_sent = SentNone | SentR2t | SentC2hData bool | SentResp

record tcp_req =
  tr_state :: tcp_req_state
  tr_cmd :: tcp_cmd
  tr_length :: u32
  tr_data :: "tcp_buf option"
  tr_iov :: "tcp_buf option" \<comment> \<open>\<open>iov[0].iov_base\<close>\<close>
  tr_iovcnt :: nat
  tr_from_pool :: bool
  tr_icd :: bool
  tr_h2c_offset :: u32
  tr_pdu_in_use :: bool
  tr_sent :: tcp_sent
  tr_fused_pair :: "nat option"
  tr_fused_failed :: bool
  tr_status :: spdk_nvme_status
  tr_rsp_zero :: bool \<comment> \<open>the command specific part of the response is zero\<close>
  tr_zcopy :: bool
  tr_zcopy_io :: bool

datatype tcp_out =
    OutExec nat
  | OutZcopyStart nat
  | OutZcopyEnd nat bool
  | OutIcResp
  | OutTerm tcp_fes
  | OutR2t nat u32 u32
  | OutC2hData nat u32 u32 u32 bool \<comment> \<open>slot, \<open>datal\<close>, \<open>pdo\<close>, \<open>plen\<close>, success\<close>
  | OutResp nat spdk_nvme_status u16
  | OutDisconnect
  | OutAbortDone bool

datatype tcp_mgmt = MgmtIcResp | MgmtTerm

datatype tcp_pending = PendOwn nat | PendOther \<comment> \<open>a request of another queue pair of the group\<close>

record tcp_opts =
  to_max_io_size :: u32
  to_io_unit_size :: u32
  to_in_capsule :: u32
  to_c2h_success :: bool
  to_zcopy :: bool

record tcp_qpair =
  tq_reqs :: "tcp_req list"
  tq_free :: "nat list"
  tq_working :: "nat list"
  tq_cntr :: "tcp_req_state \<Rightarrow> u32"
  tq_recv :: tcp_recv_state
  tq_state :: tcp_qpair_state
  tq_pdu :: tcp_pdu \<comment> \<open>\<open>pdu_in_progress\<close>\<close>
  tq_pdu_req :: "nat option"
  tq_data_len :: u32
  tq_crc :: "(tcp_pdu \<times> nat option \<times> u32) list" \<comment> \<open>PDUs whose data digest is being computed\<close>
  tq_cpda :: u8
  tq_hdgst :: bool
  tq_ddgst :: bool
  tq_fused_first :: "nat option"
  tq_mgmt :: "tcp_mgmt option"
  tq_timeout :: bool
  tq_active :: bool
  tq_admin :: bool
  tq_sq_head :: u16
  tq_sq_head_max :: u16
  tq_pending :: "tcp_pending list"
  tq_cache :: nat
  tq_cache_size :: nat
  tq_pool :: nat
  tq_control_msgs :: nat
  tq_out :: "tcp_out list"
  tq_gone :: bool

text \<open>What the rest of the target says: the namespace of the command supports zero copy.\<close>

record tcp_env =
  tv_opts :: tcp_opts
  tv_ns_zcopy :: bool
  tv_others_progress :: bool \<comment> \<open>a waiting request of another queue pair gets its buffers\<close>

abbreviation TRANSIENT_TRANSPORT_ERROR :: u8 where "TRANSIENT_TRANSPORT_ERROR \<equiv> 0x22"
abbreviation MAX_HPDA :: u8 where "MAX_HPDA \<equiv> 31"
abbreviation PDO_MAX_OFFSET :: u8 where "PDO_MAX_OFFSET \<equiv> 128"
abbreviation DIGEST_LEN :: u32 where "DIGEST_LEN \<equiv> 4"
abbreviation COMMON_HDR_LEN :: u32 where "COMMON_HDR_LEN \<equiv> 8"
abbreviation IN_CAPSULE_MAX :: u32 where "IN_CAPSULE_MAX \<equiv> 8192"
abbreviation TERM_REQ_MAX_SIZE :: u32 where "TERM_REQ_MAX_SIZE \<equiv> 152"
abbreviation REQ_MAX_BUFFERS :: nat where "REQ_MAX_BUFFERS \<equiv> 16"

definition st_generic :: "u8 \<Rightarrow> spdk_nvme_status" where
  "st_generic sc = \<lparr>st_sct = 0, st_sc = sc, st_dnr = False, st_crd = 0\<rparr>"

section \<open>Slots\<close>

abbreviation the_req :: "tcp_qpair \<Rightarrow> nat \<Rightarrow> tcp_req" where "the_req q i \<equiv> tq_reqs q ! i"

definition upd_req :: "nat \<Rightarrow> (tcp_req \<Rightarrow> tcp_req) \<Rightarrow> tcp_qpair \<Rightarrow> tcp_qpair" where
  "upd_req i f q = q\<lparr>tq_reqs := (tq_reqs q)[i := f (the_req q i)]\<rparr>"

definition emit :: "tcp_out \<Rightarrow> tcp_qpair \<Rightarrow> tcp_qpair" where
  "emit out q = q\<lparr>tq_out := tq_out q @ [out]\<rparr>"

definition req_set_state :: "nat \<Rightarrow> tcp_req_state \<Rightarrow> tcp_qpair \<Rightarrow> tcp_qpair" where
  "req_set_state i s q =
     (let old = tr_state (the_req q i); cntr = (tq_cntr q)(old := tq_cntr q old - 1)
      in upd_req i (\<lambda>r. r\<lparr>tr_state := s\<rparr>) (q\<lparr>tq_cntr := cntr(s := cntr s + 1)\<rparr>))"

definition req_get :: "tcp_qpair \<Rightarrow> (nat \<times> tcp_qpair) option" where
  "req_get q =
     (case tq_free q of
        [] \<Rightarrow> None
      | i # rest \<Rightarrow>
          Some (i, req_set_state i TrNew
            (upd_req i (\<lambda>r. r\<lparr>tr_status := st_success, tr_rsp_zero := True, tr_h2c_offset := 0, tr_icd := False, tr_zcopy := False\<rparr>)
              (q\<lparr>tq_free := rest, tq_working := tq_working q @ [i]\<rparr>))))"

definition req_put :: "nat \<Rightarrow> tcp_qpair \<Rightarrow> tcp_qpair" where
  "req_put i q = req_set_state i TrFree (q\<lparr>tq_working := remove1 i (tq_working q), tq_free := tq_free q @ [i]\<rparr>)"

definition set_status :: "nat \<Rightarrow> u8 \<Rightarrow> tcp_qpair \<Rightarrow> tcp_qpair" where
  "set_status i sc = upd_req i (\<lambda>r. r\<lparr>tr_status := st_generic sc\<rparr>)"

section \<open>PDUs that are sent\<close>

definition send_c2h_term_req :: "tcp_fes \<Rightarrow> tcp_qpair \<Rightarrow> tcp_qpair" where
  "send_c2h_term_req fes q = emit (OutTerm fes) (q\<lparr>tq_recv := RecvError, tq_mgmt := Some MgmtTerm\<rparr>)"

definition write_req_pdu :: "nat \<Rightarrow> tcp_sent \<Rightarrow> tcp_qpair \<Rightarrow> tcp_qpair" where
  "write_req_pdu i s = upd_req i (\<lambda>r. r\<lparr>tr_pdu_in_use := True, tr_sent := s\<rparr>)"

definition send_capsule_resp :: "nat \<Rightarrow> tcp_qpair \<Rightarrow> tcp_qpair" where
  "send_capsule_resp i q = write_req_pdu i SentResp (emit (OutResp i (tr_status (the_req q i)) (tq_sq_head q)) q)"

definition send_r2t :: "nat \<Rightarrow> tcp_qpair \<Rightarrow> tcp_qpair" where
  "send_r2t i q =
     write_req_pdu i SentR2t
       (emit (OutR2t i (tr_h2c_offset (the_req q i)) (tr_length (the_req q i))) (req_set_state i TrAwaitR2tAck q))"

text \<open>The data are sent in one PDU: its data start at a multiple of what the host asked for.\<close>

definition c2h_pdo :: "bool \<Rightarrow> u8 \<Rightarrow> u32" where
  "c2h_pdo hdgst cpda =
     (let plen = 24 + (if hdgst then DIGEST_LEN else 0); alignment = push_bit 2 (ucast cpda + 1)
      in if cpda \<noteq> 0 \<and> plen mod alignment \<noteq> 0 then (plen + alignment) div alignment * alignment else plen)"

definition send_c2h_data :: "tcp_env \<Rightarrow> nat \<Rightarrow> tcp_qpair \<Rightarrow> tcp_qpair" where
  "send_c2h_data env i q =
     (let r = the_req q i; pdo = c2h_pdo (tq_hdgst q) (tq_cpda q); success = to_c2h_success (tv_opts env) \<and> tr_rsp_zero r
      in write_req_pdu i (SentC2hData success)
           (emit (OutC2hData i (tr_length r) pdo (pdo + tr_length r + (if tq_ddgst q then DIGEST_LEN else 0)) success) q))"

definition request_transfer_out :: "tcp_env \<Rightarrow> nat \<Rightarrow> tcp_qpair \<Rightarrow> tcp_qpair" where
  "request_transfer_out env i q =
     (let q1 = q\<lparr>tq_sq_head := if tq_sq_head q = tq_sq_head_max q then 0 else tq_sq_head q + 1\<rparr>;
          q2 = req_set_state i TrTransferC2H q1
      in if st_sc (tr_status (the_req q i)) = 0 \<and> tc_xfer (tr_cmd (the_req q i)) = XferC2H
         then send_c2h_data env i q2 else send_capsule_resp i q2)"

section \<open>Buffers\<close>

definition ceil_div :: "u32 \<Rightarrow> u32 \<Rightarrow> u32" where
  "ceil_div a b = (a + b - 1) div b"

text \<open>\<open>spdk_nvmf_request_get_buffers\<close>: from the cache of the group as far as it goes, the rest in bulk from the
  pool; if that fails what was taken goes back to the cache.\<close>

definition get_buffers :: "tcp_env \<Rightarrow> nat \<Rightarrow> u32 \<Rightarrow> tcp_qpair \<Rightarrow> bool \<times> tcp_qpair" where
  "get_buffers env i len q =
     (let n = unat (ceil_div len (to_io_unit_size (tv_opts env))); k = min n (tq_cache q) in
      if n > REQ_MAX_BUFFERS then (False, upd_req i (\<lambda>r. r\<lparr>tr_iovcnt := 0\<rparr>) q)
      else if n - k > tq_pool q then (False, upd_req i (\<lambda>r. r\<lparr>tr_iovcnt := 0, tr_from_pool := False, tr_iov := if k > 0 then None else tr_iov r\<rparr>) q)
      else (True, upd_req i (\<lambda>r. r\<lparr>tr_iovcnt := n, tr_from_pool := True, tr_iov := if n > 0 then Some BufPool else tr_iov r\<rparr>)
                    (q\<lparr>tq_cache := tq_cache q - k, tq_pool := tq_pool q - (n - k)\<rparr>)))"

definition free_buffers :: "nat \<Rightarrow> tcp_qpair \<Rightarrow> tcp_qpair" where
  "free_buffers i q =
     (let n = tr_iovcnt (the_req q i); k = min n (tq_cache_size q - tq_cache q) in
      upd_req i (\<lambda>r. r\<lparr>tr_iovcnt := 0, tr_from_pool := False, tr_iov := if n > 0 then None else tr_iov r\<rparr>)
        (q\<lparr>tq_cache := tq_cache q + k, tq_pool := tq_pool q + (n - k)\<rparr>))"

definition use_zcopy :: "tcp_env \<Rightarrow> tcp_cmd \<Rightarrow> tcp_qpair \<Rightarrow> bool" where
  "use_zcopy env cmd q \<longleftrightarrow>
     to_zcopy (tv_opts env) \<and> \<not> tq_admin q \<and> (tc_opc cmd = 1 \<or> tc_opc cmd = 2) \<and> tc_fuse cmd = FuseNone \<and> tv_ns_zcopy env"

text \<open>\<open>nvmf_tcp_req_parse_sgl\<close>; the result is false after a fatal error.\<close>

definition parse_transport_sgl :: "tcp_env \<Rightarrow> nat \<Rightarrow> tcp_qpair \<Rightarrow> bool \<times> tcp_qpair" where
  "parse_transport_sgl env i q =
     (let cmd = tr_cmd (the_req q i); len = tc_sgl_length cmd in
      if len > to_max_io_size (tv_opts env) then (False, send_c2h_term_req FesLimit q)
      else
        let q1 = upd_req i (\<lambda>r. r\<lparr>tr_length := len\<rparr>) q in
        if use_zcopy env cmd q then (True, upd_req i (\<lambda>r. r\<lparr>tr_zcopy := True, tr_from_pool := False\<rparr>) q1)
        else case get_buffers env i len q1 of
               (False, q2) \<Rightarrow> (True, q2)
             | (True, q2) \<Rightarrow> (True, upd_req i (\<lambda>r. r\<lparr>tr_data := tr_iov r\<rparr>) q2))"

definition use_capsule_data :: "nat \<Rightarrow> u32 \<Rightarrow> tcp_buf \<Rightarrow> tcp_qpair \<Rightarrow> tcp_qpair" where
  "use_capsule_data i len b =
     upd_req i (\<lambda>r. r\<lparr>tr_data := Some b, tr_length := len, tr_from_pool := False, tr_iov := Some b, tr_iovcnt := 1\<rparr>)"

definition parse_capsule_sgl :: "tcp_env \<Rightarrow> nat \<Rightarrow> tcp_qpair \<Rightarrow> bool \<times> tcp_qpair" where
  "parse_capsule_sgl env i q =
     (let cmd = tr_cmd (the_req q i); pdu = tq_pdu q;
          len = pd_plen pdu - pd_psh_len pdu - COMMON_HDR_LEN - (if tq_ddgst q then DIGEST_LEN else 0)
      in (if len \<noteq> tc_sgl_length cmd then (False, send_c2h_term_req FesHeader q)
               else if tc_sgl_address cmd \<noteq> 0 then (False, send_c2h_term_req FesUnsupported q)
               else if len > to_in_capsule (tv_opts env) then
                 (if len \<le> IN_CAPSULE_MAX \<and> (tc_opc cmd = NVME_OPC_FABRIC \<or> tq_admin q) then
                    (if tq_control_msgs q = 0 then (True, upd_req i (\<lambda>r. r\<lparr>tr_data := None\<rparr>) q)
                     else (True, use_capsule_data i len BufControl (q\<lparr>tq_control_msgs := tq_control_msgs q - 1\<rparr>)))
                  else (False, send_c2h_term_req FesLimit q))
               else (True, use_capsule_data i len BufCapsule q)))"

definition parse_sgl :: "tcp_env \<Rightarrow> nat \<Rightarrow> tcp_qpair \<Rightarrow> bool \<times> tcp_qpair" where
  "parse_sgl env i q =
     (case tc_sgl_type (tr_cmd (the_req q i)) of
        SglTransport \<Rightarrow> parse_transport_sgl env i q
      | SglOffset \<Rightarrow> parse_capsule_sgl env i q
      | SglOther \<Rightarrow> (False, send_c2h_term_req FesUnsupported q))"

section \<open>The state machine of a request\<close>

definition remove_own :: "nat \<Rightarrow> tcp_qpair \<Rightarrow> tcp_qpair" where
  "remove_own i q = q\<lparr>tq_pending := remove1 (PendOwn i) (tq_pending q)\<rparr>"

definition set_recv :: "tcp_recv_state \<Rightarrow> tcp_qpair \<Rightarrow> tcp_qpair" where
  "set_recv s q = q\<lparr>tq_recv := s\<rparr>"

text \<open>\<open>nvmf_tcp_check_fused_ordering\<close>; \<open>kick\<close> processes another request.\<close>

definition check_fused_ordering ::
    "(nat \<Rightarrow> tcp_qpair \<Rightarrow> fault + tcp_qpair) \<Rightarrow> nat \<Rightarrow> tcp_qpair \<Rightarrow> fault + tcp_qpair" where
  "check_fused_ordering kick i q =
     (let last = (case tq_fused_first q of None \<Rightarrow> FuseNone | Some f \<Rightarrow> tc_fuse (tr_cmd (the_req q f)));
          fuse = tc_fuse (tr_cmd (the_req q i));
          remember = (\<lambda>q'. if fuse = FuseFirst then q'\<lparr>tq_fused_first := Some i\<rparr>
                           else if fuse = FuseSecond then upd_req i (\<lambda>r. r\<lparr>tr_fused_failed := True\<rparr>) q' else q')
      in case (tq_fused_first q, last) of
           (Some f, FuseFirst) \<Rightarrow>
             if fuse = FuseSecond then
               Inr ((upd_req i (\<lambda>r. r\<lparr>tr_fused_pair := Some f\<rparr>) (upd_req f (\<lambda>r. r\<lparr>tr_fused_pair := Some i\<rparr>) q))
                      \<lparr>tq_fused_first := None\<rparr>)
             else
               let q1 = upd_req f (\<lambda>r. r\<lparr>tr_fused_failed := True\<rparr>) q in
               bindR (if tr_state (the_req q1 f) = TrReadyToExecute then kick f q1 else Inr q1)
                 (\<lambda>q2. Inr (remember (q2\<lparr>tq_fused_first := None\<rparr>)))
         | _ \<Rightarrow> Inr (remember q))"

definition process_new ::
    "(nat \<Rightarrow> tcp_qpair \<Rightarrow> fault + tcp_qpair) \<Rightarrow> nat \<Rightarrow> tcp_qpair \<Rightarrow> fault + tcp_qpair" where
  "process_new kick i q =
     (let pdu = tq_pdu q in
          bindR (check_fused_ordering kick i (upd_req i (\<lambda>r. r\<lparr>tr_cmd := pd_cmd pdu\<rparr>) q)) (\<lambda>q1.
            Inr (case tc_xfer (pd_cmd pdu) of
                   XferBidirectional \<Rightarrow> req_set_state i TrReadyToComplete (set_recv RecvReady (set_status i 0x01 q1))
                 | XferNone \<Rightarrow> req_set_state i TrReadyToExecute (set_recv RecvReady q1)
                 | _ \<Rightarrow>
                     let plen = ucast (pd_hlen pdu) + (if tq_hdgst q1 then DIGEST_LEN else 0);
                         q2 = (if pd_plen pdu \<noteq> plen then upd_req i (\<lambda>r. r\<lparr>tr_icd := True\<rparr>) q1
                               else set_recv RecvReady q1);
                         q3 = req_set_state i TrNeedBuffer q2
                     in q3\<lparr>tq_pending := tq_pending q3 @ [PendOwn i]\<rparr>)))"

definition process_need_buffer :: "tcp_env \<Rightarrow> nat \<Rightarrow> tcp_qpair \<Rightarrow> tcp_qpair" where
  "process_need_buffer env i q =
     (if \<not> tr_icd (the_req q i) \<and> (case tq_pending q of [] \<Rightarrow> True | p # _ \<Rightarrow> p \<noteq> PendOwn i) then q
      else case parse_sgl env i q of (ok, q1) \<Rightarrow>
        if \<not> ok then q1
        else if tr_zcopy (the_req q1 i) then emit (OutZcopyStart i) (req_set_state i TrAwaitZcopyStart (remove_own i q1))
        else if tr_data (the_req q1 i) = None then q1
        else
          let q2 = remove_own i q1 in
          if tc_xfer (tr_cmd (the_req q2 i)) = XferH2C then
            (if tr_from_pool (the_req q2 i) then send_r2t i q2
             else (req_set_state i TrTransferH2C q2)\<lparr>tq_data_len := tr_length (the_req q2 i), tq_recv := RecvPayload\<rparr>)
          else req_set_state i TrReadyToExecute q2)"

definition unpair :: "nat \<Rightarrow> nat \<Rightarrow> tcp_qpair \<Rightarrow> tcp_qpair" where
  "unpair i j q = upd_req i (\<lambda>r. r\<lparr>tr_fused_pair := None\<rparr>) (upd_req j (\<lambda>r. r\<lparr>tr_fused_pair := None\<rparr>) q)"

definition exec_req :: "nat \<Rightarrow> tcp_qpair \<Rightarrow> tcp_qpair" where
  "exec_req i q = emit (OutExec i) (req_set_state i TrExecuting q)"

definition process_ready :: "nat \<Rightarrow> tcp_qpair \<Rightarrow> tcp_qpair" where
  "process_ready i q =
     (let r = the_req q i; fuse = tc_fuse (tr_cmd r) in
      if fuse \<noteq> FuseNone \<and> tr_fused_failed r then req_set_state i TrReadyToComplete (set_status i 0x0a q)
      else if fuse \<noteq> FuseNone \<and>
         (case tr_fused_pair r of None \<Rightarrow> True | Some j \<Rightarrow> tr_state (the_req q j) \<noteq> TrReadyToExecute) then q
      else if tr_zcopy r then emit (OutZcopyEnd i True) (req_set_state i TrAwaitZcopyCommit q)
      else
        case (fuse, tr_fused_pair r) of
          (FuseSecond, Some j) \<Rightarrow> emit (OutExec i) (unpair i j (exec_req j (req_set_state i TrExecuting q)))
        | (FuseFirst, Some j) \<Rightarrow> unpair i j (exec_req j (exec_req i q))
        | _ \<Rightarrow> exec_req i q)"

definition release_data :: "tcp_env \<Rightarrow> nat \<Rightarrow> tcp_qpair \<Rightarrow> tcp_qpair" where
  "release_data env i q =
     (let r = the_req q i in
      if tr_from_pool r then free_buffers i q
      else if tr_icd r \<and> (tc_opc (tr_cmd r) = NVME_OPC_FABRIC \<or> tq_admin q) \<and> tr_length r > to_in_capsule (tv_opts env)
      then q\<lparr>tq_control_msgs := tq_control_msgs q + 1\<rparr>
      else q)"

definition process_completed ::
    "(nat \<Rightarrow> tcp_qpair \<Rightarrow> fault + tcp_qpair) \<Rightarrow> tcp_env \<Rightarrow> nat \<Rightarrow> tcp_qpair \<Rightarrow> fault + tcp_qpair" where
  "process_completed kick env i q =
     (let r = the_req q i in
      if tr_pdu_in_use r then Inr q
      else if \<not> tr_from_pool r \<and>
          \<not> (tr_icd r \<and> (tc_opc (tr_cmd r) = NVME_OPC_FABRIC \<or> tq_admin q) \<and> tr_length r > to_in_capsule (tv_opts env)) \<and> tr_zcopy_io r
      then Inr (emit (OutZcopyEnd i False) (req_set_state i TrAwaitZcopyRelease q))
      else
        let q1 = upd_req i (\<lambda>r. r\<lparr>tr_length := 0, tr_iovcnt := 0, tr_data := None, tr_fused_failed := False\<rparr>) (release_data env i q) in
        bindR
          (case tr_fused_pair r of
             None \<Rightarrow> Inr q1
           | Some j \<Rightarrow>
               let q2 = upd_req j (\<lambda>s. s\<lparr>tr_fused_failed := True\<rparr>) q1 in
               bindR (if tr_state (the_req q2 j) = TrReadyToExecute then kick j q2 else Inr q2)
                 (\<lambda>q3. Inr (upd_req i (\<lambda>s. s\<lparr>tr_fused_pair := None\<rparr>) q3)))
          (\<lambda>q4. Inr (req_put i q4)))"

text \<open>One round of the loop of \<open>nvmf_tcp_req_process\<close>, then the loop: it goes on as long as the state of the request
  changes.\<close>

definition process_round ::
    "(nat \<Rightarrow> tcp_qpair \<Rightarrow> fault + tcp_qpair) \<Rightarrow> tcp_env \<Rightarrow> nat \<Rightarrow> tcp_qpair \<Rightarrow> fault + tcp_qpair" where
  "process_round kick env i q =
     (case tr_state (the_req q i) of
        TrNew \<Rightarrow> process_new kick i q
      | TrNeedBuffer \<Rightarrow> Inr (process_need_buffer env i q)
      | TrZcopyStartCompleted \<Rightarrow>
          Inr (if cpl_is_error (tr_status (the_req q i)) then req_set_state i TrReadyToComplete q
               else if tc_xfer (tr_cmd (the_req q i)) = XferH2C then send_r2t i q
               else req_set_state i TrExecuted q)
      | TrReadyToExecute \<Rightarrow> Inr (process_ready i q)
      | TrExecuted \<Rightarrow> Inr (req_set_state i TrReadyToComplete q)
      | TrReadyToComplete \<Rightarrow> Inr (request_transfer_out env i q)
      | TrCompleted \<Rightarrow> process_completed kick env i q
      | _ \<Rightarrow> Inr q)"

fun process_loop :: "nat \<Rightarrow> (tcp_qpair \<Rightarrow> fault + tcp_qpair) \<Rightarrow> nat \<Rightarrow> tcp_qpair \<Rightarrow> fault + tcp_qpair" where
  "process_loop 0 f i q = Inl NoReturn"
| "process_loop (Suc n) f i q =
     bindR (f q) (\<lambda>q'. if tr_state (the_req q' i) = tr_state (the_req q i) then Inr q' else process_loop n f i q')"

text \<open>The loop runs at most once for each state.\<close>

definition process_with ::
    "(nat \<Rightarrow> tcp_qpair \<Rightarrow> fault + tcp_qpair) \<Rightarrow> tcp_env \<Rightarrow> nat \<Rightarrow> tcp_qpair \<Rightarrow> fault + tcp_qpair" where
  "process_with kick env i q =
     (let q1 = (if tq_active q then q
                else req_set_state i TrCompleted
                  (if tr_state (the_req q i) = TrNeedBuffer then remove_own i q else q))
      in process_loop 16 (process_round kick env i) i q1)"

text \<open>A request that is kicked while another is processed was waiting to be executed and does not wait any
  more, so that there are at most as many nested calls as there are slots.\<close>

fun process_nested :: "nat \<Rightarrow> tcp_env \<Rightarrow> nat \<Rightarrow> tcp_qpair \<Rightarrow> fault + tcp_qpair" where
  "process_nested 0 env i q = Inl NoReturn"
| "process_nested (Suc d) env i q = process_with (process_nested d env) env i q"

definition req_process :: "tcp_env \<Rightarrow> nat \<Rightarrow> tcp_qpair \<Rightarrow> fault + tcp_qpair" where
  "req_process env i q = process_nested (Suc (length (tq_reqs q))) env i q"

definition request_free :: "tcp_env \<Rightarrow> nat \<Rightarrow> tcp_qpair \<Rightarrow> fault + tcp_qpair" where
  "request_free env i q = req_process env i (req_set_state i TrCompleted q)"

section \<open>Disconnection\<close>

definition tcp_disconnect :: "tcp_qpair \<Rightarrow> tcp_qpair" where
  "tcp_disconnect q =
     (if tq_state q \<in> {TqInvalid, TqInitializing, TqRunning}
      then emit OutDisconnect (q\<lparr>tq_state := TqExiting, tq_recv := RecvError, tq_timeout := False, tq_active := False\<rparr>)
      else q)"

text \<open>The walk over the working list remembers the next request before it frees one. Freeing can kick the
  partner of a fused pair, which is then free too. A freed request is no longer in the list; but if it is
  the remembered one, the walk goes on in the list of free requests and so ends, with the
  rest of the working list as it is.\<close>

fun drain :: "tcp_env \<Rightarrow> tcp_req_state \<Rightarrow> nat list \<Rightarrow> tcp_qpair \<Rightarrow> fault + tcp_qpair" where
  "drain env s [] q = Inr q"
| "drain env s (i # is) q =
     (if tr_state (the_req q i) = TrFree then drain env s is q
      else bindR (if tr_state (the_req q i) = s then request_free env i q else Inr q) (\<lambda>q1.
        case List.find (\<lambda>k. tr_state (the_req q k) \<noteq> TrFree) is of
          None \<Rightarrow> Inr q1
        | Some k \<Rightarrow> if tr_state (the_req q1 k) = TrFree then Inr q1 else drain env s is q1))"

definition drain_state_queue :: "tcp_env \<Rightarrow> tcp_req_state \<Rightarrow> tcp_qpair \<Rightarrow> fault + tcp_qpair" where
  "drain_state_queue env s q = drain env s (tq_working q) q"

definition wipe_pending :: "tcp_qpair \<Rightarrow> tcp_qpair" where
  "wipe_pending q =
     fold remove_own (filter (\<lambda>i. tr_state (the_req q i) = TrNeedBuffer) (tq_working q)) q"

definition cleanup_all_states :: "tcp_env \<Rightarrow> tcp_qpair \<Rightarrow> fault + tcp_qpair" where
  "cleanup_all_states env q =
     bindR (drain_state_queue env TrTransferC2H q) (\<lambda>q1.
     bindR (drain_state_queue env TrNew q1) (\<lambda>q2.
     bindR (drain_state_queue env TrNeedBuffer (wipe_pending q2)) (\<lambda>q3.
     bindR (drain_state_queue env TrExecuting q3) (\<lambda>q4.
     bindR (drain_state_queue env TrTransferH2C q4) (\<lambda>q5.
       drain_state_queue env TrAwaitR2tAck q5)))))"

section \<open>Receiving\<close>

text \<open>Ready for the next PDU, the queue pair takes a PDU and clears it; the PDUs are assumed not to run out.\<close>

definition zero_pdu :: tcp_pdu where
  "zero_pdu = \<lparr>pd_type = PduIcReq, pd_hlen = 0, pd_pdo = 0, pd_plen = 0, pd_psh_len = 0, pd_has_hdgst = False,
     pd_hdgst_ok = False, pd_pfv = 0, pd_hpda = 0, pd_hdgst_enable = False, pd_ddgst_enable = False, pd_cmd = no_cmd,
     pd_cccid = 0, pd_ttag = 0, pd_datao = 0, pd_datal = 0, pd_fes = 0\<rparr>"

definition take_pdu :: "tcp_qpair \<Rightarrow> tcp_qpair" where
  "take_pdu q =
     (if tq_recv q = RecvReady then q\<lparr>tq_recv := RecvCh, tq_pdu := zero_pdu, tq_pdu_req := None, tq_data_len := 0\<rparr> else q)"

text \<open>\<open>nvmf_tcp_pdu_ch_handle\<close>: the common header. Nothing means that the PDU is accepted.\<close>

definition bad_pdo :: "u8 \<Rightarrow> u8 \<Rightarrow> bool" where
  "bad_pdo cpda pdo \<longleftrightarrow> cpda \<noteq> 0 \<and> (ucast pdo :: u32) mod push_bit 2 (ucast cpda + 1) \<noteq> 0"

definition check_lengths :: "tcp_pdu \<Rightarrow> u8 \<Rightarrow> bool \<Rightarrow> bool \<Rightarrow> tcp_fes option" where
  "check_lengths pdu hlen pdo_error plen_error =
     (if pd_hlen pdu \<noteq> hlen then Some FesHeader
      else if pdo_error then Some FesHeader
      else if plen_error then Some FesHeader
      else None)"

definition check_ch :: "tcp_qpair_state \<Rightarrow> u8 \<Rightarrow> tcp_pdu \<Rightarrow> tcp_fes option" where
  "check_ch st cpda pdu =
     (if pd_type pdu = PduIcReq then
        (if st \<noteq> TqInvalid then Some FesSequence
         else check_lengths pdu 128 False (pd_plen pdu \<noteq> 128))
      else if st \<noteq> TqRunning then Some FesSequence
      else
        case pd_type pdu of
          PduCapsuleCmd \<Rightarrow>
            check_lengths pdu 72 (bad_pdo cpda (pd_pdo pdu)) (\<not> bad_pdo cpda (pd_pdo pdu) \<and> pd_plen pdu < 72)
        | PduH2cData \<Rightarrow>
            check_lengths pdu 24 (bad_pdo cpda (pd_pdo pdu)) (\<not> bad_pdo cpda (pd_pdo pdu) \<and> pd_plen pdu < 24)
        | PduH2cTermReq \<Rightarrow>
            check_lengths pdu 24 False (pd_plen pdu \<le> 24 \<or> pd_plen pdu > TERM_REQ_MAX_SIZE)
        | _ \<Rightarrow> Some FesHeader)"

definition ch_handle :: "tcp_pdu \<Rightarrow> tcp_qpair \<Rightarrow> tcp_qpair" where
  "ch_handle pdu q =
     (let q1 = q\<lparr>tq_pdu := pdu, tq_pdu_req := None, tq_data_len := 0\<rparr> in
      case check_ch (tq_state q) (tq_cpda q) pdu of
        Some fes \<Rightarrow> send_c2h_term_req fes q1
      | None \<Rightarrow> set_recv RecvPsh q1)"

definition icreq_handle :: "tcp_pdu \<Rightarrow> tcp_qpair \<Rightarrow> tcp_qpair" where
  "icreq_handle pdu q =
     (if pd_pfv pdu \<noteq> 0 then send_c2h_term_req FesHeader q
      else if pd_hpda pdu > MAX_HPDA then send_c2h_term_req FesHeader q
      else emit OutIcResp
        (q\<lparr>tq_hdgst := pd_hdgst_enable pdu, tq_ddgst := pd_ddgst_enable pdu, tq_cpda := min (pd_hpda pdu) MAX_HPDA,
           tq_state := TqInitializing, tq_mgmt := Some MgmtIcResp, tq_recv := RecvReady\<rparr>))"

text \<open>\<open>nvmf_tcp_h2c_data_hdr_handle\<close>. The tag 0 takes the slot before the first one.\<close>

definition h2c_data_hdr_handle :: "tcp_pdu \<Rightarrow> tcp_qpair \<Rightarrow> fault + tcp_qpair" where
  "h2c_data_hdr_handle pdu q =
     (if unat (pd_ttag pdu) > length (tq_reqs q) then Inr (send_c2h_term_req FesSequence q)
      else if pd_ttag pdu = 0 then Inl OutOfBounds
      else
        let i = unat (pd_ttag pdu) - 1; r = the_req q i in
        Inr (if tr_state r \<noteq> TrTransferH2C \<and> tr_state r \<noteq> TrAwaitR2tAck then send_c2h_term_req FesHeader q
             else if tc_cid (tr_cmd r) \<noteq> pd_cccid pdu then send_c2h_term_req FesSequence q
             else if tr_h2c_offset r \<noteq> pd_datao pdu then send_c2h_term_req FesRange q
             else if pd_datao pdu + pd_datal pdu > tr_length r then send_c2h_term_req FesRange q
             else q\<lparr>tq_pdu_req := Some i, tq_data_len := pd_datal pdu, tq_recv := RecvPayload\<rparr>))"

definition h2c_term_req_hdr_handle :: "tcp_pdu \<Rightarrow> tcp_qpair \<Rightarrow> tcp_qpair" where
  "h2c_term_req_hdr_handle pdu q =
     (if pd_fes pdu > 6 then send_c2h_term_req FesHeader q
      else q\<lparr>tq_data_len := pd_plen pdu - ucast (pd_hlen pdu), tq_recv := RecvPayload\<rparr>)"

definition psh_handle :: "tcp_qpair \<Rightarrow> fault + tcp_qpair" where
  "psh_handle q =
     (let pdu = tq_pdu q in
          if pd_has_hdgst pdu \<and> \<not> pd_hdgst_ok pdu then Inr (send_c2h_term_req FesHdgst q)
          else case pd_type pdu of
                 PduIcReq \<Rightarrow> Inr (icreq_handle pdu q)
               | PduCapsuleCmd \<Rightarrow> Inr (set_recv RecvReq q)
               | PduH2cData \<Rightarrow> h2c_data_hdr_handle pdu q
               | PduH2cTermReq \<Rightarrow> Inr (h2c_term_req_hdr_handle pdu q)
               | PduOther \<Rightarrow> Inr (send_c2h_term_req FesHeader q))"

text \<open>\<open>nvmf_tcp_capsule_cmd_hdr_handle\<close>, when the queue pair waits for a slot.\<close>

definition capsule_cmd_hdr_handle :: "tcp_env \<Rightarrow> tcp_qpair \<Rightarrow> fault + tcp_qpair" where
  "capsule_cmd_hdr_handle env q =
     (case req_get q of
        None \<Rightarrow>
          if tq_cntr q TrTransferC2H > 0 \<or> tq_cntr q TrAwaitZcopyRelease > 0 then Inr q
          else Inr (tcp_disconnect q)
      | Some (i, q1) \<Rightarrow> req_process env i (q1\<lparr>tq_pdu_req := Some i\<rparr>))"

definition data_arrived :: "nat \<Rightarrow> tcp_qpair \<Rightarrow> tcp_qpair" where
  "data_arrived i q =
     (if st_sc (tr_status (the_req q i)) = TRANSIENT_TRANSPORT_ERROR
      then req_set_state i TrReadyToComplete q else req_set_state i TrReadyToExecute q)"

definition capsule_cmd_payload_handle :: "tcp_env \<Rightarrow> tcp_pdu \<Rightarrow> nat \<Rightarrow> tcp_qpair \<Rightarrow> fault + tcp_qpair" where
  "capsule_cmd_payload_handle env pdu i q =
     (if pd_pdo pdu > PDO_MAX_OFFSET then Inr (send_c2h_term_req FesHeader q)
      else req_process env i (data_arrived i q))"

definition h2c_data_payload_handle :: "tcp_env \<Rightarrow> u32 \<Rightarrow> nat \<Rightarrow> tcp_qpair \<Rightarrow> fault + tcp_qpair" where
  "h2c_data_payload_handle env len i q =
     (let q1 = upd_req i (\<lambda>r. r\<lparr>tr_h2c_offset := tr_h2c_offset r + len\<rparr>) q in
      if tr_h2c_offset (the_req q1 i) = tr_length (the_req q1 i) \<and> tr_state (the_req q1 i) = TrTransferH2C
      then req_process env i (data_arrived i q1) else Inr q1)"

text \<open>\<open>data_crc32_calc_done\<close> and \<open>_nvmf_tcp_pdu_payload_handle\<close>\<close>

definition payload_done :: "tcp_env \<Rightarrow> bool \<Rightarrow> tcp_pdu \<times> nat option \<times> u32 \<Rightarrow> tcp_qpair \<Rightarrow> fault + tcp_qpair" where
  "payload_done env digest_ok p q =
     (case p of (pdu, ir, len) \<Rightarrow>
      case (pd_type pdu, ir) of
        (PduH2cTermReq, _) \<Rightarrow> Inr (set_recv RecvError q)
      | (PduCapsuleCmd, Some i) \<Rightarrow>
          capsule_cmd_payload_handle env pdu i (if digest_ok then q else set_status i TRANSIENT_TRANSPORT_ERROR q)
      | (PduH2cData, Some i) \<Rightarrow>
          h2c_data_payload_handle env len i (if digest_ok then q else set_status i TRANSIENT_TRANSPORT_ERROR q)
      | (PduCapsuleCmd, None) \<Rightarrow> Inl NullDeref
      | (PduH2cData, None) \<Rightarrow> Inl NullDeref
      | _ \<Rightarrow> Inr q)"

text \<open>All data of the PDU are there; with digests they are checked first, maybe by an accelerator.\<close>

definition payload_handle :: "tcp_env \<Rightarrow> tcp_qpair \<Rightarrow> fault + tcp_qpair" where
  "payload_handle env q =
     (let pdu = tq_pdu q; p = (pdu, tq_pdu_req q, tq_data_len q); q1 = set_recv RecvReady q in
          if tq_ddgst q \<and> pd_type pdu \<noteq> PduH2cTermReq then Inr (q1\<lparr>tq_crc := tq_crc q1 @ [p]\<rparr>)
          else payload_done env True p q1)"

section \<open>Completions\<close>

definition r2t_complete :: "tcp_env \<Rightarrow> nat \<Rightarrow> tcp_qpair \<Rightarrow> fault + tcp_qpair" where
  "r2t_complete env i q =
     (let q1 = req_set_state i TrTransferH2C q in
      if tr_h2c_offset (the_req q1 i) = tr_length (the_req q1 i)
      then req_process env i (req_set_state i TrReadyToExecute q1) else Inr q1)"

definition c2h_data_complete :: "tcp_env \<Rightarrow> bool \<Rightarrow> nat \<Rightarrow> tcp_qpair \<Rightarrow> fault + tcp_qpair" where
  "c2h_data_complete env success i q = (if success then request_free env i q else Inr (send_capsule_resp i q))"

definition req_pdu_write_done :: "tcp_env \<Rightarrow> bool \<Rightarrow> nat \<Rightarrow> tcp_qpair \<Rightarrow> fault + tcp_qpair" where
  "req_pdu_write_done env err i q =
     (let q1 = upd_req i (\<lambda>r. r\<lparr>tr_pdu_in_use := False\<rparr>) q in
      if tr_state (the_req q1 i) = TrCompleted then request_free env i q1
      else if err then Inr (tcp_disconnect q1)
      else case tr_sent (the_req q1 i) of
             SentNone \<Rightarrow> Inl NullDeref
           | SentR2t \<Rightarrow> r2t_complete env i q1
           | SentC2hData success \<Rightarrow> c2h_data_complete env success i q1
           | SentResp \<Rightarrow> request_free env i q1)"

definition mgmt_pdu_write_done :: "bool \<Rightarrow> tcp_mgmt \<Rightarrow> tcp_qpair \<Rightarrow> tcp_qpair" where
  "mgmt_pdu_write_done err m q =
     (let q1 = q\<lparr>tq_mgmt := None\<rparr> in
      if err then tcp_disconnect q1
      else case m of MgmtIcResp \<Rightarrow> q1\<lparr>tq_state := TqRunning\<rparr> | MgmtTerm \<Rightarrow> q1\<lparr>tq_timeout := True\<rparr>)"

definition req_complete :: "tcp_env \<Rightarrow> nat \<Rightarrow> spdk_nvme_status \<Rightarrow> bool \<Rightarrow> tcp_qpair \<Rightarrow> fault + tcp_qpair" where
  "req_complete env i st zero q =
     (let q1 = upd_req i (\<lambda>r. r\<lparr>tr_status := st, tr_rsp_zero := zero\<rparr>) q in
      req_process env i
        (case tr_state (the_req q1 i) of
           TrExecuting \<Rightarrow> req_set_state i TrExecuted q1
         | TrAwaitZcopyCommit \<Rightarrow> req_set_state i TrExecuted (upd_req i (\<lambda>r. r\<lparr>tr_zcopy_io := False\<rparr>) q1)
         | TrAwaitZcopyStart \<Rightarrow>
             req_set_state i TrZcopyStartCompleted (upd_req i (\<lambda>r. r\<lparr>tr_zcopy_io := \<not> cpl_is_error st\<rparr>) q1)
         | TrAwaitZcopyRelease \<Rightarrow> req_set_state i TrCompleted (upd_req i (\<lambda>r. r\<lparr>tr_zcopy_io := False\<rparr>) q1)
         | _ \<Rightarrow> q1))"

section \<open>Abort\<close>

definition set_abort_status :: "nat \<Rightarrow> tcp_qpair \<Rightarrow> tcp_qpair" where
  "set_abort_status i q = req_set_state i TrReadyToComplete (set_status i 0x07 q)"

definition find_abort :: "u16 \<Rightarrow> tcp_qpair \<Rightarrow> nat option" where
  "find_abort cid q =
     List.find (\<lambda>i. tr_state (the_req q i) \<noteq> TrFree \<and> tc_cid (tr_cmd (the_req q i)) = cid) [0..<length (tq_reqs q)]"

text \<open>\<open>_nvmf_tcp_qpair_abort_request\<close>; \<open>in_target\<close>: what the target answers when it is asked to abort a request that
  it executes, nothing meaning that it will answer later. A request that waits for its data is tried again until
  the time is over.\<close>

definition abort_request :: "tcp_env \<Rightarrow> bool option \<Rightarrow> bool \<Rightarrow> nat \<Rightarrow> tcp_qpair \<Rightarrow> fault + tcp_qpair" where
  "abort_request env in_target expired i q =
     (case tr_state (the_req q i) of
        TrNeedBuffer \<Rightarrow>
          bindR (req_process env i (set_abort_status i (remove_own i q))) (\<lambda>q1. Inr (emit (OutAbortDone True) q1))
      | TrZcopyStartCompleted \<Rightarrow> Inr (emit (OutAbortDone True) (set_abort_status i q))
      | s \<Rightarrow>
          if s = TrAwaitR2tAck \<or> s = TrTransferH2C then Inr (if expired then emit (OutAbortDone False) q else q)
          else if s = TrExecuting \<or> s = TrAwaitZcopyStart \<or> s = TrAwaitZcopyCommit
          then Inr (case in_target of None \<Rightarrow> q | Some b \<Rightarrow> emit (OutAbortDone b) q)
          else Inr (emit (OutAbortDone False) q))"

definition qpair_abort_request :: "tcp_env \<Rightarrow> bool option \<Rightarrow> u16 \<Rightarrow> tcp_qpair \<Rightarrow> fault + tcp_qpair" where
  "qpair_abort_request env in_target cid q =
     (case find_abort cid q of
        None \<Rightarrow> Inr (emit (OutAbortDone False) q)
      | Some i \<Rightarrow> abort_request env in_target False i q)"

section \<open>Polling and closing\<close>

text \<open>The requests that wait for buffers are processed in order, until one makes no progress.\<close>

fun poll_pending :: "tcp_env \<Rightarrow> tcp_pending list \<Rightarrow> tcp_qpair \<Rightarrow> fault + tcp_qpair" where
  "poll_pending env [] q = Inr q"
| "poll_pending env (PendOther # ps) q =
     (if tv_others_progress env then poll_pending env ps (q\<lparr>tq_pending := remove1 PendOther (tq_pending q)\<rparr>) else Inr q)"
| "poll_pending env (PendOwn i # ps) q =
     bindR (req_process env i q) (\<lambda>q1.
       if tr_state (the_req q1 i) = tr_state (the_req q i) then Inr q1 else poll_pending env ps q1)"

definition tcp_poll :: "tcp_env \<Rightarrow> tcp_qpair \<Rightarrow> fault + tcp_qpair" where
  "tcp_poll env q =
     bindR (poll_pending env (tq_pending q) q) (\<lambda>q1.
       if tq_recv q1 = RecvReq then capsule_cmd_hdr_handle env q1 else Inr q1)"

text \<open>\<open>spdk_sock_close\<close> ends the writes that are under way with an error.\<close>

fun abort_writes :: "tcp_env \<Rightarrow> nat list \<Rightarrow> tcp_qpair \<Rightarrow> fault + tcp_qpair" where
  "abort_writes env [] q = Inr q"
| "abort_writes env (i # is) q =
     bindR (if tr_pdu_in_use (the_req q i) then req_pdu_write_done env True i q else Inr q) (abort_writes env is)"

definition close_qpair :: "tcp_env \<Rightarrow> tcp_qpair \<Rightarrow> fault + tcp_qpair" where
  "close_qpair env q =
     bindR (abort_writes env [0..<length (tq_reqs q)] (q\<lparr>tq_state := TqExited, tq_active := False\<rparr>)) (\<lambda>q1.
     bindR (cleanup_all_states env q1) (\<lambda>q2. Inr (q2\<lparr>tq_timeout := False, tq_gone := True\<rparr>)))"

section \<open>Steps\<close>

datatype tcp_event =
    TcHeader tcp_pdu
  | TcPsh
  | TcSlot
  | TcPayload
  | TcCrcDone nat bool
  | TcMgmtWritten bool
  | TcWritten nat bool
  | TcComplete nat spdk_nvme_status bool
  | TcAbort u16 "bool option"
  | TcAbortRetry nat bool
  | TcPoll
  | TcSockError
  | TcTimeout
  | TcOtherWaits
  | TcOthersBuffers nat nat nat \<comment> \<open>what the other queue pairs leave: cache, pool, control messages\<close>
  | TcDeactivate \<comment> \<open>the NVMe-oF layer disconnects the queue pair\<close>
  | TcClose

definition if_ready :: "bool \<Rightarrow> tcp_qpair \<Rightarrow> fault + tcp_qpair \<Rightarrow> fault + tcp_qpair" where
  "if_ready b q r = (if b then r else Inr q)"

definition tcp_step :: "tcp_qpair \<Rightarrow> tcp_env \<times> tcp_event \<Rightarrow> fault + tcp_qpair" where
  "tcp_step q ee =
     (case ee of (env, e) \<Rightarrow>
      if tq_gone q then Inr q
      else bindR (case e of
        TcHeader pdu \<Rightarrow>
          if_ready (tq_recv q = RecvCh \<and> tq_state q \<noteq> TqInitializing) q (Inr (ch_handle pdu q))
      | TcPsh \<Rightarrow> if_ready (tq_recv q = RecvPsh) q (psh_handle q)
      | TcSlot \<Rightarrow> if_ready (tq_recv q = RecvReq) q (capsule_cmd_hdr_handle env q)
      | TcPayload \<Rightarrow> if_ready (tq_recv q = RecvPayload \<and> tq_data_len q \<noteq> 0) q (payload_handle env q)
      | TcCrcDone n ok \<Rightarrow>
          if_ready (n < length (tq_crc q)) q
            (payload_done env ok (tq_crc q ! n) (q\<lparr>tq_crc := remove_nth n (tq_crc q)\<rparr>))
      | TcMgmtWritten err \<Rightarrow> (case tq_mgmt q of None \<Rightarrow> Inr q | Some m \<Rightarrow> Inr (mgmt_pdu_write_done err m q))
      | TcWritten i err \<Rightarrow>
          if_ready (i < length (tq_reqs q) \<and> tr_pdu_in_use (the_req q i)) q (req_pdu_write_done env err i q)
      | TcComplete i st zero \<Rightarrow>
          if_ready (i < length (tq_reqs q) \<and>
              tr_state (the_req q i) \<in> {TrExecuting, TrAwaitZcopyStart, TrAwaitZcopyCommit, TrAwaitZcopyRelease}) q
            (req_complete env i st zero q)
      | TcAbort cid in_target \<Rightarrow> qpair_abort_request env in_target cid q
      | TcAbortRetry i expired \<Rightarrow>
          if_ready (i < length (tq_reqs q) \<and> tr_state (the_req q i) \<in> {TrAwaitR2tAck, TrTransferH2C}) q
            (abort_request env None expired i q)
      | TcPoll \<Rightarrow> tcp_poll env q
      | TcSockError \<Rightarrow> Inr (tcp_disconnect q)
      | TcTimeout \<Rightarrow> if_ready (tq_timeout q) q (Inr (tcp_disconnect q))
      | TcOtherWaits \<Rightarrow> Inr (q\<lparr>tq_pending := tq_pending q @ [PendOther]\<rparr>)
      | TcOthersBuffers c p m \<Rightarrow> Inr (q\<lparr>tq_cache := c, tq_pool := p, tq_control_msgs := m\<rparr>)
      | TcDeactivate \<Rightarrow> Inr (q\<lparr>tq_active := False\<rparr>)
      | TcClose \<Rightarrow> if_ready (\<not> tq_active q) q (close_qpair env q))
        (\<lambda>q'. Inr (take_pdu q')))"

text \<open>A new queue pair with \<open>n\<close> slots.\<close>

definition new_req :: tcp_req where
  "new_req = \<lparr>tr_state = TrFree, tr_cmd = no_cmd, tr_length = 0, tr_data = None, tr_iov = None, tr_iovcnt = 0,
     tr_from_pool = False, tr_icd = False, tr_h2c_offset = 0, tr_pdu_in_use = False, tr_sent = SentNone,
     tr_fused_pair = None, tr_fused_failed = False, tr_status = st_success, tr_rsp_zero = True, tr_zcopy = False,
     tr_zcopy_io = False\<rparr>"

definition new_tcp_qpair :: "nat \<Rightarrow> bool \<Rightarrow> nat \<Rightarrow> nat \<Rightarrow> nat \<Rightarrow> tcp_qpair" where
  "new_tcp_qpair n admin cache pool msgs =
     \<lparr>tq_reqs = replicate n new_req, tq_free = [0..<n], tq_working = [],
      tq_cntr = (\<lambda>s. if s = TrFree then of_nat n else 0), tq_recv = RecvCh, tq_state = TqInvalid, tq_pdu = zero_pdu,
      tq_pdu_req = None, tq_data_len = 0, tq_crc = [], tq_cpda = 0, tq_hdgst = True, tq_ddgst = True,
      tq_fused_first = None, tq_mgmt = None, tq_timeout = False, tq_active = True, tq_admin = admin, tq_sq_head = 0,
      tq_sq_head_max = of_nat n - 1, tq_pending = [], tq_cache = cache, tq_cache_size = cache, tq_pool = pool,
      tq_control_msgs = msgs, tq_out = [], tq_gone = False\<rparr>"

end
