(* ===== verification/Tcp_Props.thy ===== *)
theory Tcp_Props
  imports Tcp
begin

text \<open>
  What holds of a queue pair of the TCP transport: processing a request always ends and the counters of its
  states are exact in every reachable state, which PDU headers are accepted, where data begin in the PDUs that are sent,
  how a command without data is executed; and what a host can do that the code does not stand.
\<close>

section \<open>States of the slots\<close>

abbreviation tst :: "tcp_qpair \<Rightarrow> nat \<Rightarrow> tcp_req_state" where
  "tst q i \<equiv> tr_state (tq_reqs q ! i)"

abbreviation slots :: "tcp_qpair \<Rightarrow> nat" where
  "slots q \<equiv> length (tq_reqs q)"

definition cntr_ok :: "tcp_qpair \<Rightarrow> bool" where
  "cntr_ok q \<longleftrightarrow> (\<forall>s. tq_cntr q s = of_nat (card {i. i < slots q \<and> tst q i = s}))"

text \<open>Every number of a slot that is kept anywhere is the number of a slot.\<close>

definition in_range :: "tcp_qpair \<Rightarrow> bool" where
  "in_range q \<longleftrightarrow>
     (\<forall>i \<in> set (tq_free q) \<union> set (tq_working q). i < slots q) \<and>
     (\<forall>i. PendOwn i \<in> set (tq_pending q) \<longrightarrow> i < slots q) \<and>
     (\<forall>i. tq_fused_first q = Some i \<longrightarrow> i < slots q) \<and>
     (\<forall>r \<in> set (tq_reqs q). \<forall>i. tr_fused_pair r = Some i \<longrightarrow> i < slots q) \<and>
     (\<forall>i. tq_pdu_req q = Some i \<longrightarrow> i < slots q) \<and>
     (\<forall>p \<in> set (tq_crc q). \<forall>i. fst (snd p) = Some i \<longrightarrow> i < slots q)"

definition base :: "tcp_qpair \<Rightarrow> bool" where
  "base q \<longleftrightarrow> cntr_ok q \<and> in_range q"

lemma in_range_pair:
  "in_range q \<Longrightarrow> i < slots q \<Longrightarrow> tr_fused_pair (the_req q i) = Some j \<Longrightarrow> j < slots q"
  by (auto simp: in_range_def dest: nth_mem)

text \<open>Every change of a field that none of this depends on.\<close>

definition same_slots :: "tcp_qpair \<Rightarrow> tcp_qpair \<Rightarrow> bool" where
  "same_slots q q' \<longleftrightarrow> map tr_state (tq_reqs q') = map tr_state (tq_reqs q) \<and> tq_cntr q' = tq_cntr q \<and>
     tq_active q' = tq_active q \<and> (in_range q \<longrightarrow> in_range q')"

lemma same_slotsD:
  assumes "same_slots q q'"
  shows "slots q' = slots q" and "i < slots q \<Longrightarrow> tst q' i = tst q i"
    and "tq_active q' = tq_active q" and "base q \<Longrightarrow> base q'"
proof -
  have m: "map tr_state (tq_reqs q') = map tr_state (tq_reqs q)" using assms by (simp add: same_slots_def)
  show l: "slots q' = slots q" using m by (rule map_eq_imp_length_eq)
  have t: "tst q' i = tst q i" if "i < slots q" for i
    using m that l by (metis nth_map)
  then show "i < slots q \<Longrightarrow> tst q' i = tst q i" .
  show "tq_active q' = tq_active q" using assms by (simp add: same_slots_def)
  have e: "{i. i < slots q' \<and> tst q' i = x} = {i. i < slots q \<and> tst q i = x}" for x using l t by auto
  show "base q \<Longrightarrow> base q'" using assms e by (simp add: base_def cntr_ok_def same_slots_def)
qed

lemma same_refl [intro!, simp]: "same_slots q q"
  by (simp add: same_slots_def)

lemma same_slots_trans: "same_slots a b \<Longrightarrow> same_slots b c \<Longrightarrow> same_slots a c"
  by (simp add: same_slots_def)

lemma upd_req_simps [simp]:
  "slots (upd_req i f q) = slots q" "tq_cntr (upd_req i f q) = tq_cntr q" "tq_free (upd_req i f q) = tq_free q"
  "tq_working (upd_req i f q) = tq_working q" "tq_pending (upd_req i f q) = tq_pending q"
  "tq_active (upd_req i f q) = tq_active q" "tq_fused_first (upd_req i f q) = tq_fused_first q"
  "tq_pdu_req (upd_req i f q) = tq_pdu_req q" "tq_crc (upd_req i f q) = tq_crc q"
  by (simp_all add: upd_req_def)

lemma pairs_upd:
  assumes "\<And>r j. tr_fused_pair (f r) = Some j \<Longrightarrow> tr_fused_pair r = Some j \<or> j < slots q"
    and "\<forall>r \<in> set (tq_reqs q). \<forall>j. tr_fused_pair r = Some j \<longrightarrow> j < slots q"
  shows "\<forall>r \<in> set (tq_reqs (upd_req i f q)). \<forall>j. tr_fused_pair r = Some j \<longrightarrow> j < slots q"
proof (cases "i < slots q")
  case True
  have "\<forall>j. tr_fused_pair (f (the_req q i)) = Some j \<longrightarrow> j < slots q"
    using assms(1) [of "the_req q i"] assms(2) nth_mem [OF True] by blast
  moreover have "set (tq_reqs (upd_req i f q)) \<subseteq> insert (f (the_req q i)) (set (tq_reqs q))"
    unfolding upd_req_def by (simp add: set_update_subset_insert)
  ultimately show ?thesis using assms(2) by blast
next
  case False
  then show ?thesis using assms(2) by (simp add: upd_req_def list_update_beyond)
qed

lemma same_upd:
  assumes st: "\<And>r. tr_state (f r) = tr_state r"
    and pr: "\<And>r j. tr_fused_pair (f r) = Some j \<Longrightarrow> tr_fused_pair r = Some j \<or> j < slots q"
  shows "same_slots q (upd_req i f q)"
proof -
  have "map tr_state (tq_reqs (upd_req i f q)) = map tr_state (tq_reqs q)"
  proof (cases "i < slots q")
    case True
    then show ?thesis by (simp add: upd_req_def map_update st list_update_same_conv)
  qed (simp add: upd_req_def list_update_beyond)
  moreover have "in_range (upd_req i f q)" if r: "in_range q"
  proof -
    note d = r [unfolded in_range_def]
    have p: "\<forall>r \<in> set (tq_reqs (upd_req i f q)). \<forall>j. tr_fused_pair r = Some j \<longrightarrow> j < slots q"
      by (rule pairs_upd) (use pr d in blast)+
    show ?thesis unfolding in_range_def upd_req_simps using d p by blast
  qed
  ultimately show ?thesis by (simp add: same_slots_def)
qed

lemma set_state_simps [simp]:
  "slots (req_set_state i s q) = slots q" "tq_free (req_set_state i s q) = tq_free q"
  "tq_working (req_set_state i s q) = tq_working q" "tq_pending (req_set_state i s q) = tq_pending q"
  "tq_active (req_set_state i s q) = tq_active q" "tq_fused_first (req_set_state i s q) = tq_fused_first q"
  "tq_pdu_req (req_set_state i s q) = tq_pdu_req q" "tq_crc (req_set_state i s q) = tq_crc q"
  by (simp_all add: req_set_state_def Let_def)

lemma tst_set_state: "i < slots q \<Longrightarrow> tst (req_set_state i s q) k = (if k = i then s else tst q k)"
  by (simp add: req_set_state_def upd_req_def Let_def nth_list_update)

lemma pair_set_state: "tr_fused_pair (the_req (req_set_state i s q) k) = tr_fused_pair (the_req q k)"
proof (cases "i < slots q")
  case True
  then show ?thesis by (cases "k = i") (simp_all add: req_set_state_def upd_req_def Let_def)
next
  case False
  then show ?thesis by (simp add: req_set_state_def upd_req_def Let_def list_update_beyond)
qed

lemma range_set_state: "in_range (req_set_state i s q) = in_range q"
proof -
  have "(\<forall>r \<in> set (tq_reqs q). P (tr_fused_pair r)) = (\<forall>k < slots q. P (tr_fused_pair (the_req q k)))" for q P
    by (auto simp: all_set_conv_all_nth)
  then have "(\<forall>r \<in> set (tq_reqs (req_set_state i s q)). P (tr_fused_pair r)) = (\<forall>r \<in> set (tq_reqs q). P (tr_fused_pair r))"
    for P by (simp add: pair_set_state)
  from this [of "\<lambda>x. \<forall>j. x = Some j \<longrightarrow> j < slots q"] show ?thesis by (simp add: in_range_def)
qed

lemma cntr_set_state:
  assumes c: "cntr_ok q" and i: "i < slots q"
  shows "cntr_ok (req_set_state i s q)"
proof -
  let ?S = "\<lambda>q s. {k. k < slots q \<and> tst q k = s}"
  have fin: "finite (?S q' x)" for q' :: tcp_qpair and x by simp
  have old: "tq_cntr q x = of_nat (card (?S q x))" for x using c by (simp add: cntr_ok_def)
  show ?thesis
  proof (cases "tst q i = s")
    case True
    then have "?S (req_set_state i s q) x = ?S q x" for x using i by (auto simp: tst_set_state)
    moreover have "tq_cntr (req_set_state i s q) = tq_cntr q"
      using True by (simp add: req_set_state_def Let_def fun_eq_iff)
    ultimately show ?thesis using old by (simp add: cntr_ok_def)
  next
    case False
    have ins: "?S (req_set_state i s q) s = insert i (?S q s)" using i by (auto simp: tst_set_state)
    have rm: "?S (req_set_state i s q) (tst q i) = ?S q (tst q i) - {i}" using i False by (auto simp: tst_set_state)
    have oth: "?S (req_set_state i s q) x = ?S q x" if "x \<noteq> s" "x \<noteq> tst q i" for x
      using that i by (auto simp: tst_set_state)
    have c1: "card (?S (req_set_state i s q) s) = Suc (card (?S q s))"
      unfolding ins by (rule card_insert_disjoint) (use False in auto)
    have mem: "i \<in> ?S q (tst q i)" using i by simp
    have c2: "Suc (card (?S (req_set_state i s q) (tst q i))) = card (?S q (tst q i))"
      unfolding rm by (rule card_Suc_Diff1 [OF fin mem])
    have cn: "tq_cntr (req_set_state i s q) x =
        (if x = s then tq_cntr q s + 1 else if x = tst q i then tq_cntr q x - 1 else tq_cntr q x)" for x
      using False by (auto simp: req_set_state_def Let_def)
    have "tq_cntr q (tst q i) = of_nat (card (?S (req_set_state i s q) (tst q i))) + 1"
      unfolding old c2 [symmetric] by simp
    then show ?thesis
      unfolding cntr_ok_def cn using c1 oth old False by auto
  qed
qed

lemma base_set_state: "base q \<Longrightarrow> i < slots q \<Longrightarrow> base (req_set_state i s q)"
  by (simp add: base_def cntr_set_state range_set_state)

lemma same_remove_own [intro!, simp]: "same_slots q (remove_own i q)"
  by (auto simp: remove_own_def same_slots_def in_range_def dest: notin_set_remove1)

lemma same_field:
  "(\<And>r. tr_state (f r) = tr_state r \<and> tr_fused_pair (f r) = tr_fused_pair r) \<Longrightarrow> same_slots q (upd_req i f q)"
  by (rule same_upd) simp_all

section \<open>Fields that do not matter\<close>

lemma same_record [intro!, simp]:
  "same_slots q (q\<lparr>tq_recv := a\<rparr>)" "same_slots q (q\<lparr>tq_data_len := b\<rparr>)" "same_slots q (q\<lparr>tq_pdu := c\<rparr>)"
  "same_slots q (q\<lparr>tq_mgmt := f\<rparr>)"
  "same_slots q (q\<lparr>tq_out := g\<rparr>)" "same_slots q (q\<lparr>tq_sq_head := h\<rparr>)"
  "same_slots q (q\<lparr>tq_control_msgs := k\<rparr>)" "same_slots q (q\<lparr>tq_cache := l\<rparr>)" "same_slots q (q\<lparr>tq_pool := l\<rparr>)"
  "same_slots q (q\<lparr>tq_timeout := m\<rparr>)" "same_slots q (q\<lparr>tq_state := n\<rparr>)" "same_slots q (q\<lparr>tq_gone := m\<rparr>)"
  "same_slots q (q\<lparr>tq_cpda := o1\<rparr>)" "same_slots q (q\<lparr>tq_hdgst := m\<rparr>)" "same_slots q (q\<lparr>tq_ddgst := m\<rparr>)"
  by (simp_all add: same_slots_def in_range_def)

lemma same_emit [intro!, simp]: "same_slots q (emit x q)"
  by (simp add: emit_def)

lemma same_set_recv [intro!, simp]: "same_slots q (set_recv s q)"
  by (simp add: set_recv_def)

lemma same_status [intro!, simp]: "same_slots q (set_status i sc q)"
  unfolding set_status_def by (rule same_field) simp

lemma same_write [intro!, simp]: "same_slots q (write_req_pdu i s q)"
  unfolding write_req_pdu_def by (rule same_field) simp

lemma same_term [intro!, simp]: "same_slots q (send_c2h_term_req fes q)"
  by (simp add: send_c2h_term_req_def emit_def same_slots_def in_range_def)

lemma same_resp [intro!, simp]: "same_slots q (send_capsule_resp i q)"
  unfolding send_capsule_resp_def by (rule same_slots_trans [OF same_emit same_write])

lemma same_c2h [intro!, simp]: "same_slots q (send_c2h_data env i q)"
  unfolding send_c2h_data_def Let_def by (rule same_slots_trans [OF same_emit same_write])

lemma same_get_buffers: "same_slots q (snd (get_buffers env i len q))"
  unfolding get_buffers_def Let_def
  by (auto intro!: same_field same_slots_trans [OF _ same_field])
     (auto simp: same_slots_def in_range_def)

lemma same_free_buffers: "same_slots q (free_buffers i q)"
  unfolding free_buffers_def Let_def
  by (rule same_slots_trans [OF _ same_field]) (auto simp: same_slots_def in_range_def)

lemma same_release: "same_slots q (release_data env i q)"
  by (simp add: release_data_def same_free_buffers Let_def)

lemma same_parse: "same_slots q (snd (parse_sgl env i q))"
proof -
  have u: "same_slots q (upd_req i f q)" if "\<And>r. tr_state (f r) = tr_state r \<and> tr_fused_pair (f r) = tr_fused_pair r" for f q using same_field that .
  have t: "same_slots q (snd (parse_transport_sgl env i q))"
  proof -
    let ?q1 = "upd_req i (\<lambda>r. r\<lparr>tr_length := tc_sgl_length (tr_cmd (the_req q i))\<rparr>) q"
    obtain ok q2 where g: "get_buffers env i (tc_sgl_length (tr_cmd (the_req q i))) ?q1 = (ok, q2)" by fastforce
    have s1: "same_slots q ?q1" by (rule u) simp
    have s2: "same_slots ?q1 q2" using same_get_buffers [of ?q1 env i "tc_sgl_length (tr_cmd (the_req q i))"] g by simp
    have s3: "same_slots q (upd_req i (\<lambda>r. r\<lparr>tr_zcopy := True, tr_from_pool := False\<rparr>) ?q1)"
      by (rule same_slots_trans [OF s1 u]) simp
    have s4: "same_slots q (upd_req i (\<lambda>r. r\<lparr>tr_data := tr_iov r\<rparr>) q2)"
      by (rule same_slots_trans [OF same_slots_trans [OF s1 s2] u]) simp
    show ?thesis
      unfolding parse_transport_sgl_def Let_def g
      using s3 s4 same_slots_trans [OF s1 s2] by (cases ok) simp_all
  qed
  have c: "same_slots q (snd (parse_capsule_sgl env i q))"
    unfolding parse_capsule_sgl_def Let_def use_capsule_data_def
    by (auto intro!: u same_slots_trans [OF _ u])
  show ?thesis using t c by (auto simp: parse_sgl_def split: tcp_sgl_type.split)
qed

section \<open>One round\<close>

definition rank :: "tcp_req_state \<Rightarrow> nat" where
  "rank s = (case s of TrFree \<Rightarrow> 15 | TrNew \<Rightarrow> 1 | TrNeedBuffer \<Rightarrow> 2 | TrAwaitZcopyStart \<Rightarrow> 3 | TrZcopyStartCompleted \<Rightarrow> 4
     | TrTransferH2C \<Rightarrow> 5 | TrAwaitR2tAck \<Rightarrow> 6 | TrReadyToExecute \<Rightarrow> 7 | TrExecuting \<Rightarrow> 8 | TrAwaitZcopyCommit \<Rightarrow> 9
     | TrExecuted \<Rightarrow> 10 | TrReadyToComplete \<Rightarrow> 11 | TrTransferC2H \<Rightarrow> 12 | TrCompleted \<Rightarrow> 13 | TrAwaitZcopyRelease \<Rightarrow> 14)"

lemma rank_le: "rank s \<le> 15"
  by (cases s) (simp_all add: rank_def)

text \<open>What processing the request in slot \<open>i\<close> may do: of the others it changes only those that wait to be executed.\<close>

definition moved :: "nat \<Rightarrow> tcp_qpair \<Rightarrow> tcp_qpair \<Rightarrow> bool" where
  "moved i q q' \<longleftrightarrow> base q' \<and> slots q' = slots q \<and> tq_active q' = tq_active q \<and>
     (\<forall>k < slots q. k \<noteq> i \<longrightarrow> tst q k \<noteq> TrReadyToExecute \<longrightarrow> tst q' k = tst q k) \<and>
     (\<forall>k < slots q. k \<noteq> i \<longrightarrow> tst q' k = TrReadyToExecute \<longrightarrow> tst q k = TrReadyToExecute)"

lemma moved_same: "base q \<Longrightarrow> same_slots q q' \<Longrightarrow> moved i q q'"
  using same_slotsD [of q q'] by (auto simp: moved_def)

lemma movedD:
  assumes "moved i a b"
  shows "base b" "slots b = slots a" "tq_active b = tq_active a"
    and "k < slots a \<Longrightarrow> k \<noteq> i \<Longrightarrow> tst a k \<noteq> TrReadyToExecute \<Longrightarrow> tst b k = tst a k"
    and "k < slots a \<Longrightarrow> k \<noteq> i \<Longrightarrow> tst b k = TrReadyToExecute \<Longrightarrow> tst a k = TrReadyToExecute"
  using assms unfolding moved_def by blast+

lemma moved_trans:
  assumes ab: "moved i a b" and bc: "moved i b c"
  shows "moved i a c"
proof -
  note s = movedD(2) [OF ab]
  have 1: "tst c k = tst a k" if "k < slots a" "k \<noteq> i" "tst a k \<noteq> TrReadyToExecute" for k
  proof -
    have b: "tst b k = tst a k" by (rule movedD(4) [OF ab that])
    have "tst c k = tst b k" by (rule movedD(4) [OF bc]) (use that b s in simp_all)
    then show ?thesis using b by (rule trans)
  qed
  have 2: "tst a k = TrReadyToExecute" if "k < slots a" "k \<noteq> i" "tst c k = TrReadyToExecute" for k
    by (rule movedD(5) [OF ab that(1,2)], rule movedD(5) [OF bc]) (use that s in simp_all)
  have "slots c = slots a" "tq_active c = tq_active a" by (simp_all only: movedD(2,3) [OF ab] movedD(2,3) [OF bc])
  show ?thesis
    unfolding moved_def
  proof (intro conjI allI impI)
    fix k
    assume k: "k < slots a" "k \<noteq> i"
    show "tst c k = tst a k" if "tst a k \<noteq> TrReadyToExecute" by (rule 1 [OF k that])
    show "tst a k = TrReadyToExecute" if "tst c k = TrReadyToExecute" by (rule 2 [OF k that])
  qed (fact movedD(1) [OF bc] \<open>slots c = slots a\<close> \<open>tq_active c = tq_active a\<close>)+
qed

lemma moved_refl: "base q \<Longrightarrow> moved i q q"
  by (rule moved_same) simp_all

lemma moved_then_same: "moved i a b \<Longrightarrow> same_slots b c \<Longrightarrow> moved i a c"
  by (rule moved_trans [OF _ moved_same]) (auto dest: movedD(1))

lemma same_then_moved: "base a \<Longrightarrow> same_slots a b \<Longrightarrow> moved i b c \<Longrightarrow> moved i a c"
  by (rule moved_trans [OF moved_same])

lemma moved_set: "base q \<Longrightarrow> i < slots q \<Longrightarrow> moved i q (req_set_state i s q)"
  using base_set_state by (simp add: moved_def tst_set_state)

text \<open>A request that waits to be executed may move while another is processed.\<close>

lemma moved_other:
  assumes m: "moved f q q'" and f: "f < slots q" "tst q f = TrReadyToExecute"
  shows "moved i q q'"
  unfolding moved_def
proof (intro conjI allI impI)
  fix k
  assume k: "k < slots q"
  show "tst q' k = tst q k" if "tst q k \<noteq> TrReadyToExecute"
    by (rule movedD(4) [OF m k]) (use that f in auto)
  show "tst q k = TrReadyToExecute" if "tst q' k = TrReadyToExecute"
    using movedD(5) [OF m k _ that] f(2) by blast
qed (fact movedD(1-3) [OF m])+

text \<open>How many requests other than \<open>i\<close> wait to be executed, and what a nested call is assumed to do.\<close>

definition ready_others :: "nat \<Rightarrow> tcp_qpair \<Rightarrow> nat" where
  "ready_others i q = card {k. k < slots q \<and> k \<noteq> i \<and> tst q k = TrReadyToExecute}"

definition kick_ok :: "nat \<Rightarrow> (nat \<Rightarrow> tcp_qpair \<Rightarrow> fault + tcp_qpair) \<Rightarrow> bool" where
  "kick_ok d kick \<longleftrightarrow>
     (\<forall>k q. base q \<longrightarrow> k < slots q \<longrightarrow> ready_others k q < d \<longrightarrow> (\<exists>q'. kick k q = Inr q' \<and> moved k q q'))"

lemma ready_others_moved: "moved i q q' \<Longrightarrow> ready_others i q' \<le> ready_others i q"
  unfolding ready_others_def by (rule card_mono) (auto simp: movedD(2) dest: movedD(5))

lemma ready_others_same: "same_slots q q' \<Longrightarrow> ready_others i q' = ready_others i q"
  unfolding ready_others_def using same_slotsD(1,2) [of q q'] by (metis (no_types, lifting))

lemma ready_others_kick:
  assumes "f < slots q" "tst q f = TrReadyToExecute" "tst q i \<noteq> TrReadyToExecute"
  shows "ready_others f q < ready_others i q"
proof -
  have "{k. k < slots q \<and> k \<noteq> f \<and> tst q k = TrReadyToExecute} \<subset> {k. k < slots q \<and> k \<noteq> i \<and> tst q k = TrReadyToExecute}"
    using assms by auto
  then show ?thesis unfolding ready_others_def by (rule psubset_card_mono [rotated]) simp
qed

lemma kicked:
  assumes k: "kick_ok d kick" and b: "base q" and f: "f < slots q" "tst q f = TrReadyToExecute"
    and i: "tst q i \<noteq> TrReadyToExecute" "i < slots q" and d: "ready_others i q \<le> d"
  obtains q' where "kick f q = Inr q'" and "moved i q q'" and "tst q' i = tst q i"
proof -
  have "ready_others f q < d" using ready_others_kick [OF f i(1)] d by simp
  then obtain q' where q': "kick f q = Inr q'" "moved f q q'" using k b f(1) unfolding kick_ok_def by blast
  have "i \<noteq> f" using f i by auto
  then have "tst q' i = tst q i" using movedD(4) [OF q'(2) i(2)] i(1) by blast
  then show thesis using that q'(1) moved_other [OF q'(2) f] by blast
qed

text \<open>The result of a round.\<close>

definition round_ok :: "nat \<Rightarrow> tcp_qpair \<Rightarrow> fault + tcp_qpair \<Rightarrow> bool" where
  "round_ok i q r \<longleftrightarrow>
     (\<exists>q'. r = Inr q' \<and> moved i q q' \<and> (tst q' i = tst q i \<or> rank (tst q i) < rank (tst q' i)))"

lemma round_okI:
  "moved i q q' \<Longrightarrow> tst q' i = tst q i \<or> rank (tst q i) < rank (tst q' i) \<Longrightarrow> round_ok i q (Inr q')"
  by (simp add: round_ok_def)

lemma round_same: "base q \<Longrightarrow> i < slots q \<Longrightarrow> same_slots q q' \<Longrightarrow> round_ok i q (Inr q')"
  by (rule round_okI) (simp_all add: moved_same same_slotsD)

text \<open>Changes of fields around one change of state.\<close>

lemma round_set:
  assumes b: "base q" and i: "i < slots q" and s1: "same_slots q q1" and s2: "same_slots (req_set_state i s q1) q2"
    and r: "rank (tst q i) < rank s"
  shows "round_ok i q (Inr q2)"
proof (rule round_okI)
  have i1: "i < slots q1" using i s1 by (simp add: same_slotsD)
  have "moved i q1 (req_set_state i s q1)" by (rule moved_set [OF same_slotsD(4) [OF s1 b] i1])
  then show "moved i q q2" by (rule moved_then_same [OF same_then_moved [OF b s1] s2])
  have "tst q2 i = s" using same_slotsD(2) [OF s2] i1 by (simp add: tst_set_state)
  then show "tst q2 i = tst q i \<or> rank (tst q i) < rank (tst q2 i)" using r by simp
qed

lemma round_after:
  assumes "moved i q q1" and "tst q1 i = tst q i" and "round_ok i q1 r"
  shows "round_ok i q r"
  using assms moved_trans unfolding round_ok_def by metis

lemma same_fused_first: "j = None \<or> (\<exists>i. j = Some i \<and> i < slots q) \<Longrightarrow> same_slots q (q\<lparr>tq_fused_first := j\<rparr>)"
  by (auto simp: same_slots_def in_range_def)

lemma same_pair: "j = None \<or> (\<exists>k. j = Some k \<and> k < slots q) \<Longrightarrow> same_slots q (upd_req i (\<lambda>r. r\<lparr>tr_fused_pair := j\<rparr>) q)"
  by (rule same_upd) auto

text \<open>The other command of a fused pair fails.\<close>

lemma fail_other:
  assumes k: "kick_ok d kick" and b: "base q" and f: "f < slots q" and i: "i < slots q" "tst q i \<noteq> TrReadyToExecute"
    and d: "ready_others i q \<le> d"
  defines "a \<equiv> upd_req f (\<lambda>r. r\<lparr>tr_fused_failed := True\<rparr>) q"
  shows "\<exists>q2. (if tst a f = TrReadyToExecute then kick f a else Inr a) = Inr q2 \<and> moved i q q2 \<and> tst q2 i = tst q i"
proof -
  have sa: "same_slots q a" unfolding a_def by (rule same_field) simp
  have ia: "i < slots a" "tst a i = tst q i" using i same_slotsD(1,2) [OF sa] by simp_all
  show ?thesis
  proof (cases "tst a f = TrReadyToExecute")
    case True
    have d': "ready_others i a \<le> d" and f': "f < slots a"
      using d f ready_others_same [OF sa] same_slotsD(1) [OF sa] by simp_all
    obtain q2 where "kick f a = Inr q2" "moved i a q2" "tst q2 i = tst a i"
      using kicked [OF k same_slotsD(4) [OF sa b] f' True _ ia(1) d'] ia(2) i(2) by auto
    then show ?thesis using True ia same_then_moved [OF b sa] by auto
  next
    case False
    then show ?thesis using moved_same [OF b sa] ia by auto
  qed
qed

lemma fused_ordering_ok:
  assumes k: "kick_ok d kick" and b: "base q" and i: "i < slots q" "tst q i = TrNew" and d: "ready_others i q \<le> d"
  shows "\<exists>q'. check_fused_ordering kick i q = Inr q' \<and> moved i q q' \<and> tst q' i = TrNew"
proof -
  define rem where "rem = (\<lambda>q'. if tc_fuse (tr_cmd (the_req q i)) = FuseFirst then q'\<lparr>tq_fused_first := Some i\<rparr>
    else if tc_fuse (tr_cmd (the_req q i)) = FuseSecond then upd_req i (\<lambda>r. r\<lparr>tr_fused_failed := True\<rparr>) q' else q')"
  have rem: "same_slots q' (rem q')" if "slots q' = slots q" for q'
    using that i(1) unfolding rem_def by (auto intro!: same_field same_fused_first)
  have fin: "\<exists>q'. Inr a = Inr q' \<and> moved i q q' \<and> tst q' i = TrNew" if "same_slots q a" for a :: tcp_qpair
    using moved_same [OF b that] same_slotsD(2) [OF that i(1)] i(2) by simp
  show ?thesis
  proof (cases "tq_fused_first q")
    case None
    then show ?thesis using fin [OF rem [OF refl]] unfolding check_fused_ordering_def Let_def rem_def by simp
  next
    case (Some f)
    have f: "f < slots q" using b Some by (simp add: base_def in_range_def)
    let ?l = "tc_fuse (tr_cmd (the_req q f))" and ?fuse = "tc_fuse (tr_cmd (the_req q i))"
    consider (other) "?l \<noteq> FuseFirst" | (pair) "?l = FuseFirst" "?fuse = FuseSecond" | (fail) "?l = FuseFirst" "?fuse \<noteq> FuseSecond"
      by blast
    then show ?thesis
    proof cases
      case other
      then have "check_fused_ordering kick i q = Inr (rem q)"
        using Some unfolding check_fused_ordering_def Let_def rem_def by (simp split: tcp_fuse.split)
      then show ?thesis using fin [OF rem [OF refl]] by simp
    next
      case pair
      let ?a = "upd_req f (\<lambda>r. r\<lparr>tr_fused_pair := Some i\<rparr>) q" and ?p = "\<lambda>q. upd_req i (\<lambda>r. r\<lparr>tr_fused_pair := Some f\<rparr>) q"
      have "same_slots q ?a" by (rule same_pair) (use i in simp)
      moreover have "same_slots ?a (?p ?a)" by (rule same_pair) (use f in simp)
      moreover have "same_slots (?p ?a) ((?p ?a)\<lparr>tq_fused_first := None\<rparr>)" by (rule same_fused_first) simp
      ultimately have "same_slots q ((?p ?a)\<lparr>tq_fused_first := None\<rparr>)" by (blast intro: same_slots_trans)
      from fin [OF this] show ?thesis using pair Some unfolding check_fused_ordering_def Let_def by simp
    next
      case fail
      let ?a = "upd_req f (\<lambda>r. r\<lparr>tr_fused_failed := True\<rparr>) q"
      obtain q2 where q2: "(if tst ?a f = TrReadyToExecute then kick f ?a else Inr ?a) = Inr q2" "moved i q q2" "tst q2 i = TrNew"
        using fail_other [OF k b f i(1) _ d] i(2) by auto
      let ?r = "rem (q2\<lparr>tq_fused_first := None\<rparr>)"
      have "same_slots q2 (q2\<lparr>tq_fused_first := None\<rparr>)" by (rule same_fused_first) simp
      moreover have "same_slots (q2\<lparr>tq_fused_first := None\<rparr>) ?r" by (rule rem) (use movedD(2) [OF q2(2)] in simp)
      ultimately have s: "same_slots q2 ?r" by (rule same_slots_trans)
      have "tst ?r i = TrNew" using same_slotsD(2) [OF s, of i] movedD(2) [OF q2(2)] i(1) q2(3) by simp
      moreover have "check_fused_ordering kick i q = Inr ?r"
        using fail Some q2(1) unfolding check_fused_ordering_def Let_def rem_def by simp
      ultimately show ?thesis using moved_then_same [OF q2(2) s] by blast
    qed
  qed
qed

lemma new_ok:
  assumes k: "kick_ok d kick" and b: "base q" and i: "i < slots q" "tst q i = TrNew" and d: "ready_others i q \<le> d"
  shows "round_ok i q (process_new kick i q)"
proof -
  let ?a = "upd_req i (\<lambda>r. r\<lparr>tr_cmd := pd_cmd (tq_pdu q)\<rparr>) q"
  have sa: "same_slots q ?a" by (rule same_field) simp
  have ia: "i < slots ?a" "tst ?a i = TrNew" using i same_slotsD(1,2) [OF sa] by simp_all
  obtain q1 where q1: "check_fused_ordering kick i ?a = Inr q1" "moved i ?a q1" "tst q1 i = TrNew"
    using fused_ordering_ok [OF k same_slotsD(4) [OF sa b] ia] d ready_others_same [OF sa] by auto
  have m: "moved i q q1" by (rule same_then_moved [OF b sa q1(2)])
  have b1: "base q1" and i1: "i < slots q1" using movedD(1,2) [OF m] i by simp_all
  have r: "rank (tst q1 i) < rank s" if "s \<in> {TrReadyToComplete, TrReadyToExecute, TrNeedBuffer}" for s
    using that q1(3) by (auto simp: rank_def)
  have s1: "same_slots q1 (set_recv RecvReady (set_status i 1 q1))" by (rule same_slots_trans [OF same_status same_set_recv])
  have s2: "same_slots q1 (if c then upd_req i (\<lambda>r. r\<lparr>tr_icd := True\<rparr>) q1 else set_recv RecvReady q1)" for c
    by (auto intro!: same_field)
  have pend: "same_slots q' (q'\<lparr>tq_pending := tq_pending q' @ [PendOwn i]\<rparr>)" if "i < slots q'" for q'
    using that by (auto simp: same_slots_def in_range_def)
  have nb: "round_ok i q1 (Inr (let q3 = req_set_state i TrNeedBuffer
       (if c then upd_req i (\<lambda>r. r\<lparr>tr_icd := True\<rparr>) q1 else set_recv RecvReady q1)
     in q3\<lparr>tq_pending := tq_pending q3 @ [PendOwn i]\<rparr>))" for c
    unfolding Let_def by (rule round_set [OF b1 i1 s2 pend r]) (use i1 in \<open>simp_all add: set_recv_def\<close>)
  have "round_ok i q1 (Inr (case tc_xfer (pd_cmd (tq_pdu q)) of
      XferBidirectional \<Rightarrow> req_set_state i TrReadyToComplete (set_recv RecvReady (set_status i 1 q1))
    | XferNone \<Rightarrow> req_set_state i TrReadyToExecute (set_recv RecvReady q1)
    | _ \<Rightarrow> let plen = ucast (pd_hlen (tq_pdu q)) + (if tq_hdgst q1 then DIGEST_LEN else 0);
        q2 = (if pd_plen (tq_pdu q) \<noteq> plen then upd_req i (\<lambda>r. r\<lparr>tr_icd := True\<rparr>) q1 else set_recv RecvReady q1);
        q3 = req_set_state i TrNeedBuffer q2 in q3\<lparr>tq_pending := tq_pending q3 @ [PendOwn i]\<rparr>))"
    using nb round_set [OF b1 i1 s1 same_refl r] round_set [OF b1 i1 same_set_recv same_refl r]
    by (cases "tc_xfer (pd_cmd (tq_pdu q))") (simp_all add: Let_def)
  then have "round_ok i q1 (process_new kick i q)" using q1(1) unfolding process_new_def Let_def by simp
  then show ?thesis by (rule round_after [OF m, rotated]) (use q1(3) i in simp)
qed

lemma need_buffer_ok:
  assumes b: "base q" and i: "i < slots q" "tst q i = TrNeedBuffer"
  shows "round_ok i q (Inr (process_need_buffer env i q))"
proof -
  obtain ok q1 where p: "parse_sgl env i q = (ok, q1)" by fastforce
  have s1: "same_slots q q1" using same_parse [of q env i] p by simp
  note keep = round_same [OF b i(1)]
  have s2: "same_slots q (remove_own i q1)" by (rule same_slots_trans [OF s1 same_remove_own])
  have r: "rank (tst q i) < rank s" if "s \<in> {TrAwaitZcopyStart, TrAwaitR2tAck, TrTransferH2C, TrReadyToExecute}" for s
    using that i(2) by (auto simp: rank_def)
  have e: "same_slots (req_set_state i TrAwaitR2tAck (remove_own i q1)) (send_r2t i (remove_own i q1))"
    unfolding send_r2t_def by (rule same_slots_trans [OF same_emit same_write])
  have z: "round_ok i q (Inr (emit (OutZcopyStart i) (req_set_state i TrAwaitZcopyStart (remove_own i q1))))"
    by (rule round_set [OF b i(1) s2 same_emit r]) simp
  have t: "round_ok i q (Inr (send_r2t i (remove_own i q1)))" by (rule round_set [OF b i(1) s2 e r]) simp
  have h: "round_ok i q (Inr ((req_set_state i TrTransferH2C (remove_own i q1))\<lparr>tq_data_len := l, tq_recv := RecvPayload\<rparr>))" for l
    by (rule round_set [OF b i(1) s2 _ r [of TrTransferH2C]]) (rule same_slots_trans [OF same_record(2) same_record(1)], simp)
  have x: "round_ok i q (Inr (req_set_state i TrReadyToExecute (remove_own i q1)))"
    by (rule round_set [OF b i(1) s2 same_refl r]) simp
  have if_cases: "round_ok i q (Inr (if c then a else a'))"
    if "round_ok i q (Inr a)" "round_ok i q (Inr a')" for c a a' using that by simp
  show ?thesis
    unfolding process_need_buffer_def p Let_def prod.case
    by (intro if_cases keep [OF same_refl] keep [OF s1] z t h x)
qed

lemma exec_ok:
  assumes b: "base q" and i: "i < slots q" "tst q i = TrReadyToExecute" and j: "j < slots q" "tst q j = TrReadyToExecute"
    and s: "same_slots (req_set_state j TrExecuting (req_set_state i TrExecuting q)) q'"
  shows "round_ok i q (Inr q')"
proof (rule round_okI)
  let ?a = "req_set_state i TrExecuting q" and ?b = "req_set_state j TrExecuting (req_set_state i TrExecuting q)"
  have m1: "moved i q ?a" by (rule moved_set [OF b i(1)])
  have "moved i q ?b"
    using base_set_state [OF base_set_state [OF b i(1)], of j TrExecuting TrExecuting] i j
    by (auto simp: moved_def tst_set_state)
  then show "moved i q q'" by (rule moved_then_same [OF _ s])
  have "tst q' i = TrExecuting" using same_slotsD(2) [OF s, of i] i j by (simp add: tst_set_state)
  then show "tst q' i = tst q i \<or> rank (tst q i) < rank (tst q' i)" using i(2) by (simp add: rank_def)
qed

lemma same_unpair [intro!, simp]: "same_slots q (unpair i j q)"
  unfolding unpair_def by (intro same_slots_trans [OF same_pair same_pair]) simp_all

lemma set_state_emit: "req_set_state i s (emit x q) = emit x (req_set_state i s q)"
  by (simp add: emit_def req_set_state_def upd_req_def Let_def)

lemma ready_ok:
  assumes b: "base q" and i: "i < slots q" "tst q i = TrReadyToExecute"
  shows "round_ok i q (Inr (process_ready i q))"
proof -
  have r: "rank (tst q i) < rank s" if "s \<in> {TrReadyToComplete, TrAwaitZcopyCommit, TrExecuting}" for s
    using that i(2) by (auto simp: rank_def)
  have 1: "round_ok i q (Inr (req_set_state i TrReadyToComplete (set_status i 0x0a q)))"
    by (rule round_set [OF b i(1) same_status same_refl r]) simp
  have 2: "round_ok i q (Inr (emit (OutZcopyEnd i True) (req_set_state i TrAwaitZcopyCommit q)))"
    by (rule round_set [OF b i(1) same_refl same_emit r]) simp
  have 3: "round_ok i q (Inr (exec_req i q))"
    unfolding exec_req_def by (rule round_set [OF b i(1) same_refl same_emit r]) simp
  have e: "same_slots a (emit x (unpair k l (emit y a)))" "same_slots a (unpair k l (emit x (emit y a)))" for a x y k l
    by (blast intro: same_slots_trans same_emit same_unpair)+
  have 4: "round_ok i q (Inr (emit (OutExec i) (unpair i j (exec_req j (req_set_state i TrExecuting q)))))"
    and 5: "round_ok i q (Inr (unpair i j (exec_req j (exec_req i q))))"
    if "j < slots q" "tst q j = TrReadyToExecute" for j
    unfolding exec_req_def set_state_emit by (rule exec_ok [OF b i that], rule e)+
  show ?thesis
  proof (cases "tr_fused_pair (the_req q i)")
    case None
    then show ?thesis using 1 2 3 round_same [OF b i(1) same_refl]
      unfolding process_ready_def Let_def by (cases "tc_fuse (tr_cmd (the_req q i))") simp_all
  next
    case (Some j)
    have "j < slots q" using in_range_pair [OF _ i(1) Some] b by (simp add: base_def)
    then show ?thesis using 1 2 3 4 [of j] 5 [of j] round_same [OF b i(1) same_refl] Some
      unfolding process_ready_def Let_def by (cases "tc_fuse (tr_cmd (the_req q i))") simp_all
  qed
qed

lemma completed_ok:
  assumes k: "kick_ok d kick" and b: "base q" and i: "i < slots q" "tst q i = TrCompleted" and d: "ready_others i q \<le> d"
  shows "round_ok i q (process_completed kick env i q)"
proof -
  define q1 where "q1 = upd_req i (\<lambda>r. r\<lparr>tr_length := 0, tr_iovcnt := 0, tr_data := None, tr_fused_failed := False\<rparr>)
    (release_data env i q)"
  define pair where "pair = tr_fused_pair (the_req q i)"
  define freed where "freed = (case pair of None \<Rightarrow> Inr q1
    | Some j \<Rightarrow> let q2 = upd_req j (\<lambda>s. s\<lparr>tr_fused_failed := True\<rparr>) q1 in
        bindR (if tst q2 j = TrReadyToExecute then kick j q2 else Inr q2)
          (\<lambda>q3. Inr (upd_req i (\<lambda>s. s\<lparr>tr_fused_pair := None\<rparr>) q3)))"
  have s1: "same_slots q q1" unfolding q1_def by (rule same_slots_trans [OF same_release same_field]) simp
  have b1: "base q1" and i1: "i < slots q1" "tst q1 i = TrCompleted" and d1: "ready_others i q1 \<le> d"
    using i d ready_others_same [OF s1] same_slotsD(4) [OF s1 b] same_slotsD(1,2) [OF s1] by simp_all
  have "\<exists>q4. freed = Inr q4 \<and> moved i q q4 \<and> tst q4 i = TrCompleted"
  proof (cases pair)
    case None
    then show ?thesis using moved_same [OF b s1] i1 by (simp add: freed_def)
  next
    case (Some j)
    have "j < slots q" using in_range_pair [OF _ i(1)] b Some by (simp add: base_def pair_def)
    then have j: "j < slots q1" using same_slotsD(1) [OF s1] by simp
    obtain q3 where q3: "moved i q1 q3" "tst q3 i = TrCompleted"
      "freed = Inr (upd_req i (\<lambda>s. s\<lparr>tr_fused_pair := None\<rparr>) q3)"
      using fail_other [OF k b1 j i1(1) _ d1] i1(2) Some unfolding freed_def Let_def by (auto simp: bindR_def)
    have p: "same_slots q3 (upd_req i (\<lambda>s. s\<lparr>tr_fused_pair := None\<rparr>) q3)" by (rule same_pair) simp
    have "i < slots q3" using movedD(2) [OF q3(1)] i1 by simp
    then show ?thesis
      using q3 same_slotsD(2) [OF p] moved_then_same [OF same_then_moved [OF b s1 q3(1)] p] by auto
  qed
  then obtain q4 where q4: "freed = Inr q4" "moved i q q4" "tst q4 i = TrCompleted" by blast
  have i4: "i < slots q4" using movedD(2) [OF q4(2)] i by simp
  have lists: "same_slots q4 (q4\<lparr>tq_working := remove1 i (tq_working q4), tq_free := tq_free q4 @ [i]\<rparr>)"
    using i4 by (auto simp: same_slots_def in_range_def dest: notin_set_remove1)
  have "round_ok i q4 (Inr (req_put i q4))"
    unfolding req_put_def by (rule round_set [OF movedD(1) [OF q4(2)] i4 lists same_refl]) (simp add: q4(3) rank_def)
  then have put: "round_ok i q (Inr (req_put i q4))" by (rule round_after [OF q4(2), rotated]) (simp add: q4(3) i(2))
  have rel: "round_ok i q (Inr (emit (OutZcopyEnd i False) (req_set_state i TrAwaitZcopyRelease q)))"
    by (rule round_set [OF b i(1) same_refl same_emit]) (simp add: i(2) rank_def)
  have c: "process_completed kick env i q \<in> {Inr q, Inr (emit (OutZcopyEnd i False) (req_set_state i TrAwaitZcopyRelease q)),
      bindR freed (\<lambda>q4. Inr (req_put i q4))}"
    unfolding process_completed_def Let_def freed_def pair_def q1_def by auto
  have "bindR freed (\<lambda>q4. Inr (req_put i q4)) = Inr (req_put i q4)" by (simp add: q4(1))
  then show ?thesis using c put rel round_same [OF b i(1) same_refl] by auto
qed

lemma transfer_out_ok:
  assumes b: "base q" and i: "i < slots q" "tst q i = TrReadyToComplete"
  shows "round_ok i q (Inr (request_transfer_out env i q))"
proof -
  let ?q1 = "q\<lparr>tq_sq_head := if tq_sq_head q = tq_sq_head_max q then 0 else tq_sq_head q + 1\<rparr>"
  have r: "rank (tst q i) < rank TrTransferC2H" using i(2) by (simp add: rank_def)
  have "same_slots q ?q1" by simp
  note s = round_set [OF b i(1) this _ r]
  show ?thesis unfolding request_transfer_out_def Let_def using s [OF same_c2h] s [OF same_resp] by auto
qed

lemma process_round_ok:
  assumes k: "kick_ok d kick" and b: "base q" and i: "i < slots q" and d: "ready_others i q \<le> d"
  shows "round_ok i q (process_round kick env i q)"
proof -
  have e: "same_slots (req_set_state i TrAwaitR2tAck q) (send_r2t i q)"
    unfolding send_r2t_def by (rule same_slots_trans [OF same_emit same_write])
  note zc = round_set [OF b i same_refl same_refl]
  show ?thesis
    using new_ok [OF k b i _ d] need_buffer_ok [OF b i] ready_ok [OF b i] completed_ok [OF k b i _ d]
      transfer_out_ok [OF b i] round_same [OF b i same_refl]
      round_set [OF b i same_refl e] zc [of TrReadyToComplete] zc [of TrExecuted]
    unfolding process_round_def by (cases "tst q i") (simp_all add: rank_def)
qed

section \<open>The loop\<close>

lemma process_loop_ok:
  assumes f: "\<And>q. base q \<Longrightarrow> i < slots q \<Longrightarrow> ready_others i q \<le> d \<Longrightarrow> round_ok i q (f q)"
  shows "base q \<Longrightarrow> i < slots q \<Longrightarrow> ready_others i q \<le> d \<Longrightarrow> 15 < n + rank (tst q i) \<Longrightarrow>
    \<exists>q'. process_loop n f i q = Inr q' \<and> moved i q q'"
proof (induction n arbitrary: q)
  case 0
  then show ?case using rank_le [of "tst q i"] by simp
next
  case (Suc n)
  obtain q1 where q1: "f q = Inr q1" "moved i q q1" "tst q1 i = tst q i \<or> rank (tst q i) < rank (tst q1 i)"
    using f [OF Suc.prems(1-3)] by (auto simp: round_ok_def)
  show ?case
  proof (cases "tst q1 i = tst q i")
    case True
    then show ?thesis using q1 by simp
  next
    case False
    have "ready_others i q1 \<le> d" using ready_others_moved [OF q1(2)] Suc.prems(3) by simp
    moreover have "i < slots q1" "base q1" using movedD(1,2) [OF q1(2)] Suc.prems(2) by simp_all
    moreover have "15 < n + rank (tst q1 i)" using q1(3) False Suc.prems(4) by simp
    ultimately obtain q' where "process_loop n f i q1 = Inr q'" "moved i q1 q'" using Suc.IH by blast
    then show ?thesis using q1 False moved_trans [OF q1(2)] by auto
  qed
qed

lemma process_with_ok:
  assumes k: "kick_ok d kick" and b: "base q" and i: "i < slots q" and d: "ready_others i q \<le> d"
  shows "\<exists>q'. process_with kick env i q = Inr q' \<and> moved i q q'"
proof -
  define q1 where "q1 = (if tq_active q then q else req_set_state i TrCompleted
    (if tst q i = TrNeedBuffer then remove_own i q else q))"
  define q0 where "q0 = (if tst q i = TrNeedBuffer then remove_own i q else q)"
  have s0: "same_slots q q0" by (simp add: q0_def)
  have "i < slots q0" using same_slotsD(1) [OF s0] i by simp
  then have "moved i q (req_set_state i TrCompleted q0)"
    by (rule same_then_moved [OF b s0 moved_set [OF same_slotsD(4) [OF s0 b]]])
  then have m: "moved i q q1" unfolding q1_def q0_def [symmetric] using moved_refl [OF b] by simp
  have "ready_others i q1 \<le> d" "i < slots q1" "base q1" "15 < 16 + rank (tst q1 i)"
    using ready_others_moved [OF m] d i movedD(1,2) [OF m] by simp_all
  then obtain q' where "process_loop 16 (process_round kick env i) i q1 = Inr q'" "moved i q1 q'"
    using process_loop_ok [of i d "process_round kick env i" q1 16] process_round_ok [OF k] by blast
  then show ?thesis using moved_trans [OF m] unfolding process_with_def q1_def Let_def by blast
qed

lemma process_nested_ok:
  "base q \<Longrightarrow> i < slots q \<Longrightarrow> ready_others i q < d \<Longrightarrow> \<exists>q'. process_nested d env i q = Inr q' \<and> moved i q q'"
proof (induction d arbitrary: i q)
  case 0
  then show ?case by simp
next
  case (Suc d)
  have "kick_ok d (process_nested d env)" using Suc.IH by (simp add: kick_ok_def)
  then show ?case using process_with_ok Suc.prems by simp
qed

lemma req_process_ok:
  assumes "base q" and "i < slots q"
  obtains q' where "req_process env i q = Inr q'" and "moved i q q'"
proof -
  have "{k. k < slots q \<and> k \<noteq> i \<and> tst q k = TrReadyToExecute} \<subseteq> {..<slots q}" by auto
  then have "ready_others i q \<le> slots q" unfolding ready_others_def using card_mono [of "{..<slots q}"] by simp
  then show thesis using process_nested_ok [of q i "Suc (slots q)" env] assms that unfolding req_process_def by auto
qed

lemma request_free_ok:
  assumes b: "base q" and i: "i < slots q"
  obtains q' where "request_free env i q = Inr q'" and "moved i q q'"
proof -
  obtain q' where "request_free env i q = Inr q'" "moved i (req_set_state i TrCompleted q) q'"
    unfolding request_free_def using req_process_ok [OF base_set_state [OF b i]] i by (metis set_state_simps(1))
  then show thesis using that moved_trans [OF moved_set [OF b i]] by blast
qed

section \<open>Every step returns\<close>

definition settles :: "tcp_qpair \<Rightarrow> fault + tcp_qpair \<Rightarrow> bool" where
  "settles q r \<longleftrightarrow> (case r of Inl e \<Rightarrow> e \<noteq> NoReturn | Inr q' \<Rightarrow> base q' \<and> slots q' = slots q)"

lemma settles_Inr [simp]: "settles q (Inr q') \<longleftrightarrow> base q' \<and> slots q' = slots q"
  by (simp add: settles_def)

lemma settles_bind:
  "settles q r \<Longrightarrow> (\<And>q'. base q' \<Longrightarrow> slots q' = slots q \<Longrightarrow> settles q (f q')) \<Longrightarrow> settles q (bindR r f)"
  by (cases r) (auto simp: settles_def)

lemma settles_same: "base q \<Longrightarrow> same_slots q q' \<Longrightarrow> settles q (Inr q')"
  using same_slotsD [of q q'] by simp

lemma settles_from: "slots q1 = slots q \<Longrightarrow> settles q r = settles q1 r"
  by (simp add: settles_def split: sum.split)

lemma settles_process: "base q \<Longrightarrow> i < slots q \<Longrightarrow> settles q (req_process env i q)"
  by (rule req_process_ok [of q i env]) (auto dest: movedD)

lemma settles_free: "base q \<Longrightarrow> i < slots q \<Longrightarrow> settles q (request_free env i q)"
  by (rule request_free_ok [of q i env]) (auto dest: movedD)

text \<open>Processing after changes of fields and after a change of state.\<close>

lemma settles_process_same:
  assumes "base q" and "same_slots q q1" and "i < slots q"
  shows "settles q (req_process env i q1)"
  using settles_process [of q1 i env] settles_from [of q1 q] assms same_slotsD [of q q1] by simp

lemma settles_process_set:
  assumes "base q" and "same_slots q q1" and "i < slots q"
  shows "settles q (req_process env i (req_set_state i s q1))"
  using settles_process [of "req_set_state i s q1" i env] settles_from [of "req_set_state i s q1" q] assms
    same_slotsD [of q q1] base_set_state by simp

lemma settles_data_arrived: "base q \<Longrightarrow> i < slots q \<Longrightarrow> settles q (req_process env i (data_arrived i q))"
  unfolding data_arrived_def using settles_process_set [OF _ same_refl] by simp

lemma same_disconnect:
  "base q \<Longrightarrow> base (tcp_disconnect q)" "slots (tcp_disconnect q) = slots q"
  by (simp_all add: tcp_disconnect_def emit_def base_def cntr_ok_def in_range_def)

lemma settles_drain: "base q \<Longrightarrow> \<forall>i \<in> set is. i < slots q \<Longrightarrow> settles q (drain env s is q)"
proof (induction "is" arbitrary: q)
  case (Cons i "is")
  have rest: "settles q (drain env s is q')" if "base q'" "slots q' = slots q" for q'
  proof -
    have "settles q' (drain env s is q')" by (rule Cons.IH [OF that(1)]) (use Cons.prems(2) that(2) in simp)
    then show ?thesis using settles_from [OF that(2)] by simp
  qed
  have "settles q (if tst q i = s then request_free env i q else Inr q)" using Cons.prems settles_free by simp
  then have "settles q (bindR (if tst q i = s then request_free env i q else Inr q) (\<lambda>q1.
      case List.find (\<lambda>k. tst q k \<noteq> TrFree) is of
        None \<Rightarrow> Inr q1 | Some k \<Rightarrow> if tst q1 k = TrFree then Inr q1 else drain env s is q1))"
    by (rule settles_bind) (simp add: rest split: option.split)
  then show ?case unfolding drain.simps using rest [OF Cons.prems(1) refl] by (simp only: if_split simp_thms)
qed simp

lemma settles_drain_state: "base q \<Longrightarrow> settles q (drain_state_queue env s q)"
  unfolding drain_state_queue_def by (rule settles_drain) (auto simp: base_def in_range_def)

lemma same_wipe: "same_slots q (wipe_pending q)"
proof -
  have "same_slots q (fold remove_own is q)" for "is"
  proof (induction "is" arbitrary: q)
    case (Cons i "is")
    show ?case using same_slots_trans [OF same_remove_own Cons.IH] by simp
  qed simp
  then show ?thesis by (simp add: wipe_pending_def)
qed

lemma settles_cleanup:
  assumes b: "base q"
  shows "settles q (cleanup_all_states env q)"
proof -
  have d: "settles q (drain_state_queue env s q1)" if "base q1" "slots q1 = slots q" for s q1
    using settles_drain_state that settles_from [of q1 q] by simp
  have w: "base (wipe_pending q1)" "slots (wipe_pending q1) = slots q" if "base q1" "slots q1 = slots q" for q1
    using same_slotsD(1,4) [OF same_wipe [of q1]] that by simp_all
  show ?thesis
    unfolding cleanup_all_states_def by (intro settles_bind d b refl w)
qed

lemma settles_h2c_hdr: "base q \<Longrightarrow> settles q (h2c_data_hdr_handle pdu q)"
proof -
  assume b: "base q"
  have t: "settles q (Inr (send_c2h_term_req fes q))" for fes by (rule settles_same [OF b same_term])
  have a: "settles q (Inr (q\<lparr>tq_pdu_req := Some i, tq_data_len := l, tq_recv := s\<rparr>))" if "i < slots q" for i l s
    using b that by (simp add: base_def cntr_ok_def in_range_def)
  have tag: "unat (pd_ttag pdu) - 1 < slots q" if "\<not> unat (pd_ttag pdu) > slots q" "pd_ttag pdu \<noteq> 0"
  proof -
    have "unat (pd_ttag pdu) \<noteq> 0" using that(2) by (simp add: unat_eq_zero)
    then show ?thesis using that(1) by linarith
  qed
  show ?thesis
    unfolding h2c_data_hdr_handle_def Let_def using t a [OF tag] by (simp add: settles_def [of q "Inl OutOfBounds"])
qed

lemma settles_psh: "base q \<Longrightarrow> settles q (psh_handle q)"
proof -
  assume b: "base q"
  have t: "settles q (Inr (send_c2h_term_req fes q))" for fes by (rule settles_same [OF b same_term])
  have r: "settles q (Inr (set_recv s q))" for s by (rule settles_same [OF b same_set_recv])
  have "settles q (Inr (icreq_handle (tq_pdu q) q))" "settles q (Inr (h2c_term_req_hdr_handle (tq_pdu q) q))"
    using b t by (simp_all add: icreq_handle_def h2c_term_req_hdr_handle_def emit_def base_def cntr_ok_def in_range_def
      send_c2h_term_req_def)
  then show ?thesis
    unfolding psh_handle_def Let_def using t r settles_h2c_hdr [OF b] by (simp split: tcp_pdu_type.split)
qed

lemma req_get_simps:
  assumes "base q" "req_get q = Some (i, q1)"
  shows "i < slots q" "base q1" "slots q1 = slots q"
proof -
  obtain rest where f: "tq_free q = i # rest"
    and q1: "q1 = req_set_state i TrNew (upd_req i (\<lambda>r. r\<lparr>tr_status := st_success, tr_rsp_zero := True, tr_h2c_offset := 0,
      tr_icd := False, tr_zcopy := False\<rparr>) (q\<lparr>tq_free := rest, tq_working := tq_working q @ [i]\<rparr>))"
    using assms(2) unfolding req_get_def by (cases "tq_free q") auto
  show i: "i < slots q" using assms(1) f by (simp add: base_def in_range_def)
  let ?l = "q\<lparr>tq_free := rest, tq_working := tq_working q @ [i]\<rparr>"
  have b: "base ?l" using assms(1) f by (simp add: base_def in_range_def cntr_ok_def)
  have s: "same_slots ?l (upd_req i (\<lambda>r. r\<lparr>tr_status := st_success, tr_rsp_zero := True, tr_h2c_offset := 0,
      tr_icd := False, tr_zcopy := False\<rparr>) ?l)" by (rule same_field) simp
  show "base q1" unfolding q1 by (rule base_set_state [OF same_slotsD(4) [OF s b]]) (use i in simp)
  show "slots q1 = slots q" by (simp add: q1)
qed

lemma settles_slot:
  assumes b: "base q"
  shows "settles q (capsule_cmd_hdr_handle env q)"
proof (cases "req_get q")
  case None
  then show ?thesis using b same_disconnect unfolding capsule_cmd_hdr_handle_def by simp
next
  case (Some p)
  then obtain i q1 where p: "req_get q = Some (i, q1)" by (cases p) simp
  note g = req_get_simps [OF b p]
  have "base (q1\<lparr>tq_pdu_req := Some i\<rparr>)" using g by (simp add: base_def in_range_def cntr_ok_def)
  then show ?thesis
    using settles_process [of "q1\<lparr>tq_pdu_req := Some i\<rparr>" i env] g p settles_from [of "q1\<lparr>tq_pdu_req := Some i\<rparr>" q]
    unfolding capsule_cmd_hdr_handle_def by simp
qed

lemma settles_payload_done:
  assumes b: "base q" and p: "\<forall>i. fst (snd p) = Some i \<longrightarrow> i < slots q"
  shows "settles q (payload_done env ok p q)"
proof -
  obtain pdu ir len where pp: "p = (pdu, ir, len)" by (cases p) simp
  have sf: "settles q r" if "settles q1 r" "same_slots q q1" for q1 r
    using that settles_from [of q1 q] same_slotsD(1) by simp
  have st: "same_slots q (if ok then q else set_status i TRANSIENT_TRANSPORT_ERROR q)" for i by simp
  have c: "settles q1 (capsule_cmd_payload_handle env pdu i q1)" if "base q1" "i < slots q1" for i q1
    using settles_data_arrived [OF that] settles_same [OF that(1) same_term] unfolding capsule_cmd_payload_handle_def by simp
  have h: "settles q1 (h2c_data_payload_handle env len i q1)" if b1: "base q1" "i < slots q1" for i q1
  proof -
    let ?u = "upd_req i (\<lambda>r. r\<lparr>tr_h2c_offset := tr_h2c_offset r + len\<rparr>) q1"
    have s: "same_slots q1 ?u" by (rule same_field) simp
    have "settles ?u (req_process env i (data_arrived i ?u))"
      by (rule settles_data_arrived) (use same_slotsD [OF s] b1 in simp_all)
    then show ?thesis
      using settles_same [OF b1(1) s] settles_from [of ?u q1] same_slotsD(1) [OF s]
      unfolding h2c_data_payload_handle_def Let_def by simp
  qed
  show ?thesis
  proof (cases ir)
    case None
    then show ?thesis using settles_same [OF b same_set_recv] b
      unfolding pp payload_done_def by (cases "pd_type pdu") (simp_all add: settles_def [of q "Inl NullDeref"])
  next
    case (Some i)
    have i: "i < slots q" using p Some by (simp add: pp)
    let ?q1 = "if ok then q else set_status i TRANSIENT_TRANSPORT_ERROR q"
    have q1: "base ?q1" "i < slots ?q1" using same_slotsD [OF st [of i]] b i by simp_all
    show ?thesis using settles_same [OF b same_set_recv] b sf [OF c [OF q1] st] sf [OF h [OF q1] st] Some
      unfolding pp payload_done_def by (cases "pd_type pdu") simp_all
  qed
qed

lemma settles_payload: "base q \<Longrightarrow> settles q (payload_handle env q)"
proof -
  assume b: "base q"
  let ?q1 = "set_recv RecvReady q" and ?p = "(tq_pdu q, tq_pdu_req q, tq_data_len q)"
  have p: "\<forall>i. tq_pdu_req q = Some i \<longrightarrow> i < slots q" using b by (simp add: base_def in_range_def)
  have s: "slots ?q1 = slots q" "base ?q1" using same_slotsD(1,4) [OF same_set_recv] b by simp_all
  have "settles q (Inr (?q1\<lparr>tq_crc := tq_crc ?q1 @ [?p]\<rparr>))"
    using b p by (auto simp: base_def in_range_def cntr_ok_def set_recv_def)
  moreover have "settles q (payload_done env True ?p ?q1)"
    using settles_payload_done [OF s(2), of ?p env True] p settles_from [OF s(1)] s(1) by simp
  ultimately show ?thesis unfolding payload_handle_def Let_def by simp
qed

lemma settles_write_done:
  assumes b: "base q" and i: "i < slots q"
  shows "settles q (req_pdu_write_done env err i q)"
proof -
  let ?q1 = "upd_req i (\<lambda>r. r\<lparr>tr_pdu_in_use := False\<rparr>) q"
  have s: "same_slots q ?q1" by (rule same_field) simp
  have b1: "base ?q1" "i < slots ?q1" using same_slotsD [OF s] b i by simp_all
  have f: "settles q (request_free env i ?q1)" using settles_free [OF b1] settles_from [of ?q1 q] by simp
  let ?t = "req_set_state i TrTransferH2C ?q1"
  have t: "base ?t" "i < slots ?t" using base_set_state [OF b1] i by simp_all
  have r: "settles q (r2t_complete env i ?q1)"
    using settles_process_set [OF t(1) same_refl t(2)] t(1) settles_from [of ?t q] unfolding r2t_complete_def Let_def by simp
  have c: "settles q (c2h_data_complete env x i ?q1)" for x
    using f settles_same [OF b same_slots_trans [OF s same_resp]] unfolding c2h_data_complete_def by simp
  show ?thesis
    unfolding req_pdu_write_done_def Let_def using f r c same_disconnect(1) [OF b1(1)] same_disconnect(2) b1(1)
    by (simp add: settles_def [of q "Inl NullDeref"] split: tcp_sent.split)
qed

lemma settles_complete:
  assumes b: "base q" and i: "i < slots q"
  shows "settles q (req_complete env i st zero q)"
proof -
  let ?q1 = "upd_req i (\<lambda>r. r\<lparr>tr_status := st, tr_rsp_zero := zero\<rparr>) q"
  have s: "same_slots q ?q1" by (rule same_field) simp
  have s2: "same_slots q (upd_req i (\<lambda>r. r\<lparr>tr_zcopy_io := x\<rparr>) ?q1)" for x
    by (rule same_slots_trans [OF s same_field]) simp
  note p = settles_process_set [OF b s i] settles_process_set [OF b s2 i] settles_process_same [OF b s i]
  show ?thesis unfolding req_complete_def Let_def using p by (simp split: tcp_req_state.split)
qed

lemma settles_abort_status:
  "base q \<Longrightarrow> i < slots q \<Longrightarrow> base (set_abort_status i q)"
  unfolding set_abort_status_def
  by (rule base_set_state) (use same_slotsD(1,4) [OF same_status [of q i 7]] in simp_all)

lemma settles_abort:
  assumes b: "base q" and i: "i < slots q"
  shows "settles q (abort_request env in_target expired i q)"
proof -
  let ?r = "remove_own i q"
  have r: "base ?r" "slots ?r = slots q" using same_slotsD(1,4) [OF same_remove_own] b by simp_all
  have n: "slots (set_abort_status i q1) = slots q1" for q1 by (simp add: set_abort_status_def set_status_def)
  have e: "settles q (Inr (emit x q))" for x by (rule settles_same [OF b same_emit])
  have a: "settles q (Inr (emit x (set_abort_status i q)))" for x
    using same_slotsD(1,4) [OF same_emit] settles_abort_status [OF b i] n by simp
  have p: "settles q (req_process env i (set_abort_status i ?r))"
  proof -
    let ?a = "set_abort_status i ?r"
    have b': "base ?a" by (rule settles_abort_status [OF r(1)]) (simp add: r(2) i)
    have s: "slots ?a = slots q" unfolding n by (rule r(2))
    have "settles ?a (req_process env i ?a)" by (rule settles_process [OF b']) (use s i in simp)
    then show ?thesis using settles_from [OF s] by blast
  qed
  have "settles q (bindR (req_process env i (set_abort_status i ?r)) (\<lambda>q1. Inr (emit (OutAbortDone True) q1)))"
    by (rule settles_bind [OF p]) (use same_slotsD(1,4) [OF same_emit] in simp)
  then show ?thesis
    using a e b unfolding abort_request_def by (simp split: tcp_req_state.split option.split)
qed

lemma settles_abort_cid: "base q \<Longrightarrow> settles q (qpair_abort_request env in_target cid q)"
proof -
  assume b: "base q"
  have "i < slots q" if "find_abort cid q = Some i" for i
    using that unfolding find_abort_def by (auto simp: find_Some_iff)
  then show ?thesis using settles_abort [OF b] settles_same [OF b same_emit]
    unfolding qpair_abort_request_def by (simp split: option.split)
qed

lemma settles_poll_pending:
  "base q \<Longrightarrow> \<forall>i. PendOwn i \<in> set ps \<longrightarrow> i < slots q \<Longrightarrow> settles q (poll_pending env ps q)"
proof (induction env ps q rule: poll_pending.induct)
  case (2 env ps q)
  have "base (q\<lparr>tq_pending := remove1 PendOther (tq_pending q)\<rparr>)"
    using "2.prems"(1) by (auto simp: base_def cntr_ok_def in_range_def dest: notin_set_remove1)
  then show ?case using 2 settles_from [of "q\<lparr>tq_pending := remove1 PendOther (tq_pending q)\<rparr>" q] by simp
next
  case (3 env i ps q)
  show ?case
    unfolding poll_pending.simps
  proof (rule settles_bind)
    show "settles q (req_process env i q)" by (rule settles_process) (use "3.prems" in simp_all)
    fix q1
    assume q1: "base q1" "slots q1 = slots q"
    have "settles q1 (poll_pending env ps q1)" if "tst q1 i \<noteq> tst q i"
      by (rule "3.IH" [OF that q1(1)]) (use "3.prems"(2) q1(2) in simp)
    then show "settles q (if tst q1 i = tst q i then Inr q1 else poll_pending env ps q1)"
      using q1 settles_from [OF q1(2)] by simp
  qed
qed simp

lemma settles_poll: "base q \<Longrightarrow> settles q (tcp_poll env q)"
proof -
  assume b: "base q"
  have "settles q (poll_pending env (tq_pending q) q)"
    by (rule settles_poll_pending [OF b]) (use b in \<open>simp add: base_def in_range_def\<close>)
  then show ?thesis unfolding tcp_poll_def
  proof (rule settles_bind)
    fix q1
    assume q1: "base q1" "slots q1 = slots q"
    then show "settles q (if tq_recv q1 = RecvReq then capsule_cmd_hdr_handle env q1 else Inr q1)"
      using settles_slot [OF q1(1), of env] settles_from [OF q1(2)] by simp
  qed
qed

lemma settles_abort_writes: "base q \<Longrightarrow> \<forall>i \<in> set is. i < slots q \<Longrightarrow> settles q (abort_writes env is q)"
proof (induction "is" arbitrary: q)
  case (Cons i "is")
  have "settles q (if tr_pdu_in_use (the_req q i) then req_pdu_write_done env True i q else Inr q)"
    using Cons.prems settles_write_done by simp
  then show ?case unfolding abort_writes.simps
  proof (rule settles_bind)
    fix q'
    assume q': "base q'" "slots q' = slots q"
    have "settles q' (abort_writes env is q')" by (rule Cons.IH [OF q'(1)]) (use Cons.prems(2) q'(2) in simp)
    then show "settles q (abort_writes env is q')" using settles_from [OF q'(2)] by simp
  qed
qed simp

lemma settles_close:
  assumes b: "base q"
  shows "settles q (close_qpair env q)"
proof -
  let ?q = "q\<lparr>tq_state := TqExited, tq_active := False\<rparr>"
  have "base ?q" using b by (simp add: base_def cntr_ok_def in_range_def)
  then have "settles q (abort_writes env [0..<slots q] ?q)"
    using settles_abort_writes [of ?q "[0..<slots q]" env] settles_from [of ?q q] by simp
  moreover have "settles q (cleanup_all_states env q1)" if "base q1" "slots q1 = slots q" for q1
    using settles_cleanup [OF that(1)] settles_from [OF that(2)] by simp
  ultimately show ?thesis
    unfolding close_qpair_def
    by (intro settles_bind) (auto simp: base_def cntr_ok_def in_range_def)
qed

lemma base_take: "base q \<Longrightarrow> base (take_pdu q) \<and> slots (take_pdu q) = slots q"
  by (simp add: take_pdu_def base_def cntr_ok_def in_range_def)

lemma base_header:
  assumes "base q"
  shows "settles q (Inr (ch_handle pdu q))"
proof -
  let ?q = "q\<lparr>tq_pdu := pdu, tq_pdu_req := None, tq_data_len := 0\<rparr>"
  have b: "base ?q" using assms by (simp add: base_def cntr_ok_def in_range_def)
  then show ?thesis using settles_same [OF b same_term] settles_same [OF b same_set_recv]
    unfolding ch_handle_def Let_def by (simp split: option.split)
qed

lemma settles_mgmt: "base q \<Longrightarrow> settles q (Inr (mgmt_pdu_write_done err m q))"
proof -
  assume "base q"
  then have b: "base (q\<lparr>tq_mgmt := None\<rparr>)" by (simp add: base_def cntr_ok_def in_range_def)
  show ?thesis using same_disconnect(1) [OF b] same_disconnect(2) [of "q\<lparr>tq_mgmt := None\<rparr>"] b
    unfolding mgmt_pdu_write_done_def Let_def
    by (simp add: base_def cntr_ok_def in_range_def split: tcp_mgmt.split)
qed

lemma settles_crc:
  assumes b: "base q" and n: "n < length (tq_crc q)"
  shows "settles q (payload_done env ok (tq_crc q ! n) (q\<lparr>tq_crc := remove_nth n (tq_crc q)\<rparr>))"
proof -
  let ?q = "q\<lparr>tq_crc := remove_nth n (tq_crc q)\<rparr>"
  have "base ?q" using b set_remove_nth [of n "tq_crc q"] by (auto simp: base_def cntr_ok_def in_range_def)
  moreover have "\<forall>i. fst (snd (tq_crc q ! n)) = Some i \<longrightarrow> i < slots q"
    using b nth_mem [OF n] by (simp add: base_def in_range_def)
  ultimately show ?thesis using settles_payload_done [of ?q "tq_crc q ! n" env ok] settles_from [of ?q q] by simp
qed

lemma tcp_step_settles:
  assumes b: "base q"
  shows "settles q (tcp_step q ee)"
proof -
  obtain env e where ee: "ee = (env, e)" by (cases ee)
  have k: "settles q (Inr q)" using b by simp
  have i: "settles q (if_ready c q r)" if "c \<Longrightarrow> settles q r" for c r using that k by (simp add: if_ready_def)
  have d: "settles q (Inr (tcp_disconnect q))" using same_disconnect b by simp
  have r: "settles q (Inr (q\<lparr>tq_cache := c, tq_pool := p, tq_control_msgs := m\<rparr>))"
    "settles q (Inr (q\<lparr>tq_pending := tq_pending q @ [PendOther]\<rparr>))" "settles q (Inr (q\<lparr>tq_active := False\<rparr>))" for c p m
    using b by (auto simp: base_def cntr_ok_def in_range_def)
  have t: "settles q (bindR x (\<lambda>q'. Inr (take_pdu q')))" if "settles q x" for x
    by (rule settles_bind [OF that]) (simp add: base_take)
  show ?thesis
    unfolding tcp_step_def ee prod.case
  proof (cases "tq_gone q", simp_all only: if_True if_False k, rule t)
    show "settles q
     (case e of TcHeader pdu \<Rightarrow> if_ready (tq_recv q = RecvCh \<and> tq_state q \<noteq> TqInitializing) q (Inr (ch_handle pdu q))
      | TcPsh \<Rightarrow> if_ready (tq_recv q = RecvPsh) q (psh_handle q)
      | TcSlot \<Rightarrow> if_ready (tq_recv q = RecvReq) q (capsule_cmd_hdr_handle env q)
      | TcPayload \<Rightarrow> if_ready (tq_recv q = RecvPayload \<and> tq_data_len q \<noteq> 0) q (payload_handle env q)
      | TcCrcDone n ok \<Rightarrow> if_ready (n < length (tq_crc q)) q
            (payload_done env ok (tq_crc q ! n) (q\<lparr>tq_crc := remove_nth n (tq_crc q)\<rparr>))
      | TcMgmtWritten err \<Rightarrow> (case tq_mgmt q of None \<Rightarrow> Inr q | Some m \<Rightarrow> Inr (mgmt_pdu_write_done err m q))
      | TcWritten i err \<Rightarrow>
          if_ready (i < slots q \<and> tr_pdu_in_use (the_req q i)) q (req_pdu_write_done env err i q)
      | TcComplete i st zero \<Rightarrow>
          if_ready (i < slots q \<and> tst q i \<in> {TrExecuting, TrAwaitZcopyStart, TrAwaitZcopyCommit, TrAwaitZcopyRelease}) q
            (req_complete env i st zero q)
      | TcAbort cid in_target \<Rightarrow> qpair_abort_request env in_target cid q
      | TcAbortRetry i expired \<Rightarrow> if_ready (i < slots q \<and> tst q i \<in> {TrAwaitR2tAck, TrTransferH2C}) q
            (abort_request env None expired i q)
      | TcPoll \<Rightarrow> tcp_poll env q
      | TcSockError \<Rightarrow> Inr (tcp_disconnect q)
      | TcTimeout \<Rightarrow> if_ready (tq_timeout q) q (Inr (tcp_disconnect q))
      | TcOtherWaits \<Rightarrow> Inr (q\<lparr>tq_pending := tq_pending q @ [PendOther]\<rparr>)
      | TcOthersBuffers c p m \<Rightarrow> Inr (q\<lparr>tq_cache := c, tq_pool := p, tq_control_msgs := m\<rparr>)
      | TcDeactivate \<Rightarrow> Inr (q\<lparr>tq_active := False\<rparr>)
      | TcClose \<Rightarrow> if_ready (\<not> tq_active q) q (close_qpair env q))"
      using b k d r settles_mgmt [OF b] base_header [OF b] settles_abort_cid [OF b] settles_poll [OF b]
      by (cases e)
        (auto split: option.split simp del: settles_Inr intro!: i settles_psh settles_slot settles_payload settles_crc settles_write_done
          settles_complete settles_abort settles_close)
  qed
qed

interpretation tcp_steps: faulting_stepper tcp_step "\<lambda>f. f = NoReturn" "\<lambda>q. base q \<and> slots q = n" for n
proof
  fix q ee
  assume "base q \<and> slots q = n"
  then show "case tcp_step q ee of Inl f \<Rightarrow> f \<noteq> NoReturn | Inr q' \<Rightarrow> base q' \<and> slots q' = n"
    using tcp_step_settles [of q ee] by (simp add: settles_def split: sum.splits)
qed

lemma base_new: "base (new_tcp_qpair n admin cache pool msgs)"
proof -
  have "{i. i < n \<and> tr_state (replicate n new_req ! i) = s} = (if s = TrFree then {..<n} else {})" for s
    by (auto simp: new_req_def)
  then show ?thesis by (simp add: base_def cntr_ok_def in_range_def new_tcp_qpair_def new_req_def)
qed

text \<open>C6. Whatever hosts, target and other queue pairs do, a queue pair with any number of slots handles each event to its
  end: processing a request, with the requests that it kicks, never loops for ever. And as long as the program has not
  crashed, the counter of each state of requests is the number of slots in it, and the free list, the working list,
  the queue for buffers and the references between fused commands name slots only.
\<close>

theorem tcp_counters_exact:
  "case runR tcp_step (new_tcp_qpair n admin cache pool msgs) es of
     Inl f \<Rightarrow> f \<noteq> NoReturn
   | Inr q \<Rightarrow> length (tq_reqs q) = n \<and>
       (\<forall>s. tq_cntr q s = of_nat (card {i. i < n \<and> tr_state (tq_reqs q ! i) = s})) \<and>
       set (tq_free q) \<union> set (tq_working q) \<subseteq> {..<n} \<and>
       {i. PendOwn i \<in> set (tq_pending q)} \<subseteq> {..<n} \<and>
       {i. tq_fused_first q = Some i} \<union> {j. \<exists>i < n. tr_fused_pair (tq_reqs q ! i) = Some j} \<subseteq> {..<n}"
proof -
  have "slots (new_tcp_qpair n admin cache pool msgs) = n" by (simp add: new_tcp_qpair_def)
  then have r: "case runR tcp_step (new_tcp_qpair n admin cache pool msgs) es of Inl f \<Rightarrow> f \<noteq> NoReturn
      | Inr q \<Rightarrow> base q \<and> slots q = n"
    using tcp_steps.run_settles [of "new_tcp_qpair n admin cache pool msgs" n es] base_new by simp
  show ?thesis
  proof (cases "runR tcp_step (new_tcp_qpair n admin cache pool msgs) es")
    case (Inl f)
    then show ?thesis using r by simp
  next
    case (Inr q)
    then have q: "cntr_ok q" "in_range q" "slots q = n" using r by (simp_all add: base_def)
    have "j < n" if "i < n" "tr_fused_pair (the_req q i) = Some j" for i j using in_range_pair [OF q(2) _ that(2)] that(1) q(3) by simp
    then show ?thesis using Inr q by (auto simp: cntr_ok_def in_range_def)
  qed
qed

section \<open>PDU headers\<close>

lemma unat_ucast_u32: "unat (ucast (x :: u8) :: u32) = unat x"
  using unat_u8_less [of x] by (simp add: unsigned_ucast_eq take_bit_nat_eq_self)

text \<open>The PDU data offset of the host agrees with the alignment that it asked for.\<close>

lemma bad_pdo_iff: "\<not> bad_pdo cpda pdo \<longleftrightarrow> cpda = 0 \<or> 4 * (unat cpda + 1) dvd unat pdo"
proof -
  have c: "unat cpda < 256" "unat pdo < 256" using unat_u8_less [of cpda] unat_u8_less [of pdo] by simp_all
  have u: "unat (push_bit 2 (ucast cpda + 1) :: u32) = 4 * (unat cpda + 1)"
    using c by (simp add: push_bit_eq_mult unat_word_ariths unat_ucast_u32)
  have "unat ((ucast pdo :: u32) mod push_bit 2 (ucast cpda + 1)) = unat pdo mod (4 * (unat cpda + 1))"
    using c by (simp add: unat_mod u unat_ucast_u32)
  then have "(ucast pdo :: u32) mod push_bit 2 (ucast cpda + 1) = 0 \<longleftrightarrow> unat pdo mod (4 * (unat cpda + 1)) = 0"
    using unat_eq_zero by metis
  then show ?thesis by (auto simp: bad_pdo_def dvd_eq_mod_eq_0)
qed

text \<open>C8. The common headers that a queue pair accepts are exactly these: an IC request as the first PDU, of 128
  bytes; and, while it runs, a command, data or a termination request with the header length of its type, a data offset that is
  a multiple of the alignment the host asked for, if it asked for one, and a length that has room for the header, a
  termination request also some data and not more than 152 bytes.
\<close>

theorem tcp_header_accepted:
  "check_ch st cpda pdu = None \<longleftrightarrow>
     pd_type pdu = PduIcReq \<and> st = TqInvalid \<and> pd_hlen pdu = 128 \<and> pd_plen pdu = 128 \<or>
     st = TqRunning \<and>
       (pd_type pdu = PduCapsuleCmd \<and> pd_hlen pdu = 72 \<and> 72 \<le> pd_plen pdu \<and>
          (cpda = 0 \<or> 4 * (unat cpda + 1) dvd unat (pd_pdo pdu)) \<or>
        pd_type pdu = PduH2cData \<and> pd_hlen pdu = 24 \<and> 24 \<le> pd_plen pdu \<and>
          (cpda = 0 \<or> 4 * (unat cpda + 1) dvd unat (pd_pdo pdu)) \<or>
        pd_type pdu = PduH2cTermReq \<and> pd_hlen pdu = 24 \<and> 24 < pd_plen pdu \<and> pd_plen pdu \<le> 152)"
  unfolding bad_pdo_iff [symmetric] check_ch_def check_lengths_def
  by (cases "pd_type pdu"; cases st) (auto simp: not_less not_le)

section \<open>Data that are sent\<close>

lemma round_up_nat:
  fixes h a :: nat
  assumes "h mod a \<noteq> 0" and a: "0 < a"
  shows "a dvd (h + a) div a * a" "h < (h + a) div a * a" "(h + a) div a * a < h + a"
proof -
  have e: "(h + a) div a * a = h - h mod a + a" using a div_add_self2 [of a h] minus_mod_eq_div_mult [of h a] by simp
  have m: "h mod a < a" "h mod a \<le> h" using a by simp_all
  show "a dvd (h + a) div a * a" by simp
  show "h < (h + a) div a * a" "(h + a) div a * a < h + a" unfolding e using m assms(1) by linarith+
qed

text \<open>The offset, computed without wrap-around.\<close>

lemma c2h_pdo_nat:
  fixes cpda :: u8 and hdgst :: bool
  defines "header \<equiv> if hdgst then 28 else (24::nat)" and "a \<equiv> 4 * (unat cpda + 1)"
  assumes c: "unat cpda \<le> 31"
  shows "unat (c2h_pdo hdgst cpda) = (if cpda \<noteq> 0 \<and> header mod a \<noteq> 0 then (header + a) div a * a else header)"
proof -
  let ?w = "24 + (if hdgst then DIGEST_LEN else 0) :: u32" and ?x = "push_bit 2 (ucast cpda + 1) :: u32"
  have u: "unat ?x = a" using c by (simp add: a_def push_bit_eq_mult unat_word_ariths unat_ucast_u32)
  have w: "unat ?w = header" by (simp add: header_def)
  have wx: "unat (?w + ?x) = header + a" using c by (simp add: unat_word_ariths u w header_def a_def)
  have q: "(header + a) div a * a \<le> header + a" by (rule div_times_less_eq_dividend)
  have r: "unat ((?w + ?x) div ?x * ?x) = (header + a) div a * a"
  proof -
    have "header + a < 2 ^ LENGTH(32)" using c by (simp add: header_def a_def)
    then have "(header + a) div a * a < 2 ^ LENGTH(32)" using q by (rule le_less_trans [rotated])
    then have "((header + a) div a * a) mod 2 ^ LENGTH(32) = (header + a) div a * a" by (rule mod_less)
    moreover have "unat ((?w + ?x) div ?x * ?x) = ((header + a) div a * a) mod 2 ^ LENGTH(32)"
      by (simp only: unat_word_ariths(2) unat_div u wx)
    ultimately show ?thesis by (simp only:)
  qed
  have "unat (?w mod ?x) = header mod a" by (simp only: unat_mod u w)
  then have m: "?w mod ?x \<noteq> 0 \<longleftrightarrow> header mod a \<noteq> 0" by (simp only: unat_eq_zero flip: \<open>unat (?w mod ?x) = header mod a\<close>)
  show ?thesis unfolding c2h_pdo_def Let_def using m r w by simp
qed

text \<open>C9. In a data PDU to the host the data begin after the header and its digest, at a multiple of the alignment that
  the host asked for and at the first such multiple; the offset always fits the 8 bits of its field.
\<close>

theorem c2h_data_offset:
  assumes "cpda \<le> MAX_HPDA"
  shows "let header = (if hdgst then 28 else 24); pdo = unat (c2h_pdo hdgst cpda)
    in (if cpda = 0 then pdo = header
        else 4 * (unat cpda + 1) dvd pdo \<and> header \<le> pdo \<and> pdo < header + 4 * (unat cpda + 1)) \<and> pdo < 256"
proof -
  let ?a = "4 * (unat cpda + 1)"
  define header where "header = (if hdgst then 28 else (24::nat))"
  define pdo where "pdo = unat (c2h_pdo hdgst cpda)"
  have c: "unat cpda \<le> 31" using assms(1) by (simp add: word_le_nat_alt)
  have h: "header \<le> 28" by (simp add: header_def)
  have p: "pdo = (if cpda \<noteq> 0 \<and> header mod ?a \<noteq> 0 then (header + ?a) div ?a * ?a else header)"
    unfolding pdo_def header_def by (rule c2h_pdo_nat [OF c])
  have "(if cpda = 0 then pdo = header else ?a dvd pdo \<and> header \<le> pdo \<and> pdo < header + ?a) \<and> pdo < 256"
  proof (cases "cpda \<noteq> 0 \<and> header mod ?a \<noteq> 0")
    case True
    then have "?a dvd pdo" "header < pdo" "pdo < header + ?a" using round_up_nat [of header ?a] p by simp_all
    then show ?thesis using True c h by simp
  next
    case False
    then show ?thesis using p h by (auto simp: dvd_eq_mod_eq_0)
  qed
  then show ?thesis unfolding Let_def header_def pdo_def .
qed

theorem c2h_data_offset_witness:
  "4 * (unat (3 :: u8) + 1) dvd unat (c2h_pdo True 3) \<and> unat (c2h_pdo True 3) < 28 + 16"
  using c2h_data_offset [of 3 True] by (simp add: Let_def)

section \<open>A connection\<close>

definition tcp_demo_env :: tcp_env where
  "tcp_demo_env = \<lparr>tv_opts = \<lparr>to_max_io_size = 131072, to_io_unit_size = 8192, to_in_capsule = 4096, to_c2h_success = True,
     to_zcopy = False\<rparr>, tv_ns_zcopy = False, tv_others_progress = True\<rparr>"

definition ic_pdu :: "bool \<Rightarrow> tcp_pdu" where
  "ic_pdu ddgst = zero_pdu\<lparr>pd_type := PduIcReq, pd_hlen := 128, pd_plen := 128, pd_ddgst_enable := ddgst\<rparr>"

definition cmd_pdu :: "tcp_cmd \<Rightarrow> tcp_pdu" where
  "cmd_pdu c = zero_pdu\<lparr>pd_type := PduCapsuleCmd, pd_hlen := 72, pd_plen := 72, pd_psh_len := 64, pd_cmd := c\<rparr>"

definition h2c_pdu :: "u16 \<Rightarrow> u16 \<Rightarrow> u32 \<Rightarrow> u32 \<Rightarrow> tcp_pdu" where
  "h2c_pdu cid tag off len = zero_pdu\<lparr>pd_type := PduH2cData, pd_hlen := 24, pd_plen := 24 + len, pd_psh_len := 16,
     pd_cccid := cid, pd_ttag := tag, pd_datao := off, pd_datal := len\<rparr>"

definition demo_write :: tcp_cmd where
  "demo_write = no_cmd\<lparr>tc_opc := 1, tc_cid := 7, tc_xfer := XferH2C, tc_sgl_length := 4096\<rparr>"

definition connect_events :: "bool \<Rightarrow> tcp_event list" where
  "connect_events ddgst = [TcHeader (ic_pdu ddgst), TcPsh, TcMgmtWritten False]"

definition pdu_events :: "tcp_pdu \<Rightarrow> tcp_event list" where
  "pdu_events pdu = [TcHeader pdu, TcPsh] @ (if pd_type pdu = PduCapsuleCmd then [TcSlot] else [TcPayload])"

definition tcp_run :: "tcp_event list \<Rightarrow> fault + tcp_qpair" where
  "tcp_run es = runR tcp_step (new_tcp_qpair 2 False 4 8 1) (map (Pair tcp_demo_env) es)"

definition tcp_after :: "tcp_event list \<Rightarrow> tcp_qpair" where
  "tcp_after es = (case tcp_run es of Inr q \<Rightarrow> q | Inl _ \<Rightarrow> new_tcp_qpair 2 False 4 8 1)"

definition write_asked :: "bool \<Rightarrow> tcp_event list" where
  "write_asked ddgst = connect_events ddgst @ pdu_events (cmd_pdu demo_write)"

section \<open>What hosts can do\<close>

text \<open>C14. The length of a data PDU is checked with 32 bits: a PDU whose offset is the one expected is accepted also when offset and
  length together pass the 32 bits and come out small again. The queue pair then reads that many bytes, far more than the
  request has room for, to the buffers of the request.
\<close>

theorem h2c_length_wraps:
  assumes "tq_recv q = RecvPsh" and "\<not> tq_gone q"
    and "pd_type (tq_pdu q) = PduH2cData" and "\<not> pd_has_hdgst (tq_pdu q)"
    and "0 < unat (pd_ttag (tq_pdu q))" and "unat (pd_ttag (tq_pdu q)) \<le> length (tq_reqs q)"
    and "tr_state (tq_reqs q ! (unat (pd_ttag (tq_pdu q)) - 1)) \<in> {TrTransferH2C, TrAwaitR2tAck}"
    and "tc_cid (tr_cmd (tq_reqs q ! (unat (pd_ttag (tq_pdu q)) - 1))) = pd_cccid (tq_pdu q)"
    and "tr_h2c_offset (tq_reqs q ! (unat (pd_ttag (tq_pdu q)) - 1)) = pd_datao (tq_pdu q)"
    and "2 ^ 32 \<le> unat (pd_datao (tq_pdu q)) + unat (pd_datal (tq_pdu q))"
    and "unat (pd_datao (tq_pdu q)) + unat (pd_datal (tq_pdu q)) \<le>
      2 ^ 32 + unat (tr_length (tq_reqs q ! (unat (pd_ttag (tq_pdu q)) - 1)))"
  shows "\<exists>q'. tcp_step q (env, TcPsh) = Inr q' \<and> tq_recv q' = RecvPayload \<and> tq_data_len q' = pd_datal (tq_pdu q) \<and>
    tq_pdu_req q' = Some (unat (pd_ttag (tq_pdu q)) - 1) \<and> tq_out q' = tq_out q"
proof -
  let ?p = "tq_pdu q" and ?l = "tr_length (tq_reqs q ! (unat (pd_ttag (tq_pdu q)) - 1))"
  let ?s = "unat (pd_datao ?p) + unat (pd_datal ?p)"
  have lt: "unat (pd_datao ?p) < 2 ^ 32" "unat (pd_datal ?p) < 2 ^ 32" by (rule unat_u32_less)+
  have "unat (pd_datao ?p + pd_datal ?p) = ?s mod 2 ^ 32" by (simp add: unat_word_ariths)
  also have "\<dots> = ?s - 2 ^ 32" using assms(10) lt by (simp add: le_mod_geq)
  also have "\<dots> \<le> unat ?l" using assms(11) by simp
  finally have "\<not> ?l < pd_datao ?p + pd_datal ?p" by (simp add: word_less_nat_alt not_less)
  moreover have "pd_ttag ?p \<noteq> 0" using assms(5) by auto
  ultimately have "psh_handle q = Inr (q\<lparr>tq_pdu_req := Some (unat (pd_ttag ?p) - 1), tq_data_len := pd_datal ?p, tq_recv := RecvPayload\<rparr>)"
    using assms unfolding psh_handle_def h2c_data_hdr_handle_def Let_def by auto
  then show ?thesis using assms(1,2) by (simp add: tcp_step_def if_ready_def take_pdu_def)
qed

definition wrap_state :: tcp_qpair where
  "wrap_state = tcp_after (write_asked False @ [TcWritten 0 False] @ pdu_events (h2c_pdu 7 1 0 512) @
     [TcHeader (h2c_pdu 7 1 512 0xFFFFFE00)])"

theorem h2c_length_wraps_witness:
  "\<exists>q'. tcp_step wrap_state (tcp_demo_env, TcPsh) = Inr q' \<and> tq_data_len q' = 0xFFFFFE00"
proof -
  have p: "pd_type (tq_pdu wrap_state) = PduH2cData" "\<not> pd_has_hdgst (tq_pdu wrap_state)" "pd_ttag (tq_pdu wrap_state) = 1"
    "pd_cccid (tq_pdu wrap_state) = 7" "pd_datao (tq_pdu wrap_state) = 512" "pd_datal (tq_pdu wrap_state) = 0xFFFFFE00"
    by code_simp+
  have "tq_recv wrap_state = RecvPsh" "\<not> tq_gone wrap_state" "length (tq_reqs wrap_state) = 2"
    "tr_state (tq_reqs wrap_state ! 0) = TrTransferH2C" "tc_cid (tr_cmd (tq_reqs wrap_state ! 0)) = 7"
    "tr_h2c_offset (tq_reqs wrap_state ! 0) = 512" "tr_length (tq_reqs wrap_state ! 0) = 4096"
    by code_simp+
  then show ?thesis using h2c_length_wraps [of wrap_state tcp_demo_env] p by auto
qed

lemma process_loop_unchanged: "f q = Inr q' \<Longrightarrow> tst q' i = tst q i \<Longrightarrow> process_loop 16 f i q = Inr q'"
  using process_loop.simps(2) [of 15 f i q] by simp

definition bad_head :: "nat \<Rightarrow> tcp_qpair \<Rightarrow> bool" where
  "bad_head i q \<longleftrightarrow> \<not> tq_gone q \<and> tq_active q \<and> tst q i = TrNeedBuffer \<and>
     tc_sgl_type (tr_cmd (the_req q i)) = SglOther \<and> (\<exists>ps. tq_pending q = PendOwn i # ps)"

lemma bad_head_poll:
  assumes "bad_head i q"
  shows "tcp_step q (env, TcPoll) = Inr (send_c2h_term_req FesUnsupported q)" and "bad_head i (send_c2h_term_req FesUnsupported q)"
proof -
  let ?q = "send_c2h_term_req FesUnsupported q"
  obtain ps where ps: "tq_pending q = PendOwn i # ps" using assms by (auto simp: bad_head_def)
  show "bad_head i ?q" using assms by (simp add: bad_head_def send_c2h_term_req_def emit_def)
  have "process_round kick env i q = Inr ?q" for kick
    using assms ps unfolding process_round_def process_need_buffer_def parse_sgl_def by (simp add: bad_head_def)
  then have "req_process env i q = Inr ?q"
    using assms unfolding req_process_def process_nested.simps process_with_def Let_def
    by (simp add: bad_head_def process_loop_unchanged send_c2h_term_req_def emit_def)
  then have "tcp_poll env q = Inr ?q"
    unfolding tcp_poll_def ps by (simp add: send_c2h_term_req_def emit_def)
  then show "tcp_step q (env, TcPoll) = Inr ?q"
    using assms by (simp add: bad_head_def tcp_step_def take_pdu_def send_c2h_term_req_def emit_def)
qed

text \<open>C15. A command whose SGL the target does not understand stays at the head of the queue for buffers: each poll of the
  group sends the host one more termination request and gives no buffer to any request behind it, also of other queue
  pairs of the group.
\<close>

theorem bad_sgl_blocks_group:
  assumes "tq_pending q = PendOwn i # ps" and "tr_state (tq_reqs q ! i) = TrNeedBuffer"
    and "tc_sgl_type (tr_cmd (tq_reqs q ! i)) = SglOther" and "tq_active q" and "\<not> tq_gone q"
  shows "\<exists>q'. runR tcp_step q (map (\<lambda>env. (env, TcPoll)) envs) = Inr q' \<and> tq_pending q' = PendOwn i # ps \<and>
    tq_out q' = tq_out q @ replicate (length envs) (OutTerm FesUnsupported) \<and>
    tq_cache q' = tq_cache q \<and> tq_pool q' = tq_pool q"
proof -
  have "\<exists>q'. runR tcp_step q (map (\<lambda>env. (env, TcPoll)) envs) = Inr q' \<and> tq_pending q' = tq_pending q \<and>
    tq_out q' = tq_out q @ replicate (length envs) (OutTerm FesUnsupported) \<and>
    tq_cache q' = tq_cache q \<and> tq_pool q' = tq_pool q" if "bad_head i q" for q
    using that
  proof (induction envs arbitrary: q)
    case (Cons env envs)
    show ?case using Cons.IH [OF bad_head_poll(2) [OF Cons.prems]] bad_head_poll(1) [OF Cons.prems, of env]
      by (simp add: send_c2h_term_req_def emit_def)
  qed simp
  from this [of q] show ?thesis using assms by (simp add: bad_head_def)
qed

definition blocked_state :: tcp_qpair where
  "blocked_state = tcp_after (connect_events False @ pdu_events (cmd_pdu (demo_write\<lparr>tc_sgl_type := SglOther\<rparr>)) @ [TcOtherWaits])"

theorem bad_sgl_blocks_group_witness:
  "\<exists>q'. runR tcp_step blocked_state (replicate 3 (tcp_demo_env, TcPoll)) = Inr q' \<and> tq_pending q' = [PendOwn 0, PendOther]"
proof -
  have "tq_pending blocked_state = [PendOwn 0, PendOther]" "tr_state (tq_reqs blocked_state ! 0) = TrNeedBuffer"
    "tc_sgl_type (tr_cmd (tq_reqs blocked_state ! 0)) = SglOther" "tq_active blocked_state" "\<not> tq_gone blocked_state"
    by code_simp+
  then show ?thesis using bad_sgl_blocks_group [of blocked_state 0 "[PendOther]" "replicate 3 tcp_demo_env"] by auto
qed

lemma drain_other: "\<forall>i \<in> set is. tst q i \<noteq> s \<Longrightarrow> drain env s is q = Inr q"
proof (induction "is")
  case (Cons i "is")
  then show ?case by (simp split: option.split)
qed simp

lemma abort_no_writes: "\<forall>i \<in> set is. \<not> tr_pdu_in_use (the_req q i) \<Longrightarrow> abort_writes env is q = Inr q"
  by (induction "is") simp_all

text \<open>Closing a queue pair frees the requests in six states only, a request that waits to be executed not among
  them. The first of two fused commands, whose partner has not come, waits so: its slot is not freed and its data
  buffers do not go back to the group's pool.
\<close>

theorem close_forgets_ready:
  assumes "\<not> tq_active q" and "\<not> tq_gone q" and "tq_recv q = RecvError"
    and "\<forall>i < length (tq_reqs q). \<not> tr_pdu_in_use (tq_reqs q ! i)"
    and "\<forall>i \<in> set (tq_working q). tr_state (tq_reqs q ! i) = TrReadyToExecute"
  shows "\<exists>q'. tcp_step q (env, TcClose) = Inr q' \<and> tq_gone q' \<and> tq_reqs q' = tq_reqs q \<and> tq_working q' = tq_working q \<and>
    tq_cache q' = tq_cache q \<and> tq_pool q' = tq_pool q"
proof -
  let ?q = "q\<lparr>tq_state := TqExited, tq_active := False\<rparr>"
  have w: "wipe_pending ?q = ?q" using assms(5) by (simp add: wipe_pending_def filter_empty_conv)
  have d: "drain_state_queue env s ?q = Inr ?q" if "s \<noteq> TrReadyToExecute" for s
    unfolding drain_state_queue_def by (rule drain_other) (use assms(5) that in auto)
  have "cleanup_all_states env ?q = Inr ?q" unfolding cleanup_all_states_def by (simp add: d w)
  moreover have "abort_writes env [0..<length (tq_reqs q)] ?q = Inr ?q" by (rule abort_no_writes) (use assms(4) in simp)
  ultimately have "close_qpair env q = Inr (?q\<lparr>tq_timeout := False, tq_gone := True\<rparr>)" unfolding close_qpair_def by simp
  then show ?thesis using assms(1-3) by (simp add: tcp_step_def if_ready_def take_pdu_def)
qed

definition fused_waiting :: tcp_qpair where
  "fused_waiting = tcp_after (connect_events False @
     pdu_events (cmd_pdu (demo_write\<lparr>tc_opc := 5, tc_fuse := FuseFirst\<rparr>)) @
     [TcWritten 0 False] @ pdu_events (h2c_pdu 7 1 0 4096) @ [TcSockError])"

theorem close_forgets_ready_witness:
  "\<exists>q'. tcp_step fused_waiting (tcp_demo_env, TcClose) = Inr q' \<and> tq_working q' = [0] \<and> tq_cache q' + tq_pool q' = 11"
proof -
  have "\<forall>i < length (tq_reqs fused_waiting). \<not> tr_pdu_in_use (tq_reqs fused_waiting ! i)"
    "\<forall>i \<in> set (tq_working fused_waiting). tr_state (tq_reqs fused_waiting ! i) = TrReadyToExecute"
    "tq_working fused_waiting = [0]" "tq_cache fused_waiting + tq_pool fused_waiting = 11"
    "\<not> tq_active fused_waiting" "\<not> tq_gone fused_waiting" "tq_recv fused_waiting = RecvError"
    by code_simp+
  then show ?thesis using close_forgets_ready [of fused_waiting tcp_demo_env] by auto
qed

lemma the_upd [simp]: "i < slots q \<Longrightarrow> the_req (upd_req i f q) i = f (the_req q i)"
  by (simp add: upd_req_def)

lemma the_set_state [simp]: "i < slots q \<Longrightarrow> the_req (req_set_state i s q) i = (the_req q i)\<lparr>tr_state := s\<rparr>"
  by (simp add: req_set_state_def upd_req_def Let_def)

lemma the_emit [simp]: "tq_reqs (emit x q) = tq_reqs q" "tq_active (emit x q) = tq_active q" "tq_out (emit x q) = tq_out q @ [x]"
  "tq_recv (emit x q) = tq_recv q" "tq_gone (emit x q) = tq_gone q" "tq_free (emit x q) = tq_free q"
  "tq_working (emit x q) = tq_working q"
  by (simp_all add: emit_def)

lemma set_state_more [simp]: "tq_out (req_set_state i s q) = tq_out q" "tq_recv (req_set_state i s q) = tq_recv q"
  "tq_gone (req_set_state i s q) = tq_gone q" "tq_out (upd_req i f q) = tq_out q" "tq_recv (upd_req i f q) = tq_recv q"
  "tq_gone (upd_req i f q) = tq_gone q"
  by (simp_all add: req_set_state_def upd_req_def Let_def)

lemma take_pdu_more [simp]: "tq_reqs (take_pdu q) = tq_reqs q" "tq_out (take_pdu q) = tq_out q"
  by (simp_all add: take_pdu_def)

lemma process_loop_one:
  assumes "f q = Inr q1" "tst q1 i \<noteq> tst q i" "f q1 = Inr q1"
  shows "process_loop 16 f i q = Inr q1"
  using process_loop.simps(2) [of 15 f i q] process_loop.simps(2) [of 14 f i q1] assms by simp

lemma process_plain:
  assumes "tst q i = TrReadyToExecute" "i < slots q" "tq_active q"
    and "tc_fuse (tr_cmd (the_req q i)) = FuseNone" "\<not> tr_zcopy (the_req q i)"
  shows "req_process env i q = Inr (exec_req i q)"
proof -
  have "process_round kick env i q = Inr (exec_req i q)" for kick
    using assms unfolding process_round_def process_ready_def Let_def by simp
  moreover have "tst (exec_req i q) i = TrExecuting" using assms(2) by (simp add: exec_req_def)
  moreover from this have "process_round kick env i (exec_req i q) = Inr (exec_req i q)" for kick
    by (simp add: process_round_def)
  ultimately show ?thesis
    using assms(1,3) unfolding req_process_def process_nested.simps process_with_def Let_def by (simp add: process_loop_one)
qed

text \<open>C16. When the data of a write arrive before the R2T that asked for them is known to be sent, the result of the check of
  their digest is forgotten: the write is executed with data that are known to be corrupted. (When the R2T is known to be
  sent first, the write fails with a transient transport error.)
\<close>

theorem digest_error_executed:
  assumes "i < length (tq_reqs q)" and "tq_reqs q ! i = r" and "tq_active q" and "\<not> tq_gone q"
    and "tr_state r = TrAwaitR2tAck" and "tr_pdu_in_use r" and "tr_sent r = SentR2t"
    and "tr_h2c_offset r = tr_length r" and "st_sc (tr_status r) = TRANSIENT_TRANSPORT_ERROR"
    and "tc_fuse (tr_cmd r) = FuseNone" and "\<not> tr_zcopy r"
  shows "\<exists>q'. tcp_step q (env, TcWritten i False) = Inr q' \<and> tr_state (tq_reqs q' ! i) = TrExecuting \<and>
    tq_out q' = tq_out q @ [OutExec i]"
proof -
  let ?q1 = "upd_req i (\<lambda>r. r\<lparr>tr_pdu_in_use := False\<rparr>) q"
  let ?q2 = "req_set_state i TrReadyToExecute (req_set_state i TrTransferH2C ?q1)"
  have "tr_h2c_offset (the_req (req_set_state i TrTransferH2C ?q1) i) = tr_length (the_req (req_set_state i TrTransferH2C ?q1) i)"
    using assms(1,2,8) by simp
  moreover have "req_process env i ?q2 = Inr (exec_req i ?q2)"
    by (rule process_plain) (use assms in simp_all)
  ultimately have "r2t_complete env i ?q1 = Inr (exec_req i ?q2)" unfolding r2t_complete_def Let_def by simp
  then have "req_pdu_write_done env False i q = Inr (exec_req i ?q2)"
    using assms unfolding req_pdu_write_done_def Let_def by simp
  then have "tcp_step q (env, TcWritten i False) = Inr (take_pdu (exec_req i ?q2))"
    using assms by (simp add: tcp_step_def if_ready_def)
  then show ?thesis using assms(1) by (simp add: exec_req_def)
qed

definition bad_digest_state :: tcp_qpair where
  "bad_digest_state = tcp_after (write_asked True @ pdu_events (h2c_pdu 7 1 0 4096) @ [TcCrcDone 0 False])"

theorem digest_error_executed_witness:
  "\<exists>q'. tcp_step bad_digest_state (tcp_demo_env, TcWritten 0 False) = Inr q' \<and>
     tq_out q' = [OutIcResp, OutR2t 0 0 4096, OutExec 0]"
proof -
  have r: "tr_state (tq_reqs bad_digest_state ! 0) = TrAwaitR2tAck" "tr_pdu_in_use (tq_reqs bad_digest_state ! 0)"
    "tr_sent (tq_reqs bad_digest_state ! 0) = SentR2t"
    "tr_h2c_offset (tq_reqs bad_digest_state ! 0) = tr_length (tq_reqs bad_digest_state ! 0)"
    "st_sc (tr_status (tq_reqs bad_digest_state ! 0)) = TRANSIENT_TRANSPORT_ERROR"
    "tc_fuse (tr_cmd (tq_reqs bad_digest_state ! 0)) = FuseNone" "\<not> tr_zcopy (tq_reqs bad_digest_state ! 0)"
    by code_simp+
  have "length (tq_reqs bad_digest_state) = 2" "tq_active bad_digest_state" "\<not> tq_gone bad_digest_state"
    "tq_out bad_digest_state = [OutIcResp, OutR2t 0 0 4096]"
    by code_simp+
  then show ?thesis using digest_error_executed [of 0 bad_digest_state _ tcp_demo_env, OF _ refl _ _ r] by auto
qed

lemma process_loop_two:
  assumes "f q = Inr q1" "tst q1 i \<noteq> tst q i" "f q1 = Inr q2" "tst q2 i \<noteq> tst q1 i" "f q2 = Inr q2"
  shows "process_loop 16 f i q = Inr q2"
  using process_loop.simps(2) [of 15 f i q] process_loop.simps(2) [of 14 f i q1] process_loop.simps(2) [of 13 f i q2] assms
  by simp

lemma process_new_plain:
  assumes i: "i < slots q" "tst q i = TrNew" and a: "tq_active q" and z: "\<not> tr_zcopy (the_req q i)" and f: "tq_fused_first q = None"
    and c: "tc_fuse (pd_cmd (tq_pdu q)) = FuseNone" "tc_xfer (pd_cmd (tq_pdu q)) = XferNone"
  shows "req_process env i q =
    Inr (exec_req i (req_set_state i TrReadyToExecute (set_recv RecvReady (upd_req i (\<lambda>r. r\<lparr>tr_cmd := pd_cmd (tq_pdu q)\<rparr>) q))))"
proof -
  let ?q0 = "set_recv RecvReady (upd_req i (\<lambda>r. r\<lparr>tr_cmd := pd_cmd (tq_pdu q)\<rparr>) q)"
  let ?q1 = "req_set_state i TrReadyToExecute ?q0" and ?q2 = "exec_req i (req_set_state i TrReadyToExecute ?q0)"
  have q0: "slots ?q0 = slots q" "the_req ?q0 i = (the_req q i)\<lparr>tr_cmd := pd_cmd (tq_pdu q)\<rparr>" using i(1) by (simp_all add: set_recv_def)
  have "process_round kick env i q = Inr ?q1" for kick
    using i c f unfolding process_round_def process_new_def check_fused_ordering_def Let_def by simp
  moreover have "tst ?q1 i = TrReadyToExecute" using i(1) q0(1) by simp
  moreover have "process_round kick env i ?q1 = Inr ?q2" for kick
    using i(1) q0 c z unfolding process_round_def process_ready_def Let_def by simp
  moreover have t2: "tst ?q2 i = TrExecuting" using i(1) q0(1) by (simp add: exec_req_def)
  moreover from t2 have "process_round kick env i ?q2 = Inr ?q2" for kick by (simp add: process_round_def)
  ultimately show ?thesis
    using i(2) a unfolding req_process_def process_nested.simps process_with_def Let_def
    by (simp add: process_loop_two [of "process_round (process_nested (slots q) env) env i" q ?q1 i ?q2])
qed

text \<open>A command that needs no data and is not fused takes the first free slot, is handed to the target at once, and the queue pair waits
  for the next PDU.
\<close>

theorem plain_command_executed:
  assumes "tq_recv q = RecvReq" and "tq_active q" and "\<not> tq_gone q" and "tq_fused_first q = None"
    and "tq_free q = i # rest" and "i < length (tq_reqs q)"
    and "tc_fuse (pd_cmd (tq_pdu q)) = FuseNone" and "tc_xfer (pd_cmd (tq_pdu q)) = XferNone"
  shows "\<exists>q'. tcp_step q (env, TcSlot) = Inr q' \<and> tr_state (tq_reqs q' ! i) = TrExecuting \<and>
    tr_cmd (tq_reqs q' ! i) = pd_cmd (tq_pdu q) \<and> tr_status (tq_reqs q' ! i) = st_success \<and>
    tq_free q' = rest \<and> tq_working q' = tq_working q @ [i] \<and> tq_out q' = tq_out q @ [OutExec i] \<and> tq_recv q' = RecvCh"
proof -
  let ?l = "q\<lparr>tq_free := rest, tq_working := tq_working q @ [i]\<rparr>"
  let ?c = "upd_req i (\<lambda>r. r\<lparr>tr_status := st_success, tr_rsp_zero := True, tr_h2c_offset := 0, tr_icd := False, tr_zcopy := False\<rparr>) ?l"
  let ?n = "(req_set_state i TrNew ?c)\<lparr>tq_pdu_req := Some i\<rparr>"
  have pdu: "tq_pdu ?n = tq_pdu q" by (simp add: req_set_state_def upd_req_def Let_def)
  have n: "slots ?n = slots q" "tq_active ?n" "tq_fused_first ?n = None" "the_req ?n i = (the_req ?c i)\<lparr>tr_state := TrNew\<rparr>"
    using assms(2,4,6) by simp_all
  let ?r = "exec_req i (req_set_state i TrReadyToExecute (set_recv RecvReady (upd_req i (\<lambda>r. r\<lparr>tr_cmd := pd_cmd (tq_pdu q)\<rparr>) ?n)))"
  have "req_process env i ?n = Inr ?r"
    unfolding pdu [symmetric] by (rule process_new_plain) (use assms n pdu in simp_all)
  then have "capsule_cmd_hdr_handle env q = Inr ?r"
    unfolding capsule_cmd_hdr_handle_def req_get_def assms(5) by simp
  then have "tcp_step q (env, TcSlot) = Inr (take_pdu ?r)"
    using assms(1,3) by (simp add: tcp_step_def if_ready_def)
  then show ?thesis using assms(6) by (simp add: exec_req_def take_pdu_def set_recv_def)
qed

definition flush_state :: tcp_qpair where
  "flush_state = tcp_after (connect_events False @ [TcHeader (cmd_pdu (no_cmd\<lparr>tc_cid := 9\<rparr>)), TcPsh])"

theorem plain_command_executed_witness:
  "\<exists>q'. tcp_step flush_state (tcp_demo_env, TcSlot) = Inr q' \<and> tq_out q' = [OutIcResp, OutExec 0] \<and> tq_free q' = [1]"
proof -
  have "tq_recv flush_state = RecvReq" "tq_active flush_state" "\<not> tq_gone flush_state" "tq_fused_first flush_state = None"
    "tq_free flush_state = [0, 1]" "0 < length (tq_reqs flush_state)" "tq_out flush_state = [OutIcResp]"
    "tc_fuse (pd_cmd (tq_pdu flush_state)) = FuseNone" "tc_xfer (pd_cmd (tq_pdu flush_state)) = XferNone"
    by code_simp+
  then show ?thesis using plain_command_executed [of flush_state 0 "[1]" tcp_demo_env] by auto
qed

text \<open>The walk that frees the requests of one state when the queue pair is closed stops early: freeing the first of
  two fused commands (0) kicks its partner (1), the next in the list, which is then in the list of free requests,
  where the walk goes on. The request behind it (2) is not freed although it is in the same state.\<close>

definition partner_next :: tcp_qpair where
  "partner_next = (new_tcp_qpair 3 False 0 0 0)\<lparr>tq_active := False, tq_free := [], tq_working := [0, 1, 2],
     tq_cntr := (\<lambda>s. if s = TrNeedBuffer then 2 else if s = TrReadyToExecute then 1 else 0),
     tq_reqs := [new_req\<lparr>tr_state := TrNeedBuffer, tr_fused_pair := Some 1\<rparr>,
       new_req\<lparr>tr_state := TrReadyToExecute, tr_fused_pair := Some 0\<rparr>, new_req\<lparr>tr_state := TrNeedBuffer\<rparr>]\<rparr>"

lemma drain_stops_at_partner:
  "\<exists>q. drain_state_queue tcp_demo_env TrNeedBuffer partner_next = Inr q \<and>
     map tr_state (tq_reqs q) = [TrFree, TrFree, TrNeedBuffer] \<and> tq_working q = [2]"
proof -
  have "case drain_state_queue tcp_demo_env TrNeedBuffer partner_next of Inl _ \<Rightarrow> False
    | Inr q \<Rightarrow> map tr_state (tq_reqs q) = [TrFree, TrFree, TrNeedBuffer] \<and> tq_working q = [2]" by code_simp
  then show ?thesis by (auto split: sum.splits)
qed

end
