(* ===== verification/Spec2Isabelle.thy ===== *)
theory Spec2Isabelle
  imports Sump_Props Reservation_Policy Subsys_State_Props Subsys_Props Discovery Log_Pages_Props Io_Cmd_Props Ctrlr_Life_Props
    Bdev_Io_Props Bdev_Reset_Props Tcp_Props
begin

text \<open>
  SUMP: a multipath library for SPDK, and the two parts of SPDK that the repository changes and builds with
  it, the NVMe block device module and the NVMe over Fabrics target. File names below are relative to
  \<^verbatim>\<open>src/\<close>.

  \<^bold>\<open>The program and its parts.\<close> The library (\<^verbatim>\<open>sump.c\<close>, \<^verbatim>\<open>sump_data.c\<close>, \<^verbatim>\<open>sump_ctrl.c\<close>,
  \<^verbatim>\<open>sump_util.c\<close>) takes the place of \<open>spdk_bdev_register\<close>, gathers the block devices of one
  uuid into one, and hands each I/O to one of their paths. The block device module (\<^verbatim>\<open>nvme/bdev_nvme.c\<close>) has its own
  paths to a namespace, retries I/Os, resets controllers and fails over. The target (\<^verbatim>\<open>nvmf/\<close>) receives commands
  over TCP (\<^verbatim>\<open>tcp.c\<close>), admits them in a poll group (\<^verbatim>\<open>nvmf.c\<close>, \<^verbatim>\<open>ctrlr.c\<close>), executes them on block devices
  (\<^verbatim>\<open>ctrlr_bdev.c\<close>) and keeps subsystems, controllers, reservations and log pages
  (\<^verbatim>\<open>subsystem.c\<close>, \<^verbatim>\<open>ctrlr.c\<close>, \<^verbatim>\<open>ctrlr_discovery.c\<close>).

  \<^bold>\<open>Theories and code.\<close> State is a record with the fields of the C structures that matter; each C function is
  a definition of the same name without its prefix (\<open>nvmf_\<close>, \<open>bdev_nvme_\<close>, \<open>nvmf_tcp_\<close>); a
  function that goes on later (message, iteration, poller, callback) is one event per continuation, and a
  \<open>..._step\<close> function composes the events of a component.
  \<^item> \<open>Prelude\<close>: words, faults, the error monad, keyed queues, and the locales of state machines
    (\<open>stepper\<close> and its extensions) that every component with steps interprets.
  \<^item> \<open>Sump_Data\<close>, \<open>Sump_Select\<close>, \<open>Sump_Core\<close>: the library; \<open>sump_step\<close> has registration, creation and
    destruction of channels, submission, completion and the pollers. \<open>Sump_Inv\<close> has its invariant,
    \<open>Sump_Props\<close> and \<open>Sump_Flow\<close> the properties: selection of paths, the ledger of I/Os, failover and failback.
  \<^item> \<open>Bdev_Path\<close>, \<open>Bdev_Io\<close>: paths and I/Os of a channel of \<open>bdev_nvme\<close> (\<open>bdev_step\<close>); properties in
    \<open>Bdev_Path_Props\<close> (the circular search is a scan, round robin) and \<open>Bdev_Io_Props\<close> (no I/O is lost).
    \<open>Bdev_Reset\<close>, \<open>Bdev_Reset_Props\<close>: reset, failover, delayed reconnection and destruction of
    a controller (\<open>reset_step\<close>).
  \<^item> \<open>Reservation\<close>, \<open>Reservation_Props\<close>, \<open>Reservation_Policy\<close>: persistent reservations, their persistence, the copy in
    the poll groups and the check of I/Os against an access policy stated independently (\<open>resv_allows\<close>).
  \<^item> \<open>Poll_Group\<close>, \<open>Poll_Group_Inv\<close>, \<open>Poll_Group_Steps\<close>, \<open>Poll_Group_Props\<close>: a subsystem in a poll group:
    admission, outstanding counters, pause and resume, queue pairs (\<open>pg_step\<close>).
  \<^item> \<open>Subsys_State\<close>, \<open>Subsys_State_Props\<close>: starting, stopping, pausing and resuming a subsystem over all
    poll groups (\<open>ss_step\<close>), with the transitions as an inductive relation.
  \<^item> \<open>Nqn\<close>, \<open>Subsys\<close>, \<open>Subsys_Inv\<close>, \<open>Subsys_Props\<close>: names, hosts, listeners, namespaces, controllers and ANA
    states of a subsystem (\<open>subsys_step\<close>).
  \<^item> \<open>Ctrlr_Events\<close>, \<open>Iovs\<close>, \<open>Log_Pages\<close>, \<open>Discovery\<close> with \<open>Ctrlr_Events_Props\<close>, \<open>Log_Pages_Props\<close>: asynchronous
    events (\<open>ctrlr_step\<close>), copying into scattered buffers, the log pages, the discovery page.
  \<^item> \<open>Io_Cmd\<close>, \<open>Io_Cmd_Props\<close>: I/O commands of a queue pair (\<open>io_step\<close>), fused pairs, Dataset Management.
  \<^item> \<open>Ctrlr_Life\<close>, \<open>Ctrlr_Life_Props\<close>: registers, reset, shutdown, timers and destruction of a controller
    (\<open>life_step\<close>).
  \<^item> \<open>Tcp\<close>, \<open>Tcp_Props\<close>: a queue pair of the TCP transport (\<open>tcp_step\<close>): headers, the states of a
    request, data buffers, abort, closing.

  \<^bold>\<open>Errors.\<close> Undefined behaviour of C is \<open>Inl fault\<close>, an error code is a value. \<open>assert\<close> has no branch.
  Allocations, the clock, the block device layer, the NVMe library, the socket and other threads answer through
  parameters (records \<open>..._env\<close>) or through the events; nothing is assumed of them but what a theorem names.

  \<^bold>\<open>What the lemmas show.\<close> Invariants over every run (reachable states of the library, subsystems, controllers,
  reservations, TCP slots and counters); conservation of I/Os, requests and events as equations of multisets;
  equivalence with independent specifications (circular search, access policy, grammar of names, log page as a
  slice); liveness (a reset can end, round robin is fair); and the orders of events in which the code fails,
  each as a theorem with a concrete run.

  \<^bold>\<open>Conditions.\<close> Theorems over \<open>guarded_reach\<close> hold for the events that a guard admits: \<open>pg_ok\<close> (poll group: no I/O command
  with opcode 0x0c, fresh addresses, namespaces in use are kept), \<open>calm\<close> (reset: no request while
  disconnecting for a delayed reconnection, which is not refused, and admin failures only with \<open>-ENXIO\<close>
  while a reset waits), \<open>io_ok\<close> (I/O commands: no \<open>-ENOMEM\<close> for the second of a fused pair, no refused resubmission of the
  only outstanding range), \<open>bd_ok\<close> (block device module: no path is removed), \<open>subsys_ok\<close>. What
  happens outside them is shown by \<open>command_0c_blocks_pause\<close>, \<open>lost_callback_hangs_reset\<close>,
  \<open>reset_while_delay_starts\<close>, \<open>stale_fused_request_completed_twice\<close>, \<open>unmap_resubmit_loses_request\<close> and
  \<open>deleted_path_used_after_free\<close>.

  \<^bold>\<open>Bounds and fuel.\<close> The circular search of \<open>find_loop\<close> is a \<open>partial_function (option)\<close>, proved to return
  for every cached path. Processing a TCP request repeats until its state stays: sixteen rounds are given, and
  kicking a request from another one is nested at most as deep as there are slots plus one; running out of either
  is the fault \<open>NoReturn\<close>, which \<open>tcp_counters_exact\<close> excludes in every run. A poll group holds fewer
  than 2^62 requests at a time. Machine integers are words of the width in C; sizes, addresses and times that the code
  does not let wrap are \<open>nat\<close> or words as the C type says.

  \<^bold>\<open>Not modelled.\<close> The weighted random selection of the library (floating point); RPC and configuration
  front ends; attaching controllers and namespaces, hot plug and the discovery client of \<open>bdev_nvme\<close>; creating and
  destroying channels while a controller is reset; the transports RDMA, Fibre Channel and vfio-user; Connect up to the
  choice of the controller, Features, Identify and the Abort command; the bytes of JSON files and sockets;
  data integrity fields; printing, tracing and statistics. They need libraries or hardware outside the
  repository or only translate parameters. An ANA group number beyond the array of groups changes nothing in
  \<open>attach_ns\<close>; \<open>subsys_inv\<close> shows that the code checks it before.
\<close>

end
